(* ===== verification/Kernel_Prelude.thy ===== *)
theory Kernel_Prelude
  imports Main "HOL-Library.Word"
begin

unbundle bit_operations_syntax

text \<open>
  The vocabulary every other theory of the development uses: the C integer types of
  \<open>kernel/types.h\<close>, the outcome of a kernel routine, the loops over arrays, and the generic
  lemmas on them.

  A routine that may fail returns a value of type \<open>'a res\<close>:
  \<^item> \<open>Ret x\<close>: it returned \<open>x\<close> (results and updated state);
  \<^item> \<open>Panic msg\<close>: it called \<open>panic(msg)\<close>;
  \<^item> \<open>Fault\<close>: it dereferenced a null pointer or left the bounds of an array;
  \<^item> \<open>Hang\<close>: it does not return (a loop that never ends, a spin lock that stays taken, or a
    recursion that used up the fuel the caller gave it).
  A theorem that concludes \<open>f s = Ret \<dots>\<close> therefore says that the routine returns, does not panic
  and touches no memory it should not.
\<close>

section \<open>Integer types and outcomes\<close>

type_synonym u8 = "8 word"
type_synonym u16 = "16 word"
type_synonym u32 = "32 word"
type_synonym u64 = "64 word"

datatype 'a res = Ret 'a | Panic string | Fault | Hang

primrec bind_res :: "'a res \<Rightarrow> ('a \<Rightarrow> 'b res) \<Rightarrow> 'b res" where
  "bind_res (Ret x) f = f x"
| "bind_res (Panic msg) f = Panic msg"
| "bind_res Fault f = Fault"
| "bind_res Hang f = Hang"

text \<open>A \<open>for\<close> loop whose body updates the state and may fail.\<close>

primrec foldM :: "('i \<Rightarrow> 's \<Rightarrow> 's res) \<Rightarrow> 'i list \<Rightarrow> 's \<Rightarrow> 's res" where
  "foldM f [] s = Ret s"
| "foldM f (x # xs) s = bind_res (f x s) (foldM f xs)"

text \<open>A pointer that is null or an index into an array of \<open>n\<close> elements, dereferenced.\<close>

definition deref :: "nat \<Rightarrow> nat option \<Rightarrow> nat res" where
  "deref n p = (case p of None \<Rightarrow> Fault | Some i \<Rightarrow> if i < n then Ret i else Fault)"

section \<open>Collections of rewrite rules\<close>

named_theorems res_simps \<open>rewriting outcomes\<close>
named_theorems idx_simps \<open>arithmetic of heap-ordered tree indices\<close>

section \<open>Lemmas on outcomes\<close>

lemma bind_res_assoc [res_simps]:
  "bind_res (bind_res m f) g = bind_res m (\<lambda>x. bind_res (f x) g)"
  by (cases m) simp_all

lemma bind_res_Ret [simp]: "bind_res m Ret = m"
  by (cases m) simp_all

lemma bind_res_eq_Ret:
  "bind_res m f = Ret y \<longleftrightarrow> (\<exists>x. m = Ret x \<and> f x = Ret y)"
  by (cases m) simp_all

lemma bind_res_RetE [elim!]:
  assumes "bind_res m f = Ret y"
  obtains x where "m = Ret x" and "f x = Ret y"
  using assms by (auto simp: bind_res_eq_Ret)

lemma bind_res_if [res_simps]:
  "bind_res (if b then m else n) f = (if b then bind_res m f else bind_res n f)"
  by simp

lemma deref_Some [simp]: "i < n \<Longrightarrow> deref n (Some i) = Ret i"
  by (simp add: deref_def)

lemma deref_None [simp]: "deref n None = Fault"
  by (simp add: deref_def)

lemma foldM_append [res_simps]:
  "foldM f (xs @ ys) s = bind_res (foldM f xs s) (foldM f ys)"
proof (induction xs arbitrary: s)
  case (Cons x xs)
  then show ?case by (cases "f x s") simp_all
qed simp

text \<open>
  The loop rule: an indexed invariant that the body takes from \<open>i\<close> to \<open>Suc i\<close> holds at the end of
  the loop over \<open>[a..<b]\<close>, and the loop returns.
\<close>

lemma foldM_upt_inv:
  assumes "a \<le> b" and "Inv a s"
    and "\<And>i t. a \<le> i \<Longrightarrow> i < b \<Longrightarrow> Inv i t \<Longrightarrow> \<exists>t'. f i t = Ret t' \<and> Inv (Suc i) t'"
  shows "\<exists>s'. foldM f [a..<b] s = Ret s' \<and> Inv b s'"
  using assms
proof (induction "b - a" arbitrary: a s)
  case 0
  then show ?case by simp
next
  case (Suc n)
  then have lt: "a < b" by simp
  from Suc.prems(3)[OF _ lt Suc.prems(2)] obtain t where
    t: "f a s = Ret t" "Inv (Suc a) t" by auto
  have "\<exists>s'. foldM f [Suc a..<b] t = Ret s' \<and> Inv b s'"
    using Suc.prems(3) lt t(2) Suc.hyps(2) by (intro Suc.hyps(1)) auto
  then show ?case using lt t(1) by (simp add: upt_conv_Cons)
qed

lemma fold_upt_inv:
  assumes "a \<le> b" and "Inv a s"
    and "\<And>i t. a \<le> i \<Longrightarrow> i < b \<Longrightarrow> Inv i t \<Longrightarrow> Inv (Suc i) (f i t)"
  shows "Inv b (fold f [a..<b] s)"
  using assms
proof (induction "b - a" arbitrary: a s)
  case 0
  then show ?case by simp
next
  case (Suc n)
  then have lt: "a < b" by simp
  have "Inv b (fold f [Suc a..<b] (f a s))"
    using Suc.prems lt Suc.hyps(2) by (intro Suc.hyps(1)) auto
  then show ?case using lt by (simp add: upt_conv_Cons)
qed

section \<open>Lemmas on machine integers\<close>

lemma unat_of_nat_small: "n < 2 ^ LENGTH('a) \<Longrightarrow> unat (of_nat n :: 'a::len word) = n"
  by (simp add: unat_of_nat take_bit_nat_eq_self)

lemma of_nat_word_eq_iff:
  "m < 2 ^ LENGTH('a) \<Longrightarrow> n < 2 ^ LENGTH('a) \<Longrightarrow>
    (of_nat m :: 'a::len word) = of_nat n \<longleftrightarrow> m = n"
  by (metis unat_of_nat_small)

lemma of_nat_word_le_iff:
  "m < 2 ^ LENGTH('a) \<Longrightarrow> n < 2 ^ LENGTH('a) \<Longrightarrow>
    (of_nat m :: 'a::len word) \<le> of_nat n \<longleftrightarrow> m \<le> n"
  by (simp add: word_le_nat_alt unat_of_nat_small)

lemma of_nat_word_less_iff:
  "m < 2 ^ LENGTH('a) \<Longrightarrow> n < 2 ^ LENGTH('a) \<Longrightarrow>
    (of_nat m :: 'a::len word) < of_nat n \<longleftrightarrow> m < n"
  by (simp add: word_less_nat_alt unat_of_nat_small)

lemma word_add_of_nat_inj:
  fixes w :: "'a::len word"
  assumes "m < 2 ^ LENGTH('a)" "n < 2 ^ LENGTH('a)"
  shows "w + of_nat m = w + of_nat n \<longleftrightarrow> m = n"
  using assms by (simp add: of_nat_word_eq_iff)

lemma unat_add_of_nat:
  fixes w :: "'a::len word"
  assumes "unat w + n < 2 ^ LENGTH('a)"
  shows "unat (w + of_nat n) = unat w + n"
proof -
  have "unat (of_nat n :: 'a word) = n" using assms by (simp add: unat_of_nat_small)
  then show ?thesis using assms by (simp add: unat_word_ariths)
qed

end
