(* ===== verification/Kernel_Spinlock.thy ===== *)
theory Kernel_Spinlock
  imports Kernel_Prelude
begin

text \<open>
  Spin locks (\<open>kernel/spinlock.c\<close>, \<open>kernel/spinlock.h\<close>).

  The first group of definitions is the code as one CPU runs it: the lock as a record, the
  per-CPU interrupt nesting (\<open>push_off\<close>, \<open>pop_off\<close>), and \<open>acquire\<close> and \<open>release\<close> composed of a lock
  part and an interrupt part. The lock part (\<open>acquire_lock\<close>, \<open>release_lock\<close>) is what the other
  components call: it keeps the panics of the source, and a lock that another CPU holds makes the
  caller spin, which is \<open>Hang\<close> for a caller that runs alone.

  The second group is the same code with its atomic steps interleaved over any number of CPUs, as
  a step relation; mutual exclusion is proved for every reachable state.
\<close>

section \<open>One CPU\<close>

record spinlock =
  lk_locked :: u32
  lk_name :: string
  lk_cpu :: "nat option"

text \<open>The interrupt part of \<open>struct cpu\<close> and the \<open>SIE\<close> bit of the hart's \<open>sstatus\<close>.\<close>

record cpu =
  noff :: int
  intena :: bool
  sie :: bool

definition initlock :: "string \<Rightarrow> spinlock" where
  "initlock name = \<lparr>lk_locked = 0, lk_name = name, lk_cpu = None\<rparr>"

definition holding :: "nat \<Rightarrow> spinlock \<Rightarrow> bool" where
  "holding me lk \<longleftrightarrow> lk_locked lk \<noteq> 0 \<and> lk_cpu lk = Some me"

definition push_off :: "cpu \<Rightarrow> cpu" where
  "push_off c =
    (let old = sie c;
         c1 = c\<lparr>sie := False\<rparr>;
         c2 = (if noff c1 = 0 then c1\<lparr>intena := old\<rparr> else c1)
     in c2\<lparr>noff := noff c2 + 1\<rparr>)"

definition pop_off :: "cpu \<Rightarrow> cpu res" where
  "pop_off c =
    (if sie c then Panic ''pop_off - interruptible''
     else if noff c < 1 then Panic ''pop_off''
     else let c1 = c\<lparr>noff := noff c - 1\<rparr>
          in Ret (if noff c1 = 0 \<and> intena c1 then c1\<lparr>sie := True\<rparr> else c1))"

definition acquire_lock :: "nat \<Rightarrow> spinlock \<Rightarrow> spinlock res" where
  "acquire_lock me lk =
    (if holding me lk then Panic ''acquire''
     else if lk_locked lk \<noteq> 0 then Hang
     else Ret (lk\<lparr>lk_locked := 1, lk_cpu := Some me\<rparr>))"

definition release_lock :: "nat \<Rightarrow> spinlock \<Rightarrow> spinlock res" where
  "release_lock me lk =
    (if \<not> holding me lk then Panic ''release''
     else Ret (lk\<lparr>lk_cpu := None, lk_locked := 0\<rparr>))"

definition acquire :: "nat \<Rightarrow> cpu \<Rightarrow> spinlock \<Rightarrow> (cpu \<times> spinlock) res" where
  "acquire me c lk =
    (let c1 = push_off c in bind_res (acquire_lock me lk) (\<lambda>lk1. Ret (c1, lk1)))"

definition release :: "nat \<Rightarrow> cpu \<Rightarrow> spinlock \<Rightarrow> (cpu \<times> spinlock) res" where
  "release me c lk =
    bind_res (release_lock me lk) (\<lambda>lk1. bind_res (pop_off c) (\<lambda>c1. Ret (c1, lk1)))"

text \<open>A lock nobody holds.\<close>

definition lk_free :: "spinlock \<Rightarrow> bool" where
  "lk_free lk \<longleftrightarrow> lk_locked lk = 0 \<and> lk_cpu lk = None"

lemma lk_free_initlock [simp]: "lk_free (initlock name)"
  by (simp add: lk_free_def initlock_def)

lemma acquire_free [simp]:
  "lk_free lk \<Longrightarrow> acquire_lock me lk = Ret (lk\<lparr>lk_locked := 1, lk_cpu := Some me\<rparr>)"
  by (simp add: lk_free_def acquire_lock_def holding_def)

lemma release_acquired [simp]:
  "lk_free lk \<Longrightarrow> release_lock me (lk\<lparr>lk_locked := 1, lk_cpu := Some me\<rparr>) = Ret lk"
  by (cases lk) (simp add: lk_free_def release_lock_def holding_def)

lemma acquire_held [simp]: "holding me lk \<Longrightarrow> acquire_lock me lk = Panic ''acquire''"
  by (simp add: acquire_lock_def)

section \<open>Nested critical sections and interrupts\<close>

text \<open>
  A kernel path on one CPU is a sequence of \<open>push_off\<close> and \<open>pop_off\<close> calls. The nesting depth it
  has reached, when it never pops more than it pushed, is \<open>nest_depth\<close>.
\<close>

datatype intr_op = Push | Pop

fun run_intr :: "intr_op list \<Rightarrow> cpu \<Rightarrow> cpu res" where
  "run_intr [] c = Ret c"
| "run_intr (Push # ops) c = run_intr ops (push_off c)"
| "run_intr (Pop # ops) c = bind_res (pop_off c) (run_intr ops)"

fun nest_depth :: "intr_op list \<Rightarrow> nat \<Rightarrow> nat option" where
  "nest_depth [] d = Some d"
| "nest_depth (Push # ops) d = nest_depth ops (Suc d)"
| "nest_depth (Pop # ops) d = (case d of 0 \<Rightarrow> None | Suc d' \<Rightarrow> nest_depth ops d')"

definition intr_inv :: "bool \<Rightarrow> nat \<Rightarrow> cpu \<Rightarrow> bool" where
  "intr_inv b d c \<longleftrightarrow> noff c = int d \<and> (if d = 0 then sie c = b else \<not> sie c \<and> intena c = b)"

lemma intr_inv_push: "intr_inv b d c \<Longrightarrow> intr_inv b (Suc d) (push_off c)"
  by (auto simp: intr_inv_def push_off_def Let_def split: if_splits)

lemma intr_inv_pop:
  "intr_inv b (Suc d) c \<Longrightarrow> \<exists>c'. pop_off c = Ret c' \<and> intr_inv b d c'"
  by (auto simp: intr_inv_def pop_off_def Let_def)

lemma run_intr_inv:
  "intr_inv b d c \<Longrightarrow> nest_depth ops d = Some d' \<Longrightarrow>
    \<exists>c'. run_intr ops c = Ret c' \<and> intr_inv b d' c'"
proof (induction ops c arbitrary: d rule: run_intr.induct)
  case (2 ops c)
  then show ?case by (auto intro: intr_inv_push)
next
  case (3 ops c)
  from "3.prems"(2) obtain e where d: "d = Suc e" and n: "nest_depth ops e = Some d'"
    by (cases d) auto
  from "3.prems"(1)[unfolded d] obtain c' where
    c': "pop_off c = Ret c'" "intr_inv b e c'" by (blast dest: intr_inv_pop)
  show ?case using "3.IH"[OF c'(2) n] c'(1) by simp
qed simp

section \<open>Many CPUs\<close>

text \<open>
  Where each CPU is in the code of \<open>acquire\<close> and \<open>release\<close>: outside, spinning on the atomic swap,
  past the swap but before \<open>lk->cpu = mycpu()\<close>, inside the critical section, and between
  \<open>lk->cpu = 0\<close> and the atomic store that frees the lock. \<open>Dead\<close> is a CPU that panicked.
\<close>

datatype lkpc = Outside | Spinning | Swapped | Critical | Clearing | Dead

record lksys =
  the_lock :: spinlock
  pcs :: "nat \<Rightarrow> lkpc"

inductive lk_step :: "lksys \<Rightarrow> lksys \<Rightarrow> bool" where
  enter: "pcs s i = Outside \<Longrightarrow> \<not> holding i (the_lock s) \<Longrightarrow>
    lk_step s (s\<lparr>pcs := (pcs s)(i := Spinning)\<rparr>)"
| enter_panic: "pcs s i = Outside \<Longrightarrow> holding i (the_lock s) \<Longrightarrow>
    lk_step s (s\<lparr>pcs := (pcs s)(i := Dead)\<rparr>)"
| swap_taken: "pcs s i = Spinning \<Longrightarrow> lk_locked (the_lock s) \<noteq> 0 \<Longrightarrow>
    lk_step s (s\<lparr>the_lock := (the_lock s)\<lparr>lk_locked := 1\<rparr>\<rparr>)"
| swap_free: "pcs s i = Spinning \<Longrightarrow> lk_locked (the_lock s) = 0 \<Longrightarrow>
    lk_step s (s\<lparr>the_lock := (the_lock s)\<lparr>lk_locked := 1\<rparr>, pcs := (pcs s)(i := Swapped)\<rparr>)"
| record_cpu: "pcs s i = Swapped \<Longrightarrow>
    lk_step s (s\<lparr>the_lock := (the_lock s)\<lparr>lk_cpu := Some i\<rparr>, pcs := (pcs s)(i := Critical)\<rparr>)"
| leave: "pcs s i = Critical \<Longrightarrow> holding i (the_lock s) \<Longrightarrow>
    lk_step s (s\<lparr>the_lock := (the_lock s)\<lparr>lk_cpu := None\<rparr>, pcs := (pcs s)(i := Clearing)\<rparr>)"
| leave_panic: "pcs s i = Critical \<Longrightarrow> \<not> holding i (the_lock s) \<Longrightarrow>
    lk_step s (s\<lparr>pcs := (pcs s)(i := Dead)\<rparr>)"
| free: "pcs s i = Clearing \<Longrightarrow>
    lk_step s (s\<lparr>the_lock := (the_lock s)\<lparr>lk_locked := 0\<rparr>, pcs := (pcs s)(i := Outside)\<rparr>)"

inductive lk_reachable :: "lksys \<Rightarrow> bool" where
  start: "lk_reachable \<lparr>the_lock = initlock name, pcs = (\<lambda>_. Outside)\<rparr>"
| step: "lk_reachable s \<Longrightarrow> lk_step s t \<Longrightarrow> lk_reachable t"

text \<open>The states in which the swap has returned 0 and the lock has not been freed yet.\<close>

definition owns :: "lkpc \<Rightarrow> bool" where
  "owns p \<longleftrightarrow> p = Swapped \<or> p = Critical \<or> p = Clearing"

definition lk_inv :: "lksys \<Rightarrow> bool" where
  "lk_inv s \<longleftrightarrow>
    (lk_locked (the_lock s) = 0 \<longrightarrow> (\<forall>i. \<not> owns (pcs s i))) \<and>
    (\<forall>i j. owns (pcs s i) \<longrightarrow> owns (pcs s j) \<longrightarrow> i = j) \<and>
    (\<forall>i. lk_cpu (the_lock s) = Some i \<longleftrightarrow> pcs s i = Critical) \<and>
    (\<forall>i. pcs s i \<noteq> Dead)"

lemma owns_simps [simp]:
  "owns Swapped" "owns Critical" "owns Clearing"
  "\<not> owns Outside" "\<not> owns Spinning" "\<not> owns Dead"
  by (simp_all add: owns_def)

lemma lk_inv_start: "lk_inv \<lparr>the_lock = initlock name, pcs = (\<lambda>_. Outside)\<rparr>"
  by (simp add: lk_inv_def initlock_def)

lemma lk_inv_holding: "lk_inv s \<Longrightarrow> holding i (the_lock s) \<longleftrightarrow> pcs s i = Critical"
  unfolding lk_inv_def holding_def by (metis owns_simps(2))

lemma lk_step_inv: "lk_step s t \<Longrightarrow> lk_inv s \<Longrightarrow> lk_inv t"
proof (induction rule: lk_step.induct)
  case (enter s i)
  then show ?case by (auto simp: lk_inv_def)
next
  case (enter_panic s i)
  then show ?case by (simp add: lk_inv_holding)
next
  case (swap_taken s i)
  then show ?case by (auto simp: lk_inv_def)
next
  case (swap_free s i)
  then show ?case by (auto simp: lk_inv_def)
next
  case (record_cpu s i)
  then show ?case by (auto simp: lk_inv_def) (metis owns_simps)+
next
  case (leave s i)
  then show ?case by (auto simp: lk_inv_def) (metis owns_simps)+
next
  case (leave_panic s i)
  then show ?case by (simp add: lk_inv_holding)
next
  case (free s i)
  then show ?case by (auto simp: lk_inv_def)
qed

lemma lk_reachable_inv: "lk_reachable s \<Longrightarrow> lk_inv s"
  by (induction rule: lk_reachable.induct) (auto intro: lk_inv_start lk_step_inv)

end
