(* ===== verification/Riscv.thy ===== *)
theory Riscv
  imports Kernel_Prelude
begin

text \<open>
  The page and page-table arithmetic of \<open>kernel/riscv.h\<close> and \<open>kernel/memlayout.h\<close>: rounding to page
  boundaries, the fields of a page-table entry, the index of a virtual address at a level of the
  Sv39 tree.
\<close>

abbreviation PGSIZE :: nat where "PGSIZE \<equiv> 4096"
abbreviation KERNBASE :: nat where "KERNBASE \<equiv> 0x80000000"
abbreviation PHYSTOP :: nat where "PHYSTOP \<equiv> KERNBASE + 128 * 1024 * 1024"
abbreviation PTE_V :: u64 where "PTE_V \<equiv> 1"
abbreviation PTE_R :: u64 where "PTE_R \<equiv> 2"
abbreviation PTE_W :: u64 where "PTE_W \<equiv> 4"
abbreviation PTE_X :: u64 where "PTE_X \<equiv> 8"
abbreviation PTE_U :: u64 where "PTE_U \<equiv> 16"
abbreviation MAXVA :: nat where "MAXVA \<equiv> 2 ^ 38"

abbreviation TRAMPOLINE :: u64 where "TRAMPOLINE \<equiv> 0x3FFFFFF000"
abbreviation TRAPFRAME :: u64 where "TRAPFRAME \<equiv> 0x3FFFFFE000"

definition KSTACK :: "nat \<Rightarrow> u64" where
  "KSTACK p = TRAMPOLINE - (of_nat p + 1) * 2 * of_nat PGSIZE"

definition PGROUNDUP :: "u64 \<Rightarrow> u64" where
  "PGROUNDUP sz = (sz + of_nat PGSIZE - 1) AND NOT (of_nat PGSIZE - 1)"

definition PGROUNDDOWN :: "u64 \<Rightarrow> u64" where
  "PGROUNDDOWN a = a AND NOT (of_nat PGSIZE - 1)"

definition PA2PTE :: "u64 \<Rightarrow> u64" where
  "PA2PTE pa = push_bit 10 (drop_bit 12 pa)"

definition PTE2PA :: "u64 \<Rightarrow> u64" where
  "PTE2PA pte = push_bit 12 (drop_bit 10 pte)"

definition PTE_FLAGS :: "u64 \<Rightarrow> u64" where
  "PTE_FLAGS pte = pte AND 0x3FF"

definition PXSHIFT :: "nat \<Rightarrow> nat" where
  "PXSHIFT level = 12 + 9 * level"

definition PX :: "nat \<Rightarrow> u64 \<Rightarrow> nat" where
  "PX level va = unat (drop_bit (PXSHIFT level) va AND 0x1FF)"

section \<open>Rounding\<close>

lemma page_mask: "(of_nat PGSIZE - 1 :: u64) = mask 12"
  by (simp add: mask_eq_exp_minus_1)

lemma and_not_mask: "x AND NOT (mask n) = push_bit n (drop_bit n (x :: 'a::len word))"
  by (rule bit_eqI) (auto simp: bit_simps not_le)

lemma unat_and_not_mask: "unat (x AND NOT (mask n) :: 'a::len word) = unat x - unat x mod 2 ^ n"
proof -
  have "push_bit n (drop_bit n x) + take_bit n x = x" by (rule bits_ident)
  then have "push_bit n (drop_bit n x) = x - take_bit n x" by (metis add_diff_cancel_right')
  moreover have "unat (take_bit n x) = unat x mod 2 ^ n"
    unfolding unsigned_take_bit_eq by (simp add: take_bit_eq_mod)
  ultimately show ?thesis
    by (metis and_not_mask unat_sub mod_less_eq_dividend word_le_nat_alt)
qed

lemma PGROUNDDOWN_unat: "unat (PGROUNDDOWN a) = unat a - unat a mod PGSIZE"
  unfolding PGROUNDDOWN_def page_mask unat_and_not_mask by simp

lemma PGROUNDUP_unat:
  assumes "unat a + PGSIZE \<le> 2 ^ 64"
  shows "unat (PGROUNDUP a) = (unat a + PGSIZE - 1) div PGSIZE * PGSIZE"
proof -
  have "unat (a + of_nat (PGSIZE - 1)) = unat a + (PGSIZE - 1)"
    using assms by (intro unat_add_of_nat) simp
  then show ?thesis
    unfolding PGROUNDUP_def page_mask unat_and_not_mask by (simp add: minus_mod_eq_div_mult add_diff_eq[symmetric])
qed

lemma PGROUNDUP_bounds:
  assumes "unat a + PGSIZE \<le> 2 ^ 64"
  shows "unat (PGROUNDUP a) mod PGSIZE = 0" "unat a \<le> unat (PGROUNDUP a)" "unat (PGROUNDUP a) < unat a + PGSIZE"
proof -
  note u = PGROUNDUP_unat[OF assms]
  show "unat (PGROUNDUP a) mod PGSIZE = 0" by (simp add: u)
  have "(unat a + PGSIZE - 1) div PGSIZE * PGSIZE = unat a + PGSIZE - 1 - (unat a + PGSIZE - 1) mod PGSIZE"
    by (simp add: minus_mod_eq_div_mult)
  moreover have "(unat a + PGSIZE - 1) mod PGSIZE < PGSIZE" by simp
  ultimately show "unat a \<le> unat (PGROUNDUP a)" "unat (PGROUNDUP a) < unat a + PGSIZE" unfolding u by linarith+
qed

end
