(* ===== verification/Buddy_Alloc.thy ===== *)
theory Buddy_Alloc
  imports Kernel_Spinlock Riscv
begin

text \<open>
  The buddy allocator (\<open>kernel/buddy_alloc.c\<close>, \<open>kernel/budMemAllocStructs.h\<close>,
  \<open>kernel/budMemInfo.h\<close>): its data and its routines, in the order of the source.

  A pointer into \<open>nodes_mem\<close> is an index of that array, the null pointer is \<open>None\<close>; a pointer into
  \<open>blocks\<close> is an index. Following a null pointer, an index past the array or a depth past
  \<open>free_by_size\<close> is a \<open>Fault\<close>. The recursions that follow pointers take fuel; a tree has
  \<open>STANDART_DEPTH\<close> levels, so \<open>STANDART_DEPTH\<close> calls reach a leaf from the root and
  \<open>STANDART_DEPTH + 1\<close> calls climb from a leaf past the root.
\<close>

section \<open>Constants\<close>

abbreviation CNT_MEM_BLOCKS :: nat where "CNT_MEM_BLOCKS \<equiv> 62"
abbreviation STANDART_DEPTH :: nat where "STANDART_DEPTH \<equiv> 10"

text \<open>The size of the array \<open>nodes_mem\<close>.\<close>

definition nodes_cnt :: nat where
  "nodes_cnt = CNT_MEM_BLOCKS * 2 ^ STANDART_DEPTH"

section \<open>Data\<close>

record MemNode =
  leftChild :: "nat option"
  rightChild :: "nat option"
  head :: "nat option"
  depth :: u16
  start_ptr :: u64
  maxFreePage :: u16
  cnt_page :: u16
  is_used :: u8

record BlocksInfo =
  bi_total :: u16
  bi_free :: u16
  free_by_size :: "u16 list"

record BlockMem =
  bm_lock :: spinlock
  bm_root :: "nat option"
  bm_info :: BlocksInfo

text \<open>The global variables of the file; \<open>end_ptr\<close> is the linker symbol \<open>end\<close>.\<close>

record buddy =
  nodes_mem :: "nat \<Rightarrow> MemNode"
  free_root :: nat
  blocks :: "nat \<Rightarrow> BlockMem"
  mem_separator :: u64
  end_ptr :: u64

section \<open>Access\<close>

definition get_node :: "buddy \<Rightarrow> nat option \<Rightarrow> MemNode res" where
  "get_node s p = bind_res (deref nodes_cnt p) (\<lambda>i. Ret (nodes_mem s i))"

definition set_node :: "buddy \<Rightarrow> nat option \<Rightarrow> (MemNode \<Rightarrow> MemNode) \<Rightarrow> buddy res" where
  "set_node s p f = bind_res (deref nodes_cnt p)
     (\<lambda>i. Ret (s\<lparr>nodes_mem := (nodes_mem s)(i := f (nodes_mem s i))\<rparr>))"

definition upd_block :: "nat \<Rightarrow> (BlockMem \<Rightarrow> BlockMem) \<Rightarrow> buddy \<Rightarrow> buddy" where
  "upd_block b f s = s\<lparr>blocks := (blocks s)(b := f (blocks s b))\<rparr>"

text \<open>\<open>block_ptr->info.free_by_size[d] += k\<close>, in 16 bits.\<close>

definition fbs_add :: "nat \<Rightarrow> u16 \<Rightarrow> u16 \<Rightarrow> buddy \<Rightarrow> buddy res" where
  "fbs_add b d k s =
    (let l = free_by_size (bm_info (blocks s b)); i = unat d
     in if i < length l
        then Ret (upd_block b (bm_info_update (free_by_size_update (\<lambda>l. l[i := l ! i + k]))) s)
        else Fault)"

section \<open>Routines\<close>

definition check_node_block_counting :: "buddy \<Rightarrow> nat option \<Rightarrow> u8 res" where
  "check_node_block_counting s node_ptr =
    bind_res (get_node s node_ptr) (\<lambda>n.
      if maxFreePage n = cnt_page n then
        if depth n = 0 then Ret 1
        else bind_res (get_node s (head n)) (\<lambda>h.
          if maxFreePage h \<noteq> cnt_page h then Ret 1 else Ret 0)
      else Ret 0)"

text \<open>The body of the loop of \<open>init_block\<close>: the local \<open>depth\<close> and the nodes, at index \<open>i\<close>.\<close>

definition init_node :: "nat \<Rightarrow> nat \<Rightarrow> u16 \<times> (nat \<Rightarrow> MemNode) \<Rightarrow> u16 \<times> (nat \<Rightarrow> MemNode)" where
  "init_node fr i st =
    (let (d, nodes) = st;
         d' = (if i = 2 ^ (unat d + 1) then d + 1 else d);
         inner = unat d' < STANDART_DEPTH - 1;
         hd_node = nodes (fr + i div 2);
         cnt = cnt_page hd_node div 2
     in (d', nodes(fr + i :=
          \<lparr>leftChild = (if inner then Some (fr + 2 * i) else None),
           rightChild = (if inner then Some (fr + 2 * i + 1) else None),
           head = Some (fr + i div 2),
           depth = d',
           start_ptr = start_ptr hd_node +
             of_nat ((if i mod 2 = 0 then 0 else unat cnt) * PGSIZE),
           maxFreePage = cnt,
           cnt_page = cnt,
           is_used = 0\<rparr>)))"

definition init_block :: "nat \<Rightarrow> buddy \<Rightarrow> buddy" where
  "init_block b s =
    (let fr = free_root s + 1;
         root_node = \<lparr>leftChild = Some (fr + 1), rightChild = Some (fr + 2), head = None,
           depth = 0,
           start_ptr = of_nat (PGSIZE * (fr - 1) div 2) + mem_separator s,
           maxFreePage = of_nat (2 ^ (STANDART_DEPTH - 1)),
           cnt_page = of_nat (2 ^ (STANDART_DEPTH - 1)),
           is_used = 0\<rparr>;
         nodes1 = (nodes_mem s)(fr := root_node);
         fr0 = fr - 1;
         nodes2 = snd (fold (init_node fr0) [2..<2 ^ STANDART_DEPTH] (1, nodes1));
         info = \<lparr>bi_total = of_nat (2 ^ (STANDART_DEPTH - 1)),
           bi_free = of_nat (2 ^ (STANDART_DEPTH - 1)),
           free_by_size = map (\<lambda>i. if i = 0 then 1 else 0) [0..<STANDART_DEPTH]\<rparr>
     in s\<lparr>nodes_mem := nodes2,
          blocks := (blocks s)(b :=
            \<lparr>bm_lock = initlock ''mem_block'', bm_root = Some fr, bm_info = info\<rparr>),
          free_root := fr0 + 2 ^ STANDART_DEPTH\<rparr>)"

text \<open>
  The two statements that \<open>update_node_free_cnt\<close> runs before and after its recursive call: the
  counter of the level of \<open>n\<close> changed by what \<open>check_node_block_counting\<close> says of both children of
  \<open>n->head\<close> (\<open>g\<close> negates or keeps), or of the node itself when it is the root.
\<close>

definition count_siblings :: "(u16 \<Rightarrow> u16) \<Rightarrow> nat option \<Rightarrow> MemNode \<Rightarrow> nat \<Rightarrow> buddy \<Rightarrow> buddy res" where
  "count_siblings g node_ptr n b s =
    (if head n \<noteq> None then
       bind_res (get_node s (head n)) (\<lambda>h.
       bind_res (check_node_block_counting s (leftChild h)) (\<lambda>c1.
       bind_res (fbs_add b (depth n) (g (ucast c1)) s) (\<lambda>s1.
       bind_res (check_node_block_counting s1 (rightChild h)) (\<lambda>c2.
       fbs_add b (depth n) (g (ucast c2)) s1))))
     else
       bind_res (check_node_block_counting s node_ptr) (\<lambda>c.
       fbs_add b (depth n) (g (ucast c)) s))"

text \<open>The recomputation of \<open>maxFreePage\<close> from the children, in the middle of it.\<close>

definition recompute_max :: "nat option \<Rightarrow> MemNode \<Rightarrow> buddy \<Rightarrow> buddy res" where
  "recompute_max node_ptr n s =
    (if depth n \<noteq> of_nat (STANDART_DEPTH - 1) then
       bind_res (get_node s (leftChild n)) (\<lambda>l.
       bind_res (get_node s (rightChild n)) (\<lambda>r.
         let left_cnt = maxFreePage l; right_cnt = maxFreePage r
         in set_node s node_ptr (maxFreePage_update (\<lambda>_.
              if unat left_cnt + unat right_cnt = unat (cnt_page n) then cnt_page n
              else if left_cnt < right_cnt then right_cnt else left_cnt))))
     else Ret s)"

fun update_node_free_cnt :: "nat \<Rightarrow> nat option \<Rightarrow> nat \<Rightarrow> buddy \<Rightarrow> buddy res" where
  "update_node_free_cnt 0 node_ptr b s = Hang"
| "update_node_free_cnt (Suc fuel) node_ptr b s =
    (if node_ptr = None then Ret s
     else bind_res (get_node s node_ptr) (\<lambda>n.
       bind_res (count_siblings uminus node_ptr n b s) (\<lambda>s1.
       bind_res (recompute_max node_ptr n s1) (\<lambda>s2.
       bind_res (if head n \<noteq> None then update_node_free_cnt fuel (head n) b s2 else Ret s2) (\<lambda>s3.
       count_siblings id node_ptr n b s3)))))"

fun alloc_in_node :: "nat \<Rightarrow> nat option \<Rightarrow> u16 \<Rightarrow> nat \<Rightarrow> buddy \<Rightarrow> (u64 \<times> buddy) res" where
  "alloc_in_node 0 node_ptr sz b s = Hang"
| "alloc_in_node (Suc fuel) node_ptr sz b s =
    bind_res (get_node s node_ptr) (\<lambda>n.
      if maxFreePage n = sz \<and> cnt_page n = sz then
        bind_res (check_node_block_counting s node_ptr) (\<lambda>c.
        bind_res (fbs_add b (depth n) (if c \<noteq> 0 then - 1 else 1) s) (\<lambda>s1.
        let s2 = upd_block b (bm_info_update (bi_free_update (\<lambda>f. f - maxFreePage n))) s1
        in bind_res (set_node s2 node_ptr (\<lambda>n. n\<lparr>maxFreePage := 0, is_used := 1\<rparr>)) (\<lambda>s3.
        bind_res (update_node_free_cnt (STANDART_DEPTH + 1) (head n) b s3) (\<lambda>s4.
        bind_res (get_node s4 node_ptr) (\<lambda>n4. Ret (start_ptr n4, s4))))))
      else
        bind_res (get_node s (leftChild n)) (\<lambda>l.
          if maxFreePage l \<ge> sz then alloc_in_node fuel (leftChild n) sz b s
          else alloc_in_node fuel (rightChild n) sz b s))"

definition alloc_in_block :: "nat \<Rightarrow> nat \<Rightarrow> u16 \<Rightarrow> buddy \<Rightarrow> (u64 \<times> buddy) res" where
  "alloc_in_block me b sz s =
    bind_res (acquire_lock me (bm_lock (blocks s b))) (\<lambda>lk.
    let s1 = upd_block b (bm_lock_update (\<lambda>_. lk)) s
    in bind_res (get_node s1 (bm_root (blocks s1 b))) (\<lambda>root.
      if maxFreePage root < sz then
        bind_res (release_lock me (bm_lock (blocks s1 b))) (\<lambda>lk'.
        Ret (0, upd_block b (bm_lock_update (\<lambda>_. lk')) s1))
      else
        bind_res (alloc_in_node STANDART_DEPTH (bm_root (blocks s1 b)) sz b s1) (\<lambda>(pa, s2).
        bind_res (release_lock me (bm_lock (blocks s2 b))) (\<lambda>lk'.
        Ret (pa, upd_block b (bm_lock_update (\<lambda>_. lk')) s2)))))"

fun free_in_node :: "nat \<Rightarrow> nat option \<Rightarrow> u64 \<Rightarrow> nat \<Rightarrow> buddy \<Rightarrow> buddy res" where
  "free_in_node 0 node_ptr pa b s = Hang"
| "free_in_node (Suc fuel) node_ptr pa b s =
    bind_res (get_node s node_ptr) (\<lambda>n.
    bind_res
      (if start_ptr n = pa \<and> is_used n \<noteq> 0 then
         bind_res (set_node s node_ptr (\<lambda>n. n\<lparr>is_used := 0, maxFreePage := cnt_page n\<rparr>)) (\<lambda>s1.
         let s2 = upd_block b (bm_info_update (bi_free_update (\<lambda>f. f + cnt_page n))) s1
         in bind_res (update_node_free_cnt (STANDART_DEPTH + 1) (head n) b s2) (\<lambda>s3.
         bind_res (check_node_block_counting s3 node_ptr) (\<lambda>c.
         fbs_add b (depth n) (if c \<noteq> 0 then 1 else - 1) s3)))
       else Ret s) (\<lambda>s4.
    if leftChild n = None \<or> rightChild n = None then Ret s4
    else if start_ptr n + of_nat (unat (cnt_page n) * PGSIZE div 2) \<le> pa
    then free_in_node fuel (rightChild n) pa b s4
    else free_in_node fuel (leftChild n) pa b s4))"

definition free_in_block :: "nat \<Rightarrow> nat \<Rightarrow> u64 \<Rightarrow> buddy \<Rightarrow> buddy res" where
  "free_in_block me b pa s =
    bind_res (acquire_lock me (bm_lock (blocks s b))) (\<lambda>lk.
    let s1 = upd_block b (bm_lock_update (\<lambda>_. lk)) s
    in bind_res (free_in_node STANDART_DEPTH (bm_root (blocks s1 b)) pa b s1) (\<lambda>s2.
    bind_res (release_lock me (bm_lock (blocks s2 b))) (\<lambda>lk'.
    Ret (upd_block b (bm_lock_update (\<lambda>_. lk')) s2))))"

text \<open>The loop \<open>while (cnt % 2 == 0) cnt /= 2\<close>; \<open>None\<close> when it never ends.\<close>

partial_function (option) halve_even :: "u32 \<Rightarrow> u32 option" where
  "halve_even cnt = (if cnt mod 2 = 0 then halve_even (cnt div 2) else Some cnt)"

definition checker_cnt_page :: "u32 \<Rightarrow> u8 res" where
  "checker_cnt_page cnt =
    (if 2 * cnt > 2 ^ STANDART_DEPTH then Ret 0
     else case halve_even cnt of None \<Rightarrow> Hang | Some c \<Rightarrow> Ret (if c = 1 then 1 else 0))"

definition check_addr_in_block :: "u64 \<Rightarrow> nat \<Rightarrow> buddy \<Rightarrow> bool res" where
  "check_addr_in_block pa b s =
    bind_res (get_node s (bm_root (blocks s b))) (\<lambda>r.
      Ret (start_ptr r \<le> pa \<and> start_ptr r + of_nat (unat (cnt_page r) * PGSIZE) > pa))"

definition buddy_init :: "buddy \<Rightarrow> buddy res" where
  "buddy_init s =
    foldM (\<lambda>i s.
      let s1 = init_block i s
      in bind_res (get_node s1 (bm_root (blocks s1 i))) (\<lambda>r.
        if start_ptr r + of_nat (unat (cnt_page r) * PGSIZE) > of_nat (PHYSTOP + 1)
        then Panic ''buddy_alloc_use_kalloc_mem'' else Ret s1))
      [0..<CNT_MEM_BLOCKS] s"

definition buddy_free :: "nat \<Rightarrow> u64 \<Rightarrow> buddy \<Rightarrow> buddy res" where
  "buddy_free me pa s =
    (if pa mod of_nat PGSIZE \<noteq> 0 \<or> pa < end_ptr s \<or> pa \<ge> of_nat PHYSTOP
     then Panic ''buddy_free_pa''
     else foldM (\<lambda>i s. bind_res (check_addr_in_block pa i s) (\<lambda>c.
            if c then free_in_block me i pa s else Ret s)) [0..<CNT_MEM_BLOCKS] s)"

primrec buddy_alloc_loop :: "nat \<Rightarrow> u16 \<Rightarrow> nat list \<Rightarrow> buddy \<Rightarrow> (u64 \<times> buddy) res" where
  "buddy_alloc_loop me sz [] s = Ret (0, s)"
| "buddy_alloc_loop me sz (i # is) s =
    bind_res (alloc_in_block me i sz s) (\<lambda>(p, s1).
      if p \<noteq> 0 then Ret (p, s1) else buddy_alloc_loop me sz is s1)"

definition buddy_alloc :: "nat \<Rightarrow> u32 \<Rightarrow> buddy \<Rightarrow> (u64 \<times> buddy) res" where
  "buddy_alloc me cnt s =
    bind_res (checker_cnt_page cnt) (\<lambda>ok.
      if ok = 0 then Ret (0, s)
      else buddy_alloc_loop me (ucast cnt) [0..<CNT_MEM_BLOCKS] s)"

text \<open>
  \<open>mem_dump\<close> adds up the counters of the blocks, each read under its lock; what it prints is the
  resulting structure.
\<close>

definition mem_dump :: "nat \<Rightarrow> buddy \<Rightarrow> (BlocksInfo \<times> buddy) res" where
  "mem_dump me s =
    foldM (\<lambda>i (dump, s).
      bind_res (acquire_lock me (bm_lock (blocks s i))) (\<lambda>lk.
      let s1 = upd_block i (bm_lock_update (\<lambda>_. lk)) s;
          info = bm_info (blocks s1 i);
          dump1 = \<lparr>bi_total = bi_total dump + bi_total info,
                   bi_free = bi_free dump + bi_free info,
                   free_by_size = map2 (+) (free_by_size dump) (free_by_size info)\<rparr>
      in bind_res (release_lock me (bm_lock (blocks s1 i))) (\<lambda>lk'.
         Ret (dump1, upd_block i (bm_lock_update (\<lambda>_. lk')) s1))))
      [0..<CNT_MEM_BLOCKS]
      (\<lparr>bi_total = 0, bi_free = 0, free_by_size = replicate STANDART_DEPTH 0\<rparr>, s)"

end
