(* ===== verification/Buddy_Index.thy ===== *)
theory Buddy_Index
  imports Kernel_Prelude
begin

text \<open>
  The arithmetic of one buddy tree, apart from the code: nodes are numbered from 1, node \<open>i\<close> has
  the children \<open>2 * i\<close> and \<open>2 * i + 1\<close> and the parent \<open>i div 2\<close>, and the leaves are
  \<open>512, \<dots>, 1023\<close>, one per page.
\<close>

section \<open>Levels, sizes and positions\<close>

fun ilog2 :: "nat \<Rightarrow> nat" where
  "ilog2 i = (if i \<le> 1 then 0 else Suc (ilog2 (i div 2)))"

declare ilog2.simps [simp del]

definition pages :: "nat \<Rightarrow> nat" where
  "pages i = 2 ^ (9 - ilog2 i)"

definition first_page :: "nat \<Rightarrow> nat" where
  "first_page i = (i - 2 ^ ilog2 i) * pages i"

definition anc :: "nat \<Rightarrow> nat \<Rightarrow> bool" where
  "anc i j \<longleftrightarrow> (\<exists>k. j div 2 ^ k = i)"

lemma ilog2_1 [simp]: "ilog2 1 = 0" "ilog2 (Suc 0) = 0"
  by (simp_all add: ilog2.simps)

lemma ilog2_double [simp]:
  assumes "1 \<le> i"
  shows "ilog2 (2 * i) = Suc (ilog2 i)" and "ilog2 (Suc (2 * i)) = Suc (ilog2 i)"
  using assms by (subst ilog2.simps, simp)+

lemma ilog2_half: "2 \<le> i \<Longrightarrow> ilog2 i = Suc (ilog2 (i div 2))"
  by (subst ilog2.simps) simp

lemma ilog2_bounds: "1 \<le> i \<Longrightarrow> 2 ^ ilog2 i \<le> i \<and> i < 2 ^ Suc (ilog2 i)"
proof (induction i rule: ilog2.induct)
  case (1 i)
  show ?case
  proof (cases "i \<le> 1")
    case False
    with "1.IH" have "2 ^ ilog2 (i div 2) \<le> i div 2 \<and> i div 2 < 2 ^ Suc (ilog2 (i div 2))" by auto
    then show ?thesis using False ilog2_half[of i] by auto
  qed (use "1.prems" in \<open>auto simp: ilog2.simps\<close>)
qed

lemma ilog2_unique:
  assumes "2 ^ d \<le> i" "i < 2 ^ Suc d"
  shows "ilog2 i = d"
proof -
  have "1 \<le> i" using assms(1) by (metis le_trans one_le_numeral one_le_power)
  then have b: "2 ^ ilog2 i \<le> i" "i < 2 ^ Suc (ilog2 i)" using ilog2_bounds by auto
  have "(2::nat) ^ ilog2 i < 2 ^ Suc d" "(2::nat) ^ d < 2 ^ Suc (ilog2 i)" using b assms by linarith+
  then have "ilog2 i < Suc d" "d < Suc (ilog2 i)" by (meson one_less_numeral_iff power_less_imp_less_exp semiring_norm(76))+
  then show ?thesis by simp
qed

lemma ilog2_less_iff: "1 \<le> i \<Longrightarrow> ilog2 i < n \<longleftrightarrow> i < 2 ^ n"
proof -
  assume i: "1 \<le> i"
  have "ilog2 i < n \<Longrightarrow> i < 2 ^ n"
    using ilog2_bounds[OF i] by (meson Suc_leI le_less_trans less_le_trans one_le_numeral power_increasing)
  moreover have "i < 2 ^ n \<Longrightarrow> ilog2 i < n"
    using ilog2_bounds[OF i] by (metis le_less_trans one_less_numeral_iff power_strict_increasing_iff semiring_norm(76))
  ultimately show ?thesis by blast
qed

lemma ilog2_le9: "1 \<le> i \<Longrightarrow> i < 1024 \<Longrightarrow> ilog2 i \<le> 9"
  using ilog2_less_iff[of i 10] by simp

lemma ilog2_inner: "1 \<le> i \<Longrightarrow> i < 512 \<Longrightarrow> ilog2 i \<le> 8"
  using ilog2_less_iff[of i 9] by simp

lemma ilog2_leaf: "512 \<le> i \<Longrightarrow> i < 1024 \<Longrightarrow> ilog2 i = 9"
  by (rule ilog2_unique) simp_all

lemma pages_pos [simp]: "0 < pages i"
  by (simp add: pages_def)

lemma pages_le: "pages i \<le> 512"
  using power_increasing[of "9 - ilog2 i" 9 "2::nat"] by (simp add: pages_def)

lemma pages_1 [simp]: "pages 1 = 512" "pages (Suc 0) = 512"
  by (simp_all add: pages_def)

lemma pages_leaf [simp]: "512 \<le> i \<Longrightarrow> i < 1024 \<Longrightarrow> pages i = 1"
  by (simp add: pages_def ilog2_leaf)

lemma pages_children:
  assumes "1 \<le> i" "i < 512"
  shows "pages (2 * i) = pages i div 2" and "pages (Suc (2 * i)) = pages i div 2"
    and "2 * (pages i div 2) = pages i"
proof -
  obtain k where k: "9 - ilog2 i = Suc k" using ilog2_inner[OF assms] by (cases "9 - ilog2 i") auto
  then have "8 - ilog2 i = k" by simp
  with k assms show "pages (2 * i) = pages i div 2" "pages (Suc (2 * i)) = pages i div 2"
    "2 * (pages i div 2) = pages i"
    by (simp_all add: pages_def)
qed

lemma first_page_children:
  assumes "1 \<le> i" "i < 512"
  shows "first_page (2 * i) = first_page i"
    and "first_page (Suc (2 * i)) = first_page i + pages i div 2"
proof -
  note pg = pages_children[OF assms] and le = conjunct1[OF ilog2_bounds[OF assms(1)]]
  have "2 * i - 2 ^ ilog2 (2 * i) = 2 * (i - 2 ^ ilog2 i)"
    "Suc (2 * i) - 2 ^ ilog2 (Suc (2 * i)) = Suc (2 * (i - 2 ^ ilog2 i))"
    using assms(1) le by auto
  then show "first_page (2 * i) = first_page i"
    "first_page (Suc (2 * i)) = first_page i + pages i div 2"
    using pg by (simp_all add: first_page_def)
qed

lemma first_page_1 [simp]: "first_page 1 = 0" "first_page (Suc 0) = 0"
  by (simp_all add: first_page_def)

lemma first_page_bound:
  assumes "1 \<le> i" "i < 1024"
  shows "first_page i + pages i \<le> 512"
proof -
  have p: "2 ^ ilog2 i * pages i = (512::nat)"
    using ilog2_le9[OF assms] by (simp add: pages_def flip: power_add)
  have "i - 2 ^ ilog2 i + 1 \<le> 2 ^ ilog2 i" using ilog2_bounds[OF assms(1)] by auto
  then have "(i - 2 ^ ilog2 i + 1) * pages i \<le> 2 ^ ilog2 i * pages i" by (rule mult_le_mono1)
  then show ?thesis by (simp add: first_page_def p)
qed

section \<open>Ancestors\<close>

lemma anc_refl [simp]: "anc i i"
  unfolding anc_def by (rule exI[of _ 0]) simp

lemma anc_trans: "anc i j \<Longrightarrow> anc j k \<Longrightarrow> anc i k"
  by (auto simp: anc_def) (metis div_mult2_eq power_add)

lemma anc_half: "anc (i div 2) i"
  unfolding anc_def by (rule exI[of _ 1]) simp

lemma anc_child: "anc i (2 * i)" "anc i (Suc (2 * i))"
  using anc_half[of "2 * i"] anc_half[of "Suc (2 * i)"] by simp_all

lemma anc_le: "anc i j \<Longrightarrow> i \<le> j"
  by (auto simp: anc_def)

lemma anc_antisym: "anc i j \<Longrightarrow> anc j i \<Longrightarrow> i = j"
  using anc_le[of i j] anc_le[of j i] by simp

lemma anc_pos: "anc i j \<Longrightarrow> 1 \<le> i \<Longrightarrow> 1 \<le> j"
  using anc_le by fastforce

lemma anc_step: "anc i j \<Longrightarrow> i \<noteq> j \<Longrightarrow> anc i (j div 2)"
proof -
  assume a: "anc i j" "i \<noteq> j"
  then obtain k where k: "j div 2 ^ k = i" by (auto simp: anc_def)
  with a(2) obtain k' where "k = Suc k'" by (cases k) auto
  with k have "j div 2 div 2 ^ k' = i" by (simp add: div_mult2_eq)
  then show ?thesis by (auto simp: anc_def)
qed

lemma anc_cases_down: "anc i j \<Longrightarrow> i \<noteq> j \<Longrightarrow> anc (2 * i) j \<or> anc (Suc (2 * i)) j"
proof -
  assume a: "anc i j" "i \<noteq> j"
  then obtain k where k: "j div 2 ^ k = i" by (auto simp: anc_def)
  with a(2) obtain k' where "k = Suc k'" by (cases k) auto
  with k have "j div 2 ^ k' div 2 = i" by (metis div_mult2_eq mult.commute power_Suc)
  then have "j div 2 ^ k' = 2 * i \<or> j div 2 ^ k' = Suc (2 * i)" by linarith
  then show ?thesis by (auto simp: anc_def)
qed

lemma anc_linear: "anc i k \<Longrightarrow> anc j k \<Longrightarrow> anc i j \<or> anc j i"
proof -
  assume "anc i k" "anc j k"
  then obtain a b where a: "k div 2 ^ a = i" and b: "k div 2 ^ b = j" by (auto simp: anc_def)
  show ?thesis
  proof (cases "a \<le> b")
    case True
    have "i div 2 ^ (b - a) = j" using True a b
      by (metis add_diff_inverse_nat div_mult2_eq not_le power_add)
    then show ?thesis by (auto simp: anc_def)
  next
    case False
    then have "j div 2 ^ (a - b) = i" using a b
      by (metis add_diff_inverse_nat div_mult2_eq less_imp_le_nat not_le power_add)
    then show ?thesis by (auto simp: anc_def)
  qed
qed

lemma anc_root: "1 \<le> i \<Longrightarrow> anc 1 i"
proof (induction i rule: ilog2.induct)
  case (1 i)
  show ?case
  proof (cases "i \<le> 1")
    case False
    with "1.IH" have "anc 1 (i div 2)" by auto
    then show ?thesis using anc_half[of i] anc_trans by blast
  qed (use "1.prems" in auto)
qed

lemma anc_ilog2: "anc i j \<Longrightarrow> 1 \<le> i \<Longrightarrow> ilog2 i \<le> ilog2 j"
proof (induction j rule: ilog2.induct)
  case (1 j)
  show ?case
  proof (cases "i = j")
    case False
    with "1.prems" have a: "anc i (j div 2)" by (simp add: anc_step)
    with "1.prems" have "1 \<le> j div 2" using anc_pos by blast
    then have "\<not> j \<le> 1" by simp
    with "1.IH" a "1.prems" show ?thesis using ilog2_half[of j] by auto
  qed simp
qed

lemma anc_same_level: "anc i j \<Longrightarrow> 1 \<le> i \<Longrightarrow> ilog2 i = ilog2 j \<Longrightarrow> i = j"
proof (rule ccontr)
  assume a: "anc i j" "1 \<le> i" "ilog2 i = ilog2 j" and "i \<noteq> j"
  then have s: "anc i (j div 2)" by (simp add: anc_step)
  with a have "1 \<le> j div 2" using anc_pos by blast
  then have "ilog2 j = Suc (ilog2 (j div 2))" by (intro ilog2_half) auto
  then show False using anc_ilog2[OF s a(2)] a(3) by simp
qed

lemma anc_children_excl: "1 \<le> i \<Longrightarrow> anc (2 * i) j \<Longrightarrow> \<not> anc (Suc (2 * i)) j"
proof
  assume a: "1 \<le> i" "anc (2 * i) j" "anc (Suc (2 * i)) j"
  then have "anc (2 * i) (Suc (2 * i)) \<or> anc (Suc (2 * i)) (2 * i)" by (rule_tac anc_linear)
  then show False using a(1) anc_same_level[of "2 * i" "Suc (2 * i)"]
      anc_same_level[of "Suc (2 * i)" "2 * i"] by auto
qed

text \<open>The pages of a node are the leaves below it.\<close>

lemma anc_leaf_iff:
  assumes "1 \<le> i" "i < 1024" "p < 512"
  shows "anc i (512 + p) \<longleftrightarrow> first_page i \<le> p \<and> p < first_page i + pages i"
proof -
  let ?d = "ilog2 i" and ?m = "pages i"
  have m: "?m = 2 ^ (9 - ?d)" by (simp add: pages_def)
  have dm: "2 ^ ?d * ?m = (512::nat)"
    using ilog2_le9[OF assms(1,2)] by (simp add: pages_def flip: power_add)
  have b: "2 ^ ?d \<le> i" using ilog2_bounds[OF assms(1)] by simp
  have im: "i * ?m = 512 + first_page i"
  proof -
    have "i * ?m = 2 ^ ?d * ?m + (i - 2 ^ ?d) * ?m" using b by (simp flip: add_mult_distrib)
    then show ?thesis by (simp add: dm first_page_def)
  qed
  have "anc i (512 + p) \<longleftrightarrow> (512 + p) div ?m = i"
  proof
    assume a: "anc i (512 + p)"
    have "(512 + p) div ?m < 2 ^ Suc ?d \<and> 2 ^ ?d \<le> (512 + p) div ?m"
    proof
      show "(512 + p) div ?m < 2 ^ Suc ?d"
        using assms(3) dm by (simp add: div_less_iff_less_mult)
      show "2 ^ ?d \<le> (512 + p) div ?m"
        using dm by (simp add: less_eq_div_iff_mult_less_eq)
    qed
    then have lev: "ilog2 ((512 + p) div ?m) = ?d" by (intro ilog2_unique) auto
    have "anc ((512 + p) div ?m) (512 + p)" unfolding anc_def m by blast
    with a have "anc i ((512 + p) div ?m) \<or> anc ((512 + p) div ?m) i" by (rule_tac anc_linear)
    moreover have "1 \<le> (512 + p) div ?m" using dm
      by (metis \<open>(512 + p) div ?m < 2 ^ Suc ?d \<and> 2 ^ ?d \<le> (512 + p) div ?m\<close> one_le_numeral one_le_power le_trans)
    ultimately show "(512 + p) div ?m = i"
      using anc_same_level assms(1) lev by metis
  next
    assume "(512 + p) div ?m = i"
    then show "anc i (512 + p)" unfolding anc_def m by blast
  qed
  also have "\<dots> \<longleftrightarrow> i * ?m \<le> 512 + p \<and> 512 + p < i * ?m + ?m"
    by (metis add.commute div_nat_eqI dividend_less_times_div mult.commute mult_Suc pages_pos
        times_div_less_eq_dividend)
  finally show ?thesis by (simp add: im)
qed

lemma pages_disjoint:
  assumes "1 \<le> i" "i < 1024" "1 \<le> j" "j < 1024" "\<not> anc i j" "\<not> anc j i"
  shows "{first_page i..<first_page i + pages i} \<inter> {first_page j..<first_page j + pages j} = {}"
proof (rule ccontr)
  assume "\<not> ?thesis"
  then obtain p where p: "first_page i \<le> p" "p < first_page i + pages i"
    "first_page j \<le> p" "p < first_page j + pages j" by fastforce
  then have "p < 512" using first_page_bound[OF assms(1,2)] by simp
  then have "anc i (512 + p)" "anc j (512 + p)" using p assms anc_leaf_iff by auto
  then show False using anc_linear assms(5,6) by blast
qed

end
