(* ===== verification/Buddy_Free.thy ===== *)
theory Buddy_Free
  imports Buddy_Index
begin

text \<open>
  Free space in one buddy tree. Given the set \<open>U\<close> of nodes handed out as a whole, \<open>mfree U i\<close> is the
  size of the largest block that can still be handed out below \<open>i\<close>, and \<open>counted U i\<close> says that \<open>i\<close>
  is a maximal free block.
\<close>

section \<open>Free space below a node\<close>

text \<open>What \<open>update_node_free_cnt\<close> stores in a node, from the values of its children.\<close>

definition comb :: "nat \<Rightarrow> nat \<Rightarrow> nat \<Rightarrow> nat" where
  "comb c l r = (if l + r = c then c else max l r)"

function mfree :: "nat set \<Rightarrow> nat \<Rightarrow> nat" where
  "mfree U i =
    (if i \<in> U then 0
     else if i = 0 \<or> 512 \<le> i then 1
     else comb (pages i) (mfree U (2 * i)) (mfree U (Suc (2 * i))))"
  by pat_completeness auto
termination
  by (relation "measure (\<lambda>(U, i). 1024 - i)") auto

declare mfree.simps [simp del]

definition avail :: "nat set \<Rightarrow> nat \<Rightarrow> bool" where
  "avail U t \<longleftrightarrow> 1 \<le> t \<and> t < 1024 \<and> (\<forall>j\<in>U. \<not> anc t j \<and> \<not> anc j t)"

definition antichain :: "nat set \<Rightarrow> bool" where
  "antichain U \<longleftrightarrow> U \<subseteq> {1..<1024} \<and> (\<forall>i\<in>U. \<forall>j\<in>U. anc i j \<longrightarrow> i = j)"

lemma mfree_used [simp]: "i \<in> U \<Longrightarrow> mfree U i = 0"
  by (simp add: mfree.simps)

lemma mfree_leaf [simp]: "i \<notin> U \<Longrightarrow> 512 \<le> i \<Longrightarrow> mfree U i = 1"
  by (simp add: mfree.simps)

lemma mfree_inner:
  "i \<notin> U \<Longrightarrow> 1 \<le> i \<Longrightarrow> i < 512 \<Longrightarrow>
    mfree U i = comb (pages i) (mfree U (2 * i)) (mfree U (Suc (2 * i)))"
  by (subst mfree.simps) simp

lemma mfree_cong:
  "(\<And>j. anc i j \<Longrightarrow> j \<in> U \<longleftrightarrow> j \<in> V) \<Longrightarrow> mfree U i = mfree V i"
proof (induction U i rule: mfree.induct)
  case (1 U i)
  show ?case
  proof (cases "i \<in> U \<or> i = 0 \<or> 512 \<le> i")
    case True
    then show ?thesis using "1.prems"[of i] by (auto simp: mfree.simps[of U i] mfree.simps[of V i])
  next
    case False
    have "mfree U (2 * i) = mfree V (2 * i)"
      using False "1.prems" anc_trans[OF anc_child(1)] by (intro "1.IH"(1)) blast+
    moreover have "mfree U (Suc (2 * i)) = mfree V (Suc (2 * i))"
      using False "1.prems" anc_trans[OF anc_child(2)] by (intro "1.IH"(2)) blast+
    moreover have "i \<notin> V" using False "1.prems"[of i] by simp
    ultimately show ?thesis using False by (simp add: mfree_inner)
  qed
qed

lemma mfree_le: "1 \<le> i \<Longrightarrow> i < 1024 \<Longrightarrow> mfree U i \<le> pages i"
proof (induction U i rule: mfree.induct)
  case (1 U i)
  show ?case
  proof (cases "i \<in> U \<or> 512 \<le> i")
    case True
    then show ?thesis using "1.prems" by (cases "i \<in> U") auto
  next
    case False
    have "mfree U (2 * i) \<le> pages (2 * i)" using False "1.prems" by (intro "1.IH"(1)) auto
    moreover have "mfree U (Suc (2 * i)) \<le> pages (Suc (2 * i))"
      using False "1.prems" by (intro "1.IH"(2)) auto
    ultimately show ?thesis using False "1.prems" pages_children[of i]
      by (auto simp: mfree_inner comb_def)
  qed
qed

lemma mfree_children_le:
  assumes "1 \<le> i" "i < 512"
  shows "mfree U (2 * i) \<le> pages i div 2" "mfree U (Suc (2 * i)) \<le> pages i div 2"
  using mfree_le[of "2 * i" U] mfree_le[of "Suc (2 * i)" U] pages_children[OF assms] assms by auto

lemma comb_full:
  assumes "l \<le> c div 2" "r \<le> c div 2" "2 * (c div 2) = c" "0 < c"
  shows "comb c l r = c \<longleftrightarrow> l = c div 2 \<and> r = c div 2"
  using assms by (auto simp: comb_def max_def)

lemma mfree_full_iff:
  "1 \<le> i \<Longrightarrow> i < 1024 \<Longrightarrow> mfree U i = pages i \<longleftrightarrow> (\<forall>j<1024. anc i j \<longrightarrow> j \<notin> U)"
proof (induction U i rule: mfree.induct)
  case (1 U i)
  consider "i \<in> U" | "i \<notin> U" "512 \<le> i" | "i \<notin> U" "i < 512" by linarith
  then show ?case
  proof cases
    case 1
    then have "\<not> (\<forall>j<1024. anc i j \<longrightarrow> j \<notin> U)" using "1.prems" by (auto intro!: exI[of _ i])
    moreover have "mfree U i \<noteq> pages i" using 1 pages_pos[of i] by simp
    ultimately show ?thesis by simp
  next
    case 2
    have "j = i" if "anc i j" "j < 1024" for j
      using anc_same_level[OF that(1)] anc_le[OF that(1)] 2 that "1.prems" ilog2_leaf by simp
    then have "\<forall>j<1024. anc i j \<longrightarrow> j \<notin> U" using 2(1) by blast
    moreover have "mfree U i = pages i" using 2 "1.prems" by simp
    ultimately show ?thesis by simp
  next
    case 3
    note pc = pages_children[OF "1.prems"(1) 3(2)]
    have IH1: "mfree U (2 * i) = pages (2 * i) \<longleftrightarrow> (\<forall>j<1024. anc (2 * i) j \<longrightarrow> j \<notin> U)"
      using 3 "1.prems" by (intro "1.IH"(1)) auto
    have IH2: "mfree U (Suc (2 * i)) = pages (Suc (2 * i)) \<longleftrightarrow>
        (\<forall>j<1024. anc (Suc (2 * i)) j \<longrightarrow> j \<notin> U)"
      using 3 "1.prems" by (intro "1.IH"(2)) auto
    have "mfree U i = pages i \<longleftrightarrow>
        mfree U (2 * i) = pages i div 2 \<and> mfree U (Suc (2 * i)) = pages i div 2"
      using 3 "1.prems" pc by (simp add: mfree_inner comb_full mfree_children_le)
    also have "\<dots> \<longleftrightarrow> (\<forall>j<1024. anc (2 * i) j \<or> anc (Suc (2 * i)) j \<longrightarrow> j \<notin> U)"
      using IH1 IH2 pc by auto
    also have "\<dots> \<longleftrightarrow> (\<forall>j<1024. anc i j \<longrightarrow> j \<notin> U)"
    proof -
      have "anc i j \<longleftrightarrow> j = i \<or> anc (2 * i) j \<or> anc (Suc (2 * i)) j" for j
        using anc_cases_down[of i j] anc_trans[OF anc_child(1), of i j]
          anc_trans[OF anc_child(2), of i j] anc_refl[of i] by blast
      then show ?thesis using 3(1) by simp
    qed
    finally show ?thesis .
  qed
qed

lemma mfree_mono_child:
  assumes "1 \<le> i" "i < 512" "i \<notin> U"
  shows "mfree U (2 * i) \<le> mfree U i" "mfree U (Suc (2 * i)) \<le> mfree U i"
  using mfree_children_le[OF assms(1,2), of U] assms by (auto simp: mfree_inner comb_def)

text \<open>A free block is never larger than the value stored at any node above it.\<close>

lemma avail_full: "avail U t \<Longrightarrow> mfree U t = pages t"
  by (auto simp: avail_def mfree_full_iff)

lemma mfree_avail: "avail U t \<Longrightarrow> anc i t \<Longrightarrow> 1 \<le> i \<Longrightarrow> pages t \<le> mfree U i"
proof (induction U i rule: mfree.induct)
  case (1 U i)
  show ?case
  proof (cases "i = t")
    case True
    then show ?thesis using avail_full "1.prems"(1) by simp
  next
    case False
    have iU: "i \<notin> U" and t: "t < 1024" using "1.prems" by (auto simp: avail_def)
    have inner: "i < 512"
    proof (rule ccontr)
      assume "\<not> i < 512"
      then have "i = t" using anc_same_level[OF "1.prems"(2,3)] anc_le[OF "1.prems"(2)] t
          ilog2_leaf[of i] ilog2_leaf[of t] by simp
      then show False using False by simp
    qed
    consider "anc (2 * i) t" | "anc (Suc (2 * i)) t" using anc_cases_down "1.prems"(2) False by blast
    then show ?thesis
    proof cases
      case 1
      then have "pages t \<le> mfree U (2 * i)" using iU inner "1.prems" by (intro "1.IH"(1)) auto
      then show ?thesis using mfree_mono_child(1)[OF "1.prems"(3) inner iU] by simp
    next
      case 2
      then have "pages t \<le> mfree U (Suc (2 * i))" using iU inner "1.prems" by (intro "1.IH"(2)) auto
      then show ?thesis using mfree_mono_child(2)[OF "1.prems"(3) inner iU] by simp
    qed
  qed
qed

text \<open>
  The choice the allocator makes at an inner node is right: if a block of \<open>2 ^ k\<close> pages fits below
  node \<open>i\<close> and \<open>i\<close> is larger than that, it fits below the left child or else below the right one.
\<close>

lemma mfree_split:
  assumes "1 \<le> i" "i < 1024" "2 ^ k \<le> mfree U i" "\<not> (mfree U i = 2 ^ k \<and> pages i = 2 ^ k)"
  shows "i < 512" and "i \<notin> U" and "2 ^ k \<le> pages i div 2"
    and "2 ^ k \<le> mfree U (2 * i) \<or> 2 ^ k \<le> mfree U (Suc (2 * i))"
proof -
  show iU: "i \<notin> U" using assms(3) by (metis mfree_used not_le zero_less_numeral zero_less_power)
  have le: "mfree U i \<le> pages i" by (rule mfree_le[OF assms(1,2)])
  have ne: "pages i \<noteq> 2 ^ k" using assms(3,4) le by auto
  with assms(3) le have lt: "2 ^ k < pages i" by simp
  then have "(2::nat) ^ Suc k \<le> pages i"
    unfolding pages_def by (metis Suc_leI one_le_numeral power_increasing power_less_imp_less_exp
        one_less_numeral_iff semiring_norm(76))
  then show half: "2 ^ k \<le> pages i div 2" by (simp add: less_eq_div_iff_mult_less_eq mult.commute)
  show inner: "i < 512"
  proof (rule ccontr)
    assume "\<not> i < 512"
    then have "pages i = 1" using assms(2) by simp
    then show False using lt by simp
  qed
  show "2 ^ k \<le> mfree U (2 * i) \<or> 2 ^ k \<le> mfree U (Suc (2 * i))"
  proof (cases "mfree U (2 * i) + mfree U (Suc (2 * i)) = pages i")
    case True
    then have "mfree U (2 * i) = pages i div 2"
      using mfree_children_le[OF assms(1) inner, of U] pages_children(3)[OF assms(1) inner] by simp
    then show ?thesis using half by simp
  next
    case False
    then show ?thesis using assms(3) iU inner assms(1) by (auto simp: mfree_inner comb_def max_def split: if_splits)
  qed
qed

section \<open>Maximal free blocks\<close>

definition level :: "nat \<Rightarrow> nat set" where
  "level d = {2 ^ d..<2 ^ Suc d}"

definition counted :: "nat set \<Rightarrow> nat \<Rightarrow> bool" where
  "counted U i \<longleftrightarrow>
    (\<forall>j\<in>U. anc j i \<longrightarrow> j = i) \<and> mfree U i = pages i \<and>
    (i = 1 \<or> mfree U (i div 2) \<noteq> pages (i div 2))"

definition cntd :: "nat set \<Rightarrow> nat \<Rightarrow> nat" where
  "cntd U d = card {i \<in> level d. counted U i}"

lemma finite_level [simp]: "finite (level d)"
  by (simp add: level_def)

lemma in_level_iff: "1 \<le> i \<Longrightarrow> i \<in> level d \<longleftrightarrow> ilog2 i = d"
  using ilog2_bounds[of i] ilog2_unique[of d i] by (auto simp: level_def)

lemma level_pos: "i \<in> level d \<Longrightarrow> 1 \<le> i"
  by (auto simp: level_def)

text \<open>Counting a level with two siblings taken out of the count.\<close>

lemma cntd_split:
  assumes "x \<in> level d" "y \<in> level d" "x \<noteq> y"
  shows "cntd U d = card {i \<in> level d - {x, y}. counted U i} + of_bool (counted U x) + of_bool (counted U y)"
proof -
  let ?R = "{i \<in> level d - {x, y}. counted U i}"
  have "{i \<in> level d. counted U i} = ?R \<union> ({x} \<inter> Collect (counted U)) \<union> ({y} \<inter> Collect (counted U))"
    using assms by auto
  moreover have "card (?R \<union> ({x} \<inter> Collect (counted U)) \<union> ({y} \<inter> Collect (counted U)))
      = card (?R \<union> ({x} \<inter> Collect (counted U))) + card ({y} \<inter> Collect (counted U))"
    using assms by (intro card_Un_disjoint) auto
  moreover have "card (?R \<union> ({x} \<inter> Collect (counted U))) = card ?R + card ({x} \<inter> Collect (counted U))"
    by (intro card_Un_disjoint) auto
  ultimately show ?thesis by (auto simp: cntd_def)
qed

lemma cntd_0: "cntd U 0 = of_bool (counted U 1)"
proof -
  have "{i \<in> level 0. counted U i} = (if counted U 1 then {1} else {})"
    by (auto simp: level_def) (metis One_nat_def Suc_leI le_antisym less_Suc_eq_le numeral_2_eq_2)+
  then show ?thesis by (simp add: cntd_def)
qed

lemma cntd_cong: "(\<And>i. i \<in> level d \<Longrightarrow> counted U i = counted V i) \<Longrightarrow> cntd U d = cntd V d"
  unfolding cntd_def by (metis (mono_tags, lifting) Collect_cong)

section \<open>Handing out or taking back one node\<close>

text \<open>
  Throughout, \<open>t\<close> is a node that is available in \<open>U\<close>: handing it out turns \<open>U\<close> into
  \<open>insert t U\<close>, taking it back turns \<open>insert t U\<close> into \<open>U\<close>.
\<close>

lemma avail_notin: "avail U t \<Longrightarrow> t \<notin> U"
  by (auto simp: avail_def)

lemma avail_above: "avail U t \<Longrightarrow> anc i t \<Longrightarrow> i \<notin> U"
  by (auto simp: avail_def)

lemma anc_up_iff: "2 \<le> x \<Longrightarrow> anc i x \<longleftrightarrow> i = x \<or> anc i (x div 2)"
  using anc_step[of i x] anc_trans[OF _ anc_half, of i x] by auto

lemma mfree_insert_other: "\<not> anc i t \<Longrightarrow> mfree (insert t U) i = mfree U i"
  by (rule mfree_cong) auto

lemma mfree_insert_above:
  assumes "anc i t" "1 \<le> i" "t < 1024"
  shows "mfree (insert t U) i \<noteq> pages i"
  using assms anc_le[OF assms(1)] by (subst mfree_full_iff) auto

lemma counted_insert_other:
  assumes "\<not> anc i t" "\<not> anc (i div 2) t" "\<not> anc t i"
  shows "counted (insert t U) i = counted U i"
  using assms by (auto simp: counted_def mfree_insert_other)

lemma siblings_of:
  assumes "anc x t" "1 \<le> x" "ilog2 i = ilog2 x" "1 \<le> i" "anc i t"
  shows "i = x"
  using anc_linear[OF assms(1,5)] anc_same_level[of x i] anc_same_level[of i x] assms by auto

lemma rest_insert:
  assumes "anc x t" "2 \<le> x" "i \<in> level (ilog2 x) - {2 * (x div 2), Suc (2 * (x div 2))}"
  shows "counted (insert t U) i = counted U i"
proof (rule counted_insert_other)
  have i: "1 \<le> i" "ilog2 i = ilog2 x" using assms(3) level_pos in_level_iff by auto
  have "i \<noteq> x" using assms(3) by auto
  then show n: "\<not> anc i t" using siblings_of[OF assms(1) _ i(2,1)] assms(2) by auto
  show "\<not> anc (i div 2) t"
  proof
    assume a: "anc (i div 2) t"
    have "2 \<le> i" using i assms(2) ilog2_half[of x] by (cases "i = 1") auto
    then have "1 \<le> i div 2" "ilog2 (i div 2) = ilog2 (x div 2)"
      using i(2) ilog2_half[of i] ilog2_half[of x] assms(2) by auto
    moreover have "anc (x div 2) t" using anc_trans[OF anc_half assms(1)] .
    ultimately have "i div 2 = x div 2" using siblings_of[of "x div 2" t "i div 2"] a assms(2) by auto
    then have "i = 2 * (x div 2) \<or> i = Suc (2 * (x div 2))" by linarith
    then show False using assms(3) by auto
  qed
  show "\<not> anc t i"
  proof
    assume a: "anc t i"
    have "1 \<le> t" using anc_pos[OF assms(1)] assms(2) by simp
    then have "ilog2 t \<le> ilog2 i" using anc_ilog2[OF a] by simp
    moreover have "ilog2 x \<le> ilog2 t" using anc_ilog2[OF assms(1)] assms(2) by simp
    ultimately have "t = i" using anc_same_level[OF a \<open>1 \<le> t\<close>] i(2) by simp
    then show False using n by simp
  qed
qed

lemma level_siblings:
  assumes "2 \<le> x"
  shows "2 * (x div 2) \<in> level (ilog2 x)" "Suc (2 * (x div 2)) \<in> level (ilog2 x)"
  using assms ilog2_half[of x] by (auto simp: in_level_iff)

text \<open>The change of the count of a level on the way up: only the two siblings matter.\<close>

lemma cntd_insert_siblings:
  assumes "anc x t" "2 \<le> x"
  shows "int (cntd (insert t U) (ilog2 x)) - int (cntd U (ilog2 x)) =
    (of_bool (counted (insert t U) (2 * (x div 2))) + of_bool (counted (insert t U) (Suc (2 * (x div 2)))))
    - (of_bool (counted U (2 * (x div 2))) + of_bool (counted U (Suc (2 * (x div 2)))))"
proof -
  let ?L = "2 * (x div 2)"
  have "{i \<in> level (ilog2 x) - {?L, Suc ?L}. counted (insert t U) i} =
        {i \<in> level (ilog2 x) - {?L, Suc ?L}. counted U i}"
    using rest_insert[OF assms] by blast
  then show ?thesis
    using cntd_split[OF level_siblings[OF assms(2)], of U]
      cntd_split[OF level_siblings[OF assms(2)], of "insert t U"] by simp
qed

lemma counted_target: "avail U t \<Longrightarrow> \<not> counted (insert t U) t"
  by (simp add: counted_def)

lemma cntd_insert_target:
  assumes av: "avail U t"
  shows "int (cntd (insert t U) (ilog2 t)) = int (cntd U (ilog2 t)) + (if counted U t then - 1 else 1)"
proof (cases "t = 1")
  case True
  have "counted U 1" using av True avail_full[OF av] by (auto simp: counted_def avail_def)
  moreover have "\<not> counted (insert 1 U) 1" using counted_target av True by simp
  ultimately show ?thesis using True by (simp add: cntd_0)
next
  case False
  have t: "2 \<le> t" "t < 1024" using av False by (auto simp: avail_def)
  let ?h = "t div 2"
  define y where "y = (if even t then Suc t else t - 1)"
  have h: "1 \<le> ?h" "?h < 512" using t by auto
  have pair: "(2 * ?h = t \<and> Suc (2 * ?h) = y) \<or> (2 * ?h = y \<and> Suc (2 * ?h) = t)"
    using t by (auto simp: y_def elim!: oddE evenE)
  have y: "1 \<le> y" "y < 1024" "y div 2 = ?h" "y \<noteq> t" "2 \<le> y"
    using pair h by auto
  have ly: "ilog2 y = ilog2 t"
    using ilog2_half[OF t(1)] ilog2_half[OF y(5)] y(3) by simp
  have nyt: "\<not> anc y t" "\<not> anc t y"
    using anc_same_level[of y t] anc_same_level[of t y] y ly t by auto
  have d: "int (cntd (insert t U) (ilog2 t)) - int (cntd U (ilog2 t)) =
      of_bool (counted (insert t U) y) - (of_bool (counted U t) + of_bool (counted U y))"
    using cntd_insert_siblings[OF anc_refl t(1), of U] pair counted_target[OF av] by auto
  have ht: "anc ?h t" by (rule anc_half)
  have hV: "mfree (insert t U) ?h \<noteq> pages ?h" using mfree_insert_above[OF ht h(1) t(2)] .
  have up: "j \<notin> U" if "anc j y" "j \<noteq> y" for j
    using anc_step[OF that] y(3) anc_trans[OF _ ht] avail_above[OF av] by metis
  have tfull: "mfree U t = pages t" by (rule avail_full[OF av])
  have ctU: "counted U t \<longleftrightarrow> mfree U ?h \<noteq> pages ?h"
    using tfull t avail_above[OF av] avail_notin[OF av] by (auto simp: counted_def)
  have cyU: "counted U y \<longleftrightarrow> mfree U y = pages y \<and> mfree U ?h \<noteq> pages ?h"
    using up y by (auto simp: counted_def)
  have cyV: "counted (insert t U) y \<longleftrightarrow> mfree U y = pages y"
    using up y nyt hV by (auto simp: counted_def mfree_insert_other)
  show ?thesis
  proof (cases "mfree U ?h = pages ?h")
    case True
    then have "\<forall>j<1024. anc ?h j \<longrightarrow> j \<notin> U" using mfree_full_iff[of ?h U] h by auto
    then have "\<forall>j<1024. anc y j \<longrightarrow> j \<notin> U" using anc_trans[OF anc_half, of y] y(3) by metis
    then have "mfree U y = pages y" using mfree_full_iff[OF y(1,2)] by simp
    then show ?thesis using d ctU cyU cyV True by simp
  next
    case False
    then show ?thesis using d ctU cyU cyV by auto
  qed
qed

lemma cntd_insert_below:
  assumes av: "avail U t" and d: "ilog2 t < d" "d \<le> 9"
  shows "cntd (insert t U) d = cntd U d"
proof (rule cntd_cong)
  fix i assume i: "i \<in> level d"
  then have i1: "1 \<le> i" "ilog2 i = d" using level_pos in_level_iff by auto
  have t: "1 \<le> t" "t < 1024" using av by (auto simp: avail_def)
  have i2: "2 \<le> i" using i1 d(1) by (cases "i = 1") auto
  have i3: "i < 1024" using ilog2_less_iff[OF i1(1), of 10] i1(2) d(2) by simp
  show "counted (insert t U) i = counted U i"
  proof (cases "anc t i")
    case True
    have "i \<noteq> t" using i1 d by auto
    then have th: "anc t (i div 2)" using anc_step[OF True] by simp
    have "\<not> counted (insert t U) i" using True \<open>i \<noteq> t\<close> by (auto simp: counted_def)
    moreover have "mfree U (i div 2) = pages (i div 2)"
      using avail_full[OF av] mfree_full_iff[OF t, of U] th i2 i3
      by (subst mfree_full_iff) (auto dest: anc_trans[OF th])
    then have "\<not> counted U i" using i2 by (auto simp: counted_def)
    ultimately show ?thesis by simp
  next
    case False
    have n1: "\<not> anc i t" using anc_ilog2[of i t] i1 d by auto
    have n2: "\<not> anc (i div 2) t"
    proof
      assume a: "anc (i div 2) t"
      have "ilog2 (i div 2) = d - 1" using ilog2_half[OF i2] i1 by simp
      moreover have "ilog2 (i div 2) \<le> ilog2 t" using anc_ilog2[OF a] i2 by simp
      ultimately have "i div 2 = t" using anc_same_level[OF a] i2 d(1) by simp
      then show False using False anc_half by metis
    qed
    show ?thesis by (rule counted_insert_other[OF n1 n2 False])
  qed
qed

section \<open>Sets of handed-out nodes\<close>

lemma antichain_insert: "antichain U \<Longrightarrow> avail U t \<Longrightarrow> antichain (insert t U)"
  by (auto simp: antichain_def avail_def)

lemma antichain_remove: "antichain U \<Longrightarrow> antichain (U - {t})"
  by (auto simp: antichain_def)

lemma avail_remove: "antichain U \<Longrightarrow> t \<in> U \<Longrightarrow> avail (U - {t}) t"
  by (auto simp: antichain_def avail_def)

lemma antichain_finite [simp]: "antichain U \<Longrightarrow> finite U"
  by (auto simp: antichain_def intro: finite_subset)

lemma antichain_pages_le:
  assumes "antichain U"
  shows "(\<Sum>i\<in>U. pages i) \<le> 512"
proof -
  have r: "1 \<le> i \<and> i < 1024" if "i \<in> U" for i using assms that by (auto simp: antichain_def)
  have "(\<Sum>i\<in>U. pages i) = (\<Sum>i\<in>U. card {first_page i..<first_page i + pages i})" by simp
  also have "\<dots> = card (\<Union>i\<in>U. {first_page i..<first_page i + pages i})"
  proof (rule card_UN_disjoint[symmetric])
    show "finite U" using assms by simp
    show "\<forall>i\<in>U. \<forall>j\<in>U. i \<noteq> j \<longrightarrow>
      {first_page i..<first_page i + pages i} \<inter> {first_page j..<first_page j + pages j} = {}"
    proof (intro ballI impI)
      fix i j assume a: "i \<in> U" "j \<in> U" "i \<noteq> j"
      then have "\<not> anc i j" "\<not> anc j i" using assms by (auto simp: antichain_def)
      then show "{first_page i..<first_page i + pages i} \<inter> {first_page j..<first_page j + pages j} = {}"
        using pages_disjoint r a by auto
    qed
  qed simp
  also have "\<dots> \<le> card {..<512::nat}"
    using first_page_bound r by (intro card_mono) fastforce+
  finally show ?thesis by simp
qed

end
