(* ===== verification/Buddy_State.thy ===== *)
theory Buddy_State
  imports Buddy_Alloc Buddy_Free
begin

text \<open>
  The states of the allocator that represent sets of handed-out nodes, and how the primitive
  accesses of the code act on them. \<open>bst s b m u f l\<close> is the state \<open>s\<close> in which the tree of block \<open>b\<close>
  has the shape \<open>init_block\<close> gives it, the node numbered \<open>i\<close> has \<open>maxFreePage = m i\<close> and is marked
  used when \<open>u i\<close> holds, and the block's counters are \<open>f\<close> (\<open>info.free\<close>) and \<open>l\<close>
  (\<open>info.free_by_size\<close>). Each access then rewrites one argument of \<open>bst\<close>.
\<close>

section \<open>The shape of a tree\<close>

definition mkn :: "u64 \<Rightarrow> nat \<Rightarrow> nat \<Rightarrow> nat \<Rightarrow> bool \<Rightarrow> MemNode" where
  "mkn sep b i m u =
    \<lparr>leftChild = (if i < 512 then Some (1024 * b + 2 * i) else None),
     rightChild = (if i < 512 then Some (1024 * b + Suc (2 * i)) else None),
     head = (if i = 1 then None else Some (1024 * b + i div 2)),
     depth = of_nat (ilog2 i),
     start_ptr = sep + of_nat (PGSIZE * (512 * b + first_page i)),
     maxFreePage = of_nat m,
     cnt_page = of_nat (pages i),
     is_used = (if u then 1 else 0)\<rparr>"

definition bst :: "buddy \<Rightarrow> nat \<Rightarrow> (nat \<Rightarrow> nat) \<Rightarrow> (nat \<Rightarrow> bool) \<Rightarrow> u16 \<Rightarrow> u16 list \<Rightarrow> buddy" where
  "bst s b m u f l = s\<lparr>
     nodes_mem := (\<lambda>j. if j div 1024 = b \<and> j mod 1024 \<noteq> 0
       then mkn (mem_separator s) b (j mod 1024) (m (j mod 1024)) (u (j mod 1024))
       else nodes_mem s j),
     blocks := (blocks s)(b := (blocks s b)\<lparr>
       bm_info := (bm_info (blocks s b))\<lparr>bi_free := f, free_by_size := l\<rparr>\<rparr>)\<rparr>"

definition node_range :: "nat \<Rightarrow> nat \<Rightarrow> bool" where
  "node_range b i \<longleftrightarrow> b < CNT_MEM_BLOCKS \<and> 1 \<le> i \<and> i < 1024"

lemma bst_cong:
  assumes "\<And>i. 1 \<le> i \<Longrightarrow> i < 1024 \<Longrightarrow> m i = m' i" "\<And>i. 1 \<le> i \<Longrightarrow> i < 1024 \<Longrightarrow> u i = u' i"
  shows "bst s b m u f l = bst s b m' u' f l"
proof -
  have "m (j mod 1024) = m' (j mod 1024) \<and> u (j mod 1024) = u' (j mod 1024)"
    if "j mod 1024 \<noteq> 0" for j
    using assms[of "j mod 1024"] that by auto
  then show ?thesis by (auto simp: bst_def fun_eq_iff)
qed

lemma index_div_mod:
  assumes "i < (1024::nat)"
  shows "(1024 * b + i) div 1024 = b" "(1024 * b + i) mod 1024 = i"
  using assms by auto

lemma get_node_bst [simp]:
  assumes "node_range b i"
  shows "get_node (bst s b m u f l) (Some (1024 * b + i)) =
    Ret (mkn (mem_separator s) b i (m i) (u i))"
  using assms by (simp add: get_node_def bst_def node_range_def nodes_cnt_def index_div_mod)

lemma get_node_bst_root [simp]:
  assumes "b < CNT_MEM_BLOCKS"
  shows "get_node (bst s b m u f l) (Some (Suc (1024 * b))) =
    Ret (mkn (mem_separator s) b 1 (m 1) (u 1))"
  using get_node_bst[of b 1 s m u f l] assms by (simp add: node_range_def)

lemma set_node_bst:
  assumes "node_range b i"
    and "g (mkn (mem_separator s) b i (m i) (u i)) = mkn (mem_separator s) b i m' u'"
  shows "set_node (bst s b m u f l) (Some (1024 * b + i)) g =
    Ret (bst s b (m(i := m')) (u(i := u')) f l)"
proof -
  have "(1024 * b + i) div 1024 = b" "(1024 * b + i) mod 1024 = i" "i \<noteq> 0"
    using assms(1) index_div_mod[of i b] by (auto simp: node_range_def)
  moreover have "j = 1024 * b + i" if "j div 1024 = b" "j mod 1024 = i" for j
    using that by (metis mult_div_mod_eq)
  ultimately show ?thesis using assms
    by (auto simp: set_node_def bst_def node_range_def nodes_cnt_def fun_eq_iff)
qed

lemma fbs_add_bst:
  assumes "unat d < length l"
  shows "fbs_add b d k (bst s b m u f l) = Ret (bst s b m u f (l[unat d := l ! unat d + k]))"
  using assms by (simp add: fbs_add_def bst_def upd_block_def comp_def Let_def)

lemma bi_free_bst:
  "upd_block b (bm_info_update (bi_free_update g)) (bst s b m u f l) = bst s b m u (g f) l"
  by (cases s, cases "bm_info (blocks s b)") (simp add: bst_def upd_block_def comp_def)

lemma lock_bst:
  "upd_block b (bm_lock_update g) (bst s b m u f l) = bst (upd_block b (bm_lock_update g) s) b m u f l"
  by (cases s, cases "blocks s b") (simp add: bst_def upd_block_def comp_def cong: if_cong)

lemma block_bst [simp]:
  "bm_lock (blocks (bst s b m u f l) b) = bm_lock (blocks s b)"
  "bm_root (blocks (bst s b m u f l) b) = bm_root (blocks s b)"
  "mem_separator (bst s b m u f l) = mem_separator s"
  "end_ptr (bst s b m u f l) = end_ptr s"
  "free_root (bst s b m u f l) = free_root s"
  "b' \<noteq> b \<Longrightarrow> blocks (bst s b m u f l) b' = blocks s b'"
  by (simp_all add: bst_def)

lemma block_lock [simp]:
  "bm_root (blocks (upd_block b (bm_lock_update g) s) b') = bm_root (blocks s b')"
  "bm_info (blocks (upd_block b (bm_lock_update g) s) b') = bm_info (blocks s b')"
  "bm_lock (blocks (upd_block b (bm_lock_update g) s) b) = g (bm_lock (blocks s b))"
  "nodes_mem (upd_block b (bm_lock_update g) s) = nodes_mem s"
  "mem_separator (upd_block b (bm_lock_update g) s) = mem_separator s"
  "end_ptr (upd_block b (bm_lock_update g) s) = end_ptr s"
  by (simp_all add: upd_block_def)

lemma mkn_simps [simp]:
  "leftChild (mkn sep b i m u) = (if i < 512 then Some (1024 * b + 2 * i) else None)"
  "rightChild (mkn sep b i m u) = (if i < 512 then Some (1024 * b + Suc (2 * i)) else None)"
  "head (mkn sep b i m u) = (if i = 1 then None else Some (1024 * b + i div 2))"
  "depth (mkn sep b i m u) = of_nat (ilog2 i)"
  "start_ptr (mkn sep b i m u) = sep + of_nat (PGSIZE * (512 * b + first_page i))"
  "maxFreePage (mkn sep b i m u) = of_nat m"
  "cnt_page (mkn sep b i m u) = of_nat (pages i)"
  "is_used (mkn sep b i m u) = (if u then 1 else 0)"
  by (simp_all add: mkn_def)

lemma mkn_updates:
  "(mkn sep b i m u)\<lparr>maxFreePage := of_nat m'\<rparr> = mkn sep b i m' u"
  "(mkn sep b i m u)\<lparr>maxFreePage := 0, is_used := 1\<rparr> = mkn sep b i 0 True"
  "(mkn sep b i m u)\<lparr>is_used := 0, maxFreePage := of_nat m'\<rparr> = mkn sep b i m' False"
  by (simp_all add: mkn_def)

section \<open>Sixteen-bit values\<close>

lemma pages_word: "unat (of_nat (pages i) :: u16) = pages i"
  using pages_le[of i] by (intro unat_of_nat_small) simp

lemma ilog2_word: "node_range b i \<Longrightarrow> unat (of_nat (ilog2 i) :: u16) = ilog2 i"
  using ilog2_le9[of i] by (intro unat_of_nat_small) (simp add: node_range_def)

lemma ilog2_word_0: "node_range b i \<Longrightarrow> (of_nat (ilog2 i) :: u16) = 0 \<longleftrightarrow> i = 1"
proof -
  assume r: "node_range b i"
  then have "(of_nat (ilog2 i) :: u16) = of_nat 0 \<longleftrightarrow> ilog2 i = 0"
    using ilog2_le9[of i] by (intro of_nat_word_eq_iff) (auto simp: node_range_def)
  moreover have "ilog2 i = 0 \<longleftrightarrow> i = 1"
    using r ilog2_less_iff[of i 1] by (auto simp: node_range_def)
  ultimately show ?thesis by simp
qed

lemma ilog2_word_9: "node_range b i \<Longrightarrow> (of_nat (ilog2 i) :: u16) = 9 \<longleftrightarrow> 512 \<le> i"
proof -
  assume r: "node_range b i"
  then have "(of_nat (ilog2 i) :: u16) = of_nat 9 \<longleftrightarrow> ilog2 i = 9"
    using ilog2_le9[of i] by (intro of_nat_word_eq_iff) (auto simp: node_range_def)
  moreover have "ilog2 i = 9 \<longleftrightarrow> 512 \<le> i"
    using r ilog2_inner[of i] ilog2_leaf[of i] by (cases "i < 512") (auto simp: node_range_def)
  ultimately show ?thesis by simp
qed

lemma full_word: "m \<le> 512 \<Longrightarrow> (of_nat m :: u16) = of_nat (pages i) \<longleftrightarrow> m = pages i"
  using pages_le[of i] by (intro of_nat_word_eq_iff) auto

section \<open>The counting test\<close>

lemma check_bst:
  assumes r: "node_range b i" and le: "m i \<le> 512" "m (i div 2) \<le> 512"
  shows "check_node_block_counting (bst s b m u f l) (Some (1024 * b + i)) =
    Ret (of_bool (m i = pages i \<and> (i = 1 \<or> m (i div 2) \<noteq> pages (i div 2))))"
proof (cases "i = 1")
  case True
  then show ?thesis using r le full_word[of "m 1" 1]
    by (simp add: check_node_block_counting_def node_range_def)
next
  case False
  then have h: "node_range b (i div 2)" using r by (auto simp: node_range_def)
  have d: "(of_nat (ilog2 i) :: u16) \<noteq> 0" using ilog2_word_0[OF r] False by simp
  show ?thesis using r le h d False
    by (simp add: check_node_block_counting_def full_word)
qed

end
