(* ===== verification/Buddy_Update.thy ===== *)
theory Buddy_Update
  imports Buddy_State
begin

text \<open>
  \<open>update_node_free_cnt\<close>: called on the parent of a node whose state just changed, it brings the
  \<open>maxFreePage\<close> of every ancestor and the counters of their levels up to date. Here \<open>A\<close> and \<open>B\<close> are
  the sets of handed-out nodes before and after the change at \<open>t\<close>.
\<close>

definition differ_at :: "nat \<Rightarrow> nat set \<Rightarrow> nat set \<Rightarrow> bool" where
  "differ_at t A B \<longleftrightarrow> avail A t \<and> B = insert t A \<or> avail B t \<and> A = insert t B"

text \<open>The nodes on the path from the root to \<open>x\<close> still hold the old values.\<close>

definition stale :: "nat \<Rightarrow> nat set \<Rightarrow> nat set \<Rightarrow> nat \<Rightarrow> nat" where
  "stale x A B i = (if anc i x then mfree A i else mfree B i)"

definition upd_levels :: "nat set \<Rightarrow> nat set \<Rightarrow> nat \<Rightarrow> u16 list \<Rightarrow> u16 list" where
  "upd_levels A B n l =
    map (\<lambda>d. if d < n then l ! d + of_nat (cntd B d) - of_nat (cntd A d) else l ! d) [0..<10]"

lemma differ_range: "differ_at t A B \<Longrightarrow> 1 \<le> t \<and> t < 1024"
  by (auto simp: differ_at_def avail_def)

lemma differ_other: "differ_at t A B \<Longrightarrow> \<not> anc i t \<Longrightarrow> mfree A i = mfree B i"
  by (auto simp: differ_at_def mfree_insert_other)

lemma differ_above: "differ_at t A B \<Longrightarrow> anc i t \<Longrightarrow> i \<noteq> t \<Longrightarrow> i \<notin> A \<and> i \<notin> B"
  by (auto simp: differ_at_def dest: avail_above)

lemma differ_cntd:
  assumes "differ_at t A B" "anc x t" "2 \<le> x"
  shows "int (cntd B (ilog2 x)) - int (cntd A (ilog2 x)) =
    (of_bool (counted B (2 * (x div 2))) + of_bool (counted B (Suc (2 * (x div 2)))))
    - (of_bool (counted A (2 * (x div 2))) + of_bool (counted A (Suc (2 * (x div 2)))))"
  using assms cntd_insert_siblings[of x t A] cntd_insert_siblings[of x t B]
  unfolding differ_at_def by auto

lemma stale_below: "x \<noteq> 0 \<Longrightarrow> x < i \<Longrightarrow> stale x A B i = mfree B i"
  using anc_le[of i x] by (auto simp: stale_def)

lemma stale_at: "stale x A B x = mfree A x"
  by (simp add: stale_def)

lemma stale_sibling:
  assumes "differ_at t A B" "anc x t" "1 \<le> x" "1 \<le> i" "ilog2 i = ilog2 x"
  shows "stale x A B i = mfree A i"
proof (cases "i = x")
  case False
  then have "\<not> anc i t" using siblings_of[OF assms(2,3,5,4)] by blast
  then show ?thesis using differ_other[OF assms(1)] by (simp add: stale_def)
qed (simp add: stale_at)

lemma stale_parent: "anc y x \<Longrightarrow> stale x A B y = mfree A y"
  by (simp add: stale_def)

lemma stale_step:
  assumes "2 \<le> x"
  shows "(stale x A B)(x := mfree B x) = stale (x div 2) A B"
proof
  fix i
  have "\<not> anc x (x div 2)" using anc_le[of x "x div 2"] assms by auto
  then show "((stale x A B)(x := mfree B x)) i = stale (x div 2) A B i"
    using anc_up_iff[OF assms, of i] by (auto simp: stale_def)
qed

lemma stale_le: "1 \<le> i \<Longrightarrow> i < 1024 \<Longrightarrow> stale x A B i \<le> 512"
  using mfree_le[of i A] mfree_le[of i B] pages_le[of i] by (auto simp: stale_def)

lemma mfree_le512: "1 \<le> i \<Longrightarrow> i < 1024 \<Longrightarrow> mfree A i \<le> 512"
  using mfree_le[of i A] pages_le[of i] by auto

lemma counted_iff:
  "(\<And>j. anc j i \<Longrightarrow> j \<noteq> i \<Longrightarrow> j \<notin> A) \<Longrightarrow>
    counted A i \<longleftrightarrow> mfree A i = pages i \<and> (i = 1 \<or> mfree A (i div 2) \<noteq> pages (i div 2))"
  by (auto simp: counted_def)

lemma ucast_of_bool [simp]: "(ucast (of_bool c :: u8) :: u16) = of_bool c"
  by (cases c) simp_all

lemma upd_levels_length [simp]: "length (upd_levels A B n l) = 10"
  by (simp add: upd_levels_def)

lemma upd_levels_nth [simp]:
  "d < 10 \<Longrightarrow> upd_levels A B n l ! d =
    (if d < n then l ! d + of_nat (cntd B d) - of_nat (cntd A d) else l ! d)"
  by (simp add: upd_levels_def)

lemma upd_levels_step:
  assumes "length l = 10" "d < 10" "(of_nat (cntd B d) :: u16) - of_nat (cntd A d) = p + q - (v + w)"
  shows "(upd_levels A B d (l[d := l ! d + - v + - w]))
      [d := upd_levels A B d (l[d := l ! d + - v + - w]) ! d + p + q]
    = upd_levels A B (Suc d) l"
proof (rule nth_equalityI)
  fix i assume "i < length ((upd_levels A B d (l[d := l ! d + - v + - w]))
      [d := upd_levels A B d (l[d := l ! d + - v + - w]) ! d + p + q])"
  then have i: "i < 10" by simp
  have "l ! d + (of_nat (cntd B d) - of_nat (cntd A d)) = l ! d + - v + - w + p + q"
    unfolding assms(3) by (simp add: algebra_simps)
  then show "((upd_levels A B d (l[d := l ! d + - v + - w]))
      [d := upd_levels A B d (l[d := l ! d + - v + - w]) ! d + p + q]) ! i = upd_levels A B (Suc d) l ! i"
    using i assms(1,2) by (cases "i = d") (auto simp: algebra_simps)
qed simp

lemma upd_levels_0: "length l = 10 \<Longrightarrow> upd_levels A B 0 l = l"
  by (rule nth_equalityI) simp_all

lemma of_int_diff_word:
  assumes "int a - int b = (of_bool p + of_bool q) - (of_bool r + of_bool t)"
  shows "(of_nat a :: u16) - of_nat b = of_bool p + of_bool q - (of_bool r + of_bool t)"
proof -
  have "(of_nat a :: u16) - of_nat b = of_int (int a - int b)" by simp
  also have "\<dots> = of_int ((of_bool p + of_bool q) - (of_bool r + of_bool t))" by (simp only: assms)
  finally show ?thesis by simp
qed

text \<open>The recomputed value of an inner node is the one the new set determines.\<close>

lemma recompute_word:
  assumes "l \<le> 512" "r \<le> 512"
  shows "(if unat (of_nat l :: u16) + unat (of_nat r :: u16) = unat (of_nat (pages i) :: u16)
      then of_nat (pages i) else if (of_nat l :: u16) < of_nat r then of_nat r else of_nat l)
    = (of_nat (comb (pages i) l r) :: u16)"
proof -
  have "unat (of_nat l :: u16) = l" "unat (of_nat r :: u16) = r"
    using assms by (auto intro!: unat_of_nat_small)
  then show ?thesis by (auto simp: pages_word comb_def max_def word_less_nat_alt)
qed

text \<open>Both siblings tested and the counter of their level changed, as the code does before and after.\<close>

lemma count_siblings_bst:
  assumes r: "node_range b x" and x: "2 \<le> x" and m: "\<And>i. 1 \<le> i \<Longrightarrow> i < 1024 \<Longrightarrow> m i \<le> 512"
    and l: "length l = 10"
    and p: "m (2 * (x div 2)) = pages (2 * (x div 2)) \<and> m (x div 2) \<noteq> pages (x div 2) \<longleftrightarrow> p"
    and q: "m (Suc (2 * (x div 2))) = pages (Suc (2 * (x div 2))) \<and> m (x div 2) \<noteq> pages (x div 2) \<longleftrightarrow> q"
  shows "count_siblings g np (mkn sep b x v w) b (bst s b m u f l)
    = Ret (bst s b m u f (l[ilog2 x := l ! ilog2 x + g (of_bool p) + g (of_bool q)]))"
proof -
  let ?h = "x div 2"
  have rh: "node_range b ?h" and h512: "?h < 512" "1 \<le> ?h"
    and rL: "node_range b (2 * ?h)" and rR: "node_range b (Suc (2 * ?h))"
    using r x by (auto simp: node_range_def) presburger
  have le: "m ?h \<le> 512" "m (2 * ?h) \<le> 512" "m (Suc (2 * ?h)) \<le> 512"
    using m[of ?h] m[of "2 * ?h"] m[of "Suc (2 * ?h)"] rL rR h512 by (auto simp: node_range_def)
  have cL: "check_node_block_counting (bst s b m u f l') (Some (1024 * b + 2 * ?h)) = Ret (of_bool p)" for l'
    using check_bst[OF rL, of m s u f l'] le h512 p by auto
  have cR: "check_node_block_counting (bst s b m u f l') (Some (1024 * b + Suc (2 * ?h))) = Ret (of_bool q)" for l'
    using check_bst[OF rR, of m s u f l'] le h512 q by auto
  have d: "unat (of_nat (ilog2 x) :: u16) = ilog2 x" "ilog2 x < 10"
    using ilog2_word[OF r] ilog2_le9[of x] r by (auto simp: node_range_def)
  show ?thesis using rh h512 d l x
    by (simp add: count_siblings_def cL cR fbs_add_bst del: add_Suc_right)
qed

lemma count_root_bst:
  assumes b: "b < CNT_MEM_BLOCKS" and m: "m 1 \<le> 512" "m 0 \<le> 512" and l: "length l = 10"
    and p: "m 1 = pages 1 \<longleftrightarrow> p"
  shows "count_siblings g (Some (1024 * b + 1)) (mkn sep b 1 v w) b (bst s b m u f l)
    = Ret (bst s b m u f (l[0 := l ! 0 + g (of_bool p)]))"
proof -
  have "check_node_block_counting (bst s b m u f l) (Some (1024 * b + 1)) = Ret (of_bool p)"
    using check_bst[of b 1 m s u f l] b m p by (simp add: node_range_def)
  then show ?thesis using l by (simp add: count_siblings_def fbs_add_bst)
qed

text \<open>The recomputation of one node of the path.\<close>

lemma recompute_max_bst:
  assumes r: "node_range b x" and x: "x < 512" "x \<notin> B"
    and m: "m (2 * x) = mfree B (2 * x)" "m (Suc (2 * x)) = mfree B (Suc (2 * x))" and u: "\<not> u x"
  shows "recompute_max (Some (1024 * b + x)) (mkn sep b x v w) (bst s b m u f l)
    = Ret (bst s b (m(x := mfree B x)) u f l)"
proof -
  have rc: "node_range b (2 * x)" "node_range b (Suc (2 * x))" and x1: "1 \<le> x"
    using r x by (auto simp: node_range_def)
  have "mfree B x = comb (pages x) (mfree B (2 * x)) (mfree B (Suc (2 * x)))"
    using mfree_inner[OF x(2) x1 x(1)] .
  moreover have "mfree B (2 * x) \<le> 512" "mfree B (Suc (2 * x)) \<le> 512"
    using mfree_le512 rc by (auto simp: node_range_def)
  ultimately have rec: "(if unat (of_nat (mfree B (2 * x)) :: u16) + unat (of_nat (mfree B (Suc (2 * x))) :: u16)
        = unat (of_nat (pages x) :: u16) then of_nat (pages x)
        else if (of_nat (mfree B (2 * x)) :: u16) < of_nat (mfree B (Suc (2 * x)))
        then of_nat (mfree B (Suc (2 * x))) else of_nat (mfree B (2 * x))) = (of_nat (mfree B x) :: u16)"
    using recompute_word by simp
  have "u(x := False) = u" using u by (simp add: fun_eq_iff)
  then have set: "set_node (bst s b m u f l) (Some (1024 * b + x)) (maxFreePage_update (\<lambda>_. of_nat (mfree B x)))
      = Ret (bst s b (m(x := mfree B x)) u f l)"
    using set_node_bst[OF r, of "maxFreePage_update (\<lambda>_. of_nat (mfree B x))" s m u "mfree B x" False f l] u
    by (simp add: mkn_updates)
  have d: "(of_nat (ilog2 x) :: u16) \<noteq> of_nat (STANDART_DEPTH - 1)"
    using ilog2_word_9[OF r] x(1) by simp
  show ?thesis unfolding recompute_max_def mkn_simps if_P[OF d] if_P[OF x(1)]
    by (simp only: get_node_bst[OF rc(1)] get_node_bst[OF rc(2)] bind_res.simps mkn_simps m Let_def rec set)
qed

lemma path_inner: "differ_at t A B \<Longrightarrow> anc x t \<Longrightarrow> x \<noteq> t \<Longrightarrow> 1 \<le> x \<Longrightarrow> x < 512"
proof (rule ccontr)
  assume a: "differ_at t A B" "anc x t" "x \<noteq> t" "1 \<le> x" "\<not> x < 512"
  then have "ilog2 x = 9" "ilog2 t = 9"
    using anc_le[OF a(2)] differ_range[OF a(1)] by (auto intro: ilog2_leaf)
  then show False using anc_same_level[OF a(2,4)] a(3) by simp
qed

lemma path_above:
  assumes "differ_at t A B" "anc x t" "x \<noteq> t" "anc j x"
  shows "j \<notin> A \<and> j \<notin> B"
  using differ_above[OF assms(1)] anc_trans[OF assms(4,2)] assms(2-4) anc_antisym[OF assms(2)] by metis

text \<open>On the path, the test of the code is the count of the maximal free blocks.\<close>

lemma path_counted:
  assumes D: "differ_at t A B" and x: "anc x t" "x \<noteq> t" "2 \<le> x"
    and i: "i = 2 * (x div 2) \<or> i = Suc (2 * (x div 2))"
  shows "stale x A B i = pages i \<and> stale x A B (x div 2) \<noteq> pages (x div 2) \<longleftrightarrow> counted A i"
    and "mfree B i = pages i \<and> mfree B (x div 2) \<noteq> pages (x div 2) \<longleftrightarrow> counted B i"
proof -
  have i2: "i div 2 = x div 2" "2 \<le> i" using i x(3) by auto
  then have l: "ilog2 i = ilog2 x" using ilog2_half x(3) by simp
  have up: "j \<notin> A \<and> j \<notin> B" if "anc j i" "j \<noteq> i" for j
    using anc_step[OF that] i2(1) path_above[OF D x(1,2)] anc_trans[OF _ anc_half, of j x] by metis
  show "stale x A B i = pages i \<and> stale x A B (x div 2) \<noteq> pages (x div 2) \<longleftrightarrow> counted A i"
    using up i2 l x stale_sibling[OF D x(1)] stale_parent[OF anc_half] by (auto simp: counted_iff)
  show "mfree B i = pages i \<and> mfree B (x div 2) \<noteq> pages (x div 2) \<longleftrightarrow> counted B i"
    using up i2 by (auto simp: counted_iff)
qed

lemma root_counted:
  assumes "differ_at t A B" "anc 1 t" "1 \<noteq> t"
  shows "mfree A 1 = pages 1 \<longleftrightarrow> counted A 1" "mfree B 1 = pages 1 \<longleftrightarrow> counted B 1"
  using path_above[OF assms] by (auto simp: counted_iff)

lemma update_ok:
  assumes "differ_at t A B" "anc x t" "x \<noteq> t" "1 \<le> x" "b < CNT_MEM_BLOCKS"
    and "length l = 10" "ilog2 x + 2 \<le> fuel"
  shows "update_node_free_cnt fuel (Some (1024 * b + x)) b (bst s b (stale x A B) (\<lambda>i. i \<in> B) f l)
    = Ret (bst s b (mfree B) (\<lambda>i. i \<in> B) f (upd_levels A B (Suc (ilog2 x)) l))"
  using assms(2-)
proof (induction x arbitrary: fuel l rule: ilog2.induct)
  case (1 x)
  note D = assms(1)
  obtain fuel' where fuel: "fuel = Suc fuel'" using "1.prems"(6) by (cases fuel) auto
  have x512: "x < 512" using path_inner[OF D "1.prems"(1-3)] .
  have rx: "node_range b x" using "1.prems" x512 by (simp add: node_range_def)
  have rec: "recompute_max (Some (1024 * b + x)) (mkn sep b x v w) (bst s b (stale x A B) (\<lambda>i. i \<in> B) f l')
      = Ret (bst s b ((stale x A B)(x := mfree B x)) (\<lambda>i. i \<in> B) f l')" for sep v w l'
    using "1.prems"(3) path_above[OF D "1.prems"(1,2) anc_refl]
    by (intro recompute_max_bst[OF rx x512]) (auto intro: stale_below)
  show ?case
  proof (cases "x = 1")
    case True
    note rc = root_counted[OF D "1.prems"(1,2)[unfolded True]]
    have le: "mfree A 0 \<le> 512" "stale 1 A B 0 \<le> 512" for A B by (simp_all add: mfree.simps stale_def)
    have eq: "bst s b ((stale 1 A B)(1 := mfree B 1)) (\<lambda>i. i \<in> B) f l' = bst s b (mfree B) (\<lambda>i. i \<in> B) f l'" for l'
      by (rule bst_cong) (auto simp: stale_below)
    have sub: "count_siblings uminus (Some (Suc (1024 * b))) (mkn sep b 1 v w) b
        (bst s b (stale 1 A B) (\<lambda>i. i \<in> B) f l)
      = Ret (bst s b (stale 1 A B) (\<lambda>i. i \<in> B) f (l[0 := l ! 0 + - of_bool (counted A 1)]))" for sep v w
      using count_root_bst[of b "stale 1 A B" l "counted A 1" uminus sep v w s] "1.prems"(4,5)
        stale_le[of 1 1 A B] le(2) rc(1) by (simp add: stale_at)
    have add: "count_siblings id (Some (Suc (1024 * b))) (mkn sep b 1 v w) b
        (bst s b (mfree B) (\<lambda>i. i \<in> B) f l')
      = Ret (bst s b (mfree B) (\<lambda>i. i \<in> B) f (l'[0 := l' ! 0 + of_bool (counted B 1)]))"
      if "length l' = 10" for sep v w l'
      using count_root_bst[of b "mfree B" l' "counted B 1" id sep v w s] that "1.prems"(4)
        mfree_le512[of 1 B] le(1) rc(2) by simp
    have step: "l[0 := l ! 0 + - of_bool (counted A 1) + of_bool (counted B 1)] = upd_levels A B (Suc 0) l"
      using upd_levels_step[of l 0 B A "of_bool (counted B 1)" 0 "of_bool (counted A 1)" 0] "1.prems"(5)
      by (simp add: cntd_0 upd_levels_0 split del: split_of_bool)
    show ?thesis using fuel True rx rec eq "1.prems"(4,5)
      by (simp add: sub[unfolded One_nat_def] add[unfolded One_nat_def] step[unfolded One_nat_def]
          split del: split_of_bool del: add_uminus_conv_diff upd_levels_nth)
  next
    case False
    then have x2: "2 \<le> x" using "1.prems"(3) by simp
    let ?h = "x div 2"
    have IH: "update_node_free_cnt fuel' (Some (1024 * b + ?h)) b
        (bst s b (stale ?h A B) (\<lambda>i. i \<in> B) f l') =
      Ret (bst s b (mfree B) (\<lambda>i. i \<in> B) f (upd_levels A B (Suc (ilog2 ?h)) l'))"
      if "length l' = 10" for l'
      using "1.prems" fuel x2 that ilog2_half[OF x2] anc_trans[OF anc_half "1.prems"(1)] anc_le[OF "1.prems"(1)]
      by (intro "1.IH") auto
    note pc = path_counted[OF D "1.prems"(1,2) x2]
    note sub = count_siblings_bst[OF rx x2 stale_le "1.prems"(5) pc(1)[OF disjI1[OF refl]] pc(1)[OF disjI2[OF refl]]]
    note add = count_siblings_bst[OF rx x2 mfree_le512 upd_levels_length pc(2)[OF disjI1[OF refl]] pc(2)[OF disjI2[OF refl]]]
    have d: "ilog2 x < 10" "Suc (ilog2 ?h) = ilog2 x"
      using ilog2_inner[OF "1.prems"(3) x512] ilog2_half[OF x2] by auto
    note step = upd_levels_step[OF "1.prems"(5) d(1) of_int_diff_word[OF differ_cntd[OF D "1.prems"(1) x2]]]
    show ?thesis using fuel x2 rx
      by (simp add: rec stale_step[OF x2] IH "1.prems"(5) sub add d(2) step split del: split_of_bool
          del: upd_levels_nth add_uminus_conv_diff)
  qed
qed

end
