(* ===== verification/Buddy_Ops.thy ===== *)
theory Buddy_Ops
  imports Buddy_Update
begin

text \<open>
  \<open>alloc_in_node\<close> and \<open>free_in_node\<close> on a tree that represents the set \<open>U\<close> of handed-out nodes: they
  turn it into the tree of \<open>insert t U\<close> for an available node \<open>t\<close> of the right size, and of
  \<open>U - {t}\<close> for the node \<open>t\<close> that starts at the given address.
\<close>

definition free_of :: "nat set \<Rightarrow> u16" where
  "free_of U = of_nat (512 - (\<Sum>i\<in>U. pages i))"

definition fbs_of :: "nat set \<Rightarrow> u16 list" where
  "fbs_of U = map (\<lambda>d. of_nat (cntd U d)) [0..<10]"

definition tst :: "buddy \<Rightarrow> nat \<Rightarrow> nat set \<Rightarrow> buddy" where
  "tst s b U = bst s b (mfree U) (\<lambda>i. i \<in> U) (free_of U) (fbs_of U)"

definition addr_of :: "buddy \<Rightarrow> nat \<Rightarrow> nat \<Rightarrow> u64" where
  "addr_of s b i = mem_separator s + of_nat (PGSIZE * (512 * b + first_page i))"

lemma fbs_of_length [simp]: "length (fbs_of U) = 10"
  by (simp add: fbs_of_def)

lemma fbs_of_nth [simp]: "d < 10 \<Longrightarrow> fbs_of U ! d = of_nat (cntd U d)"
  by (simp add: fbs_of_def)

section \<open>The counters after a change\<close>

lemma free_of_insert:
  assumes "antichain U" "avail U t"
  shows "free_of (insert t U) = free_of U - of_nat (pages t)"
proof -
  have "(\<Sum>i\<in>insert t U. pages i) = pages t + (\<Sum>i\<in>U. pages i)"
    using assms avail_notin by simp
  moreover have "(\<Sum>i\<in>insert t U. pages i) \<le> 512"
    using antichain_pages_le[OF antichain_insert[OF assms]] .
  ultimately have "512 - (\<Sum>i\<in>U. pages i) = (512 - (\<Sum>i\<in>insert t U. pages i)) + pages t" by simp
  then show ?thesis unfolding free_of_def by simp
qed

lemma int_pm1_word:
  assumes "int a = int c + (if p then - 1 else 1)"
  shows "(of_nat a :: u16) = of_nat c + (if p then - 1 else 1)"
proof -
  have "(of_nat a :: u16) = of_int (int c + (if p then - 1 else 1))" by (simp flip: assms)
  then show ?thesis by simp
qed

lemma fbs_after_alloc:
  assumes "avail U t"
  shows "upd_levels U (insert t U) (ilog2 t)
      ((fbs_of U)[ilog2 t := fbs_of U ! ilog2 t + (if counted U t then - 1 else 1)])
    = fbs_of (insert t U)"
proof (rule nth_equalityI)
  have t: "ilog2 t \<le> 9" using assms ilog2_le9 by (auto simp: avail_def)
  fix d assume "d < length (upd_levels U (insert t U) (ilog2 t)
      ((fbs_of U)[ilog2 t := fbs_of U ! ilog2 t + (if counted U t then - 1 else 1)]))"
  then have d: "d < 10" by simp
  consider "d < ilog2 t" | "d = ilog2 t" | "ilog2 t < d" by linarith
  then show "upd_levels U (insert t U) (ilog2 t)
      ((fbs_of U)[ilog2 t := fbs_of U ! ilog2 t + (if counted U t then - 1 else 1)]) ! d
    = fbs_of (insert t U) ! d"
  proof cases
    case 2
    then show ?thesis using d int_pm1_word[OF cntd_insert_target[OF assms]] by simp
  next
    case 3
    then show ?thesis using d cntd_insert_below[OF assms 3] by simp
  qed (use d in simp)
qed simp

lemma fbs_after_free:
  assumes "avail U t"
  shows "(upd_levels (insert t U) U (ilog2 t) (fbs_of (insert t U)))
      [ilog2 t := upd_levels (insert t U) U (ilog2 t) (fbs_of (insert t U)) ! ilog2 t
        + (if counted U t then 1 else - 1)]
    = fbs_of U"
proof (rule nth_equalityI)
  have t: "ilog2 t < 10" using assms ilog2_le9[of t] by (auto simp: avail_def)
  let ?l = "upd_levels (insert t U) U (ilog2 t) (fbs_of (insert t U))"
  fix d assume "d < length (?l[ilog2 t := ?l ! ilog2 t + (if counted U t then 1 else - 1)])"
  then have d: "d < 10" by simp
  consider "d < ilog2 t" | "d = ilog2 t" | "ilog2 t < d" by linarith
  then show "?l[ilog2 t := ?l ! ilog2 t + (if counted U t then 1 else - 1)] ! d = fbs_of U ! d"
  proof cases
    case 2
    then show ?thesis using d int_pm1_word[OF cntd_insert_target[OF assms]] by (simp split: if_splits)
  next
    case 3
    then show ?thesis using d cntd_insert_below[OF assms 3] by simp
  qed (use d in simp)
qed simp

section \<open>The node that changes\<close>

lemma update_parent:
  assumes "differ_at t A B" "b < CNT_MEM_BLOCKS" "length l = 10"
    and "\<And>i. 1 \<le> i \<Longrightarrow> i < 1024 \<Longrightarrow> m i = (if i = t then mfree B t else mfree A i)"
    and "\<And>i. 1 \<le> i \<Longrightarrow> i < 1024 \<Longrightarrow> u i = (i \<in> B)"
  shows "update_node_free_cnt 11 (head (mkn sep b t v w)) b (bst s b m u f l)
    = Ret (bst s b (mfree B) (\<lambda>i. i \<in> B) f (upd_levels A B (ilog2 t) l))"
proof (cases "t = 1")
  case True
  have "bst s b m u f l = bst s b (mfree B) (\<lambda>i. i \<in> B) f l"
  proof (rule bst_cong)
    fix i assume i: "1 \<le> i" "i < (1024::nat)"
    then show "u i = (i \<in> B)" using assms(5) by simp
    have "\<not> anc i t" if "i \<noteq> t" using anc_le[of i t] that True i by auto
    then show "m i = mfree B i" using assms(4)[OF i] differ_other[OF assms(1), of i] by auto
  qed
  then show ?thesis using True upd_levels_0[OF assms(3)] by (simp add: eval_nat_numeral)
next
  case False
  then have t: "2 \<le> t" "t < 1024" using differ_range[OF assms(1)] by auto
  have "bst s b m u f l = bst s b (stale (t div 2) A B) (\<lambda>i. i \<in> B) f l"
  proof (rule bst_cong)
    fix i assume i: "1 \<le> i" "i < (1024::nat)"
    then show "u i = (i \<in> B)" using assms(5) by simp
    have "\<not> anc t (t div 2)" using anc_le[of t "t div 2"] t by auto
    then show "m i = stale (t div 2) A B i"
      using assms(4)[OF i] anc_up_iff[OF t(1), of i] differ_other[OF assms(1), of i] by (auto simp: stale_def)
  qed
  moreover have "update_node_free_cnt 11 (Some (1024 * b + t div 2)) b
      (bst s b (stale (t div 2) A B) (\<lambda>i. i \<in> B) f l)
    = Ret (bst s b (mfree B) (\<lambda>i. i \<in> B) f (upd_levels A B (Suc (ilog2 (t div 2))) l))"
    using t assms ilog2_le9[of "t div 2"] by (intro update_ok[OF assms(1) anc_half]) auto
  ultimately show ?thesis using False ilog2_half[OF t(1)] by simp
qed

lemma check_tst:
  assumes "avail U t" "b < CNT_MEM_BLOCKS"
  shows "check_node_block_counting (bst s b (mfree U) u f l) (Some (1024 * b + t)) = Ret (of_bool (counted U t))"
proof -
  have r: "node_range b t" using assms by (simp add: avail_def node_range_def)
  have "mfree U (t div 2) \<le> 512"
    using r mfree_le512[of "t div 2" U] by (cases "t div 2 = 0") (auto simp: mfree.simps[of U 0] node_range_def)
  moreover have "mfree U t \<le> 512" using r mfree_le512[of t U] by (simp add: node_range_def)
  ultimately show ?thesis
    using check_bst[OF r, of "mfree U" s u f l] avail_above[OF assms(1)] by (simp add: counted_iff)
qed

lemma alloc_target:
  assumes "avail U t" "antichain U" "b < CNT_MEM_BLOCKS"
  shows "alloc_in_node (Suc fuel) (Some (1024 * b + t)) (of_nat (pages t)) b (tst s b U)
    = Ret (addr_of s b t, tst s b (insert t U))"
proof -
  have r: "node_range b t" using assms by (simp add: avail_def node_range_def)
  have d: "unat (of_nat (ilog2 t) :: u16) = ilog2 t" "ilog2 t < length (fbs_of U)"
    using ilog2_word[OF r] ilog2_le9[of t] r by (auto simp: node_range_def)
  have D: "differ_at t U (insert t U)" using assms by (simp add: differ_at_def)
  define n where "n = mkn (mem_separator s) b t (pages t) (t \<in> U)"
  have n: "maxFreePage n = of_nat (pages t)" "cnt_page n = of_nat (pages t)" "depth n = of_nat (ilog2 t)"
    by (simp_all add: n_def)
  define l where "l = (fbs_of U)[ilog2 t := fbs_of U ! ilog2 t + (if counted U t then - 1 else 1)]"
  let ?f = "free_of U - of_nat (pages t)" and ?m = "(mfree U)(t := 0)" and ?u = "(\<lambda>i. i \<in> U)(t := True)"
  have c: "(if (of_bool (counted U t) :: u8) \<noteq> 0 then - 1 else 1) = (if counted U t then - 1 else (1::u16))" by simp
  have fbs: "fbs_add b (depth n) (if counted U t then - 1 else 1) (bst s b (mfree U) (\<lambda>i. i \<in> U) (free_of U) (fbs_of U))
      = Ret (bst s b (mfree U) (\<lambda>i. i \<in> U) (free_of U) l)"
    by (simp only: n d fbs_add_bst l_def)
  have set: "set_node (bst s b (mfree U) (\<lambda>i. i \<in> U) ?f l) (Some (1024 * b + t))
      (\<lambda>n. n\<lparr>maxFreePage := 0, is_used := 1\<rparr>) = Ret (bst s b ?m ?u ?f l)"
    by (rule set_node_bst[OF r]) (rule mkn_updates)
  have "length l = 10" by (simp add: l_def)
  from update_parent[OF D assms(3) this, of ?m ?u]
  have upd: "update_node_free_cnt (STANDART_DEPTH + 1) (head n) b (bst s b ?m ?u ?f l)
    = Ret (tst s b (insert t U))"
    using fbs_after_alloc[OF assms(1)] by (simp add: n_def l_def free_of_insert[OF assms(2,1)] tst_def)
  have get: "get_node (tst s b (insert t U)) (Some (1024 * b + t))
      = Ret (mkn (mem_separator s) b t (mfree (insert t U) t) True)"
    using r by (simp add: tst_def)
  have get0: "get_node (tst s b U) (Some (1024 * b + t)) = Ret n"
    using r avail_full[OF assms(1)] by (simp add: tst_def n_def)
  have "alloc_in_node (Suc fuel) (Some (1024 * b + t)) (of_nat (pages t)) b (tst s b U)
      = bind_res (get_node (tst s b (insert t U)) (Some (1024 * b + t)))
          (\<lambda>n4. Ret (start_ptr n4, tst s b (insert t U)))"
    by (simp only: alloc_in_node.simps get0 bind_res.simps n(1,2) simp_thms if_True)
       (simp only: tst_def[of s b U] check_tst[OF assms(1,3)] bind_res.simps c fbs Let_def bi_free_bst set upd)
  then show ?thesis by (simp only: get bind_res.simps mkn_simps addr_of_def)
qed

section \<open>The search for a node to hand out\<close>

lemma get_node_tst:
  "node_range b i \<Longrightarrow>
    get_node (tst s b U) (Some (1024 * b + i)) = Ret (mkn (mem_separator s) b i (mfree U i) (i \<in> U))"
  by (simp add: tst_def)

lemma size_word_eq: "m \<le> 512 \<Longrightarrow> k \<le> 9 \<Longrightarrow> (of_nat m :: u16) = of_nat (2 ^ k) \<longleftrightarrow> m = 2 ^ k"
  using power_increasing[of k 9 "2::nat"] by (intro of_nat_word_eq_iff) auto

lemma size_word_le: "m \<le> 512 \<Longrightarrow> k \<le> 9 \<Longrightarrow> (of_nat (2 ^ k) :: u16) \<le> of_nat m \<longleftrightarrow> 2 ^ k \<le> m"
  using power_increasing[of k 9 "2::nat"] by (intro of_nat_word_le_iff) auto

lemma avail_of_full:
  assumes "antichain U" "1 \<le> i" "i < 1024" "mfree U i = pages i"
    and "\<And>j. anc j i \<Longrightarrow> j \<noteq> i \<Longrightarrow> j \<notin> U"
  shows "avail U i"
proof -
  have "i \<notin> U" using assms(4) pages_pos[of i] by (metis mfree_used less_irrefl)
  moreover have "\<not> anc i j" if "j \<in> U" for j
    using assms(1,4) that mfree_full_iff[OF assms(2,3), of U] by (auto simp: antichain_def)
  ultimately show ?thesis using assms by (auto simp: avail_def)
qed

lemma alloc_descend:
  assumes "node_range b i" "k \<le> 9" "\<not> (mfree U i = 2 ^ k \<and> pages i = 2 ^ k)" "i < 512"
  shows "alloc_in_node (Suc fuel) (Some (1024 * b + i)) (of_nat (2 ^ k)) b (tst s b U)
    = alloc_in_node fuel (Some (1024 * b + (if 2 ^ k \<le> mfree U (2 * i) then 2 * i else Suc (2 * i))))
        (of_nat (2 ^ k)) b (tst s b U)"
proof -
  have r: "node_range b (2 * i)" using assms by (simp add: node_range_def)
  have i: "1 \<le> i" "i < 1024" using assms by (simp_all add: node_range_def)
  define w where "w = (of_nat (2 ^ k) :: u16)"
  define L where "L = mkn (mem_separator s) b (2 * i) (mfree U (2 * i)) (2 * i \<in> U)"
  have c: "\<not> ((of_nat (mfree U i) :: u16) = w \<and> of_nat (pages i) = w)"
    using assms(2,3) mfree_le512[OF i, of U] pages_le[of i] by (simp only: size_word_eq w_def simp_thms)
  have l: "w \<le> maxFreePage L \<longleftrightarrow> 2 ^ k \<le> mfree U (2 * i)"
    using mfree_le512[of "2 * i" U] i assms(2,4) by (simp add: w_def L_def size_word_le del: of_nat_power)
  show ?thesis
    unfolding w_def[symmetric] alloc_in_node.simps get_node_tst[OF assms(1)] bind_res.simps mkn_simps if_not_P[OF c]
      if_P[OF assms(4)] get_node_tst[OF r] L_def[symmetric]
    using l by simp
qed

lemma alloc_in_node_ok:
  assumes "node_range b i" "antichain U" "k \<le> 9" "2 ^ k \<le> mfree U i" "10 \<le> fuel + ilog2 i"
    and "\<And>j. anc j i \<Longrightarrow> j \<noteq> i \<Longrightarrow> j \<notin> U"
  shows "\<exists>t. anc i t \<and> avail U t \<and> pages t = 2 ^ k \<and>
    alloc_in_node fuel (Some (1024 * b + i)) (of_nat (2 ^ k)) b (tst s b U)
      = Ret (addr_of s b t, tst s b (insert t U))"
  using assms
proof (induction fuel arbitrary: i)
  case 0
  then show ?case using ilog2_le9[of i] by (simp add: node_range_def)
next
  case (Suc fuel)
  have i: "1 \<le> i" "i < 1024" "b < CNT_MEM_BLOCKS" using Suc.prems(1) by (simp_all add: node_range_def)
  show ?case
  proof (cases "mfree U i = 2 ^ k \<and> pages i = 2 ^ k")
    case True
    then have "avail U i" using avail_of_full[OF Suc.prems(2) i(1,2)] Suc.prems(6) by simp
    then show ?thesis using alloc_target[OF _ Suc.prems(2) i(3), of i fuel s] True
      by (intro exI[of _ i]) simp
  next
    case False
    note sp = mfree_split[OF i(1,2) Suc.prems(4) False]
    define c where "c = (if 2 ^ k \<le> mfree U (2 * i) then 2 * i else Suc (2 * i))"
    have c: "c = 2 * i \<or> c = Suc (2 * i)" "2 ^ k \<le> mfree U c" using sp(4) by (auto simp: c_def)
    then have d: "c div 2 = i" "2 \<le> c" "ilog2 c = Suc (ilog2 i)" using i(1) by auto
    have "j \<notin> U" if "anc j c" "j \<noteq> c" for j
      using anc_step[OF that] d(1) Suc.prems(6)[of j] sp(2) by auto
    then obtain t where "anc c t \<and> avail U t \<and> pages t = 2 ^ k \<and>
        alloc_in_node fuel (Some (1024 * b + c)) (of_nat (2 ^ k)) b (tst s b U)
          = Ret (addr_of s b t, tst s b (insert t U))"
      using Suc.IH[of c] Suc.prems(2,3,5) c d sp(1) i by (auto simp: node_range_def)
    then show ?thesis
      using alloc_descend[OF Suc.prems(1,3) False sp(1), of fuel s] anc_trans[OF anc_half[of c], of t]
      unfolding c_def[symmetric] d(1) by auto
  qed
qed

section \<open>The node an address names\<close>

text \<open>The addresses of the managed region do not wrap around.\<close>

definition region_fits :: "buddy \<Rightarrow> bool" where
  "region_fits s \<longleftrightarrow> unat (mem_separator s) + PGSIZE * (512 * CNT_MEM_BLOCKS) < 2 ^ 64"

definition page_addr :: "buddy \<Rightarrow> nat \<Rightarrow> nat \<Rightarrow> u64" where
  "page_addr s b p = mem_separator s + of_nat (PGSIZE * (512 * b + p))"

lemma unat_page_addr:
  assumes "region_fits s" "b < CNT_MEM_BLOCKS" "p \<le> 512"
  shows "unat (page_addr s b p) = unat (mem_separator s) + PGSIZE * (512 * b + p)"
  unfolding page_addr_def using assms by (intro unat_add_of_nat) (auto simp: region_fits_def)

lemma page_addr_eq:
  assumes "region_fits s" "b < CNT_MEM_BLOCKS" "p \<le> 512" "q \<le> 512"
  shows "page_addr s b p = page_addr s b q \<longleftrightarrow> p = q"
  using unat_page_addr[OF assms(1,2,3)] unat_page_addr[OF assms(1,2,4)] by (auto simp: word_unat_eq_iff)

lemma page_addr_le:
  assumes "region_fits s" "b < CNT_MEM_BLOCKS" "p \<le> 512" "q \<le> 512"
  shows "page_addr s b p \<le> page_addr s b q \<longleftrightarrow> p \<le> q"
  using unat_page_addr[OF assms(1,2,3)] unat_page_addr[OF assms(1,2,4)] by (auto simp: word_le_nat_alt)

lemma addr_of_page_addr: "addr_of s b i = page_addr s b (first_page i)"
  by (simp add: addr_of_def page_addr_def)

lemma free_target:
  assumes "avail U t" "antichain U" "b < CNT_MEM_BLOCKS"
  shows "bind_res (set_node (tst s b (insert t U)) (Some (1024 * b + t)) (\<lambda>n. n\<lparr>is_used := 0, maxFreePage := cnt_page n\<rparr>))
      (\<lambda>s1. bind_res (update_node_free_cnt (STANDART_DEPTH + 1) (head (mkn sep b t v w)) b
          (upd_block b (bm_info_update (bi_free_update (\<lambda>f. f + of_nat (pages t)))) s1))
      (\<lambda>s3. bind_res (check_node_block_counting s3 (Some (1024 * b + t)))
      (\<lambda>c. fbs_add b (of_nat (ilog2 t)) (if c \<noteq> 0 then 1 else - 1) s3)))
    = Ret (tst s b U)"
proof -
  have r: "node_range b t" using assms by (simp add: avail_def node_range_def)
  let ?V = "insert t U"
  have d: "unat (of_nat (ilog2 t) :: u16) = ilog2 t" "ilog2 t < 10"
    using ilog2_word[OF r] ilog2_le9[of t] r by (auto simp: node_range_def)
  have D: "differ_at t ?V U" using assms by (simp add: differ_at_def)
  define l where "l = upd_levels ?V U (ilog2 t) (fbs_of ?V)"
  let ?m = "(mfree ?V)(t := pages t)" and ?u = "(\<lambda>i. i \<in> ?V)(t := False)"
  have set: "set_node (tst s b ?V) (Some (1024 * b + t)) (\<lambda>n. n\<lparr>is_used := 0, maxFreePage := cnt_page n\<rparr>)
      = Ret (bst s b ?m ?u (free_of ?V) (fbs_of ?V))"
    unfolding tst_def by (rule set_node_bst[OF r]) (simp add: mkn_updates)
  have free: "free_of ?V + of_nat (pages t) = free_of U" by (simp add: free_of_insert[OF assms(2,1)])
  have upd: "update_node_free_cnt (STANDART_DEPTH + 1) (head (mkn sep b t v w)) b (bst s b ?m ?u (free_of U) (fbs_of ?V))
      = Ret (bst s b (mfree U) (\<lambda>i. i \<in> U) (free_of U) l)"
    using update_parent[OF D assms(3) fbs_of_length, of ?m ?u sep v w s "free_of U"]
      avail_notin[OF assms(1)] avail_full[OF assms(1)] by (auto simp: l_def simp del: mkn_simps)
  have c: "(if (of_bool (counted U t) :: u8) \<noteq> 0 then 1 else - 1) = (if counted U t then 1 else (- 1::u16))" by simp
  have "length l = 10" by (simp add: l_def)
  then have fbs: "fbs_add b (of_nat (ilog2 t)) (if counted U t then 1 else - 1) (bst s b (mfree U) (\<lambda>i. i \<in> U) (free_of U) l)
      = Ret (tst s b U)"
    using d fbs_after_free[OF assms(1), folded l_def] by (simp only: fbs_add_bst tst_def)
  show ?thesis
    by (simp only: set bind_res.simps bi_free_bst free upd check_tst[OF assms(1,3)] c fbs)
qed

section \<open>The walk to the address\<close>

text \<open>The nodes below \<open>i\<close> that are handed out and start at page \<open>p\<close>: at most one.\<close>

definition starting :: "nat set \<Rightarrow> nat \<Rightarrow> nat \<Rightarrow> nat set" where
  "starting U i p = {j \<in> U. anc i j \<and> first_page j = p}"

lemma starting_anc:
  assumes "antichain U" "p < 512" "j \<in> starting U i p"
  shows "anc j (512 + p)"
proof -
  have "1 \<le> j" "j < 1024" "first_page j = p" using assms by (auto simp: starting_def antichain_def)
  then show ?thesis using anc_leaf_iff[of j p] assms(2) by simp
qed

lemma starting_step:
  assumes "antichain U" "p < 512" "1 \<le> i" "anc c (512 + p)" "c = 2 * i \<or> c = Suc (2 * i)"
  shows "starting U i p = starting U c p \<union> (if i \<in> U \<and> first_page i = p then {i} else {})"
proof -
  have "anc c j" if j: "j \<in> starting U i p" "j \<noteq> i" for j
  proof -
    have "anc (2 * i) j \<or> anc (Suc (2 * i)) j" using j anc_cases_down[of i j] by (auto simp: starting_def)
    then show ?thesis
      using anc_trans[OF _ starting_anc[OF assms(1,2) j(1)]] anc_children_excl[OF assms(3), of "512 + p"] assms(4,5) by auto
  qed
  moreover have "anc i c" using assms(5) anc_child by auto
  ultimately show ?thesis by (auto simp: starting_def intro: anc_trans split: if_splits)
qed

lemma free_here:
  assumes "node_range b i" "antichain U" "region_fits s" "p < 512"
  defines "n \<equiv> mkn (mem_separator s) b i (mfree U i) (i \<in> U)"
  shows "(if start_ptr n = page_addr s b p \<and> is_used n \<noteq> 0 then
         bind_res (set_node (tst s b U) (Some (1024 * b + i)) (\<lambda>n. n\<lparr>is_used := 0, maxFreePage := cnt_page n\<rparr>)) (\<lambda>s1.
         let s2 = upd_block b (bm_info_update (bi_free_update (\<lambda>f. f + cnt_page n))) s1
         in bind_res (update_node_free_cnt (STANDART_DEPTH + 1) (head n) b s2) (\<lambda>s3.
         bind_res (check_node_block_counting s3 (Some (1024 * b + i))) (\<lambda>c.
         fbs_add b (depth n) (if c \<noteq> 0 then 1 else - 1) s3)))
       else Ret (tst s b U))
    = Ret (tst s b (U - (if i \<in> U \<and> first_page i = p then {i} else {})))"
proof -
  have i: "1 \<le> i" "i < 1024" "b < CNT_MEM_BLOCKS" using assms(1) by (simp_all add: node_range_def)
  have e: "start_ptr n = page_addr s b p \<longleftrightarrow> first_page i = p"
    using page_addr_eq[OF assms(3) i(3), of "first_page i" p] first_page_bound[OF i(1,2)] assms(4)
    by (simp add: n_def page_addr_def del: of_nat_mult of_nat_add)
  have u: "is_used n \<noteq> 0 \<longleftrightarrow> i \<in> U" by (simp add: n_def)
  show ?thesis
  proof (cases "i \<in> U \<and> first_page i = p")
    case True
    then have U: "insert i (U - {i}) = U" by auto
    have "cnt_page n = of_nat (pages i)" "depth n = of_nat (ilog2 i)" by (simp_all add: n_def)
    then show ?thesis
      using free_target[OF avail_remove[OF assms(2)] antichain_remove[OF assms(2)] i(3), of i s "mem_separator s" "mfree U i" "i \<in> U"]
        True unfolding e u U Let_def n_def[symmetric] by simp
  next
    case False
    then have "\<not> (first_page i = p \<and> i \<in> U)" by blast
    then show ?thesis unfolding e u if_not_P[OF False] by (simp only: if_False Diff_empty)
  qed
qed

lemma free_in_node_ok:
  assumes "node_range b i" "antichain U" "region_fits s" "p < 512" "anc i (512 + p)" "10 \<le> fuel + ilog2 i"
  shows "free_in_node fuel (Some (1024 * b + i)) (page_addr s b p) b (tst s b U) = Ret (tst s b (U - starting U i p))"
  using assms
proof (induction fuel arbitrary: i U)
  case 0
  then show ?case using ilog2_le9[of i] by (simp add: node_range_def)
next
  case (Suc fuel)
  have i: "1 \<le> i" "i < 1024" "b < CNT_MEM_BLOCKS" using Suc.prems(1) by (simp_all add: node_range_def)
  define V where "V = U - (if i \<in> U \<and> first_page i = p then {i} else {})"
  define n where "n = mkn (mem_separator s) b i (mfree U i) (i \<in> U)"
  note here = free_here[OF Suc.prems(1-4), folded V_def n_def]
  note get = get_node_tst[OF Suc.prems(1), of s U, folded n_def]
  have V: "antichain V" using antichain_remove[OF Suc.prems(2), of i] Suc.prems(2) by (simp add: V_def)
  show ?case
  proof (cases "i < 512")
    case False
    have "j = i" if "anc i j" "j \<in> U" for j
      using anc_cases_down[OF that(1)] anc_le[of "2 * i" j] anc_le[of "Suc (2 * i)" j] that(2) Suc.prems(2) False
      by (fastforce simp: antichain_def)
    then have "V = U - starting U i p" by (auto simp: V_def starting_def)
    then show ?thesis
      using False by (simp only: free_in_node.simps get bind_res.simps here) (simp add: n_def)
  next
    case True
    define c where "c = (if first_page i + pages i div 2 \<le> p then Suc (2 * i) else 2 * i)"
    have c: "c = 2 * i \<or> c = Suc (2 * i)" "node_range b c" "ilog2 c = Suc (ilog2 i)"
      using i True by (auto simp: c_def node_range_def)
    have "anc c (512 + p)"
      using Suc.prems(4,5) i True anc_leaf_iff[of i p] anc_leaf_iff[of c p] c
        first_page_children[OF i(1) True] pages_children[OF i(1) True]
      by (auto simp: c_def node_range_def split: if_splits)
    note ac = this starting_step[OF Suc.prems(2,4) i(1) this c(1)]
    have "\<not> anc c i" using c(1) anc_le[of c i] i(1) by auto
    then have "V - starting V c p = U - starting U i p" unfolding ac(2) by (auto simp: V_def starting_def)
    moreover have "free_in_node fuel (Some (1024 * b + c)) (page_addr s b p) b (tst s b V) = Ret (tst s b (V - starting V c p))"
      using Suc.IH[OF c(2) V Suc.prems(3,4) ac(1)] Suc.prems(6) c(3) by simp
    moreover have "start_ptr n + of_nat (unat (cnt_page n) * PGSIZE div 2) = page_addr s b (first_page i + pages i div 2)"
    proof -
      have "PGSIZE * (512 * b + first_page i) + pages i * PGSIZE div 2
          = PGSIZE * (512 * b + (first_page i + pages i div 2))"
        by (subst (1) pages_children(3)[OF i(1) True, symmetric]) (simp add: algebra_simps)
      then show ?thesis
        unfolding n_def mkn_simps page_addr_def pages_word add.assoc of_nat_add[symmetric] by (simp only:)
    qed
    ultimately show ?thesis
      using True page_addr_le[OF Suc.prems(3) i(3), of "first_page i + pages i div 2" p] first_page_bound[OF i(1,2)] Suc.prems(4)
      by (simp only: free_in_node.simps get bind_res.simps here) (auto simp: n_def c_def split: if_splits)
  qed
qed

end
