(* ===== verification/Buddy_Blocks.thy ===== *)
theory Buddy_Blocks
  imports Buddy_Ops
begin

text \<open>
  One block: the invariant of a block that has handed out the nodes \<open>U\<close>, and \<open>alloc_in_block\<close> and
  \<open>free_in_block\<close> under its lock. Work on one block leaves the invariant of every other block as it
  is.
\<close>

definition block_ok :: "buddy \<Rightarrow> nat \<Rightarrow> nat set \<Rightarrow> bool" where
  "block_ok s b U \<longleftrightarrow> tst s b U = s \<and> lk_free (bm_lock (blocks s b)) \<and>
    bm_root (blocks s b) = Some (1024 * b + 1) \<and> bi_total (bm_info (blocks s b)) = 512 \<and> antichain U"

lemma block_okD:
  assumes "block_ok s b U"
  shows "tst s b U = s" "lk_free (bm_lock (blocks s b))" "bm_root (blocks s b) = Some (1024 * b + 1)"
    "bi_total (bm_info (blocks s b)) = 512" "antichain U"
  using assms by (simp_all add: block_ok_def)

lemma tst_simps [simp]:
  "bm_lock (blocks (tst s b U) b') = bm_lock (blocks s b')"
  "bm_root (blocks (tst s b U) b') = bm_root (blocks s b')"
  "bi_total (bm_info (blocks (tst s b U) b')) = bi_total (bm_info (blocks s b'))"
  "mem_separator (tst s b U) = mem_separator s"
  "end_ptr (tst s b U) = end_ptr s"
  "free_root (tst s b U) = free_root s"
  "b' \<noteq> b \<Longrightarrow> blocks (tst s b U) b' = blocks s b'"
  by (simp_all add: tst_def bst_def)

lemma tst_info [simp]:
  "bi_free (bm_info (blocks (tst s b U) b)) = free_of U"
  "free_by_size (bm_info (blocks (tst s b U) b)) = fbs_of U"
  by (simp_all add: tst_def bst_def)

lemma bst_bst: "bst (bst s b m u f l) b m' u' f' l' = bst s b m' u' f' l'"
  by (cases s) (auto simp: bst_def)

lemma tst_tst [simp]: "tst (tst s b U) b V = tst s b V"
  by (simp add: tst_def bst_bst)

lemma tst_commute: "b \<noteq> b' \<Longrightarrow> tst (tst s b U) b' V = tst (tst s b' V) b U"
  by (cases s) (auto simp: tst_def bst_def fun_upd_twist fun_eq_iff)

lemma tst_eq_iff:
  "tst s b U = s \<longleftrightarrow>
    (\<forall>j. j div 1024 = b \<longrightarrow> j mod 1024 \<noteq> 0 \<longrightarrow>
      nodes_mem s j = mkn (mem_separator s) b (j mod 1024) (mfree U (j mod 1024)) (j mod 1024 \<in> U)) \<and>
    bi_free (bm_info (blocks s b)) = free_of U \<and> free_by_size (bm_info (blocks s b)) = fbs_of U"
  (is "?l \<longleftrightarrow> ?n \<and> ?i")
proof
  assume l: ?l
  have "nodes_mem (tst s b U) = nodes_mem s" "bm_info (blocks (tst s b U) b) = bm_info (blocks s b)" by (simp_all add: l)
  then show "?n \<and> ?i" using tst_info[of s b U] by (auto simp: tst_def bst_def fun_eq_iff split: if_splits)
next
  assume "?n \<and> ?i"
  then have n: "(\<lambda>j. if j div 1024 = b \<and> j mod 1024 \<noteq> 0
      then mkn (mem_separator s) b (j mod 1024) (mfree U (j mod 1024)) (j mod 1024 \<in> U) else nodes_mem s j) = nodes_mem s"
    and i: "(bm_info (blocks s b))\<lparr>bi_free := free_of U, free_by_size := fbs_of U\<rparr> = bm_info (blocks s b)"
    by (auto simp: fun_eq_iff)
  show ?l unfolding tst_def bst_def n i by simp
qed

lemma tst_lock:
  "upd_block b (bm_lock_update g) (tst s b U) = tst (upd_block b (bm_lock_update g) s) b U"
  by (simp add: tst_def lock_bst)

lemma lock_twice:
  "upd_block b (bm_lock_update g) (upd_block b (bm_lock_update h) s) = upd_block b (bm_lock_update (g \<circ> h)) s"
  by (cases s) (simp add: upd_block_def)

lemma lock_same: "g (bm_lock (blocks s b)) = bm_lock (blocks s b) \<Longrightarrow> upd_block b (bm_lock_update g) s = s"
  by (cases s) (simp add: upd_block_def fun_upd_idem)

lemma page_addr_simps [simp]:
  "page_addr (tst s b U) = page_addr s" "page_addr (upd_block b (bm_lock_update g) s) = page_addr s"
  "addr_of (tst s b U) = addr_of s" "addr_of (upd_block b (bm_lock_update g) s) = addr_of s"
  "region_fits (tst s b U) = region_fits s" "region_fits (upd_block b (bm_lock_update g) s) = region_fits s"
  by (simp_all add: page_addr_def addr_of_def region_fits_def fun_eq_iff)

lemma block_ok_tst: "block_ok s b U \<Longrightarrow> antichain V \<Longrightarrow> block_ok (tst s b V) b V"
  by (simp add: block_ok_def)

lemma block_ok_other:
  assumes "block_ok s b' U" "b' \<noteq> b"
  shows "block_ok (tst s b V) b' U"
proof -
  have "tst (tst s b V) b' U = tst s b V"
    using tst_commute[of b b' s V U] block_okD(1)[OF assms(1)] assms(2) by simp
  then show ?thesis using assms by (simp add: block_ok_def)
qed

section \<open>Critical sections\<close>

text \<open>
  What runs between the \<open>acquire\<close> and the \<open>release\<close> of a block's lock sees the same tree, and what it
  leaves is what the caller gets.
\<close>

lemma locked_tst:
  assumes "block_ok s b U"
  shows "upd_block b (bm_lock_update g) s = tst (upd_block b (bm_lock_update g) s) b U"
  using tst_lock[of b g s U] block_okD(1)[OF assms] by simp

lemma unlock_tst:
  assumes "h (g (bm_lock (blocks s b))) = bm_lock (blocks s b)"
  shows "upd_block b (bm_lock_update h) (tst (upd_block b (bm_lock_update g) s) b V) = tst s b V"
  using assms lock_same[of "h \<circ> g" s b] by (simp add: tst_lock lock_twice)

lemma root_range: "b < CNT_MEM_BLOCKS \<Longrightarrow> node_range b 1"
  by (simp add: node_range_def)

lemma root_above: "1 \<le> j \<Longrightarrow> anc j 1 \<Longrightarrow> j \<noteq> 1 \<Longrightarrow> False"
  using anc_le[of j 1] by simp

lemma alloc_in_block_some:
  assumes "block_ok s b U" "b < CNT_MEM_BLOCKS" "k \<le> 9" "2 ^ k \<le> mfree U 1"
  shows "\<exists>t. avail U t \<and> pages t = 2 ^ k \<and>
    alloc_in_block me b (of_nat (2 ^ k)) s = Ret (addr_of s b t, tst s b (insert t U))"
proof -
  note ok = block_okD[OF assms(1)]
  define w where "w = (of_nat (2 ^ k) :: u16)"
  let ?g = "\<lambda>_. (bm_lock (blocks s b))\<lparr>lk_locked := 1, lk_cpu := Some me\<rparr>"
  define s1 where "s1 = upd_block b (bm_lock_update ?g) s"
  have s1: "s1 = tst s1 b U" "bm_root (blocks s1 b) = Some (1024 * b + 1)" "bm_lock (blocks s1 b) = ?g ()"
    using locked_tst[OF assms(1), of ?g] ok(3) by (simp_all add: s1_def)
  have "j \<notin> U" if "anc j 1" "j \<noteq> 1" for j using ok(5) root_above[of j] that by (auto simp: antichain_def)
  then obtain t where t: "avail U t" "pages t = 2 ^ k"
      "alloc_in_node STANDART_DEPTH (Some (1024 * b + 1)) w b s1 = Ret (addr_of s1 b t, tst s1 b (insert t U))"
    using alloc_in_node_ok[OF root_range[OF assms(2)] ok(5) assms(3,4), of 10 s1, folded w_def s1(1)] by auto
  have n: "get_node s1 (Some (1024 * b + 1)) = Ret (mkn (mem_separator s1) b 1 (mfree U 1) (1 \<in> U))"
    using get_node_tst[OF root_range[OF assms(2)], of s1 U] s1(1) by simp
  have l: "\<not> maxFreePage (mkn (mem_separator s1) b 1 (mfree U 1) (1 \<in> U)) < w"
    using size_word_le[OF _ assms(3), of "mfree U 1"] mfree_le512[of 1 U] assms(4) by (simp add: w_def not_less)
  have "alloc_in_block me b w s = Ret (addr_of s1 b t,
      upd_block b (bm_lock_update (\<lambda>_. bm_lock (blocks s b))) (tst s1 b (insert t U)))"
    unfolding alloc_in_block_def acquire_free[OF ok(2)] bind_res.simps Let_def s1_def[symmetric] s1(2) n if_not_P[OF l] t(3)
    by (simp add: s1(3) ok(2))
  also have "\<dots> = Ret (addr_of s b t, tst s b (insert t U))" using unlock_tst[of _ ?g s b] by (simp add: s1_def)
  finally show ?thesis using t unfolding w_def by blast
qed

lemma alloc_in_block_none:
  assumes "block_ok s b U" "b < CNT_MEM_BLOCKS" "k \<le> 9" "\<not> 2 ^ k \<le> mfree U 1"
  shows "alloc_in_block me b (of_nat (2 ^ k)) s = Ret (0, s)"
proof -
  note ok = block_okD[OF assms(1)]
  let ?g = "\<lambda>_. (bm_lock (blocks s b))\<lparr>lk_locked := 1, lk_cpu := Some me\<rparr>"
  define s1 where "s1 = upd_block b (bm_lock_update ?g) s"
  have s1: "s1 = tst s1 b U" "bm_root (blocks s1 b) = Some (1024 * b + 1)" "bm_lock (blocks s1 b) = ?g ()"
    using locked_tst[OF assms(1), of ?g] ok(3) by (simp_all add: s1_def)
  have n: "get_node s1 (Some (1024 * b + 1)) = Ret (mkn (mem_separator s1) b 1 (mfree U 1) (1 \<in> U))"
    using get_node_tst[OF root_range[OF assms(2)], of s1 U] s1(1) by simp
  have l: "maxFreePage (mkn (mem_separator s1) b 1 (mfree U 1) (1 \<in> U)) < (of_nat (2 ^ k) :: u16)"
    using size_word_le[OF _ assms(3), of "mfree U 1"] mfree_le512[of 1 U] assms(4) by (simp flip: not_le)
  have "alloc_in_block me b (of_nat (2 ^ k)) s = Ret (0, upd_block b (bm_lock_update (\<lambda>_. bm_lock (blocks s b))) s1)"
    unfolding alloc_in_block_def acquire_free[OF ok(2)] bind_res.simps Let_def s1_def[symmetric] s1(2) n if_P[OF l]
    by (simp add: s1(3) ok(2))
  then show ?thesis using lock_twice[of b _ ?g s] by (simp add: s1_def lock_same)
qed

lemma free_in_block_ok:
  assumes "block_ok s b U" "b < CNT_MEM_BLOCKS" "region_fits s" "p < 512"
  shows "free_in_block me b (page_addr s b p) s = Ret (tst s b (U - starting U 1 p))"
proof -
  note ok = block_okD[OF assms(1)]
  let ?g = "\<lambda>_. (bm_lock (blocks s b))\<lparr>lk_locked := 1, lk_cpu := Some me\<rparr>"
  define s1 where "s1 = upd_block b (bm_lock_update ?g) s"
  have s1: "s1 = tst s1 b U" "bm_root (blocks s1 b) = Some (1024 * b + 1)" "bm_lock (blocks s1 b) = ?g ()"
    using locked_tst[OF assms(1), of ?g] ok(3) by (simp_all add: s1_def)
  have "free_in_node STANDART_DEPTH (Some (1024 * b + 1)) (page_addr s1 b p) b s1 = Ret (tst s1 b (U - starting U 1 p))"
    using free_in_node_ok[OF root_range[OF assms(2)] ok(5) _ assms(4) anc_root, of s1 10, folded s1(1)] assms(3)
    by (simp add: s1_def)
  then have f: "free_in_node STANDART_DEPTH (Some (1024 * b + 1)) (page_addr s b p) b s1 = Ret (tst s1 b (U - starting U 1 p))"
    by (simp add: s1_def)
  have "free_in_block me b (page_addr s b p) s
      = Ret (upd_block b (bm_lock_update (\<lambda>_. bm_lock (blocks s b))) (tst s1 b (U - starting U 1 p)))"
    unfolding free_in_block_def acquire_free[OF ok(2)] bind_res.simps Let_def s1_def[symmetric] s1(2) f
    by (simp add: s1(3) ok(2))
  then show ?thesis using unlock_tst[of _ ?g s b] by (simp add: s1_def)
qed

end
