(* ===== verification/Buddy_Init.thy ===== *)
theory Buddy_Init
  imports Buddy_Blocks
begin

text \<open>
  \<open>init_block\<close> and \<open>buddy_init\<close>: the loop that lays out the nodes of a block builds the tree of the
  empty set of handed-out nodes, in the part of \<open>nodes_mem\<close> that belongs to the block.
\<close>

section \<open>The empty tree\<close>

lemma mfree_empty: "1 \<le> i \<Longrightarrow> i < 1024 \<Longrightarrow> mfree {} i = pages i"
  using mfree_full_iff[of i "{}"] by simp

lemma counted_empty:
  assumes "1 \<le> i" "i < 1024"
  shows "counted {} i \<longleftrightarrow> i = 1"
proof (cases "i = 1")
  case False
  then have "1 \<le> i div 2" "i div 2 < 1024" using assms by auto
  then show ?thesis using False mfree_empty by (simp add: counted_def)
qed (use assms mfree_empty[of 1] in \<open>simp add: counted_def\<close>)

lemma level_less: "d < 10 \<Longrightarrow> i \<in> level d \<Longrightarrow> 1 \<le> i \<and> i < 1024"
  using power_increasing[of "Suc d" 10 "2::nat"] level_pos[of i d] by (auto simp: level_def)

lemma cntd_empty: "d < 10 \<Longrightarrow> cntd {} d = (if d = 0 then 1 else 0)"
proof -
  assume d: "d < 10"
  have "{i \<in> level d. counted {} i} = (if d = 0 then {1} else {})"
    using counted_empty[of 1] counted_empty level_less[OF d] in_level_iff[of _ d]
    by (auto split: if_splits)
  then show ?thesis by (simp add: cntd_def)
qed

lemma fbs_of_empty: "fbs_of {} = map (\<lambda>i. if i = 0 then 1 else 0) [0..<10]"
  unfolding fbs_of_def by (rule map_cong) (auto simp: cntd_empty)

lemma free_of_empty: "free_of {} = 512"
  by (simp add: free_of_def)

lemma antichain_empty [simp]: "antichain {}"
  by (simp add: antichain_def)

section \<open>The loop\<close>

definition init_inv :: "u64 \<Rightarrow> nat \<Rightarrow> (nat \<Rightarrow> MemNode) \<Rightarrow> nat \<Rightarrow> u16 \<times> (nat \<Rightarrow> MemNode) \<Rightarrow> bool" where
  "init_inv sep b nodes i st \<longleftrightarrow>
    fst st = of_nat (if i = 2 then 1 else ilog2 (i - 1)) \<and>
    snd st = (\<lambda>j. if 1024 * b < j \<and> j < 1024 * b + i
      then mkn sep b (j - 1024 * b) (pages (j - 1024 * b)) False else nodes j)"

lemma ilog2_next:
  assumes "2 \<le> i" "i < 1024"
  shows "ilog2 i = (if i = 2 ^ Suc (if i = 2 then 1 else ilog2 (i - 1))
    then Suc (if i = 2 then 1 else ilog2 (i - 1)) else (if i = 2 then 1 else ilog2 (i - 1)))"
proof (cases "i = 2")
  case True
  then show ?thesis using ilog2_double(1)[of 1] by simp
next
  case False
  define d where "d = ilog2 (i - 1)"
  have "2 ^ d \<le> i - 1" "i - 1 < 2 ^ Suc d" using ilog2_bounds[of "i - 1"] False assms by (auto simp: d_def)
  then have "ilog2 i = (if i = 2 ^ Suc d then Suc d else d)"
    using ilog2_unique[of d i] ilog2_unique[of "Suc d" i] by auto
  then show ?thesis using False by (simp add: d_def)
qed

lemma halves:
  assumes "2 \<le> i" "i < 1024"
  obtains (even) h where "i = 2 * h" "i div 2 = h" "i mod 2 = 0" "1 \<le> h" "h < 512"
  | (odd) h where "i = Suc (2 * h)" "i div 2 = h" "i mod 2 \<noteq> 0" "1 \<le> h" "h < 512"
proof (cases "i mod 2 = 0")
  case True
  then show ?thesis using assms by (intro even[of "i div 2"]) auto
next
  case False
  then show ?thesis using assms by (intro odd[of "i div 2"]) presburger+
qed

lemma pages_half: "2 \<le> i \<Longrightarrow> i < 1024 \<Longrightarrow> pages i = pages (i div 2) div 2"
  by (erule (1) halves) (simp_all only: pages_children)

lemma first_page_half:
  "2 \<le> i \<Longrightarrow> i < 1024 \<Longrightarrow> first_page i = first_page (i div 2) + (if i mod 2 = 0 then 0 else pages i)"
  by (erule (1) halves) (simp_all only: pages_children first_page_children if_True if_False add_0_right simp_thms)

lemma init_node_mkn:
  assumes "2 \<le> i" "i < 1024" "init_inv sep b nodes i st"
  shows "init_node (1024 * b) i st =
    (of_nat (ilog2 i), (snd st)(1024 * b + i := mkn sep b i (pages i) False))"
proof -
  define e where "e = (if i = 2 then 1 else ilog2 (i - 1))"
  have e: "e \<le> 9" using ilog2_le9[of "i - 1"] assms by (auto simp: e_def)
  then have ue: "unat (of_nat e :: u16) = e" by (intro unat_of_nat_small) simp
  have i9: "unat (of_nat (ilog2 i) :: u16) = ilog2 i"
    using ilog2_le9[of i] assms by (intro unat_of_nat_small) simp
  have inner: "ilog2 i < 9 \<longleftrightarrow> i < 512" using ilog2_less_iff[of i 9] assms by simp
  have d': "(if i = 2 ^ (unat (fst st) + 1) then fst st + 1 else fst st) = of_nat (ilog2 i)"
    using assms(3) ilog2_next[OF assms(1,2), folded e_def] ue
    by (simp add: init_inv_def e_def[symmetric] split: if_splits)
  have h: "snd st (1024 * b + i div 2) = mkn sep b (i div 2) (pages (i div 2)) False"
    using assms by (simp add: init_inv_def)
  have c: "(of_nat (pages (i div 2)) :: u16) div 2 = of_nat (pages i)"
    using pages_half[OF assms(1,2)] pages_word[of "i div 2"] pages_word[of i]
    by (simp add: word_unat_eq_iff unat_div)
  have sp: "sep + of_nat (PGSIZE * (512 * b + first_page (i div 2))) + of_nat ((if i mod 2 = 0 then 0 else pages i) * PGSIZE)
      = sep + of_nat (PGSIZE * (512 * b + first_page i))"
    unfolding first_page_half[OF assms(1,2)] add.assoc of_nat_add[symmetric] by (simp add: algebra_simps)
  show ?thesis
    using assms(1) unfolding init_node_def split_beta Let_def d' h mkn_simps c i9 pages_word sp
    by (simp add: mkn_def inner del: of_nat_mult of_nat_add)
qed

lemma init_inv_step:
  assumes "2 \<le> i" "i < 1024" "init_inv sep b nodes i st"
  shows "init_inv sep b nodes (Suc i) (init_node (1024 * b) i st)"
proof -
  have "(\<lambda>j. if 1024 * b < j \<and> j < 1024 * b + i then mkn sep b (j - 1024 * b) (pages (j - 1024 * b)) False else nodes j)
      (1024 * b + i := mkn sep b i (pages i) False)
    = (\<lambda>j. if 1024 * b < j \<and> j < 1024 * b + Suc i then mkn sep b (j - 1024 * b) (pages (j - 1024 * b)) False else nodes j)"
    using assms(1) by (auto simp: fun_eq_iff)
  then show ?thesis
    using init_node_mkn[OF assms] assms by (simp add: init_inv_def)
qed

lemma index_split: "1024 * b < j \<and> j < 1024 * b + 1024 \<longleftrightarrow> j div 1024 = b \<and> j mod 1024 \<noteq> (0::nat)"
proof -
  define q r where "q = j div 1024" and "r = j mod 1024"
  have "j = 1024 * q + r" "r < 1024" by (simp_all add: q_def r_def)
  then show ?thesis unfolding q_def[symmetric] r_def[symmetric]
    by (cases q b rule: linorder_cases) auto
qed

lemma init_block_ok:
  assumes "free_root s = 1024 * b" "b < CNT_MEM_BLOCKS"
  shows "block_ok (init_block b s) b {}"
    and "free_root (init_block b s) = 1024 * Suc b" "mem_separator (init_block b s) = mem_separator s"
    and "end_ptr (init_block b s) = end_ptr s"
    and "\<And>b' U. b' \<noteq> b \<Longrightarrow> block_ok s b' U \<Longrightarrow> block_ok (init_block b s) b' U"
proof -
  define root where "root = mkn (mem_separator s) b 1 512 False"
  have root: "root = \<lparr>leftChild = Some (1024 * b + 1 + 1), rightChild = Some (1024 * b + 1 + 2), head = None,
      depth = 0, start_ptr = of_nat (PGSIZE * (1024 * b) div 2) + mem_separator s,
      maxFreePage = of_nat (2 ^ (STANDART_DEPTH - 1)), cnt_page = of_nat (2 ^ (STANDART_DEPTH - 1)), is_used = 0\<rparr>"
    by (simp add: root_def mkn_def)
  let ?n1 = "(nodes_mem s)(1024 * b + 1 := root)"
  have "init_inv (mem_separator s) b (nodes_mem s) 2 (1, ?n1)"
    by (auto simp: init_inv_def root_def fun_eq_iff)
  then have "init_inv (mem_separator s) b (nodes_mem s) (2 ^ STANDART_DEPTH) (fold (init_node (1024 * b)) [2..<2 ^ STANDART_DEPTH] (1, ?n1))"
    by (intro fold_upt_inv[where Inv = "init_inv (mem_separator s) b (nodes_mem s)"] init_inv_step)
       (simp_all del: upt_rec_numeral)
  then have nodes: "snd (fold (init_node (1024 * b)) [2..<2 ^ STANDART_DEPTH] (1, ?n1)) =
      (\<lambda>j. if j div 1024 = b \<and> j mod 1024 \<noteq> 0 then mkn (mem_separator s) b (j mod 1024) (pages (j mod 1024)) False
        else nodes_mem s j)"
    by (auto simp: init_inv_def index_split fun_eq_iff minus_mod_eq_mult_div[symmetric] simp del: upt_rec_numeral)
  have "\<exists>s0. init_block b s = s0 \<and> s0 = s\<lparr>nodes_mem := (\<lambda>j. if j div 1024 = b \<and> j mod 1024 \<noteq> 0
        then mkn (mem_separator s) b (j mod 1024) (pages (j mod 1024)) False else nodes_mem s j),
      blocks := (blocks s)(b := \<lparr>bm_lock = initlock ''mem_block'', bm_root = Some (1024 * b + 1),
        bm_info = \<lparr>bi_total = 512, bi_free = 512, free_by_size = fbs_of {}\<rparr>\<rparr>),
      free_root := 1024 * b + 1024\<rparr>"
    unfolding init_block_def Let_def assms(1) add_diff_cancel_right' root[symmetric] nodes by (simp add: fbs_of_empty)
  then obtain s0 where s0: "init_block b s = s0" "s0 = s\<lparr>nodes_mem := (\<lambda>j. if j div 1024 = b \<and> j mod 1024 \<noteq> 0
        then mkn (mem_separator s) b (j mod 1024) (pages (j mod 1024)) False else nodes_mem s j),
      blocks := (blocks s)(b := \<lparr>bm_lock = initlock ''mem_block'', bm_root = Some (1024 * b + 1),
        bm_info = \<lparr>bi_total = 512, bi_free = 512, free_by_size = fbs_of {}\<rparr>\<rparr>),
      free_root := 1024 * b + 1024\<rparr>" by blast
  show "free_root (init_block b s) = 1024 * Suc b" "mem_separator (init_block b s) = mem_separator s"
    "end_ptr (init_block b s) = end_ptr s" using s0 by simp_all
  have "tst s0 b {} = s0"
    unfolding tst_eq_iff s0(2) by (simp add: mfree_empty free_of_empty)
  then show "block_ok (init_block b s) b {}" using s0 by (simp add: block_ok_def)
  fix b' U assume b': "b' \<noteq> b" "block_ok s b' U"
  then have "tst s0 b' U = s0"
    using block_okD(1)[OF b'(2)] unfolding tst_eq_iff s0(2) by simp
  then show "block_ok (init_block b s) b' U" using s0 b' by (simp add: block_ok_def)
qed

end
