(* ===== verification/Buddy_Correct.thy ===== *)
theory Buddy_Correct
  imports Buddy_Init
begin

text \<open>
  The allocator as its callers see it. A state is abstracted to the set of extents it has handed out
  (\<open>allocated\<close>: start address and number of pages); \<open>buddy_ok\<close> is the invariant that boot establishes
  and every routine keeps. The lemmas give the effect of \<open>buddy_init\<close>, \<open>buddy_alloc\<close>, \<open>buddy_free\<close>
  and \<open>mem_dump\<close> on both.
\<close>

section \<open>The invariant and the abstraction\<close>

definition region_ok :: "buddy \<Rightarrow> bool" where
  "region_ok s \<longleftrightarrow> unat (mem_separator s) mod PGSIZE = 0 \<and> 0 < unat (mem_separator s) \<and>
    unat (mem_separator s) + PGSIZE * (512 * CNT_MEM_BLOCKS) \<le> PHYSTOP \<and> end_ptr s \<le> mem_separator s"

definition used_set :: "buddy \<Rightarrow> nat \<Rightarrow> nat set" where
  "used_set s b = {i \<in> {1..<1024}. is_used (nodes_mem s (1024 * b + i)) \<noteq> 0}"

definition buddy_inv :: "(nat \<Rightarrow> nat set) \<Rightarrow> buddy \<Rightarrow> bool" where
  "buddy_inv U s \<longleftrightarrow> region_ok s \<and> (\<forall>b<CNT_MEM_BLOCKS. block_ok s b (U b))"

definition buddy_ok :: "buddy \<Rightarrow> bool" where
  "buddy_ok s \<longleftrightarrow> buddy_inv (used_set s) s"

definition allocated :: "buddy \<Rightarrow> (u64 \<times> nat) set" where
  "allocated s = (\<Union>b<CNT_MEM_BLOCKS. (\<lambda>t. (addr_of s b t, pages t)) ` used_set s b)"

definition extent :: "u64 \<times> nat \<Rightarrow> nat set" where
  "extent e = {unat (fst e)..<unat (fst e) + PGSIZE * snd e}"

text \<open>The run of \<open>n\<close> pages that starts at page \<open>p\<close> of block \<open>b\<close>.\<close>

definition page_run :: "buddy \<Rightarrow> nat \<Rightarrow> nat \<Rightarrow> nat \<Rightarrow> nat set" where
  "page_run s b p n = {unat (mem_separator s) + PGSIZE * (512 * b + p)
    ..<unat (mem_separator s) + PGSIZE * (512 * b + p + n)}"

lemma region_fits: "region_ok s \<Longrightarrow> region_fits s"
  by (simp add: region_ok_def region_fits_def)

lemma region_ok_tst [simp]: "region_ok (tst s b U) = region_ok s"
  by (simp add: region_ok_def)

lemma used_set_eq:
  assumes "block_ok s b U"
  shows "used_set s b = U"
proof -
  have n: "nodes_mem s (1024 * b + i) = mkn (mem_separator s) b i (mfree U i) (i \<in> U)" if "1 \<le> i" "i < 1024" for i
    using block_okD(1)[OF assms] that index_div_mod[of i b] unfolding tst_eq_iff by auto
  have "U \<subseteq> {1..<1024}" using block_okD(5)[OF assms] by (simp add: antichain_def)
  then show ?thesis using n by (auto simp: used_set_def split: if_splits)
qed

lemma buddy_invD:
  assumes "buddy_inv U s"
  shows "region_ok s" "region_fits s" "b < CNT_MEM_BLOCKS \<Longrightarrow> block_ok s b (U b)"
    "b < CNT_MEM_BLOCKS \<Longrightarrow> used_set s b = U b" "b < CNT_MEM_BLOCKS \<Longrightarrow> antichain (U b)"
  using assms region_fits used_set_eq block_okD(5) by (auto simp: buddy_inv_def)

lemma buddy_inv_ok: "buddy_inv U s \<Longrightarrow> buddy_ok s"
  using used_set_eq by (auto simp: buddy_ok_def buddy_inv_def)

lemma buddy_inv_allocated:
  "buddy_inv U s \<Longrightarrow> allocated s = (\<Union>b<CNT_MEM_BLOCKS. (\<lambda>t. (addr_of s b t, pages t)) ` U b)"
  unfolding allocated_def by (intro SUP_cong) (simp_all add: buddy_invD(4))

lemma buddy_inv_tst:
  assumes "buddy_inv U s" "b < CNT_MEM_BLOCKS" "antichain V"
  shows "buddy_inv (U(b := V)) (tst s b V)"
  using assms block_ok_tst block_ok_other by (auto simp: buddy_inv_def)

section \<open>Addresses\<close>

lemma addr_of_unat:
  assumes "region_fits s" "node_range b t"
  shows "unat (addr_of s b t) = unat (mem_separator s) + PGSIZE * (512 * b + first_page t)"
  using unat_page_addr[OF assms(1), of b "first_page t"] first_page_bound[of t] assms(2)
  by (simp add: addr_of_page_addr node_range_def)

lemma addr_of_nonzero: "region_ok s \<Longrightarrow> node_range b t \<Longrightarrow> addr_of s b t \<noteq> 0"
  using addr_of_unat[OF region_fits, of s b t] by (auto simp: region_ok_def)

lemma extent_run:
  assumes "region_fits s" "node_range b t"
  shows "extent (addr_of s b t, pages t) = page_run s b (first_page t) (pages t)"
  using addr_of_unat[OF assms] by (simp add: extent_def page_run_def algebra_simps)

lemma page_run_disjoint:
  assumes "p + m \<le> 512" "q + n \<le> 512" "b \<noteq> c \<or> p + m \<le> q \<or> q + n \<le> p"
  shows "page_run s b p m \<inter> page_run s c q n = {}"
proof -
  have "512 * b + p + m \<le> 512 * c + q \<or> 512 * c + q + n \<le> 512 * b + p"
  proof (cases b c rule: linorder_cases)
    case less
    then show ?thesis using assms(1) by linarith
  next
    case greater
    then show ?thesis using assms(2) by linarith
  qed (use assms(3) in linarith)
  then show ?thesis by (auto simp: page_run_def)
qed

lemma page_run_overlap:
  assumes "p \<le> r" "r < p + m" "q \<le> r" "r < q + n"
  shows "page_run s b p m \<inter> page_run s b q n \<noteq> {}"
proof -
  have "unat (mem_separator s) + PGSIZE * (512 * b + r) \<in> page_run s b p m \<inter> page_run s b q n"
    using assms by (simp add: page_run_def)
  then show ?thesis by blast
qed

lemma incomparable_runs:
  assumes "node_range b t" "node_range c u" "b \<noteq> c \<or> \<not> anc t u \<and> \<not> anc u t"
  shows "page_run s b (first_page t) (pages t) \<inter> page_run s c (first_page u) (pages u) = {}"
  using assms first_page_bound[of t] first_page_bound[of u] pages_disjoint[of t u]
  by (intro page_run_disjoint) (auto simp: node_range_def)

lemma used_range: "buddy_inv U s \<Longrightarrow> b < CNT_MEM_BLOCKS \<Longrightarrow> t \<in> U b \<Longrightarrow> node_range b t"
  using buddy_invD(5)[of U s b] by (auto simp: antichain_def node_range_def)

lemma page_addr_inj:
  assumes "region_fits s" "b < CNT_MEM_BLOCKS" "c < CNT_MEM_BLOCKS" "p < 512" "q < 512"
  shows "page_addr s b p = page_addr s c q \<longleftrightarrow> b = c \<and> p = q"
proof
  assume "page_addr s b p = page_addr s c q"
  then have e: "512 * b + p = 512 * c + q" using unat_page_addr[OF assms(1)] assms by (simp add: word_unat_eq_iff)
  then have "b = c" using assms(4,5) by (cases b c rule: linorder_cases) auto
  then show "b = c \<and> p = q" using e by simp
qed simp

lemma first_page_lt: "node_range b t \<Longrightarrow> first_page t < 512"
  using first_page_bound[of t] pages_pos[of t] unfolding node_range_def by linarith

section \<open>\<open>buddy_init\<close>\<close>

definition init_upto :: "buddy \<Rightarrow> nat \<Rightarrow> buddy \<Rightarrow> bool" where
  "init_upto s0 n s \<longleftrightarrow> free_root s = 1024 * n \<and> mem_separator s = mem_separator s0 \<and> end_ptr s = end_ptr s0 \<and>
    (\<forall>b<n. block_ok s b {})"

lemma root_node:
  assumes "block_ok s b U" "b < CNT_MEM_BLOCKS"
  shows "get_node s (bm_root (blocks s b)) = Ret (mkn (mem_separator s) b 1 (mfree U 1) (1 \<in> U))"
  using get_node_tst[OF root_range[OF assms(2)], of s U] block_okD(1,3)[OF assms(1)] by simp

lemma root_end:
  "start_ptr (mkn sep b 1 m u) + of_nat (unat (cnt_page (mkn sep b 1 m u)) * PGSIZE)
    = sep + of_nat (PGSIZE * (512 * b + 512))"
  using pages_word[of 1] by (simp add: algebra_simps)

lemma root_end_addr:
  "start_ptr (mkn (mem_separator s) b 1 m u) + of_nat (unat (cnt_page (mkn (mem_separator s) b 1 m u)) * PGSIZE)
    = page_addr s b 512"
  unfolding root_end page_addr_def ..

lemma buddy_init_inv:
  assumes "region_ok s" "free_root s = 0"
  shows "\<exists>s'. buddy_init s = Ret s' \<and> buddy_inv (\<lambda>_. {}) s' \<and> mem_separator s' = mem_separator s \<and> end_ptr s' = end_ptr s"
proof -
  have "\<exists>s'. buddy_init s = Ret s' \<and> init_upto s CNT_MEM_BLOCKS s'"
    unfolding buddy_init_def
  proof (rule foldM_upt_inv)
    show "init_upto s 0 s" using assms by (simp add: init_upto_def)
  next
    fix i t assume i: "0 \<le> i" "i < CNT_MEM_BLOCKS" "init_upto s i t"
    define t1 where "t1 = init_block i t"
    have "free_root t = 1024 * i" using i by (simp add: init_upto_def)
    note ib = init_block_ok[OF this i(2), folded t1_def]
    have up: "init_upto s (Suc i) t1" using i(3) ib by (auto simp: init_upto_def less_Suc_eq)
    have rf: "region_fits t1" and sep: "mem_separator t1 = mem_separator s"
      using region_fits[OF assms(1)] up by (simp_all add: region_fits_def init_upto_def)
    have "page_addr t1 i 512 \<le> of_nat (PHYSTOP + 1)"
      using unat_page_addr[OF rf i(2), of 512] sep assms(1) i(2)
      by (simp add: word_le_nat_alt region_ok_def)
    then have p: "\<not> page_addr t1 i 512 > of_nat (PHYSTOP + 1)" by (simp only: not_less)
    show "\<exists>t'. (let s1 = init_block i t in bind_res (get_node s1 (bm_root (blocks s1 i))) (\<lambda>r.
        if start_ptr r + of_nat (unat (cnt_page r) * PGSIZE) > of_nat (PHYSTOP + 1)
        then Panic ''buddy_alloc_use_kalloc_mem'' else Ret s1)) = Ret t' \<and> init_upto s (Suc i) t'"
      unfolding Let_def t1_def[symmetric] root_node[OF ib(1) i(2)] bind_res.simps root_end_addr if_not_P[OF p]
      using up by blast
  qed simp
  then show ?thesis using assms by (auto simp: init_upto_def buddy_inv_def region_ok_def)
qed

section \<open>\<open>buddy_alloc\<close>\<close>

lemma alloc_loop:
  assumes "buddy_inv U s" "k \<le> 9" "set is \<subseteq> {..<CNT_MEM_BLOCKS}"
  shows "(\<exists>b t. b \<in> set is \<and> avail (U b) t \<and> pages t = 2 ^ k \<and>
      buddy_alloc_loop me (of_nat (2 ^ k)) is s = Ret (addr_of s b t, tst s b (insert t (U b))))
    \<or> (\<forall>b\<in>set is. \<not> 2 ^ k \<le> mfree (U b) 1) \<and> buddy_alloc_loop me (of_nat (2 ^ k)) is s = Ret (0, s)"
  using assms(3)
proof (induction "is")
  case Nil
  then show ?case by simp
next
  case (Cons b bs)
  then have b: "b < CNT_MEM_BLOCKS" by simp
  note ok = buddy_invD(3)[OF assms(1) b]
  show ?case
  proof (cases "2 ^ k \<le> mfree (U b) 1")
    case True
    obtain t where t: "avail (U b) t" "pages t = 2 ^ k"
        "alloc_in_block me b (of_nat (2 ^ k)) s = Ret (addr_of s b t, tst s b (insert t (U b)))"
      using alloc_in_block_some[OF ok b assms(2) True] by blast
    have "addr_of s b t \<noteq> 0"
      using t(1) b by (intro addr_of_nonzero buddy_invD(1)[OF assms(1)]) (simp add: avail_def node_range_def)
    then have "buddy_alloc_loop me (of_nat (2 ^ k)) (b # bs) s = Ret (addr_of s b t, tst s b (insert t (U b)))"
      unfolding buddy_alloc_loop.simps t(3) by simp
    then show ?thesis using t by auto
  next
    case False
    have "buddy_alloc_loop me (of_nat (2 ^ k)) (b # bs) s = buddy_alloc_loop me (of_nat (2 ^ k)) bs s"
      unfolding buddy_alloc_loop.simps alloc_in_block_none[OF ok b assms(2) False] by simp
    then show ?thesis using Cons False by auto
  qed
qed

text \<open>The sizes \<open>checker_cnt_page\<close> accepts.\<close>

lemma halve_even_0: "halve_even 0 = None"
proof -
  have "c \<noteq> 0" if "halve_even c = Some y" for c y
    using that by (rule halve_even.raw_induct[rotated]) (fastforce split: if_splits)
  then show ?thesis by (cases "halve_even 0") auto
qed

lemma even_div_word:
  assumes "2 * n < 2 ^ 32"
  shows "(of_nat (2 * n) :: u32) mod 2 = 0" "(of_nat (2 * n) :: u32) div 2 = of_nat n"
  using assms by (simp_all add: word_unat_eq_iff unat_div unat_mod unat_of_nat_small del: of_nat_mult)

lemma halve_even_odd:
  assumes "odd m" "2 ^ k * m < 2 ^ 32"
  shows "halve_even (of_nat (2 ^ k * m)) = Some (of_nat m)"
  using assms
proof (induction k)
  case 0
  then have "(of_nat m :: u32) mod 2 \<noteq> 0"
    by (simp add: word_unat_eq_iff unat_mod unat_of_nat_small odd_iff_mod_2_eq_one)
  then show ?case using halve_even.simps[of "of_nat m"] by simp
next
  case (Suc k)
  have e: "2 ^ Suc k * m = 2 * (2 ^ k * m)" by simp
  have l: "2 ^ k * m < 2 ^ 32" using Suc.prems(2) unfolding e by linarith
  show ?case
    using Suc.IH[OF Suc.prems(1) l] Suc.prems(2) even_div_word[of "2 ^ k * m"] halve_even.simps[of "of_nat (2 ^ Suc k * m)"]
    unfolding e by (simp del: of_nat_mult)
qed

lemma odd_part: "n \<noteq> (0::nat) \<Longrightarrow> \<exists>k m. odd m \<and> n = 2 ^ k * m"
proof (induction n rule: less_induct)
  case (less n)
  show ?case
  proof (cases "odd n")
    case False
    then obtain h where h: "n = 2 * h" by blast
    then obtain k m where "odd m" "h = 2 ^ k * m" using less.IH[of h] less.prems by (metis less_add_same_cancel1 mult_2 neq0_conv mult_0_right)
    then show ?thesis using h by (intro exI[of _ "Suc k"] exI[of _ m]) simp
  next
    case True
    then show ?thesis by (intro exI[of _ 0] exI[of _ n]) simp
  qed
qed

lemma checker_power: "k \<le> 9 \<Longrightarrow> checker_cnt_page (of_nat (2 ^ k)) = Ret 1"
proof -
  assume k: "k \<le> 9"
  have p: "2 ^ Suc k \<le> (2 ^ 10 :: nat)" using k by (intro power_increasing) auto
  then have "halve_even (of_nat (2 ^ k)) = Some 1" using halve_even_odd[of 1 k] by simp
  moreover have "\<not> 2 * (of_nat (2 ^ k) :: u32) > 2 ^ STANDART_DEPTH"
  proof -
    have "2 * (of_nat (2 ^ k) :: u32) = of_nat (2 ^ Suc k)" by simp
    moreover have "(of_nat (2 ^ Suc k) :: u32) \<le> of_nat (2 ^ 10)" using p by (subst of_nat_word_le_iff) auto
    ultimately show ?thesis by simp
  qed
  ultimately show ?thesis unfolding checker_cnt_page_def by simp
qed

lemma ucast_power: "k \<le> 9 \<Longrightarrow> ucast (of_nat (2 ^ k) :: u32) = (of_nat (2 ^ k) :: u16)"
proof -
  assume "k \<le> 9"
  then have "2 ^ k \<le> (2 ^ 9 :: nat)" by (intro power_increasing) auto
  then have "unat (of_nat (2 ^ k) :: u32) = 2 ^ k" "unat (of_nat (2 ^ k) :: u16) = 2 ^ k"
    by (intro unat_of_nat_small; simp)+
  moreover have "(ucast x :: u16) = of_nat (unat x)" for x :: u32 by simp
  ultimately show ?thesis by metis
qed

lemma buddy_alloc_cases:
  assumes "buddy_inv U s" "k \<le> 9"
  obtains (some) b t where "b < CNT_MEM_BLOCKS" "avail (U b) t" "pages t = 2 ^ k"
      "buddy_alloc me (of_nat (2 ^ k)) s = Ret (addr_of s b t, tst s b (insert t (U b)))"
  | (none) "\<And>b. b < CNT_MEM_BLOCKS \<Longrightarrow> \<not> 2 ^ k \<le> mfree (U b) 1" "buddy_alloc me (of_nat (2 ^ k)) s = Ret (0, s)"
proof -
  have "buddy_alloc me (of_nat (2 ^ k)) s = buddy_alloc_loop me (of_nat (2 ^ k)) [0..<CNT_MEM_BLOCKS] s"
    unfolding buddy_alloc_def checker_power[OF assms(2)] ucast_power[OF assms(2)] by simp
  moreover have "set [0..<CNT_MEM_BLOCKS] = {..<CNT_MEM_BLOCKS}" by (simp only: set_upt lessThan_atLeast0)
  ultimately show ?thesis
    using alloc_loop[OF assms, of "[0..<CNT_MEM_BLOCKS]" me] some none by (metis order_refl lessThan_iff)
qed

lemma UN_upd_insert: "b \<in> A \<Longrightarrow> (\<Union>x\<in>A. f x ` (U(b := insert t (U b))) x) = insert (f b t) (\<Union>x\<in>A. f x ` U x)"
  by (auto split: if_splits) (metis image_eqI)+

lemma alloc_some_effect:
  assumes "buddy_inv U s" "b < CNT_MEM_BLOCKS" "avail (U b) t"
  shows "buddy_ok (tst s b (insert t (U b)))"
    and "allocated (tst s b (insert t (U b))) = insert (addr_of s b t, pages t) (allocated s)"
    and "e \<in> allocated s \<Longrightarrow> extent (addr_of s b t, pages t) \<inter> extent e = {}"
proof -
  have inv: "buddy_inv (U(b := insert t (U b))) (tst s b (insert t (U b)))"
    using buddy_inv_tst[OF assms(1,2)] antichain_insert[OF buddy_invD(5)[OF assms(1,2)] assms(3)] by blast
  then show "buddy_ok (tst s b (insert t (U b)))" by (rule buddy_inv_ok)
  show "allocated (tst s b (insert t (U b))) = insert (addr_of s b t, pages t) (allocated s)"
    unfolding buddy_inv_allocated[OF inv] buddy_inv_allocated[OF assms(1)] page_addr_simps
    using UN_upd_insert[of b "{..<CNT_MEM_BLOCKS}" "\<lambda>b t. (addr_of s b t, pages t)" U t] assms(2) by blast
  have t: "node_range b t" using assms by (simp add: avail_def node_range_def)
  assume "e \<in> allocated s"
  then obtain c u where u: "c < CNT_MEM_BLOCKS" "u \<in> U c" "e = (addr_of s c u, pages u)"
    by (auto simp: buddy_inv_allocated[OF assms(1)])
  have "b \<noteq> c \<or> \<not> anc t u \<and> \<not> anc u t" using u assms(3) by (auto simp: avail_def)
  then show "extent (addr_of s b t, pages t) \<inter> extent e = {}"
    using incomparable_runs[OF t used_range[OF assms(1) u(1,2)]] extent_run[OF buddy_invD(2)[OF assms(1)]]
      t used_range[OF assms(1) u(1,2)] by (simp add: u(3))
qed

lemma alloc_addr:
  assumes "region_ok s" "node_range b t"
  shows "unat (addr_of s b t) mod PGSIZE = 0" "addr_of s b t \<noteq> 0"
    and "extent (addr_of s b t, pages t) \<subseteq> {unat (mem_separator s)..<PHYSTOP}"
proof -
  note a = addr_of_unat[OF region_fits[OF assms(1)] assms(2)]
  show "unat (addr_of s b t) mod PGSIZE = 0" using assms(1) by (simp add: a region_ok_def mod_add_left_eq[symmetric])
  show "addr_of s b t \<noteq> 0" by (rule addr_of_nonzero[OF assms])
  have "512 * b + first_page t + pages t \<le> 512 * CNT_MEM_BLOCKS"
    using first_page_bound[of t] assms(2) unfolding node_range_def by linarith
  then have "PGSIZE * (512 * b + first_page t + pages t) \<le> PGSIZE * (512 * CNT_MEM_BLOCKS)" by (rule mult_le_mono2)
  then show "extent (addr_of s b t, pages t) \<subseteq> {unat (mem_separator s)..<PHYSTOP}"
    using assms(1) by (auto simp: extent_def a region_ok_def)
qed

text \<open>Every aligned run of \<open>2 ^ k\<close> pages of a block is the run of a node.\<close>

lemma common_leaf:
  assumes "1 \<le> i" "i < 1024" "1 \<le> j" "j < 1024" "anc i j \<or> anc j i"
  shows "\<exists>p<512. anc i (512 + p) \<and> anc j (512 + p)"
proof -
  have leaf: "first_page x < 512 \<and> anc x (512 + first_page x)" if "1 \<le> x" "x < 1024" for x
  proof -
    have "first_page x < 512" using that by (intro first_page_lt[of 0]) (simp add: node_range_def)
    then show ?thesis using anc_leaf_iff[OF that] by simp
  qed
  show ?thesis using leaf[OF assms(1,2)] leaf[OF assms(3,4)] assms(5) by (metis anc_trans)
qed

lemma node_of_run:
  assumes "k \<le> 9" "q < 2 ^ (9 - k)"
  shows "node_range b (2 ^ (9 - k) + q) \<longleftrightarrow> b < CNT_MEM_BLOCKS"
    and "pages (2 ^ (9 - k) + q) = 2 ^ k" "first_page (2 ^ (9 - k) + q) = q * 2 ^ k"
proof -
  have i: "ilog2 (2 ^ (9 - k) + q) = 9 - k" using assms(2) by (intro ilog2_unique) auto
  show "pages (2 ^ (9 - k) + q) = 2 ^ k" using assms(1) by (simp add: pages_def i)
  then show "first_page (2 ^ (9 - k) + q) = q * 2 ^ k" by (simp add: first_page_def i)
  have "2 ^ (9 - k) + q < 2 ^ Suc (9 - k)" using assms(2) by simp
  also have "\<dots> \<le> 2 ^ 10" by (intro power_increasing) auto
  finally show "node_range b (2 ^ (9 - k) + q) \<longleftrightarrow> b < CNT_MEM_BLOCKS" by (simp add: node_range_def Suc_le_eq)
qed

lemma none_free_run:
  assumes "buddy_inv U s" "k \<le> 9" "q < 2 ^ (9 - k)" "b < CNT_MEM_BLOCKS" "\<not> 2 ^ k \<le> mfree (U b) 1"
  shows "\<exists>e\<in>allocated s. extent e \<inter> page_run s b (q * 2 ^ k) (2 ^ k) \<noteq> {}"
proof -
  let ?t = "2 ^ (9 - k) + q"
  note n = node_of_run[OF assms(2,3)]
  have r: "node_range b ?t" using n(1) assms(4) by simp
  then have "\<not> avail (U b) ?t"
    using mfree_avail[of "U b" ?t 1] anc_root[of ?t] assms(5) n(2) by (auto simp: node_range_def)
  then obtain j where j: "j \<in> U b" "anc ?t j \<or> anc j ?t" using r by (auto simp: avail_def node_range_def)
  have rj: "node_range b j" by (rule used_range[OF assms(1,4) j(1)])
  obtain p where p: "p < 512" "anc ?t (512 + p)" "anc j (512 + p)"
    using common_leaf[of ?t j] j(2) r rj by (auto simp: node_range_def)
  have "extent (addr_of s b j, pages j) \<inter> page_run s b (q * 2 ^ k) (2 ^ k) \<noteq> {}"
    using p anc_leaf_iff[of ?t p] anc_leaf_iff[of j p] r rj n(2,3)
    unfolding extent_run[OF buddy_invD(2)[OF assms(1)] rj]
    by (intro page_run_overlap[of _ p]) (auto simp: node_range_def)
  then show ?thesis using j(1) assms(4) unfolding buddy_inv_allocated[OF assms(1)] by blast
qed

section \<open>\<open>buddy_free\<close>\<close>

lemma check_addr_ok:
  assumes "buddy_inv U s" "b < CNT_MEM_BLOCKS"
  shows "check_addr_in_block pa b s = Ret (page_addr s b 0 \<le> pa \<and> pa < page_addr s b 512)"
proof -
  have "start_ptr (mkn (mem_separator s) b 1 m u) = page_addr s b 0" for m u by (simp add: page_addr_def)
  then show ?thesis
    unfolding check_addr_in_block_def root_node[OF buddy_invD(3)[OF assms] assms(2)] bind_res.simps root_end_addr by simp
qed

lemma page_in_block:
  assumes "region_fits s" "b < CNT_MEM_BLOCKS" "c < CNT_MEM_BLOCKS" "p < 512"
  shows "page_addr s c 0 \<le> page_addr s b p \<and> page_addr s b p < page_addr s c 512 \<longleftrightarrow> c = b"
  using assms unat_page_addr[OF assms(1,3)] unat_page_addr[OF assms(1,2)]
  by (cases c b rule: linorder_cases) (auto simp: word_le_nat_alt word_less_nat_alt)

lemma free_loop_skip:
  assumes "buddy_inv U s" "set is \<subseteq> {..<CNT_MEM_BLOCKS}"
    and "\<And>i. i \<in> set is \<Longrightarrow> \<not> (page_addr s i 0 \<le> pa \<and> pa < page_addr s i 512)"
  shows "foldM (\<lambda>i s. bind_res (check_addr_in_block pa i s) (\<lambda>c.
      if c then free_in_block me i pa s else Ret s)) is s = Ret s"
  using assms(2,3)
proof (induction "is")
  case (Cons i "is")
  then have "check_addr_in_block pa i s = Ret False" using check_addr_ok[OF assms(1), of i pa] by auto
  then show ?case using Cons by simp
qed simp

lemma free_loop_hit:
  assumes "buddy_inv U s" "b < CNT_MEM_BLOCKS" "p < 512" "pa = page_addr s b p"
  shows "foldM (\<lambda>i s. bind_res (check_addr_in_block pa i s) (\<lambda>c.
      if c then free_in_block me i pa s else Ret s)) [0..<CNT_MEM_BLOCKS] s
    = Ret (tst s b (U b - starting (U b) 1 p))"
proof -
  let ?pa = "page_addr s b p" and ?V = "U b - starting (U b) 1 p"
  let ?f = "\<lambda>i s'. bind_res (check_addr_in_block ?pa i s') (\<lambda>c. if c then free_in_block me i ?pa s' else Ret s')"
  note rf = buddy_invD(2)[OF assms(1)]
  have inv: "buddy_inv (U(b := ?V)) (tst s b ?V)"
    using buddy_invD(5)[OF assms(1,2)] by (intro buddy_inv_tst[OF assms(1,2)]) (auto simp: antichain_def)
  have "[0..<CNT_MEM_BLOCKS] = [0..<b] @ b # [Suc b..<CNT_MEM_BLOCKS]"
    using assms(2) upt_add_eq_append[of 0 b "CNT_MEM_BLOCKS - b"] upt_conv_Cons[of b CNT_MEM_BLOCKS] by simp
  moreover have "foldM ?f [0..<b] s = Ret s"
    using page_in_block[OF rf assms(2) _ assms(3)] assms(2) by (intro free_loop_skip[OF assms(1)]) auto
  moreover have "?f b s = Ret (tst s b ?V)"
    using check_addr_ok[OF assms(1,2), of ?pa] page_in_block[OF rf assms(2,2,3)]
      free_in_block_ok[OF buddy_invD(3)[OF assms(1,2)] assms(2) rf assms(3)] by simp
  moreover have "foldM ?f [Suc b..<CNT_MEM_BLOCKS] (tst s b ?V) = Ret (tst s b ?V)"
    using page_in_block[OF rf assms(2) _ assms(3)] by (intro free_loop_skip[OF inv]) auto
  ultimately show ?thesis unfolding assms(4) by (simp only: foldM_append foldM.simps bind_res.simps)
qed

text \<open>The guard of \<open>buddy_free\<close>, and the pages of the region that pass it.\<close>

definition bad_pa :: "u64 \<Rightarrow> buddy \<Rightarrow> bool" where
  "bad_pa pa s \<longleftrightarrow> pa mod of_nat PGSIZE \<noteq> 0 \<or> pa < end_ptr s \<or> pa \<ge> of_nat PHYSTOP"

lemma page_addr_guard:
  assumes "region_ok s" "b < CNT_MEM_BLOCKS" "p < 512"
  shows "\<not> bad_pa (page_addr s b p) s"
proof -
  note u = unat_page_addr[OF region_fits[OF assms(1)] assms(2), of p]
  have "unat (page_addr s b p) mod PGSIZE = 0" using u assms by (simp add: region_ok_def mod_add_left_eq[symmetric])
  then have "page_addr s b p mod of_nat PGSIZE = 0" by (simp add: word_unat_eq_iff unat_mod)
  moreover have "end_ptr s \<le> page_addr s b p"
    using u assms by (auto simp: region_ok_def word_le_nat_alt)
  moreover have "page_addr s b p < of_nat PHYSTOP"
    using u assms by (simp add: region_ok_def word_less_nat_alt)
  ultimately show ?thesis by (simp add: bad_pa_def not_le not_less)
qed

lemma buddy_free_page:
  assumes "buddy_inv U s" "b < CNT_MEM_BLOCKS" "p < 512"
  shows "buddy_free me (page_addr s b p) s = Ret (tst s b (U b - starting (U b) 1 p))"
  using page_addr_guard[OF buddy_invD(1)[OF assms(1)] assms(2,3)] free_loop_hit[OF assms refl, of me]
  unfolding buddy_free_def bad_pa_def by (simp only: if_False)

lemma starting_one:
  assumes "antichain V" "t \<in> V" "first_page t = p"
  shows "starting V 1 p = {t}"
proof -
  have p: "p < 512" using assms first_page_lt[of 0 t] by (auto simp: antichain_def node_range_def)
  have "1 \<le> t" using assms by (auto simp: antichain_def)
  then have t: "t \<in> starting V 1 p" using assms anc_root[of t] by (simp add: starting_def)
  have "j = t" if j: "j \<in> starting V 1 p" for j
  proof -
    have "anc j t \<or> anc t j"
      using starting_anc[OF assms(1) p j] starting_anc[OF assms(1) p t] by (rule anc_linear)
    moreover have "j \<in> V" using j by (simp add: starting_def)
    ultimately show ?thesis using assms(1,2) by (auto simp: antichain_def)
  qed
  with t show ?thesis by blast
qed

lemma buddy_free_used:
  assumes "buddy_inv U s" "b < CNT_MEM_BLOCKS" "t \<in> U b"
  shows "buddy_free me (addr_of s b t) s = Ret (tst s b (U b - {t}))"
  using buddy_free_page[OF assms(1,2) first_page_lt[OF used_range[OF assms]], of me]
    starting_one[OF buddy_invD(5)[OF assms(1,2)] assms(3) refl] by (simp only: addr_of_page_addr)

lemma free_effect:
  assumes "buddy_inv U s" "b < CNT_MEM_BLOCKS" "t \<in> U b"
  shows "buddy_ok (tst s b (U b - {t}))"
    and "allocated (tst s b (U b - {t})) = allocated s - {(addr_of s b t, pages t)}"
proof -
  have inv: "buddy_inv (U(b := U b - {t})) (tst s b (U b - {t}))"
    using buddy_inv_tst[OF assms(1,2)] antichain_remove[OF buddy_invD(5)[OF assms(1,2)]] by blast
  then show "buddy_ok (tst s b (U b - {t}))" by (rule buddy_inv_ok)
  let ?s = "tst s b (U b - {t})"
  have av: "avail ((U(b := U b - {t})) b) t" using avail_remove[OF buddy_invD(5)[OF assms(1,2)] assms(3)] by simp
  have "insert t (U b - {t}) = U b" using assms(3) by auto
  then have undo: "tst ?s b (insert t ((U(b := U b - {t})) b)) = s"
    using block_okD(1)[OF buddy_invD(3)[OF assms(1,2)]] by simp
  have ext: "extent (addr_of s b t, pages t) \<noteq> {}" using pages_pos[of t] by (simp add: extent_def)
  have "allocated s = insert (addr_of s b t, pages t) (allocated ?s)"
    using alloc_some_effect(2)[OF inv assms(2) av] unfolding undo by simp
  moreover have "(addr_of s b t, pages t) \<notin> allocated ?s"
    using alloc_some_effect(3)[OF inv assms(2) av, of "(addr_of s b t, pages t)"] ext by auto
  ultimately show "allocated ?s = allocated s - {(addr_of s b t, pages t)}" by simp
qed

end
