(* ===== verification/Buddy_Dump.thy ===== *)
theory Buddy_Dump
  imports Buddy_Correct
begin

text \<open>
  \<open>mem_dump\<close>: what the counters of the blocks add up to. \<open>info.free\<close> is the number of pages that are
  not handed out; \<open>info.free_by_size[d]\<close> is the number of maximal free runs of \<open>2 ^ (9 - d)\<close> pages, a
  free run being maximal when the aligned run of twice its size around it is not free.
\<close>

definition run_free :: "buddy \<Rightarrow> nat \<Rightarrow> nat \<Rightarrow> nat \<Rightarrow> bool" where
  "run_free s b p n \<longleftrightarrow> (\<forall>e\<in>allocated s. extent e \<inter> page_run s b p n = {})"

text \<open>The \<open>q\<close>-th aligned run of depth \<open>d\<close> of block \<open>b\<close> is free, and is not half of a free run.\<close>

definition maximal_free :: "buddy \<Rightarrow> nat \<Rightarrow> nat \<Rightarrow> nat \<Rightarrow> bool" where
  "maximal_free s d b q \<longleftrightarrow> run_free s b (q * 2 ^ (9 - d)) (2 ^ (9 - d)) \<and>
    (d = 0 \<or> \<not> run_free s b (q div 2 * 2 ^ (10 - d)) (2 ^ (10 - d)))"

definition dump_upto :: "(nat \<Rightarrow> nat set) \<Rightarrow> nat \<Rightarrow> BlocksInfo" where
  "dump_upto U n = \<lparr>bi_total = of_nat (512 * n),
    bi_free = of_nat (\<Sum>b<n. 512 - (\<Sum>i\<in>U b. pages i)),
    free_by_size = map (\<lambda>d. of_nat (\<Sum>b<n. cntd (U b) d)) [0..<10]\<rparr>"

lemma mem_dump_sum:
  assumes "buddy_inv U s"
  shows "mem_dump me s = Ret (dump_upto U CNT_MEM_BLOCKS, s)"
proof -
  have "\<exists>r. mem_dump me s = Ret r \<and> r = (dump_upto U CNT_MEM_BLOCKS, s)"
    unfolding mem_dump_def
  proof (rule foldM_upt_inv[where Inv = "\<lambda>n r. r = (dump_upto U n, s)"])
    show "(\<lparr>bi_total = 0, bi_free = 0, free_by_size = replicate STANDART_DEPTH 0\<rparr>, s) = (dump_upto U 0, s)"
      by (simp add: dump_upto_def map_replicate_const)
  next
    fix i t assume i: "0 \<le> i" "i < CNT_MEM_BLOCKS" and t: "t = (dump_upto U i, s)"
    note ok = block_okD[OF buddy_invD(3)[OF assms i(2)]]
    let ?lk = "bm_lock (blocks s i)"
    let ?s1 = "upd_block i (bm_lock_update (\<lambda>_. ?lk\<lparr>lk_locked := 1, lk_cpu := Some me\<rparr>)) s"
    have info: "bi_free (bm_info (blocks s i)) = free_of (U i)" "free_by_size (bm_info (blocks s i)) = fbs_of (U i)"
      using tst_info[of s i "U i"] ok(1) by simp_all
    have back_s: "upd_block i (bm_lock_update (\<lambda>_. ?lk)) ?s1 = s"
      by (simp add: lock_twice comp_def lock_same)
    have m: "map2 (+) (map (\<lambda>d. of_nat (\<Sum>b<i. cntd (U b) d)) [0..<10]) (fbs_of (U i))
        = map (\<lambda>d. (of_nat (\<Sum>b<Suc i. cntd (U b) d)) :: u16) [0..<10]"
      by (rule nth_equalityI) (simp_all add: algebra_simps del: upt_rec_numeral)
    have d: "\<lparr>bi_total = bi_total (dump_upto U i) + bi_total (bm_info (blocks s i)),
        bi_free = bi_free (dump_upto U i) + bi_free (bm_info (blocks s i)),
        free_by_size = map2 (+) (free_by_size (dump_upto U i)) (free_by_size (bm_info (blocks s i)))\<rparr> = dump_upto U (Suc i)"
      using m unfolding dump_upto_def BlocksInfo.simps info ok(4) by (simp add: free_of_def del: upt_rec_numeral)
    show "\<exists>t'. (case t of (dump, s) \<Rightarrow> bind_res (acquire_lock me (bm_lock (blocks s i))) (\<lambda>lk.
        let s1 = upd_block i (bm_lock_update (\<lambda>_. lk)) s;
            info = bm_info (blocks s1 i);
            dump1 = \<lparr>bi_total = bi_total dump + bi_total info, bi_free = bi_free dump + bi_free info,
                     free_by_size = map2 (+) (free_by_size dump) (free_by_size info)\<rparr>
        in bind_res (release_lock me (bm_lock (blocks s1 i))) (\<lambda>lk'.
           Ret (dump1, upd_block i (bm_lock_update (\<lambda>_. lk')) s1)))) = Ret t' \<and> t' = (dump_upto U (Suc i), s)"
      unfolding t prod.case acquire_free[OF ok(2)] bind_res.simps Let_def block_lock d release_acquired[OF ok(2)] back_s
      by simp
  qed simp
  then show ?thesis by blast
qed

lemma avail_run_free:
  assumes "buddy_inv U s" "node_range b t"
  shows "avail (U b) t \<longleftrightarrow> run_free s b (first_page t) (pages t)"
proof
  have b: "b < CNT_MEM_BLOCKS" using assms(2) by (simp add: node_range_def)
  assume "avail (U b) t"
  from alloc_some_effect(3)[OF assms(1) b this] show "run_free s b (first_page t) (pages t)"
    unfolding run_free_def extent_run[OF buddy_invD(2)[OF assms(1)] assms(2)] by blast
next
  have b: "b < CNT_MEM_BLOCKS" and t: "1 \<le> t" "t < 1024" using assms(2) by (simp_all add: node_range_def)
  assume free: "run_free s b (first_page t) (pages t)"
  have "\<not> anc t j \<and> \<not> anc j t" if j: "j \<in> U b" for j
  proof (rule ccontr)
    have r: "node_range b j" by (rule used_range[OF assms(1) b j])
    assume "\<not> (\<not> anc t j \<and> \<not> anc j t)"
    then obtain p where p: "p < 512" "anc t (512 + p)" "anc j (512 + p)"
      using common_leaf[OF t, of j] r by (auto simp: node_range_def)
    have "extent (addr_of s b j, pages j) \<inter> page_run s b (first_page t) (pages t) \<noteq> {}"
      using p anc_leaf_iff[OF t p(1)] anc_leaf_iff[of j p] r
      unfolding extent_run[OF buddy_invD(2)[OF assms(1)] r]
      by (intro page_run_overlap[of _ p]) (auto simp: node_range_def)
    moreover have "(addr_of s b j, pages j) \<in> allocated s"
      using j b unfolding buddy_inv_allocated[OF assms(1)] by blast
    ultimately show False using free unfolding run_free_def by blast
  qed
  then show "avail (U b) t" using t by (simp add: avail_def)
qed

lemma counted_avail:
  assumes "antichain V" "1 \<le> i" "i < 1024"
  shows "counted V i \<longleftrightarrow> avail V i \<and> (i = 1 \<or> \<not> avail V (i div 2))"
proof -
  have a: "(\<forall>j\<in>V. anc j i \<longrightarrow> j = i) \<and> mfree V i = pages i \<longleftrightarrow> avail V i"
    using avail_of_full[OF assms] avail_full[of V i] avail_above[of V i] by blast
  have p: "mfree V (i div 2) = pages (i div 2) \<longleftrightarrow> avail V (i div 2)" if "avail V i" "i \<noteq> 1"
  proof
    assume f: "mfree V (i div 2) = pages (i div 2)"
    have "j \<notin> V" if "anc j (i div 2)" for j
      using avail_above[OF \<open>avail V i\<close> anc_trans[OF that anc_half]] .
    then show "avail V (i div 2)" using avail_of_full[OF assms(1) _ _ f] assms(2,3) that(2) by auto
  qed (rule avail_full)
  show ?thesis using a p by (auto simp: counted_def)
qed

lemma counted_maximal:
  assumes "buddy_inv U s" "b < CNT_MEM_BLOCKS" "d < 10" "q < 2 ^ d"
  shows "counted (U b) (2 ^ d + q) \<longleftrightarrow> maximal_free s d b q"
proof -
  note n = node_of_run[of "9 - d" q]
  have d: "9 - (9 - d) = d" using assms(3) by simp
  have r: "node_range b (2 ^ d + q)" and f: "first_page (2 ^ d + q) = q * 2 ^ (9 - d)" and p: "pages (2 ^ d + q) = 2 ^ (9 - d)"
    using n[unfolded d] assms by auto
  have i: "1 \<le> 2 ^ d + q" "2 ^ d + q < 1024" using r by (simp_all add: node_range_def)
  show ?thesis
  proof (cases d)
    case 0
    then show ?thesis
      using counted_avail[OF buddy_invD(5)[OF assms(1,2)] i] avail_run_free[OF assms(1) r] f p assms(4)
      by (simp add: maximal_free_def)
  next
    case (Suc e)
    have h: "(2 ^ d + q) div 2 = 2 ^ e + q div 2" "q div 2 < 2 ^ e" using assms(4) by (auto simp: Suc)
    note m = node_of_run[of "9 - e" "q div 2"]
    have e: "9 - (9 - e) = e" "10 - d = 9 - e" using assms(3) Suc by simp_all
    have "node_range b (2 ^ e + q div 2)" "first_page (2 ^ e + q div 2) = q div 2 * 2 ^ (10 - d)"
      "pages (2 ^ e + q div 2) = 2 ^ (10 - d)"
      using m[unfolded e(1)] h(2) assms(2) by (auto simp: e(2))
    then show ?thesis
      using counted_avail[OF buddy_invD(5)[OF assms(1,2)] i] avail_run_free[OF assms(1) r] f p
        avail_run_free[OF assms(1), of b "2 ^ e + q div 2"] one_less_power[of "2::nat" d] Suc
      unfolding h(1) by (auto simp: maximal_free_def)
  qed
qed

lemma cntd_maximal:
  assumes "buddy_inv U s" "b < CNT_MEM_BLOCKS" "d < 10"
  shows "cntd (U b) d = card {q \<in> {..<2 ^ d}. maximal_free s d b q}"
proof -
  have "{i \<in> level d. counted (U b) i} = (\<lambda>q. 2 ^ d + q) ` {q \<in> {..<2 ^ d}. maximal_free s d b q}"
  proof (intro set_eqI iffI)
    fix i assume "i \<in> {i \<in> level d. counted (U b) i}"
    then show "i \<in> (\<lambda>q. 2 ^ d + q) ` {q \<in> {..<2 ^ d}. maximal_free s d b q}"
      using counted_maximal[OF assms, of "i - 2 ^ d"] by (intro image_eqI[of _ _ "i - 2 ^ d"]) (auto simp: level_def)
  qed (use counted_maximal[OF assms] in \<open>auto simp: level_def\<close>)
  then show ?thesis unfolding cntd_def by (simp add: card_image)
qed

section \<open>The pages handed out\<close>

lemma allocated_sum:
  assumes "buddy_inv U s"
  shows "(\<Sum>e\<in>allocated s. snd e) = (\<Sum>b<CNT_MEM_BLOCKS. \<Sum>i\<in>U b. pages i)"
proof -
  define g where "g = (\<lambda>(b, t). (addr_of s b t, pages t))"
  let ?D = "Sigma {..<CNT_MEM_BLOCKS} U"
  have inj: "inj_on g ?D"
  proof (rule inj_onI)
    fix x y assume xy: "x \<in> ?D" "y \<in> ?D" "g x = g y"
    obtain b t c u where x: "x = (b, t)" "y = (c, u)" by (cases x, cases y)
    have *: "b \<in> {..<CNT_MEM_BLOCKS}" "t \<in> U b" "c \<in> {..<CNT_MEM_BLOCKS}" "u \<in> U c" "g (b, t) = g (c, u)"
      using xy x by simp_all
    have r: "node_range b t" "node_range c u" using * used_range[OF assms] by auto
    have bc: "b = c \<and> first_page t = first_page u"
      using * page_addr_inj[OF buddy_invD(2)[OF assms], of b c "first_page t" "first_page u"] first_page_lt[OF r(1)] first_page_lt[OF r(2)]
      by (auto simp: g_def addr_of_page_addr)
    then have "{t} = {u}"
      using starting_one[OF buddy_invD(5)[OF assms] *(2) refl] starting_one[OF buddy_invD(5)[OF assms], of c u "first_page t"] *(1,3,4)
      by auto
    then show "x = y" using bc x by blast
  qed
  have "allocated s = g ` ?D" unfolding buddy_inv_allocated[OF assms] g_def by (auto simp: image_iff)
  then have "(\<Sum>e\<in>allocated s. snd e) = (\<Sum>x\<in>?D. snd (g x))" using sum.reindex[OF inj, of snd] by (simp add: comp_def)
  also have "\<dots> = (\<Sum>b<CNT_MEM_BLOCKS. \<Sum>i\<in>U b. pages i)"
    using buddy_invD(5)[OF assms] antichain_finite
    by (subst sum.Sigma) (auto simp: g_def split_beta intro!: sum.cong)
  finally show ?thesis .
qed

lemma dump_free:
  assumes "buddy_inv U s"
  shows "unat (bi_free (dump_upto U CNT_MEM_BLOCKS)) + (\<Sum>e\<in>allocated s. snd e) = 512 * CNT_MEM_BLOCKS"
proof -
  have le: "(\<Sum>i\<in>U b. pages i) \<le> 512" if "b \<in> {..<CNT_MEM_BLOCKS}" for b
    using antichain_pages_le[OF buddy_invD(5)[OF assms, of b]] that by simp
  have "(\<Sum>b<CNT_MEM_BLOCKS. 512 - (\<Sum>i\<in>U b. pages i)) + (\<Sum>b<CNT_MEM_BLOCKS. \<Sum>i\<in>U b. pages i)
      = (\<Sum>b<CNT_MEM_BLOCKS. 512)"
    unfolding sum.distrib[symmetric] using le by (intro sum.cong refl) (simp del: lessThan_iff)
  then have e: "(\<Sum>b<CNT_MEM_BLOCKS. 512 - (\<Sum>i\<in>U b. pages i)) + (\<Sum>b<CNT_MEM_BLOCKS. \<Sum>i\<in>U b. pages i)
      = 512 * CNT_MEM_BLOCKS" by (simp only: sum_constant card_lessThan of_nat_id mult.commute)
  then have "unat (of_nat (\<Sum>b<CNT_MEM_BLOCKS. 512 - (\<Sum>i\<in>U b. pages i)) :: u16)
      = (\<Sum>b<CNT_MEM_BLOCKS. 512 - (\<Sum>i\<in>U b. pages i))" by (intro unat_of_nat_small) simp
  then show ?thesis unfolding dump_upto_def BlocksInfo.simps allocated_sum[OF assms] using e by simp
qed

lemma dump_by_size:
  assumes "buddy_inv U s" "d < 10"
  shows "unat (free_by_size (dump_upto U CNT_MEM_BLOCKS) ! d)
    = card {(b, q). b < CNT_MEM_BLOCKS \<and> q < 2 ^ d \<and> maximal_free s d b q}"
proof -
  let ?M = "\<lambda>b. {q \<in> {..<2 ^ d}. maximal_free s d b q}"
  have c: "(\<Sum>b<CNT_MEM_BLOCKS. cntd (U b) d) = (\<Sum>b<CNT_MEM_BLOCKS. card (?M b))"
    using cntd_maximal[OF assms(1) _ assms(2)] by (intro sum.cong) auto
  have le: "card (?M b) \<le> 512" for b
  proof -
    have "card (?M b) \<le> card {..<2 ^ d :: nat}" by (intro card_mono) auto
    also have "\<dots> \<le> 2 ^ 9" using assms(2) by (simp del: power_numeral add: power_increasing)
    finally show ?thesis by simp
  qed
  have "(\<Sum>b<CNT_MEM_BLOCKS. card (?M b)) \<le> (\<Sum>b<CNT_MEM_BLOCKS. 512)" by (intro sum_mono le)
  then have "(\<Sum>b<CNT_MEM_BLOCKS. card (?M b)) < 2 ^ LENGTH(16)" by simp
  then have "unat (of_nat (\<Sum>b<CNT_MEM_BLOCKS. cntd (U b) d) :: u16) = (\<Sum>b<CNT_MEM_BLOCKS. card (?M b))"
    unfolding c by (intro unat_of_nat_small) simp
  also have "\<dots> = card (Sigma {..<CNT_MEM_BLOCKS} ?M)" by (subst card_SigmaI) auto
  also have "Sigma {..<CNT_MEM_BLOCKS} ?M = {(b, q). b < CNT_MEM_BLOCKS \<and> q < 2 ^ d \<and> maximal_free s d b q}"
    by (auto simp del: lessThan_iff simp add: lessThan_iff[symmetric])
  finally show ?thesis using assms(2) unfolding dump_upto_def BlocksInfo.simps by simp
qed

end
