(* ===== verification/Kalloc.thy ===== *)
theory Kalloc
  imports Buddy_Dump
begin

text \<open>
  The page allocator the rest of the kernel calls (\<open>kernel/kalloc.c\<close>), which this kernel implements
  with the buddy allocator, and the interface its callers rely on as a locale. The interpretation at
  the end discharges the laws of the interface for \<open>kalloc\<close> and \<open>kfree\<close>.
\<close>

definition kinit :: "buddy \<Rightarrow> buddy" where
  "kinit s = s\<lparr>mem_separator := PGROUNDUP (end_ptr s)\<rparr>"

definition kfree :: "nat \<Rightarrow> u64 \<Rightarrow> buddy \<Rightarrow> buddy res" where
  "kfree me pa s = buddy_free me pa s"

definition kalloc :: "nat \<Rightarrow> buddy \<Rightarrow> (u64 \<times> buddy) res" where
  "kalloc me s = buddy_alloc me 1 s"

text \<open>The loop of \<open>freerange\<close>; \<open>None\<close> when it never ends.\<close>

partial_function (option) freerange_loop :: "nat \<Rightarrow> u64 \<Rightarrow> u64 \<Rightarrow> buddy res \<Rightarrow> buddy res option" where
  "freerange_loop me p pa_end r =
    (if p + of_nat PGSIZE \<le> pa_end \<and> (\<exists>s. r = Ret s)
     then freerange_loop me (p + of_nat PGSIZE) pa_end (bind_res r (kfree me p))
     else Some r)"

definition freerange :: "nat \<Rightarrow> u64 \<Rightarrow> u64 \<Rightarrow> buddy \<Rightarrow> buddy res" where
  "freerange me pa_start pa_end s =
    (case freerange_loop me (PGROUNDUP pa_start) pa_end (Ret s) of None \<Rightarrow> Hang | Some r \<Rightarrow> r)"

section \<open>The interface\<close>

text \<open>
  \<open>taken s\<close> are the single pages that \<open>kalloc\<close> has handed out and that have not been freed. A caller
  may rely on: \<open>kalloc\<close> returns; 0 means that nothing changed; any other result is a page-aligned
  address of physical memory that was not handed out before; a page that was handed out can be freed.
\<close>

locale page_allocator =
  fixes alloc_page :: "'s \<Rightarrow> (u64 \<times> 's) res"
    and free_page :: "u64 \<Rightarrow> 's \<Rightarrow> 's res"
    and inv :: "'s \<Rightarrow> bool"
    and taken :: "'s \<Rightarrow> u64 set"
  assumes alloc_page_ret: "inv s \<Longrightarrow> \<exists>p s'. alloc_page s = Ret (p, s') \<and> inv s' \<and>
      (p = 0 \<and> s' = s \<or> p \<noteq> 0 \<and> p \<notin> taken s \<and> taken s' = insert p (taken s))"
    and free_page_ret: "inv s \<Longrightarrow> p \<in> taken s \<Longrightarrow>
      \<exists>s'. free_page p s = Ret s' \<and> inv s' \<and> taken s' = taken s - {p}"
    and taken_page: "inv s \<Longrightarrow> p \<in> taken s \<Longrightarrow> p \<noteq> 0 \<and> unat p mod PGSIZE = 0 \<and> unat p + PGSIZE \<le> PHYSTOP"
begin

text \<open>The pages of a list, freed one after the other.\<close>

lemma free_pages:
  "inv s \<Longrightarrow> distinct ps \<Longrightarrow> set ps \<subseteq> taken s \<Longrightarrow>
    \<exists>s'. foldM free_page ps s = Ret s' \<and> inv s' \<and> taken s' = taken s - set ps"
proof (induction ps arbitrary: s)
  case (Cons p ps)
  then obtain s1 where s1: "free_page p s = Ret s1" "inv s1" "taken s1 = taken s - {p}"
    using free_page_ret[of s p] by auto
  then obtain s2 where "foldM free_page ps s1 = Ret s2" "inv s2" "taken s2 = taken s1 - set ps"
    using Cons.IH[of s1] Cons.prems by auto
  then show ?case using s1 by auto
qed simp

lemma alloc_page_fresh:
  assumes "inv s" "alloc_page s = Ret (p, s')" "p \<noteq> 0"
  shows "inv s'" "p \<notin> taken s" "taken s' = insert p (taken s)" "unat p mod PGSIZE = 0" "unat p + PGSIZE \<le> PHYSTOP"
proof -
  show i: "inv s'" and "p \<notin> taken s" and t: "taken s' = insert p (taken s)"
    using alloc_page_ret[OF assms(1)] assms(2,3) by auto
  show "unat p mod PGSIZE = 0" "unat p + PGSIZE \<le> PHYSTOP" using taken_page[OF i, of p] t by auto
qed

lemma alloc_page_none: "inv s \<Longrightarrow> alloc_page s = Ret (0, s') \<Longrightarrow> s' = s"
  using alloc_page_ret[of s] by auto

end

section \<open>\<open>kalloc\<close> and \<open>kfree\<close> provide it\<close>

definition taken_pages :: "buddy \<Rightarrow> u64 set" where
  "taken_pages s = {p. (p, 1) \<in> allocated s}"

lemma allocatedE:
  assumes "buddy_ok s" "(p, n) \<in> allocated s"
  obtains b t where "b < CNT_MEM_BLOCKS" "t \<in> used_set s b" "p = addr_of s b t" "n = pages t" "node_range b t"
  using assms(2) used_range[OF assms(1)[unfolded buddy_ok_def]] unfolding allocated_def by auto

lemma allocated_node:
  assumes "buddy_ok s" "e \<in> allocated s"
  obtains b t where "b < CNT_MEM_BLOCKS" "t \<in> used_set s b" "e = (addr_of s b t, pages t)" "node_range b t"
  using allocatedE[OF assms(1), of "fst e" "snd e"] assms(2) prod.collapse[of e] by metis

lemma buddy_alloc_ret:
  assumes "buddy_ok s" "k \<le> 9"
  shows "\<exists>p s'. buddy_alloc me (of_nat (2 ^ k)) s = Ret (p, s') \<and> buddy_ok s' \<and>
    (p = 0 \<and> s' = s \<or> p \<noteq> 0 \<and> unat p mod PGSIZE = 0 \<and>
      extent (p, 2 ^ k) \<subseteq> {unat (mem_separator s)..<PHYSTOP} \<and>
      (\<forall>e\<in>allocated s. extent (p, 2 ^ k) \<inter> extent e = {}) \<and>
      allocated s' = insert (p, 2 ^ k) (allocated s))"
  using assms(1)[unfolded buddy_ok_def] assms(2)
proof (cases rule: buddy_alloc_cases[where me = me])
  case (some b t)
  note e = alloc_some_effect[OF assms(1)[unfolded buddy_ok_def] some(1,2)]
  have "node_range b t" using some by (simp add: avail_def node_range_def)
  note a = alloc_addr[OF buddy_invD(1)[OF assms(1)[unfolded buddy_ok_def]] this]
  show ?thesis using some(4) e(1,2) a e(3)[unfolded some(3)] by (auto simp: some(3))
qed (use assms(1) in blast)

lemma buddy_free_ret:
  assumes "buddy_ok s" "(p, n) \<in> allocated s"
  shows "\<exists>s'. buddy_free me p s = Ret s' \<and> buddy_ok s' \<and> allocated s' = allocated s - {(p, n)}"
proof -
  note inv = assms(1)[unfolded buddy_ok_def]
  obtain b t where "b < CNT_MEM_BLOCKS" "t \<in> used_set s b" "p = addr_of s b t" "n = pages t"
    using allocatedE[OF assms] by blast
  then show ?thesis using buddy_free_used[OF inv] free_effect[OF inv] by blast
qed

lemma extent_nonempty: "0 < n \<Longrightarrow> extent (p, n) \<noteq> {}"
  by (simp add: extent_def)

lemma kalloc_ret:
  assumes "buddy_ok s"
  shows "\<exists>p s'. kalloc me s = Ret (p, s') \<and> buddy_ok s' \<and>
    (p = 0 \<and> s' = s \<or> p \<noteq> 0 \<and> p \<notin> taken_pages s \<and> taken_pages s' = insert p (taken_pages s))"
proof -
  obtain p s' where r: "buddy_alloc me (of_nat (2 ^ 0)) s = Ret (p, s')" "buddy_ok s'"
      "p = 0 \<and> s' = s \<or> p \<noteq> 0 \<and> (\<forall>e\<in>allocated s. extent (p, 2 ^ 0) \<inter> extent e = {}) \<and>
      allocated s' = insert (p, 2 ^ 0) (allocated s)"
    using buddy_alloc_ret[OF assms, of 0 me] by blast
  have "p \<notin> taken_pages s" if "\<forall>e\<in>allocated s. extent (p, 2 ^ 0) \<inter> extent e = {}"
    using that extent_nonempty[of 1 p] by (auto simp: taken_pages_def)
  then show ?thesis using r by (auto simp: kalloc_def taken_pages_def)
qed

lemma kfree_ret:
  assumes "buddy_ok s" "p \<in> taken_pages s"
  shows "\<exists>s'. kfree me p s = Ret s' \<and> buddy_ok s' \<and> taken_pages s' = taken_pages s - {p}"
  using buddy_free_ret[OF assms(1), of p 1 me] assms(2) by (auto simp: kfree_def taken_pages_def)

lemma taken_page_ok:
  assumes "buddy_ok s" "p \<in> taken_pages s"
  shows "p \<noteq> 0 \<and> unat p mod PGSIZE = 0 \<and> unat p + PGSIZE \<le> PHYSTOP"
proof -
  obtain b t where t: "p = addr_of s b t" "1 = pages t" "node_range b t"
    using assms(2) allocatedE[OF assms(1)] unfolding taken_pages_def mem_Collect_eq by blast
  note a = alloc_addr[OF buddy_invD(1)[OF assms(1)[unfolded buddy_ok_def]] t(3)]
  have "unat p + PGSIZE - 1 \<in> extent (addr_of s b t, pages t)"
    using t(1) unfolding t(2)[symmetric] by (simp add: extent_def)
  then show ?thesis using a t(1) by auto
qed

interpretation kpages: page_allocator "kalloc me" "kfree me" buddy_ok taken_pages
  by unfold_locales (rule kalloc_ret kfree_ret taken_page_ok; assumption)+

section \<open>Addresses that were not handed out\<close>

lemma page_of_addr:
  assumes "region_ok s" "i < CNT_MEM_BLOCKS" "pa mod of_nat PGSIZE = 0" "page_addr s i 0 \<le> pa" "pa < page_addr s i 512"
  shows "\<exists>p<512. pa = page_addr s i p"
proof -
  note rf = region_fits[OF assms(1)]
  define off where "off = unat pa - unat (page_addr s i 0)"
  have u0: "unat (page_addr s i 0) \<le> unat pa" "unat pa < unat (page_addr s i 0) + PGSIZE * 512"
    using assms(4,5) unat_page_addr[OF rf assms(2)] by (auto simp: word_le_nat_alt word_less_nat_alt)
  have "unat pa mod PGSIZE = 0" using assms(3) by (simp add: word_unat_eq_iff unat_mod)
  moreover have "unat (page_addr s i 0) mod PGSIZE = 0"
    using unat_page_addr[OF rf assms(2), of 0] assms(1) by (simp add: region_ok_def mod_add_left_eq[symmetric])
  ultimately have "off mod PGSIZE = 0" unfolding off_def by (simp add: mod_eq_0_iff_dvd dvd_diff_nat)
  then obtain p where p: "off = PGSIZE * p" unfolding mod_eq_0_iff_dvd by (rule dvdE)
  have "p < 512" using u0 p unfolding off_def by linarith
  moreover have "unat pa = unat (page_addr s i p)"
    using u0 p calculation unat_page_addr[OF rf assms(2)] unfolding off_def by simp
  ultimately show ?thesis by (auto simp: word_unat_eq_iff)
qed

lemma buddy_free_other:
  assumes "buddy_ok s" "\<And>n. (pa, n) \<notin> allocated s" "\<not> bad_pa pa s"
  shows "buddy_free me pa s = Ret s"
proof (cases "\<exists>i<CNT_MEM_BLOCKS. page_addr s i 0 \<le> pa \<and> pa < page_addr s i 512")
  case True
  note inv = assms(1)[unfolded buddy_ok_def]
  have al: "pa mod of_nat PGSIZE = 0" using assms(3) by (simp add: bad_pa_def)
  from True obtain i where i: "i < CNT_MEM_BLOCKS" "page_addr s i 0 \<le> pa" "pa < page_addr s i 512" by auto
  from page_of_addr[OF buddy_invD(1)[OF inv] i(1) al i(2,3)] obtain p
    where p: "i < CNT_MEM_BLOCKS" "p < 512" "pa = page_addr s i p" using i(1) by auto
  have "starting (used_set s i) 1 p = {}"
  proof (rule ccontr)
    assume "starting (used_set s i) 1 p \<noteq> {}"
    then obtain t where "t \<in> used_set s i" "first_page t = p" by (auto simp: starting_def)
    then have "(pa, pages t) \<in> allocated s" using p by (auto simp: allocated_def addr_of_page_addr)
    then show False using assms(2) by blast
  qed
  then show ?thesis
    using buddy_free_page[OF inv p(1,2), of me] block_okD(1)[OF buddy_invD(3)[OF inv p(1)]] p(3) by simp
next
  case False
  have "foldM (\<lambda>i s. bind_res (check_addr_in_block pa i s) (\<lambda>c. if c then free_in_block me i pa s else Ret s))
      [0..<CNT_MEM_BLOCKS] s = Ret s"
    by (rule free_loop_skip[OF assms(1)[unfolded buddy_ok_def]]) (use False in \<open>auto simp del: upt_rec_numeral\<close>)
  then show ?thesis unfolding buddy_free_def if_not_P[OF assms(3)[unfolded bad_pa_def]] .
qed

section \<open>Sizes that are not powers of two, and the two that slip through\<close>

lemma checker_odd_part:
  assumes "odd m" "2 ^ k * m < 2 ^ 32" "\<not> 2 * (of_nat (2 ^ k * m) :: u32) > 2 ^ STANDART_DEPTH"
  shows "checker_cnt_page (of_nat (2 ^ k * m)) = Ret (if m = 1 then 1 else 0)"
proof -
  have "m < 2 ^ 32" using assms(2) by (metis le_less_trans mult_le_mono1 nat_mult_1 one_le_numeral one_le_power)
  then have "(of_nat m :: u32) = 1 \<longleftrightarrow> m = 1" using of_nat_word_eq_iff[of m 1, where 'a = 32] by simp
  then show ?thesis unfolding checker_cnt_page_def if_not_P[OF assms(3)] halve_even_odd[OF assms(1,2)] by simp
qed

lemma checker_cnt_page_cases:
  "checker_cnt_page cnt =
    (if cnt = 0 then Hang else Ret (if (\<exists>k\<le>9. cnt = of_nat (2 ^ k)) \<or> cnt = 0x80000000 then 1 else 0))"
proof (cases "cnt = 0")
  case True
  then show ?thesis by (simp add: checker_cnt_page_def halve_even_0)
next
  case False
  then obtain k m where m: "odd m" "unat cnt = 2 ^ k * m" using odd_part[of "unat cnt"] by (auto simp: unat_eq_0)
  have c: "cnt = of_nat (2 ^ k * m)" by (simp flip: m(2))
  have "unat cnt < 2 ^ LENGTH(32)" by (rule unsigned_less)
  then have l: "2 ^ k * m < 2 ^ 32" using m(2) by simp
  have dbl: "unat (2 * cnt) = 2 * unat cnt mod 2 ^ 32"
    by (simp add: unat_word_ariths(2))
  have big: "2 * cnt > 2 ^ STANDART_DEPTH \<longleftrightarrow> 1024 < 2 * (2 ^ k * m) mod 2 ^ 32"
    unfolding word_less_nat_alt dbl m(2) by simp
  have pow: "(\<exists>j\<le>9. cnt = of_nat (2 ^ j)) \<or> cnt = 0x80000000 \<longleftrightarrow> m = 1 \<and> (k \<le> 9 \<or> k = 31)"
  proof
    have odd1: "m = 1 \<and> k = j" if "2 ^ k * m = 2 ^ j" for j
    proof -
      have "m dvd 2 ^ j" using that by (metis dvd_triv_right)
      moreover have "coprime m (2 ^ j)" using m(1) by simp
      ultimately have "is_unit m" using coprime_absorb_left[of m "2 ^ j"] by blast
      then have "m = 1" by simp
      then show ?thesis using that by simp
    qed
    assume "(\<exists>j\<le>9. cnt = of_nat (2 ^ j)) \<or> cnt = 0x80000000"
    moreover have "(0x80000000 :: u32) = of_nat (2 ^ 31)" by simp
    ultimately obtain j where j: "j \<le> 9 \<or> j = 31" "cnt = of_nat (2 ^ j)" by blast
    have "2 ^ j < (2 ^ 32 :: nat)" using j(1) by (intro power_strict_increasing) auto
    then have "2 ^ k * m = 2 ^ j" using j(2) m(2) unat_of_nat_small[of "2 ^ j", where 'a = 32] by simp
    then show "m = 1 \<and> (k \<le> 9 \<or> k = 31)" using odd1 j(1) by blast
  next
    assume "m = 1 \<and> (k \<le> 9 \<or> k = 31)"
    then show "(\<exists>j\<le>9. cnt = of_nat (2 ^ j)) \<or> cnt = 0x80000000" using c by auto
  qed
  show ?thesis
  proof (cases "2 * cnt > 2 ^ STANDART_DEPTH")
    case True
    have "\<not> (m = 1 \<and> (k \<le> 9 \<or> k = 31))"
    proof
      assume a: "m = 1 \<and> (k \<le> 9 \<or> k = 31)"
      have "k \<le> 9 \<Longrightarrow> 2 * 2 ^ k \<le> (2 ^ 10 :: nat)" using power_increasing[of "Suc k" 10 "2::nat"] by simp
      then show False using True a unfolding big by auto
    qed
    then show ?thesis unfolding checker_cnt_page_def if_P[OF True] pow using False by simp
  next
    case small: False
    have "k \<le> 9 \<or> k = 31" if "m = 1"
    proof (rule ccontr)
      assume n: "\<not> (k \<le> 9 \<or> k = 31)"
      have "k < 32" using l that power_less_imp_less_exp[of "2::nat" k 32] by simp
      then have "2 ^ Suc k \<le> (2 ^ 31 :: nat)" "2 ^ 11 \<le> (2 ^ Suc k :: nat)" using n by (intro power_increasing; simp)+
      then show False using small that unfolding big by simp
    qed
    then show ?thesis
      using checker_odd_part[OF m(1) l small[unfolded c], folded c] False unfolding pow by auto
  qed
qed

text \<open>A request for 0 pages, which is what the size \<open>0x80000000\<close> becomes in 16 bits, walks off the tree.\<close>

lemma get_node_null: "get_node s None = Fault"
  by (simp add: get_node_def)

lemma alloc_in_node_zero:
  "node_range b i \<Longrightarrow> 10 \<le> fuel + ilog2 i \<Longrightarrow> alloc_in_node fuel (Some (1024 * b + i)) 0 b (tst s b U) = Fault"
proof (induction fuel arbitrary: i)
  case 0
  then show ?case using ilog2_le9[of i] by (simp add: node_range_def)
next
  case (Suc fuel)
  have c: "cnt_page (mkn (mem_separator s) b i (mfree U i) (i \<in> U)) \<noteq> 0"
    using pages_word[of i] pages_pos[of i] by (auto simp: unat_eq_0[symmetric] simp del: pages_pos)
  show ?case
  proof (cases "i < 512")
    case True
    then have r: "node_range b (2 * i)" using Suc.prems(1) by (simp add: node_range_def)
    have "10 \<le> fuel + ilog2 (2 * i)" using Suc.prems by (simp add: node_range_def)
    from Suc.IH[OF r this] show ?thesis
      using c True by (simp add: get_node_tst[OF Suc.prems(1)] get_node_tst[OF r] del: mkn_simps(7))
  next
    case False
    then show ?thesis
      using c by (simp add: get_node_tst[OF Suc.prems(1)] get_node_null del: mkn_simps(7))
  qed
qed

lemma alloc_in_block_zero:
  assumes "block_ok s b U" "b < CNT_MEM_BLOCKS"
  shows "alloc_in_block me b 0 s = Fault"
proof -
  note ok = block_okD[OF assms(1)]
  let ?g = "\<lambda>_. (bm_lock (blocks s b))\<lparr>lk_locked := 1, lk_cpu := Some me\<rparr>"
  define s1 where "s1 = upd_block b (bm_lock_update ?g) s"
  have s1: "s1 = tst s1 b U" "bm_root (blocks s1 b) = Some (1024 * b + 1)"
    using locked_tst[OF assms(1), of ?g] ok(3) by (simp_all add: s1_def)
  have n: "get_node s1 (Some (1024 * b + 1)) = Ret (mkn (mem_separator s1) b 1 (mfree U 1) (1 \<in> U))"
    using get_node_tst[OF root_range[OF assms(2)], of s1 U] s1(1) by simp
  have f: "alloc_in_node STANDART_DEPTH (Some (1024 * b + 1)) 0 b s1 = Fault"
    using alloc_in_node_zero[OF root_range[OF assms(2)], of 10 s1 U] s1(1) by simp
  show ?thesis
    unfolding alloc_in_block_def acquire_free[OF ok(2)] bind_res.simps Let_def s1_def[symmetric] s1(2) n f by simp
qed

lemma buddy_alloc_bad_size:
  assumes "buddy_ok s" "\<And>k. k \<le> 9 \<Longrightarrow> cnt \<noteq> of_nat (2 ^ k)"
  shows "buddy_alloc me cnt s = (if cnt = 0 then Hang else if cnt = 0x80000000 then Fault else Ret (0, s))"
proof -
  have "(\<exists>k\<le>9. cnt = of_nat (2 ^ k)) = False" using assms(2) by blast
  then have c: "checker_cnt_page cnt = (if cnt = 0 then Hang else Ret (if cnt = 0x80000000 then 1 else 0))"
    by (simp only: checker_cnt_page_cases simp_thms)
  have "alloc_in_block me 0 0 s = Fault"
    by (rule alloc_in_block_zero[OF buddy_invD(3)[OF assms(1)[unfolded buddy_ok_def]]]) simp_all
  moreover have "[0..<CNT_MEM_BLOCKS] = 0 # [1..<CNT_MEM_BLOCKS]" by (simp add: upt_conv_Cons)
  ultimately have "buddy_alloc_loop me 0 [0..<CNT_MEM_BLOCKS] s = Fault" by (simp del: upt_rec_numeral)
  moreover have "(0x80000000 :: u16) = 0" by simp
  ultimately have "buddy_alloc_loop me 0x80000000 [0..<CNT_MEM_BLOCKS] s = Fault" by (simp only:)
  then show ?thesis unfolding buddy_alloc_def c by (simp del: upt_rec_numeral)
qed

lemma allocated_pairwise:
  assumes "buddy_ok s" "e \<in> allocated s" "f \<in> allocated s" "e \<noteq> f"
  shows "extent e \<inter> extent f = {}"
proof -
  note inv = assms(1)[unfolded buddy_ok_def]
  obtain b t where e: "b < CNT_MEM_BLOCKS" "t \<in> used_set s b" "e = (addr_of s b t, pages t)" "node_range b t"
    by (rule allocated_node[OF assms(1,2)])
  obtain c u where f: "c < CNT_MEM_BLOCKS" "u \<in> used_set s c" "f = (addr_of s c u, pages u)" "node_range c u"
    by (rule allocated_node[OF assms(1,3)])
  have "b \<noteq> c \<or> \<not> anc t u \<and> \<not> anc u t"
    using e f assms(4) buddy_invD(5)[OF inv e(1)] unfolding antichain_def by blast
  from incomparable_runs[OF e(4) f(4) this] show ?thesis
    unfolding e(3) f(3) extent_run[OF buddy_invD(2)[OF inv] e(4)] extent_run[OF buddy_invD(2)[OF inv] f(4)] .
qed

section \<open>Boot\<close>

lemma boot_inv:
  assumes "KERNBASE \<le> unat (end_ptr s)" "unat (end_ptr s) \<le> KERNBASE + 4 * 1024 * 1024" "free_root s = 0"
  shows "\<exists>s'. buddy_init (kinit s) = Ret s' \<and> buddy_inv (\<lambda>_. {}) s'"
proof -
  note p = PGROUNDUP_bounds[of "end_ptr s"]
  have "unat (PGROUNDUP (end_ptr s)) \<le> KERNBASE + 4 * 1024 * 1024"
  proof (rule ccontr)
    assume "\<not> ?thesis"
    then have g: "KERNBASE + 4 * 1024 * 1024 < unat (PGROUNDUP (end_ptr s))" by simp
    obtain q where q: "unat (PGROUNDUP (end_ptr s)) = PGSIZE * q" using p(1) assms(2) by (auto simp: mod_0_imp_dvd elim: dvdE)
    then have "525312 < q" using g by simp
    then show False using p(3) assms(2) unfolding q by simp
  qed
  then have "region_ok (kinit s)"
    using p assms by (simp add: region_ok_def kinit_def word_le_nat_alt)
  then show ?thesis using buddy_init_inv[of "kinit s"] assms(3) by (auto simp: kinit_def)
qed

section \<open>Every sequence of calls\<close>

text \<open>
  The states the allocator can be in: after boot, any number of calls of \<open>buddy_alloc\<close> and \<open>buddy_free\<close>
  with any arguments, from any CPU, in any order (each block is worked on under its lock, so calls on
  different CPUs take effect one after the other).
\<close>

inductive buddy_reach :: "buddy \<Rightarrow> bool" where
  boot: "KERNBASE \<le> unat (end_ptr s0) \<Longrightarrow> unat (end_ptr s0) \<le> KERNBASE + 4 * 1024 * 1024 \<Longrightarrow>
    free_root s0 = 0 \<Longrightarrow> buddy_init (kinit s0) = Ret s \<Longrightarrow> buddy_reach s"
| alloc: "buddy_reach s \<Longrightarrow> buddy_alloc me cnt s = Ret (p, s') \<Longrightarrow> buddy_reach s'"
| free: "buddy_reach s \<Longrightarrow> buddy_free me pa s = Ret s' \<Longrightarrow> buddy_reach s'"

lemma buddy_alloc_keeps:
  assumes "buddy_ok s" "buddy_alloc me cnt s = Ret (p, s')"
  shows "buddy_ok s'"
proof (cases "\<exists>k\<le>9. cnt = of_nat (2 ^ k)")
  case True
  then obtain k where k: "k \<le> 9" "cnt = of_nat (2 ^ k)" by blast
  show ?thesis using buddy_alloc_ret[OF assms(1) k(1), of me] assms(2) unfolding k(2) by auto
next
  case False
  then show ?thesis using buddy_alloc_bad_size[OF assms(1), of cnt me] assms by (auto split: if_splits)
qed

lemma buddy_free_keeps:
  assumes "buddy_ok s" "buddy_free me pa s = Ret s'"
  shows "buddy_ok s'"
proof (cases "\<exists>n. (pa, n) \<in> allocated s")
  case True
  then obtain n where "(pa, n) \<in> allocated s" by blast
  from buddy_free_ret[OF assms(1) this, of me] show ?thesis using assms(2) by auto
next
  case False
  have "\<not> bad_pa pa s" using assms(2) by (auto simp: buddy_free_def bad_pa_def split: if_splits)
  then show ?thesis using buddy_free_other[OF assms(1), of pa me] False assms by auto
qed

lemma buddy_reach_ok: "buddy_reach s \<Longrightarrow> buddy_ok s"
proof (induction rule: buddy_reach.induct)
  case (boot s0 s)
  then show ?case using boot_inv[OF boot(1-3)] buddy_inv_ok by auto
qed (auto intro: buddy_alloc_keeps buddy_free_keeps)

end
