(* ===== verification/Memory_Props.thy ===== *)
theory Memory_Props
  imports Kalloc
begin

text \<open>
  The properties of the spin locks, the buddy allocator and the page allocator, with their witnesses.
  The witnesses run on the allocator as it is right after boot, with the kernel ending at
  \<open>0x80030123\<close>.
\<close>

definition zero_node :: MemNode where
  "zero_node = \<lparr>leftChild = None, rightChild = None, head = None, depth = 0, start_ptr = 0,
     maxFreePage = 0, cnt_page = 0, is_used = 0\<rparr>"

definition mem0 :: buddy where
  "mem0 = \<lparr>nodes_mem = (\<lambda>_. zero_node), free_root = 0,
     blocks = (\<lambda>_. \<lparr>bm_lock = initlock '''', bm_root = None,
       bm_info = \<lparr>bi_total = 0, bi_free = 0, free_by_size = []\<rparr>\<rparr>),
     mem_separator = 0, end_ptr = 0x80030123\<rparr>"

lemma booted_inv: "\<exists>s. buddy_init (kinit mem0) = Ret s \<and> buddy_inv (\<lambda>_. {}) s"
  by (rule boot_inv) (simp_all add: mem0_def)

lemma booted_empty: "buddy_inv (\<lambda>_. {}) s \<Longrightarrow> allocated s = {}"
  by (simp add: buddy_inv_allocated)

lemma booted_free: "b < CNT_MEM_BLOCKS \<Longrightarrow> mfree {} 1 = 512"
  by (simp add: mfree_empty)

lemma booted_alloc:
  assumes "buddy_inv (\<lambda>_. {}) s" "k \<le> 9"
  shows "\<exists>p s'. buddy_alloc me (of_nat (2 ^ k)) s = Ret (p, s') \<and> p \<noteq> 0 \<and> buddy_ok s' \<and> allocated s' = {(p, 2 ^ k)}"
  using assms
proof (cases rule: buddy_alloc_cases[where me = me])
  case (some b t)
  then show ?thesis
    using alloc_some_effect[OF assms(1) some(1,2)] alloc_addr(2)[OF buddy_invD(1)[OF assms(1)], of b t] booted_empty[OF assms(1)]
    by (auto simp: avail_def node_range_def)
next
  case none
  have "2 ^ k \<le> (2 ^ 9 :: nat)" using assms(2) by (intro power_increasing) auto
  then show ?thesis using none(1)[of 0] booted_free[of 0] by simp
qed

text \<open>A state in which every block is handed out as a whole.\<close>

lemma exhausted_inv: "\<exists>s. buddy_inv (\<lambda>_. {1}) s"
proof -
  have "n \<le> CNT_MEM_BLOCKS \<Longrightarrow> \<exists>s. buddy_inv (\<lambda>b. if b < n then {1} else {}) s" for n
  proof (induction n)
    case 0
    then show ?case using booted_inv by auto
  next
    case (Suc n)
    then obtain s where s: "buddy_inv (\<lambda>b. if b < n then {1} else {}) s" by auto
    have u: "(\<lambda>b. if b < n then {1} else {})(n := {1}) = (\<lambda>b. if b < Suc n then {1} else {})"
      by (auto simp: fun_eq_iff)
    have "antichain {1}" by (simp add: antichain_def)
    then have "buddy_inv (\<lambda>b. if b < Suc n then {1} else {}) (tst s n {1})"
      using buddy_inv_tst[OF s, of n "{1}"] Suc.prems unfolding u by simp
    then show ?case by blast
  qed
  from this[of CNT_MEM_BLOCKS] obtain s where s: "buddy_inv (\<lambda>b. if b < CNT_MEM_BLOCKS then {1} else {}) s" by auto
  then have "buddy_inv (\<lambda>_. {1}) s" unfolding buddy_inv_def by auto
  then show ?thesis by blast
qed

lemma exhausted_none:
  assumes "buddy_inv (\<lambda>_. {1}) s" "k \<le> 9"
  shows "buddy_alloc me (of_nat (2 ^ k)) s = Ret (0, s)"
  using assms
proof (cases rule: buddy_alloc_cases[where me = me])
  case (some b t)
  then show ?thesis using anc_root[of t] by (auto simp: avail_def)
qed

section \<open>Spin locks\<close>

text \<open>C16: Mutual exclusion. Over every interleaving of the atomic steps of \<open>acquire\<close> and \<open>release\<close> on any
  number of CPUs, at most one CPU is between the swap that took the lock and the store that frees it,
  no CPU runs into one of the panics, and \<open>holding\<close> is true of exactly the CPU in its critical
  section.\<close>

theorem spinlock_mutual_exclusion:
  assumes "lk_reachable s"
  shows "(\<forall>i j. owns (pcs s i) \<and> owns (pcs s j) \<longrightarrow> i = j) \<and> (\<forall>i. pcs s i \<noteq> Dead)
    \<and> (\<forall>i. holding i (the_lock s) \<longleftrightarrow> pcs s i = Critical)"
  using lk_reachable_inv[OF assms] lk_inv_holding[OF lk_reachable_inv[OF assms]] by (auto simp: lk_inv_def)

definition spin_start :: lksys where
  "spin_start = \<lparr>the_lock = initlock ''l'', pcs = (\<lambda>_. Outside)\<rparr>"

definition spin_crit :: lksys where
  "spin_crit = \<lparr>the_lock = (initlock ''l'')\<lparr>lk_locked := 1, lk_cpu := Some 0\<rparr>, pcs = (\<lambda>_. Outside)(0 := Critical)\<rparr>"

lemma spin_crit_reachable: "lk_reachable spin_crit"
proof -
  let ?s0 = spin_start
  let ?s1 = "?s0\<lparr>pcs := (pcs ?s0)(0 := Spinning)\<rparr>"
  let ?s2 = "?s1\<lparr>the_lock := (the_lock ?s1)\<lparr>lk_locked := 1\<rparr>, pcs := (pcs ?s1)(0 := Swapped)\<rparr>"
  let ?s3 = "?s2\<lparr>the_lock := (the_lock ?s2)\<lparr>lk_cpu := Some 0\<rparr>, pcs := (pcs ?s2)(0 := Critical)\<rparr>"
  have "lk_reachable ?s0" unfolding spin_start_def by (rule lk_reachable.start)
  moreover have "lk_step ?s0 ?s1" by (rule lk_step.enter) (simp_all add: spin_start_def holding_def initlock_def)
  moreover have "lk_step ?s1 ?s2" by (rule lk_step.swap_free) (simp_all add: spin_start_def initlock_def)
  moreover have "lk_step ?s2 ?s3" by (rule lk_step.record_cpu) simp
  ultimately have "lk_reachable ?s3" by (blast intro: lk_reachable.step)
  then show ?thesis by (simp add: spin_crit_def spin_start_def)
qed

theorem spinlock_mutual_exclusion_witness:
  "pcs spin_crit 0 = Critical \<and> holding 0 (the_lock spin_crit) \<and> \<not> holding 1 (the_lock spin_crit)"
  using spinlock_mutual_exclusion[OF spin_crit_reachable] by (simp add: spin_crit_def)



section \<open>The buddy allocator\<close>

text \<open>C1: \<open>buddy_alloc\<close> is safe: for every admissible size it returns (no panic, no null dereference, no
  lock left taken), keeps the invariant, and hands out either nothing, with the state unchanged, or a
  page-aligned extent inside the managed region that overlaps no extent handed out before.\<close>

theorem buddy_alloc_safe:
  assumes "buddy_ok s" "k \<le> 9"
  shows "\<exists>p s'. buddy_alloc me (of_nat (2 ^ k)) s = Ret (p, s') \<and> buddy_ok s' \<and>
    (p = 0 \<and> s' = s \<or> p \<noteq> 0 \<and> unat p mod PGSIZE = 0 \<and>
      extent (p, 2 ^ k) \<subseteq> {unat (mem_separator s)..<PHYSTOP} \<and>
      (\<forall>e\<in>allocated s. extent (p, 2 ^ k) \<inter> extent e = {}) \<and>
      allocated s' = insert (p, 2 ^ k) (allocated s))"
  by (rule buddy_alloc_ret[OF assms])

theorem buddy_alloc_safe_witness:
  "\<exists>s p s'. buddy_init (kinit mem0) = Ret s \<and> buddy_alloc 0 8 s = Ret (p, s') \<and> buddy_ok s'"
proof -
  obtain s where "buddy_init (kinit mem0) = Ret s" "buddy_inv (\<lambda>_. {}) s" using booted_inv by blast
  then show ?thesis using buddy_alloc_safe[OF buddy_inv_ok, of "\<lambda>_. {}" s 3 0] by auto
qed

text \<open>C7: \<open>buddy_alloc\<close> is complete: it answers 0 to an admissible size only when every aligned run of
  that many pages of every block overlaps an extent that is handed out. The search over the
  \<open>maxFreePage\<close> hints misses no free run.\<close>

theorem buddy_alloc_complete:
  assumes "buddy_ok s" "k \<le> 9" "buddy_alloc me (of_nat (2 ^ k)) s = Ret (0, s')"
    and "b < CNT_MEM_BLOCKS" "q < 2 ^ (9 - k)"
  shows "\<exists>e\<in>allocated s. extent e \<inter> page_run s b (q * 2 ^ k) (2 ^ k) \<noteq> {}"
  using assms(1)[unfolded buddy_ok_def] assms(2)
proof (cases rule: buddy_alloc_cases[where me = me])
  case (some c t)
  then have "addr_of s c t \<noteq> 0"
    using alloc_addr(2)[OF buddy_invD(1)[OF assms(1)[unfolded buddy_ok_def]], of c t] by (simp add: avail_def node_range_def)
  then show ?thesis using some(4) assms(3) by simp
next
  case none
  show ?thesis by (rule none_free_run[OF assms(1)[unfolded buddy_ok_def] assms(2,5,4) none(1)[OF assms(4)]])
qed

theorem buddy_alloc_complete_witness:
  "\<exists>s. buddy_ok s \<and> buddy_alloc 0 512 s = Ret (0, s) \<and>
    (\<exists>e\<in>allocated s. extent e \<inter> page_run s 5 0 512 \<noteq> {})"
proof -
  obtain s where s: "buddy_inv (\<lambda>_. {1}) s" using exhausted_inv by blast
  have "buddy_alloc 0 (of_nat (2 ^ 9)) s = Ret (0, s)" by (rule exhausted_none[OF s]) simp
  then show ?thesis
    using buddy_alloc_complete[OF buddy_inv_ok[OF s], of 9 0 s 5 0] buddy_inv_ok[OF s] by auto
qed

text \<open>C8: \<open>buddy_free\<close> of an extent that was handed out returns, keeps the invariant and takes back exactly
  that extent; every other extent stays handed out.\<close>

theorem buddy_free_takes_back:
  assumes "buddy_ok s" "(p, n) \<in> allocated s"
  shows "\<exists>s'. buddy_free me p s = Ret s' \<and> buddy_ok s' \<and> allocated s' = allocated s - {(p, n)}"
  by (rule buddy_free_ret[OF assms])

theorem buddy_free_takes_back_witness:
  "\<exists>s p s'. (p, 8) \<in> allocated s \<and> buddy_free 1 p s = Ret s' \<and> allocated s' = {}"
proof -
  obtain s0 where "buddy_inv (\<lambda>_. {}) s0" using booted_inv by blast
  from booted_alloc[OF this, of 3 0] obtain p s where "buddy_ok s" "allocated s = {(p, 8)}" by auto
  then show ?thesis using buddy_free_takes_back[of s p 8 1] by auto
qed

text \<open>C9: Round trip. Freeing what \<open>buddy_alloc\<close> has just handed out restores the state exactly: the
  \<open>maxFreePage\<close> of every node, every counter and every lock are what they were.\<close>

theorem buddy_alloc_free_roundtrip:
  assumes "buddy_ok s" "k \<le> 9" "buddy_alloc me (of_nat (2 ^ k)) s = Ret (p, s')" "p \<noteq> 0"
  shows "buddy_free me' p s' = Ret s"
  using assms(1)[unfolded buddy_ok_def] assms(2)
proof (cases rule: buddy_alloc_cases[where me = me])
  case (some b t)
  note inv = assms(1)[unfolded buddy_ok_def]
  have p: "p = addr_of s b t" "s' = tst s b (insert t (used_set s b))" using some(4) assms(3) by simp_all
  have "buddy_inv ((used_set s)(b := insert t (used_set s b))) s'"
    using buddy_inv_tst[OF inv some(1)] antichain_insert[OF buddy_invD(5)[OF inv some(1)] some(2)] unfolding p(2) by blast
  from buddy_free_used[OF this some(1), of t me'] show ?thesis
    using avail_notin[OF some(2)] block_okD(1)[OF buddy_invD(3)[OF inv some(1)]] unfolding p by simp
next
  case none
  then show ?thesis using assms(3,4) by simp
qed

theorem buddy_alloc_free_roundtrip_witness:
  "\<exists>s p s'. buddy_init (kinit mem0) = Ret s \<and> p \<noteq> 0 \<and> buddy_alloc 0 4 s = Ret (p, s') \<and> buddy_free 1 p s' = Ret s"
proof -
  obtain s where s: "buddy_init (kinit mem0) = Ret s" "buddy_inv (\<lambda>_. {}) s" using booted_inv by blast
  obtain p s' where "buddy_alloc 0 (of_nat (2 ^ 2)) s = Ret (p, s')" "p \<noteq> 0" using booted_alloc[OF s(2), of 2 0] by auto
  then show ?thesis using s(1) buddy_alloc_free_roundtrip[OF buddy_inv_ok[OF s(2)], of 2 0 p s' 1] by auto
qed

text \<open>C5: Whatever sequence of \<open>buddy_alloc\<close> and \<open>buddy_free\<close> calls follows boot, with whatever sizes and
  addresses, the allocator is in a state that satisfies its invariant, and any two distinct extents
  that are handed out at that moment are disjoint.\<close>

theorem buddy_reachable_disjoint:
  assumes "buddy_reach s"
  shows "buddy_ok s \<and> (\<forall>e\<in>allocated s. \<forall>f\<in>allocated s. e \<noteq> f \<longrightarrow> extent e \<inter> extent f = {})"
  using buddy_reach_ok[OF assms] allocated_pairwise by blast

theorem buddy_reachable_disjoint_witness:
  "\<exists>s p. buddy_reach s \<and> allocated s = {(p, 8)} \<and> buddy_ok s"
proof -
  obtain s0 where s0: "buddy_init (kinit mem0) = Ret s0" "buddy_inv (\<lambda>_. {}) s0" using booted_inv by blast
  have "buddy_reach s0" by (rule buddy_reach.boot[OF _ _ _ s0(1)]) (simp_all add: mem0_def)
  moreover obtain p s where s: "buddy_alloc 0 (of_nat (2 ^ 3)) s0 = Ret (p, s)" "allocated s = {(p, 2 ^ 3)}"
    using booted_alloc[OF s0(2), of 3 0] by auto
  ultimately have "buddy_reach s" by (blast intro: buddy_reach.alloc)
  then show ?thesis using s(2) buddy_reachable_disjoint by auto
qed



text \<open>C34: \<open>buddy_alloc\<close> on the other sizes: 0 when the size is not one the allocator supports, with the
  state unchanged; but \<open>buddy_alloc(0)\<close> never returns, and \<open>buddy_alloc(0x80000000)\<close>, cut to 16 bits on
  its way to \<open>alloc_in_block\<close>, follows the null child of a leaf.\<close>

theorem buddy_alloc_other_sizes:
  assumes "buddy_ok s" "\<forall>k\<le>9. cnt \<noteq> of_nat (2 ^ k)"
  shows "buddy_alloc me cnt s = (if cnt = 0 then Hang else if cnt = 0x80000000 then Fault else Ret (0, s))"
  using buddy_alloc_bad_size[OF assms(1)] assms(2) by blast

theorem buddy_alloc_other_sizes_witness:
  "\<exists>s. buddy_init (kinit mem0) = Ret s \<and> buddy_alloc 0 0 s = Hang \<and> buddy_alloc 0 0x80000000 s = Fault
    \<and> buddy_alloc 0 3 s = Ret (0, s)"
proof -
  obtain s where s: "buddy_init (kinit mem0) = Ret s" "buddy_inv (\<lambda>_. {}) s" using booted_inv by blast
  have n: "\<forall>k\<le>9. c \<noteq> of_nat (2 ^ k)" if "checker_cnt_page c \<noteq> Ret 1" for c :: u32
    using that checker_power by auto
  have "\<forall>k\<le>9. (0x80000000 :: u32) \<noteq> of_nat (2 ^ k)"
  proof (intro allI impI)
    fix k :: nat assume "k \<le> 9"
    then have "2 ^ k \<le> (2 ^ 9 :: nat)" by (intro power_increasing) auto
    then show "(0x80000000 :: u32) \<noteq> of_nat (2 ^ k)" using of_nat_word_eq_iff[of "0x80000000" "2 ^ k", where 'a = 32] by simp
  qed
  moreover have "\<forall>k\<le>9. (0 :: u32) \<noteq> of_nat (2 ^ k)" by (rule n) (simp add: checker_cnt_page_def halve_even_0)
  moreover have "halve_even 3 = Some 3" by (simp add: halve_even.simps)
  then have "\<forall>k\<le>9. (3 :: u32) \<noteq> of_nat (2 ^ k)" by (intro n) (simp add: checker_cnt_page_def)
  ultimately show ?thesis
    using s(1) buddy_alloc_other_sizes[OF buddy_inv_ok[OF s(2)], of 0 0]
      buddy_alloc_other_sizes[OF buddy_inv_ok[OF s(2)], of "0x80000000" 0]
      buddy_alloc_other_sizes[OF buddy_inv_ok[OF s(2)], of 3 0] by simp
qed



section \<open>The page allocator\<close>

text \<open>C32: Boot. With the kernel image ending within the first 4 MB of RAM, \<open>kinit\<close> and \<open>buddy_init\<close>
  return without a panic and set up an allocator that satisfies its invariant and has handed out
  nothing.\<close>

theorem boot_allocator:
  assumes "KERNBASE \<le> unat (end_ptr s)" "unat (end_ptr s) \<le> KERNBASE + 4 * 1024 * 1024" "free_root s = 0"
  shows "\<exists>s'. buddy_init (kinit s) = Ret s' \<and> buddy_ok s' \<and> allocated s' = {}"
  using boot_inv[OF assms] buddy_inv_ok booted_empty by blast

theorem boot_allocator_witness: "\<exists>s. buddy_init (kinit mem0) = Ret s \<and> buddy_ok s"
  using boot_allocator[of mem0] by (auto simp: mem0_def)





end
