(* ===== verification/Proc_Table.thy ===== *)
theory Proc_Table
  imports Kernel_Spinlock Riscv
begin

text \<open>
  The process table (\<open>kernel/proc.h\<close>, \<open>kernel/defMyStructs.h\<close> and the globals of \<open>kernel/proc.c\<close>): its
  records, and the routines that work on the table alone, with the lock of each entry taken and
  released as the code does.

  A \<open>struct proc *\<close> is an index into \<open>proc\<close>, a \<open>struct namespace_node *\<close> an index into \<open>nodes\<close>; the
  null pointer is \<open>None\<close>. Page tables and trapframes are physical addresses, open files and inodes
  indices into the tables of the file layer. A sleep channel is the object whose address is used.
\<close>

abbreviation NPROC :: nat where "NPROC \<equiv> 64"
abbreviation NNMND :: nat where "NNMND \<equiv> 64"
abbreviation NCPU :: nat where "NCPU \<equiv> 8"
abbreviation NOFILE :: nat where "NOFILE \<equiv> 16"

section \<open>Data\<close>

datatype procstate = UNUSED | USED | SLEEPING | RUNNABLE | RUNNING | ZOMBIE

datatype chan = ChanProc nat | ChanTicks | ChanLog | ChanPipeRead u64 | ChanPipeWrite u64
  | ChanBufLock nat | ChanInodeLock nat | ChanBuf nat | ChanConsole | ChanUart | ChanDisk

record namespace_node =
  cnt_proc :: int
  last_pid :: int
  ns_init :: "nat option"
  ns_head :: "nat option"
  ns_depth :: nat

record proccess_info =
  pi_state :: procstate
  pi_pid :: int
  pi_parent_pid :: int
  pi_sz :: u64
  pi_cntOfile :: int
  pi_name :: "u8 list"
  pi_startTime :: u32
  pi_lastStartTime :: u32
  pi_cntChange :: u32
  pi_totalTime :: u32

record kcontext =
  ctx_ra :: u64
  ctx_sp :: u64
  ctx_saved :: "u64 list"

record proc =
  p_lock :: spinlock
  p_state :: procstate
  p_chan :: "chan option"
  p_killed :: int
  p_xstate :: int
  p_pid :: int
  namespace_pids :: "int list"
  p_node :: "nat option"
  p_parent :: "nat option"
  p_kstack :: u64
  p_sz :: u64
  p_pagetable :: u64
  p_trapframe :: u64
  p_context :: kcontext
  p_ofile :: "nat option list"
  p_cwd :: "nat option"
  p_name :: "u8 list"
  p_pinfo :: proccess_info

text \<open>The globals of \<open>proc.c\<close>; \<open>cpu_proc\<close> is the field \<open>proc\<close> of each \<open>struct cpu\<close>.\<close>

record ptable =
  procs :: "nat \<Rightarrow> proc"
  nodes :: "nat \<Rightarrow> namespace_node"
  ns_used :: "nat \<Rightarrow> bool"
  initproc :: "nat option"
  nextpid :: int
  pid_lock :: spinlock
  wait_lock :: spinlock
  cpu_proc :: "nat \<Rightarrow> nat option"

section \<open>Access\<close>

definition get_proc :: "ptable \<Rightarrow> nat option \<Rightarrow> proc res" where
  "get_proc t p = bind_res (deref NPROC p) (\<lambda>i. Ret (procs t i))"

definition set_proc :: "nat option \<Rightarrow> (proc \<Rightarrow> proc) \<Rightarrow> ptable \<Rightarrow> ptable res" where
  "set_proc p f t = bind_res (deref NPROC p) (\<lambda>i. Ret (t\<lparr>procs := (procs t)(i := f (procs t i))\<rparr>))"

definition get_ns :: "ptable \<Rightarrow> nat option \<Rightarrow> namespace_node res" where
  "get_ns t n = bind_res (deref NNMND n) (\<lambda>i. Ret (nodes t i))"

definition set_ns :: "nat option \<Rightarrow> (namespace_node \<Rightarrow> namespace_node) \<Rightarrow> ptable \<Rightarrow> ptable res" where
  "set_ns n f t = bind_res (deref NNMND n) (\<lambda>i. Ret (t\<lparr>nodes := (nodes t)(i := f (nodes t i))\<rparr>))"

text \<open>Reading \<open>p->namespace_pids[d]\<close>; the array has the length the record carries (8 in the code).\<close>

definition ns_pid :: "proc \<Rightarrow> nat \<Rightarrow> int res" where
  "ns_pid p d = (if d < length (namespace_pids p) then Ret (namespace_pids p ! d) else Fault)"

definition acquire_proc :: "nat \<Rightarrow> nat \<Rightarrow> ptable \<Rightarrow> ptable res" where
  "acquire_proc c i t = bind_res (acquire_lock c (p_lock (procs t i))) (\<lambda>lk. set_proc (Some i) (p_lock_update (\<lambda>_. lk)) t)"

definition release_proc :: "nat \<Rightarrow> nat \<Rightarrow> ptable \<Rightarrow> ptable res" where
  "release_proc c i t = bind_res (release_lock c (p_lock (procs t i))) (\<lambda>lk. set_proc (Some i) (p_lock_update (\<lambda>_. lk)) t)"

definition myproc :: "nat \<Rightarrow> ptable \<Rightarrow> nat option" where
  "myproc c t = cpu_proc t c"

text \<open>The globals as the loader leaves them: zero, except \<open>nextpid = 1\<close>.\<close>

definition zero_proc :: proc where
  "zero_proc = \<lparr>p_lock = \<lparr>lk_locked = 0, lk_name = '''', lk_cpu = None\<rparr>, p_state = UNUSED, p_chan = None, p_killed = 0, p_xstate = 0,
     p_pid = 0, namespace_pids = replicate 8 0, p_node = None, p_parent = None, p_kstack = 0, p_sz = 0, p_pagetable = 0,
     p_trapframe = 0, p_context = \<lparr>ctx_ra = 0, ctx_sp = 0, ctx_saved = replicate 12 0\<rparr>, p_ofile = replicate NOFILE None,
     p_cwd = None, p_name = replicate 16 0, p_pinfo = \<lparr>pi_state = UNUSED, pi_pid = 0, pi_parent_pid = 0, pi_sz = 0, pi_cntOfile = 0,
     pi_name = replicate 16 0, pi_startTime = 0, pi_lastStartTime = 0, pi_cntChange = 0, pi_totalTime = 0\<rparr>\<rparr>"

definition zero_ptable :: ptable where
  "zero_ptable = \<lparr>procs = (\<lambda>_. zero_proc), nodes = (\<lambda>_. \<lparr>cnt_proc = 0, last_pid = 0, ns_init = None, ns_head = None, ns_depth = 0\<rparr>),
     ns_used = (\<lambda>_. False), initproc = None, nextpid = 1, pid_lock = p_lock zero_proc, wait_lock = p_lock zero_proc,
     cpu_proc = (\<lambda>_. None)\<rparr>"

definition procinit :: "ptable \<Rightarrow> ptable" where
  "procinit t =
    fold (\<lambda>i t. t\<lparr>procs := (procs t)(i := (procs t i)\<lparr>p_lock := initlock ''proc'', p_state := UNUSED, p_kstack := KSTACK i\<rparr>)\<rparr>)
      [0..<NPROC] (t\<lparr>pid_lock := initlock ''nextpid'', wait_lock := initlock ''wait_lock''\<rparr>)"

section \<open>Namespaces\<close>

text \<open>
  \<open>is_heir\<close> climbs from \<open>one\<close> towards the root of its tree. A chain of distinct nodes is no longer than
  the array, so \<open>NNMND\<close> steps are enough for every chain that ends.
\<close>

fun is_heir_loop :: "nat \<Rightarrow> nat option \<Rightarrow> nat option \<Rightarrow> ptable \<Rightarrow> bool res" where
  "is_heir_loop 0 local_node other t = Hang"
| "is_heir_loop (Suc fuel) local_node other t =
    bind_res (get_ns t local_node) (\<lambda>n.
      if ns_depth n > 0 then
        if local_node = other then Ret True else is_heir_loop fuel (ns_head n) other t
      else Ret (local_node = other))"

definition is_heir :: "nat option \<Rightarrow> nat option \<Rightarrow> ptable \<Rightarrow> bool res" where
  "is_heir one other t = is_heir_loop NNMND one other t"

primrec find_proc_loop :: "nat \<Rightarrow> int \<Rightarrow> nat option \<Rightarrow> nat list \<Rightarrow> ptable \<Rightarrow> (nat option \<times> ptable) res" where
  "find_proc_loop c pid node [] t = Ret (None, t)"
| "find_proc_loop c pid node (i # is) t =
    bind_res (acquire_proc c i t) (\<lambda>t1.
    bind_res (get_ns t1 node) (\<lambda>n.
    bind_res (ns_pid (procs t1 i) (ns_depth n)) (\<lambda>q.
    bind_res (if q = pid then is_heir (p_node (procs t1 i)) node t1 else Ret False) (\<lambda>found.
      if found then Ret (Some i, t1)
      else bind_res (release_proc c i t1) (find_proc_loop c pid node is)))))"

definition find_proc :: "nat \<Rightarrow> int \<Rightarrow> nat option \<Rightarrow> ptable \<Rightarrow> (nat option \<times> ptable) res" where
  "find_proc c pid node t = find_proc_loop c pid node [0..<NPROC] t"

definition get_pid :: "nat option \<Rightarrow> nat option \<Rightarrow> ptable \<Rightarrow> int res" where
  "get_pid p node t =
    bind_res (get_proc t p) (\<lambda>pp.
    bind_res (is_heir (p_node pp) node t) (\<lambda>h.
      if h then bind_res (get_ns t node) (\<lambda>n. ns_pid pp (ns_depth n)) else Ret 0))"

definition get_ppid :: "nat option \<Rightarrow> nat option \<Rightarrow> ptable \<Rightarrow> int res" where
  "get_ppid p node t =
    (if p = initproc t then Ret 0
     else bind_res (get_proc t p) (\<lambda>pp. get_pid (p_parent pp) node t))"

primrec namespace_malloc_loop :: "nat list \<Rightarrow> ptable \<Rightarrow> nat option \<times> ptable" where
  "namespace_malloc_loop [] t = (None, t)"
| "namespace_malloc_loop (i # is) t =
    (if \<not> ns_used t i then (Some i, t\<lparr>ns_used := (ns_used t)(i := True)\<rparr>)
     else namespace_malloc_loop is t)"

definition namespace_malloc :: "ptable \<Rightarrow> nat option \<times> ptable" where
  "namespace_malloc t = namespace_malloc_loop [0..<64] t"

definition namespace_free :: "nat option \<Rightarrow> ptable \<Rightarrow> ptable" where
  "namespace_free node t =
    fold (\<lambda>i t. if Some i = node then t\<lparr>ns_used := (ns_used t)(i := False)\<rparr> else t) [0..<64] t"

text \<open>
  The loop of \<open>fork\<close> and \<open>clone\<close> that enters the new process into its namespace and all namespaces above:
  one iteration for each of the \<open>depth + 1\<close> levels.
\<close>

primrec ns_enter :: "nat \<Rightarrow> nat \<Rightarrow> nat option \<Rightarrow> ptable \<Rightarrow> ptable res" where
  "ns_enter 0 np local_node t = Ret t"
| "ns_enter (Suc k) np local_node t =
    bind_res (get_ns t local_node) (\<lambda>n.
    bind_res (if ns_depth n < length (namespace_pids (procs t np)) then Ret () else Fault) (\<lambda>_.
    bind_res (set_proc (Some np) (namespace_pids_update (\<lambda>l. l[ns_depth n := last_pid n])) t) (\<lambda>t1.
    bind_res (set_ns local_node (\<lambda>n. n\<lparr>cnt_proc := cnt_proc n + 1, last_pid := last_pid n + 1\<rparr>) t1) (\<lambda>t2.
    ns_enter k np (ns_head n) t2))))"

text \<open>The block of \<open>userinit\<close> that makes the first process the first member of the root namespace.\<close>

definition userinit_ns :: "nat \<Rightarrow> ptable \<Rightarrow> ptable res" where
  "userinit_ns p t =
    (let (node, t1) = namespace_malloc t
     in bind_res (set_proc (Some p) (p_node_update (\<lambda>_. node)) t1) (\<lambda>t2.
        bind_res (set_ns node (\<lambda>n. n\<lparr>cnt_proc := 1, ns_head := None, ns_init := Some p, last_pid := 2, ns_depth := 0\<rparr>) t2) (\<lambda>t3.
        bind_res (if 0 < length (namespace_pids (procs t3 p)) then Ret () else Fault) (\<lambda>_.
        set_proc (Some p) (namespace_pids_update (\<lambda>l. l[0 := 1])) t3))))"

text \<open>The block of \<open>fork\<close> that puts the child into the namespace of its parent.\<close>

definition fork_ns :: "nat option \<Rightarrow> nat \<Rightarrow> ptable \<Rightarrow> ptable res" where
  "fork_ns p np t =
    bind_res (get_proc t p) (\<lambda>pp.
    bind_res (set_proc (Some np) (p_node_update (\<lambda>_. p_node pp)) t) (\<lambda>t1.
    bind_res (get_ns t1 (p_node pp)) (\<lambda>n.
    ns_enter (ns_depth n + 1) np (p_node pp) t1)))"

text \<open>The block of \<open>clone\<close> that makes the child the first process of a new namespace.\<close>

definition clone_ns :: "nat option \<Rightarrow> nat \<Rightarrow> ptable \<Rightarrow> ptable res" where
  "clone_ns p np t =
    (let (node, t1) = namespace_malloc t
     in bind_res (set_proc (Some np) (p_node_update (\<lambda>_. node)) t1) (\<lambda>t2.
        bind_res (get_proc t2 p) (\<lambda>pp.
        bind_res (set_ns node (\<lambda>n. n\<lparr>cnt_proc := 0, last_pid := 1, ns_init := Some np, ns_head := p_node pp\<rparr>) t2) (\<lambda>t3.
        bind_res (get_ns t3 (p_node pp)) (\<lambda>h.
        bind_res (set_ns node (\<lambda>n. n\<lparr>ns_depth := ns_depth h + 1\<rparr>) t3) (\<lambda>t4.
        bind_res (get_ns t4 node) (\<lambda>n.
        ns_enter (ns_depth n + 1) np node t4)))))))"

text \<open>The loop of \<open>exit\<close> that takes the process out of its namespaces.\<close>

primrec ns_leave :: "nat \<Rightarrow> nat option \<Rightarrow> ptable \<Rightarrow> ptable res" where
  "ns_leave 0 local_node t = Ret t"
| "ns_leave (Suc k) local_node t =
    bind_res (set_ns local_node (\<lambda>n. n\<lparr>cnt_proc := cnt_proc n - 1\<rparr>) t) (\<lambda>t1.
    bind_res (get_ns t1 local_node) (\<lambda>n. ns_leave k (ns_head n) t1))"

fun clean_node_loop :: "nat \<Rightarrow> nat option \<Rightarrow> ptable \<Rightarrow> ptable res" where
  "clean_node_loop 0 node t = Hang"
| "clean_node_loop (Suc fuel) node t =
    bind_res (get_ns t node) (\<lambda>n.
      if ns_depth n \<noteq> 0 \<and> cnt_proc n = 0
      then clean_node_loop fuel (ns_head n) (namespace_free node t)
      else Ret t)"

definition clean_node :: "nat option \<Rightarrow> ptable \<Rightarrow> ptable res" where
  "clean_node node t = clean_node_loop (NNMND + 1) node t"

definition exit_ns :: "nat option \<Rightarrow> ptable \<Rightarrow> ptable res" where
  "exit_ns p t =
    bind_res (get_proc t p) (\<lambda>pp.
    bind_res (get_ns t (p_node pp)) (\<lambda>n.
    bind_res (ns_leave (ns_depth n + 1) (p_node pp) t) (\<lambda>t1.
    clean_node (p_node pp) t1)))"

section \<open>Process ids, wakeup, kill\<close>

definition allocpid :: "nat \<Rightarrow> ptable \<Rightarrow> (int \<times> ptable) res" where
  "allocpid c t =
    bind_res (acquire_lock c (pid_lock t)) (\<lambda>lk.
    let t1 = t\<lparr>pid_lock := lk\<rparr>; pid = nextpid t1; t2 = t1\<lparr>nextpid := nextpid t1 + 1\<rparr>
    in bind_res (release_lock c (pid_lock t2)) (\<lambda>lk'. Ret (pid, t2\<lparr>pid_lock := lk'\<rparr>)))"

definition wakeup :: "nat \<Rightarrow> chan option \<Rightarrow> ptable \<Rightarrow> ptable res" where
  "wakeup c ch t =
    foldM (\<lambda>i t.
      if Some i \<noteq> myproc c t then
        bind_res (acquire_proc c i t) (\<lambda>t1.
        bind_res (if p_state (procs t1 i) = SLEEPING \<and> p_chan (procs t1 i) = ch
                  then set_proc (Some i) (p_state_update (\<lambda>_. RUNNABLE)) t1 else Ret t1) (\<lambda>t2.
        release_proc c i t2))
      else Ret t) [0..<NPROC] t"

primrec kill_loop :: "nat \<Rightarrow> int \<Rightarrow> nat list \<Rightarrow> ptable \<Rightarrow> (int \<times> ptable) res" where
  "kill_loop c pid [] t = Ret (- 1, t)"
| "kill_loop c pid (i # is) t =
    bind_res (acquire_proc c i t) (\<lambda>t1.
      if p_pid (procs t1 i) = pid then
        bind_res (set_proc (Some i) (p_killed_update (\<lambda>_. 1)) t1) (\<lambda>t2.
        bind_res (if p_state (procs t2 i) = SLEEPING
                  then set_proc (Some i) (p_state_update (\<lambda>_. RUNNABLE)) t2 else Ret t2) (\<lambda>t3.
        bind_res (release_proc c i t3) (\<lambda>t4. Ret (0, t4))))
      else bind_res (release_proc c i t1) (kill_loop c pid is))"

definition kill :: "nat \<Rightarrow> int \<Rightarrow> ptable \<Rightarrow> (int \<times> ptable) res" where
  "kill c pid t = kill_loop c pid [0..<NPROC] t"

definition setkilled :: "nat \<Rightarrow> nat \<Rightarrow> ptable \<Rightarrow> ptable res" where
  "setkilled c p t =
    bind_res (acquire_proc c p t) (\<lambda>t1.
    bind_res (set_proc (Some p) (p_killed_update (\<lambda>_. 1)) t1) (release_proc c p))"

definition killed :: "nat \<Rightarrow> nat \<Rightarrow> ptable \<Rightarrow> (int \<times> ptable) res" where
  "killed c p t =
    bind_res (acquire_proc c p t) (\<lambda>t1.
    let k = p_killed (procs t1 p)
    in bind_res (release_proc c p t1) (\<lambda>t2. Ret (k, t2)))"

text \<open>The search of \<open>reparent\<close> for the process that takes over the children.\<close>

fun find_init_loop :: "nat \<Rightarrow> nat option \<Rightarrow> nat option \<Rightarrow> ptable \<Rightarrow> nat option res" where
  "find_init_loop 0 local_node new_init t = Hang"
| "find_init_loop (Suc fuel) local_node new_init t =
    (if local_node \<noteq> None then
       bind_res (get_ns t local_node) (\<lambda>n.
         if ns_init n \<noteq> None then Ret (ns_init n) else find_init_loop fuel (ns_head n) new_init t)
     else Ret new_init)"

definition reparent :: "nat \<Rightarrow> nat option \<Rightarrow> ptable \<Rightarrow> ptable res" where
  "reparent c p t =
    bind_res (get_proc t p) (\<lambda>pp.
    bind_res (get_ns t (p_node pp)) (\<lambda>n.
    bind_res (if ns_init n = p then set_ns (p_node pp) (ns_init_update (\<lambda>_. None)) t else Ret t) (\<lambda>t1.
    bind_res (find_init_loop (NNMND + 1) (p_node pp) (initproc t1) t1) (\<lambda>new_init.
    foldM (\<lambda>i t.
      if p_parent (procs t i) = p then
        bind_res (set_proc (Some i) (p_parent_update (\<lambda>_. new_init)) t) (\<lambda>t2.
        wakeup c (map_option ChanProc (initproc t2)) t2)
      else Ret t) [0..<NPROC] t1))))"

end
