(* ===== verification/Proc_Namespace.thy ===== *)
theory Proc_Namespace
  imports Proc_Table
begin

text \<open>
  Process-id namespaces. The nodes form a forest through \<open>head\<close>; a process belongs to the namespace it
  was created in and to all namespaces above it, and has one pid in each. The invariant \<open>ns_inv\<close> says,
  for the set \<open>L\<close> of processes that have been entered and have not exited, that \<open>cnt_proc\<close> counts the
  members of each namespace, that no two members have the same pid there, and that a namespace below
  the root exists only as long as it has members.
\<close>

section \<open>Chains\<close>

text \<open>\<open>chain N n xs\<close>: the nodes from \<open>n\<close> up to the root of its tree are \<open>xs\<close>.\<close>

inductive chain :: "(nat \<Rightarrow> namespace_node) \<Rightarrow> nat \<Rightarrow> nat list \<Rightarrow> bool" for N where
  chain_root: "n < NNMND \<Longrightarrow> ns_depth (N n) = 0 \<Longrightarrow> chain N n [n]"
| chain_up: "n < NNMND \<Longrightarrow> 0 < ns_depth (N n) \<Longrightarrow> ns_head (N n) = Some h \<Longrightarrow> chain N h ys \<Longrightarrow> chain N n (n # ys)"

inductive_cases chain_NilE: "chain N n []"
inductive_cases chain_ConsE: "chain N n (x # xs)"

lemma chain_hd: "chain N n xs \<Longrightarrow> \<exists>ys. xs = n # ys"
  by (erule chain.cases) auto

lemma chain_unique: "chain N n xs \<Longrightarrow> chain N n ys \<Longrightarrow> xs = ys"
proof (induction arbitrary: ys rule: chain.induct)
  case (chain_root n)
  from chain_root(3,2) show ?case by (auto elim: chain.cases)
next
  case (chain_up n h zs)
  from chain_up(6,2,3) obtain ws where "ys = n # ws" "chain N h ws" by (auto elim: chain.cases)
  then show ?case using chain_up(5) by simp
qed

lemma chain_suffix: "chain N n xs \<Longrightarrow> m \<in> set xs \<Longrightarrow> \<exists>ys. chain N m ys \<and> length ys \<le> length xs"
proof (induction rule: chain.induct)
  case (chain_up n h ys)
  then show ?case using chain.chain_up[OF chain_up(1-4)] by (cases "m = n") force+
qed (auto intro: chain.chain_root)

lemma chain_distinct: "chain N n xs \<Longrightarrow> distinct xs"
proof (induction rule: chain.induct)
  case (chain_up n h ys)
  have "n \<notin> set ys"
  proof
    assume "n \<in> set ys"
    then obtain zs where "chain N n zs" "length zs \<le> length ys" using chain_suffix[OF chain_up(4)] by blast
    then show False using chain_unique[OF chain.chain_up[OF chain_up(1-4)]] by fastforce
  qed
  then show ?case using chain_up by simp
qed simp

lemma chain_bound: "chain N n xs \<Longrightarrow> set xs \<subseteq> {..<NNMND}"
  by (induction rule: chain.induct) auto

lemma chain_length: "chain N n xs \<Longrightarrow> length xs \<le> NNMND"
  using chain_distinct[of N n xs] chain_bound[of N n xs] card_mono[of "{..<NNMND}" "set xs"] distinct_card[of xs]
  by simp

lemma chain_cong:
  assumes "chain N n xs" "\<And>m. m \<in> set xs \<Longrightarrow> ns_depth (M m) = ns_depth (N m) \<and> ns_head (M m) = ns_head (N m)"
  shows "chain M n xs"
  using assms
proof (induction rule: chain.induct)
  case (chain_root n)
  then show ?case by (auto intro: chain.chain_root)
next
  case (chain_up n h ys)
  then show ?case by (intro chain.chain_up[of n M h ys]) auto
qed

lemma is_heir_loop_chain:
  "chain (nodes t) n xs \<Longrightarrow> length xs \<le> fuel \<Longrightarrow> is_heir_loop fuel (Some n) (Some m) t = Ret (m \<in> set xs)"
proof (induction arbitrary: fuel rule: chain.induct)
  case (chain_root n)
  then show ?case by (cases fuel) (auto simp: get_ns_def)
next
  case (chain_up n h ys)
  then show ?case by (cases fuel) (auto simp: get_ns_def)
qed

lemma is_heir_chain: "chain (nodes t) n xs \<Longrightarrow> is_heir (Some n) (Some m) t = Ret (m \<in> set xs)"
  unfolding is_heir_def by (rule is_heir_loop_chain[OF _ chain_length])

section \<open>The forest of namespaces in use\<close>

definition ns_forest :: "ptable \<Rightarrow> bool" where
  "ns_forest t \<longleftrightarrow> (\<forall>n<NNMND. ns_used t n \<longrightarrow>
    (case ns_head (nodes t n) of
       None \<Rightarrow> ns_depth (nodes t n) = 0
     | Some h \<Rightarrow> h < NNMND \<and> ns_used t h \<and> ns_depth (nodes t n) = Suc (ns_depth (nodes t h))))"

lemma forest_head:
  assumes "ns_forest t" "n < NNMND" "ns_used t n" "0 < ns_depth (nodes t n)"
  obtains h where "ns_head (nodes t n) = Some h" "h < NNMND" "ns_used t h" "ns_depth (nodes t n) = Suc (ns_depth (nodes t h))"
  using assms unfolding ns_forest_def by (cases "ns_head (nodes t n)") auto

lemma forest_chain:
  assumes "ns_forest t" "n < NNMND" "ns_used t n"
  shows "\<exists>xs. chain (nodes t) n xs \<and> (\<forall>m\<in>set xs. ns_used t m) \<and> map (\<lambda>m. ns_depth (nodes t m)) xs = rev [0..<Suc (ns_depth (nodes t n))]"
  using assms(2,3)
proof (induction "ns_depth (nodes t n)" arbitrary: n)
  case 0
  then show ?case by (intro exI[of _ "[n]"]) (auto intro: chain.chain_root)
next
  case (Suc d)
  then obtain h where h: "ns_head (nodes t n) = Some h" "h < NNMND" "ns_used t h" "ns_depth (nodes t n) = Suc (ns_depth (nodes t h))"
    using forest_head[OF assms(1)] by (metis less_Suc_eq_0_disj zero_less_Suc)
  then obtain xs where xs: "chain (nodes t) h xs" "\<forall>m\<in>set xs. ns_used t m"
      "map (\<lambda>m. ns_depth (nodes t m)) xs = rev [0..<Suc (ns_depth (nodes t h))]"
    using Suc.hyps(1)[of h] Suc.hyps(2) by auto
  have "chain (nodes t) n (n # xs)" using chain.chain_up[OF Suc.prems(1) _ h(1) xs(1)] h(4) by simp
  then show ?case using xs h(4) Suc.prems(2) by (intro exI[of _ "n # xs"]) simp
qed

lemma forest_chainD:
  assumes "ns_forest t" "ns_used t n" "chain (nodes t) n xs"
  shows "m \<in> set xs \<Longrightarrow> ns_used t m" and "length xs = Suc (ns_depth (nodes t n))"
    and "inj_on (\<lambda>m. ns_depth (nodes t m)) (set xs)" and "m \<in> set xs \<Longrightarrow> ns_depth (nodes t m) \<le> ns_depth (nodes t n)"
proof -
  have n: "n < NNMND" using assms(3) by (auto elim: chain.cases)
  obtain ys where "chain (nodes t) n ys" "\<forall>m\<in>set ys. ns_used t m"
      and d: "map (\<lambda>m. ns_depth (nodes t m)) ys = rev [0..<Suc (ns_depth (nodes t n))]"
    using forest_chain[OF assms(1) n assms(2)] by blast
  moreover from this have ys: "xs = ys" using chain_unique[OF assms(3)] by simp
  ultimately show "m \<in> set xs \<Longrightarrow> ns_used t m" by simp
  show "length xs = Suc (ns_depth (nodes t n))" using arg_cong[OF d, of length] ys by simp
  have "distinct (map (\<lambda>m. ns_depth (nodes t m)) xs)" unfolding ys d by simp
  then show "inj_on (\<lambda>m. ns_depth (nodes t m)) (set xs)" by (simp add: distinct_map)
  show "ns_depth (nodes t m) \<le> ns_depth (nodes t n)" if "m \<in> set xs"
  proof -
    have "ns_depth (nodes t m) \<in> set (map (\<lambda>m. ns_depth (nodes t m)) ys)" using that ys by simp
    then show ?thesis unfolding d by auto
  qed
qed

section \<open>The invariant\<close>

definition in_ns :: "ptable \<Rightarrow> nat \<Rightarrow> nat \<Rightarrow> bool" where
  "in_ns t p m \<longleftrightarrow> (\<exists>n xs. p_node (procs t p) = Some n \<and> chain (nodes t) n xs \<and> m \<in> set xs)"

definition members :: "nat set \<Rightarrow> ptable \<Rightarrow> nat \<Rightarrow> nat set" where
  "members L t m = {p \<in> L. in_ns t p m}"

definition pid_in :: "ptable \<Rightarrow> nat \<Rightarrow> nat \<Rightarrow> int" where
  "pid_in t p m = namespace_pids (procs t p) ! ns_depth (nodes t m)"

definition ns_member :: "ptable \<Rightarrow> nat \<Rightarrow> bool" where
  "ns_member t p \<longleftrightarrow> p < NPROC \<and> length (namespace_pids (procs t p)) = 8 \<and>
    (\<exists>n<NNMND. p_node (procs t p) = Some n \<and> ns_used t n \<and> ns_depth (nodes t n) < 8)"

text \<open>The invariant, with the namespaces of \<open>E\<close> exempt from having members.\<close>

definition ns_inv_ex :: "nat set \<Rightarrow> nat set \<Rightarrow> ptable \<Rightarrow> bool" where
  "ns_inv_ex E L t \<longleftrightarrow> ns_forest t \<and> (\<forall>p\<in>L. ns_member t p) \<and>
    (\<forall>m<NNMND. ns_used t m \<longrightarrow>
      cnt_proc (nodes t m) = int (card (members L t m)) \<and>
      (\<forall>p\<in>members L t m. pid_in t p m < last_pid (nodes t m)) \<and>
      inj_on (\<lambda>p. pid_in t p m) (members L t m) \<and>
      (0 < ns_depth (nodes t m) \<longrightarrow> m \<notin> E \<longrightarrow> members L t m \<noteq> {}))"

definition ns_inv :: "nat set \<Rightarrow> ptable \<Rightarrow> bool" where
  "ns_inv L t \<longleftrightarrow> ns_inv_ex {} L t"

lemma ns_inv_exD:
  assumes "ns_inv_ex E L t"
  shows "ns_forest t" "p \<in> L \<Longrightarrow> ns_member t p" "finite L"
    "m < NNMND \<Longrightarrow> ns_used t m \<Longrightarrow> cnt_proc (nodes t m) = int (card (members L t m))"
    "m < NNMND \<Longrightarrow> ns_used t m \<Longrightarrow> p \<in> members L t m \<Longrightarrow> pid_in t p m < last_pid (nodes t m)"
    "m < NNMND \<Longrightarrow> ns_used t m \<Longrightarrow> inj_on (\<lambda>p. pid_in t p m) (members L t m)"
    "m < NNMND \<Longrightarrow> ns_used t m \<Longrightarrow> 0 < ns_depth (nodes t m) \<Longrightarrow> m \<notin> E \<Longrightarrow> members L t m \<noteq> {}"
proof -
  have "L \<subseteq> {..<NPROC}" using assms by (auto simp: ns_inv_ex_def ns_member_def)
  then show "finite L" by (rule finite_subset) simp
qed (use assms in \<open>auto simp: ns_inv_ex_def\<close>)

lemma member_chain:
  assumes "ns_inv_ex E L t" "p \<in> L"
  obtains n xs where "n < NNMND" "p_node (procs t p) = Some n" "ns_used t n" "ns_depth (nodes t n) < 8"
    "chain (nodes t) n xs" "\<forall>m. in_ns t p m \<longleftrightarrow> m \<in> set xs"
proof -
  obtain n where n: "n < NNMND" "p_node (procs t p) = Some n" "ns_used t n" "ns_depth (nodes t n) < 8"
    using ns_inv_exD(2)[OF assms] by (auto simp: ns_member_def)
  obtain xs where xs: "chain (nodes t) n xs" using forest_chain[OF ns_inv_exD(1)[OF assms(1)] n(1,3)] by blast
  have "in_ns t p m \<longleftrightarrow> m \<in> set xs" for m
    unfolding in_ns_def n(2) using xs chain_unique[OF xs] by blast
  then show ?thesis using that n xs by blast
qed

lemma finite_members [simp]: "ns_inv_ex E L t \<Longrightarrow> finite (members L t m)"
  using ns_inv_exD(3) by (auto simp: members_def)

section \<open>Entering a process\<close>

definition bump :: "nat list \<Rightarrow> (nat \<Rightarrow> namespace_node) \<Rightarrow> nat \<Rightarrow> namespace_node" where
  "bump xs N m = (if m \<in> set xs then (N m)\<lparr>cnt_proc := cnt_proc (N m) + 1, last_pid := last_pid (N m) + 1\<rparr> else N m)"

definition new_pids :: "(nat \<Rightarrow> namespace_node) \<Rightarrow> nat list \<Rightarrow> int list \<Rightarrow> int list" where
  "new_pids N xs l = fold (\<lambda>m l. l[ns_depth (N m) := last_pid (N m)]) xs l"

lemma bump_simps [simp]:
  "ns_depth (bump xs N m) = ns_depth (N m)" "ns_head (bump xs N m) = ns_head (N m)"
  by (simp_all add: bump_def)

lemma new_pids_length [simp]: "length (new_pids N xs l) = length l"
  unfolding new_pids_def by (induction xs arbitrary: l) simp_all

lemma new_pids_other: "d \<notin> (\<lambda>m. ns_depth (N m)) ` set xs \<Longrightarrow> new_pids N xs l ! d = l ! d"
  unfolding new_pids_def by (induction xs arbitrary: l) auto

lemma new_pids_nth:
  "distinct xs \<Longrightarrow> inj_on (\<lambda>m. ns_depth (N m)) (set xs) \<Longrightarrow> m \<in> set xs \<Longrightarrow> ns_depth (N m) < length l \<Longrightarrow>
    new_pids N xs l ! ns_depth (N m) = last_pid (N m)"
proof (induction xs arbitrary: l)
  case (Cons x xs)
  show ?case
  proof (cases "m = x")
    case True
    have "ns_depth (N x) \<notin> (\<lambda>m. ns_depth (N m)) ` set xs" using Cons.prems(1,2) by (auto simp: inj_on_def)
    then show ?thesis
      using True new_pids_other[of "ns_depth (N x)" N xs "l[ns_depth (N x) := last_pid (N x)]"] Cons.prems(4)
      by (simp add: new_pids_def)
  next
    case False
    then show ?thesis using Cons.IH[of "l[ns_depth (N x) := last_pid (N x)]"] Cons.prems by (simp add: new_pids_def)
  qed
qed simp

lemma chain_same:
  assumes "\<And>m. ns_depth (M m) = ns_depth (N m) \<and> ns_head (M m) = ns_head (N m)"
  shows "chain M = chain N"
proof (intro ext)
  fix n xs show "chain M n xs = chain N n xs" using chain_cong[of N n xs M] chain_cong[of M n xs N] assms by auto
qed

lemma chain_bump [simp]: "chain (bump xs N) = chain N"
  by (rule chain_same) simp

definition entered :: "nat \<Rightarrow> nat list \<Rightarrow> ptable \<Rightarrow> ptable" where
  "entered np xs t = t\<lparr>procs := (procs t)(np := (procs t np)\<lparr>namespace_pids :=
      new_pids (nodes t) xs (namespace_pids (procs t np))\<rparr>), nodes := bump xs (nodes t)\<rparr>"

lemma ns_enter_chain:
  assumes "chain N n xs" "\<forall>m\<in>set xs. nodes t m = N m" "np < NPROC"
    and "\<forall>m\<in>set xs. ns_depth (N m) < length (namespace_pids (procs t np))"
  shows "ns_enter (length xs) np (Some n) t = Ret (t\<lparr>procs := (procs t)(np := (procs t np)\<lparr>namespace_pids :=
      new_pids N xs (namespace_pids (procs t np))\<rparr>), nodes := bump xs (nodes t)\<rparr>)"
  using assms
proof (induction arbitrary: t rule: chain.induct)
  case (chain_root n)
  then show ?case by (cases t) (auto simp: get_ns_def set_proc_def set_ns_def bump_def new_pids_def fun_eq_iff)
next
  case (chain_up n h ys)
  have n: "n \<notin> set ys" using chain_distinct[OF chain.chain_up[OF chain_up(1-4)]] by simp
  define t2 where "t2 = t\<lparr>procs := (procs t)(np :=
      namespace_pids_update (\<lambda>l. l[ns_depth (N n) := last_pid (N n)]) (procs t np)),
    nodes := (nodes t)(n := (N n)\<lparr>cnt_proc := cnt_proc (N n) + 1, last_pid := last_pid (N n) + 1\<rparr>)\<rparr>"
  have "ns_enter (length (n # ys)) np (Some n) t = ns_enter (length ys) np (Some h) t2"
    using chain_up by (simp add: get_ns_def set_proc_def set_ns_def t2_def)
  also have "\<dots> = Ret (t2\<lparr>procs := (procs t2)(np := (procs t2 np)\<lparr>namespace_pids :=
      new_pids N ys (namespace_pids (procs t2 np))\<rparr>), nodes := bump ys (nodes t2)\<rparr>)"
    using chain_up.prems n by (intro chain_up(5)) (auto simp: t2_def)
  also have "bump ys (nodes t2) = bump (n # ys) (nodes t)"
    using n chain_up.prems(1) by (auto simp: bump_def t2_def fun_eq_iff)
  finally show ?case by (simp add: t2_def new_pids_def comp_def cong: if_cong)
qed

lemma ns_enter_ok:
  assumes "ns_forest t" "n < NNMND" "ns_used t n" "ns_depth (nodes t n) < 8" "np < NPROC"
    "length (namespace_pids (procs t np)) = 8" "chain (nodes t) n xs"
  shows "ns_enter (ns_depth (nodes t n) + 1) np (Some n) t = Ret (entered np xs t)"
proof -
  have "length xs = ns_depth (nodes t n) + 1" using forest_chainD(2)[OF assms(1,3,7)] by simp
  moreover have "ns_depth (nodes t m) < 8" if "m \<in> set xs" for m
    using forest_chainD(4)[OF assms(1,3,7) that] assms(4) by simp
  ultimately show ?thesis
    using ns_enter_chain[OF assms(7), of t np] assms(5,6) by (simp add: entered_def)
qed

lemma entered_chain [simp]: "chain (nodes (entered np xs t)) = chain (nodes t)"
  by (simp add: entered_def)

lemma entered_simps [simp]:
  "ns_used (entered np xs t) = ns_used t" "ns_depth (nodes (entered np xs t) m) = ns_depth (nodes t m)"
  "ns_head (nodes (entered np xs t) m) = ns_head (nodes t m)" "p_node (procs (entered np xs t) q) = p_node (procs t q)"
  "length (namespace_pids (procs (entered np xs t) q)) = length (namespace_pids (procs t q))"
  by (simp_all add: entered_def)

text \<open>A process that has been pointed at node \<open>n\<close> and is entered there becomes a member of \<open>n\<close> and of all
  namespaces above, each time with a pid no other member has.\<close>

lemma entered_inv:
  assumes inv: "ns_inv_ex E L t" and E: "E \<subseteq> {n}" and np: "np \<notin> L" "np < NPROC" "length (namespace_pids (procs t np)) = 8"
    and n: "n < NNMND" "ns_used t n" "ns_depth (nodes t n) < 8" "p_node (procs t np) = Some n" and xs: "chain (nodes t) n xs"
  shows "ns_inv (insert np L) (entered np xs t)"
    and "m \<in> set xs \<Longrightarrow> pid_in (entered np xs t) np m = last_pid (nodes t m)"
    and "q \<noteq> np \<Longrightarrow> pid_in (entered np xs t) q m = pid_in t q m"
    and "members (insert np L) (entered np xs t) m = (if m \<in> set xs then insert np (members L t m) else members L t m)"
proof -
  let ?t = "entered np xs t"
  note f = forest_chainD[OF ns_inv_exD(1)[OF inv] n(2) xs]
  have in_ns: "in_ns ?t q m \<longleftrightarrow> in_ns t q m" for q m by (simp add: in_ns_def)
  have np_in: "in_ns t np m \<longleftrightarrow> m \<in> set xs" for m
    unfolding in_ns_def n(4) using xs chain_unique[OF xs] by blast
  show mem: "members (insert np L) ?t m = (if m \<in> set xs then insert np (members L t m) else members L t m)" for m
    by (auto simp: members_def in_ns np_in)
  show pid_np: "pid_in ?t np m = last_pid (nodes t m)" if "m \<in> set xs" for m
    using new_pids_nth[OF chain_distinct[OF xs] f(3) that, of "namespace_pids (procs t np)"] f(4)[OF that] n(3) np(3)
    by (simp add: pid_in_def entered_def)
  show pid_q: "pid_in ?t q m = pid_in t q m" if "q \<noteq> np" for q m
    using that by (simp add: pid_in_def entered_def)
  have forest: "ns_forest ?t" using ns_inv_exD(1)[OF inv] by (simp add: ns_forest_def cong: option.case_cong)
  have mems: "\<forall>p\<in>insert np L. ns_member ?t p" using ns_inv_exD(2)[OF inv] np n by (auto simp: ns_member_def)
  have out: "np \<notin> members L t m" for m using np(1) by (simp add: members_def)
  have node: "cnt_proc (nodes ?t m) = int (card (members (insert np L) ?t m)) \<and>
      (\<forall>p\<in>members (insert np L) ?t m. pid_in ?t p m < last_pid (nodes ?t m)) \<and>
      inj_on (\<lambda>p. pid_in ?t p m) (members (insert np L) ?t m) \<and>
      (0 < ns_depth (nodes ?t m) \<longrightarrow> members (insert np L) ?t m \<noteq> {})" if m: "m < NNMND" "ns_used t m" for m
  proof (cases "m \<in> set xs")
    case True
    have lt: "pid_in ?t p m < last_pid (nodes t m)" if "p \<in> members L t m" for p
      using ns_inv_exD(5)[OF inv m that] pid_q[of p m] that out[of m] by metis
    have "inj_on (\<lambda>p. pid_in ?t p m) (members L t m)"
      using ns_inv_exD(6)[OF inv m] pid_q out[of m] by (metis (mono_tags, lifting) inj_on_cong)
    then have "inj_on (\<lambda>p. pid_in ?t p m) (insert np (members L t m))"
      using lt pid_np[OF True] out[of m] by (fastforce simp: inj_on_insert)
    moreover have "cnt_proc (nodes ?t m) = cnt_proc (nodes t m) + 1" "last_pid (nodes ?t m) = last_pid (nodes t m) + 1"
      using True by (simp_all add: entered_def bump_def)
    ultimately show ?thesis
      using True out[of m] lt pid_np[OF True] ns_inv_exD(4)[OF inv m] finite_members[OF inv, of m]
      by (fastforce simp: mem)
  next
    case False
    then have "nodes ?t m = nodes t m" "m \<notin> E" using E chain_hd[OF xs] by (auto simp: entered_def bump_def)
    moreover have "inj_on (\<lambda>p. pid_in ?t p m) (members L t m)"
      using ns_inv_exD(6)[OF inv m] pid_q out[of m] by (metis (mono_tags, lifting) inj_on_cong)
    moreover have "pid_in ?t p m < last_pid (nodes t m)" if "p \<in> members L t m" for p
      using ns_inv_exD(5)[OF inv m that] pid_q[of p m] that out[of m] by metis
    ultimately show ?thesis using False ns_inv_exD(4,7)[OF inv m] by (simp add: mem)
  qed
  show "ns_inv (insert np L) ?t"
    unfolding ns_inv_def ns_inv_ex_def using forest mems node by simp
qed

section \<open>Entries that are not in use\<close>

text \<open>
  Neither a freed node nor a freed process entry is reset, so the code also follows the pointers of
  entries that are not in use. They stay safe to follow: every node of the array starts a chain that
  ends, and a process entry that never had a namespace has no pids either.
\<close>

definition entry_ok :: "proc \<Rightarrow> bool" where
  "entry_ok p \<longleftrightarrow> length (namespace_pids p) = 8 \<and> (p_node p = None \<longrightarrow> (\<forall>d<8. namespace_pids p ! d = 0)) \<and>
    (\<forall>n. p_node p = Some n \<longrightarrow> n < NNMND)"

definition grounded :: "ptable \<Rightarrow> nat \<Rightarrow> bool" where
  "grounded t n \<longleftrightarrow> (\<exists>xs. chain (nodes t) n xs)"

definition ns_table :: "ptable \<Rightarrow> bool" where
  "ns_table t \<longleftrightarrow> (\<forall>n<NNMND. grounded t n) \<and> (\<forall>i<NPROC. entry_ok (procs t i))"

lemma chain_redirect:
  assumes "chain N n ys" "chain M x xs" "\<And>m. m \<noteq> x \<Longrightarrow> M m = N m"
  shows "\<exists>zs. chain M n zs"
  using assms(1)
proof (induction rule: chain.induct)
  case (chain_root n)
  then show ?case using assms(2) assms(3)[of n] chain.chain_root[of n M] by (cases "n = x") auto
next
  case (chain_up n h ys)
  then show ?case
  proof (cases "n = x")
    case False
    then show ?thesis using chain_up assms(3)[OF False] by (metis chain.chain_up)
  qed (use assms(2) in blast)
qed

lemma ns_table_entered:
  assumes "ns_table t" "np < NPROC" "p_node (procs t np) = Some n"
  shows "ns_table (entered np xs t)"
  using assms unfolding ns_table_def grounded_def by (auto simp: entered_def entry_ok_def)

section \<open>\<open>fork\<close>\<close>

lemma inv_cong:
  assumes "ns_inv_ex E L t" "nodes t' = nodes t" "ns_used t' = ns_used t" "\<And>p. p \<in> L \<Longrightarrow> procs t' p = procs t p"
  shows "ns_inv_ex E L t'"
proof -
  have "members L t' m = members L t m" for m using assms(2,4) by (auto simp: members_def in_ns_def)
  moreover have "pid_in t' p m = pid_in t p m" if "p \<in> L" for p m using assms(2,4) that by (simp add: pid_in_def)
  moreover have "members L t m \<subseteq> L" for m by (auto simp: members_def)
  moreover have "ns_forest t'" using assms(1-3) by (simp add: ns_inv_ex_def ns_forest_def cong: option.case_cong)
  ultimately show ?thesis
    using assms unfolding ns_inv_ex_def ns_member_def inj_on_def by (simp add: subset_iff)
qed

lemma fork_ns_ok:
  assumes "ns_inv L t" "p \<in> L" "np \<notin> L" "np < NPROC" "length (namespace_pids (procs t np)) = 8"
  obtains t' where "fork_ns (Some p) np t = Ret t'" "ns_inv (insert np L) t'" "p_node (procs t' np) = p_node (procs t p)"
    "\<And>m. in_ns t p m \<Longrightarrow> pid_in t' np m = last_pid (nodes t m)"
    "\<And>m. members (insert np L) t' m = (if in_ns t p m then insert np (members L t m) else members L t m)"
    "\<And>q m. q \<noteq> np \<Longrightarrow> pid_in t' q m = pid_in t q m" "ns_table t \<Longrightarrow> ns_table t'"
proof -
  note inv = assms(1)[unfolded ns_inv_def]
  obtain n xs where n: "n < NNMND" "p_node (procs t p) = Some n" "ns_used t n" "ns_depth (nodes t n) < 8"
      "chain (nodes t) n xs" "\<forall>m. in_ns t p m \<longleftrightarrow> m \<in> set xs"
    by (rule member_chain[OF inv assms(2)])
  define t1 where "t1 = t\<lparr>procs := (procs t)(np := (procs t np)\<lparr>p_node := Some n\<rparr>)\<rparr>"
  have p: "p < NPROC" using ns_inv_exD(2)[OF inv assms(2)] by (simp add: ns_member_def)
  have inv1: "ns_inv_ex {} L t1" using assms(3) by (intro inv_cong[OF inv]) (auto simp: t1_def)
  have t1: "nodes t1 = nodes t" "ns_used t1 = ns_used t" "length (namespace_pids (procs t1 np)) = 8"
      "p_node (procs t1 np) = Some n" "\<And>q m. pid_in t1 q m = pid_in t q m" "members L t1 = members L t"
    using assms(3,5) by (auto simp: t1_def pid_in_def members_def in_ns_def fun_eq_iff)
  have "fork_ns (Some p) np t = ns_enter (ns_depth (nodes t1 n) + 1) np (Some n) t1"
    using p n(1,2) assms(4) by (simp add: fork_ns_def get_proc_def set_proc_def get_ns_def t1_def)
  also have "\<dots> = Ret (entered np xs t1)"
    using n t1 assms(4) ns_inv_exD(1)[OF inv1] by (intro ns_enter_ok) simp_all
  finally have r: "fork_ns (Some p) np t = Ret (entered np xs t1)" .
  note e = entered_inv[OF inv1 _ assms(3,4) t1(3) n(1)]
  show ?thesis
  proof (rule that[OF r])
    show "ns_inv (insert np L) (entered np xs t1)" using e(1) n t1 by simp
    show "p_node (procs (entered np xs t1) np) = p_node (procs t p)" using t1(4) n(2) by simp
    show "pid_in (entered np xs t1) np m = last_pid (nodes t m)" if "in_ns t p m" for m
      using e(2)[of xs m] that n t1 by simp
    show "members (insert np L) (entered np xs t1) m = (if in_ns t p m then insert np (members L t m) else members L t m)" for m
      using e(4)[of xs m] n t1 by simp
    show "pid_in (entered np xs t1) q m = pid_in t q m" if "q \<noteq> np" for q m
      using e(3)[of xs q m] that n t1 by simp
    show "ns_table (entered np xs t1)" if "ns_table t"
    proof (rule ns_table_entered[OF _ assms(4) t1(4)])
      show "ns_table t1" using that n(1) unfolding ns_table_def grounded_def by (auto simp: t1_def entry_ok_def)
    qed
  qed
qed

section \<open>\<open>clone\<close>\<close>

lemma namespace_malloc_loop_cases:
  "(\<exists>x\<in>set is. \<not> ns_used t x \<and> namespace_malloc_loop is t = (Some x, t\<lparr>ns_used := (ns_used t)(x := True)\<rparr>))
    \<or> (\<forall>x\<in>set is. ns_used t x) \<and> namespace_malloc_loop is t = (None, t)"
proof (induction "is")
  case (Cons i "is")
  show ?case
  proof (cases "ns_used t i")
    case True
    then show ?thesis using Cons by simp
  next
    case False
    have "namespace_malloc_loop (i # is) t = (Some i, t\<lparr>ns_used := (ns_used t)(i := True)\<rparr>)"
      by (simp only: namespace_malloc_loop.simps False if_True not_False_eq_True)
    then show ?thesis by (intro disjI1 bexI[of _ i] conjI False list.set_intros(1))
  qed
qed simp

lemma namespace_malloc_some:
  assumes "n < NNMND" "\<not> ns_used t n"
  obtains x where "x < NNMND" "\<not> ns_used t x" "namespace_malloc t = (Some x, t\<lparr>ns_used := (ns_used t)(x := True)\<rparr>)"
proof -
  have "n \<in> set [0..<64]" using assms(1) by (simp del: upt_rec_numeral)
  then show ?thesis
    using namespace_malloc_loop_cases[of "[0..<64]" t] assms(2) that unfolding namespace_malloc_def
    by (auto simp del: upt_rec_numeral)
qed

lemma namespace_malloc_none: "(\<And>n. n < NNMND \<Longrightarrow> ns_used t n) \<Longrightarrow> namespace_malloc t = (None, t)"
  using namespace_malloc_loop_cases[of "[0..<64]" t] unfolding namespace_malloc_def by (auto simp del: upt_rec_numeral)

lemma chain_fresh:
  assumes "ns_forest t" "ns_used t n" "\<not> ns_used t x" "n < NNMND" "\<And>m. m \<noteq> x \<Longrightarrow> N m = nodes t m"
  shows "chain N n xs \<longleftrightarrow> chain (nodes t) n xs"
proof -
  obtain ys where ys: "chain (nodes t) n ys" "\<forall>m\<in>set ys. ns_used t m" using forest_chain[OF assms(1,4,2)] by blast
  then have "x \<notin> set ys" using assms(3) by blast
  then have "chain N n ys" using assms(5) by (intro chain_cong[OF ys(1)]) (metis)
  then show ?thesis using ys(1) chain_unique by metis
qed

lemma clone_ns_ok:
  assumes "ns_inv L t" "p \<in> L" "np \<notin> L" "np < NPROC" "length (namespace_pids (procs t np)) = 8"
    and "k < NNMND" "\<not> ns_used t k" and "\<And>n. p_node (procs t p) = Some n \<Longrightarrow> ns_depth (nodes t n) < 7"
  obtains t' x where "clone_ns (Some p) np t = Ret t'" "ns_inv (insert np L) t'" "\<not> ns_used t x"
    "p_node (procs t' np) = Some x" "ns_head (nodes t' x) = p_node (procs t p)" "ns_init (nodes t' x) = Some np"
    "members (insert np L) t' x = {np}" "pid_in t' np x = 1"
    "\<And>m. in_ns t p m \<Longrightarrow> pid_in t' np m = last_pid (nodes t m)"
    "\<And>m. m \<noteq> x \<Longrightarrow> members (insert np L) t' m = (if in_ns t p m then insert np (members L t m) else members L t m)"
    "ns_table t \<Longrightarrow> ns_table t'" "ns_used t' = (ns_used t)(x := True)" "x < NNMND"
    "\<And>n. p_node (procs t p) = Some n \<Longrightarrow> ns_depth (nodes t' x) = Suc (ns_depth (nodes t n))"
proof -
  note inv = assms(1)[unfolded ns_inv_def]
  obtain n xs where n: "n < NNMND" "p_node (procs t p) = Some n" "ns_used t n" "ns_depth (nodes t n) < 8"
      "chain (nodes t) n xs" "\<forall>m. in_ns t p m \<longleftrightarrow> m \<in> set xs"
    by (rule member_chain[OF inv assms(2)])
  obtain x where x: "x < NNMND" "\<not> ns_used t x" "namespace_malloc t = (Some x, t\<lparr>ns_used := (ns_used t)(x := True)\<rparr>)"
    by (rule namespace_malloc_some[OF assms(6,7)])
  have p: "p < NPROC" "p \<noteq> np" using ns_inv_exD(2)[OF inv assms(2)] assms(2,3) by (auto simp: ns_member_def)
  have xn: "x \<noteq> n" "x \<notin> set xs" using x(2) n(3) forest_chainD(1)[OF ns_inv_exD(1)[OF inv] n(3,5)] by auto
  define node where "node = (nodes t x)\<lparr>cnt_proc := 0, last_pid := 1, ns_init := Some np, ns_head := Some n,
    ns_depth := ns_depth (nodes t n) + 1\<rparr>"
  define t1 where "t1 = t\<lparr>ns_used := (ns_used t)(x := True), procs := (procs t)(np := (procs t np)\<lparr>p_node := Some x\<rparr>),
    nodes := (nodes t)(x := node)\<rparr>"
  have other: "nodes t1 m = nodes t m" if "m \<noteq> x" for m using that by (simp add: t1_def)
  have ch: "chain (nodes t1) m ys \<longleftrightarrow> chain (nodes t) m ys" if "m < NNMND" "ns_used t m" for m ys
    using chain_fresh[OF ns_inv_exD(1)[OF inv] that(2) x(2) that(1)] other by blast
  have chx: "chain (nodes t1) x (x # xs)"
    using ch[OF n(1,3)] n(5) x(1) by (intro chain.chain_up[of x _ n]) (auto simp: t1_def node_def)
  have inL: "in_ns t1 q m \<longleftrightarrow> in_ns t q m" if q: "q \<in> L" for q m
  proof -
    obtain k where "k < NNMND" "p_node (procs t q) = Some k" "ns_used t k" by (rule member_chain[OF inv q])
    moreover have "procs t1 q = procs t q" using q assms(3) by (auto simp: t1_def)
    ultimately show ?thesis using ch by (simp add: in_ns_def)
  qed
  have mem: "members L t1 m = members L t m" for m using inL by (auto simp: members_def)
  have memx: "members L t x = {}"
  proof -
    have "\<not> in_ns t q x" if q: "q \<in> L" for q
      using member_chain[OF inv q] forest_chainD(1)[OF ns_inv_exD(1)[OF inv]] x(2) by metis
    then show ?thesis by (auto simp: members_def)
  qed
  have pid: "pid_in t1 q m = pid_in t q m" if "q \<in> L" "m \<noteq> x" for q m
    using that assms(3) other by (auto simp: pid_in_def t1_def)
  have nm: "ns_member t1 q" if q: "q \<in> L" for q
    using ns_inv_exD(2)[OF inv q] q assms(3) x(2) other by (fastforce simp: ns_member_def t1_def)
  have forest: "ns_forest t1"
    unfolding ns_forest_def
  proof (intro allI impI)
    fix m assume m: "m < NNMND" "ns_used t1 m"
    show "case ns_head (nodes t1 m) of None \<Rightarrow> ns_depth (nodes t1 m) = 0
      | Some h \<Rightarrow> h < NNMND \<and> ns_used t1 h \<and> ns_depth (nodes t1 m) = Suc (ns_depth (nodes t1 h))"
    proof (cases "m = x")
      case True
      then show ?thesis using n(1,3) xn(1) by (simp add: t1_def node_def)
    next
      case False
      then have u: "ns_used t m" using m(2) by (simp add: t1_def)
      then show ?thesis
        using ns_inv_exD(1)[OF inv] m(1) x(2) unfolding ns_forest_def other[OF False]
        by (cases "ns_head (nodes t m)") (auto simp: t1_def)
    qed
  qed
  have inv1: "ns_inv_ex {x} L t1"
    unfolding ns_inv_ex_def
  proof (intro conjI ballI allI impI forest nm)
    fix m assume m: "m < NNMND" "ns_used t1 m"
    have u: "ns_used t m" if "m \<noteq> x" using m(2) that by (simp add: t1_def)
    show "cnt_proc (nodes t1 m) = int (card (members L t1 m))"
    proof (cases "m = x")
      case True
      then show ?thesis unfolding mem using memx by (simp add: t1_def node_def)
    next
      case False
      then show ?thesis using ns_inv_exD(4)[OF inv m(1) u] unfolding mem by (simp add: other)
    qed
    show "pid_in t1 q m < last_pid (nodes t1 m)" if "q \<in> members L t1 m" for q
      using that ns_inv_exD(5)[OF inv m(1) u] memx pid[of q m] unfolding mem
      by (cases "m = x") (auto simp: other members_def)
    show "inj_on (\<lambda>q. pid_in t1 q m) (members L t1 m)"
      using ns_inv_exD(6)[OF inv m(1) u] memx pid unfolding mem
      by (cases "m = x") (auto simp: inj_on_def members_def)
    show "members L t1 m \<noteq> {}" if "0 < ns_depth (nodes t1 m)" "m \<notin> {x}"
      using ns_inv_exD(7)[OF inv m(1) u] that unfolding mem by (simp add: other)
  qed
  have l8: "length (namespace_pids (procs t1 np)) = 8" "p_node (procs t1 np) = Some x" "ns_used t1 x" "ns_depth (nodes t1 x) < 8"
    using assms(5,8) n(2) by (simp_all add: t1_def node_def)
  have "clone_ns (Some p) np t = ns_enter (ns_depth (nodes t1 x) + 1) np (Some x) t1"
    using p n(1,2) x(1,3) assms(4) xn(1)
    by (simp add: clone_ns_def get_proc_def set_proc_def get_ns_def set_ns_def t1_def node_def del: ns_enter.simps)
  also have "\<dots> = Ret (entered np (x # xs) t1)"
    using l8 x(1) assms(4) chx by (intro ns_enter_ok[OF forest]) simp_all
  finally have r: "clone_ns (Some p) np t = Ret (entered np (x # xs) t1)" .
  note e = entered_inv[OF inv1 _ assms(3,4) l8(1) x(1) l8(3,4,2) chx]
  show ?thesis
  proof (rule that[OF r _ x(2)])
    show "ns_inv (insert np L) (entered np (x # xs) t1)" by (rule e(1)) simp
    show "members (insert np L) (entered np (x # xs) t1) x = {np}" using e(4)[of x] memx by (simp add: mem)
    show "pid_in (entered np (x # xs) t1) np x = 1" using e(2)[of x] by (simp add: t1_def node_def)
    show "pid_in (entered np (x # xs) t1) np m = last_pid (nodes t m)" if "in_ns t p m" for m
      using e(2)[of m] that n(6) xn(2) other by (metis list.set_intros(2) order_refl)
    show "members (insert np L) (entered np (x # xs) t1) m = (if in_ns t p m then insert np (members L t m) else members L t m)"
      if "m \<noteq> x" for m using e(4)[of m] that n(6) by (simp add: mem)
    show "ns_table (entered np (x # xs) t1)" if tab: "ns_table t"
    proof (rule ns_table_entered[OF _ assms(4) l8(2)])
      have "grounded t1 m" if "m < NNMND" for m
        using tab that chain_redirect[OF _ chx other] unfolding ns_table_def grounded_def by blast
      moreover have "entry_ok (procs t1 i)" if "i < NPROC" for i
        using tab that x(1) unfolding ns_table_def by (auto simp: t1_def entry_ok_def)
      ultimately show "ns_table t1" unfolding ns_table_def by blast
    qed
  qed (use l8 n(2) x(1) in \<open>simp_all add: t1_def node_def entered_def bump_def\<close>)
qed

end
