(* ===== verification/Proc_Namespace_Exit.thy ===== *)
theory Proc_Namespace_Exit
  imports Proc_Namespace
begin

text \<open>
  Leaving: \<open>exit\<close> takes a process out of its namespaces and \<open>clean_node\<close> gives back the nodes of the
  namespaces that have become empty, from the innermost one up.
\<close>

definition unbump :: "nat list \<Rightarrow> (nat \<Rightarrow> namespace_node) \<Rightarrow> nat \<Rightarrow> namespace_node" where
  "unbump xs N m = (if m \<in> set xs then (N m)\<lparr>cnt_proc := cnt_proc (N m) - 1\<rparr> else N m)"

lemma unbump_simps [simp]:
  "ns_depth (unbump xs N m) = ns_depth (N m)" "ns_head (unbump xs N m) = ns_head (N m)"
  "last_pid (unbump xs N m) = last_pid (N m)" "ns_init (unbump xs N m) = ns_init (N m)"
  by (simp_all add: unbump_def)

lemma chain_unbump [simp]: "chain (unbump xs N) = chain N"
  by (rule chain_same) simp

lemma ns_leave_chain:
  assumes "chain N n xs" "\<forall>m\<in>set xs. nodes t m = N m"
  shows "ns_leave (length xs) (Some n) t = Ret (t\<lparr>nodes := unbump xs (nodes t)\<rparr>)"
  using assms
proof (induction arbitrary: t rule: chain.induct)
  case (chain_root n)
  then show ?case by (cases t) (auto simp: set_ns_def get_ns_def unbump_def fun_eq_iff)
next
  case (chain_up n h ys)
  have n: "n \<notin> set ys" using chain_distinct[OF chain.chain_up[OF chain_up(1-4)]] by simp
  define t1 where "t1 = t\<lparr>nodes := (nodes t)(n := (N n)\<lparr>cnt_proc := cnt_proc (N n) - 1\<rparr>)\<rparr>"
  have "ns_leave (length (n # ys)) (Some n) t = ns_leave (length ys) (Some h) t1"
    using chain_up by (simp add: set_ns_def get_ns_def t1_def)
  also have "\<dots> = Ret (t1\<lparr>nodes := unbump ys (nodes t1)\<rparr>)"
    using chain_up.prems n by (intro chain_up(5)) (auto simp: t1_def)
  also have "unbump ys (nodes t1) = unbump (n # ys) (nodes t)"
    using n chain_up.prems(1) by (auto simp: unbump_def t1_def fun_eq_iff)
  finally show ?case by (simp add: t1_def)
qed

lemma namespace_free_fold:
  "fold (\<lambda>i t. if Some i = Some n then t\<lparr>ns_used := (ns_used t)(i := False)\<rparr> else t) is t
    = (if n \<in> set is then t\<lparr>ns_used := (ns_used t)(n := False)\<rparr> else t)"
  by (induction "is" arbitrary: t) auto

lemma namespace_free_used: "n < NNMND \<Longrightarrow> namespace_free (Some n) t = t\<lparr>ns_used := (ns_used t)(n := False)\<rparr>"
  unfolding namespace_free_def namespace_free_fold by (simp del: upt_rec_numeral)

definition dropped :: "nat set \<Rightarrow> ptable \<Rightarrow> ptable" where
  "dropped D t = t\<lparr>ns_used := (\<lambda>m. ns_used t m \<and> m \<notin> D)\<rparr>"

lemma clean_node_loop_chain:
  assumes "chain N n xs" "nodes t = N" "length xs \<le> fuel"
  shows "clean_node_loop fuel (Some n) t
    = Ret (dropped (set (takeWhile (\<lambda>m. ns_depth (N m) \<noteq> 0 \<and> cnt_proc (N m) = 0) xs)) t)"
  using assms
proof (induction arbitrary: t fuel rule: chain.induct)
  case (chain_root n)
  then show ?case by (cases fuel) (simp_all add: get_ns_def dropped_def)
next
  case (chain_up n h ys)
  let ?P = "\<lambda>m. ns_depth (N m) \<noteq> 0 \<and> cnt_proc (N m) = 0"
  obtain f where f: "fuel = Suc f" "length ys \<le> f" using chain_up.prems(2) by (cases fuel) auto
  show ?case
  proof (cases "cnt_proc (N n) = 0")
    case True
    let ?t1 = "t\<lparr>ns_used := (ns_used t)(n := False)\<rparr>"
    have "clean_node_loop fuel (Some n) t = clean_node_loop f (Some h) ?t1"
      using chain_up True by (simp add: f(1) get_ns_def namespace_free_used)
    also have "\<dots> = Ret (dropped (set (takeWhile ?P ys)) ?t1)"
      using chain_up.prems(1) f(2) by (intro chain_up(5)) simp_all
    also have "dropped (set (takeWhile ?P ys)) ?t1 = dropped (set (takeWhile ?P (n # ys))) t"
    proof -
      have "(\<lambda>m. ((ns_used t)(n := False)) m \<and> m \<notin> A) = (\<lambda>m. ns_used t m \<and> m \<notin> insert n A)" for A
        by (auto simp: fun_eq_iff)
      then show ?thesis using True chain_up(2) by (simp add: dropped_def)
    qed
    finally show ?thesis .
  next
    case False
    then show ?thesis using chain_up by (simp add: f(1) get_ns_def dropped_def)
  qed
qed

section \<open>Members along a chain\<close>

lemma in_ns_up:
  assumes "in_ns t q m" "chain (nodes t) m ys" "k \<in> set ys"
  shows "in_ns t q k"
proof -
  obtain n xs where n: "p_node (procs t q) = Some n" "chain (nodes t) n xs" "m \<in> set xs"
    using assms(1) by (auto simp: in_ns_def)
  have "k \<in> set xs" using n(2,3)
  proof (induction rule: chain.induct)
    case (chain_root n)
    then have "ys = [n]" using assms(2) chain_unique[OF chain.chain_root[where N = "nodes t", OF chain_root(1,2)]] by simp
    then show ?case using assms(3) by simp
  next
    case (chain_up n h zs)
    show ?case
    proof (cases "m = n")
      case True
      then have "ys = n # zs" using chain_unique[OF chain.chain_up[OF chain_up(1-4)]] assms(2) by simp
      then show ?thesis using assms(3) by simp
    qed (use chain_up in simp)
  qed
  then show ?thesis using n by (auto simp: in_ns_def)
qed

lemma chain_append: "chain N n xs \<Longrightarrow> xs = as @ x # bs \<Longrightarrow> chain N x (x # bs)"
proof (induction arbitrary: as rule: chain.induct)
  case (chain_root n)
  then show ?case by (auto simp: Cons_eq_append_conv intro: chain.chain_root)
next
  case (chain_up n h ys)
  then show ?case using chain.chain_up[OF chain_up(1-4)] by (cases as) auto
qed

lemma members_up:
  assumes "chain (nodes t) m ys" "k \<in> set ys"
  shows "members L t m \<subseteq> members L t k"
  using in_ns_up[OF _ assms] by (auto simp: members_def)

text \<open>The namespaces \<open>clean_node\<close> frees are those of the chain that are empty and not a root: emptiness
  spreads downwards, so the first one that is kept ends the run.\<close>

lemma freed_iff:
  assumes "chain (nodes t) n xs" "m \<in> set xs" "\<And>k. k \<in> set xs \<Longrightarrow> c k = int (card (members M t k))" "finite M"
  shows "m \<in> set (takeWhile (\<lambda>m. ns_depth (nodes t m) \<noteq> 0 \<and> c m = 0) xs)
    \<longleftrightarrow> ns_depth (nodes t m) \<noteq> 0 \<and> members M t m = {}"
proof -
  define P where "P = (\<lambda>m. ns_depth (nodes t m) \<noteq> 0 \<and> c m = 0)"
  have fin: "finite (members M t k)" for k using assms(4) by (simp add: members_def)
  have "ns_depth (nodes t m) \<noteq> 0 \<and> members M t m = {}" if "m \<in> set (takeWhile P xs)"
    using set_takeWhileD[OF that] assms(3)[OF assms(2)] fin[of m] by (simp add: P_def)
  moreover have "m \<in> set (takeWhile P xs)" if m: "ns_depth (nodes t m) \<noteq> 0" "members M t m = {}"
  proof (rule ccontr)
    assume out: "m \<notin> set (takeWhile P xs)"
    then have md: "m \<in> set (dropWhile P xs)" using assms(2) by (metis Un_iff set_append takeWhile_dropWhile_id)
    then obtain x bs where x: "dropWhile P xs = x # bs" by (cases "dropWhile P xs") simp_all
    have ch: "chain (nodes t) x (x # bs)"
      using chain_append[OF assms(1), of "takeWhile P xs" x bs] takeWhile_dropWhile_id[of P xs] x by simp
    have nP: "\<not> P x" using hd_dropWhile[of P xs] x by simp
    have xs: "x \<in> set xs" using set_dropWhileD[of x P xs] x by simp
    have "members M t x \<subseteq> members M t m" using members_up[OF ch] md x by simp
    then have "c x = 0" using m(2) assms(3)[OF xs] by simp
    then have d: "ns_depth (nodes t x) = 0" using nP by (simp add: P_def)
    then have "bs = []" using ch by (auto elim: chain.cases)
    then show False using md x m(1) d by simp
  qed
  ultimately show ?thesis unfolding P_def by blast
qed

lemma exit_ns_ok:
  assumes "ns_inv L t" "p \<in> L"
  obtains t' where "exit_ns (Some p) t = Ret t'" "ns_inv (L - {p}) t'" "procs t' = procs t"
    "\<And>m. m < NNMND \<Longrightarrow> ns_used t' m \<longleftrightarrow> ns_used t m \<and> (ns_depth (nodes t m) = 0 \<or> members (L - {p}) t m \<noteq> {})"
    "\<And>m. members (L - {p}) t' m = members L t m - {p}" "ns_table t \<Longrightarrow> ns_table t'"
proof -
  note inv = assms(1)[unfolded ns_inv_def]
  note forest = ns_inv_exD(1)[OF inv]
  obtain n xs where n: "n < NNMND" "p_node (procs t p) = Some n" "ns_used t n" "ns_depth (nodes t n) < 8"
      "chain (nodes t) n xs" "\<forall>m. in_ns t p m \<longleftrightarrow> m \<in> set xs"
    by (rule member_chain[OF inv assms(2)])
  have p: "p < NPROC" using ns_inv_exD(2)[OF inv assms(2)] by (simp add: ns_member_def)
  define t1 where "t1 = t\<lparr>nodes := unbump xs (nodes t)\<rparr>"
  define D where "D = set (takeWhile (\<lambda>m. ns_depth (nodes t1 m) \<noteq> 0 \<and> cnt_proc (nodes t1 m) = 0) xs)"
  define t' where "t' = dropped D t1"
  have in_ns: "in_ns t' q m \<longleftrightarrow> in_ns t q m" for q m by (simp add: t'_def dropped_def t1_def in_ns_def)
  have mem: "members (L - {p}) t' m = members L t m - {p}" "members (L - {p}) t m = members L t m - {p}" for m
    by (auto simp: members_def in_ns)
  have pid: "pid_in t' q m = pid_in t q m" for q m by (simp add: t'_def dropped_def t1_def pid_in_def)
  have node: "nodes t' m = unbump xs (nodes t) m" for m by (simp add: t'_def dropped_def t1_def)
  have cnt: "cnt_proc (nodes t1 m) = int (card (members L t m - {p}))" if "m < NNMND" "ns_used t m" for m
  proof -
    have "p \<in> members L t m \<longleftrightarrow> m \<in> set xs" using n(6) assms(2) by (simp add: members_def)
    then show ?thesis
      using ns_inv_exD(4)[OF inv that] finite_members[OF inv, of m] card_gt_0_iff[of "members L t m"]
      by (auto simp: t1_def unbump_def card_Diff_singleton)
  qed
  have xs_used: "m < NNMND" "ns_used t m" if "m \<in> set xs" for m
    using that chain_bound[OF n(5)] forest_chainD(1)[OF forest n(3,5)] by auto
  have D: "m \<in> D \<longleftrightarrow> ns_depth (nodes t m) \<noteq> 0 \<and> members L t m - {p} = {}" if m: "m < NNMND" "ns_used t m" for m
  proof (cases "m \<in> set xs")
    case True
    have "D = set (takeWhile (\<lambda>m. ns_depth (nodes t m) \<noteq> 0 \<and> cnt_proc (nodes t1 m) = 0) xs)"
      by (simp add: D_def t1_def)
    then show ?thesis
      using freed_iff[OF n(5) True, of "\<lambda>m. cnt_proc (nodes t1 m)" "L - {p}"] cnt xs_used ns_inv_exD(3)[OF inv]
      by (simp add: mem(2))
  next
    case False
    then have "m \<notin> D" using set_takeWhileD[of m _ xs] by (auto simp: D_def)
    moreover have "p \<notin> members L t m" using False n(6) by (simp add: members_def)
    ultimately show ?thesis using ns_inv_exD(7)[OF inv m] by auto
  qed
  have used: "ns_used t' m \<longleftrightarrow> ns_used t m \<and> m \<notin> D" for m by (simp add: t'_def dropped_def t1_def)
  have "exit_ns (Some p) t = bind_res (ns_leave (length xs) (Some n) t) (clean_node (Some n))"
    using p n(1,2) forest_chainD(2)[OF forest n(3,5)] by (simp add: exit_ns_def get_proc_def get_ns_def del: ns_leave.simps)
  also have "\<dots> = clean_node (Some n) t1" using ns_leave_chain[OF n(5), of t] by (simp add: t1_def)
  also have "\<dots> = Ret t'"
    unfolding clean_node_def t'_def D_def
    using n(5) chain_length[OF n(5)] by (intro clean_node_loop_chain) (simp_all add: t1_def)
  finally have r: "exit_ns (Some p) t = Ret t'" .
  have "ns_forest t'"
    unfolding ns_forest_def node unbump_simps
  proof (intro allI impI)
    fix m assume m: "m < NNMND" "ns_used t' m"
    then have mu: "ns_used t m" "m \<notin> D" using used by auto
    show "case ns_head (nodes t m) of None \<Rightarrow> ns_depth (nodes t m) = 0
      | Some h \<Rightarrow> h < NNMND \<and> ns_used t' h \<and> ns_depth (nodes t m) = Suc (ns_depth (nodes t h))"
    proof (cases "ns_head (nodes t m)")
      case None
      then show ?thesis using forest m(1) mu(1) by (auto simp: ns_forest_def)
    next
      case (Some h)
      then have h: "h < NNMND" "ns_used t h" "ns_depth (nodes t m) = Suc (ns_depth (nodes t h))"
        using forest m(1) mu(1) by (auto simp: ns_forest_def)
      obtain ys where ys: "chain (nodes t) h ys" using forest_chain[OF forest h(1,2)] by blast
      have "chain (nodes t) m (m # ys)" using chain.chain_up[OF m(1) _ Some ys] h(3) by simp
      moreover have "h \<in> set (m # ys)" using chain_hd[OF ys] by auto
      ultimately have "members L t m \<subseteq> members L t h" by (rule members_up)
      then have "h \<notin> D" using D[OF m(1) mu(1)] D[OF h(1,2)] mu(2) h(3) by auto
      then show ?thesis using Some h used by simp
    qed
  qed
  moreover have "ns_member t' q" if q: "q \<in> L - {p}" for q
  proof -
    obtain k ys where k: "k < NNMND" "p_node (procs t q) = Some k" "ns_used t k" "ns_depth (nodes t k) < 8"
        "chain (nodes t) k ys" "\<forall>m. in_ns t q m \<longleftrightarrow> m \<in> set ys"
      by (rule member_chain[OF inv DiffD1[OF q]])
    have "k \<in> set ys" using chain_hd[OF k(5)] by auto
    then have "in_ns t q k" using k(6) by blast
    then have "q \<in> members L t k - {p}" using q by (simp add: members_def)
    then have "k \<notin> D" using D[OF k(1,3)] by blast
    moreover have "procs t' = procs t" by (simp add: t'_def dropped_def t1_def)
    ultimately show ?thesis
      using ns_inv_exD(2)[OF inv DiffD1[OF q]] k(1-4) used unfolding ns_member_def by (auto simp: node)
  qed
  moreover have "cnt_proc (nodes t' m) = int (card (members (L - {p}) t' m)) \<and>
      (\<forall>q\<in>members (L - {p}) t' m. pid_in t' q m < last_pid (nodes t' m)) \<and>
      inj_on (\<lambda>q. pid_in t' q m) (members (L - {p}) t' m) \<and>
      (0 < ns_depth (nodes t' m) \<longrightarrow> m \<notin> {} \<longrightarrow> members (L - {p}) t' m \<noteq> {})" if m: "m < NNMND" "ns_used t' m" for m
  proof -
    have u: "ns_used t m" "m \<notin> D" using m(2) used by auto
    have "nodes t' m = nodes t1 m" by (simp add: t'_def dropped_def)
    then have "cnt_proc (nodes t' m) = int (card (members L t m - {p}))" using cnt[OF m(1) u(1)] by simp
    moreover have "inj_on (\<lambda>q. pid_in t q m) (members L t m - {p})"
      using ns_inv_exD(6)[OF inv m(1) u(1)] by (rule inj_on_subset) blast
    moreover have "pid_in t q m < last_pid (nodes t m)" if "q \<in> members L t m - {p}" for q
      using ns_inv_exD(5)[OF inv m(1) u(1)] that by blast
    ultimately show ?thesis using D[OF m(1) u(1)] u(2) unfolding mem pid by (auto simp: node)
  qed
  ultimately have inv': "ns_inv (L - {p}) t'" unfolding ns_inv_def ns_inv_ex_def by blast
  show ?thesis
  proof (rule that[OF r inv'])
    show "procs t' = procs t" by (simp add: t'_def dropped_def t1_def)
    show "ns_used t' m \<longleftrightarrow> ns_used t m \<and> (ns_depth (nodes t m) = 0 \<or> members (L - {p}) t m \<noteq> {})" if "m < NNMND" for m
      using D[OF that] used[of m] unfolding mem(2) by blast
    show "ns_table t'" if "ns_table t"
      using that unfolding ns_table_def grounded_def by (simp add: t'_def dropped_def t1_def)
  qed (rule mem(1))
qed

end
