(* ===== verification/Proc_Search.thy ===== *)
theory Proc_Search
  imports Proc_Namespace_Exit
begin

text \<open>
  The routines that walk over the whole process table, entry by entry under its lock: \<open>find_proc\<close>,
  \<open>wakeup\<close>, \<open>kill\<close> and \<open>reparent\<close>. Each has a closed form, proved for tables whose locks are free.
\<close>

section \<open>One entry under its lock\<close>

definition upd_proc :: "nat \<Rightarrow> (proc \<Rightarrow> proc) \<Rightarrow> ptable \<Rightarrow> ptable" where
  "upd_proc i f t = t\<lparr>procs := (procs t)(i := f (procs t i))\<rparr>"

definition held :: "nat \<Rightarrow> spinlock \<Rightarrow> spinlock" where
  "held c lk = lk\<lparr>lk_locked := 1, lk_cpu := Some c\<rparr>"

definition lockp :: "nat \<Rightarrow> nat \<Rightarrow> ptable \<Rightarrow> ptable" where
  "lockp c i t = upd_proc i (\<lambda>p. p\<lparr>p_lock := held c (p_lock p)\<rparr>) t"

definition locks_free :: "ptable \<Rightarrow> bool" where
  "locks_free t \<longleftrightarrow> (\<forall>i<NPROC. lk_free (p_lock (procs t i)))"

lemma upd_proc_simps [simp]:
  "nodes (upd_proc i f t) = nodes t" "ns_used (upd_proc i f t) = ns_used t" "initproc (upd_proc i f t) = initproc t"
  "cpu_proc (upd_proc i f t) = cpu_proc t" "procs (upd_proc i f t) i = f (procs t i)"
  "j \<noteq> i \<Longrightarrow> procs (upd_proc i f t) j = procs t j" "wait_lock (upd_proc i f t) = wait_lock t"
  "upd_proc i g (upd_proc i f t) = upd_proc i (g \<circ> f) t"
  by (simp_all add: upd_proc_def)

lemma lockp_simps [simp]:
  "nodes (lockp c i t) = nodes t" "ns_used (lockp c i t) = ns_used t" "initproc (lockp c i t) = initproc t"
  "cpu_proc (lockp c i t) = cpu_proc t" "p_node (procs (lockp c i t) j) = p_node (procs t j)"
  "namespace_pids (procs (lockp c i t) j) = namespace_pids (procs t j)" "p_state (procs (lockp c i t) j) = p_state (procs t j)"
  "p_chan (procs (lockp c i t) j) = p_chan (procs t j)" "p_pid (procs (lockp c i t) j) = p_pid (procs t j)"
  "p_parent (procs (lockp c i t) j) = p_parent (procs t j)"
  by (simp_all add: lockp_def upd_proc_def)

lemma set_proc_ok [simp]: "i < NPROC \<Longrightarrow> set_proc (Some i) f t = Ret (upd_proc i f t)"
  by (simp add: set_proc_def upd_proc_def)

lemma acquire_proc_free:
  assumes "i < NPROC" "lk_free (p_lock (procs t i))"
  shows "acquire_proc c i t = Ret (lockp c i t)"
  using assms unfolding acquire_proc_def acquire_free[OF assms(2)] by (simp add: lockp_def upd_proc_def held_def)

lemma release_proc_held:
  assumes "i < NPROC" "lk_free lk" "p_lock (procs t i) = held c lk"
  shows "release_proc c i t = Ret (upd_proc i (p_lock_update (\<lambda>_. lk)) t)"
  unfolding release_proc_def assms(3) held_def release_acquired[OF assms(2)] using assms(1) by simp

lemma p_lock_id: "p_lock_update (\<lambda>_. p_lock p) p = p"
  by (cases p) simp

lemma release_lockp:
  assumes "i < NPROC" "lk_free (p_lock (procs t i))"
  shows "release_proc c i (lockp c i t) = Ret t"
proof -
  have "release_proc c i (lockp c i t) = Ret (upd_proc i (p_lock_update (\<lambda>_. p_lock (procs t i))) (lockp c i t))"
    using assms by (intro release_proc_held) (simp_all add: lockp_def)
  also have "upd_proc i (p_lock_update (\<lambda>_. p_lock (procs t i))) (lockp c i t) = t"
    by (simp add: lockp_def upd_proc_def p_lock_id)
  finally show ?thesis .
qed

text \<open>An update of fields other than the lock, made while the lock is held.\<close>

lemma release_updated:
  assumes "i < NPROC" "lk_free (p_lock (procs t i))" "\<And>p lk. f (p_lock_update lk p) = p_lock_update lk (f p)"
    "p_lock (f (procs t i)) = p_lock (procs t i)"
  shows "release_proc c i (upd_proc i f (lockp c i t)) = Ret (upd_proc i f t)"
proof -
  have "release_proc c i (upd_proc i f (lockp c i t))
      = Ret (upd_proc i (p_lock_update (\<lambda>_. p_lock (procs t i))) (upd_proc i f (lockp c i t)))"
    using assms by (intro release_proc_held) (simp_all add: lockp_def)
  also have "upd_proc i (p_lock_update (\<lambda>_. p_lock (procs t i))) (upd_proc i f (lockp c i t)) = upd_proc i f t"
    using p_lock_id[of "f (procs t i)", unfolded assms(4)] by (simp add: lockp_def upd_proc_def assms(3))
  finally show ?thesis .
qed

section \<open>\<open>find_proc\<close>\<close>

definition ns_matches :: "ptable \<Rightarrow> int \<Rightarrow> nat \<Rightarrow> nat \<Rightarrow> bool" where
  "ns_matches t pid m i \<longleftrightarrow> pid_in t i m = pid \<and> in_ns t i m"

lemma in_ns_lockp [simp]: "in_ns (lockp c i t) j m = in_ns t j m"
  by (simp add: in_ns_def)

lemma is_heir_entry:
  assumes "ns_table t" "i < NPROC" "p_node (procs t i) = Some n"
  shows "is_heir (p_node (procs t i)) (Some m) t = Ret (in_ns t i m)"
proof -
  have "n < NNMND" using assms by (simp add: ns_table_def entry_ok_def)
  then obtain xs where xs: "chain (nodes t) n xs" using assms(1) by (auto simp: ns_table_def grounded_def)
  have "in_ns t i m \<longleftrightarrow> m \<in> set xs" unfolding in_ns_def assms(3) using xs chain_unique[OF xs] by blast
  then show ?thesis using is_heir_chain[OF xs, of m] assms(3) by simp
qed

lemma find_proc_loop_ok:
  assumes "ns_table t" "locks_free t" "m < NNMND" "ns_depth (nodes t m) < 8" "pid \<noteq> 0" "set is \<subseteq> {..<NPROC}"
  shows "find_proc_loop c pid (Some m) is t
    = Ret (case find (ns_matches t pid m) is of None \<Rightarrow> (None, t) | Some i \<Rightarrow> (Some i, lockp c i t))"
  using assms(6)
proof (induction "is")
  case (Cons i "is")
  then have i: "i < NPROC" and lk: "lk_free (p_lock (procs t i))" using assms(2) by (auto simp: locks_free_def)
  have e: "entry_ok (procs t i)" using assms(1) i by (simp add: ns_table_def)
  have q: "ns_pid (procs (lockp c i t) i) (ns_depth (nodes t m)) = Ret (pid_in t i m)"
    using e assms(4) by (simp add: ns_pid_def entry_ok_def pid_in_def)
  have h: "(if pid_in t i m = pid then is_heir (p_node (procs (lockp c i t) i)) (Some m) (lockp c i t) else Ret False)
      = Ret (ns_matches t pid m i)"
  proof (cases "pid_in t i m = pid")
    case True
    then have "p_node (procs t i) \<noteq> None" using e assms(4,5) by (auto simp: entry_ok_def pid_in_def)
    then obtain n where n: "p_node (procs t i) = Some n" by blast
    have "ns_table (lockp c i t)" using assms(1) by (simp add: ns_table_def grounded_def entry_ok_def)
    from is_heir_entry[OF this i] show ?thesis using n True by (simp add: ns_matches_def)
  qed (simp add: ns_matches_def)
  have "get_ns (lockp c i t) (Some m) = Ret (nodes t m)" using assms(3) by (simp add: get_ns_def)
  then have "find_proc_loop c pid (Some m) (i # is) t =
      (if ns_matches t pid m i then Ret (Some i, lockp c i t) else find_proc_loop c pid (Some m) is t)"
    using i lk q h by (simp add: acquire_proc_free release_lockp)
  then show ?case using Cons by simp
qed simp

lemma find_proc_ok:
  assumes "ns_table t" "locks_free t" "m < NNMND" "ns_depth (nodes t m) < 8" "pid \<noteq> 0"
  shows "find_proc c pid (Some m) t
    = Ret (case find (ns_matches t pid m) [0..<NPROC] of None \<Rightarrow> (None, t) | Some i \<Rightarrow> (Some i, lockp c i t))"
proof -
  have "set [0..<NPROC] \<subseteq> {..<NPROC}" by (simp only: set_upt lessThan_atLeast0)
  then show ?thesis unfolding find_proc_def by (rule find_proc_loop_ok[OF assms])
qed

lemma find_first:
  assumes "find P [0..<n] = Some i"
  shows "i < n" "P i" "\<And>j. j < i \<Longrightarrow> \<not> P j"
  using assms unfolding find_Some_iff by (auto simp: less_trans)

lemma find_none: "find P [0..<n] = None \<Longrightarrow> j < n \<Longrightarrow> \<not> P j"
  unfolding find_None_iff by simp

section \<open>Loops that update every entry\<close>

definition map_procs :: "(nat \<Rightarrow> proc \<Rightarrow> proc) \<Rightarrow> nat \<Rightarrow> ptable \<Rightarrow> ptable" where
  "map_procs g n t = t\<lparr>procs := (\<lambda>i. if i < n then g i (procs t i) else procs t i)\<rparr>"

lemma foldM_procs:
  assumes "\<And>i. i < n \<Longrightarrow> f i (map_procs g i t) = Ret (upd_proc i (g i) (map_procs g i t))"
  shows "foldM f [0..<n] t = Ret (map_procs g n t)"
proof -
  have step: "upd_proc i (g i) (map_procs g i t) = map_procs g (Suc i) t" for i
    by (auto simp: upd_proc_def map_procs_def fun_eq_iff less_Suc_eq)
  have "\<exists>s'. foldM f [0..<n] t = Ret s' \<and> s' = map_procs g n t"
  proof (rule foldM_upt_inv[where Inv = "\<lambda>i s. s = map_procs g i t"])
    show "t = map_procs g 0 t" by (simp add: map_procs_def)
  qed (use assms step in auto)
  then show ?thesis by blast
qed

lemma map_procs_simps [simp]:
  "cpu_proc (map_procs g n t) = cpu_proc t" "initproc (map_procs g n t) = initproc t" "nodes (map_procs g n t) = nodes t"
  "ns_used (map_procs g n t) = ns_used t" "procs (map_procs g n t) i = (if i < n then g i (procs t i) else procs t i)"
  by (simp_all add: map_procs_def)

section \<open>\<open>wakeup\<close>\<close>

definition wake :: "nat option \<Rightarrow> chan option \<Rightarrow> nat \<Rightarrow> proc \<Rightarrow> proc" where
  "wake me ch i p = (if Some i \<noteq> me \<and> p_state p = SLEEPING \<and> p_chan p = ch then p\<lparr>p_state := RUNNABLE\<rparr> else p)"

lemma upd_proc_id: "f (procs t i) = procs t i \<Longrightarrow> upd_proc i f t = t"
  by (simp add: upd_proc_def)

lemma wakeup_ok:
  assumes "\<And>i. i < NPROC \<Longrightarrow> Some i \<noteq> myproc c t \<Longrightarrow> lk_free (p_lock (procs t i))"
  shows "wakeup c ch t = Ret (map_procs (wake (myproc c t) ch) NPROC t)"
  unfolding wakeup_def
proof (rule foldM_procs)
  fix i assume i: "i < NPROC"
  define t0 where "t0 = map_procs (wake (myproc c t) ch) i t"
  have p: "procs t0 i = procs t i" "myproc c t0 = myproc c t" by (simp_all add: t0_def myproc_def)
  show "(if Some i \<noteq> myproc c t0 then bind_res (acquire_proc c i t0) (\<lambda>t1.
        bind_res (if p_state (procs t1 i) = SLEEPING \<and> p_chan (procs t1 i) = ch
          then set_proc (Some i) (p_state_update (\<lambda>_. RUNNABLE)) t1 else Ret t1) (release_proc c i)) else Ret t0)
    = Ret (upd_proc i (wake (myproc c t) ch i) t0)"
  proof (cases "Some i = myproc c t")
    case True
    then show ?thesis using p by (simp add: upd_proc_id wake_def)
  next
    case False
    have lk: "lk_free (p_lock (procs t0 i))" using assms[OF i False] p by simp
    show ?thesis
    proof (cases "p_state (procs t i) = SLEEPING \<and> p_chan (procs t i) = ch")
      case True
      have "upd_proc i (p_state_update (\<lambda>_. RUNNABLE)) t0 = upd_proc i (wake (myproc c t) ch i) t0"
        using True False p by (simp add: upd_proc_def wake_def)
      moreover have "release_proc c i (upd_proc i (p_state_update (\<lambda>_. RUNNABLE)) (lockp c i t0))
          = Ret (upd_proc i (p_state_update (\<lambda>_. RUNNABLE)) t0)"
        by (rule release_updated[OF i lk]) simp_all
      ultimately show ?thesis using i False True p lk by (simp add: acquire_proc_free)
    next
      case nomatch: False
      have "wake (myproc c t) ch i (procs t0 i) = procs t0 i" using nomatch p by (auto simp: wake_def)
      then show ?thesis using i False nomatch p lk by (auto simp: acquire_proc_free release_lockp upd_proc_id)
    qed
  qed
qed

section \<open>\<open>kill\<close>\<close>

definition mark_killed :: "proc \<Rightarrow> proc" where
  "mark_killed p = p\<lparr>p_killed := 1, p_state := (if p_state p = SLEEPING then RUNNABLE else p_state p)\<rparr>"

lemma kill_loop_ok:
  assumes "locks_free t" "set is \<subseteq> {..<NPROC}"
  shows "kill_loop c pid is t
    = Ret (case find (\<lambda>i. p_pid (procs t i) = pid) is of None \<Rightarrow> (- 1, t) | Some i \<Rightarrow> (0, upd_proc i mark_killed t))"
  using assms(2)
proof (induction "is")
  case (Cons i "is")
  then have i: "i < NPROC" and lk: "lk_free (p_lock (procs t i))" using assms(1) by (auto simp: locks_free_def)
  show ?case
  proof (cases "p_pid (procs t i) = pid")
    case True
    have sl: "(if p_state (procs t2 i) = SLEEPING then set_proc (Some i) (p_state_update (\<lambda>_. RUNNABLE)) t2 else Ret t2)
        = Ret (upd_proc i (\<lambda>p. p\<lparr>p_state := (if p_state p = SLEEPING then RUNNABLE else p_state p)\<rparr>) t2)" for t2
      using i by (simp add: upd_proc_def)
    have "(\<lambda>p. p\<lparr>p_state := (if p_state p = SLEEPING then RUNNABLE else p_state p)\<rparr>) \<circ> p_killed_update (\<lambda>_. 1) = mark_killed"
      by (simp add: fun_eq_iff mark_killed_def)
    moreover have "release_proc c i (upd_proc i mark_killed (lockp c i t)) = Ret (upd_proc i mark_killed t)"
      by (rule release_updated[OF i lk]) (simp_all add: mark_killed_def)
    ultimately show ?thesis using True i lk by (simp add: acquire_proc_free sl)
  next
    case False
    then show ?thesis using Cons i lk by (simp add: acquire_proc_free release_lockp)
  qed
qed simp

lemma kill_ok:
  assumes "locks_free t"
  shows "kill c pid t
    = Ret (case find (\<lambda>i. p_pid (procs t i) = pid) [0..<NPROC] of None \<Rightarrow> (- 1, t) | Some i \<Rightarrow> (0, upd_proc i mark_killed t))"
proof -
  have "set [0..<NPROC] \<subseteq> {..<NPROC}" by (simp only: set_upt lessThan_atLeast0)
  then show ?thesis unfolding kill_def by (rule kill_loop_ok[OF assms])
qed

section \<open>\<open>reparent\<close>\<close>

text \<open>The first process registered as \<open>init\<close> of a namespace on the way to the root.\<close>

definition nearest_init :: "(nat \<Rightarrow> namespace_node) \<Rightarrow> nat option \<Rightarrow> nat list \<Rightarrow> nat option" where
  "nearest_init N dflt xs = (case filter (\<lambda>m. ns_init (N m) \<noteq> None) xs of [] \<Rightarrow> dflt | m # _ \<Rightarrow> ns_init (N m))"

lemma find_init_loop_chain:
  "chain (nodes t) n xs \<Longrightarrow> ns_head (nodes t (last xs)) = None \<Longrightarrow> length xs < fuel \<Longrightarrow>
    find_init_loop fuel (Some n) d t = Ret (nearest_init (nodes t) d xs)"
proof (induction arbitrary: fuel rule: chain.induct)
  case (chain_root n)
  then obtain f where "fuel = Suc (Suc f)" by (cases fuel; cases "fuel - 1") auto
  then show ?case using chain_root by (simp add: get_ns_def nearest_init_def)
next
  case (chain_up n h ys)
  then obtain f where f: "fuel = Suc f" by (cases fuel) auto
  have "ys \<noteq> []" using chain_hd[OF chain_up(4)] by auto
  then have "find_init_loop f (Some h) d t = Ret (nearest_init (nodes t) d ys)" using chain_up f by auto
  then show ?case using chain_up f by (simp add: get_ns_def nearest_init_def)
qed

definition adopt :: "nat \<Rightarrow> nat option \<Rightarrow> nat \<Rightarrow> proc \<Rightarrow> proc" where
  "adopt p new_init i q = (if p_parent q = Some p then q\<lparr>p_parent := new_init\<rparr> else q)"

lemma adopt_simps [simp]:
  "p_state (adopt p n i q) = p_state q" "p_chan (adopt p n i q) = p_chan q" "p_lock (adopt p n i q) = p_lock q"
  by (simp_all add: adopt_def)

lemma wake_simps [simp]:
  "p_parent (wake me ch i q) = p_parent q" "p_lock (wake me ch i q) = p_lock q" "wake me ch i (wake me ch i q) = wake me ch i q"
  by (simp_all add: wake_def)

lemma wake_parent: "wake me ch i (q\<lparr>p_parent := v\<rparr>) = (wake me ch i q)\<lparr>p_parent := v\<rparr>"
  by (simp add: wake_def)

text \<open>The table after the first \<open>n\<close> entries have been handed over.\<close>

definition adopted :: "nat \<Rightarrow> nat option \<Rightarrow> chan option \<Rightarrow> nat \<Rightarrow> nat \<Rightarrow> ptable \<Rightarrow> ptable" where
  "adopted p new_init ch c n t =
    (let t1 = map_procs (adopt p new_init) n t
     in if \<exists>i<n. p_parent (procs t i) = Some p then map_procs (wake (myproc c t) ch) NPROC t1 else t1)"

lemma myproc_map [simp]: "myproc c (map_procs g n t) = myproc c t"
  by (simp add: myproc_def)

lemma adopted_step:
  assumes i: "i < NPROC" and lk: "\<And>j. j < NPROC \<Longrightarrow> Some j \<noteq> myproc c t \<Longrightarrow> lk_free (p_lock (procs t j))" and "new_init \<noteq> Some p"
  shows "(if p_parent (procs (adopted p new_init ch c i t) i) = Some p
      then bind_res (set_proc (Some i) (p_parent_update (\<lambda>_. new_init)) (adopted p new_init ch c i t)) (wakeup c ch)
      else Ret (adopted p new_init ch c i t)) = Ret (adopted p new_init ch c (Suc i) t)"
proof -
  let ?a = "adopted p new_init ch c i t"
  have par: "p_parent (procs ?a i) = p_parent (procs t i)" by (simp add: adopted_def Let_def)
  show ?thesis
  proof (cases "p_parent (procs t i) = Some p")
    case True
    let ?t = "upd_proc i (p_parent_update (\<lambda>_. new_init)) ?a"
    have my: "myproc c ?t = myproc c t" by (simp add: adopted_def Let_def myproc_def)
    have "p_lock (procs ?t j) = p_lock (procs t j)" for j by (cases "j = i") (simp_all add: adopted_def Let_def)
    then have w: "wakeup c ch ?t = Ret (map_procs (wake (myproc c t) ch) NPROC ?t)"
      using wakeup_ok[of c ?t ch] lk my by simp
    have "\<exists>j<Suc i. p_parent (procs t j) = Some p" using True by blast
    then have "map_procs (wake (myproc c t) ch) NPROC ?t = adopted p new_init ch c (Suc i) t"
      using i True by (auto simp: adopted_def map_procs_def upd_proc_def fun_eq_iff less_Suc_eq adopt_def wake_parent Let_def)
    then show ?thesis using par True i w by simp
  next
    case False
    have "(\<exists>j<Suc i. p_parent (procs t j) = Some p) \<longleftrightarrow> (\<exists>j<i. p_parent (procs t j) = Some p)"
      using False by (auto simp: less_Suc_eq)
    moreover have "map_procs (adopt p new_init) (Suc i) t = map_procs (adopt p new_init) i t"
      using False by (auto simp: map_procs_def fun_eq_iff less_Suc_eq adopt_def)
    ultimately show ?thesis using par False by (simp add: adopted_def)
  qed
qed

text \<open>The state after \<open>reparent\<close> has cleared a namespace's \<open>init\<close> that exits.\<close>

definition retire_init :: "nat \<Rightarrow> nat \<Rightarrow> ptable \<Rightarrow> ptable" where
  "retire_init p n t = (if ns_init (nodes t n) = Some p
    then t\<lparr>nodes := (nodes t)(n := (nodes t n)\<lparr>ns_init := None\<rparr>)\<rparr> else t)"

lemma retire_init_simps [simp]:
  "procs (retire_init p n t) = procs t" "initproc (retire_init p n t) = initproc t" "cpu_proc (retire_init p n t) = cpu_proc t"
  "ns_head (nodes (retire_init p n t) m) = ns_head (nodes t m)" "ns_depth (nodes (retire_init p n t) m) = ns_depth (nodes t m)"
  by (simp_all add: retire_init_def)

lemma reparent_ok:
  assumes p: "p < NPROC" "p_node (procs t p) = Some n" and n: "chain (nodes t) n xs" "ns_head (nodes t (last xs)) = None"
    and lk: "\<And>j. j < NPROC \<Longrightarrow> Some j \<noteq> myproc c t \<Longrightarrow> lk_free (p_lock (procs t j))"
    and new: "new_init = nearest_init (nodes (retire_init p n t)) (initproc t) xs" "new_init \<noteq> Some p"
  shows "reparent c (Some p) t
    = Ret (adopted p new_init (map_option ChanProc (initproc t)) c NPROC (retire_init p n t))"
proof -
  let ?t = "retire_init p n t" let ?ch = "map_option ChanProc (initproc t)"
  have nb: "n < NNMND" using n(1) by (auto elim: chain.cases)
  have "chain (nodes ?t) = chain (nodes t)" by (rule chain_same) simp
  then have init: "find_init_loop (NNMND + 1) (Some n) (initproc ?t) ?t = Ret new_init"
    using find_init_loop_chain[of ?t n xs "NNMND + 1" "initproc t"] n chain_length[OF n(1)] new(1) by simp
  have "\<exists>s'. foldM (\<lambda>i t. if p_parent (procs t i) = Some p then
        bind_res (set_proc (Some i) (p_parent_update (\<lambda>_. new_init)) t) (\<lambda>t2. wakeup c (map_option ChanProc (initproc t2)) t2)
      else Ret t) [0..<NPROC] ?t = Ret s' \<and> s' = adopted p new_init ?ch c NPROC ?t"
  proof (rule foldM_upt_inv[where Inv = "\<lambda>i s. s = adopted p new_init ?ch c i ?t"], goal_cases)
    case 2 show ?case by (simp add: adopted_def map_procs_def)
  next
    case (3 i s)
    have my: "myproc c ?t = myproc c t" by (simp add: myproc_def)
    have "initproc s = initproc t" using 3 by (simp add: adopted_def Let_def)
    then show ?case using adopted_step[of i c ?t new_init p ?ch] 3 lk my new(2) by (auto split: if_splits)
  qed simp
  then show ?thesis using p nb init
    by (simp add: reparent_def get_proc_def get_ns_def set_ns_def retire_init_def split: if_splits)
qed

end
