(* ===== verification/Namespace_Props.thy ===== *)
theory Namespace_Props
  imports Proc_Search
begin

text \<open>
  The properties of the pid namespaces and of the routines that walk over the process table, with their
  witnesses. \<open>ns_reach\<close> collects the states the namespaces can be in after boot: the live
  processes, together with the table.
\<close>

section \<open>Boot\<close>

definition ns_booted :: "nat \<Rightarrow> ptable" where
  "ns_booted i = (procinit zero_ptable)
     \<lparr>procs := (procs (procinit zero_ptable))(i := (procs (procinit zero_ptable) i)\<lparr>p_node := Some 0, namespace_pids := (replicate 8 0)[0 := 1]\<rparr>),
      nodes := (nodes zero_ptable)(0 := \<lparr>cnt_proc = 1, last_pid = 2, ns_init = Some i, ns_head = None, ns_depth = 0\<rparr>),
      ns_used := (\<lambda>n. n = 0)\<rparr>"

lemma procinit_fold:
  "fold (\<lambda>i t. t\<lparr>procs := (procs t)(i := (procs t i)\<lparr>p_lock := initlock ''proc'', p_state := UNUSED, p_kstack := KSTACK i\<rparr>)\<rparr>) [0..<n] t
    = map_procs (\<lambda>i p. p\<lparr>p_lock := initlock ''proc'', p_state := UNUSED, p_kstack := KSTACK i\<rparr>) n t"
  by (induction n) (auto simp: map_procs_def fun_eq_iff less_Suc_eq)

lemma procinit_eq: "procinit t = map_procs (\<lambda>i p. p\<lparr>p_lock := initlock ''proc'', p_state := UNUSED, p_kstack := KSTACK i\<rparr>) NPROC
    (t\<lparr>pid_lock := initlock ''nextpid'', wait_lock := initlock ''wait_lock''\<rparr>)"
  unfolding procinit_def by (rule procinit_fold)

lemma procinit_simps [simp]:
  "nodes (procinit t) = nodes t" "ns_used (procinit t) = ns_used t" "cpu_proc (procinit t) = cpu_proc t"
  "namespace_pids (procs (procinit t) i) = namespace_pids (procs t i)" "p_node (procs (procinit t) i) = p_node (procs t i)"
  by (simp_all add: procinit_eq)

lemma zero_ptable_simps [simp]:
  "namespace_pids (procs zero_ptable i) = replicate 8 0" "p_node (procs zero_ptable i) = None" "ns_used zero_ptable n = False"
  "nodes zero_ptable n = \<lparr>cnt_proc = 0, last_pid = 0, ns_init = None, ns_head = None, ns_depth = 0\<rparr>"
  by (simp_all add: zero_ptable_def zero_proc_def)

lemma boot_malloc: "namespace_malloc (procinit zero_ptable) = (Some 0, (procinit zero_ptable)\<lparr>ns_used := (\<lambda>n. n = 0)\<rparr>)"
proof -
  have "[0..<64] = 0 # [1..<64::nat]" by (simp add: upt_conv_Cons del: upt_rec_numeral)
  then show ?thesis by (simp add: namespace_malloc_def fun_upd_def del: upt_rec_numeral)
qed

lemma userinit_ns_boot: "i < NPROC \<Longrightarrow> userinit_ns i (procinit zero_ptable) = Ret (ns_booted i)"
  by (simp add: userinit_ns_def boot_malloc set_ns_def ns_booted_def upd_proc_def fun_eq_iff)

lemma ns_booted_in: "in_ns (ns_booted i) q m \<longleftrightarrow> q = i \<and> m = 0"
proof -
  have c: "chain (nodes (ns_booted i)) 0 [0]" by (rule chain.chain_root) (simp_all add: ns_booted_def)
  have n: "p_node (procs (ns_booted i) q) = (if q = i then Some 0 else None)" by (simp add: ns_booted_def)
  have u: "chain (nodes (ns_booted i)) 0 xs \<longleftrightarrow> xs = [0]" for xs using c chain_unique[OF c] by blast
  show ?thesis unfolding in_ns_def n by (cases "q = i") (simp_all add: u)
qed

lemma ns_booted_inv: "i < NPROC \<Longrightarrow> ns_inv {i} (ns_booted i)"
proof -
  assume i: "i < NPROC"
  have m: "members {i} (ns_booted i) 0 = {i}" by (auto simp: members_def ns_booted_in)
  have "ns_member (ns_booted i) i" using i by (simp add: ns_member_def ns_booted_def)
  then show ?thesis unfolding ns_inv_def ns_inv_ex_def using m
    by (auto simp: ns_forest_def pid_in_def ns_booted_def)
qed

lemma ns_booted_table: "i < NPROC \<Longrightarrow> ns_table (ns_booted i)"
proof -
  assume i: "i < NPROC"
  have "grounded (ns_booted i) n" if "n < NNMND" for n
    unfolding grounded_def by (rule exI[of _ "[n]"], rule chain.chain_root) (use that in \<open>simp_all add: ns_booted_def\<close>)
  then show ?thesis unfolding ns_table_def by (auto simp: entry_ok_def ns_booted_def)
qed

section \<open>Reachable states\<close>

text \<open>When \<open>clone\<close> finds no free node, or its parent is seven levels deep, it leaves its arrays.\<close>

lemma clone_ns_exhausted:
  assumes "\<And>n. n < NNMND \<Longrightarrow> ns_used t n" "p < NPROC" "np < NPROC"
  shows "clone_ns (Some p) np t = Fault"
  using assms(2,3) namespace_malloc_none[OF assms(1)] by (simp add: clone_ns_def get_proc_def set_ns_def)

lemma clone_ns_deep:
  assumes "x < NNMND" "\<not> ns_used t x" "p < NPROC" "np < NPROC" "p_node (procs t p) = Some n" "n < NNMND" "ns_used t n" "np \<noteq> p"
    and "length (namespace_pids (procs t np)) \<le> ns_depth (nodes t n) + 1"
  shows "clone_ns (Some p) np t = Fault"
proof -
  obtain y where y: "y < NNMND" "\<not> ns_used t y" "namespace_malloc t = (Some y, t\<lparr>ns_used := (ns_used t)(y := True)\<rparr>)"
    using namespace_malloc_some[OF assms(1,2)] .
  then have "y \<noteq> n" using assms(7) by auto
  then show ?thesis using y assms
    by (simp add: clone_ns_def get_proc_def set_ns_def get_ns_def upd_proc_def)
qed

inductive ns_reach :: "nat set \<Rightarrow> ptable \<Rightarrow> bool" where
  reach_boot: "i < NPROC \<Longrightarrow> userinit_ns i (procinit zero_ptable) = Ret t \<Longrightarrow> ns_reach {i} t"
| reach_fork: "ns_reach L t \<Longrightarrow> p \<in> L \<Longrightarrow> np \<notin> L \<Longrightarrow> np < NPROC \<Longrightarrow> fork_ns (Some p) np t = Ret t' \<Longrightarrow> ns_reach (insert np L) t'"
| reach_clone: "ns_reach L t \<Longrightarrow> p \<in> L \<Longrightarrow> np \<notin> L \<Longrightarrow> np < NPROC \<Longrightarrow> clone_ns (Some p) np t = Ret t' \<Longrightarrow> ns_reach (insert np L) t'"
| reach_exit: "ns_reach L t \<Longrightarrow> p \<in> L \<Longrightarrow> exit_ns (Some p) t = Ret t' \<Longrightarrow> ns_reach (L - {p}) t'"
| reach_other: "ns_reach L t \<Longrightarrow> nodes t' = nodes t \<Longrightarrow> ns_used t' = ns_used t \<Longrightarrow>
    (\<And>q. p_node (procs t' q) = p_node (procs t q) \<and> namespace_pids (procs t' q) = namespace_pids (procs t q)) \<Longrightarrow> ns_reach L t'"

lemma ns_table_pids: "ns_table t \<Longrightarrow> i < NPROC \<Longrightarrow> length (namespace_pids (procs t i)) = 8"
  by (simp add: ns_table_def entry_ok_def)

lemma ns_same:
  assumes "nodes t' = nodes t" "ns_used t' = ns_used t"
    "\<And>q. p_node (procs t' q) = p_node (procs t q) \<and> namespace_pids (procs t' q) = namespace_pids (procs t q)"
  shows "ns_inv L t' = ns_inv L t" "ns_table t' = ns_table t"
proof -
  have "in_ns t' = in_ns t" "pid_in t' = pid_in t" using assms(3) by (simp_all add: in_ns_def pid_in_def fun_eq_iff assms(1))
  then show "ns_inv L t' = ns_inv L t" using assms
    by (simp add: ns_inv_def ns_inv_ex_def ns_forest_def ns_member_def members_def cong: option.case_cong)
  show "ns_table t' = ns_table t" using assms by (simp add: ns_table_def grounded_def entry_ok_def)
qed

lemma ns_reach_inv: "ns_reach L t \<Longrightarrow> ns_inv L t \<and> ns_table t"
proof (induction rule: ns_reach.induct)
  case (reach_boot i t)
  then show ?case using userinit_ns_boot[of i] ns_booted_inv[of i] ns_booted_table[of i] by auto
next
  case (reach_fork L t p np t')
  then have len: "length (namespace_pids (procs t np)) = 8" using ns_table_pids by blast
  show ?case
  proof (rule fork_ns_ok[of L t p np])
    fix t'' assume "fork_ns (Some p) np t = Ret t''" "ns_inv (insert np L) t''" "ns_table t \<Longrightarrow> ns_table t''"
    then show ?thesis using reach_fork by simp
  qed (use reach_fork len in simp_all)
next
  case (reach_clone L t p np t')
  have len: "length (namespace_pids (procs t np)) = 8" using reach_clone ns_table_pids by blast
  obtain n xs where n: "n < NNMND" "p_node (procs t p) = Some n" "ns_used t n"
    using member_chain[of "{}" L t p] reach_clone by (auto simp: ns_inv_def)
  have p: "p < NPROC" using reach_clone ns_inv_exD(2)[of "{}" L t p] by (auto simp: ns_inv_def ns_member_def)
  obtain x where x: "x < NNMND" "\<not> ns_used t x" using clone_ns_exhausted[OF _ p reach_clone(4)] reach_clone(5) by (metis res.distinct(3))
  have "np \<noteq> p" using reach_clone by auto
  then have "ns_depth (nodes t n) < 7" using clone_ns_deep[OF x p _ n(2,1,3)] reach_clone len by (cases "ns_depth (nodes t n) < 7") auto
  then have d: "ns_depth (nodes t k) < 7" if "p_node (procs t p) = Some k" for k using that n(2) by simp
  show ?case
  proof (rule clone_ns_ok[of L t p np x])
    fix t'' assume "clone_ns (Some p) np t = Ret t''" "ns_inv (insert np L) t''" "ns_table t \<Longrightarrow> ns_table t''"
    then show ?thesis using reach_clone by simp
  qed (use reach_clone len x d in simp_all)
next
  case (reach_exit L t p t')
  show ?case
  proof (rule exit_ns_ok[of L t p])
    fix t'' assume "exit_ns (Some p) t = Ret t''" "ns_inv (L - {p}) t''" "ns_table t \<Longrightarrow> ns_table t''"
    then show ?thesis using reach_exit by simp
  qed (use reach_exit in simp_all)
next
  case (reach_other L t t')
  then show ?case using ns_same by blast
qed

lemma ns_reach_proc: "ns_reach L t \<Longrightarrow> p \<in> L \<Longrightarrow> p < NPROC"
  using ns_reach_inv[of L t] ns_inv_exD(2)[of "{}" L t p] by (auto simp: ns_inv_def ns_member_def)

lemma ns_reach_pids: "ns_reach L t \<Longrightarrow> i < NPROC \<Longrightarrow> length (namespace_pids (procs t i)) = 8"
  using ns_reach_inv ns_table_pids by blast

lemma ns_reach_boot: "i < NPROC \<Longrightarrow> ns_reach {i} (ns_booted i)"
  using reach_boot userinit_ns_boot by blast

section \<open>Properties\<close>



text \<open>C23: \<open>fork\<close> in a reachable state puts the child into the namespace of its parent: the child is a member of
  exactly the namespaces the parent is in, with the pid \<open>last_pid\<close> announced in each, and no other process
  changes its pid or membership.\<close>

theorem fork_inherits_namespaces:
  assumes "ns_reach L t" "p \<in> L" "np \<notin> L" "np < NPROC"
  shows "\<exists>t'. fork_ns (Some p) np t = Ret t' \<and> ns_reach (insert np L) t' \<and>
    (\<forall>m. members (insert np L) t' m = (if in_ns t p m then insert np (members L t m) else members L t m)) \<and>
    (\<forall>m. in_ns t p m \<longrightarrow> pid_in t' np m = last_pid (nodes t m)) \<and>
    (\<forall>q m. q \<noteq> np \<longrightarrow> pid_in t' q m = pid_in t q m)"
proof (rule fork_ns_ok[of L t p np])
  fix t'
  assume t': "fork_ns (Some p) np t = Ret t'" "\<And>m. in_ns t p m \<Longrightarrow> pid_in t' np m = last_pid (nodes t m)"
    "\<And>m. members (insert np L) t' m = (if in_ns t p m then insert np (members L t m) else members L t m)"
    "\<And>q m. q \<noteq> np \<Longrightarrow> pid_in t' q m = pid_in t q m"
  show ?thesis using t' reach_fork[OF assms t'(1)] by (intro exI[of _ t']) simp
qed (use assms ns_reach_inv[OF assms(1)] ns_reach_pids[OF assms(1)] in simp_all)

theorem fork_inherits_namespaces_witness:
  "\<exists>t'. fork_ns (Some 0) 1 (ns_booted 0) = Ret t' \<and> members {1, 0} t' 0 = {1, 0} \<and> pid_in t' 1 0 = 2"
proof -
  have "in_ns (ns_booted 0) 0 0" "members {0} (ns_booted 0) 0 = {0}" "last_pid (nodes (ns_booted 0) 0) = 2"
    by (auto simp: ns_booted_in members_def) (simp add: ns_booted_def)
  then show ?thesis using fork_inherits_namespaces[of "{0}" "ns_booted 0" 0 1] ns_reach_boot[of 0] by auto
qed

text \<open>C21: \<open>clone\<close> starts a new namespace. In a reachable state with a free namespace node, for a parent less
  than seven levels deep, it makes the child the first and only member of a namespace that was not in use, with
  pid 1 there and as its \<open>init\<close>, below the namespace of the parent; in the namespaces of the parent the child
  gets the next pid.\<close>

theorem clone_new_namespace:
  assumes "ns_reach L t" "p \<in> L" "np \<notin> L" "np < NPROC" "k < NNMND" "\<not> ns_used t k"
    and "p_node (procs t p) = Some n" "ns_depth (nodes t n) < 7"
  shows "\<exists>t' x. clone_ns (Some p) np t = Ret t' \<and> ns_reach (insert np L) t' \<and> \<not> ns_used t x \<and>
    p_node (procs t' np) = Some x \<and> ns_head (nodes t' x) = Some n \<and> ns_init (nodes t' x) = Some np \<and>
    members (insert np L) t' x = {np} \<and> pid_in t' np x = 1 \<and>
    (\<forall>m. in_ns t p m \<longrightarrow> pid_in t' np m = last_pid (nodes t m)) \<and>
    (\<forall>m. m \<noteq> x \<longrightarrow> members (insert np L) t' m = (if in_ns t p m then insert np (members L t m) else members L t m))"
proof (rule clone_ns_ok[of L t p np k])
  fix t' x
  assume t': "clone_ns (Some p) np t = Ret t'" "\<not> ns_used t x" "p_node (procs t' np) = Some x"
    "ns_head (nodes t' x) = p_node (procs t p)" "ns_init (nodes t' x) = Some np" "members (insert np L) t' x = {np}"
    "pid_in t' np x = 1" "\<And>m. in_ns t p m \<Longrightarrow> pid_in t' np m = last_pid (nodes t m)"
    "\<And>m. m \<noteq> x \<Longrightarrow> members (insert np L) t' m = (if in_ns t p m then insert np (members L t m) else members L t m)"
  show ?thesis using t' assms(7) reach_clone[OF assms(1-4) t'(1)] by (intro exI[of _ t'] exI[of _ x]) simp
qed (use assms ns_reach_inv[OF assms(1)] ns_reach_pids[OF assms(1)] in simp_all)

theorem clone_new_namespace_witness:
  "\<exists>t' x. clone_ns (Some 0) 1 (ns_booted 0) = Ret t' \<and> ns_reach {1, 0} t' \<and> members {1, 0} t' x = {1} \<and> pid_in t' 1 x = 1"
proof -
  have n: "p_node (procs (ns_booted 0) 0) = Some 0" "ns_depth (nodes (ns_booted 0) 0) < 7" "\<not> ns_used (ns_booted 0) 1"
    by (simp_all add: ns_booted_def)
  show ?thesis using clone_new_namespace[OF ns_reach_boot[of 0] _ _ _ _ n(3,1,2), of 1] by auto
qed

text \<open>C18: \<open>exit\<close> takes the process out of all its namespaces and frees exactly the namespaces, roots excepted,
  that have no member left.\<close>

theorem exit_frees_empty_namespaces:
  assumes "ns_reach L t" "p \<in> L"
  shows "\<exists>t'. exit_ns (Some p) t = Ret t' \<and> ns_reach (L - {p}) t' \<and> procs t' = procs t \<and>
    (\<forall>m. members (L - {p}) t' m = members L t m - {p}) \<and>
    (\<forall>m<NNMND. ns_used t' m \<longleftrightarrow> ns_used t m \<and> (ns_depth (nodes t m) = 0 \<or> members L t m - {p} \<noteq> {}))"
proof (rule exit_ns_ok[of L t p])
  fix t'
  assume t': "exit_ns (Some p) t = Ret t'" "procs t' = procs t"
    "\<And>m. m < NNMND \<Longrightarrow> ns_used t' m \<longleftrightarrow> ns_used t m \<and> (ns_depth (nodes t m) = 0 \<or> members (L - {p}) t m \<noteq> {})"
    "\<And>m. members (L - {p}) t' m = members L t m - {p}"
  have "members (L - {p}) t m = members L t m - {p}" for m by (auto simp: members_def)
  then show ?thesis using t' reach_exit[OF assms t'(1)] by (intro exI[of _ t']) simp
qed (use assms ns_reach_inv[OF assms(1)] in simp_all)

theorem exit_frees_empty_namespaces_witness: "\<exists>t'. exit_ns (Some 0) (ns_booted 0) = Ret t' \<and> ns_reach {} t'"
  using exit_frees_empty_namespaces[OF ns_reach_boot[of 0], of 0] by auto

text \<open>C33: \<open>clone\<close> does not check its limits: when all namespace nodes are in use it writes through the null
  pointer \<open>namespace_malloc\<close> returned, and for a parent whose namespace has depth 7 it writes past the end of the
  eight \<open>namespace_pids\<close> of the child.\<close>

theorem clone_unchecked_limits:
  assumes "ns_reach L t" "p \<in> L" "np \<notin> L" "np < NPROC"
    and "(\<forall>n. n < NNMND \<longrightarrow> ns_used t n) \<or> (\<exists>n. p_node (procs t p) = Some n \<and> 7 \<le> ns_depth (nodes t n))"
  shows "clone_ns (Some p) np t = Fault"
proof (cases "\<forall>n. n < NNMND \<longrightarrow> ns_used t n")
  case True
  then show ?thesis using clone_ns_exhausted ns_reach_proc assms by blast
next
  case False
  then obtain x where x: "x < NNMND" "\<not> ns_used t x" by blast
  then obtain n where n: "p_node (procs t p) = Some n" "7 \<le> ns_depth (nodes t n)" using assms(5) by blast
  have "ns_inv_ex {} L t" using ns_reach_inv[OF assms(1)] by (simp add: ns_inv_def)
  then have u: "n < NNMND" "ns_used t n" using ns_inv_exD(2)[of "{}" L t p] assms(2) n(1) by (auto simp: ns_member_def)
  show ?thesis using clone_ns_deep[OF x ns_reach_proc[OF assms(1,2)] assms(4) n(1) u] assms n(2) ns_reach_pids[OF assms(1,4)] by auto
qed

text \<open>A chain of clones, each the child of the one before.\<close>

lemma clone_depths:
  "d \<le> 7 \<Longrightarrow> \<exists>t n. ns_reach {..d} t \<and> p_node (procs t d) = Some n \<and> ns_depth (nodes t n) = d \<and>
    finite {k. ns_used t k} \<and> card {k. ns_used t k} = Suc d"
proof (induction d)
  case 0
  have "{..0} = {0::nat}" "{k. ns_used (ns_booted 0) k} = {0}" by (auto simp: ns_booted_def)
  then show ?case using ns_reach_boot[of 0] by (intro exI[of _ "ns_booted 0"] exI[of _ 0]) (simp add: ns_booted_def)
next
  case (Suc d)
  then obtain t n where t: "ns_reach {..d} t" "p_node (procs t d) = Some n" "ns_depth (nodes t n) = d"
      "finite {k. ns_used t k}" "card {k. ns_used t k} = Suc d" by auto
  have "\<exists>k<NNMND. \<not> ns_used t k"
  proof (rule ccontr)
    assume "\<not> (\<exists>k<NNMND. \<not> ns_used t k)"
    then have "{..<NNMND} \<subseteq> {k. ns_used t k}" by auto
    from card_mono[OF t(4) this] show False using t(5) Suc.prems by simp
  qed
  then obtain k where k: "k < NNMND" "\<not> ns_used t k" by blast
  show ?case
  proof (rule clone_ns_ok[of "{..d}" t d "Suc d" k])
    fix t' x
    assume t': "clone_ns (Some d) (Suc d) t = Ret t'" "\<not> ns_used t x" "p_node (procs t' (Suc d)) = Some x"
      "ns_used t' = (ns_used t)(x := True)" "\<And>n. p_node (procs t d) = Some n \<Longrightarrow> ns_depth (nodes t' x) = Suc (ns_depth (nodes t n))"
    have "ns_reach {..Suc d} t'" using reach_clone[OF t(1) _ _ _ t'(1)] Suc.prems by (simp add: atMost_Suc)
    moreover have "{k. ns_used t' k} = insert x {k. ns_used t k}" unfolding t'(4) by auto
    ultimately show ?thesis using t' t by (intro exI[of _ t'] exI[of _ x]) simp
  qed (use ns_reach_inv[OF t(1)] ns_reach_pids[OF t(1)] k t Suc.prems in simp_all)
qed

theorem clone_unchecked_limits_witness:
  "\<exists>t n. ns_reach {..7} t \<and> p_node (procs t 7) = Some n \<and> ns_depth (nodes t n) = 7 \<and> clone_ns (Some 7) 8 t = Fault"
proof -
  obtain t n where t: "ns_reach {..7} t" "p_node (procs t 7) = Some n" "ns_depth (nodes t n) = 7"
    using clone_depths[of 7] by auto
  then have "clone_ns (Some 7) 8 t = Fault" using clone_unchecked_limits[OF t(1), of 7 8] by simp
  then show ?thesis using t by blast
qed







end
