(* ===== verification/Kernel_Mem.thy ===== *)
theory Kernel_Mem
  imports Kernel_Prelude
begin

text \<open>
  Byte-addressed memory: reading and writing runs of bytes and little-endian 64-bit words. An address
  belongs to the run of \<open>n\<close> bytes at \<open>a\<close> when its distance from \<open>a\<close>, taken modulo \<open>2 ^ 64\<close>, is
  below \<open>n\<close>.
\<close>

type_synonym mem = "u64 \<Rightarrow> u8"

section \<open>Runs of bytes\<close>

definition load_bytes :: "mem \<Rightarrow> u64 \<Rightarrow> nat \<Rightarrow> u8 list" where
  "load_bytes m a n = map (\<lambda>i. m (a + of_nat i)) [0..<n]"

definition store_bytes :: "u64 \<Rightarrow> u8 list \<Rightarrow> mem \<Rightarrow> mem" where
  "store_bytes a bs m = (\<lambda>x. if unat (x - a) < length bs then bs ! unat (x - a) else m x)"

definition copy_bytes :: "u64 \<Rightarrow> u64 \<Rightarrow> nat \<Rightarrow> mem \<Rightarrow> mem" where
  "copy_bytes d s n m = (\<lambda>x. if unat (x - d) < n then m (s + (x - d)) else m x)"

definition fill_bytes :: "u64 \<Rightarrow> u8 \<Rightarrow> nat \<Rightarrow> mem \<Rightarrow> mem" where
  "fill_bytes d c n m = (\<lambda>x. if unat (x - d) < n then c else m x)"

definition apart :: "u64 \<Rightarrow> nat \<Rightarrow> u64 \<Rightarrow> nat \<Rightarrow> bool" where
  "apart a n b k \<longleftrightarrow> (\<forall>x. \<not> (unat (x - a) < n \<and> unat (x - b) < k))"

lemma load_bytes_length [simp]: "length (load_bytes m a n) = n"
  by (simp add: load_bytes_def)

lemma load_bytes_nth [simp]: "i < n \<Longrightarrow> load_bytes m a n ! i = m (a + of_nat i)"
  by (simp add: load_bytes_def)

lemma unat_of_nat64 [simp]: "n < 2 ^ 64 \<Longrightarrow> unat (of_nat n :: u64) = n"
  by (rule unat_of_nat_small) simp

lemma offset_eq_iff:
  assumes "n < 2 ^ 64"
  shows "x = a + of_nat n \<longleftrightarrow> unat (x - a :: u64) = n"
proof
  assume "unat (x - a) = n"
  then have "x - a = of_nat n" by (metis of_nat_unat ucast_id)
  then show "x = a + of_nat n" by (simp add: algebra_simps)
qed (use assms in simp)

lemma unat_diff_Suc:
  assumes "x \<noteq> (d :: u64)"
  shows "unat (x - d) = Suc (unat (x - (d + 1)))"
proof -
  have "x - d \<noteq> 0" using assms by simp
  then have "unat (x - d - 1) = unat (x - d) - 1" "unat (x - d) \<noteq> 0" by (simp_all add: unat_minus_one unat_eq_0)
  then show ?thesis by (simp add: diff_diff_eq)
qed

lemma load_store_same:
  assumes "length bs \<le> 2 ^ 64"
  shows "load_bytes (store_bytes a bs m) a (length bs) = bs"
proof (rule nth_equalityI)
  fix i assume "i < length (load_bytes (store_bytes a bs m) a (length bs))"
  then show "load_bytes (store_bytes a bs m) a (length bs) ! i = bs ! i" using assms by (simp add: store_bytes_def)
qed simp

lemma load_bytes_cong: "(\<And>i. i < n \<Longrightarrow> m (a + of_nat i) = m' (a + of_nat i)) \<Longrightarrow> load_bytes m a n = load_bytes m' a n"
  by (simp add: load_bytes_def)

lemma apart_sym: "apart a n b k \<Longrightarrow> apart b k a n"
  unfolding apart_def by blast

lemma load_store_apart:
  assumes "apart a n b (length bs)" "n \<le> 2 ^ 64"
  shows "load_bytes (store_bytes b bs m) a n = load_bytes m a n"
proof (rule load_bytes_cong)
  fix i assume "i < n"
  then have "unat (a + of_nat i - a) < n" using assms(2) by simp
  then show "store_bytes b bs m (a + of_nat i) = m (a + of_nat i)"
    using assms(1) unfolding apart_def store_bytes_def by auto
qed

lemma load_bytes_add: "load_bytes m a (n + k) = load_bytes m a n @ load_bytes m (a + of_nat n) k"
proof -
  have "map f [0..<n + k] = map f [0..<n] @ map (\<lambda>i. f (i + n)) [0..<k]" for f :: "nat \<Rightarrow> u8"
    by (induction k) (simp_all add: add.commute)
  from this[of "\<lambda>i. m (a + of_nat i)"] show ?thesis by (simp add: load_bytes_def ac_simps)
qed

lemma copy_bytes_store:
  assumes "n \<le> 2 ^ 64"
  shows "copy_bytes d s n m = store_bytes d (load_bytes m s n) m"
  by (rule ext) (simp add: copy_bytes_def store_bytes_def)

lemma fill_bytes_store: "fill_bytes d c n m = store_bytes d (replicate n c) m"
  by (rule ext) (simp add: fill_bytes_def store_bytes_def)

lemma store_bytes_Nil [simp]: "store_bytes a [] m = m"
  by (simp add: store_bytes_def)

text \<open>Runs of addresses that do not wrap around the end of the address space.\<close>

definition fits :: "u64 \<Rightarrow> nat \<Rightarrow> bool" where
  "fits a n \<longleftrightarrow> unat a + n \<le> 2 ^ 64"

lemma unat_sub_if: "unat (x - y :: u64) = (if unat y \<le> unat x then unat x - unat y else unat x + 2 ^ 64 - unat y)"
  by (simp add: unat_sub_if_size word_size)

lemma unat_minus_1 [simp]: "unat (- 1 :: u64) = 2 ^ 64 - 1"
  using unat_sub_if[of 0 1] by simp

lemma in_run_iff: "fits a n \<Longrightarrow> unat (x - a) < n \<longleftrightarrow> unat a \<le> unat x \<and> unat x < unat a + n"
proof -
  assume f: "fits a n"
  have x: "unat x < 2 ^ 64" using unsigned_less[of x] by simp
  show ?thesis
  proof (cases "unat a \<le> unat x")
    case True
    then show ?thesis unfolding unat_sub_if by simp linarith
  next
    case False
    then show ?thesis using f x unfolding unat_sub_if fits_def by simp
  qed
qed

lemma apart_iff:
  assumes "fits a n" "fits b k" "0 < n" "0 < k"
  shows "apart a n b k \<longleftrightarrow> unat a + n \<le> unat b \<or> unat b + k \<le> unat a"
proof
  assume ap: "apart a n b k"
  show "unat a + n \<le> unat b \<or> unat b + k \<le> unat a"
  proof (rule ccontr)
    assume "\<not> ?thesis"
    then have "unat (a - a) < n \<and> unat (a - b) < k \<or> unat (b - a) < n \<and> unat (b - b) < k"
      using assms by (auto simp: in_run_iff)
    then show False using ap unfolding apart_def by blast
  qed
qed (use assms in \<open>auto simp: apart_def in_run_iff\<close>)

section \<open>One byte at a time\<close>

lemma load_bytes_0 [simp]: "load_bytes m a 0 = []"
  by (simp add: load_bytes_def)

lemma load_bytes_Suc: "load_bytes m a (Suc n) = m a # load_bytes m (a + 1) n"
  using load_bytes_add[of m a 1 n] by (simp add: load_bytes_def)

lemma store_bytes_Cons:
  assumes "length bs < 2 ^ 64"
  shows "store_bytes a (b # bs) m = store_bytes (a + 1) bs (m(a := b))"
proof
  fix x
  show "store_bytes a (b # bs) m x = store_bytes (a + 1) bs (m(a := b)) x"
    using assms unat_diff_Suc[of x a] by (cases "x = a") (simp_all add: store_bytes_def)
qed

lemma apart_le: "apart a n b k \<Longrightarrow> n' \<le> n \<Longrightarrow> k' \<le> k \<Longrightarrow> apart a n' b k'"
  unfolding apart_def by (meson less_le_trans)

lemma apart_tl:
  assumes "apart a (Suc n) b k" "n < 2 ^ 64"
  shows "apart (a + 1) n b k"
  unfolding apart_def
proof (intro allI notI)
  fix x assume x: "unat (x - (a + 1)) < n \<and> unat (x - b) < k"
  show False
  proof (cases "x = a")
    case True
    then show False using x assms(2) by simp
  next
    case False
    then show False using x unat_diff_Suc[OF False] assms(1) unfolding apart_def by auto
  qed
qed

lemma apart_hd: "apart a (Suc n) b k \<Longrightarrow> i < k \<Longrightarrow> k \<le> 2 ^ 64 \<Longrightarrow> a \<noteq> b + of_nat i"
proof
  assume "apart a (Suc n) b k" "i < k" "k \<le> 2 ^ 64" "a = b + of_nat i"
  then have "unat (a - a) < Suc n \<and> unat (a - b) < k" by simp
  then show False using \<open>apart a (Suc n) b k\<close> unfolding apart_def by blast
qed

lemma load_bytes_upd_apart: "apart a (Suc n) b k \<Longrightarrow> k \<le> 2 ^ 64 \<Longrightarrow> load_bytes (m(a := v)) b k = load_bytes m b k"
  using apart_hd[of a n b k] by (intro load_bytes_cong) auto

section \<open>Little-endian words\<close>

definition word_bytes :: "nat \<Rightarrow> u64 \<Rightarrow> u8 list" where
  "word_bytes n w = map (\<lambda>i. ucast (drop_bit (8 * i) w)) [0..<n]"

primrec bytes_word :: "u8 list \<Rightarrow> u64" where
  "bytes_word [] = 0"
| "bytes_word (b # bs) = ucast b OR push_bit 8 (bytes_word bs)"

definition ld64 :: "mem \<Rightarrow> u64 \<Rightarrow> u64" where
  "ld64 m a = bytes_word (load_bytes m a 8)"

definition st64 :: "u64 \<Rightarrow> u64 \<Rightarrow> mem \<Rightarrow> mem" where
  "st64 a w m = store_bytes a (word_bytes 8 w) m"

lemma word_bytes_length [simp]: "length (word_bytes n w) = n"
  by (simp add: word_bytes_def)

lemma bit_bytes_word: "bit (bytes_word bs) k \<longleftrightarrow> k < 64 \<and> k div 8 < length bs \<and> bit (bs ! (k div 8)) (k mod 8)"
proof (induction bs arbitrary: k)
  case (Cons b bs)
  show ?case
  proof (cases "k < 8")
    case True
    then show ?thesis by (simp add: bit_or_iff bit_push_bit_iff bit_ucast_iff)
  next
    case False
    then obtain j where j: "k = j + 8" by (metis add.commute le_add_diff_inverse not_less)
    have "bit b k = False" using False bit_imp_le_length[of b k] by auto
    moreover have "(j + 8) div 8 = Suc (j div 8)" "(j + 8) mod 8 = j mod 8" by simp_all
    ultimately show ?thesis using Cons[of j] unfolding j by (auto simp: bit_or_iff bit_push_bit_iff bit_ucast_iff)
  qed
qed simp

lemma bytes_word_bytes: "bytes_word (word_bytes 8 w) = w"
proof (rule bit_word_eqI)
  fix k assume k: "k < LENGTH(64)"
  have "8 * (k div 8) + k mod 8 = k" "k div 8 < 8" using k by auto
  then show "bit (bytes_word (word_bytes 8 w)) k = bit w k"
    using k by (simp add: bit_bytes_word word_bytes_def bit_ucast_iff bit_drop_bit_eq del: upt_rec_numeral)
qed

lemma ld64_st64_same [simp]: "ld64 (st64 a w m) a = w"
  using load_store_same[of "word_bytes 8 w" a m] by (simp add: ld64_def st64_def bytes_word_bytes)

lemma ld64_st64_apart: "apart a 8 b 8 \<Longrightarrow> ld64 (st64 b w m) a = ld64 m a"
  unfolding ld64_def st64_def by (subst load_store_apart) simp_all

lemma ld64_store_apart: "apart a 8 b (length bs) \<Longrightarrow> ld64 (store_bytes b bs m) a = ld64 m a"
  unfolding ld64_def by (subst load_store_apart) simp_all

end
