(* ===== verification/Kstring.thy ===== *)
theory Kstring
  imports Kernel_Mem
begin

text \<open>
  \<open>kernel/string.c\<close> on byte memory. The sizes are the values of the \<open>uint\<close> or \<open>int\<close> arguments; the loops
  that count down run on the size. \<open>strlen\<close> has no bound and is a partial function: no result means that
  the memory holds no zero byte the loop could stop at.

  A C string is described by the list of its characters (\<open>cstr_at\<close>); the routines on fixed-size name fields
  (\<open>strncmp\<close>, \<open>strncpy\<close>, \<open>safestrcpy\<close>) also have a version on lists of bytes, which the components that keep
  such fields in records use, and a lemma that the memory version does the same.
\<close>

section \<open>Blocks of memory\<close>

definition memset :: "u64 \<Rightarrow> int \<Rightarrow> nat \<Rightarrow> mem \<Rightarrow> mem" where
  "memset dst c n m = fold (\<lambda>i m. m(dst + of_nat i := word_of_int c)) [0..<n] m"

primrec memcmp :: "u64 \<Rightarrow> u64 \<Rightarrow> nat \<Rightarrow> mem \<Rightarrow> int" where
  "memcmp s1 s2 0 m = 0"
| "memcmp s1 s2 (Suc n) m =
    (if m s1 \<noteq> m s2 then uint (m s1) - uint (m s2) else memcmp (s1 + 1) (s2 + 1) n m)"

primrec move_down :: "nat \<Rightarrow> u64 \<Rightarrow> u64 \<Rightarrow> mem \<Rightarrow> mem" where
  "move_down 0 d s m = m"
| "move_down (Suc n) d s m = move_down n (d - 1) (s - 1) (m(d - 1 := m (s - 1)))"

primrec move_up :: "nat \<Rightarrow> u64 \<Rightarrow> u64 \<Rightarrow> mem \<Rightarrow> mem" where
  "move_up 0 d s m = m"
| "move_up (Suc n) d s m = move_up n (d + 1) (s + 1) (m(d := m s))"

definition memmove :: "u64 \<Rightarrow> u64 \<Rightarrow> nat \<Rightarrow> mem \<Rightarrow> mem" where
  "memmove dst src n m =
    (if n = 0 then m
     else if src < dst \<and> src + of_nat n > dst then move_down n (dst + of_nat n) (src + of_nat n) m
     else move_up n dst src m)"

definition memcpy :: "u64 \<Rightarrow> u64 \<Rightarrow> nat \<Rightarrow> mem \<Rightarrow> mem" where
  "memcpy dst src n m = memmove dst src n m"

section \<open>Strings\<close>

primrec strncmp :: "u64 \<Rightarrow> u64 \<Rightarrow> nat \<Rightarrow> mem \<Rightarrow> int" where
  "strncmp p q 0 m = 0"
| "strncmp p q (Suc n) m =
    (if m p \<noteq> 0 \<and> m p = m q then strncmp (p + 1) (q + 1) n m else uint (m p) - uint (m q))"

text \<open>The second loop of \<open>strncpy\<close>, then the first one, which hands over to it.\<close>

primrec strncpy_pad :: "u64 \<Rightarrow> nat \<Rightarrow> mem \<Rightarrow> mem" where
  "strncpy_pad s 0 m = m"
| "strncpy_pad s (Suc n) m = strncpy_pad (s + 1) n (m(s := 0))"

primrec strncpy :: "u64 \<Rightarrow> u64 \<Rightarrow> nat \<Rightarrow> mem \<Rightarrow> mem" where
  "strncpy s t 0 m = m"
| "strncpy s t (Suc n) m =
    (let m' = m(s := m t) in if m t \<noteq> 0 then strncpy (s + 1) (t + 1) n m' else strncpy_pad (s + 1) n m')"

primrec safestrcpy_loop :: "nat \<Rightarrow> u64 \<Rightarrow> u64 \<Rightarrow> mem \<Rightarrow> mem" where
  "safestrcpy_loop 0 s t m = m(s := 0)"
| "safestrcpy_loop (Suc n) s t m =
    (let m' = m(s := m t) in if m t \<noteq> 0 then safestrcpy_loop n (s + 1) (t + 1) m' else m'(s + 1 := 0))"

definition safestrcpy :: "u64 \<Rightarrow> u64 \<Rightarrow> int \<Rightarrow> mem \<Rightarrow> mem" where
  "safestrcpy s t n m = (if n \<le> 0 then m else safestrcpy_loop (nat (n - 1)) s t m)"

partial_function (option) strlen_loop :: "mem \<Rightarrow> u64 \<Rightarrow> nat \<Rightarrow> nat option" where
  "strlen_loop m s n = (if m (s + of_nat n) \<noteq> 0 then strlen_loop m s (n + 1) else Some n)"

definition strlen :: "u64 \<Rightarrow> mem \<Rightarrow> nat option" where
  "strlen s m = strlen_loop m s 0"

section \<open>Correctness of the block operations\<close>

lemma memset_fill: "n \<le> 2 ^ 64 \<Longrightarrow> memset dst c n m = fill_bytes dst (word_of_int c) n m"
proof (induction n)
  case (Suc n)
  then have "n < 2 ^ 64" by simp
  then show ?case using Suc unfolding memset_def by (auto simp: fill_bytes_def fun_eq_iff offset_eq_iff less_Suc_eq)
qed (simp add: memset_def fill_bytes_def)

lemma copy_bytes_step_up:
  assumes "n < 2 ^ 64" "unat (d - s) = 0 \<or> Suc n \<le> unat (d - s)"
  shows "copy_bytes (d + 1) (s + 1) n (m(d := m s)) = copy_bytes d s (Suc n) m"
proof
  fix x
  show "copy_bytes (d + 1) (s + 1) n (m(d := m s)) x = copy_bytes d s (Suc n) m x"
  proof (cases "x = d")
    case True
    then show ?thesis using assms(1) by (simp add: copy_bytes_def)
  next
    case False
    have "s + (x - d) \<noteq> d" if "unat (x - d) < Suc n"
    proof
      assume "s + (x - d) = d"
      then have "x - d = d - s" by (simp add: algebra_simps)
      then show False using assms(2) that False by (auto simp: unat_eq_0)
    qed
    then show ?thesis using unat_diff_Suc[OF False] False by (simp add: copy_bytes_def algebra_simps)
  qed
qed

lemma move_up_copy:
  "n \<le> 2 ^ 64 \<Longrightarrow> unat (d - s) = 0 \<or> n \<le> unat (d - s) \<Longrightarrow> move_up n d s m = copy_bytes d s n m"
proof (induction n arbitrary: d s m)
  case (Suc n)
  then have "move_up n (d + 1) (s + 1) (m(d := m s)) = copy_bytes (d + 1) (s + 1) n (m(d := m s))"
    by (intro Suc.IH) auto
  then show ?case using copy_bytes_step_up[of n d s m] Suc.prems by simp
qed (simp add: copy_bytes_def)

lemma copy_bytes_step_down:
  assumes "n < 2 ^ 64" "unat (s - d) = 0 \<or> Suc n \<le> unat (s - d)"
  shows "copy_bytes d s n (m(d + of_nat n := m (s + of_nat n))) = copy_bytes d s (Suc n) m"
proof
  fix x
  show "copy_bytes d s n (m(d + of_nat n := m (s + of_nat n))) x = copy_bytes d s (Suc n) m x"
  proof (cases "x = d + of_nat n")
    case True
    then show ?thesis using assms(1) by (simp add: copy_bytes_def)
  next
    case False
    then have x: "unat (x - d) \<noteq> n" using assms(1) by (simp add: offset_eq_iff)
    have "s + (x - d) \<noteq> d + of_nat n" if "unat (x - d) < n"
    proof
      assume "s + (x - d) = d + of_nat n"
      then have "s - d = of_nat n - (x - d)" by (simp add: algebra_simps)
      moreover have "unat (of_nat n - (x - d)) = n - unat (x - d)" using that assms(1) by (simp add: unat_sub_if)
      ultimately have "unat (s - d) = n - unat (x - d)" by (simp only:)
      then show False using assms(2) that by linarith
    qed
    then show ?thesis using x False by (auto simp: copy_bytes_def)
  qed
qed

lemma move_down_copy:
  "n \<le> 2 ^ 64 \<Longrightarrow> unat (s - d) = 0 \<or> n \<le> unat (s - d) \<Longrightarrow>
    move_down n (d + of_nat n) (s + of_nat n) m = copy_bytes d s n m"
proof (induction n arbitrary: m)
  case (Suc n)
  have "move_down (Suc n) (d + of_nat (Suc n)) (s + of_nat (Suc n)) m
      = move_down n (d + of_nat n) (s + of_nat n) (m(d + of_nat n := m (s + of_nat n)))" by (simp add: algebra_simps)
  also have "\<dots> = copy_bytes d s n (m(d + of_nat n := m (s + of_nat n)))" using Suc.prems by (intro Suc.IH) auto
  finally show ?case using copy_bytes_step_down[of n s d m] Suc.prems by simp
qed (simp add: copy_bytes_def)

text \<open>\<open>memmove\<close> copies as if through a temporary buffer, overlapping regions included.\<close>

lemma memmove_copy:
  assumes "unat src + n < 2 ^ 64" "n < 2 ^ 32"
  shows "memmove dst src n m = copy_bytes dst src n m"
proof -
  have e: "unat (src + of_nat n) = unat src + n" using assms by (intro unat_add_of_nat) simp
  show ?thesis
  proof (cases "src < dst \<and> src + of_nat n > dst")
    case True
    then have "n \<le> unat (src - dst)" using e assms(2) by (simp add: unat_sub_if word_less_nat_alt) linarith
    then show ?thesis using True assms(2) move_down_copy[of n src dst m] by (auto simp: memmove_def copy_bytes_def)
  next
    case False
    have "unat (dst - src) = 0 \<or> n \<le> unat (dst - src)"
    proof (cases "src < dst")
      case True
      then show ?thesis using False e by (simp add: unat_sub_if word_less_nat_alt)
    next
      case False
      then show ?thesis using assms(1) by (auto simp: unat_sub_if word_less_nat_alt)
    qed
    then show ?thesis using False assms(2) move_up_copy[of n dst src m] by (auto simp: memmove_def copy_bytes_def)
  qed
qed

section \<open>Name fields as lists of bytes\<close>

definition cstr :: "u8 list \<Rightarrow> u8 list" where
  "cstr xs = takeWhile (\<lambda>c. c \<noteq> 0) xs"

fun strncmp_list :: "nat \<Rightarrow> u8 list \<Rightarrow> u8 list \<Rightarrow> int" where
  "strncmp_list (Suc n) (x # xs) (y # ys) = (if x \<noteq> 0 \<and> x = y then strncmp_list n xs ys else uint x - uint y)"
| "strncmp_list n xs ys = 0"

definition strncpy_list :: "nat \<Rightarrow> u8 list \<Rightarrow> u8 list" where
  "strncpy_list n t = (let c = cstr (take n t) in c @ replicate (n - length c) 0)"

definition safestrcpy_list :: "nat \<Rightarrow> u8 list \<Rightarrow> u8 list \<Rightarrow> u8 list" where
  "safestrcpy_list n t old =
    (if n = 0 then old
     else let c = cstr (take (n - 1) t); z = (if length c < n - 1 then [0, 0] else [0])
          in c @ z @ drop (length c + length z) old)"

lemma cstr_simps [simp]: "cstr [] = []" "cstr (x # xs) = (if x = 0 then [] else x # cstr xs)"
  by (simp_all add: cstr_def)

lemma cstr_length: "length (cstr xs) \<le> length xs"
  by (simp add: cstr_def length_takeWhile_le)

lemma strncmp_list: "strncmp p q n m = strncmp_list n (load_bytes m p n) (load_bytes m q n)"
  by (induction n arbitrary: p q) (simp_all add: load_bytes_Suc)

text \<open>Two name fields compare equal exactly when they hold the same name.\<close>

lemma strncmp_list_eq_0:
  "length xs = n \<Longrightarrow> length ys = n \<Longrightarrow> strncmp_list n xs ys = 0 \<longleftrightarrow> cstr xs = cstr ys"
proof (induction n xs ys rule: strncmp_list.induct)
  case (1 n x xs y ys)
  then show ?case by (auto simp: word_uint_eq_iff)
qed auto

lemma strncpy_pad_fill: "n < 2 ^ 64 \<Longrightarrow> strncpy_pad s n m = store_bytes s (replicate n 0) m"
  by (induction n arbitrary: s m) (simp_all add: store_bytes_Cons)

lemma strncpy_list: "apart s n t n \<Longrightarrow> n < 2 ^ 64 \<Longrightarrow> strncpy s t n m = store_bytes s (strncpy_list n (load_bytes m t n)) m"
proof (induction n arbitrary: s t m)
  case (Suc n)
  have ap: "apart (s + 1) n (t + 1) n" "apart s (Suc n) (t + 1) n"
    using apart_tl[OF apart_sym[OF Suc.prems(1)]] apart_tl[OF apart_tl[OF apart_sym[OF Suc.prems(1)], THEN apart_sym]] Suc.prems(2)
    by (auto intro: apart_sym)
  have l: "load_bytes (m(s := m t)) (t + 1) n = load_bytes m (t + 1) n"
    using ap(2) Suc.prems(2) by (intro load_bytes_upd_apart) simp_all
  have len: "length (strncpy_list n (load_bytes m (t + 1) n)) < 2 ^ 64"
    using Suc.prems(2) cstr_length[of "load_bytes m (t + 1) n"] by (simp add: strncpy_list_def Let_def)
  show ?case
  proof (cases "m t = 0")
    case True
    then show ?thesis using Suc.prems(2) by (simp add: strncpy_list_def load_bytes_Suc strncpy_pad_fill store_bytes_Cons)
  next
    case False
    then have "strncpy_list (Suc n) (load_bytes m t (Suc n)) = m t # strncpy_list n (load_bytes m (t + 1) n)"
      by (simp add: strncpy_list_def load_bytes_Suc Let_def)
    then show ?thesis using False Suc.IH[OF ap(1), of "m(s := m t)"] Suc.prems(2) l len by (simp add: store_bytes_Cons Let_def del: fun_upd_apply)
  qed
qed (simp add: strncpy_list_def)

lemma safestrcpy_loop_list:
  "apart s (Suc n) t n \<Longrightarrow> n < 2 ^ 63 \<Longrightarrow> safestrcpy_loop n s t m
    = store_bytes s (cstr (load_bytes m t n) @ (if length (cstr (load_bytes m t n)) < n then [0, 0] else [0])) m"
proof (induction n arbitrary: s t m)
  case 0
  then show ?case by (simp add: store_bytes_Cons)
next
  case (Suc n)
  have ap: "apart (s + 1) (Suc n) (t + 1) n" "apart s (Suc (Suc n)) (t + 1) n"
    using apart_tl[OF apart_sym[OF Suc.prems(1)]] apart_tl[OF apart_tl[OF apart_sym[OF Suc.prems(1)], THEN apart_sym]] Suc.prems(2)
    by (auto intro: apart_sym)
  have l: "load_bytes (m(s := m t)) (t + 1) n = load_bytes m (t + 1) n"
    using ap(2) Suc.prems(2) by (intro load_bytes_upd_apart) simp_all
  have len: "length (cstr (load_bytes m (t + 1) n)) \<le> n" using cstr_length[of "load_bytes m (t + 1) n"] by simp
  show ?case
  proof (cases "m t = 0")
    case True
    then show ?thesis by (simp add: load_bytes_Suc store_bytes_Cons Let_def)
  next
    case False
    then show ?thesis using Suc.IH[OF ap(1), of "m(s := m t)"] Suc.prems(2) l len
      by (simp add: load_bytes_Suc store_bytes_Cons Let_def del: fun_upd_apply)
  qed
qed

section \<open>Termination of \<open>strlen\<close>\<close>

definition cstr_at :: "mem \<Rightarrow> u64 \<Rightarrow> u8 list \<Rightarrow> bool" where
  "cstr_at m s xs \<longleftrightarrow> (\<forall>i<length xs. m (s + of_nat i) = xs ! i \<and> xs ! i \<noteq> 0) \<and> m (s + of_nat (length xs)) = 0"

lemma strlen_loop_cstr: "cstr_at m s xs \<Longrightarrow> n \<le> length xs \<Longrightarrow> strlen_loop m s n = Some (length xs)"
proof (induction "length xs - n" arbitrary: n)
  case 0
  then show ?case by (subst strlen_loop.simps) (simp add: cstr_at_def)
next
  case (Suc k)
  then have "strlen_loop m s (n + 1) = Some (length xs)" "n < length xs" by auto
  then show ?case using Suc.prems by (subst strlen_loop.simps) (simp add: cstr_at_def)
qed

lemma strlen_cstr: "cstr_at m s xs \<Longrightarrow> strlen s m = Some (length xs)"
  unfolding strlen_def by (rule strlen_loop_cstr) simp_all

lemma strlen_loop_Some:
  assumes "strlen_loop m s n = Some k"
  shows "n \<le> k \<and> (\<forall>i. n \<le> i \<longrightarrow> i < k \<longrightarrow> m (s + of_nat i) \<noteq> 0) \<and> m (s + of_nat k) = 0"
proof (rule strlen_loop.raw_induct[OF _ assms])
  fix f and m :: mem and s :: u64 and n k :: nat
  assume IH: "\<And>m s n k. f m s n = Some k \<Longrightarrow> n \<le> k \<and> (\<forall>i. n \<le> i \<longrightarrow> i < k \<longrightarrow> m (s + of_nat i) \<noteq> 0) \<and> m (s + of_nat k) = 0"
    and body: "(if m (s + of_nat n) \<noteq> 0 then f m s (n + 1) else Some n) = Some k"
  show "n \<le> k \<and> (\<forall>i. n \<le> i \<longrightarrow> i < k \<longrightarrow> m (s + of_nat i) \<noteq> 0) \<and> m (s + of_nat k) = 0"
  proof (cases "m (s + of_nat n) = 0")
    case True
    then show ?thesis using body by auto
  next
    case False
    then have *: "Suc n \<le> k" "\<forall>i. Suc n \<le> i \<longrightarrow> i < k \<longrightarrow> m (s + of_nat i) \<noteq> 0" "m (s + of_nat k) = 0"
      using IH[of m s "n + 1" k] body by auto
    have "m (s + of_nat i) \<noteq> 0" if "n \<le> i" "i < k" for i
      using that False *(2) by (cases "i = n") auto
    then show ?thesis using * by auto
  qed
qed

lemma strlen_Some_iff: "strlen s m = Some k \<longleftrightarrow> cstr_at m s (load_bytes m s k)"
proof
  assume "strlen s m = Some k"
  then show "cstr_at m s (load_bytes m s k)" using strlen_loop_Some[of m s 0 k] unfolding strlen_def by (auto simp: cstr_at_def)
next
  assume "cstr_at m s (load_bytes m s k)"
  then show "strlen s m = Some k" using strlen_cstr by fastforce
qed

end
