(* ===== verification/VM.thy ===== *)
theory VM
  imports Kalloc Kstring
begin

text \<open>
  Virtual memory (\<open>kernel/vm.c\<close>): the routines on Sv39 page tables, over byte-addressed physical memory
  and the page allocator. A page table is the physical address of its root page, a \<open>pte_t *\<close> the address of
  the entry, 0 the null pointer.

  The kernel buffers that \<open>copyout\<close>, \<open>copyin\<close> and \<open>copyinstr\<close> copy from and to are lists of bytes: \<open>copyout\<close>
  takes the bytes to write, \<open>copyin\<close> and \<open>copyinstr\<close> return the bytes they have put into the buffer, also when
  they fail half way. Loops that test an address carry fuel, computed from the bounds of the loop so that the
  test ends the loop first; out of fuel is \<open>Hang\<close>.
\<close>

record vm =
  vm_mem :: mem
  vm_alloc :: buddy

definition kalloc_vm :: "nat \<Rightarrow> vm \<Rightarrow> (u64 \<times> vm) res" where
  "kalloc_vm me s = bind_res (kalloc me (vm_alloc s)) (\<lambda>(p, b). Ret (p, s\<lparr>vm_alloc := b\<rparr>))"

definition kfree_vm :: "nat \<Rightarrow> u64 \<Rightarrow> vm \<Rightarrow> vm res" where
  "kfree_vm me p s = bind_res (kfree me p (vm_alloc s)) (\<lambda>b. Ret (s\<lparr>vm_alloc := b\<rparr>))"

definition zero_page :: "u64 \<Rightarrow> vm \<Rightarrow> vm" where
  "zero_page p s = s\<lparr>vm_mem := memset p 0 PGSIZE (vm_mem s)\<rparr>"

text \<open>Reading and writing \<open>*pte\<close>.\<close>

definition get_pte :: "vm \<Rightarrow> u64 \<Rightarrow> u64" where
  "get_pte s pte = ld64 (vm_mem s) pte"

definition set_pte :: "u64 \<Rightarrow> u64 \<Rightarrow> vm \<Rightarrow> vm" where
  "set_pte pte v s = s\<lparr>vm_mem := st64 pte v (vm_mem s)\<rparr>"

definition pte_at :: "u64 \<Rightarrow> nat \<Rightarrow> u64" where
  "pte_at pagetable i = pagetable + of_nat (8 * i)"

section \<open>Walking a page table\<close>

primrec walk_loop :: "nat \<Rightarrow> nat \<Rightarrow> u64 \<Rightarrow> u64 \<Rightarrow> bool \<Rightarrow> vm \<Rightarrow> (u64 \<times> vm) res" where
  "walk_loop me 0 pagetable va alloc s = Ret (pte_at pagetable (PX 0 va), s)"
| "walk_loop me (Suc l) pagetable va alloc s =
    (let pte = pte_at pagetable (PX (Suc l) va)
     in if get_pte s pte AND PTE_V \<noteq> 0 then walk_loop me l (PTE2PA (get_pte s pte)) va alloc s
        else if \<not> alloc then Ret (0, s)
        else bind_res (kalloc_vm me s) (\<lambda>(pg, s1).
          if pg = 0 then Ret (0, s1)
          else walk_loop me l pg va alloc (set_pte pte (PA2PTE pg OR PTE_V) (zero_page pg s1))))"

definition walk :: "nat \<Rightarrow> u64 \<Rightarrow> u64 \<Rightarrow> bool \<Rightarrow> vm \<Rightarrow> (u64 \<times> vm) res" where
  "walk me pagetable va alloc s =
    (if unat va \<ge> MAXVA then Panic ''walk'' else walk_loop me 2 pagetable va alloc s)"

definition walkaddr :: "nat \<Rightarrow> u64 \<Rightarrow> u64 \<Rightarrow> vm \<Rightarrow> u64 res" where
  "walkaddr me pagetable va s =
    (if unat va \<ge> MAXVA then Ret 0
     else bind_res (walk me pagetable va False s) (\<lambda>(pte, s1).
       if pte = 0 then Ret 0
       else if get_pte s1 pte AND PTE_V = 0 then Ret 0
       else if get_pte s1 pte AND PTE_U = 0 then Ret 0
       else Ret (PTE2PA (get_pte s1 pte))))"

section \<open>Mapping and unmapping\<close>

fun mappages_loop :: "nat \<Rightarrow> nat \<Rightarrow> u64 \<Rightarrow> u64 \<Rightarrow> u64 \<Rightarrow> u64 \<Rightarrow> u64 \<Rightarrow> vm \<Rightarrow> (int \<times> vm) res" where
  "mappages_loop me 0 pagetable a last_a pa perm s = Hang"
| "mappages_loop me (Suc fuel) pagetable a last_a pa perm s =
    bind_res (walk me pagetable a True s) (\<lambda>(pte, s1).
      if pte = 0 then Ret (- 1, s1)
      else if get_pte s1 pte AND PTE_V \<noteq> 0 then Panic ''mappages: remap''
      else let s2 = set_pte pte (PA2PTE pa OR perm OR PTE_V) s1
           in if a = last_a then Ret (0, s2)
              else mappages_loop me fuel pagetable (a + of_nat PGSIZE) last_a (pa + of_nat PGSIZE) perm s2)"

definition mappages :: "nat \<Rightarrow> u64 \<Rightarrow> u64 \<Rightarrow> u64 \<Rightarrow> u64 \<Rightarrow> u64 \<Rightarrow> vm \<Rightarrow> (int \<times> vm) res" where
  "mappages me pagetable va sz pa perm s =
    (if sz = 0 then Panic ''mappages: size''
     else let a = PGROUNDDOWN va; last_a = PGROUNDDOWN (va + sz - 1)
          in mappages_loop me (Suc (unat (last_a - a) div PGSIZE)) pagetable a last_a pa perm s)"

definition kvmmap :: "nat \<Rightarrow> u64 \<Rightarrow> u64 \<Rightarrow> u64 \<Rightarrow> u64 \<Rightarrow> u64 \<Rightarrow> vm \<Rightarrow> vm res" where
  "kvmmap me kpgtbl va pa sz perm s =
    bind_res (mappages me kpgtbl va sz pa perm s) (\<lambda>(r, s1). if r \<noteq> 0 then Panic ''kvmmap'' else Ret s1)"

fun uvmunmap_loop :: "nat \<Rightarrow> nat \<Rightarrow> u64 \<Rightarrow> u64 \<Rightarrow> u64 \<Rightarrow> bool \<Rightarrow> vm \<Rightarrow> vm res" where
  "uvmunmap_loop me 0 pagetable a end_a do_free s = Hang"
| "uvmunmap_loop me (Suc fuel) pagetable a end_a do_free s =
    (if a < end_a then
       bind_res (walk me pagetable a False s) (\<lambda>(pte, s1).
         if pte = 0 then Panic ''uvmunmap: walk''
         else if get_pte s1 pte AND PTE_V = 0 then Panic ''uvmunmap: not mapped''
         else if PTE_FLAGS (get_pte s1 pte) = PTE_V then Panic ''uvmunmap: not a leaf''
         else bind_res (if do_free then kfree_vm me (PTE2PA (get_pte s1 pte)) s1 else Ret s1) (\<lambda>s2.
           uvmunmap_loop me fuel pagetable (a + of_nat PGSIZE) end_a do_free (set_pte pte 0 s2)))
     else Ret s)"

definition uvmunmap :: "nat \<Rightarrow> u64 \<Rightarrow> u64 \<Rightarrow> u64 \<Rightarrow> bool \<Rightarrow> vm \<Rightarrow> vm res" where
  "uvmunmap me pagetable va npages do_free s =
    (if unat va mod PGSIZE \<noteq> 0 then Panic ''uvmunmap: not aligned''
     else uvmunmap_loop me (Suc (unat npages)) pagetable va (va + npages * of_nat PGSIZE) do_free s)"

section \<open>User page tables\<close>

definition uvmcreate :: "nat \<Rightarrow> vm \<Rightarrow> (u64 \<times> vm) res" where
  "uvmcreate me s =
    bind_res (kalloc_vm me s) (\<lambda>(pagetable, s1).
      if pagetable = 0 then Ret (0, s1) else Ret (pagetable, zero_page pagetable s1))"

definition uvmfirst :: "nat \<Rightarrow> u64 \<Rightarrow> u8 list \<Rightarrow> vm \<Rightarrow> vm res" where
  "uvmfirst me pagetable src s =
    (if length src \<ge> PGSIZE then Panic ''uvmfirst: more than a page''
     else bind_res (kalloc_vm me s) (\<lambda>(mm, s1).
       if mm = 0 then Fault
       else bind_res (mappages me pagetable 0 (of_nat PGSIZE) mm (PTE_W OR PTE_R OR PTE_X OR PTE_U) (zero_page mm s1)) (\<lambda>(r, s2).
       Ret (s2\<lparr>vm_mem := store_bytes mm src (vm_mem s2)\<rparr>))))"

definition uvmdealloc :: "nat \<Rightarrow> u64 \<Rightarrow> u64 \<Rightarrow> u64 \<Rightarrow> vm \<Rightarrow> (u64 \<times> vm) res" where
  "uvmdealloc me pagetable oldsz newsz s =
    (if newsz \<ge> oldsz then Ret (oldsz, s)
     else if PGROUNDUP newsz < PGROUNDUP oldsz then
       let npages = ((PGROUNDUP oldsz - PGROUNDUP newsz) div of_nat PGSIZE)
       in bind_res (uvmunmap me pagetable (PGROUNDUP newsz) (scast (ucast npages :: 32 word)) True s) (\<lambda>s1. Ret (newsz, s1))
     else Ret (newsz, s))"

fun uvmalloc_loop :: "nat \<Rightarrow> nat \<Rightarrow> u64 \<Rightarrow> u64 \<Rightarrow> u64 \<Rightarrow> u64 \<Rightarrow> u64 \<Rightarrow> vm \<Rightarrow> (u64 \<times> vm) res" where
  "uvmalloc_loop me 0 pagetable a oldsz newsz xperm s = Hang"
| "uvmalloc_loop me (Suc fuel) pagetable a oldsz newsz xperm s =
    (if a < newsz then
       bind_res (kalloc_vm me s) (\<lambda>(mm, s1).
         if mm = 0 then bind_res (uvmdealloc me pagetable a oldsz s1) (\<lambda>(_, s2). Ret (0, s2))
         else bind_res (mappages me pagetable a (of_nat PGSIZE) mm (PTE_R OR PTE_U OR xperm) (zero_page mm s1)) (\<lambda>(r, s2).
           if r \<noteq> 0 then bind_res (kfree_vm me mm s2) (\<lambda>s3. bind_res (uvmdealloc me pagetable a oldsz s3) (\<lambda>(_, s4). Ret (0, s4)))
           else uvmalloc_loop me fuel pagetable (a + of_nat PGSIZE) oldsz newsz xperm s2))
     else Ret (newsz, s))"

definition uvmalloc :: "nat \<Rightarrow> u64 \<Rightarrow> u64 \<Rightarrow> u64 \<Rightarrow> u64 \<Rightarrow> vm \<Rightarrow> (u64 \<times> vm) res" where
  "uvmalloc me pagetable oldsz newsz xperm s =
    (if newsz < oldsz then Ret (oldsz, s)
     else let old = PGROUNDUP oldsz
          in uvmalloc_loop me (unat (newsz - old) div PGSIZE + 2) pagetable old old newsz xperm s)"

text \<open>The recursion of \<open>freewalk\<close> descends one level per call; a tree has three.\<close>

primrec freewalk :: "nat \<Rightarrow> nat \<Rightarrow> u64 \<Rightarrow> vm \<Rightarrow> vm res" where
  "freewalk me 0 pagetable s = Hang"
| "freewalk me (Suc fuel) pagetable s =
    bind_res (foldM (\<lambda>i s.
      let pte = get_pte s (pte_at pagetable i)
      in if pte AND PTE_V \<noteq> 0 \<and> pte AND (PTE_R OR PTE_W OR PTE_X) = 0 then
           bind_res (freewalk me fuel (PTE2PA pte) s) (\<lambda>s1. Ret (set_pte (pte_at pagetable i) 0 s1))
         else if pte AND PTE_V \<noteq> 0 then Panic ''freewalk: leaf''
         else Ret s) [0..<512] s) (kfree_vm me pagetable)"

definition uvmfree :: "nat \<Rightarrow> u64 \<Rightarrow> u64 \<Rightarrow> vm \<Rightarrow> vm res" where
  "uvmfree me pagetable sz s =
    bind_res (if sz > 0 then uvmunmap me pagetable 0 (PGROUNDUP sz div of_nat PGSIZE) True s else Ret s) (freewalk me 3 pagetable)"

text \<open>The jump to \<open>err\<close> in \<open>uvmcopy\<close> unmaps what has been copied so far.\<close>

definition uvmcopy_err :: "nat \<Rightarrow> u64 \<Rightarrow> u64 \<Rightarrow> vm \<Rightarrow> (int \<times> vm) res" where
  "uvmcopy_err me new i s = bind_res (uvmunmap me new 0 (i div of_nat PGSIZE) True s) (\<lambda>s1. Ret (- 1, s1))"

fun uvmcopy_loop :: "nat \<Rightarrow> nat \<Rightarrow> u64 \<Rightarrow> u64 \<Rightarrow> u64 \<Rightarrow> u64 \<Rightarrow> vm \<Rightarrow> (int \<times> vm) res" where
  "uvmcopy_loop me 0 old new i sz s = Hang"
| "uvmcopy_loop me (Suc fuel) old new i sz s =
    (if i < sz then
       bind_res (walk me old i False s) (\<lambda>(pte, s1).
         if pte = 0 then Panic ''uvmcopy: pte should exist''
         else if get_pte s1 pte AND PTE_V = 0 then Panic ''uvmcopy: page not present''
         else let pa = PTE2PA (get_pte s1 pte); flags = PTE_FLAGS (get_pte s1 pte)
              in bind_res (kalloc_vm me s1) (\<lambda>(mm, s2).
                if mm = 0 then uvmcopy_err me new i s2
                else let s3 = s2\<lparr>vm_mem := memmove mm pa PGSIZE (vm_mem s2)\<rparr>
                     in bind_res (mappages me new i (of_nat PGSIZE) mm flags s3) (\<lambda>(r, s4).
                       if r \<noteq> 0 then bind_res (kfree_vm me mm s4) (uvmcopy_err me new i)
                       else uvmcopy_loop me fuel old new (i + of_nat PGSIZE) sz s4)))
     else Ret (0, s))"

definition uvmcopy :: "nat \<Rightarrow> u64 \<Rightarrow> u64 \<Rightarrow> u64 \<Rightarrow> vm \<Rightarrow> (int \<times> vm) res" where
  "uvmcopy me old new sz s = uvmcopy_loop me (unat sz div PGSIZE + 2) old new 0 sz s"

definition uvmclear :: "nat \<Rightarrow> u64 \<Rightarrow> u64 \<Rightarrow> vm \<Rightarrow> vm res" where
  "uvmclear me pagetable va s =
    bind_res (walk me pagetable va False s) (\<lambda>(pte, s1).
      if pte = 0 then Panic ''uvmclear'' else Ret (set_pte pte (get_pte s1 pte AND NOT PTE_U) s1))"

section \<open>Copying between kernel and user\<close>

fun copyout_loop :: "nat \<Rightarrow> nat \<Rightarrow> u64 \<Rightarrow> u64 \<Rightarrow> u8 list \<Rightarrow> vm \<Rightarrow> (int \<times> vm) res" where
  "copyout_loop me 0 pagetable dstva src s = Hang"
| "copyout_loop me (Suc fuel) pagetable dstva src s =
    (if src = [] then Ret (0, s)
     else let va0 = PGROUNDDOWN dstva
          in bind_res (walkaddr me pagetable va0 s) (\<lambda>pa0.
            if pa0 = 0 then Ret (- 1, s)
            else let n = min (PGSIZE - unat (dstva - va0)) (length src)
                 in copyout_loop me fuel pagetable (va0 + of_nat PGSIZE) (drop n src)
                      (s\<lparr>vm_mem := store_bytes (pa0 + (dstva - va0)) (take n src) (vm_mem s)\<rparr>)))"

definition copyout :: "nat \<Rightarrow> u64 \<Rightarrow> u64 \<Rightarrow> u8 list \<Rightarrow> vm \<Rightarrow> (int \<times> vm) res" where
  "copyout me pagetable dstva src s = copyout_loop me (length src + 1) pagetable dstva src s"

fun copyin_loop :: "nat \<Rightarrow> nat \<Rightarrow> u64 \<Rightarrow> u64 \<Rightarrow> nat \<Rightarrow> u8 list \<Rightarrow> vm \<Rightarrow> (int \<times> u8 list) res" where
  "copyin_loop me 0 pagetable srcva len dst s = Hang"
| "copyin_loop me (Suc fuel) pagetable srcva len dst s =
    (if len = 0 then Ret (0, dst)
     else let va0 = PGROUNDDOWN srcva
          in bind_res (walkaddr me pagetable va0 s) (\<lambda>pa0.
            if pa0 = 0 then Ret (- 1, dst)
            else let n = min (PGSIZE - unat (srcva - va0)) len
                 in copyin_loop me fuel pagetable (va0 + of_nat PGSIZE) (len - n)
                      (dst @ load_bytes (vm_mem s) (pa0 + (srcva - va0)) n) s))"

definition copyin :: "nat \<Rightarrow> u64 \<Rightarrow> u64 \<Rightarrow> nat \<Rightarrow> vm \<Rightarrow> (int \<times> u8 list) res" where
  "copyin me pagetable srcva len s = copyin_loop me (len + 1) pagetable srcva len [] s"

text \<open>The inner loop of \<open>copyinstr\<close>: at most \<open>n\<close> bytes from \<open>p\<close>, until a zero byte. It returns the buffer and
  whether the zero byte was found.\<close>

primrec copyinstr_page :: "nat \<Rightarrow> u64 \<Rightarrow> u8 list \<Rightarrow> mem \<Rightarrow> u8 list \<times> bool" where
  "copyinstr_page 0 p dst m = (dst, False)"
| "copyinstr_page (Suc n) p dst m =
    (if m p = 0 then (dst @ [0], True) else copyinstr_page n (p + 1) (dst @ [m p]) m)"

fun copyinstr_loop :: "nat \<Rightarrow> nat \<Rightarrow> u64 \<Rightarrow> u64 \<Rightarrow> nat \<Rightarrow> u8 list \<Rightarrow> vm \<Rightarrow> (int \<times> u8 list) res" where
  "copyinstr_loop me 0 pagetable srcva max_n dst s = Hang"
| "copyinstr_loop me (Suc fuel) pagetable srcva max_n dst s =
    (if max_n = 0 then Ret (- 1, dst)
     else let va0 = PGROUNDDOWN srcva
          in bind_res (walkaddr me pagetable va0 s) (\<lambda>pa0.
            if pa0 = 0 then Ret (- 1, dst)
            else let n = min (PGSIZE - unat (srcva - va0)) max_n;
                     (dst', got_null) = copyinstr_page n (pa0 + (srcva - va0)) dst (vm_mem s)
                 in if got_null then Ret (0, dst')
                    else copyinstr_loop me fuel pagetable (va0 + of_nat PGSIZE) (max_n - n) dst' s))"

definition copyinstr :: "nat \<Rightarrow> u64 \<Rightarrow> u64 \<Rightarrow> nat \<Rightarrow> vm \<Rightarrow> (int \<times> u8 list) res" where
  "copyinstr me pagetable srcva max_n s = copyinstr_loop me (max_n + 1) pagetable srcva max_n [] s"

end
