(* ===== verification/VM_Tree.thy ===== *)
theory VM_Tree
  imports VM
begin

text \<open>
  The page-table tree in memory. A table page is named by its path from the root, a list of at most two
  indices; \<open>tab\<close> follows a path, \<open>pmap\<close> is the map from the index of a page (three nine-bit numbers) to its
  entry that a tree represents. A tree is well formed when no two paths lead to the same page; then a
  store into a leaf table changes the map at one index, and hooking up a fresh zeroed table leaves the map
  as it is.
\<close>

type_synonym vidx = "nat \<times> nat \<times> nat"

section \<open>Entries\<close>

definition entry :: "mem \<Rightarrow> u64 \<Rightarrow> nat \<Rightarrow> u64" where
  "entry m t i = ld64 m (pte_at t i)"

definition vld :: "u64 \<Rightarrow> bool" where
  "vld e \<longleftrightarrow> e AND PTE_V \<noteq> 0"

lemma vld_0 [simp]: "\<not> vld 0"
  by (simp add: vld_def)

lemma vld_bit: "vld e \<longleftrightarrow> bit e 0"
  by (simp add: vld_def and_one_eq odd_iff_mod_2_eq_one bit_0 even_iff_mod_2_eq_zero)

definition aligned :: "u64 \<Rightarrow> bool" where
  "aligned p \<longleftrightarrow> unat p mod PGSIZE = 0"

lemma aligned_bits: "aligned p \<Longrightarrow> n < 12 \<Longrightarrow> \<not> bit p n"
proof -
  assume a: "aligned p" and n: "n < 12"
  have "take_bit 12 (unat p) = 0" using a by (simp add: aligned_def take_bit_eq_mod)
  then have "take_bit 12 p = 0" by (metis unsigned_0 unsigned_take_bit_eq unsigned_word_eqI)
  then have "\<not> bit (take_bit 12 p) n" by simp
  then show "\<not> bit p n" using n by (simp add: bit_take_bit_iff)
qed

lemma small_bits: "take_bit 10 f = f \<Longrightarrow> 10 \<le> n \<Longrightarrow> \<not> bit (f :: u64) n"
  by (metis bit_take_bit_iff not_less)

lemma PTE2PA_PA2PTE:
  assumes "aligned pa" "take_bit 10 f = f"
  shows "PTE2PA (PA2PTE pa OR f) = pa"
proof (rule bit_word_eqI)
  fix n assume "n < LENGTH(64)"
  then show "bit (PTE2PA (PA2PTE pa OR f)) n = bit pa n"
    using aligned_bits[OF assms(1), of n] small_bits[OF assms(2), of "n - 2"]
    by (cases "n < 12") (auto simp: PTE2PA_def PA2PTE_def bit_push_bit_iff bit_drop_bit_eq bit_or_iff)
qed

lemma PTE_FLAGS_PA2PTE:
  assumes "take_bit 10 f = f"
  shows "PTE_FLAGS (PA2PTE pa OR f) = f"
proof -
  have m: "(0x3FF :: u64) = mask 10" by (simp add: mask_eq_exp_minus_1)
  show ?thesis unfolding PTE_FLAGS_def m
  proof (rule bit_word_eqI)
    fix n assume "n < LENGTH(64)"
    then show "bit ((PA2PTE pa OR f) AND mask 10) n = bit f n"
      using small_bits[OF assms, of n] by (cases "n < 10") (auto simp: PA2PTE_def bit_push_bit_iff bit_and_iff bit_or_iff bit_mask_iff)
  qed
qed

lemma take_bit_or_V: "take_bit 10 f = f \<Longrightarrow> take_bit 10 (f OR PTE_V) = f OR (PTE_V :: u64)"
  by (simp add: take_bit_or)

lemma vld_or_V [simp]: "vld (e OR PTE_V)"
  by (simp add: vld_bit bit_or_iff)

section \<open>Pages\<close>

definition tpage :: "u64 \<Rightarrow> bool" where
  "tpage t \<longleftrightarrow> t \<noteq> 0 \<and> aligned t \<and> unat t + PGSIZE \<le> PHYSTOP"

definition in_page :: "u64 \<Rightarrow> u64 \<Rightarrow> bool" where
  "in_page t x \<longleftrightarrow> unat (x - t) < PGSIZE"

lemma tpage_fits: "tpage t \<Longrightarrow> fits t PGSIZE"
  by (simp add: tpage_def fits_def)

lemma in_page_iff: "tpage t \<Longrightarrow> in_page t x \<longleftrightarrow> unat t \<le> unat x \<and> unat x < unat t + PGSIZE"
  unfolding in_page_def by (rule in_run_iff[OF tpage_fits])

lemma aligned_sep:
  assumes "aligned t" "aligned u" "unat t < unat u"
  shows "unat t + PGSIZE \<le> unat u"
proof -
  obtain a b where ab: "unat t = a * PGSIZE" "unat u = b * PGSIZE"
    using assms(1,2) by (metis aligned_def dvd_div_mult_self mod_0_imp_dvd)
  then have "a + 1 \<le> b" using assms(3) by simp
  then have "(a + 1) * PGSIZE \<le> b * PGSIZE" by (rule mult_le_mono1)
  then show ?thesis using ab by simp
qed

lemma in_page_unique: "tpage t \<Longrightarrow> tpage u \<Longrightarrow> in_page t x \<Longrightarrow> in_page u x \<Longrightarrow> t = u"
  using aligned_sep[of t u] aligned_sep[of u t]
  by (cases "unat t" "unat u" rule: linorder_cases) (auto simp: in_page_iff tpage_def word_unat_eq_iff)

lemma unat_pte_at: "tpage t \<Longrightarrow> i < 512 \<Longrightarrow> unat (pte_at t i) = unat t + 8 * i"
  unfolding pte_at_def tpage_def by (intro unat_add_of_nat) simp

lemma pte_at_fits: "tpage t \<Longrightarrow> i < 512 \<Longrightarrow> fits (pte_at t i) 8"
  using unat_pte_at[of t i] by (simp add: fits_def tpage_def)

lemma pte_at_not_0: "tpage t \<Longrightarrow> i < 512 \<Longrightarrow> pte_at t i \<noteq> 0"
  using unat_pte_at[of t i] by (auto simp: tpage_def unat_eq_0 simp flip: unat_0)

lemma pte_in_page: "tpage t \<Longrightarrow> i < 512 \<Longrightarrow> unat (x - pte_at t i) < 8 \<Longrightarrow> in_page t x"
  by (simp add: in_run_iff[OF pte_at_fits] in_page_iff unat_pte_at)

lemma pte_apart:
  assumes "tpage t" "tpage u" "i < 512" "j < 512" "t \<noteq> u \<or> i \<noteq> j"
  shows "apart (pte_at t i) 8 (pte_at u j) 8"
proof (cases "t = u")
  case True
  then have "i < j \<or> j < i" using assms(5) by auto
  then show ?thesis using True assms by (auto simp: apart_iff pte_at_fits unat_pte_at)
next
  case False
  then show ?thesis using assms pte_in_page[of t i] pte_in_page[of u j] in_page_unique unfolding apart_def by blast
qed

lemma entry_cong: "(\<And>x. in_page t x \<Longrightarrow> m x = m' x) \<Longrightarrow> tpage t \<Longrightarrow> i < 512 \<Longrightarrow> entry m t i = entry m' t i"
  unfolding entry_def ld64_def
  using pte_in_page[of t i "pte_at t i + of_nat _"]
  by (intro arg_cong[where f = bytes_word] load_bytes_cong) simp

lemma entry_set: "tpage t \<Longrightarrow> tpage u \<Longrightarrow> i < 512 \<Longrightarrow> j < 512 \<Longrightarrow>
    entry (st64 (pte_at t i) v m) u j = (if u = t \<and> j = i then v else entry m u j)"
  using pte_apart[of u t j i] by (auto simp: entry_def ld64_st64_apart)

lemma entry_zeroed: "tpage t \<Longrightarrow> i < 512 \<Longrightarrow> entry (fill_bytes t 0 PGSIZE m) t i = 0"
proof -
  assume t: "tpage t" and i: "i < 512"
  have "load_bytes (fill_bytes t 0 PGSIZE m) (pte_at t i) 8 = load_bytes (\<lambda>_. 0) (pte_at t i) 8"
    using pte_in_page[OF t i] by (intro load_bytes_cong) (auto simp: fill_bytes_def in_page_def)
  also have "bytes_word \<dots> = 0" by (simp add: load_bytes_def upt_rec)
  finally show ?thesis by (simp add: entry_def ld64_def)
qed

lemma entry_fill_other: "tpage t \<Longrightarrow> tpage u \<Longrightarrow> t \<noteq> u \<Longrightarrow> i < 512 \<Longrightarrow> entry (fill_bytes t c PGSIZE m) u i = entry m u i"
  using in_page_unique[of t u] by (intro entry_cong) (auto simp: fill_bytes_def in_page_def)

section \<open>Paths\<close>

fun tab :: "mem \<Rightarrow> u64 \<Rightarrow> nat list \<Rightarrow> u64 option" where
  "tab m t [] = Some t"
| "tab m t (i # is) = (if vld (entry m t i) then tab m (PTE2PA (entry m t i)) is else None)"

definition paths :: "nat list set" where
  "paths = {p. length p \<le> 2 \<and> set p \<subseteq> {..<512}}"

definition pmap :: "mem \<Rightarrow> u64 \<Rightarrow> vidx \<Rightarrow> u64" where
  "pmap m pt = (\<lambda>(i, j, k). case tab m pt [i, j] of None \<Rightarrow> 0 | Some t \<Rightarrow> entry m t k)"

definition pt_pages :: "mem \<Rightarrow> u64 \<Rightarrow> u64 set" where
  "pt_pages m pt = {t. \<exists>p\<in>paths. tab m pt p = Some t}"

definition pt_wf :: "mem \<Rightarrow> u64 \<Rightarrow> bool" where
  "pt_wf m pt \<longleftrightarrow> (\<forall>t\<in>pt_pages m pt. tpage t) \<and>
    (\<forall>p\<in>paths. \<forall>q\<in>paths. \<forall>t. tab m pt p = Some t \<longrightarrow> tab m pt q = Some t \<longrightarrow> p = q)"

lemma tab_snoc: "tab m t (p @ [i]) = (case tab m t p of None \<Rightarrow> None
    | Some u \<Rightarrow> if vld (entry m u i) then Some (PTE2PA (entry m u i)) else None)"
  by (induction m t p rule: tab.induct) simp_all

lemma paths_snoc: "p @ [i] \<in> paths \<longleftrightarrow> p \<in> paths \<and> length p \<le> 1 \<and> i < 512"
  by (auto simp: paths_def)

lemma paths_Nil [simp]: "[] \<in> paths"
  by (simp add: paths_def)

lemma paths_pair: "[i, j] \<in> paths \<longleftrightarrow> i < 512 \<and> j < 512"
  by (simp add: paths_def)

lemma pt_pagesI: "p \<in> paths \<Longrightarrow> tab m pt p = Some t \<Longrightarrow> t \<in> pt_pages m pt"
  unfolding pt_pages_def by blast

lemma root_page: "pt \<in> pt_pages m pt"
  by (rule pt_pagesI[of "[]"]) simp_all

lemma pt_wfD:
  assumes "pt_wf m pt" "p \<in> paths" "tab m pt p = Some t"
  shows "tpage t" "\<And>q. q \<in> paths \<Longrightarrow> tab m pt q = Some t \<Longrightarrow> q = p"
  using assms pt_pagesI unfolding pt_wf_def by blast+

text \<open>Following a path reads only the tables above its end.\<close>

lemma tab_cong:
  assumes "\<And>q i t. q @ [i] \<in> paths \<Longrightarrow> tab m pt q = Some t \<Longrightarrow> entry m' t i = entry m t i"
  shows "p \<in> paths \<Longrightarrow> tab m' pt p = tab m pt p"
proof (induction p rule: rev_induct)
  case (snoc i p)
  then have "tab m' pt p = tab m pt p" by (simp add: paths_snoc)
  then show ?case using assms[OF snoc.prems] by (simp add: tab_snoc split: option.split)
qed simp

lemma tree_cong:
  assumes "pt_wf m pt" "\<And>t x. t \<in> pt_pages m pt \<Longrightarrow> in_page t x \<Longrightarrow> m' x = m x"
  shows "p \<in> paths \<Longrightarrow> tab m' pt p = tab m pt p" "pt_pages m' pt = pt_pages m pt" "pt_wf m' pt"
    "i < 512 \<Longrightarrow> j < 512 \<Longrightarrow> k < 512 \<Longrightarrow> pmap m' pt (i, j, k) = pmap m pt (i, j, k)"
proof -
  have e: "entry m' t i = entry m t i" if "p \<in> paths" "tab m pt p = Some t" "i < 512" for p t i
    using that assms pt_wfD(1)[OF assms(1) that(1,2)] pt_pagesI by (intro entry_cong) blast+
  have t: "tab m' pt p = tab m pt p" if "p \<in> paths" for p
    using that by (rule tab_cong[rotated]) (auto simp: paths_snoc intro: e)
  show "p \<in> paths \<Longrightarrow> tab m' pt p = tab m pt p" by (rule t)
  show pp: "pt_pages m' pt = pt_pages m pt" unfolding pt_pages_def using t by auto
  show "pt_wf m' pt" using assms(1) t unfolding pt_wf_def pp by (metis (no_types, lifting))
  show "pmap m' pt (i, j, k) = pmap m pt (i, j, k)" if "i < 512" "j < 512" "k < 512"
    using that t[of "[i, j]"] e[of "[i, j]" _ k] by (simp add: pmap_def paths_pair del: tab.simps split: option.split)
qed

section \<open>A store into a leaf table\<close>

lemma leaf_store:
  fixes v :: u64
  assumes wf: "pt_wf m pt" and t: "tab m pt [i, j] = Some t" and ij: "i < 512" "j < 512" "k < 512"
  defines "m' \<equiv> st64 (pte_at t k) v m"
  shows "p \<in> paths \<Longrightarrow> tab m' pt p = tab m pt p" "pt_pages m' pt = pt_pages m pt" "pt_wf m' pt"
    "a < 512 \<Longrightarrow> b < 512 \<Longrightarrow> c < 512 \<Longrightarrow> pmap m' pt (a, b, c) = (if (a, b, c) = (i, j, k) then v else pmap m pt (a, b, c))"
proof -
  have tp: "tpage t" and uniq: "\<And>q. q \<in> paths \<Longrightarrow> tab m pt q = Some t \<Longrightarrow> q = [i, j]"
    using pt_wfD[OF wf _ t] ij by (auto simp: paths_pair)
  have e: "entry m' u l = (if q = [i, j] \<and> l = k then v else entry m u l)" if "q \<in> paths" "tab m pt q = Some u" "l < 512" for q u l
  proof -
    have "u = t \<longleftrightarrow> q = [i, j]" using uniq[OF that(1)] that(2) t by auto
    then show ?thesis unfolding m'_def using entry_set[OF tp pt_wfD(1)[OF wf that(1,2)] ij(3) that(3), of v m] by simp
  qed
  have tb: "tab m' pt p = tab m pt p" if "p \<in> paths" for p
    using that by (rule tab_cong[rotated]) (auto simp: paths_snoc e)
  show "p \<in> paths \<Longrightarrow> tab m' pt p = tab m pt p" by (rule tb)
  show pp: "pt_pages m' pt = pt_pages m pt" unfolding pt_pages_def using tb by auto
  show "pt_wf m' pt" using wf tb unfolding pt_wf_def pp by (metis (no_types, lifting))
  show "pmap m' pt (a, b, c) = (if (a, b, c) = (i, j, k) then v else pmap m pt (a, b, c))" if "a < 512" "b < 512" "c < 512"
  proof (cases "tab m pt [a, b]")
    case None
    then show ?thesis using that tb[of "[a, b]"] t by (auto simp: pmap_def paths_pair simp del: tab.simps)
  next
    case (Some u)
    then show ?thesis using that tb[of "[a, b]"] e[of "[a, b]" u c] t by (simp add: pmap_def paths_pair del: tab.simps)
  qed
qed

section \<open>Hooking up a new table\<close>

definition extended :: "nat list \<Rightarrow> u64 \<Rightarrow> (nat list \<Rightarrow> u64 option) \<Rightarrow> nat list \<Rightarrow> u64 option" where
  "extended q pg T p = (if p = q then Some pg else if \<exists>r. p = q @ r then None else T p)"

lemma hook_entry:
  fixes v :: u64
  assumes wf: "pt_wf m pt" and q: "q \<in> paths" "tab m pt q = Some t" "i < 512" and pg: "tpage pg" "pg \<notin> pt_pages m pt"
  defines "m' \<equiv> st64 (pte_at t i) v (fill_bytes pg 0 PGSIZE m)"
  shows "p \<in> paths \<Longrightarrow> tab m pt p = Some u \<Longrightarrow> k < 512 \<Longrightarrow> entry m' u k = (if p = q \<and> k = i then v else entry m u k)"
    "k < 512 \<Longrightarrow> entry m' pg k = 0"
proof -
  have tp: "tpage t" and tpg: "t \<noteq> pg" using pt_wfD(1)[OF wf q(1,2)] pg(2) pt_pagesI[OF q(1,2)] by auto
  show "entry m' u k = (if p = q \<and> k = i then v else entry m u k)" if p: "p \<in> paths" "tab m pt p = Some u" "k < 512"
  proof -
    have u: "tpage u" "pg \<noteq> u" using pt_wfD(1)[OF wf p(1,2)] pg(2) pt_pagesI[OF p(1,2)] by auto
    have eq: "u = t \<longleftrightarrow> p = q" using pt_wfD(2)[OF wf q(1,2) p(1)] p(2) q(2) by auto
    show ?thesis unfolding m'_def entry_set[OF tp u(1) q(3) p(3)] entry_fill_other[OF pg(1) u(1,2) p(3)] eq by simp
  qed
  show "entry m' pg k = 0" if "k < 512"
    unfolding m'_def entry_set[OF tp pg(1) q(3) that] entry_zeroed[OF pg(1) that] using tpg by simp
qed

lemma hook_tab:
  assumes wf: "pt_wf m pt" and q: "q @ [i] \<in> paths" "tab m pt q = Some t" "\<not> vld (entry m t i)"
    and pg: "tpage pg" "pg \<notin> pt_pages m pt"
  defines "m' \<equiv> st64 (pte_at t i) (PA2PTE pg OR PTE_V) (fill_bytes pg 0 PGSIZE m)"
  shows "p \<in> paths \<Longrightarrow> tab m' pt p = extended (q @ [i]) pg (tab m pt) p"
proof (induction p rule: rev_induct)
  case (snoc k p)
  have qi: "q \<in> paths" "i < 512" using q(1) by (simp_all add: paths_snoc)
  have k: "p \<in> paths" "k < 512" using snoc.prems by (simp_all add: paths_snoc)
  note e = hook_entry[OF wf qi(1) q(2) qi(2) pg, where v = "PA2PTE pg OR PTE_V", folded m'_def]
  have IH: "tab m' pt p = extended (q @ [i]) pg (tab m pt) p" using snoc.IH[OF k(1)] .
  have pa: "PTE2PA (PA2PTE pg OR PTE_V) = pg" using pg(1) by (intro PTE2PA_PA2PTE) (simp_all add: tpage_def)
  show ?case
  proof (cases "\<exists>r. p = (q @ [i]) @ r")
    case True
    then obtain r where r: "p = (q @ [i]) @ r" by blast
    have "tab m' pt p = (if r = [] then Some pg else None)" unfolding IH by (auto simp: extended_def r)
    then have "tab m' pt (p @ [k]) = None" using e(2)[OF k(2)] by (simp add: tab_snoc)
    then show ?thesis by (auto simp: extended_def r)
  next
    case False
    then have T: "tab m' pt p = tab m pt p" using IH by (auto simp: extended_def)
    have ext: "p @ [k] = (q @ [i]) @ r \<longleftrightarrow> p = q \<and> k = i \<and> r = []" for r
      using False by (cases r rule: rev_cases) auto
    then have E: "extended (q @ [i]) pg (tab m pt) (p @ [k]) = (if p = q \<and> k = i then Some pg else tab m pt (p @ [k]))"
      using ext[of "[]"] by (auto simp: extended_def)
    show ?thesis
    proof (cases "tab m pt p")
      case None
      then show ?thesis using T E q(2) by (auto simp: tab_snoc)
    next
      case (Some u)
      have "entry m' u k = (if p = q \<and> k = i then PA2PTE pg OR PTE_V else entry m u k)" using e(1)[OF k(1) Some k(2)] .
      then show ?thesis using T E Some pa q(2) by (auto simp: tab_snoc)
    qed
  qed
qed (auto simp: extended_def)

lemma tab_append_None: "tab m t p = None \<Longrightarrow> tab m t (p @ r) = None"
proof (induction r rule: rev_induct)
  case (snoc i r)
  then show ?case using tab_snoc[of m t "p @ r" i] by simp
qed simp

lemma extended_Some:
  assumes "tab m pt q = None"
  shows "extended q pg (tab m pt) p = Some u \<longleftrightarrow> p = q \<and> u = pg \<or> tab m pt p = Some u"
  using assms tab_append_None[OF assms] by (auto simp: extended_def)

lemma hook_new:
  assumes wf: "pt_wf m pt" and q: "q @ [i] \<in> paths" "tab m pt q = Some t" "\<not> vld (entry m t i)"
    and pg: "tpage pg" "pg \<notin> pt_pages m pt"
  defines "m' \<equiv> st64 (pte_at t i) (PA2PTE pg OR PTE_V) (fill_bytes pg 0 PGSIZE m)"
  shows "tab m' pt (q @ [i]) = Some pg" "pt_pages m' pt = insert pg (pt_pages m pt)" "pt_wf m' pt"
    "a < 512 \<Longrightarrow> b < 512 \<Longrightarrow> c < 512 \<Longrightarrow> pmap m' pt (a, b, c) = pmap m pt (a, b, c)"
proof -
  have T: "tab m' pt p = extended (q @ [i]) pg (tab m pt) p" if "p \<in> paths" for p
    using hook_tab[OF wf q pg that] unfolding m'_def .
  have N: "tab m pt (q @ [i]) = None" using q(2,3) by (simp add: tab_snoc)
  have S: "tab m' pt p = Some u \<longleftrightarrow> p = q @ [i] \<and> u = pg \<or> tab m pt p = Some u" if "p \<in> paths" for p u
    unfolding T[OF that] by (rule extended_Some[OF N])
  show "tab m' pt (q @ [i]) = Some pg" using S[OF q(1)] by blast
  show pp: "pt_pages m' pt = insert pg (pt_pages m pt)" unfolding pt_pages_def using S q(1) by blast
  show "pt_wf m' pt"
    unfolding pt_wf_def pp
  proof (intro conjI ballI allI impI)
    show "tpage t" if "t \<in> insert pg (pt_pages m pt)" for t using that pg(1) wf by (auto simp: pt_wf_def)
    show "p = p'" if p: "p \<in> paths" "p' \<in> paths" "tab m' pt p = Some t" "tab m' pt p' = Some t" for p p' t
    proof -
      have "p = q @ [i] \<and> t = pg \<or> tab m pt p = Some t" "p' = q @ [i] \<and> t = pg \<or> tab m pt p' = Some t"
        using S[OF p(1), of t] S[OF p(2), of t] p(3,4) by simp_all
      then show ?thesis using pg(2) pt_pagesI[OF p(1), of m pt t] pt_pagesI[OF p(2), of m pt t]
        pt_wfD(2)[OF wf p(2) _ p(1), of t] by blast
    qed
  qed
  show "pmap m' pt (a, b, c) = pmap m pt (a, b, c)" if abc: "a < 512" "b < 512" "c < 512"
  proof (cases "tab m pt [a, b]")
    case None
    have "entry m' pg c = 0" using hook_entry(2)[OF wf _ q(2) _ pg, of i c] q(1) abc(3) unfolding m'_def by (simp add: paths_snoc)
    moreover have "u = pg" if "tab m' pt [a, b] = Some u" for u
      using S[of "[a, b]" u] that None abc(1,2) by (simp add: paths_pair del: tab.simps)
    ultimately show ?thesis using None by (cases "tab m' pt [a, b]") (auto simp: pmap_def simp del: tab.simps)
  next
    case (Some u)
    have "entry m' u c = entry m u c"
      using hook_entry(1)[OF wf _ q(2) _ pg _ Some abc(3), of i] q(1) Some N abc(1,2) unfolding m'_def
      by (auto simp: paths_snoc paths_pair simp del: tab.simps)
    moreover have "tab m' pt [a, b] = Some u" using S[of "[a, b]" u] Some abc(1,2) by (simp add: paths_pair del: tab.simps)
    ultimately show ?thesis using Some by (simp add: pmap_def del: tab.simps)
  qed
qed

section \<open>Virtual addresses\<close>

definition vidx :: "u64 \<Rightarrow> vidx" where
  "vidx va = (PX 2 va, PX 1 va, PX 0 va)"

lemma PX_nat: "PX l va = unat va div 2 ^ (12 + 9 * l) mod 512"
proof -
  have m: "(0x1FF :: u64) = mask 9" by (simp add: mask_eq_exp_minus_1)
  have "PX l va = take_bit 9 (drop_bit (12 + 9 * l) (unat va))"
    unfolding PX_def PXSHIFT_def m take_bit_eq_mask[symmetric] unsigned_take_bit_eq unat_drop_bit_eq ..
  then show ?thesis by (simp add: take_bit_eq_mod drop_bit_eq_div)
qed

lemma PX_less [simp]: "PX l va < 512"
  by (simp add: PX_nat)

text \<open>The page number of an address in the space the tables translate, and back.\<close>

definition vpn_idx :: "nat \<Rightarrow> vidx" where
  "vpn_idx n = (n div 512 div 512 mod 512, n div 512 mod 512, n mod 512)"

lemma vidx_vpn: "vidx va = vpn_idx (unat va div PGSIZE)"
  by (simp add: vidx_def vpn_idx_def PX_nat div_mult2_eq[symmetric])

lemma vpn_idx_inj:
  assumes "m < 2 ^ 27" "n < 2 ^ 27" "vpn_idx m = vpn_idx n"
  shows "m = n"
proof -
  have *: "k = (k div 512 div 512 mod 512) * (512 * 512) + (k div 512 mod 512) * 512 + k mod 512" if "k < 2 ^ 27" for k :: nat
  proof -
    have "k div 512 div 512 < 512" using that by (simp add: div_mult2_eq[symmetric])
    then have "k div 512 div 512 mod 512 = k div 512 div 512" by simp
    then show ?thesis using div_mult_mod_eq[of k 512] div_mult_mod_eq[of "k div 512" 512] by linarith
  qed
  have "m div 512 div 512 mod 512 = n div 512 div 512 mod 512" "m div 512 mod 512 = n div 512 mod 512" "m mod 512 = n mod 512"
    using assms(3) by (simp_all add: vpn_idx_def)
  then show ?thesis using *[OF assms(1)] *[OF assms(2)] by metis
qed

lemma vpn_idx_bound: "vpn_idx n = (i, j, k) \<Longrightarrow> i < 512 \<and> j < 512 \<and> k < 512"
  by (auto simp: vpn_idx_def)

lemma page_number: "unat va < MAXVA \<Longrightarrow> unat va div PGSIZE < 2 ^ 26"
  by simp

end
