(* ===== verification/VM_Walk.thy ===== *)
theory VM_Walk
  imports VM_Tree
begin

text \<open>
  \<open>walk\<close> and \<open>mappages\<close> against the map a tree represents. Page numbers are natural numbers: \<open>ptmap s pt n\<close>
  is the entry of page \<open>n\<close> in the tree at \<open>pt\<close>, 0 when the tree has no table for it.
\<close>

section \<open>The map, by page number\<close>

definition ptmap :: "vm \<Rightarrow> u64 \<Rightarrow> nat \<Rightarrow> u64" where
  "ptmap s pt n = pmap (vm_mem s) pt (vpn_idx n)"

definition leaf :: "vm \<Rightarrow> u64 \<Rightarrow> nat \<Rightarrow> u64 option" where
  "leaf s pt n = (case vpn_idx n of (i, j, k) \<Rightarrow> map_option (\<lambda>t. pte_at t k) (tab (vm_mem s) pt [i, j]))"

definition same_outside :: "u64 set \<Rightarrow> vm \<Rightarrow> vm \<Rightarrow> bool" where
  "same_outside D s s' \<longleftrightarrow> (\<forall>x. (\<forall>t\<in>D. \<not> in_page t x) \<longrightarrow> vm_mem s' x = vm_mem s x)"

abbreviation tables :: "vm \<Rightarrow> u64 \<Rightarrow> u64 set" where
  "tables s pt \<equiv> pt_pages (vm_mem s) pt"

abbreviation taken :: "vm \<Rightarrow> u64 set" where
  "taken s \<equiv> taken_pages (vm_alloc s)"

text \<open>The pages handed out that are not tables of this tree.\<close>

definition spare :: "vm \<Rightarrow> u64 \<Rightarrow> u64 set" where
  "spare s pt = taken s - tables s pt"

definition pt_inv :: "u64 \<Rightarrow> vm \<Rightarrow> bool" where
  "pt_inv pt s \<longleftrightarrow> buddy_ok (vm_alloc s) \<and> pt_wf (vm_mem s) pt \<and> tables s pt \<subseteq> taken s"

text \<open>A step that may add tables to the tree and writes to its tables only.\<close>

definition pt_step :: "u64 \<Rightarrow> vm \<Rightarrow> vm \<Rightarrow> bool" where
  "pt_step pt s s' \<longleftrightarrow> pt_inv pt s' \<and> tables s pt \<subseteq> tables s' pt \<and> spare s' pt = spare s pt \<and> same_outside (tables s' pt) s s'"

lemma same_outside_refl [simp]: "same_outside D s s"
  by (simp add: same_outside_def)

lemma same_outside_trans: "same_outside D s s1 \<Longrightarrow> same_outside E s1 s2 \<Longrightarrow> same_outside (D \<union> E) s s2"
  by (auto simp: same_outside_def)

lemma same_outside_mono: "same_outside D s s' \<Longrightarrow> D \<subseteq> E \<Longrightarrow> same_outside E s s'"
  by (auto simp: same_outside_def)

lemma pt_step_refl: "pt_inv pt s \<Longrightarrow> pt_step pt s s"
  by (simp add: pt_step_def)

lemma pt_step_trans: "pt_step pt s s1 \<Longrightarrow> pt_step pt s1 s2 \<Longrightarrow> pt_step pt s s2"
  unfolding pt_step_def using same_outside_trans[of "tables s1 pt" s s1 "tables s2 pt" s2] by (auto simp: Un_absorb1)

lemma taken_tpage: "buddy_ok (vm_alloc s) \<Longrightarrow> p \<in> taken s \<Longrightarrow> tpage p"
  using kpages.taken_page[of "vm_alloc s" p] by (simp add: tpage_def aligned_def)

lemma kalloc_vm_cases:
  assumes "buddy_ok (vm_alloc s)"
  obtains (none) "kalloc_vm me s = Ret (0, s)"
  | (some) p s' where "kalloc_vm me s = Ret (p, s')" "p \<noteq> 0" "tpage p" "p \<notin> taken s" "taken s' = insert p (taken s)"
      "buddy_ok (vm_alloc s')" "vm_mem s' = vm_mem s"
proof -
  obtain p b where r: "kalloc me (vm_alloc s) = Ret (p, b)" "buddy_ok b"
      "p = 0 \<and> b = vm_alloc s \<or> p \<noteq> 0 \<and> p \<notin> taken s \<and> taken_pages b = insert p (taken s)"
    using kpages.alloc_page_ret[OF assms, of me] by blast
  have k: "kalloc_vm me s = Ret (p, s\<lparr>vm_alloc := b\<rparr>)" using r(1) by (simp add: kalloc_vm_def)
  show ?thesis
  proof (cases "p = 0")
    case True
    then show ?thesis using none k r(3) by simp
  next
    case False
    then have t: "taken_pages b = insert p (taken s)" "p \<notin> taken s" using r(3) by auto
    then have "tpage p" using kpages.taken_page[OF r(2), of p] by (simp add: tpage_def aligned_def)
    then show ?thesis using some[of p "s\<lparr>vm_alloc := b\<rparr>"] k False t r(2) by simp
  qed
qed

lemma kfree_vm_ok:
  assumes "buddy_ok (vm_alloc s)" "p \<in> taken s"
  obtains s' where "kfree_vm me p s = Ret s'" "buddy_ok (vm_alloc s')" "taken s' = taken s - {p}" "vm_mem s' = vm_mem s"
proof -
  obtain b where b: "kfree me p (vm_alloc s) = Ret b" "buddy_ok b" "taken_pages b = taken s - {p}"
    using kpages.free_page_ret[OF assms, of me] by blast
  then show ?thesis using that[of "s\<lparr>vm_alloc := b\<rparr>"] by (simp add: kfree_vm_def)
qed

section \<open>\<open>walk\<close> without allocation\<close>

lemma walk_False:
  "walk me pt va False s = (if MAXVA \<le> unat va then Panic ''walk''
    else Ret (case leaf s pt (unat va div PGSIZE) of None \<Rightarrow> 0 | Some a \<Rightarrow> a, s))"
proof -
  have "leaf s pt (unat va div PGSIZE) = map_option (\<lambda>t. pte_at t (PX 0 va)) (tab (vm_mem s) pt [PX 2 va, PX 1 va])"
    by (simp add: leaf_def vidx_vpn[symmetric] vidx_def del: tab.simps)
  then show ?thesis by (simp add: walk_def numeral_2_eq_2 Let_def get_pte_def entry_def vld_def)
qed

lemma leaf_Some:
  assumes "pt_wf (vm_mem s) pt" "leaf s pt n = Some a"
  shows "a \<noteq> 0" "get_pte s a = ptmap s pt n"
proof -
  obtain i j k where v: "vpn_idx n = (i, j, k)" by (metis prod_cases3)
  note b = vpn_idx_bound[OF v]
  obtain t where t: "tab (vm_mem s) pt [i, j] = Some t" "a = pte_at t k" using assms(2) v by (auto simp: leaf_def simp del: tab.simps)
  show "a \<noteq> 0" unfolding t(2) by (rule pte_at_not_0[OF pt_wfD(1)[OF assms(1) _ t(1)]]) (use b in \<open>auto simp: paths_pair\<close>)
  show "get_pte s a = ptmap s pt n" using t v by (simp add: get_pte_def ptmap_def pmap_def entry_def del: tab.simps)
qed

lemma leaf_None: "leaf s pt n = None \<Longrightarrow> ptmap s pt n = 0"
  by (auto simp: leaf_def ptmap_def pmap_def simp del: tab.simps split: prod.splits)

lemma ptmap_leaf: "vld (ptmap s pt n) \<Longrightarrow> \<exists>a. leaf s pt n = Some a"
  using leaf_None[of s pt n] by (cases "leaf s pt n") auto

lemma walkaddr_ptmap:
  assumes "pt_wf (vm_mem s) pt"
  shows "walkaddr me pt va s = Ret (let e = ptmap s pt (unat va div PGSIZE)
    in if unat va < MAXVA \<and> vld e \<and> e AND PTE_U \<noteq> 0 then PTE2PA e else 0)"
proof (cases "leaf s pt (unat va div PGSIZE)")
  case None
  then show ?thesis using leaf_None[OF None] by (simp add: walkaddr_def walk_False)
next
  case (Some a)
  then show ?thesis using leaf_Some[OF assms Some] by (simp add: walkaddr_def walk_False vld_def Let_def)
qed

section \<open>Writing a leaf entry\<close>

lemma set_leaf:
  assumes "pt_inv pt s" "leaf s pt n = Some a" "n < 2 ^ 27"
  shows "pt_step pt s (set_pte a v s)" "tables (set_pte a v s) pt = tables s pt"
    "k < 2 ^ 27 \<Longrightarrow> ptmap (set_pte a v s) pt k = (if k = n then v else ptmap s pt k)"
    "leaf (set_pte a v s) pt k = leaf s pt k"
proof -
  obtain i j l where v: "vpn_idx n = (i, j, l)" by (metis prod_cases3)
  note b = vpn_idx_bound[OF v]
  obtain t where t: "tab (vm_mem s) pt [i, j] = Some t" "a = pte_at t l" using assms(2) v by (auto simp: leaf_def simp del: tab.simps)
  have wf: "pt_wf (vm_mem s) pt" using assms(1) by (simp add: pt_inv_def)
  have m: "vm_mem (set_pte a v s) = st64 (pte_at t l) v (vm_mem s)" "vm_alloc (set_pte a v s) = vm_alloc s"
    by (simp_all add: set_pte_def t(2))
  note st = leaf_store[OF wf t(1), where k = l and v = v, folded m(1)]
  show tb: "tables (set_pte a v s) pt = tables s pt" using st(2) b by blast
  have "tpage t" "t \<in> tables s pt" using pt_wfD(1)[OF wf _ t(1)] pt_pagesI[OF _ t(1)] b by (auto simp: paths_pair)
  then have "same_outside (tables s pt) s (set_pte a v s)"
    using pte_in_page[of t l] b unfolding same_outside_def m(1) st64_def store_bytes_def by auto
  then show "pt_step pt s (set_pte a v s)"
    using assms(1) st(3) b tb by (simp add: pt_step_def pt_inv_def spare_def m(2))
  show "ptmap (set_pte a v s) pt k = (if k = n then v else ptmap s pt k)" if k: "k < 2 ^ 27"
  proof -
    obtain i' j' l' where v': "vpn_idx k = (i', j', l')" by (metis prod_cases3)
    have "k = n \<longleftrightarrow> (i', j', l') = (i, j, l)" using vpn_idx_inj[OF k assms(3)] v v' by auto
    then show ?thesis using st(4)[of i' j' l'] b vpn_idx_bound[OF v'] by (simp add: ptmap_def v')
  qed
  show "leaf (set_pte a v s) pt k = leaf s pt k"
    using st(1)[of "[fst (vpn_idx k), fst (snd (vpn_idx k))]"] b
    by (auto simp: leaf_def paths_pair vpn_idx_def simp del: tab.simps split: prod.splits)
qed

section \<open>\<open>walk\<close> with allocation\<close>

lemma zero_page_mem: "vm_mem (zero_page p s) = fill_bytes p 0 PGSIZE (vm_mem s)" "vm_alloc (zero_page p s) = vm_alloc s"
  by (simp_all add: zero_page_def memset_fill)

lemma hook_step:
  assumes inv: "pt_inv pt s" and q: "q @ [i] \<in> paths" "tab (vm_mem s) pt q = Some t" "\<not> vld (entry (vm_mem s) t i)"
    and k: "vm_mem s1 = vm_mem s" "buddy_ok (vm_alloc s1)" "taken s1 = insert pg (taken s)" "tpage pg" "pg \<notin> taken s"
  defines "s2 \<equiv> set_pte (pte_at t i) (PA2PTE pg OR PTE_V) (zero_page pg s1)"
  shows "pt_step pt s s2" "tab (vm_mem s2) pt (q @ [i]) = Some pg" "ptmap s2 pt n = ptmap s pt n"
proof -
  have wf: "pt_wf (vm_mem s) pt" and sub: "tables s pt \<subseteq> taken s" using inv by (simp_all add: pt_inv_def)
  have fresh: "pg \<notin> tables s pt" using k(5) sub by auto
  have m: "vm_mem s2 = st64 (pte_at t i) (PA2PTE pg OR PTE_V) (fill_bytes pg 0 PGSIZE (vm_mem s))" "vm_alloc s2 = vm_alloc s1"
    by (simp_all add: s2_def set_pte_def zero_page_mem k(1))
  note h = hook_new[OF wf q k(4) fresh, folded m(1)]
  have qp: "q \<in> paths" "i < 512" using q(1) by (simp_all add: paths_snoc)
  have "same_outside (tables s2 pt) s s2"
    unfolding same_outside_def h(2)
  proof (intro allI impI)
    fix x assume x: "\<forall>t\<in>insert pg (tables s pt). \<not> in_page t x"
    then have "\<not> in_page pg x" "\<not> in_page t x" using pt_pagesI[OF qp(1) q(2)] by auto
    then show "vm_mem s2 x = vm_mem s x"
      using pte_in_page[OF pt_wfD(1)[OF wf qp(1) q(2)] qp(2)]
      unfolding m(1) st64_def store_bytes_def fill_bytes_def in_page_def by auto
  qed
  then show "pt_step pt s s2"
    using h(2,3) k(2,3,5) sub fresh by (auto simp: pt_step_def pt_inv_def spare_def m(2))
  show "tab (vm_mem s2) pt (q @ [i]) = Some pg" by (rule h(1))
  show "ptmap s2 pt n = ptmap s pt n"
    using h(4) vpn_idx_bound[of n] by (cases "vpn_idx n") (simp add: ptmap_def)
qed

lemma walk_loop_alloc:
  assumes "pt_inv pt s" "l \<le> 2" "tab (vm_mem s) pt (take (2 - l) [PX 2 va, PX 1 va]) = Some t" "unat va < MAXVA"
  shows "\<exists>pte s'. walk_loop me l t va True s = Ret (pte, s') \<and> pt_step pt s s' \<and> (\<forall>n. ptmap s' pt n = ptmap s pt n) \<and>
    (pte = 0 \<or> leaf s' pt (unat va div PGSIZE) = Some pte)"
  using assms(1-3)
proof (induction l arbitrary: s t)
  case 0
  then have "leaf s pt (unat va div PGSIZE) = Some (pte_at t (PX 0 va))"
    by (simp add: leaf_def vidx_vpn[symmetric] vidx_def del: tab.simps)
  then show ?case using 0 pt_step_refl by auto
next
  case (Suc l)
  let ?q = "take (1 - l) [PX 2 va, PX 1 va]" and ?i = "PX (Suc l) va"
  have l: "l = 0 \<or> l = 1" using Suc.prems(2) by auto
  have nxt: "take (2 - l) [PX 2 va, PX 1 va] = ?q @ [?i]" "2 - Suc l = 1 - l" using l by (auto simp: numeral_2_eq_2)
  have qp: "?q @ [?i] \<in> paths" using l by (auto simp: paths_def)
  have t: "tab (vm_mem s) pt ?q = Some t" using Suc.prems(3) nxt(2) by simp
  have e: "get_pte s (pte_at t ?i) = entry (vm_mem s) t ?i" by (simp add: get_pte_def entry_def)
  show ?case
  proof (cases "vld (entry (vm_mem s) t ?i)")
    case True
    then have "tab (vm_mem s) pt (take (2 - l) [PX 2 va, PX 1 va]) = Some (PTE2PA (entry (vm_mem s) t ?i))"
      unfolding nxt(1) tab_snoc using t by simp
    then show ?thesis using Suc.IH[OF Suc.prems(1)] Suc.prems(2) True by (simp add: e vld_def Let_def)
  next
    case False
    have b: "buddy_ok (vm_alloc s)" using Suc.prems(1) by (simp add: pt_inv_def)
    from b show ?thesis
    proof (cases rule: kalloc_vm_cases[where me = me])
      case none
      then show ?thesis using False pt_step_refl[OF Suc.prems(1)] by (simp add: e vld_def Let_def)
    next
      case (some pg s1)
      let ?s = "set_pte (pte_at t ?i) (PA2PTE pg OR PTE_V) (zero_page pg s1)"
      note h = hook_step[OF Suc.prems(1) qp t False some(7,6,5,3,4)]
      have "pt_inv pt ?s" using h(1) by (simp add: pt_step_def)
      from Suc.IH[OF this, of pg] obtain pte s' where "walk_loop me l pg va True ?s = Ret (pte, s')" "pt_step pt ?s s'"
          "\<forall>n. ptmap s' pt n = ptmap ?s pt n" "pte = 0 \<or> leaf s' pt (unat va div PGSIZE) = Some pte"
        using h(2) Suc.prems(2) unfolding nxt(1) by auto
      then show ?thesis using False some(1,2) pt_step_trans[OF h(1)] h(3) by (auto simp: e vld_def Let_def)
    qed
  qed
qed

lemma walk_alloc:
  assumes "pt_inv pt s" "unat va < MAXVA"
  obtains pte s' where "walk me pt va True s = Ret (pte, s')" "pt_step pt s s'" "\<forall>n. ptmap s' pt n = ptmap s pt n"
    "pte = 0 \<or> leaf s' pt (unat va div PGSIZE) = Some pte"
  using walk_loop_alloc[OF assms(1), of 2 va pt me] assms(2) that by (auto simp: walk_def)

end
