(* ===== verification/VM_Map.thy ===== *)
theory VM_Map
  imports VM_Walk
begin

text \<open>
  \<open>mappages\<close> and \<open>uvmunmap\<close> as updates of the map that a page table represents: the entries of a range of
  pages are set or cleared, all others stay, only table pages are written, and the page allocator gains the new
  tables or the freed frames.
\<close>

definition vaddr :: "nat \<Rightarrow> u64" where
  "vaddr n = of_nat (n * PGSIZE)"

lemma unat_vaddr: "n \<le> 2 ^ 26 \<Longrightarrow> unat (vaddr n) = n * PGSIZE"
  unfolding vaddr_def by (rule unat_of_nat64) simp

lemma vaddr_div: "n \<le> 2 ^ 26 \<Longrightarrow> unat (vaddr n) div PGSIZE = n"
  by (simp add: unat_vaddr)

lemma vaddr_Suc [simp]: "vaddr n + of_nat PGSIZE = vaddr (Suc n)" "vaddr n + 4096 = vaddr (Suc n)"
  by (simp_all add: vaddr_def)

lemma vaddr_eq_iff: "m \<le> 2 ^ 26 \<Longrightarrow> n \<le> 2 ^ 26 \<Longrightarrow> vaddr m = vaddr n \<longleftrightarrow> m = n"
  by (metis vaddr_div)

lemma vaddr_less_iff: "m \<le> 2 ^ 26 \<Longrightarrow> n \<le> 2 ^ 26 \<Longrightarrow> vaddr m < vaddr n \<longleftrightarrow> m < n"
  by (simp add: word_less_nat_alt unat_vaddr)

lemma vaddr_maxva: "n < 2 ^ 26 \<Longrightarrow> unat (vaddr n) < MAXVA"
  by (simp add: unat_vaddr)

lemma pt_stepD: "pt_step pt s s' \<Longrightarrow> pt_inv pt s'" "pt_step pt s s' \<Longrightarrow> spare s' pt = spare s pt"
  "pt_step pt s s' \<Longrightarrow> same_outside (tables s' pt) s s'" "pt_step pt s s' \<Longrightarrow> tables s pt \<subseteq> tables s' pt"
  by (simp_all add: pt_step_def)

section \<open>\<open>mappages\<close>\<close>

definition mapped :: "(nat \<Rightarrow> u64) \<Rightarrow> nat \<Rightarrow> nat \<Rightarrow> u64 \<Rightarrow> u64 \<Rightarrow> nat \<Rightarrow> u64" where
  "mapped f v j pa perm k = (if v \<le> k \<and> k < v + j then PA2PTE (pa + of_nat ((k - v) * PGSIZE)) OR perm OR PTE_V else f k)"

lemma mapped_step: "mapped (\<lambda>k. if k = v then PA2PTE pa OR perm OR PTE_V else f k) (Suc v) j (pa + of_nat PGSIZE) perm k
    = mapped f v (Suc j) pa perm k"
proof (cases "Suc v \<le> k")
  case True
  then have "(k - v) * PGSIZE = PGSIZE + (k - Suc v) * PGSIZE" by (simp add: Suc_diff_le algebra_simps)
  then show ?thesis using True by (simp add: mapped_def add.assoc)
qed (auto simp: mapped_def)

lemma mapped_0 [simp]: "mapped f v 0 pa perm k = f k"
  by (simp add: mapped_def) (use not_less in blast)

text \<open>One iteration: the walk fails for lack of memory, or the entry is set.\<close>

lemma map_one:
  assumes "pt_inv pt s" "v < 2 ^ 26" "\<not> vld (ptmap s pt v)"
  obtains (full) s1 where "walk me pt (vaddr v) True s = Ret (0, s1)" "pt_step pt s s1" "\<forall>n. ptmap s1 pt n = ptmap s pt n"
  | (set) pte s1 where "walk me pt (vaddr v) True s = Ret (pte, s1)" "pte \<noteq> 0" "get_pte s1 pte AND PTE_V = 0"
      "pt_step pt s (set_pte pte e s1)" "\<forall>k<2 ^ 27. ptmap (set_pte pte e s1) pt k = (if k = v then e else ptmap s pt k)"
proof -
  obtain pte s1 where w: "walk me pt (vaddr v) True s = Ret (pte, s1)" "pt_step pt s s1" "\<forall>n. ptmap s1 pt n = ptmap s pt n"
      "pte = 0 \<or> leaf s1 pt v = Some pte"
    using walk_alloc[OF assms(1) vaddr_maxva, of v me] assms(2) by (auto simp: vaddr_div)
  show ?thesis
  proof (cases "pte = 0")
    case True
    then show ?thesis using full w by simp
  next
    case False
    then have lf: "leaf s1 pt v = Some pte" using w(4) by simp
    have vb: "v < 2 ^ 27" using assms(2) by simp
    note st = set_leaf[OF pt_stepD(1)[OF w(2)] lf vb, where v = e]
    have "get_pte s1 pte = ptmap s pt v" using leaf_Some(2)[OF _ lf] w(3) pt_stepD(1)[OF w(2)] by (simp add: pt_inv_def)
    then have nv: "get_pte s1 pte AND PTE_V = 0" using assms(3) by (simp add: vld_def)
    show ?thesis using set[OF w(1) False nv pt_step_trans[OF w(2) st(1)]] st(3) w(3) by simp
  qed
qed

lemma mappages_loop_ok:
  assumes "pt_inv pt s" "v + n < 2 ^ 26" "\<forall>i\<le>n. \<not> vld (ptmap s pt (v + i))"
  shows "\<exists>r j s'. mappages_loop me (Suc n) pt (vaddr v) (vaddr (v + n)) pa perm s = Ret (r, s') \<and> pt_step pt s s' \<and>
    (r = 0 \<and> j = Suc n \<or> r = - 1 \<and> j \<le> n) \<and> (\<forall>k<2 ^ 27. ptmap s' pt k = mapped (ptmap s pt) v j pa perm k)"
  using assms
proof (induction n arbitrary: v pa s)
  case (0 v pa s)
  have v: "v < 2 ^ 26" "\<not> vld (ptmap s pt v)" using 0 by auto
  from 0(1) v show ?case
  proof (cases rule: map_one[where me = me and e = "PA2PTE pa OR perm OR PTE_V"])
    case (full s1)
    then show ?thesis by (intro exI[of _ "- 1"] exI[of _ 0] exI[of _ s1]) simp
  next
    case (set pte s1)
    then show ?thesis
      by (intro exI[of _ 0] exI[of _ "Suc 0"] exI[of _ "set_pte pte (PA2PTE pa OR perm OR PTE_V) s1"]) (auto simp: mapped_def Let_def)
  qed
next
  case (Suc n v pa s)
  have v: "v < 2 ^ 26" "\<not> vld (ptmap s pt v)" using Suc.prems(2) Suc.prems(3)[rule_format, of 0] by auto
  from Suc.prems(1) v show ?case
  proof (cases rule: map_one[where me = me and e = "PA2PTE pa OR perm OR PTE_V"])
    case (full s1)
    then show ?thesis by (intro exI[of _ "- 1"] exI[of _ 0] exI[of _ s1]) simp
  next
    case (set pte s1)
    let ?s = "set_pte pte (PA2PTE pa OR perm OR PTE_V) s1"
    have "\<not> vld (ptmap ?s pt (Suc v + i))" if "i \<le> n" for i
      using set(5)[rule_format, of "Suc v + i"] Suc.prems(2) Suc.prems(3)[rule_format, of "Suc i"] that by simp
    then obtain r j s' where IH: "mappages_loop me (Suc n) pt (vaddr (Suc v)) (vaddr (Suc v + n)) (pa + of_nat PGSIZE) perm ?s = Ret (r, s')"
        "pt_step pt ?s s'" "r = 0 \<and> j = Suc n \<or> r = - 1 \<and> j \<le> n"
        "\<forall>k<2 ^ 27. ptmap s' pt k = mapped (ptmap ?s pt) (Suc v) j (pa + of_nat PGSIZE) perm k"
      using Suc.IH[OF pt_stepD(1)[OF set(4)], of "Suc v" "pa + of_nat PGSIZE"] Suc.prems(2) by auto
    have "vaddr v \<noteq> vaddr (v + Suc n)" using Suc.prems(2) by (simp add: vaddr_eq_iff)
    then have "mappages_loop me (Suc (Suc n)) pt (vaddr v) (vaddr (v + Suc n)) pa perm s = Ret (r, s')"
      using set(1-3) IH(1) by (simp add: Let_def)
    moreover have "ptmap s' pt k = mapped (ptmap s pt) v (Suc j) pa perm k" if "k < 2 ^ 27" for k
      using IH(4) that set(5) mapped_step[of v pa perm "ptmap s pt" j k] by (simp add: mapped_def)
    ultimately show ?thesis using IH(3) pt_step_trans[OF set(4) IH(2)]
      by (intro exI[of _ r] exI[of _ "Suc j"] exI[of _ s']) auto
  qed
qed

lemma PGROUNDDOWN_vaddr:
  assumes "unat a < 2 ^ 38"
  shows "PGROUNDDOWN a = vaddr (unat a div PGSIZE)"
proof -
  have "unat a div PGSIZE \<le> 2 ^ 26" using assms by simp
  then have "unat (vaddr (unat a div PGSIZE)) = unat a div PGSIZE * PGSIZE" by (rule unat_vaddr)
  then show ?thesis by (simp add: word_unat_eq_iff PGROUNDDOWN_unat minus_mod_eq_div_mult)
qed

text \<open>\<open>mappages\<close> on a range of pages none of which is mapped.\<close>

lemma mappages_ok:
  assumes "pt_inv pt s" "v + n < 2 ^ 26" "\<forall>i\<le>n. \<not> vld (ptmap s pt (v + i))"
    and "unat va div PGSIZE = v" "sz \<noteq> 0" "unat va + unat sz \<le> 2 ^ 38" "(unat va + unat sz - 1) div PGSIZE = v + n"
  obtains r j s' where "mappages me pt va sz pa perm s = Ret (r, s')" "pt_step pt s s'"
    "r = 0 \<and> j = Suc n \<or> r = - 1 \<and> j \<le> n" "\<forall>k<2 ^ 27. ptmap s' pt k = mapped (ptmap s pt) v j pa perm k"
proof -
  have sz: "1 \<le> unat sz" using assms(5) by (simp add: Suc_leI unat_gt_0)
  have "va + sz - 1 = va + of_nat (unat sz - 1)" using sz by (simp add: of_nat_diff add_diff_eq)
  moreover have "unat va + (unat sz - 1) < 2 ^ LENGTH(64)" using assms(6) sz by simp
  ultimately have e: "unat (va + sz - 1) = unat va + unat sz - 1" using sz unat_add_of_nat[of va "unat sz - 1"] by (simp only:)
  have a: "PGROUNDDOWN va = vaddr v" "PGROUNDDOWN (va + sz - 1) = vaddr (v + n)"
    using PGROUNDDOWN_vaddr[of va] PGROUNDDOWN_vaddr[of "va + sz - 1"] assms(4,6,7) e sz by simp_all
  have "unat (vaddr (v + n) - vaddr v) = n * PGSIZE" using assms(2) by (simp add: unat_sub_if unat_vaddr)
  then have "mappages me pt va sz pa perm s = mappages_loop me (Suc n) pt (vaddr v) (vaddr (v + n)) pa perm s"
    using assms(5) by (simp add: mappages_def a Let_def del: mappages_loop.simps)
  then show ?thesis using mappages_loop_ok[OF assms(1-3), of me pa perm] that by auto
qed

text \<open>The case of a single page at a page boundary, which is how the kernel maps user memory.\<close>

lemma mappages_one:
  assumes "pt_inv pt s" "v < 2 ^ 26" "\<not> vld (ptmap s pt v)"
  obtains (full) s' where "mappages me pt (vaddr v) (of_nat PGSIZE) pa perm s = Ret (- 1, s')" "pt_step pt s s'"
      "\<forall>k<2 ^ 27. ptmap s' pt k = ptmap s pt k"
  | (mapped) s' where "mappages me pt (vaddr v) (of_nat PGSIZE) pa perm s = Ret (0, s')" "pt_step pt s s'"
      "\<forall>k<2 ^ 27. ptmap s' pt k = (if k = v then PA2PTE pa OR perm OR PTE_V else ptmap s pt k)"
proof -
  have u: "unat (vaddr v) = v * PGSIZE" "unat (of_nat PGSIZE :: u64) = PGSIZE" using assms(2) by (simp_all add: unat_vaddr)
  obtain r j s' where r: "mappages me pt (vaddr v) (of_nat PGSIZE) pa perm s = Ret (r, s')" "pt_step pt s s'"
    "r = 0 \<and> j = Suc 0 \<or> r = - 1 \<and> j \<le> 0" "\<forall>k<2 ^ 27. ptmap s' pt k = mapped (ptmap s pt) v j pa perm k"
  proof (rule mappages_ok[where n = 0 and v = v and pt = pt and s = s and va = "vaddr v" and sz = "of_nat PGSIZE"])
    show "\<forall>i\<le>0. \<not> vld (ptmap s pt (v + i))" using assms(3) by simp
    show "(unat (vaddr v) + unat (of_nat PGSIZE :: u64) - 1) div PGSIZE = v + 0" unfolding u by simp
    show "unat (vaddr v) + unat (of_nat PGSIZE :: u64) \<le> 2 ^ 38" unfolding u using assms(2) by simp
  qed (use assms u that in simp_all)
  show ?thesis
  proof (cases "r = 0")
    case True
    then have "j = Suc 0" using r(3) by auto
    then show ?thesis using mapped r True by (auto simp: mapped_def)
  next
    case False
    then show ?thesis using full r by auto
  qed
qed

section \<open>\<open>uvmunmap\<close>\<close>

definition frames :: "vm \<Rightarrow> u64 \<Rightarrow> nat set \<Rightarrow> u64 set" where
  "frames s pt A = (\<lambda>k. PTE2PA (ptmap s pt k)) ` A"

definition is_leaf :: "u64 \<Rightarrow> bool" where
  "is_leaf e \<longleftrightarrow> vld e \<and> PTE_FLAGS e \<noteq> PTE_V"

lemma pt_inv_mem_alloc:
  assumes "pt_inv pt s" "vm_mem s' = vm_mem s" "buddy_ok (vm_alloc s')" "tables s pt \<subseteq> taken s'"
  shows "pt_inv pt s'" "ptmap s' pt = ptmap s pt" "leaf s' pt = leaf s pt" "get_pte s' = get_pte s"
  using assms(1,3,4) by (simp_all add: pt_inv_def ptmap_def[abs_def] leaf_def[abs_def] get_pte_def[abs_def] assms(2) del: tab.simps)

definition frees :: "bool \<Rightarrow> u64 set \<Rightarrow> u64 set" where
  "frees do_free F = (if do_free then F else {})"

lemma maybe_free:
  assumes "buddy_ok (vm_alloc s)" "do_free \<longrightarrow> p \<in> taken s"
  obtains s2 where "(if do_free then kfree_vm me p s else Ret s) = Ret s2" "vm_mem s2 = vm_mem s" "buddy_ok (vm_alloc s2)"
    "taken s2 = taken s - frees do_free {p}"
proof (cases do_free)
  case True
  then show ?thesis using kfree_vm_ok[OF assms(1), of p me] assms(2) that by (auto simp: frees_def)
next
  case False
  then show ?thesis using assms(1) that[of s] by (simp add: frees_def)
qed

text \<open>One iteration.\<close>

lemma unmap_one:
  assumes "pt_inv pt s" "v < w" "w \<le> 2 ^ 26" "is_leaf (ptmap s pt v)" "do_free \<longrightarrow> PTE2PA (ptmap s pt v) \<in> spare s pt"
  obtains s' where "\<forall>f. uvmunmap_loop me (Suc f) pt (vaddr v) (vaddr w) do_free s = uvmunmap_loop me f pt (vaddr (Suc v)) (vaddr w) do_free s'"
    "pt_inv pt s'" "tables s' pt = tables s pt" "same_outside (tables s pt) s s'"
    "spare s' pt = spare s pt - frees do_free {PTE2PA (ptmap s pt v)}"
    "\<forall>k<2 ^ 27. ptmap s' pt k = (if k = v then 0 else ptmap s pt k)"
proof -
  let ?e = "ptmap s pt v"
  have v: "v < 2 ^ 26" "v < 2 ^ 27" using assms(2,3) by auto
  have wf: "pt_wf (vm_mem s) pt" and b: "buddy_ok (vm_alloc s)" using assms(1) by (simp_all add: pt_inv_def)
  obtain pte where lf: "leaf s pt v = Some pte" using ptmap_leaf[of s pt v] assms(4) by (auto simp: is_leaf_def)
  note pe = leaf_Some[OF wf lf]
  have "do_free \<longrightarrow> ?e \<in> UNIV \<and> PTE2PA ?e \<in> taken s" using assms(5) by (simp add: spare_def)
  then obtain s2 where s2: "(if do_free then kfree_vm me (PTE2PA ?e) s else Ret s) = Ret s2" "vm_mem s2 = vm_mem s"
      "buddy_ok (vm_alloc s2)" "taken s2 = taken s - frees do_free {PTE2PA ?e}"
    using maybe_free[OF b, of do_free "PTE2PA ?e" me] by blast
  have nt: "frees do_free {PTE2PA ?e} \<inter> tables s pt = {}" using assms(5) by (simp add: spare_def frees_def)
  then have sub: "tables s pt \<subseteq> taken s2" using assms(1) s2(4) by (auto simp: pt_inv_def)
  note i2 = pt_inv_mem_alloc[OF assms(1) s2(2,3) sub]
  have lf2: "leaf s2 pt v = Some pte" using lf i2(3) by simp
  note st = set_leaf[OF i2(1) lf2 v(2), where v = 0]
  let ?s = "set_pte pte 0 s2"
  have loop: "uvmunmap_loop me (Suc f) pt (vaddr v) (vaddr w) do_free s = uvmunmap_loop me f pt (vaddr (Suc v)) (vaddr w) do_free ?s" for f
    using v(1) lf pe assms(2-4) s2(1) vaddr_maxva[OF v(1)]
    by (auto simp: walk_False vaddr_div vaddr_less_iff is_leaf_def vld_def split: if_splits)
  show ?thesis
  proof (rule that[of ?s])
    show "spare ?s pt = spare s pt - frees do_free {PTE2PA ?e}"
      by (subst pt_stepD(2)[OF st(1)]) (use nt in \<open>auto simp: spare_def s2(2,4)\<close>)
    show "same_outside (tables s pt) s ?s" using pt_stepD(3)[OF st(1)] st(2) s2(2) by (simp add: same_outside_def)
  qed (use loop st s2(2) i2(2) pt_stepD(1)[OF st(1)] in simp_all)
qed

lemma uvmunmap_loop_ok:
  assumes "pt_inv pt s" "v + n \<le> 2 ^ 26" "\<forall>k\<in>{v..<v + n}. is_leaf (ptmap s pt k)"
    and "do_free \<longrightarrow> inj_on (\<lambda>k. PTE2PA (ptmap s pt k)) {v..<v + n} \<and> frames s pt {v..<v + n} \<subseteq> spare s pt"
  shows "\<exists>s'. uvmunmap_loop me (Suc n) pt (vaddr v) (vaddr (v + n)) do_free s = Ret s' \<and> pt_inv pt s' \<and>
    tables s' pt = tables s pt \<and> same_outside (tables s pt) s s' \<and>
    spare s' pt = spare s pt - frees do_free (frames s pt {v..<v + n}) \<and>
    (\<forall>k<2 ^ 27. ptmap s' pt k = (if v \<le> k \<and> k < v + n then 0 else ptmap s pt k))"
  using assms
proof (induction n arbitrary: v s)
  case (0 v s)
  then show ?case by (auto simp: vaddr_less_iff frames_def frees_def)
next
  case (Suc n v s)
  have split: "{v..<v + Suc n} = insert v {Suc v..<Suc v + n}" by auto
  note P = Suc.prems(3,4)[unfolded split]
  have fv: "do_free \<longrightarrow> PTE2PA (ptmap s pt v) \<in> spare s pt" using P(2) by (simp add: frames_def)
  obtain s1 where s1: "\<forall>f. uvmunmap_loop me (Suc f) pt (vaddr v) (vaddr (v + Suc n)) do_free s
      = uvmunmap_loop me f pt (vaddr (Suc v)) (vaddr (v + Suc n)) do_free s1"
    "pt_inv pt s1" "tables s1 pt = tables s pt" "same_outside (tables s pt) s s1"
    "spare s1 pt = spare s pt - frees do_free {PTE2PA (ptmap s pt v)}"
    "\<forall>k<2 ^ 27. ptmap s1 pt k = (if k = v then 0 else ptmap s pt k)"
    using unmap_one[OF Suc.prems(1) _ Suc.prems(2) _ fv, of me] P(1) by auto
  have map: "ptmap s1 pt k = ptmap s pt k" if "k \<in> {Suc v..<Suc v + n}" for k using s1(6) that Suc.prems(2) by auto
  have frm: "frames s1 pt {Suc v..<Suc v + n} = frames s pt {Suc v..<Suc v + n}"
    unfolding frames_def by (rule image_cong) (simp_all add: map)
  have d: "do_free \<longrightarrow> inj_on (\<lambda>k. PTE2PA (ptmap s1 pt k)) {Suc v..<Suc v + n} \<and> frames s1 pt {Suc v..<Suc v + n} \<subseteq> spare s1 pt"
  proof (intro impI conjI)
    assume do_free
    then have inj: "inj_on (\<lambda>k. PTE2PA (ptmap s pt k)) (insert v {Suc v..<Suc v + n})"
      and fs: "frames s pt (insert v {Suc v..<Suc v + n}) \<subseteq> spare s pt" using P(2) by auto
    show "inj_on (\<lambda>k. PTE2PA (ptmap s1 pt k)) {Suc v..<Suc v + n}"
      using inj map by (auto simp: inj_on_def)
    show "frames s1 pt {Suc v..<Suc v + n} \<subseteq> spare s1 pt"
      unfolding frm s1(5) using inj fs \<open>do_free\<close> by (auto simp: frames_def frees_def inj_on_def)
  qed
  have lf: "\<forall>k\<in>{Suc v..<Suc v + n}. is_leaf (ptmap s1 pt k)" using P(1) map by simp
  have "Suc v + n \<le> 2 ^ 26" using Suc.prems(2) by simp
  from Suc.IH[OF s1(2) this lf d] obtain s' where
    IH: "uvmunmap_loop me (Suc n) pt (vaddr (Suc v)) (vaddr (Suc v + n)) do_free s1 = Ret s'" "pt_inv pt s'"
    "tables s' pt = tables s1 pt" "same_outside (tables s1 pt) s1 s'"
    "spare s' pt = spare s1 pt - frees do_free (frames s1 pt {Suc v..<Suc v + n})"
    "\<forall>k<2 ^ 27. ptmap s' pt k = (if Suc v \<le> k \<and> k < Suc v + n then 0 else ptmap s1 pt k)" by blast
  have "uvmunmap_loop me (Suc (Suc n)) pt (vaddr v) (vaddr (v + Suc n)) do_free s = Ret s'"
    using s1(1)[rule_format, of "Suc n"] IH(1) by (simp only: add_Suc_right add_Suc)
  moreover have "same_outside (tables s pt) s s'" using same_outside_trans[OF s1(4) IH(4)] s1(3) by simp
  moreover have "spare s' pt = spare s pt - frees do_free (frames s pt {v..<v + Suc n})"
    unfolding IH(5) frm s1(5) split by (auto simp: frames_def frees_def)
  moreover have "\<forall>k<2 ^ 27. ptmap s' pt k = (if v \<le> k \<and> k < v + Suc n then 0 else ptmap s pt k)"
    using IH(6) s1(6) by auto
  ultimately show ?case using IH(2,3) s1(3) by auto
qed

end
