(* ===== verification/VM_User.thy ===== *)
theory VM_User
  imports VM_Map
begin

text \<open>
  User address spaces: page tables whose first \<open>n\<close> pages are mapped to distinct frames that the page allocator
  has handed out, with nothing mapped above them up to the trap frame. The lemmas show that \<open>uvmalloc\<close>,
  \<open>uvmdealloc\<close> and \<open>uvmcopy\<close> take such address spaces to such address spaces, what the new frames contain, that
  a failure gives back everything allocated on the way, and that no page that belongs to anybody else is touched.
\<close>

abbreviation UTOP :: nat where "UTOP \<equiv> 2 ^ 26 - 2"

definition us_ok :: "u64 \<Rightarrow> nat \<Rightarrow> vm \<Rightarrow> bool" where
  "us_ok pt n s \<longleftrightarrow> pt_inv pt s \<and> n \<le> UTOP \<and> (\<forall>k<n. is_leaf (ptmap s pt k)) \<and> (\<forall>k. n \<le> k \<longrightarrow> k < UTOP \<longrightarrow> ptmap s pt k = 0) \<and>
    inj_on (\<lambda>k. PTE2PA (ptmap s pt k)) {..<n} \<and> frames s pt {..<n} \<subseteq> spare s pt"

text \<open>Whatever was handed out before, other than the tables of this tree, has the same contents.\<close>

definition keeps :: "u64 \<Rightarrow> vm \<Rightarrow> vm \<Rightarrow> bool" where
  "keeps pt s s' \<longleftrightarrow> (\<forall>p\<in>spare s pt. \<forall>x. in_page p x \<longrightarrow> vm_mem s' x = vm_mem s x)"

definition npg :: "u64 \<Rightarrow> nat" where
  "npg sz = (unat sz + PGSIZE - 1) div PGSIZE"

lemma keeps_refl [simp]: "keeps pt s s"
  by (simp add: keeps_def)

lemma keeps_trans: "keeps pt s s1 \<Longrightarrow> keeps pt s1 s2 \<Longrightarrow> spare s pt \<subseteq> spare s1 pt \<Longrightarrow> keeps pt s s2"
  by (auto simp: keeps_def)

lemma same_outside_keeps:
  assumes "same_outside D s s'" "\<forall>t\<in>D. tpage t" "D \<inter> spare s pt = {}" "buddy_ok (vm_alloc s)"
  shows "keeps pt s s'"
  unfolding keeps_def
proof (intro ballI allI impI)
  fix p x assume p: "p \<in> spare s pt" "in_page p x"
  have "tpage p" using taken_tpage[OF assms(4)] p(1) by (simp add: spare_def)
  then have "\<forall>t\<in>D. \<not> in_page t x" using assms(2,3) p in_page_unique by blast
  then show "vm_mem s' x = vm_mem s x" using assms(1) by (simp add: same_outside_def)
qed

lemma tables_tpage: "pt_inv pt s \<Longrightarrow> t \<in> tables s pt \<Longrightarrow> tpage t"
  by (simp add: pt_inv_def pt_wf_def)

lemma pt_step_keeps: "pt_inv pt s \<Longrightarrow> pt_step pt s s' \<Longrightarrow> keeps pt s s'"
proof -
  assume i: "pt_inv pt s" and st: "pt_step pt s s'"
  have "tables s' pt \<inter> spare s pt = {}" using pt_stepD(2)[OF st] by (auto simp: spare_def)
  then show ?thesis using same_outside_keeps[OF pt_stepD(3)[OF st]] tables_tpage[OF pt_stepD(1)[OF st]] i by (auto simp: pt_inv_def)
qed

lemma pt_inv_taken: "pt_inv pt s \<Longrightarrow> taken s = spare s pt \<union> tables s pt"
  by (auto simp: pt_inv_def spare_def)

section \<open>Sizes\<close>

lemma PGROUNDUP_vaddr: "unat sz \<le> 2 ^ 38 \<Longrightarrow> PGROUNDUP sz = vaddr (npg sz)"
proof -
  assume s: "unat sz \<le> 2 ^ 38"
  then have n: "npg sz \<le> 2 ^ 26" unfolding npg_def by simp
  have "unat (PGROUNDUP sz) = npg sz * PGSIZE" unfolding npg_def using s by (intro PGROUNDUP_unat) simp
  then show ?thesis using unat_vaddr[OF n] by (simp add: word_unat_eq_iff)
qed

lemma npg_vaddr: "n \<le> 2 ^ 26 \<Longrightarrow> npg (vaddr n) = n"
  by (simp add: npg_def unat_vaddr)

lemma vaddr_less_size: "k \<le> 2 ^ 26 \<Longrightarrow> vaddr k < sz \<longleftrightarrow> k < npg sz"
proof -
  assume k: "k \<le> 2 ^ 26"
  have "k < npg sz \<longleftrightarrow> Suc k * PGSIZE \<le> unat sz + PGSIZE - 1"
    unfolding npg_def Suc_le_eq[symmetric] by (rule less_eq_div_iff_mult_less_eq) simp
  then show ?thesis using k by (simp add: word_less_nat_alt unat_vaddr) linarith
qed

section \<open>\<open>uvmunmap\<close> and \<open>uvmdealloc\<close>\<close>

lemma uvmunmap_loop_eq:
  assumes "v + n \<le> 2 ^ 26"
  shows "uvmunmap me pt (vaddr v) (of_nat n) do_free s = uvmunmap_loop me (Suc n) pt (vaddr v) (vaddr (v + n)) do_free s"
proof -
  have "unat (of_nat n :: u64) = n" using assms by (intro unat_of_nat64) simp
  moreover have "vaddr v + of_nat n * of_nat PGSIZE = vaddr (v + n)" by (simp add: vaddr_def algebra_simps)
  moreover have "unat (vaddr v) mod PGSIZE = 0" using assms by (simp add: unat_vaddr)
  ultimately show ?thesis by (simp add: uvmunmap_def del: uvmunmap_loop.simps)
qed

lemma uvmunmap_ok:
  assumes "pt_inv pt s" "v + n \<le> 2 ^ 26" "\<forall>k\<in>{v..<v + n}. is_leaf (ptmap s pt k)"
    and "do_free \<longrightarrow> inj_on (\<lambda>k. PTE2PA (ptmap s pt k)) {v..<v + n} \<and> frames s pt {v..<v + n} \<subseteq> spare s pt"
  obtains s' where "uvmunmap me pt (vaddr v) (of_nat n) do_free s = Ret s'" "pt_inv pt s'" "tables s' pt = tables s pt"
    "keeps pt s s'" "spare s' pt = spare s pt - frees do_free (frames s pt {v..<v + n})"
    "\<forall>k<2 ^ 27. ptmap s' pt k = (if v \<le> k \<and> k < v + n then 0 else ptmap s pt k)"
proof -
  obtain s' where s': "uvmunmap_loop me (Suc n) pt (vaddr v) (vaddr (v + n)) do_free s = Ret s'" "pt_inv pt s'"
    "tables s' pt = tables s pt" "same_outside (tables s pt) s s'" "spare s' pt = spare s pt - frees do_free (frames s pt {v..<v + n})"
    "\<forall>k<2 ^ 27. ptmap s' pt k = (if v \<le> k \<and> k < v + n then 0 else ptmap s pt k)"
    using uvmunmap_loop_ok[OF assms, of me] by blast
  have "keeps pt s s'" using same_outside_keeps[OF s'(4)] tables_tpage[OF assms(1)] assms(1) by (auto simp: spare_def pt_inv_def)
  then show ?thesis using that s' uvmunmap_loop_eq[OF assms(2), of me pt do_free s] by simp
qed

lemma us_okD:
  assumes "us_ok pt n s"
  shows "pt_inv pt s" "n \<le> UTOP" "k < n \<Longrightarrow> is_leaf (ptmap s pt k)" "n \<le> k \<Longrightarrow> k < UTOP \<Longrightarrow> ptmap s pt k = 0"
    "inj_on (\<lambda>k. PTE2PA (ptmap s pt k)) {..<n}" "frames s pt {..<n} \<subseteq> spare s pt"
  using assms by (auto simp: us_ok_def)

lemma frames_cong: "(\<And>k. k \<in> A \<Longrightarrow> ptmap s' pt k = ptmap s pt k) \<Longrightarrow> frames s' pt A = frames s pt A"
  unfolding frames_def by (rule image_cong) simp_all

lemma shrink_ok:
  assumes "us_ok pt n s" "m \<le> n"
  obtains s' where "uvmunmap me pt (vaddr m) (of_nat (n - m)) True s = Ret s'" "us_ok pt m s'" "keeps pt s s'"
    "spare s' pt = spare s pt - frames s pt {m..<n}" "tables s' pt = tables s pt"
    "\<forall>k<2 ^ 27. ptmap s' pt k = (if m \<le> k \<and> k < n then 0 else ptmap s pt k)"
proof -
  note u = us_okD[OF assms(1)]
  have b: "m + (n - m) \<le> 2 ^ 26" "m + (n - m) = n" using u(2) assms(2) by simp_all
  have sub: "{m..<n} \<subseteq> {..<n}" by auto
  have p: "\<forall>k\<in>{m..<m + (n - m)}. is_leaf (ptmap s pt k)"
    "True \<longrightarrow> inj_on (\<lambda>k. PTE2PA (ptmap s pt k)) {m..<m + (n - m)} \<and> frames s pt {m..<m + (n - m)} \<subseteq> spare s pt"
    unfolding b(2) using u(3) inj_on_subset[OF u(5) sub] image_mono[OF sub] u(6) by (auto simp: frames_def)
  obtain s' where s': "uvmunmap me pt (vaddr m) (of_nat (n - m)) True s = Ret s'" "pt_inv pt s'" "tables s' pt = tables s pt"
    "keeps pt s s'" "spare s' pt = spare s pt - frees True (frames s pt {m..<n})"
    "\<forall>k<2 ^ 27. ptmap s' pt k = (if m \<le> k \<and> k < n then 0 else ptmap s pt k)"
    by (rule uvmunmap_ok[OF u(1) b(1) p, where me = me, unfolded b(2)])
  have map: "ptmap s' pt k = ptmap s pt k" if "k < m" for k using s'(6) that u(2) assms(2) by simp
  have fr: "frames s' pt {..<m} = frames s pt {..<m}" by (rule frames_cong) (simp add: map)
  have "frames s pt {..<m} \<inter> frames s pt {m..<n} = {}"
    using u(5) assms(2) unfolding frames_def inj_on_def by fastforce
  then have "frames s' pt {..<m} \<subseteq> spare s' pt" using u(6) assms(2) unfolding fr s'(5) by (auto simp: frames_def frees_def)
  moreover have "inj_on (\<lambda>k. PTE2PA (ptmap s' pt k)) {..<m}" using u(5) assms(2) map by (auto simp: inj_on_def)
  moreover have "ptmap s' pt k = 0" if "m \<le> k" "k < UTOP" for k using s'(6) u(4)[of k] that by auto
  ultimately have "us_ok pt m s'" using s'(2) u(2,3) assms(2) map by (simp add: us_ok_def)
  then show ?thesis using that s' by (simp add: frees_def)
qed

lemma scast_ucast_small: "n < 2 ^ 31 \<Longrightarrow> scast (ucast (of_nat n :: u64) :: 32 word) = (of_nat n :: u64)"
proof -
  assume n: "n < 2 ^ 31"
  have "ucast (of_nat n :: u64) = (of_nat n :: 32 word)" using n by (simp add: unsigned_of_nat take_bit_nat_eq_self)
  moreover have "signed_take_bit 31 (int n) = int n" using n by (intro signed_take_bit_int_eq_self) auto
  ultimately show ?thesis by (simp add: signed_of_nat)
qed

lemma uvmdealloc_vaddr:
  assumes "m \<le> n" "n \<le> 2 ^ 26"
  shows "uvmdealloc me pt (vaddr n) (vaddr m) s = (if m = n then Ret (vaddr n, s)
    else bind_res (uvmunmap me pt (vaddr m) (of_nat (n - m)) True s) (\<lambda>s1. Ret (vaddr m, s1)))"
proof (cases "m = n")
  case False
  have b: "unat (vaddr m) = m * PGSIZE" "unat (vaddr n) = n * PGSIZE" using assms by (simp_all add: unat_vaddr)
  have r: "PGROUNDUP (vaddr n) = vaddr n" "PGROUNDUP (vaddr m) = vaddr m"
    using PGROUNDUP_vaddr[of "vaddr n"] PGROUNDUP_vaddr[of "vaddr m"] assms b by (simp_all add: npg_vaddr)
  have lt: "vaddr m < vaddr n" using assms False by (simp add: vaddr_less_iff)
  have "(vaddr n - vaddr m) div of_nat PGSIZE = of_nat (n - m)"
  proof -
    have "unat ((vaddr n - vaddr m) div of_nat PGSIZE) = n - m"
      using assms b by (simp add: unat_div unat_sub_if diff_mult_distrib[symmetric])
    then show ?thesis using assms(2) by (metis of_nat_unat ucast_id)
  qed
  moreover have "scast (ucast (of_nat (n - m) :: u64) :: 32 word) = (of_nat (n - m) :: u64)"
    using assms by (intro scast_ucast_small) simp
  moreover have "\<not> vaddr n \<le> vaddr m" using lt by simp
  ultimately show ?thesis using lt r False by (simp add: uvmdealloc_def Let_def)
qed (simp add: uvmdealloc_def)

section \<open>Adding a frame\<close>

definition leaf_perm :: "u64 \<Rightarrow> bool" where
  "leaf_perm perm \<longleftrightarrow> take_bit 10 perm = perm \<and> perm OR PTE_V \<noteq> PTE_V"

lemma leaf_perm_pte:
  assumes "leaf_perm perm" "aligned pa"
  shows "is_leaf (PA2PTE pa OR perm OR PTE_V)" "PTE2PA (PA2PTE pa OR perm OR PTE_V) = pa"
    "PTE_FLAGS (PA2PTE pa OR perm OR PTE_V) = perm OR PTE_V"
proof -
  have f: "take_bit 10 (perm OR PTE_V) = perm OR PTE_V" using assms(1) take_bit_or_V by (simp add: leaf_perm_def)
  show fl: "PTE_FLAGS (PA2PTE pa OR perm OR PTE_V) = perm OR PTE_V" using PTE_FLAGS_PA2PTE[OF f] .
  show "is_leaf (PA2PTE pa OR perm OR PTE_V)" using fl assms(1) vld_or_V[of "PA2PTE pa OR perm"] by (simp add: is_leaf_def leaf_perm_def or.assoc)
  show "PTE2PA (PA2PTE pa OR perm OR PTE_V) = pa" using PTE2PA_PA2PTE[OF assms(2) f] .
qed

lemma us_ok_same:
  assumes "us_ok pt n s" "pt_inv pt s'" "\<forall>k<2 ^ 27. ptmap s' pt k = ptmap s pt k" "spare s pt \<subseteq> spare s' pt"
  shows "us_ok pt n s'"
proof -
  note u = us_okD[OF assms(1)]
  have m: "ptmap s' pt k = ptmap s pt k" if "k < UTOP" for k using assms(3) that by simp
  have "frames s' pt {..<n} = frames s pt {..<n}" using m u(2) by (intro frames_cong) simp
  moreover have "inj_on (\<lambda>k. PTE2PA (ptmap s' pt k)) {..<n}" using u(2,5) m by (auto simp: inj_on_def)
  ultimately show ?thesis using u m assms(2,4) by (auto simp: us_ok_def)
qed

text \<open>A page the allocator hands out, filled with something, is not yet part of the address space.\<close>

lemma new_frame:
  assumes us: "us_ok pt n s" and k: "p \<notin> taken s" "taken s1 = insert p (taken s)" "buddy_ok (vm_alloc s1)" "tpage p"
    "vm_alloc s2 = vm_alloc s1" "\<forall>x. \<not> in_page p x \<longrightarrow> vm_mem s2 x = vm_mem s x"
  shows "us_ok pt n s2" "spare s2 pt = insert p (spare s pt)" "keeps pt s s2" "tables s2 pt = tables s pt" "p \<notin> spare s pt"
    "\<forall>k<2 ^ 27. ptmap s2 pt k = ptmap s pt k"
proof -
  have inv: "pt_inv pt s" using us_okD(1)[OF us] .
  have wf: "pt_wf (vm_mem s) pt" and sub: "tables s pt \<subseteq> taken s" using inv by (simp_all add: pt_inv_def)
  have same: "vm_mem s2 x = vm_mem s x" if "t \<in> taken s" "in_page t x" for t x
  proof -
    have "tpage t" "t \<noteq> p" using taken_tpage inv that(1) k(1) by (auto simp: pt_inv_def)
    then show ?thesis using k(4,6) in_page_unique that(2) by blast
  qed
  note tc = tree_cong[OF wf, of "vm_mem s2"]
  show tb: "tables s2 pt = tables s pt" using tc(2) same sub by blast
  show map: "\<forall>k<2 ^ 27. ptmap s2 pt k = ptmap s pt k"
  proof (intro allI impI)
    fix k :: nat
    obtain a b c where v: "vpn_idx k = (a, b, c)" by (metis prod_cases3)
    show "ptmap s2 pt k = ptmap s pt k" using tc(4)[of a b c] same sub vpn_idx_bound[OF v] by (auto simp: ptmap_def v)
  qed
  show sp: "spare s2 pt = insert p (spare s pt)" "p \<notin> spare s pt" using k(1,2,5) tb sub by (auto simp: spare_def)
  show "keeps pt s s2" using same by (auto simp: keeps_def spare_def)
  have "pt_wf (vm_mem s2) pt" using tc(3) same sub by blast
  then have "pt_inv pt s2" using k(2,3,5) tb sub by (auto simp: pt_inv_def)
  then show "us_ok pt n s2" using us_ok_same[OF us _ map] sp(1) by blast
qed

lemma map_frame:
  assumes us: "us_ok pt n s" and n: "n < UTOP" and p: "p \<in> spare s pt" "p \<notin> frames s pt {..<n}" and perm: "leaf_perm perm"
  obtains (full) s' where "mappages me pt (vaddr n) (of_nat PGSIZE) p perm s = Ret (- 1, s')" "pt_step pt s s'" "us_ok pt n s'"
      "\<forall>k<2 ^ 27. ptmap s' pt k = ptmap s pt k"
  | (mapped) s' where "mappages me pt (vaddr n) (of_nat PGSIZE) p perm s = Ret (0, s')" "pt_step pt s s'" "us_ok pt (Suc n) s'"
      "\<forall>k<2 ^ 27. ptmap s' pt k = (if k = n then PA2PTE p OR perm OR PTE_V else ptmap s pt k)"
proof -
  note u = us_okD[OF us]
  have al: "aligned p" using taken_tpage u(1) p(1) by (auto simp: pt_inv_def spare_def tpage_def)
  have nv: "\<not> vld (ptmap s pt n)" "n < 2 ^ 26" using u(4)[of n] n by simp_all
  from u(1) nv(2,1) show ?thesis
  proof (cases rule: mappages_one[where me = me and pa = p and perm = perm])
    case (full s')
    then show ?thesis using that(1) us_ok_same[OF us pt_stepD(1)[OF full(2)] full(3)] pt_stepD(2)[OF full(2)] by simp
  next
    case (mapped s')
    let ?e = "PA2PTE p OR perm OR PTE_V"
    note lp = leaf_perm_pte[OF perm al]
    have m: "ptmap s' pt k = (if k = n then ?e else ptmap s pt k)" if "k < UTOP" for k using mapped(3) that by simp
    have fr: "frames s' pt {..<Suc n} = insert p (frames s pt {..<n})"
      using m n lp(2) by (auto simp: frames_def lessThan_Suc image_iff)
    have inj: "inj_on (\<lambda>k. PTE2PA (ptmap s' pt k)) {..<Suc n}"
    proof (rule inj_onI)
      fix i j assume ij: "i \<in> {..<Suc n}" "j \<in> {..<Suc n}" "PTE2PA (ptmap s' pt i) = PTE2PA (ptmap s' pt j)"
      have f: "PTE2PA (ptmap s' pt k) = (if k = n then p else PTE2PA (ptmap s pt k))" if "k \<in> {..<Suc n}" for k
        using m[of k] that n lp(2) by auto
      show "i = j"
        using ij(3) p(2) inj_onD[OF u(5), of i j] ij(1,2) unfolding f[OF ij(1)] f[OF ij(2)]
        by (auto simp: frames_def less_Suc_eq split: if_splits)
    qed
    have "us_ok pt (Suc n) s'"
      using inj fr u(3,4,6) p(1) m lp(1) n pt_stepD(1,2)[OF mapped(2)] by (auto simp: us_ok_def less_Suc_eq)
    then show ?thesis using that(2) mapped by simp
  qed
qed

end
