(* ===== verification/VM_Grow.thy ===== *)
theory VM_Grow
  imports VM_User
begin

text \<open>
  Growing an address space: \<open>uvmalloc\<close>, which maps zeroed frames, and \<open>uvmcopy\<close>, which maps copies of the
  frames of another address space. Both allocate a frame and map it in every iteration and undo all iterations
  when memory runs out.
\<close>

text \<open>The page at \<open>p\<close> has the byte \<open>f i\<close> at every offset \<open>i\<close>.\<close>

definition page_is :: "(u64 \<Rightarrow> u8) \<Rightarrow> vm \<Rightarrow> u64 \<Rightarrow> bool" where
  "page_is f s p \<longleftrightarrow> (\<forall>x. in_page p x \<longrightarrow> vm_mem s x = f (x - p))"

lemma page_is_keeps: "page_is f s p \<Longrightarrow> keeps pt s s' \<Longrightarrow> p \<in> spare s pt \<Longrightarrow> page_is f s' p"
  by (simp add: page_is_def keeps_def)

lemma drop_frame:
  assumes us: "us_ok pt n s" and p: "p \<in> spare s pt" "p \<notin> frames s pt {..<n}"
  obtains s' where "kfree_vm me p s = Ret s'" "us_ok pt n s'" "spare s' pt = spare s pt - {p}" "vm_mem s' = vm_mem s"
    "tables s' pt = tables s pt" "ptmap s' pt = ptmap s pt"
proof -
  note u = us_okD[OF us]
  have "buddy_ok (vm_alloc s)" "p \<in> taken s" using u(1) p(1) by (auto simp: pt_inv_def spare_def)
  then obtain s' where s': "kfree_vm me p s = Ret s'" "buddy_ok (vm_alloc s')" "taken s' = taken s - {p}" "vm_mem s' = vm_mem s"
    by (rule kfree_vm_ok)
  have sub: "tables s pt \<subseteq> taken s'" using u(1) p(1) s'(3) by (auto simp: pt_inv_def spare_def)
  note i = pt_inv_mem_alloc[OF u(1) s'(4,2) sub]
  have sp: "spare s' pt = spare s pt - {p}" using s'(3,4) by (auto simp: spare_def)
  have "frames s' pt {..<n} \<subseteq> spare s' pt" using u(6) p(2) sp i(2) by (auto simp: frames_def)
  then have "us_ok pt n s'" using u i(1,2) by (simp add: us_ok_def)
  then show ?thesis using that s' sp i(2) by simp
qed

text \<open>One iteration of the loops: \<open>fill\<close> is what is done to the new frame before it is mapped.\<close>

lemma grow_one:
  assumes us: "us_ok pt n s" and n: "n < UTOP" and perm: "leaf_perm perm"
    and fill: "\<forall>p s1. vm_alloc (fill p s1) = vm_alloc s1" "\<forall>p s1 x. tpage p \<longrightarrow> vm_mem s1 = vm_mem s \<longrightarrow> \<not> in_page p x \<longrightarrow> vm_mem (fill p s1) x = vm_mem s1 x"
  obtains (nomem) "kalloc_vm me s = Ret (0, s)"
  | (nomap) p s1 s2 s3 where "kalloc_vm me s = Ret (p, s1)" "p \<noteq> 0" "mappages me pt (vaddr n) (of_nat PGSIZE) p perm (fill p s1) = Ret (- 1, s2)"
      "kfree_vm me p s2 = Ret s3" "us_ok pt n s3" "keeps pt s s3" "spare s3 pt = spare s pt" "\<forall>k<2 ^ 27. ptmap s3 pt k = ptmap s pt k"
  | (grown) p s1 s2 where "kalloc_vm me s = Ret (p, s1)" "p \<noteq> 0" "mappages me pt (vaddr n) (of_nat PGSIZE) p perm (fill p s1) = Ret (0, s2)"
      "us_ok pt (Suc n) s2" "keeps pt s s2" "spare s2 pt = insert p (spare s pt)" "p \<notin> spare s pt" "tpage p" "vm_mem s1 = vm_mem s"
      "\<forall>k<2 ^ 27. ptmap s2 pt k = (if k = n then PA2PTE p OR perm OR PTE_V else ptmap s pt k)"
      "\<And>x. in_page p x \<Longrightarrow> vm_mem s2 x = vm_mem (fill p s1) x"
proof -
  have b: "buddy_ok (vm_alloc s)" using us_okD(1)[OF us] by (simp add: pt_inv_def)
  then show ?thesis
  proof (cases rule: kalloc_vm_cases[where me = me])
    case none
    then show ?thesis using that(1) by simp
  next
    case (some p s1)
    let ?s = "fill p s1"
    have "\<forall>x. \<not> in_page p x \<longrightarrow> vm_mem ?s x = vm_mem s x" using fill(2) some(3,7) by simp
    note nf = new_frame[OF us some(4,5,6,3) spec[OF spec[OF fill(1)]] this]
    have p: "p \<in> spare ?s pt" "p \<notin> frames ?s pt {..<n}"
      using nf(2,5) us_okD(2,6)[OF us] frames_cong[of "{..<n}" ?s pt s] nf(6) by auto
    from nf(1) n p perm show ?thesis
    proof (cases rule: map_frame[where me = me])
      case (full s2)
      have p2: "p \<in> spare s2 pt" "p \<notin> frames s2 pt {..<n}"
        using p pt_stepD(2)[OF full(2)] frames_cong[of "{..<n}" s2 pt ?s] full(4) us_okD(2)[OF us] by auto
      obtain s3 where s3: "kfree_vm me p s2 = Ret s3" "us_ok pt n s3" "spare s3 pt = spare s2 pt - {p}" "vm_mem s3 = vm_mem s2"
          "tables s3 pt = tables s2 pt" "ptmap s3 pt = ptmap s2 pt"
        by (rule drop_frame[OF full(3) p2, where me = me])
      have sp: "spare s3 pt = spare s pt" using s3(3) pt_stepD(2)[OF full(2)] nf(2,5) by auto
      have "keeps pt s s2" using keeps_trans[OF nf(3) pt_step_keeps[OF us_okD(1)[OF nf(1)] full(2)]] nf(2) by blast
      then have "keeps pt s s3" using s3(4) by (simp add: keeps_def)
      then show ?thesis using that(2)[OF some(1,2) full(1) s3(1,2)] sp s3(6) full(4) nf(6) by simp
    next
      case (mapped s2)
      have k2: "keeps pt ?s s2" using pt_step_keeps[OF us_okD(1)[OF nf(1)] mapped(2)] .
      have ks: "keeps pt s s2" using keeps_trans[OF nf(3) k2] nf(2) by blast
      have sp: "spare s2 pt = insert p (spare s pt)" using pt_stepD(2)[OF mapped(2)] nf(2) by simp
      have mm: "vm_mem s2 x = vm_mem ?s x" if "in_page p x" for x using k2 p(1) that by (simp add: keeps_def)
      show ?thesis
        using that(3)[OF some(1,2) mapped(1,3) ks sp nf(5) some(3,7) _ mm] mapped(4) nf(6) by simp
    qed
  qed
qed

section \<open>\<open>uvmalloc\<close>\<close>

definition uperm :: "u64 \<Rightarrow> u64" where
  "uperm xperm = PTE_R OR PTE_U OR xperm"

lemma leaf_uperm: "take_bit 10 xperm = xperm \<Longrightarrow> leaf_perm (uperm xperm)"
proof -
  assume x: "take_bit 10 xperm = xperm"
  have "bit (uperm xperm OR PTE_V) 1" by (simp add: uperm_def bit_or_iff)
  moreover have "\<not> bit PTE_V 1" by (simp add: bit_iff_odd)
  ultimately have "uperm xperm OR PTE_V \<noteq> PTE_V" by metis
  then show ?thesis using x by (simp add: leaf_perm_def uperm_def take_bit_or)
qed

text \<open>What has been done when the address space has grown from \<open>n\<close> to \<open>n'\<close> pages: the flags of the new entry \<open>k\<close>
  are \<open>F k\<close> and its page has the contents \<open>C k\<close>.\<close>

definition grew :: "u64 \<Rightarrow> nat \<Rightarrow> nat \<Rightarrow> (nat \<Rightarrow> u64) \<Rightarrow> (nat \<Rightarrow> u64 \<Rightarrow> u8) \<Rightarrow> vm \<Rightarrow> vm \<Rightarrow> bool" where
  "grew pt n n' F C s s' \<longleftrightarrow> us_ok pt n' s' \<and> keeps pt s s' \<and> spare s' pt = spare s pt \<union> frames s' pt {n..<n'} \<and>
    spare s pt \<inter> frames s' pt {n..<n'} = {} \<and>
    (\<forall>k<2 ^ 27. k \<notin> {n..<n'} \<longrightarrow> ptmap s' pt k = ptmap s pt k) \<and>
    (\<forall>k\<in>{n..<n'}. PTE_FLAGS (ptmap s' pt k) = F k \<and> page_is (C k) s' (PTE2PA (ptmap s' pt k)))"

text \<open>What it has done when it has failed and gone back from \<open>n\<close> to \<open>n0\<close> pages.\<close>

definition shrunk :: "u64 \<Rightarrow> nat \<Rightarrow> nat \<Rightarrow> vm \<Rightarrow> vm \<Rightarrow> bool" where
  "shrunk pt n0 n s s' \<longleftrightarrow> us_ok pt n0 s' \<and> keeps pt s s' \<and> spare s' pt = spare s pt - frames s pt {n0..<n} \<and>
    (\<forall>k<2 ^ 27. ptmap s' pt k = (if n0 \<le> k \<and> k < n then 0 else ptmap s pt k))"

lemma dealloc_shrunk:
  assumes "us_ok pt n s1" "n0 \<le> n" "keeps pt s s1" "spare s1 pt = spare s pt" "\<forall>k<2 ^ 27. ptmap s1 pt k = ptmap s pt k"
  obtains r s' where "uvmdealloc me pt (vaddr n) (vaddr n0) s1 = Ret (r, s')" "shrunk pt n0 n s s'"
proof -
  have n: "n \<le> UTOP" using us_okD(2)[OF assms(1)] .
  then have nb: "n \<le> 2 ^ 26" by simp
  have fr: "frames s1 pt {n0..<n} = frames s pt {n0..<n}" using assms(5) n by (intro frames_cong) auto
  obtain s' where s': "uvmunmap me pt (vaddr n0) (of_nat (n - n0)) True s1 = Ret s'" "us_ok pt n0 s'" "keeps pt s1 s'"
    "spare s' pt = spare s1 pt - frames s1 pt {n0..<n}" "tables s' pt = tables s1 pt"
    "\<forall>k<2 ^ 27. ptmap s' pt k = (if n0 \<le> k \<and> k < n then 0 else ptmap s1 pt k)"
    by (rule shrink_ok[OF assms(1,2), where me = me])
  have "shrunk pt n0 n s s'"
    using s' keeps_trans[OF assms(3) s'(3)] assms(4,5) fr by (auto simp: shrunk_def)
  moreover have "shrunk pt n0 n s s1" if "n0 = n" using that assms by (auto simp: shrunk_def frames_def)
  ultimately show ?thesis using that s'(1) uvmdealloc_vaddr[OF assms(2) nb, of me pt s1] by (cases "n0 = n") auto
qed

lemma new_entry:
  assumes "\<forall>k<2 ^ 27. ptmap s2 pt k = (if k = n then PA2PTE p OR perm OR PTE_V else ptmap s pt k)" "n < UTOP" "leaf_perm perm" "aligned p"
  shows "PTE2PA (ptmap s2 pt n) = p" "PTE_FLAGS (ptmap s2 pt n) = perm OR PTE_V"
    "n0 \<le> n \<Longrightarrow> frames s2 pt {n0..<Suc n} = insert p (frames s pt {n0..<n})"
proof -
  have e: "ptmap s2 pt n = PA2PTE p OR perm OR PTE_V" using assms(1,2) by simp
  show p: "PTE2PA (ptmap s2 pt n) = p" "PTE_FLAGS (ptmap s2 pt n) = perm OR PTE_V"
    unfolding e using leaf_perm_pte[OF assms(3,4)] by simp_all
  have "frames s2 pt {n0..<n} = frames s pt {n0..<n}" using assms(1,2) by (intro frames_cong) auto
  then show "frames s2 pt {n0..<Suc n} = insert p (frames s pt {n0..<n})" if "n0 \<le> n"
    using that p(1) by (simp add: frames_def atLeastLessThanSuc)
qed

lemma grew_refl: "us_ok pt n s \<Longrightarrow> grew pt n n F C s s"
  by (simp add: grew_def frames_def)

lemma grew_step:
  assumes g: "grew pt (Suc n) n' F C s2 s'" and k: "keeps pt s s2" "spare s2 pt = insert p (spare s pt)" "p \<notin> spare s pt"
    and e: "\<forall>k<2 ^ 27. ptmap s2 pt k = (if k = n then PA2PTE p OR perm OR PTE_V else ptmap s pt k)" "n < UTOP" "leaf_perm perm" "aligned p"
    and z: "F n = perm OR PTE_V" "page_is (C n) s2 p" and n': "n < n'"
  shows "grew pt n n' F C s s'"
proof -
  have split: "{n..<n'} = insert n {Suc n..<n'}" using n' by auto
  have en: "ptmap s' pt n = ptmap s2 pt n" using g e(2) by (simp add: grew_def)
  note ne = new_entry[OF e]
  have fr: "frames s' pt {n..<n'} = insert p (frames s' pt {Suc n..<n'})" unfolding split using en ne(1) by (simp add: frames_def)
  have "keeps pt s s'" using keeps_trans[OF k(1)] g k(2) by (auto simp: grew_def)
  moreover have cp: "page_is (C n) s' p" using page_is_keeps[OF z(2), of pt s'] g k(2) by (simp add: grew_def)
  moreover have "ptmap s' pt k = ptmap s pt k" if "k < 2 ^ 27" "k \<notin> {n..<n'}" for k
  proof -
    have "k \<noteq> n" "k \<notin> {Suc n..<n'}" using that(2) n' by auto
    then show ?thesis using g e(1) that(1) by (simp add: grew_def)
  qed
  moreover have "PTE_FLAGS (ptmap s' pt k) = F k \<and> page_is (C k) s' (PTE2PA (ptmap s' pt k))" if "k \<in> {n..<n'}" for k
    using that g en ne(1,2) z(1) cp by (cases "k = n") (simp_all add: grew_def)
  ultimately show ?thesis using g k(2,3) unfolding grew_def fr by auto
qed

lemma shrunk_step:
  assumes g: "shrunk pt n0 (Suc n) s2 s'" and k: "keeps pt s s2" "spare s2 pt = insert p (spare s pt)" "p \<notin> spare s pt"
    and e: "\<forall>k<2 ^ 27. ptmap s2 pt k = (if k = n then PA2PTE p OR perm OR PTE_V else ptmap s pt k)" "n < UTOP" "leaf_perm perm" "aligned p"
    and n0: "n0 \<le> n" and z: "ptmap s pt n = 0"
  shows "shrunk pt n0 n s s'"
proof -
  have "keeps pt s s'" using keeps_trans[OF k(1)] g k(2) by (auto simp: shrunk_def)
  moreover have "spare s' pt = spare s pt - frames s pt {n0..<n}"
    using g k(2,3) new_entry(3)[OF e n0] by (auto simp: shrunk_def)
  moreover have "ptmap s' pt k = (if n0 \<le> k \<and> k < n then 0 else ptmap s pt k)" if "k < 2 ^ 27" for k
    using g e(1) that z n0 by (auto simp: shrunk_def less_Suc_eq)
  ultimately show ?thesis using g by (simp add: shrunk_def)
qed

lemma uvmalloc_loop_ok:
  assumes "us_ok pt n s" "n0 \<le> n" "npg newsz \<le> UTOP" "npg newsz - n < fuel" "take_bit 10 xperm = xperm"
  shows "(\<exists>s'. uvmalloc_loop me fuel pt (vaddr n) (vaddr n0) newsz xperm s = Ret (newsz, s') \<and>
      grew pt n (max n (npg newsz)) (\<lambda>_. uperm xperm OR PTE_V) (\<lambda>_ _. 0) s s') \<or>
    (\<exists>s'. uvmalloc_loop me fuel pt (vaddr n) (vaddr n0) newsz xperm s = Ret (0, s') \<and> shrunk pt n0 n s s')"
  using assms(1,2,4)
proof (induction fuel arbitrary: n s)
  case (Suc fuel n s)
  note us = Suc.prems(1)
  have lp: "leaf_perm (uperm xperm)" using leaf_uperm[OF assms(5)] .
  have nb: "n \<le> 2 ^ 26" using us_okD(2)[OF us] by simp
  show ?case
  proof (cases "n < npg newsz")
    case False
    then show ?thesis using grew_refl[OF us] nb by (auto simp: vaddr_less_size max_def)
  next
    case True
    then have n: "n < UTOP" using assms(3) by simp
    have lt: "vaddr n < newsz" using True nb by (simp add: vaddr_less_size)
    have fill: "\<forall>p s1. vm_alloc (zero_page p s1) = vm_alloc s1"
      "\<forall>p s1 x. tpage p \<longrightarrow> vm_mem s1 = vm_mem s \<longrightarrow> \<not> in_page p x \<longrightarrow> vm_mem (zero_page p s1) x = vm_mem s1 x"
      by (simp_all add: zero_page_mem fill_bytes_def in_page_def)
    from us n lp fill show ?thesis
    proof (cases rule: grow_one[where me = me and fill = zero_page])
      case nomem
      obtain r s' where "uvmdealloc me pt (vaddr n) (vaddr n0) s = Ret (r, s')" "shrunk pt n0 n s s'"
        by (rule dealloc_shrunk[OF us Suc.prems(2), where me = me and s = s]) simp_all
      then show ?thesis using nomem lt by simp
    next
      case (nomap p s1 s2 s3)
      obtain r s' where "uvmdealloc me pt (vaddr n) (vaddr n0) s3 = Ret (r, s')" "shrunk pt n0 n s s'"
        by (rule dealloc_shrunk[OF nomap(5) Suc.prems(2) nomap(6-8), where me = me])
      then show ?thesis using nomap(1-4) lt by (simp add: uperm_def)
    next
      case (grown p s1 s2)
      have al: "aligned p" using grown(8) by (simp add: tpage_def)
      have z: "page_is (\<lambda>_. 0) s2 p" using grown(11) by (simp add: page_is_def zero_page_mem fill_bytes_def in_page_def)
      have loop: "uvmalloc_loop me (Suc fuel) pt (vaddr n) (vaddr n0) newsz xperm s
          = uvmalloc_loop me fuel pt (vaddr (Suc n)) (vaddr n0) newsz xperm s2" using grown(1-3) lt by (simp add: uperm_def)
      have mx: "max (Suc n) (npg newsz) = max n (npg newsz)" "n < max n (npg newsz)" using True by auto
      have f: "npg newsz - Suc n < fuel" "n0 \<le> Suc n" using Suc.prems(2,3) True by auto
      show ?thesis
        using Suc.IH[OF grown(4) f(2,1)] grew_step[OF _ grown(5-7,10) n lp al _ z mx(2)]
          shrunk_step[OF _ grown(5-7,10) n lp al Suc.prems(2)] us_okD(4)[OF us order_refl n] unfolding loop mx(1) by blast
    qed
  qed
qed simp

text \<open>\<open>uvmalloc\<close> from a size to a larger one.\<close>

lemma uvmalloc_ok:
  assumes "us_ok pt (npg oldsz) s" "oldsz \<le> newsz" "npg newsz \<le> UTOP" "take_bit 10 xperm = xperm"
  shows "(\<exists>s'. uvmalloc me pt oldsz newsz xperm s = Ret (newsz, s') \<and> grew pt (npg oldsz) (npg newsz) (\<lambda>_. uperm xperm OR PTE_V) (\<lambda>_ _. 0) s s') \<or>
    (\<exists>s'. uvmalloc me pt oldsz newsz xperm s = Ret (0, s') \<and> shrunk pt (npg oldsz) (npg oldsz) s s')"
proof -
  have o: "unat oldsz \<le> unat newsz" using assms(2) by (simp add: word_le_nat_alt)
  have nb: "unat newsz \<le> 2 ^ 38"
  proof -
    have "unat newsz \<le> npg newsz * PGSIZE" unfolding npg_def by simp
    then show ?thesis using assms(3) by simp
  qed
  have r: "PGROUNDUP oldsz = vaddr (npg oldsz)" using nb o by (intro PGROUNDUP_vaddr) simp
  have mono: "npg oldsz \<le> npg newsz" using o unfolding npg_def by (intro div_le_mono) simp
  have "npg newsz - npg oldsz < unat (newsz - vaddr (npg oldsz)) div PGSIZE + 2"
  proof (cases "npg oldsz < npg newsz")
    case True
    have "npg oldsz \<le> 2 ^ 26" using mono assms(3) by simp
    then have "unat (vaddr (npg oldsz)) = npg oldsz * PGSIZE" "unat (vaddr (npg oldsz)) < unat newsz"
      using True vaddr_less_size[of "npg oldsz" newsz] by (simp_all add: unat_vaddr word_less_nat_alt)
    then have "unat (newsz - vaddr (npg oldsz)) = unat newsz - npg oldsz * PGSIZE" by (simp add: unat_sub_if)
    moreover have "npg newsz - npg oldsz \<le> (unat newsz - npg oldsz * PGSIZE) div PGSIZE + 1"
      unfolding npg_def[of newsz] using o by simp
    ultimately show ?thesis by simp
  qed simp
  then show ?thesis
    using uvmalloc_loop_ok[OF assms(1) order_refl assms(3) _ assms(4), of "unat (newsz - vaddr (npg oldsz)) div PGSIZE + 2" me] assms(2) mono
    by (simp add: uvmalloc_def r Let_def max_absorb2 leD del: uvmalloc_loop.simps)
qed

section \<open>\<open>uvmcopy\<close>\<close>

text \<open>
  The address space that is copied: its tables and its first \<open>n\<close> frames are pages that do not belong to the
  tree \<open>new\<close>; \<open>F\<close> and \<open>C\<close> are the flags and the contents of its pages.
\<close>

definition origin :: "u64 \<Rightarrow> u64 \<Rightarrow> nat \<Rightarrow> (nat \<Rightarrow> u64) \<Rightarrow> (nat \<Rightarrow> u64 \<Rightarrow> u8) \<Rightarrow> vm \<Rightarrow> bool" where
  "origin old new n F C s \<longleftrightarrow> pt_wf (vm_mem s) old \<and> tables s old \<subseteq> spare s new \<and>
    (\<forall>k<n. is_leaf (ptmap s old k) \<and> PTE2PA (ptmap s old k) \<in> spare s new \<and> PTE_FLAGS (ptmap s old k) = F k \<and>
      page_is (C k) s (PTE2PA (ptmap s old k)))"

lemma other_tree:
  assumes "pt_wf (vm_mem s) old" "tables s old \<subseteq> spare s new" "keeps new s s'"
  shows "pt_wf (vm_mem s') old" "tables s' old = tables s old" "ptmap s' old k = ptmap s old k"
proof -
  have same: "vm_mem s' x = vm_mem s x" if "t \<in> tables s old" "in_page t x" for t x using assms(2,3) that by (auto simp: keeps_def)
  note tc = tree_cong[OF assms(1) same]
  show "pt_wf (vm_mem s') old" "tables s' old = tables s old" by (rule tc; simp)+
  obtain a b c where v: "vpn_idx k = (a, b, c)" by (metis prod_cases3)
  show "ptmap s' old k = ptmap s old k" using tc(4) vpn_idx_bound[OF v] by (simp add: ptmap_def v)
qed

lemma origin_keeps:
  assumes "origin old new n F C s" "keeps new s s'" "spare s new \<subseteq> spare s' new"
  shows "origin old new n F C s'"
proof -
  note o = assms(1)[unfolded origin_def]
  have t: "pt_wf (vm_mem s') old" "tables s' old = tables s old" "\<And>k. ptmap s' old k = ptmap s old k"
    using other_tree[OF _ _ assms(2)] o by auto
  have "page_is (C k) s' (PTE2PA (ptmap s old k))" if "k < n" for k
    using o that by (intro page_is_keeps[OF _ assms(2)]) auto
  then show ?thesis using o t assms(3) unfolding origin_def by auto
qed

lemma leaf_flags:
  assumes "is_leaf e"
  shows "leaf_perm (PTE_FLAGS e)" "PTE_FLAGS e OR PTE_V = PTE_FLAGS e"
proof -
  have m: "(0x3FF :: u64) = mask 10" by (simp add: mask_eq_exp_minus_1)
  show v: "PTE_FLAGS e OR PTE_V = PTE_FLAGS e"
  proof (rule bit_word_eqI)
    fix i assume "i < LENGTH(64)"
    show "bit (PTE_FLAGS e OR PTE_V) i = bit (PTE_FLAGS e) i"
      using assms by (cases i) (auto simp: is_leaf_def vld_bit PTE_FLAGS_def m bit_or_iff bit_and_iff bit_mask_iff bit_1_iff)
  qed
  show "leaf_perm (PTE_FLAGS e)"
    using assms v by (simp add: leaf_perm_def is_leaf_def PTE_FLAGS_def m flip: take_bit_eq_mask)
qed

lemma copy_page:
  assumes "tpage pa" "tpage p" "page_is f s pa"
  shows "\<not> in_page p x \<Longrightarrow> memmove p pa PGSIZE (vm_mem s) x = vm_mem s x"
    "in_page p x \<Longrightarrow> memmove p pa PGSIZE (vm_mem s) x = f (x - p)"
proof -
  have m: "memmove p pa PGSIZE (vm_mem s) = copy_bytes p pa PGSIZE (vm_mem s)" using assms(1) by (intro memmove_copy) (simp_all add: tpage_def)
  show "\<not> in_page p x \<Longrightarrow> memmove p pa PGSIZE (vm_mem s) x = vm_mem s x" by (simp add: m copy_bytes_def in_page_def)
  assume i: "in_page p x"
  then have "in_page pa (pa + (x - p))" by (simp add: in_page_def)
  then show "memmove p pa PGSIZE (vm_mem s) x = f (x - p)" using i assms(3) by (simp add: m copy_bytes_def in_page_def page_is_def)
qed

lemma uvmcopy_err_shrunk:
  assumes "us_ok pt n s1" "keeps pt s s1" "spare s1 pt = spare s pt" "\<forall>k<2 ^ 27. ptmap s1 pt k = ptmap s pt k"
  obtains s' where "uvmcopy_err me pt (vaddr n) s1 = Ret (- 1, s')" "shrunk pt 0 n s s'"
proof -
  have n: "n \<le> 2 ^ 26" using us_okD(2)[OF assms(1)] by simp
  have fr: "frames s1 pt {0..<n} = frames s pt {0..<n}" using assms(4) n by (intro frames_cong) auto
  obtain s' where s': "uvmunmap me pt (vaddr 0) (of_nat (n - 0)) True s1 = Ret s'" "us_ok pt 0 s'" "keeps pt s1 s'"
    "spare s' pt = spare s1 pt - frames s1 pt {0..<n}" "tables s' pt = tables s1 pt"
    "\<forall>k<2 ^ 27. ptmap s' pt k = (if 0 \<le> k \<and> k < n then 0 else ptmap s1 pt k)"
    by (rule shrink_ok[OF assms(1), of 0, where me = me]) simp
  have "unat (vaddr n div of_nat PGSIZE) = n" using n by (simp add: unat_div unat_vaddr)
  then have "vaddr n div of_nat PGSIZE = of_nat n" by (metis of_nat_unat ucast_id)
  then have "uvmcopy_err me pt (vaddr n) s1 = Ret (- 1, s')" using s'(1) by (simp add: uvmcopy_err_def vaddr_def)
  moreover have "shrunk pt 0 n s s'"
    using s' keeps_trans[OF assms(2) s'(3)] assms(3,4) fr by (auto simp: shrunk_def)
  ultimately show ?thesis using that by blast
qed

lemma origin_walk:
  assumes "origin old new n F C s" "k < n" "n \<le> UTOP"
  obtains pte where "walk me old (vaddr k) False s = Ret (pte, s)" "pte \<noteq> 0" "get_pte s pte = ptmap s old k"
proof -
  have v: "vld (ptmap s old k)" and wf: "pt_wf (vm_mem s) old" using assms(1,2) by (auto simp: origin_def is_leaf_def)
  obtain a where a: "leaf s old k = Some a" using ptmap_leaf[OF v] by blast
  have "walk me old (vaddr k) False s = Ret (a, s)" using assms(2,3) a vaddr_maxva[of k] by (simp add: walk_False vaddr_div not_le)
  then show ?thesis using that leaf_Some[OF wf a] by blast
qed

lemma uvmcopy_loop_ok:
  assumes "us_ok new n s" "origin old new (npg sz) F C s" "npg sz \<le> UTOP" "npg sz - n < fuel"
  shows "(\<exists>s'. uvmcopy_loop me fuel old new (vaddr n) sz s = Ret (0, s') \<and> grew new n (max n (npg sz)) F C s s') \<or>
    (\<exists>s'. uvmcopy_loop me fuel old new (vaddr n) sz s = Ret (- 1, s') \<and> shrunk new 0 n s s')"
  using assms(1,2,4)
proof (induction fuel arbitrary: n s)
  case (Suc fuel n s)
  note us = Suc.prems(1) and o = Suc.prems(2)
  have nb: "n \<le> 2 ^ 26" using us_okD(2)[OF us] by simp
  show ?case
  proof (cases "n < npg sz")
    case False
    then show ?thesis using grew_refl[OF us] nb by (auto simp: vaddr_less_size max_def)
  next
    case True
    then have n: "n < UTOP" using assms(3) by simp
    have lt: "vaddr n < sz" using True nb by (simp add: vaddr_less_size)
    let ?e = "ptmap s old n"
    have e: "is_leaf ?e" "PTE2PA ?e \<in> spare s new" "PTE_FLAGS ?e = F n" "page_is (C n) s (PTE2PA ?e)"
      using o True by (auto simp: origin_def)
    have tp: "tpage (PTE2PA ?e)" using e(2) us_okD(1)[OF us] taken_tpage by (auto simp: spare_def pt_inv_def)
    have ve: "?e AND PTE_V \<noteq> 0" using e(1) by (simp add: is_leaf_def vld_def)
    obtain pte where w: "walk me old (vaddr n) False s = Ret (pte, s)" "pte \<noteq> 0" "get_pte s pte = ?e"
      by (rule origin_walk[OF o True assms(3), where me = me])
    let ?fill = "\<lambda>p s1. s1\<lparr>vm_mem := memmove p (PTE2PA ?e) PGSIZE (vm_mem s1)\<rparr>"
    note lf = leaf_flags[OF e(1), unfolded e(3)]
    have fill: "\<forall>p s1. vm_alloc (?fill p s1) = vm_alloc s1"
      "\<forall>p s1 x. tpage p \<longrightarrow> vm_mem s1 = vm_mem s \<longrightarrow> \<not> in_page p x \<longrightarrow> vm_mem (?fill p s1) x = vm_mem s1 x"
      using copy_page(1)[OF tp _ e(4)] by simp_all
    from us n lf(1) fill show ?thesis
    proof (cases rule: grow_one[where me = me and fill = ?fill])
      case nomem
      obtain s' where "uvmcopy_err me new (vaddr n) s = Ret (- 1, s')" "shrunk new 0 n s s'"
        by (rule uvmcopy_err_shrunk[OF us, where me = me and s = s]) simp_all
      then show ?thesis using nomem lt w ve by (simp add: Let_def)
    next
      case (nomap p s1 s2 s3)
      obtain s' where "uvmcopy_err me new (vaddr n) s3 = Ret (- 1, s')" "shrunk new 0 n s s'"
        by (rule uvmcopy_err_shrunk[OF nomap(5-8), where me = me])
      then show ?thesis using nomap(1-4) lt w ve e(3) by (simp add: Let_def)
    next
      case (grown p s1 s2)
      have al: "aligned p" using grown(8) by (simp add: tpage_def)
      have z: "page_is (C n) s2 p" using grown(9,11) copy_page(2)[OF tp grown(8) e(4)] by (simp add: page_is_def)
      have loop: "uvmcopy_loop me (Suc fuel) old new (vaddr n) sz s = uvmcopy_loop me fuel old new (vaddr (Suc n)) sz s2"
        using grown(1-3) lt w ve e(3) by (simp add: Let_def)
      have mx: "max (Suc n) (npg sz) = max n (npg sz)" "n < max n (npg sz)" using True by auto
      have o2: "origin old new (npg sz) F C s2" using origin_keeps[OF o grown(5)] grown(6) by auto
      have f: "npg sz - Suc n < fuel" using Suc.prems(3) True by simp
      show ?thesis
        using Suc.IH[OF grown(4) o2 f] grew_step[where F = F and C = C, OF _ grown(5-7,10) n lf(1) al lf(2)[symmetric] z mx(2)]
          shrunk_step[OF _ grown(5-7,10) n lf(1) al le0] us_okD(4)[OF us order_refl n] unfolding loop mx(1) by blast
    qed
  qed
qed simp

text \<open>\<open>uvmcopy\<close> into an empty address space.\<close>

lemma uvmcopy_ok:
  assumes "us_ok new 0 s" "origin old new (npg sz) F C s" "npg sz \<le> UTOP"
  shows "(\<exists>s'. uvmcopy me old new sz s = Ret (0, s') \<and> grew new 0 (npg sz) F C s s') \<or>
    (\<exists>s'. uvmcopy me old new sz s = Ret (- 1, s') \<and> shrunk new 0 0 s s')"
proof -
  have "npg sz - 0 < unat sz div PGSIZE + 2" unfolding npg_def by simp
  moreover have "vaddr 0 = 0" by (simp add: vaddr_def)
  ultimately show ?thesis using uvmcopy_loop_ok[OF assms, of "unat sz div PGSIZE + 2" me]
    by (simp add: uvmcopy_def del: uvmcopy_loop.simps)
qed

end
