(* ===== verification/VM_Copy.thy ===== *)
theory VM_Copy
  imports VM_Grow
begin

text \<open>
  \<open>copyin\<close>, \<open>copyinstr\<close> and \<open>copyout\<close> against a byte-by-byte view of user memory: \<open>upa s pt va\<close> is the
  physical address of the user address \<open>va\<close> and \<open>user_ok s pt va\<close> says that user code may use it. The loops of the
  kernel copy page by page; the lemmas show that the result is that of a copy byte by byte.
\<close>

definition upte :: "vm \<Rightarrow> u64 \<Rightarrow> u64 \<Rightarrow> u64" where
  "upte s pt va = ptmap s pt (unat va div PGSIZE)"

definition upa :: "vm \<Rightarrow> u64 \<Rightarrow> u64 \<Rightarrow> u64" where
  "upa s pt va = PTE2PA (upte s pt va) + of_nat (unat va mod PGSIZE)"

definition user_ok :: "vm \<Rightarrow> u64 \<Rightarrow> u64 \<Rightarrow> bool" where
  "user_ok s pt va \<longleftrightarrow> unat va < MAXVA \<and> vld (upte s pt va) \<and> upte s pt va AND PTE_U \<noteq> 0 \<and> PTE2PA (upte s pt va) \<noteq> 0"

definition user_bytes :: "vm \<Rightarrow> u64 \<Rightarrow> u64 \<Rightarrow> nat \<Rightarrow> u8 list" where
  "user_bytes s pt va n = map (\<lambda>i. vm_mem s (upa s pt (va + of_nat i))) [0..<n]"

lemma user_bytes_0 [simp]: "user_bytes s pt va 0 = []"
  by (simp add: user_bytes_def)

lemma user_bytes_length [simp]: "length (user_bytes s pt va n) = n"
  by (simp add: user_bytes_def)

lemma user_bytes_add: "user_bytes s pt va (m + n) = user_bytes s pt va m @ user_bytes s pt (va + of_nat m) n"
  by (rule nth_equalityI) (auto simp: user_bytes_def nth_append add.assoc simp flip: of_nat_add)

section \<open>The part of a run that lies in the first page\<close>

lemma same_page:
  fixes va :: u64
  assumes "unat va mod PGSIZE + i < PGSIZE"
  shows "unat (va + of_nat i) = unat va + i" "unat (va + of_nat i) div PGSIZE = unat va div PGSIZE"
    "unat (va + of_nat i) mod PGSIZE = unat va mod PGSIZE + i"
proof -
  have d: "unat va = unat va div PGSIZE * PGSIZE + unat va mod PGSIZE" by simp
  have "unat va div PGSIZE < 4503599627370496" using unsigned_less[of va] by (intro less_mult_imp_div_less) simp
  then have "unat va + i < 18446744073709551616" using assms d by linarith
  then have "unat va + i < 2 ^ 64" by simp
  then show e: "unat (va + of_nat i) = unat va + i" by (intro unat_add_of_nat) simp
  have s: "unat va + i = (unat va mod PGSIZE + i) + unat va div PGSIZE * PGSIZE" using d by simp
  show "unat (va + of_nat i) div PGSIZE = unat va div PGSIZE" unfolding e s using assms by (subst div_mult_self1) simp_all
  show "unat (va + of_nat i) mod PGSIZE = unat va mod PGSIZE + i" unfolding e s using assms by (subst mod_mult_self1) simp_all
qed

lemma upa_same_page:
  assumes "unat va mod PGSIZE + i < PGSIZE"
  shows "upa s pt (va + of_nat i) = upa s pt va + of_nat i" "upte s pt (va + of_nat i) = upte s pt va"
  using same_page[OF assms] by (simp_all add: upa_def upte_def del: of_nat_add) (simp add: of_nat_add add.assoc)

lemma load_chunk: "unat va mod PGSIZE + n \<le> PGSIZE \<Longrightarrow> load_bytes (vm_mem s) (upa s pt va) n = user_bytes s pt va n"
  unfolding load_bytes_def user_bytes_def by (intro map_cong) (simp_all add: upa_same_page)

lemma rounded_down:
  "unat (PGROUNDDOWN va) div PGSIZE = unat va div PGSIZE" "va - PGROUNDDOWN va = of_nat (unat va mod PGSIZE)"
  "unat (va - PGROUNDDOWN va) = unat va mod PGSIZE"
proof -
  have e: "unat (PGROUNDDOWN va) = unat va div PGSIZE * PGSIZE" by (simp add: PGROUNDDOWN_unat minus_mod_eq_div_mult)
  show "unat (PGROUNDDOWN va) div PGSIZE = unat va div PGSIZE" unfolding e by simp
  have "unat (PGROUNDDOWN va) \<le> unat va" unfolding e by simp
  then show d: "unat (va - PGROUNDDOWN va) = unat va mod PGSIZE" unfolding unat_sub_if e by (simp add: minus_div_mult_eq_mod)
  then show "va - PGROUNDDOWN va = of_nat (unat va mod PGSIZE)" by (metis of_nat_unat ucast_id)
qed

text \<open>The address of the next page, when the run goes on there.\<close>

lemma next_page: "PGROUNDDOWN va + of_nat PGSIZE = va + of_nat (PGSIZE - unat va mod PGSIZE)"
proof -
  have "unat va mod PGSIZE \<le> PGSIZE" by simp
  then have "of_nat (PGSIZE - unat va mod PGSIZE) = (of_nat PGSIZE - of_nat (unat va mod PGSIZE) :: u64)" by (rule of_nat_diff)
  moreover have "PGROUNDDOWN va = va - of_nat (unat va mod PGSIZE)" using rounded_down(2)[of va] by (simp add: algebra_simps)
  ultimately show ?thesis by simp
qed

lemma next_chunk:
  assumes "min (PGSIZE - unat va mod PGSIZE) len \<noteq> len"
  shows "va + of_nat (min (PGSIZE - unat va mod PGSIZE) len) = PGROUNDDOWN va + 4096"
proof -
  have "min (PGSIZE - unat va mod PGSIZE) len = PGSIZE - unat va mod PGSIZE" using assms by linarith
  then show ?thesis using next_page[of va] by (simp del: of_nat_diff)
qed

lemma walkaddr_user:
  assumes "pt_wf (vm_mem s) pt"
  shows "user_ok s pt va \<Longrightarrow> walkaddr me pt (PGROUNDDOWN va) s = Ret (PTE2PA (upte s pt va)) \<and> PTE2PA (upte s pt va) \<noteq> 0"
    "\<not> user_ok s pt va \<Longrightarrow> walkaddr me pt (PGROUNDDOWN va) s = Ret 0"
proof -
  have "unat (PGROUNDDOWN va) < MAXVA \<longleftrightarrow> unat va < MAXVA"
    using rounded_down(1)[of va] div_less_iff_less_mult[of PGSIZE "unat va" "2 ^ 26"] div_less_iff_less_mult[of PGSIZE "unat (PGROUNDDOWN va)" "2 ^ 26"] by simp
  then show "user_ok s pt va \<Longrightarrow> walkaddr me pt (PGROUNDDOWN va) s = Ret (PTE2PA (upte s pt va)) \<and> PTE2PA (upte s pt va) \<noteq> 0"
    "\<not> user_ok s pt va \<Longrightarrow> walkaddr me pt (PGROUNDDOWN va) s = Ret 0"
    unfolding walkaddr_ptmap[OF assms] rounded_down(1) by (auto simp: user_ok_def upte_def Let_def)
qed

section \<open>\<open>copyin\<close>\<close>

lemma chunk_user_ok:
  assumes "unat va mod PGSIZE + i < PGSIZE"
  shows "user_ok s pt (va + of_nat i) \<longleftrightarrow> user_ok s pt va"
proof -
  have "unat (va + of_nat i) < MAXVA \<longleftrightarrow> unat va < MAXVA"
    using same_page(2)[OF assms] div_less_iff_less_mult[of PGSIZE "unat va" "2 ^ 26"] div_less_iff_less_mult[of PGSIZE "unat (va + of_nat i)" "2 ^ 26"] by simp
  then show ?thesis by (simp add: user_ok_def upa_same_page(2)[OF assms])
qed

lemma chunk_ok: "user_ok s pt va \<Longrightarrow> \<forall>i<min (PGSIZE - unat va mod PGSIZE) len. user_ok s pt (va + of_nat i)"
  by (simp add: chunk_user_ok less_diff_conv add.commute)

lemma apsnd_append: "apsnd ((@) a) (apsnd ((@) b) p) = apsnd ((@) (a @ b)) p" "apsnd ((@) []) p = p"
  by (cases p; simp)+

text \<open>The reference: one byte at a time.\<close>

primrec copyin_bytes :: "vm \<Rightarrow> u64 \<Rightarrow> nat \<Rightarrow> u64 \<Rightarrow> int \<times> u8 list" where
  "copyin_bytes s pt 0 va = (0, [])"
| "copyin_bytes s pt (Suc n) va =
    (if user_ok s pt va then apsnd (Cons (vm_mem s (upa s pt va))) (copyin_bytes s pt n (va + 1)) else (- 1, []))"

primrec copyinstr_bytes :: "vm \<Rightarrow> u64 \<Rightarrow> nat \<Rightarrow> u64 \<Rightarrow> int \<times> u8 list" where
  "copyinstr_bytes s pt 0 va = (- 1, [])"
| "copyinstr_bytes s pt (Suc n) va =
    (if \<not> user_ok s pt va then (- 1, [])
     else if vm_mem s (upa s pt va) = 0 then (0, [0])
     else apsnd (Cons (vm_mem s (upa s pt va))) (copyinstr_bytes s pt n (va + 1)))"

lemma user_bytes_Suc: "user_bytes s pt va (Suc n) = vm_mem s (upa s pt va) # user_bytes s pt (va + 1) n"
  using user_bytes_add[of s pt va 1 n] by (simp add: user_bytes_def)

lemma copyin_bytes_add:
  "\<forall>i<n. user_ok s pt (va + of_nat i) \<Longrightarrow>
    copyin_bytes s pt (n + m) va = apsnd ((@) (user_bytes s pt va n)) (copyin_bytes s pt m (va + of_nat n))"
proof (induction n arbitrary: va)
  case (Suc n)
  have "user_ok s pt va" "\<forall>i<n. user_ok s pt (va + 1 + of_nat i)" using Suc.prems by (auto simp: add.assoc dest: spec[of _ "Suc _"] spec[of _ 0])
  then show ?case using Suc.IH[of "va + 1"] by (simp add: user_bytes_Suc add.assoc comp_def apsnd_compose)
qed (simp add: apsnd_def map_prod_def)

lemma copyin_bytes_all:
  assumes "\<forall>i<n. user_ok s pt (va + of_nat i)"
  shows "copyin_bytes s pt n va = (0, user_bytes s pt va n)"
  using copyin_bytes_add[OF assms, of 0] by simp

lemma copyin_loop_bytes:
  assumes "pt_wf (vm_mem s) pt"
  shows "len < fuel \<Longrightarrow> copyin_loop me fuel pt va len dst s = Ret (apsnd ((@) dst) (copyin_bytes s pt len va))"
proof (induction fuel arbitrary: va len dst)
  case (Suc fuel)
  let ?o = "unat va mod PGSIZE"
  let ?n = "min (PGSIZE - ?o) len"
  show ?case
  proof (cases "len = 0 \<or> \<not> user_ok s pt va")
    case True
    then show ?thesis using walkaddr_user(2)[OF assms, of va me] by (cases len) (auto simp: Let_def)
  next
    case False
    then have ok: "user_ok s pt va" and len: "0 < len" by simp_all
    note w = walkaddr_user(1)[OF assms ok, of me]
    have n: "0 < ?n" "?o + ?n \<le> PGSIZE" using len by simp_all
    have rec: "copyin_loop me (Suc fuel) pt va len dst s
        = copyin_loop me fuel pt (PGROUNDDOWN va + of_nat PGSIZE) (len - ?n) (dst @ user_bytes s pt va ?n) s"
      using w len load_chunk[OF n(2), of s pt] unfolding upa_def by (simp add: Let_def rounded_down(2,3))
    have chunk: "\<forall>i<?n. user_ok s pt (va + of_nat i)" using chunk_ok[OF ok] .
    have "copyin_bytes s pt len va = apsnd ((@) (user_bytes s pt va ?n)) (copyin_bytes s pt (len - ?n) (PGROUNDDOWN va + of_nat PGSIZE))"
      using copyin_bytes_add[OF chunk, of "len - ?n"] next_chunk[of va len] by (cases "?n = len") (simp_all del: of_nat_diff)
    then show ?thesis using Suc.IH[of "len - ?n"] Suc.prems n(1) unfolding rec by (simp add: apsnd_append)
  qed
qed simp

lemma copyin_ref: "pt_wf (vm_mem s) pt \<Longrightarrow> copyin me pt va len s = Ret (copyin_bytes s pt len va)"
  unfolding copyin_def by (subst copyin_loop_bytes) (simp_all add: apsnd_append)

section \<open>\<open>copyinstr\<close>\<close>

lemma copyinstr_page_bytes:
  assumes "unat va mod PGSIZE + n \<le> PGSIZE" "\<forall>i<n. user_ok s pt (va + of_nat i)"
  shows "case copyinstr_page n (upa s pt va) dst (vm_mem s) of (dst', found) \<Rightarrow>
    apsnd ((@) dst) (copyinstr_bytes s pt (n + m) va) = (if found then (0, dst') else apsnd ((@) dst') (copyinstr_bytes s pt m (va + of_nat n)))"
  using assms
proof (induction n arbitrary: va dst)
  case (Suc n)
  show ?case
  proof (cases "vm_mem s (upa s pt va) = 0 \<or> n = 0")
    case True
    then show ?thesis using Suc.prems(2) by (auto simp: apsnd_compose comp_def dest: spec[of _ 0] split: prod.split)
  next
    case False
    then have s: "unat va mod PGSIZE + 1 < PGSIZE" using Suc.prems(1) by simp
    have "unat (va + 1) mod PGSIZE + n \<le> PGSIZE" "upa s pt (va + 1) = upa s pt va + 1" using same_page(3)[OF s] upa_same_page(1)[OF s] Suc.prems(1) by simp_all
    moreover have "user_ok s pt va" "\<forall>i<n. user_ok s pt (va + 1 + of_nat i)" using Suc.prems(2) by (auto simp: add.assoc dest: spec[of _ "Suc _"] spec[of _ 0])
    ultimately show ?thesis using Suc.IH[of "va + 1" "dst @ [vm_mem s (upa s pt va)]"] False by (auto simp: add.assoc apsnd_compose comp_def split: prod.splits)
  qed
qed simp

lemma copyinstr_loop_bytes:
  assumes "pt_wf (vm_mem s) pt"
  shows "max_n < fuel \<Longrightarrow> copyinstr_loop me fuel pt va max_n dst s = Ret (apsnd ((@) dst) (copyinstr_bytes s pt max_n va))"
proof (induction fuel arbitrary: va max_n dst)
  case (Suc fuel)
  let ?o = "unat va mod PGSIZE"
  let ?n = "min (PGSIZE - ?o) max_n"
  show ?case
  proof (cases "max_n = 0 \<or> \<not> user_ok s pt va")
    case True
    then show ?thesis using walkaddr_user(2)[OF assms, of va me] by (cases max_n) (auto simp: Let_def)
  next
    case False
    then have ok: "user_ok s pt va" and len: "0 < max_n" by simp_all
    note w = walkaddr_user(1)[OF assms ok, of me]
    have n: "0 < ?n" "?o + ?n \<le> PGSIZE" using len by simp_all
    obtain dst' found where pg: "copyinstr_page ?n (upa s pt va) dst (vm_mem s) = (dst', found)" by (metis surj_pair)
    have rec: "copyinstr_loop me (Suc fuel) pt va max_n dst s
        = (if found then Ret (0, dst') else copyinstr_loop me fuel pt (PGROUNDDOWN va + of_nat PGSIZE) (max_n - ?n) dst' s)"
      using w len pg unfolding upa_def by (simp add: Let_def rounded_down(2,3))
    have "apsnd ((@) dst) (copyinstr_bytes s pt max_n va)
        = (if found then (0, dst') else apsnd ((@) dst') (copyinstr_bytes s pt (max_n - ?n) (PGROUNDDOWN va + of_nat PGSIZE)))"
      using copyinstr_page_bytes[OF n(2) chunk_ok[OF ok], of dst "max_n - ?n"] next_chunk[of va max_n] pg
      by (cases "?n = max_n") (simp_all del: of_nat_diff)
    then show ?thesis using Suc.IH[of "max_n - ?n"] Suc.prems n(1) unfolding rec by simp
  qed
qed simp

lemma copyinstr_ref: "pt_wf (vm_mem s) pt \<Longrightarrow> copyinstr me pt va max_n s = Ret (copyinstr_bytes s pt max_n va)"
  unfolding copyinstr_def by (subst copyinstr_loop_bytes) (simp_all add: apsnd_append)

section \<open>\<open>copyout\<close>\<close>

text \<open>User pages are pages of memory other than the tables, one for each page number.\<close>

definition user_sep :: "vm \<Rightarrow> u64 \<Rightarrow> bool" where
  "user_sep s pt \<longleftrightarrow> pt_wf (vm_mem s) pt \<and>
    (\<forall>va. user_ok s pt va \<longrightarrow> tpage (PTE2PA (upte s pt va)) \<and> PTE2PA (upte s pt va) \<notin> tables s pt) \<and>
    (\<forall>va vb. user_ok s pt va \<longrightarrow> user_ok s pt vb \<longrightarrow> PTE2PA (upte s pt va) = PTE2PA (upte s pt vb) \<longrightarrow> unat va div PGSIZE = unat vb div PGSIZE)"

primrec copyout_bytes :: "u64 \<Rightarrow> u8 list \<Rightarrow> u64 \<Rightarrow> vm \<Rightarrow> int \<times> vm" where
  "copyout_bytes pt [] va s = (0, s)"
| "copyout_bytes pt (b # bs) va s =
    (if user_ok s pt va then copyout_bytes pt bs (va + 1) (s\<lparr>vm_mem := (vm_mem s)(upa s pt va := b)\<rparr>) else (- 1, s))"

lemma user_sepD:
  assumes "user_sep s pt"
  shows "pt_wf (vm_mem s) pt" "user_ok s pt va \<Longrightarrow> tpage (PTE2PA (upte s pt va))" "user_ok s pt va \<Longrightarrow> PTE2PA (upte s pt va) \<notin> tables s pt"
    "user_ok s pt va \<Longrightarrow> user_ok s pt vb \<Longrightarrow> PTE2PA (upte s pt va) = PTE2PA (upte s pt vb) \<Longrightarrow> unat va div PGSIZE = unat vb div PGSIZE"
  using assms unfolding user_sep_def by blast+

lemma upa_in_page: "in_page (PTE2PA (upte s pt va)) (upa s pt va)"
  by (simp add: in_page_def upa_def)

lemma upa_inj:
  assumes "user_sep s pt" "user_ok s pt a" "user_ok s pt b"
  shows "upa s pt a = upa s pt b \<longleftrightarrow> a = b"
proof
  assume e: "upa s pt a = upa s pt b"
  have t: "tpage (PTE2PA (upte s pt a))" "tpage (PTE2PA (upte s pt b))" using assms user_sepD(2) by blast+
  have p: "PTE2PA (upte s pt a) = PTE2PA (upte s pt b)"
    using in_page_unique[OF t(2,1) upa_in_page] upa_in_page[of s pt a] e by metis
  then have "unat a div PGSIZE = unat b div PGSIZE" using user_sepD(4)[OF assms] by simp
  moreover have "of_nat (unat a mod PGSIZE) = (of_nat (unat b mod PGSIZE) :: u64)" using e p by (simp add: upa_def)
  then have "unat (of_nat (unat a mod PGSIZE) :: u64) = unat (of_nat (unat b mod PGSIZE) :: u64)" by simp
  then have "unat a mod PGSIZE = unat b mod PGSIZE" by (simp add: unat_of_nat64 del: of_nat_unat)
  ultimately have "unat a = unat b" by (metis div_mult_mod_eq)
  then show "a = b" by (simp add: word_unat_eq_iff)
qed simp

lemma user_write:
  assumes "user_sep s pt" "user_ok s pt va" "\<And>x. \<not> in_page (PTE2PA (upte s pt va)) x \<Longrightarrow> m x = vm_mem s x"
  defines "s' \<equiv> s\<lparr>vm_mem := m\<rparr>"
  shows "user_sep s' pt" "ptmap s' pt = ptmap s pt" "upte s' pt = upte s pt" "upa s' pt = upa s pt" "user_ok s' pt = user_ok s pt"
    "tables s' pt = tables s pt"
proof -
  let ?p = "PTE2PA (upte s pt va)"
  have p: "tpage ?p" "?p \<notin> tables s pt" and wf: "pt_wf (vm_mem s) pt"
    using user_sepD[OF assms(1)] assms(2) by blast+
  have same: "vm_mem s' x = vm_mem s x" if "t \<in> tables s pt" "in_page t x" for t x
  proof -
    have "tpage t" using that(1) wf by (simp add: pt_wf_def)
    moreover have "t \<noteq> ?p" using that(1) p(2) by blast
    ultimately have "\<not> in_page ?p x" using in_page_unique[OF p(1) _ _ that(2)] by blast
    then show ?thesis using assms(3) by (simp add: s'_def)
  qed
  have wf': "pt_wf (vm_mem s') pt" by (rule tree_cong(3)[OF wf]) (rule same)
  have "ptmap s' pt k = ptmap s pt k" for k
  proof -
    obtain a b c where v: "vpn_idx k = (a, b, c)" by (metis prod_cases3)
    have "pmap (vm_mem s') pt (a, b, c) = pmap (vm_mem s) pt (a, b, c)"
      by (rule tree_cong(4)[OF wf]) (use same vpn_idx_bound[OF v] in auto)
    then show ?thesis by (simp add: ptmap_def v)
  qed
  then show m: "ptmap s' pt = ptmap s pt" by (rule ext)
  show u: "upte s' pt = upte s pt" by (rule ext) (simp only: upte_def m)
  show "upa s' pt = upa s pt" by (rule ext) (simp only: upa_def u)
  show k: "user_ok s' pt = user_ok s pt" by (rule ext) (simp only: user_ok_def u)
  show t: "tables s' pt = tables s pt" by (rule tree_cong(2)[OF wf]) (rule same)
  show "user_sep s' pt" using assms(1) wf' unfolding user_sep_def u k t by blast
qed

lemma user_write_byte:
  fixes b :: u8
  assumes "user_sep s pt" "user_ok s pt va"
  defines "s' \<equiv> s\<lparr>vm_mem := (vm_mem s)(upa s pt va := b)\<rparr>"
  shows "user_sep s' pt" "ptmap s' pt = ptmap s pt" "upte s' pt = upte s pt" "upa s' pt = upa s pt" "user_ok s' pt = user_ok s pt"
    "tables s' pt = tables s pt"
proof -
  have "((vm_mem s)(upa s pt va := b)) x = vm_mem s x" if "\<not> in_page (PTE2PA (upte s pt va)) x" for x
    using upa_in_page[of s pt va] that by auto
  note w = user_write[OF assms(1,2) this]
  show "user_sep s' pt" "ptmap s' pt = ptmap s pt" "upte s' pt = upte s pt" "upa s' pt = upa s pt" "user_ok s' pt = user_ok s pt"
    "tables s' pt = tables s pt" unfolding s'_def by (rule w; assumption)+
qed

lemma copyout_chunk:
  assumes "user_sep s pt" "unat va mod PGSIZE + length bs \<le> PGSIZE" "\<forall>i<length bs. user_ok s pt (va + of_nat i)"
  shows "copyout_bytes pt (bs @ cs) va s = copyout_bytes pt cs (va + of_nat (length bs)) (s\<lparr>vm_mem := store_bytes (upa s pt va) bs (vm_mem s)\<rparr>)"
  using assms
proof (induction bs arbitrary: va s)
  case (Cons b bs)
  have ok: "user_ok s pt va" "\<forall>i<length bs. user_ok s pt (va + 1 + of_nat i)" using Cons.prems(3) by (auto simp: add.assoc dest: spec[of _ "Suc _"] spec[of _ 0])
  show ?case
  proof (cases "bs = []")
    case False
    then have s: "unat va mod PGSIZE + 1 < PGSIZE" using Cons.prems(2) by (cases bs) simp_all
    note w = user_write_byte[OF Cons.prems(1) ok(1), of b]
    have l: "length bs < 2 ^ 64" using Cons.prems(2) by simp
    show ?thesis
      using Cons.IH[OF w(1), of "va + 1"] same_page(3)[OF s] upa_same_page(1)[OF s, of s pt] Cons.prems(2) ok w(4,5) store_bytes_Cons[OF l]
      by (simp add: add.assoc fun_upd_def)
  qed (use ok(1) in \<open>simp add: store_bytes_Cons fun_upd_def\<close>)
qed simp

lemma store_chunk_sep:
  assumes "user_sep s pt" "user_ok s pt va" "unat va mod PGSIZE + length bs \<le> PGSIZE"
  shows "user_sep (s\<lparr>vm_mem := store_bytes (upa s pt va) bs (vm_mem s)\<rparr>) pt"
proof (rule user_write(1)[OF assms(1,2)])
  fix x assume x: "\<not> in_page (PTE2PA (upte s pt va)) x"
  have "in_page (PTE2PA (upte s pt va)) x" if i: "unat (x - upa s pt va) < length bs"
  proof -
    have "x = upa s pt va + of_nat (unat (x - upa s pt va))" by simp
    also have "\<dots> = PTE2PA (upte s pt va) + of_nat (unat va mod PGSIZE + unat (x - upa s pt va))" by (simp add: upa_def)
    finally have "x - PTE2PA (upte s pt va) = of_nat (unat va mod PGSIZE + unat (x - upa s pt va))" by (simp add: algebra_simps)
    moreover have "unat va mod PGSIZE + unat (x - upa s pt va) < PGSIZE" using i assms(3) by simp
    ultimately show ?thesis by (simp add: in_page_def del: of_nat_add of_nat_unat)
  qed
  then show "store_bytes (upa s pt va) bs (vm_mem s) x = vm_mem s x" using x by (auto simp: store_bytes_def)
qed

lemma copyout_loop_bytes:
  "user_sep s pt \<Longrightarrow> length src < fuel \<Longrightarrow> copyout_loop me fuel pt va src s = Ret (copyout_bytes pt src va s)"
proof (induction fuel arbitrary: va src s)
  case (Suc fuel)
  let ?o = "unat va mod PGSIZE"
  let ?n = "min (PGSIZE - ?o) (length src)"
  note wf = user_sepD(1)[OF Suc.prems(1)]
  show ?case
  proof (cases "src = [] \<or> \<not> user_ok s pt va")
    case True
    then show ?thesis using walkaddr_user(2)[OF wf, of va me] by (cases src) (auto simp: Let_def)
  next
    case False
    then have ok: "user_ok s pt va" and len: "0 < length src" by simp_all
    note w = walkaddr_user(1)[OF wf ok, of me]
    have n: "0 < ?n" "?o + length (take ?n src) \<le> PGSIZE" "length (take ?n src) = ?n" using len by simp_all
    let ?s = "s\<lparr>vm_mem := store_bytes (upa s pt va) (take ?n src) (vm_mem s)\<rparr>"
    have rec: "copyout_loop me (Suc fuel) pt va src s = copyout_loop me fuel pt (PGROUNDDOWN va + of_nat PGSIZE) (drop ?n src) ?s"
      using w len unfolding upa_def by (simp add: Let_def rounded_down(2,3))
    have "copyout_bytes pt src va s = copyout_bytes pt (drop ?n src) (va + of_nat ?n) ?s"
      using copyout_chunk[OF Suc.prems(1) n(2), of "drop ?n src"] chunk_ok[OF ok] unfolding n(3) append_take_drop_id by blast
    also have "\<dots> = copyout_bytes pt (drop ?n src) (PGROUNDDOWN va + of_nat PGSIZE) ?s"
      using next_chunk[of va "length src"] by (cases "?n = length src") (simp_all del: of_nat_diff)
    finally have e: "copyout_bytes pt src va s = \<dots>" .
    have l: "length (drop ?n src) < fuel" using Suc.prems(2) n(1) unfolding length_drop by linarith
    show ?thesis unfolding rec e by (rule Suc.IH[OF store_chunk_sep[OF Suc.prems(1) ok n(2)] l])
  qed
qed simp

lemma copyout_ref: "user_sep s pt \<Longrightarrow> copyout me pt va src s = Ret (copyout_bytes pt src va s)"
  unfolding copyout_def by (rule copyout_loop_bytes) simp_all

text \<open>What user code sees afterwards.\<close>

lemma copyout_bytes_effect:
  assumes "user_sep s pt" "\<forall>i<length bs. user_ok s pt (va + of_nat i)" "length bs < 2 ^ 64"
  obtains s' where "copyout_bytes pt bs va s = (0, s')" "user_sep s' pt" "upa s' pt = upa s pt" "user_ok s' pt = user_ok s pt"
    "ptmap s' pt = ptmap s pt" "vm_alloc s' = vm_alloc s"
    "\<forall>a. user_ok s pt a \<longrightarrow> vm_mem s' (upa s pt a) = (if unat (a - va) < length bs then bs ! unat (a - va) else vm_mem s (upa s pt a))"
  using assms
proof (induction bs arbitrary: va s thesis)
  case (Cons b bs)
  have ok: "user_ok s pt va" "\<forall>i<length bs. user_ok s pt (va + 1 + of_nat i)" using Cons.prems(3) by (auto simp: add.assoc dest: spec[of _ "Suc _"] spec[of _ 0])
  let ?s = "s\<lparr>vm_mem := (vm_mem s)(upa s pt va := b)\<rparr>"
  note w = user_write_byte[OF Cons.prems(2) ok(1), of b]
  have ok': "\<forall>i<length bs. user_ok ?s pt (va + 1 + of_nat i)" using ok(2) unfolding w(5) .
  obtain s' where s': "copyout_bytes pt bs (va + 1) ?s = (0, s')" "user_sep s' pt" "upa s' pt = upa ?s pt" "user_ok s' pt = user_ok ?s pt"
    "ptmap s' pt = ptmap ?s pt" "vm_alloc s' = vm_alloc ?s"
    "\<forall>a. user_ok ?s pt a \<longrightarrow> vm_mem s' (upa ?s pt a) = (if unat (a - (va + 1)) < length bs then bs ! unat (a - (va + 1)) else vm_mem ?s (upa ?s pt a))"
    by (rule Cons.IH[OF _ w(1) ok']) (use Cons.prems(4) in simp_all)
  have "vm_mem s' (upa s pt a) = (if unat (a - va) < length (b # bs) then (b # bs) ! unat (a - va) else vm_mem s (upa s pt a))" if a: "user_ok s pt a" for a
  proof (cases "a = va")
    case True
    have "unat (va - (va + 1)) = unat (- 1 :: u64)" by simp
    also have "\<dots> = 2 ^ 64 - 1" by (simp add: unsigned_minus_1_eq_mask mask_eq_exp_minus_1)
    finally have "unat (va - (va + 1)) = 2 ^ 64 - 1" .
    then have "\<not> unat (va - (va + 1)) < length bs" using Cons.prems(4) by simp
    then show ?thesis using s'(7) a True unfolding w(4,5) by simp
  next
    case False
    then show ?thesis using s'(7) a unat_diff_Suc[OF False] upa_inj[OF Cons.prems(2) a ok(1)] unfolding w(4,5) by simp
  qed
  then show ?case using Cons.prems(1)[of s'] s' ok(1) w by simp
qed simp

lemma copy_roundtrip:
  assumes "user_sep s pt" "\<forall>i<length bs. user_ok s pt (va + of_nat i)" "length bs < 2 ^ 64"
  obtains s' where "copyout me pt va bs s = Ret (0, s')" "copyin me pt va (length bs) s' = Ret (0, bs)"
proof -
  obtain s' where s': "copyout_bytes pt bs va s = (0, s')" "user_sep s' pt" "upa s' pt = upa s pt" "user_ok s' pt = user_ok s pt"
    "\<forall>a. user_ok s pt a \<longrightarrow> vm_mem s' (upa s pt a) = (if unat (a - va) < length bs then bs ! unat (a - va) else vm_mem s (upa s pt a))"
    by (rule copyout_bytes_effect[OF assms])
  have "user_bytes s' pt va (length bs) = bs"
    using assms(2,3) s'(5) by (intro nth_equalityI) (simp_all add: user_bytes_def s'(3))
  moreover have "\<forall>i<length bs. user_ok s' pt (va + of_nat i)" using assms(2) unfolding s'(4) .
  ultimately show ?thesis
    using that[of s'] copyout_ref[OF assms(1), of me va bs] copyin_ref[OF user_sepD(1)[OF s'(2)], of me va "length bs"] copyin_bytes_all s'(1) by simp
qed

section \<open>Well-formed address spaces\<close>

lemma us_ok_user_sep:
  assumes "us_ok pt n s" "\<forall>k. UTOP \<le> k \<longrightarrow> k < 2 ^ 26 \<longrightarrow> ptmap s pt k AND PTE_U = 0"
  shows "user_sep s pt"
proof -
  note u = us_okD[OF assms(1)]
  have k: "unat va div PGSIZE < n" if "user_ok s pt va" for va
  proof (rule ccontr)
    assume "\<not> unat va div PGSIZE < n"
    then have "upte s pt va AND PTE_U = 0"
      using u(4)[of "unat va div PGSIZE"] assms(2) page_number[of va] that
      by (cases "unat va div PGSIZE < UTOP") (simp_all add: upte_def user_ok_def)
    then show False using that by (simp add: user_ok_def)
  qed
  have fr: "PTE2PA (upte s pt va) \<in> spare s pt" if "user_ok s pt va" for va using k[OF that] u(6) by (auto simp: frames_def upte_def)
  have "tpage (PTE2PA (upte s pt va)) \<and> PTE2PA (upte s pt va) \<notin> tables s pt" if "user_ok s pt va" for va
    using fr[OF that] taken_tpage u(1) by (auto simp: spare_def pt_inv_def)
  moreover have "unat va div PGSIZE = unat vb div PGSIZE"
    if "user_ok s pt va" "user_ok s pt vb" "PTE2PA (upte s pt va) = PTE2PA (upte s pt vb)" for va vb
    using inj_onD[OF u(5), of "unat va div PGSIZE" "unat vb div PGSIZE"] k[OF that(1)] k[OF that(2)] that(3) by (simp add: upte_def)
  ultimately show ?thesis using u(1) unfolding user_sep_def pt_inv_def by blast
qed

end
