(* ===== verification/VM_Example.thy ===== *)
theory VM_Example
  imports VM_Copy Memory_Props
begin

text \<open>
  A concrete memory for the properties of the virtual memory system: the allocator has handed out eight pages, two
  of which are the roots of page tables; the first address space has one user page, the second is empty.
\<close>

section \<open>Empty address spaces\<close>

lemma zeroed_entry: "tpage t \<Longrightarrow> i < 512 \<Longrightarrow> (\<And>x. in_page t x \<Longrightarrow> m x = 0) \<Longrightarrow> entry m t i = 0"
  using entry_cong[of t m "fill_bytes t 0 PGSIZE m" i] entry_zeroed[of t i m] by (simp add: fill_bytes_def in_page_def)

lemma empty_tree:
  assumes "tpage pt" "\<And>x. in_page pt x \<Longrightarrow> m x = 0"
  shows "pt_pages m pt = {pt}" "pt_wf m pt" "i < 512 \<Longrightarrow> pmap m pt (i, j, k) = 0"
proof -
  have e: "entry m pt i = 0" if "i < 512" for i using zeroed_entry[OF assms(1) that assms(2)] .
  have t: "tab m pt p = (if p = [] then Some pt else None)" if "p \<in> paths" for p
    using that e by (cases p) (auto simp: paths_def)
  have "t = pt" if "p \<in> paths" "tab m pt p = Some t" for p t using that t[of p] by (auto split: if_splits)
  then show pp: "pt_pages m pt = {pt}" using root_page[of pt m] by (auto simp: pt_pages_def)
  show "pt_wf m pt" unfolding pt_wf_def pp using assms(1) t by (auto split: if_splits)
  show "pmap m pt (i, j, k) = 0" if "i < 512" using that e by (simp add: pmap_def)
qed

lemma empty_space:
  assumes "buddy_ok (vm_alloc s)" "pt \<in> taken s" "\<And>x. in_page pt x \<Longrightarrow> vm_mem s x = 0"
  shows "us_ok pt 0 s" "ptmap s pt k = 0" "tables s pt = {pt}"
proof -
  have tp: "tpage pt" using taken_tpage[OF assms(1,2)] .
  note e = empty_tree[of pt "vm_mem s", OF tp assms(3)]
  show t: "tables s pt = {pt}" using e(1) by blast
  have m: "ptmap s pt k = 0" for k
  proof -
    obtain a b c where v: "vpn_idx k = (a, b, c)" by (metis prod_cases3)
    then show ?thesis using e(3)[of a b c] vpn_idx_bound[OF v] by (simp add: ptmap_def)
  qed
  then show "ptmap s pt k = 0" .
  show "us_ok pt 0 s" using assms(1,2) e(2) t m by (simp add: us_ok_def pt_inv_def frames_def)
qed

lemma uvmcreate_ok:
  assumes "buddy_ok (vm_alloc s)"
  shows "uvmcreate me s = Ret (0, s) \<or> (\<exists>pt s'. uvmcreate me s = Ret (pt, s') \<and> pt \<noteq> 0 \<and> pt \<notin> taken s \<and>
    taken s' = insert pt (taken s) \<and> us_ok pt 0 s' \<and> (\<forall>x. \<not> in_page pt x \<longrightarrow> vm_mem s' x = vm_mem s x))"
  using assms
proof (cases rule: kalloc_vm_cases[where me = me])
  case none
  then show ?thesis by (simp add: uvmcreate_def)
next
  case (some p s1)
  have "us_ok p 0 (zero_page p s1)"
    using some by (intro empty_space) (simp_all add: zero_page_mem fill_bytes_def in_page_def)
  then show ?thesis using some by (auto simp: uvmcreate_def zero_page_mem fill_bytes_def in_page_def)
qed

section \<open>Eight pages\<close>

lemma leaves_antichain: "antichain {512..<520}"
  unfolding antichain_def
proof (intro conjI ballI impI)
  fix i j :: nat assume i: "i \<in> {512..<520}" "j \<in> {512..<520}" "anc i j"
  then obtain k where k: "j div 2 ^ k = i" by (auto simp: anc_def)
  have "k = 0"
  proof (rule ccontr)
    assume "k \<noteq> 0"
    then have "j div 2 ^ k \<le> j div 2" using div_le_mono2[of 2 "2 ^ k" j] by (cases k) simp_all
    also have "j div 2 < 512" using i(2) by (intro less_mult_imp_div_less) simp
    finally show False using i(1) k by simp
  qed
  then show "i = j" using k by simp
qed simp

lemma eight_pages:
  obtains b where "buddy_ok b" "region_ok b" "taken_pages b = (\<lambda>i. page_addr b 0 i) ` {..<8}"
proof -
  obtain s where s: "buddy_inv (\<lambda>_. {}) s" using booted_inv by blast
  let ?b = "tst s 0 {512..<520}" let ?U = "(\<lambda>_. {})(0 := {512..<520 :: nat})"
  have i: "buddy_inv ?U ?b" using buddy_inv_tst[OF s _ leaves_antichain, of 0] by simp
  have p: "pages t = 1 \<and> addr_of ?b 0 t = page_addr ?b 0 (t - 512)" if "t \<in> {512..<520}" for t
    using that ilog2_leaf[of t] by (simp add: pages_def first_page_def addr_of_page_addr)
  have al: "allocated ?b = (\<lambda>t. (addr_of ?b 0 t, pages t)) ` {512..<520}"
    unfolding buddy_inv_allocated[OF i] by (auto split: if_splits)
  have "taken_pages ?b = (\<lambda>t. page_addr ?b 0 (t - 512)) ` {512..<520}"
    unfolding taken_pages_def al using p by (auto simp: image_iff)
  also have "\<dots> = (\<lambda>i. page_addr ?b 0 i) ` {..<8}"
  proof -
    have "(\<lambda>t. t - 512) ` {512..<520} = {..<8 :: nat}"
    proof (intro set_eqI iffI)
      show "x \<in> (\<lambda>t. t - 512) ` {512..<520}" if "x \<in> {..<8}" for x :: nat
        using that by (intro image_eqI[of _ _ "x + 512"]) auto
    qed auto
    then show ?thesis unfolding image_image[symmetric, of "\<lambda>i. page_addr ?b 0 i" "\<lambda>t. t - 512"] by simp
  qed
  finally show ?thesis using that[of ?b] buddy_inv_ok[OF i] buddy_invD(1)[OF i] by blast
qed

section \<open>A page table with one user page\<close>

abbreviation RWU :: u64 where "RWU \<equiv> PTE_R OR PTE_W OR PTE_U"

definition one_page :: "u64 \<Rightarrow> u64 \<Rightarrow> u64 \<Rightarrow> u64 \<Rightarrow> mem" where
  "one_page A B C D =
    st64 (pte_at C 0) (PA2PTE D OR RWU OR PTE_V)
      (st64 (pte_at B 0) (PA2PTE C OR PTE_V) (fill_bytes C 0 PGSIZE
        (st64 (pte_at A 0) (PA2PTE B OR PTE_V) (fill_bytes B 0 PGSIZE (\<lambda>_. 0)))))"

lemma st64_outside: "tpage t \<Longrightarrow> i < 512 \<Longrightarrow> \<not> in_page t x \<Longrightarrow> st64 (pte_at t i) v m x = m x"
  using pte_in_page[of t i x] by (auto simp: st64_def store_bytes_def word_bytes_def)

lemma one_page_tree:
  assumes "tpage A" "tpage B" "tpage C" "distinct [A, B, C]"
  shows "pt_wf (one_page A B C D) A" "pt_pages (one_page A B C D) A = {A, B, C}"
    "a < 512 \<Longrightarrow> b < 512 \<Longrightarrow> k < 512 \<Longrightarrow>
      pmap (one_page A B C D) A (a, b, k) = (if (a, b, k) = (0, 0, 0) then PA2PTE D OR RWU OR PTE_V else 0)"
    "\<not> in_page A x \<Longrightarrow> \<not> in_page B x \<Longrightarrow> \<not> in_page C x \<Longrightarrow> one_page A B C D x = 0"
proof -
  let ?m0 = "\<lambda>_. 0 :: u8"
  let ?m1 = "st64 (pte_at A 0) (PA2PTE B OR PTE_V) (fill_bytes B 0 PGSIZE ?m0)"
  let ?m2 = "st64 (pte_at B 0) (PA2PTE C OR PTE_V) (fill_bytes C 0 PGSIZE ?m1)"
  note e = empty_tree[OF assms(1), of ?m0]
  have z: "\<not> vld (entry ?m0 A 0)" using zeroed_entry[OF assms(1), of 0 ?m0] by simp
  note h1 = hook_new[of ?m0 A "[]" 0 A B, OF e(2)[OF refl] _ _ z assms(2), simplified e(1)]
  have b: "B \<notin> {A}" "[0] \<in> paths" "tab ?m0 A [] = Some A" "[0 :: nat, 0] \<in> paths" using assms(4) by (auto simp: paths_def)
  have h1': "tab ?m1 A [0] = Some B" "pt_pages ?m1 A = {B, A}" "pt_wf ?m1 A"
    "\<And>a b c. a < 512 \<Longrightarrow> b < 512 \<Longrightarrow> c < 512 \<Longrightarrow> pmap ?m1 A (a, b, c) = pmap ?m0 A (a, b, c)"
    using h1 b by simp_all
  have "entry ?m1 B 0 = 0"
    using entry_set[OF assms(1,2), of 0 0 "PA2PTE B OR PTE_V" "fill_bytes B 0 PGSIZE ?m0"] entry_zeroed[OF assms(2), of 0 ?m0] b(1) by simp
  then have z1: "\<not> vld (entry ?m1 B 0)" by simp
  have c: "C \<notin> pt_pages ?m1 A" using h1'(2) assms(4) by auto
  note h2 = hook_new[of ?m1 A "[0]" 0 B C, OF h1'(3) _ h1'(1) z1 assms(3) c]
  have h2': "tab ?m2 A [0, 0] = Some C" "pt_pages ?m2 A = {C, B, A}" "pt_wf ?m2 A"
    "\<And>a b c. a < 512 \<Longrightarrow> b < 512 \<Longrightarrow> c < 512 \<Longrightarrow> pmap ?m2 A (a, b, c) = pmap ?m1 A (a, b, c)"
    using h2 h1'(2) b(4) by (simp_all del: tab.simps)
  note l = leaf_store[OF h2'(3,1), where k = 0 and v = "PA2PTE D OR RWU OR PTE_V", folded one_page_def]
  show "pt_wf (one_page A B C D) A" "pt_pages (one_page A B C D) A = {A, B, C}" using l(2,3) h2'(2) by auto
  show "pmap (one_page A B C D) A (a, b, k) = (if (a, b, k) = (0, 0, 0) then PA2PTE D OR RWU OR PTE_V else 0)"
    if "a < 512" "b < 512" "k < 512" using l(4)[of a b k] h2'(4) h1'(4) e(3) that by simp
  show "one_page A B C D x = 0" if "\<not> in_page A x" "\<not> in_page B x" "\<not> in_page C x"
    using that assms by (simp add: one_page_def st64_outside fill_bytes_def)
qed

lemma vpn_idx_0: "k < 2 ^ 27 \<Longrightarrow> vpn_idx k = (0, 0, 0) \<longleftrightarrow> k = 0"
  using vpn_idx_inj[of k 0] by (auto simp: vpn_idx_def)

lemma leaf_perm_RWU: "leaf_perm RWU" "(PA2PTE D OR RWU OR PTE_V) AND PTE_U \<noteq> 0"
proof -
  have "RWU = 22" by simp
  then show "leaf_perm RWU" by (simp add: leaf_perm_def)
  have "bit ((PA2PTE D OR RWU OR PTE_V) AND PTE_U) 4" by (simp add: bit_or_iff bit_and_iff)
  then show "(PA2PTE D OR RWU OR PTE_V) AND PTE_U \<noteq> 0" by (metis bit_0_eq bot_apply bot_bool_def)
qed

text \<open>The state: one user page at \<open>D\<close>, filled with nothing, and an empty address space at \<open>E\<close>.\<close>

lemma example_space:
  obtains s A E D where "us_ok A 1 s" "us_ok E 0 s" "E \<noteq> A" "tables s A \<subseteq> spare s E" "D \<in> spare s E" "D \<in> spare s A" "tpage D"
    "\<And>k. k < 2 ^ 27 \<Longrightarrow> ptmap s A k = (if k = 0 then PA2PTE D OR RWU OR PTE_V else 0)"
    "\<And>x. in_page D x \<Longrightarrow> vm_mem s x = 0"
proof -
  obtain b where b: "buddy_ok b" "region_ok b" "taken_pages b = (\<lambda>i. page_addr b 0 i) ` {..<8}" by (rule eight_pages)
  let ?P = "\<lambda>i. page_addr b 0 i"
  let ?A = "?P 0" let ?B = "?P 1" let ?C = "?P 2" let ?D = "?P 3" let ?E = "?P 4"
  let ?s = "\<lparr>vm_mem = one_page ?A ?B ?C ?D, vm_alloc = b\<rparr>"
  have eq: "?P i = ?P j \<longleftrightarrow> i = j" if "i < 8" "j < 8" for i j
    using page_addr_eq[OF region_fits[OF b(2)], of 0 i j] that by simp
  have tk: "?P i \<in> taken ?s" if "i < 8" for i using b(3) that by simp
  have tp: "tpage (?P i)" if "i < 8" for i using taken_tpage[of ?s, OF _ tk[OF that]] b(1) by simp
  note tr = one_page_tree[where A = ?A and B = ?B and C = ?C and D = ?D, OF tp tp tp]
  have d: "distinct [?A, ?B, ?C]" using eq by simp
  have wf: "pt_wf (vm_mem ?s) ?A" "tables ?s ?A = {?A, ?B, ?C}" using tr(1,2) d by auto
  have out: "\<not> in_page (?P j) x" if "in_page (?P i) x" "i < 8" "j < 8" "i \<noteq> j" for i j x
    using in_page_unique[OF tp[OF that(2)] tp[OF that(3)] that(1)] eq that by blast
  have zero: "vm_mem ?s x = 0" if "in_page (?P i) x" "2 < i" "i < 8" for i x
    using tr(4) d out[OF that(1)] that(2,3) by simp
  have map: "ptmap ?s ?A k = (if k = 0 then PA2PTE ?D OR RWU OR PTE_V else 0)" if "k < 2 ^ 27" for k
  proof -
    obtain a b' c where v: "vpn_idx k = (a, b', c)" by (metis prod_cases3)
    then show ?thesis using tr(3) d vpn_idx_bound[OF v] vpn_idx_0[OF that] by (simp add: ptmap_def)
  qed
  have ali: "aligned ?D" using tp[of 3] by (simp add: tpage_def)
  note lp = leaf_perm_pte[OF leaf_perm_RWU(1) ali]
  have E: "us_ok ?E 0 ?s" "tables ?s ?E = {?E}" using empty_space[of ?s ?E] b(1) tk[of 4] zero[of 4] by auto
  have sp: "?D \<in> spare ?s ?A" "?D \<in> spare ?s ?E" "tables ?s ?A \<subseteq> spare ?s ?E"
    using tk eq unfolding spare_def wf(2) E(2) by auto
  have "pt_inv ?A ?s" using b(1) wf tk by (auto simp: pt_inv_def)
  moreover have "frames ?s ?A {..<1} = {?D}" using map[of 0] lp(2) by (simp add: frames_def lessThan_Suc)
  ultimately have "us_ok ?A 1 ?s" using map lp(1) sp(1) by (simp add: us_ok_def inj_on_def)
  then show ?thesis using that[of ?A ?s ?E ?D] E(1) sp tp[of 3] map zero[of 3] eq by auto
qed

end
