(* ===== verification/VM_Props.thy ===== *)
theory VM_Props
  imports VM_Example
begin

text \<open>The properties of the memory routines and of the virtual memory system.\<close>

section \<open>Strings and memory blocks\<close>

text \<open>C38: \<open>memmove\<close> is right for overlapping blocks: copying byte by byte, downwards when the source starts below the
  destination and reaches into it and upwards otherwise, gives the memory in which every byte of the destination
  is the byte the source had before the call.\<close>

theorem memmove_overlap:
  assumes "unat src + n < 2 ^ 64" "n < 2 ^ 32"
  shows "memmove dst src n m = (\<lambda>x. if unat (x - dst) < n then m (src + (x - dst)) else m x)"
  using memmove_copy[OF assms] by (simp add: copy_bytes_def)

theorem memmove_overlap_witness:
  "memmove 0x1002 0x1000 4 (\<lambda>x. ucast x) 0x1004 = 2 \<and> memmove 0x1000 0x1002 4 (\<lambda>x. ucast x) 0x1001 = 3"
  using memmove_overlap[of "0x1000" 4 "0x1002" "\<lambda>x. ucast x"] memmove_overlap[of "0x1002" 4 "0x1000" "\<lambda>x. ucast x"] by simp



section \<open>Growing and copying address spaces\<close>





section \<open>Copying between the kernel and user space\<close>

text \<open>C13: The loops of \<open>copyin\<close>, \<open>copyinstr\<close> and \<open>copyout\<close>, which go page by page, do what a copy byte by byte
  through the page table does: they stop with -1 at the first byte user code may not use, whatever page it is on, with exactly the bytes
  before it copied. \<open>copyinstr\<close> stops after a zero byte and fails without one.\<close>

theorem copies_bytewise:
  assumes "user_sep s pt"
  shows "copyin me pt va len s = Ret (copyin_bytes s pt len va) \<and> copyinstr me pt va max_n s = Ret (copyinstr_bytes s pt max_n va) \<and>
    copyout me pt va src s = Ret (copyout_bytes pt src va s)"
  using copyin_ref copyinstr_ref copyout_ref[OF assms] user_sepD(1)[OF assms] by blast

theorem copies_bytewise_witness:
  "\<exists>s pt. user_sep s pt \<and> copyin 0 pt 4095 2 s = Ret (copyin_bytes s pt 2 4095)"
proof -
  obtain s A E D where e: "us_ok A 1 s" "\<And>k. k < 2 ^ 27 \<Longrightarrow> ptmap s A k = (if k = 0 then PA2PTE D OR RWU OR PTE_V else 0)" by (rule example_space) blast
  have "user_sep s A" using e(2) by (intro us_ok_user_sep[OF e(1)]) simp
  then show ?thesis using copies_bytewise by blast
qed

text \<open>C35: Round trip: bytes that \<open>copyout\<close> has written to addresses user code may use are the bytes \<open>copyin\<close> reads there.\<close>

theorem copyout_copyin_roundtrip:
  assumes "user_sep s pt" "\<forall>i<length bs. user_ok s pt (va + of_nat i)" "length bs < 2 ^ 64"
  shows "\<exists>s'. copyout me pt va bs s = Ret (0, s') \<and> copyin me pt va (length bs) s' = Ret (0, bs)"
  using copy_roundtrip[OF assms] by metis

theorem copyout_copyin_roundtrip_witness:
  "\<exists>s pt s'. copyout 0 pt 100 [1, 2, 3] s = Ret (0, s') \<and> copyin 0 pt 100 3 s' = Ret (0, [1, 2, 3])"
proof -
  obtain s A E D where e: "us_ok A 1 s" "tpage D" "\<And>k. k < 2 ^ 27 \<Longrightarrow> ptmap s A k = (if k = 0 then PA2PTE D OR RWU OR PTE_V else 0)"
    by (rule example_space) blast
  have sep: "user_sep s A" using e(3) by (intro us_ok_user_sep[OF e(1)]) simp
  have al: "aligned D" using e(2) by (simp add: tpage_def)
  have "user_ok s A va" if "unat va < PGSIZE" for va
    using that e(2,3) leaf_perm_pte(1,2)[OF leaf_perm_RWU(1) al] leaf_perm_RWU(2)[of D]
    by (simp add: user_ok_def upte_def is_leaf_def tpage_def)
  then have "user_ok s A (100 + of_nat i)" if "i < 3" for i
    using that by (intro \<open>\<And>va. unat va < PGSIZE \<Longrightarrow> user_ok s A va\<close>) (auto simp: less_Suc_eq numeral_3_eq_3)
  then show ?thesis using copyout_copyin_roundtrip[OF sep, of "[1, 2, 3]" 100 0] by (auto simp: numeral_3_eq_3)
qed

end
