(* ===== verification/Kernel_State.thy ===== *)
theory Kernel_State
  imports VM Proc_Table
begin

text \<open>
  The state of the whole kernel, one field per global of the source, and the operations on it. An operation of
  type \<open>'a kop\<close> takes the state to an outcome with a result and the new state; \<open>bindK\<close> and \<open>thenK\<close> run one after
  the other, as the statements of a C function.

  The argument \<open>c\<close> of an operation is the CPU it runs on. Operations are those of a caller that is not
  interleaved with others: taking a spin lock that is held, or going to sleep because a condition does not hold yet,
  is \<open>Hang\<close>. Block numbers, device numbers and inode numbers are natural numbers: they are decoded from fields of 16
  or 32 bits and only compared and used as indices. Sizes and file offsets, on which the code does arithmetic that may
  wrap, are 32-bit words.
\<close>

section \<open>Parameters\<close>

abbreviation NBUF :: nat where "NBUF \<equiv> 30"
abbreviation LOGSIZE :: nat where "LOGSIZE \<equiv> 30"
abbreviation MAXOPBLOCKS :: nat where "MAXOPBLOCKS \<equiv> 10"
abbreviation NFILE :: nat where "NFILE \<equiv> 100"
abbreviation NINODE :: nat where "NINODE \<equiv> 50"
abbreviation NDEV :: nat where "NDEV \<equiv> 10"
abbreviation ROOTDEV :: nat where "ROOTDEV \<equiv> 1"
abbreviation ROOTINO :: nat where "ROOTINO \<equiv> 1"
abbreviation BSIZE :: nat where "BSIZE \<equiv> 1024"
abbreviation NDIRECT :: nat where "NDIRECT \<equiv> 12"
abbreviation NINDIRECT :: nat where "NINDIRECT \<equiv> 256"
abbreviation MAXFILE :: nat where "MAXFILE \<equiv> NDIRECT + NINDIRECT"
abbreviation IPB :: nat where "IPB \<equiv> 16"
abbreviation BPB :: nat where "BPB \<equiv> 8192"
abbreviation DIRSIZ :: nat where "DIRSIZ \<equiv> 14"
abbreviation PIPESIZE :: nat where "PIPESIZE \<equiv> 512"
abbreviation FSMAGIC :: nat where "FSMAGIC \<equiv> 0x10203040"
abbreviation T_DIR :: int where "T_DIR \<equiv> 1"
abbreviation T_FILE :: int where "T_FILE \<equiv> 2"
abbreviation T_DEVICE :: int where "T_DEVICE \<equiv> 3"

section \<open>Data\<close>

record sleeplock =
  sl_locked :: bool
  sl_lk :: spinlock
  sl_name :: string
  sl_pid :: int

record buf =
  b_valid :: bool
  b_disk :: bool
  b_dev :: nat
  b_blockno :: nat
  b_lock :: sleeplock
  b_refcnt :: u32
  b_prev :: nat
  b_next :: nat
  b_data :: "u8 list"

text \<open>Buffer \<open>NBUF\<close> is \<open>bcache.head\<close>.\<close>

record bcache =
  bc_lock :: spinlock
  bc_buf :: "nat \<Rightarrow> buf"

record klog =
  lg_lock :: spinlock
  lg_start :: nat
  lg_size :: nat
  lg_outstanding :: int
  lg_committing :: bool
  lg_dev :: nat
  lh_n :: int
  lh_block :: "nat list"

record superblock =
  sb_magic :: nat
  sb_size :: nat
  sb_nblocks :: nat
  sb_ninodes :: nat
  sb_nlog :: nat
  sb_logstart :: nat
  sb_inodestart :: nat
  sb_bmapstart :: nat

record inode =
  i_dev :: nat
  i_inum :: nat
  i_ref :: int
  i_lock :: sleeplock
  i_valid :: bool
  i_type :: int
  i_major :: int
  i_minor :: int
  i_nlink :: int
  i_size :: u32
  i_addrs :: "nat list"

record itable =
  it_lock :: spinlock
  it_inode :: "nat \<Rightarrow> inode"

datatype ftype = FD_NONE | FD_PIPE | FD_INODE | FD_DEVICE

record kfile =
  f_type :: ftype
  f_ref :: int
  f_readable :: bool
  f_writable :: bool
  f_pipe :: u64
  f_ip :: "nat option"
  f_off :: u32
  f_major :: int

record ftable =
  ft_lock :: spinlock
  ft_file :: "nat \<Rightarrow> kfile"

text \<open>A pipe lives in a page of its own, whose address is the pointer to it.\<close>

record pipe =
  pi_lock :: spinlock
  pi_data :: "u8 list"
  pi_nread :: u32
  pi_nwrite :: u32
  pi_readopen :: bool
  pi_writeopen :: bool

text \<open>
  The console's line buffer and the transmit buffer of the UART. What the UART does is part of the state:
  \<open>uart_out\<close> lists the bytes it was given to send, \<open>uart_in\<close> the bytes it has received, \<open>uart_idle n\<close> whether it can take
  a byte at the \<open>n\<close>-th time \<open>uartstart\<close> asks, \<open>uart_regs\<close> the writes to its control registers.
\<close>

record console =
  cons_lock :: spinlock
  cons_buf :: "u8 list"
  cons_r :: u32
  cons_w :: u32
  cons_e :: u32

record uart =
  uart_tx_lock :: spinlock
  uart_tx_buf :: "u8 list"
  uart_tx_w :: u64
  uart_tx_r :: u64
  uart_out :: "u8 list"
  uart_in :: "u8 list"
  uart_idle :: "nat \<Rightarrow> bool"
  uart_polls :: nat
  uart_regs :: "(nat \<times> nat) list"

text \<open>What is behind an entry of the device switch.\<close>

datatype device = ConsoleDev

text \<open>
  The control registers of a hart that the kernel reads or writes, the platform's interrupt controller and timer, and the
  disk controller. What a device answers is a parameter: \<open>plic_claims c\<close> lists the interrupts the PLIC gives hart \<open>c\<close>,
  \<open>vio_answer ws r\<close> is what the controller answers at register \<open>r\<close> after the register writes \<open>ws\<close>.
\<close>

record hart =
  h_mhartid :: u64
  h_tp :: u64
  h_mstatus :: u64
  h_mepc :: u64
  h_medeleg :: u64
  h_mideleg :: u64
  h_mie :: u64
  h_mscratch :: u64
  h_mtvec :: u64
  h_pmpaddr0 :: u64
  h_pmpcfg0 :: u64
  h_satp :: u64
  h_sstatus :: u64
  h_sie :: u64
  h_sip :: u64
  h_sepc :: u64
  h_stvec :: u64
  h_scause :: u64
  h_stval :: u64

record platform =
  plic_reg :: "u64 \<Rightarrow> u32"
  plic_claims :: "nat \<Rightarrow> u32 list"
  clint_mtime :: u64
  clint_mtimecmp :: "nat \<Rightarrow> u64"
  vio_writes :: "(nat \<times> u32) list"
  vio_answer :: "(nat \<times> u32) list \<Rightarrow> nat \<Rightarrow> u32"

text \<open>
  The driver of the disk. The addresses it gives the device are those of a command header, of a buffer's data and of a
  status byte. The rings live in pages of their own, whose addresses are \<open>vd_desc_page\<close>, \<open>vd_avail_page\<close> and \<open>vd_used_page\<close>.
\<close>

datatype daddr = DNull | OpsAt nat | DataOf nat | StatusAt nat

record virtq_desc =
  d_addr :: daddr
  d_len :: u32
  d_flags :: u16
  d_next :: u16

record virtio_blk_req =
  rq_type :: u32
  rq_sector :: u64

record vdisk =
  vd_desc_page :: u64
  vd_avail_page :: u64
  vd_used_page :: u64
  vd_desc :: "nat \<Rightarrow> virtq_desc"
  va_idx :: u16
  va_ring :: "nat \<Rightarrow> u16"
  vu_idx :: u16
  vu_ring :: "nat \<Rightarrow> u32"
  vd_free :: "nat \<Rightarrow> bool"
  vd_used_idx :: u16
  vd_info_b :: "nat \<Rightarrow> nat option"
  vd_info_status :: "nat \<Rightarrow> u8"
  vd_ops :: "nat \<Rightarrow> virtio_blk_req"
  vdisk_lock :: spinlock

text \<open>
  Addresses the linker chooses are parameters of the model, and so is \<open>a0_leftover\<close>, what a function declared
  without a result leaves in the result register. The disk is a function from block numbers to blocks; \<open>k_trace\<close> lists the block writes in the order the disk
  has done them.
\<close>

record link_addrs =
  a_etext :: u64
  a_trampoline :: u64
  a_forkret :: u64
  a_uservec :: u64
  a_userret :: u64
  a_kernelvec :: u64
  a_usertrap :: u64
  a_main :: u64
  a_timervec :: u64
  a_timer_scratch :: u64
  a0_leftover :: u64

record kernel =
  k_vm :: vm
  k_pt :: ptable
  k_hart :: "nat \<Rightarrow> hart"
  k_plat :: platform
  k_scratch :: "nat \<Rightarrow> u64 list"
  k_started :: bool
  k_vd :: vdisk
  k_ticks :: u32
  k_tickslock :: spinlock
  k_bc :: bcache
  k_disk :: "nat \<Rightarrow> u8 list"
  k_trace :: "(nat \<times> u8 list) list"
  k_log :: klog
  k_sb :: superblock
  k_it :: itable
  k_ft :: ftable
  k_pipe :: "u64 \<Rightarrow> pipe"
  k_cons :: console
  k_uart :: uart
  k_devsw :: "nat \<Rightarrow> device option"
  k_prlock :: spinlock
  k_prlocking :: bool
  k_panicked :: bool
  k_first :: bool
  k_kpgtbl :: u64
  k_links :: link_addrs

section \<open>Operations\<close>

type_synonym 'a kop = "kernel \<Rightarrow> ('a \<times> kernel) res"

definition retK :: "'a \<Rightarrow> 'a kop" where
  "retK x s = Ret (x, s)"

definition bindK :: "'a kop \<Rightarrow> ('a \<Rightarrow> 'b kop) \<Rightarrow> 'b kop" where
  "bindK m f s = bind_res (m s) (\<lambda>(x, s'). f x s')"

definition thenK :: "'a kop \<Rightarrow> 'b kop \<Rightarrow> 'b kop" where
  "thenK m n s = bind_res (m s) (\<lambda>(_, s'). n s')"

definition getK :: "(kernel \<Rightarrow> 'a) \<Rightarrow> 'a kop" where
  "getK f s = Ret (f s, s)"

definition modK :: "(kernel \<Rightarrow> kernel) \<Rightarrow> unit kop" where
  "modK f s = Ret ((), f s)"

definition panicK :: "string \<Rightarrow> 'a kop" where
  "panicK msg s = Panic msg"

definition sleepK :: "'a kop" where
  "sleepK s = Hang"

definition faultK :: "'a kop" where
  "faultK s = Fault"

definition whenK :: "bool \<Rightarrow> unit kop \<Rightarrow> unit kop" where
  "whenK b m = (if b then m else retK ())"

primrec forK :: "'i list \<Rightarrow> ('i \<Rightarrow> unit kop) \<Rightarrow> unit kop" where
  "forK [] f = retK ()"
| "forK (x # xs) f = thenK (f x) (forK xs f)"

text \<open>Operations of a component, on the state of the kernel.\<close>

definition ptK :: "(ptable \<Rightarrow> ptable res) \<Rightarrow> unit kop" where
  "ptK f s = bind_res (f (k_pt s)) (\<lambda>t. Ret ((), s\<lparr>k_pt := t\<rparr>))"

definition ptvK :: "(ptable \<Rightarrow> ('a \<times> ptable) res) \<Rightarrow> 'a kop" where
  "ptvK f s = bind_res (f (k_pt s)) (\<lambda>(x, t). Ret (x, s\<lparr>k_pt := t\<rparr>))"

definition ptrK :: "(ptable \<Rightarrow> 'a res) \<Rightarrow> 'a kop" where
  "ptrK f s = bind_res (f (k_pt s)) (\<lambda>x. Ret (x, s))"

definition vmK :: "(vm \<Rightarrow> vm res) \<Rightarrow> unit kop" where
  "vmK f s = bind_res (f (k_vm s)) (\<lambda>v. Ret ((), s\<lparr>k_vm := v\<rparr>))"

definition vmvK :: "(vm \<Rightarrow> ('a \<times> vm) res) \<Rightarrow> 'a kop" where
  "vmvK f s = bind_res (f (k_vm s)) (\<lambda>(x, v). Ret (x, s\<lparr>k_vm := v\<rparr>))"

definition vmrK :: "(vm \<Rightarrow> 'a res) \<Rightarrow> 'a kop" where
  "vmrK f s = bind_res (f (k_vm s)) (\<lambda>x. Ret (x, s))"

text \<open>Taking and releasing a lock, given by the field it is in.\<close>

definition acquireK :: "nat \<Rightarrow> (kernel \<Rightarrow> spinlock) \<Rightarrow> ((spinlock \<Rightarrow> spinlock) \<Rightarrow> kernel \<Rightarrow> kernel) \<Rightarrow> unit kop" where
  "acquireK c get_l upd_l s = bind_res (acquire_lock c (get_l s)) (\<lambda>lk. Ret ((), upd_l (\<lambda>_. lk) s))"

definition releaseK :: "nat \<Rightarrow> (kernel \<Rightarrow> spinlock) \<Rightarrow> ((spinlock \<Rightarrow> spinlock) \<Rightarrow> kernel \<Rightarrow> kernel) \<Rightarrow> unit kop" where
  "releaseK c get_l upd_l s = bind_res (release_lock c (get_l s)) (\<lambda>lk. Ret ((), upd_l (\<lambda>_. lk) s))"

definition wakeupK :: "nat \<Rightarrow> chan \<Rightarrow> unit kop" where
  "wakeupK c ch = ptK (wakeup c (Some ch))"

text \<open>The running process: reading through the pointer \<open>myproc()\<close>.\<close>

definition curproc :: "nat \<Rightarrow> nat kop" where
  "curproc c s = bind_res (deref NPROC (myproc c (k_pt s))) (\<lambda>p. Ret (p, s))"

definition procK :: "nat \<Rightarrow> (proc \<Rightarrow> 'a) \<Rightarrow> 'a kop" where
  "procK p f = getK (\<lambda>s. f (procs (k_pt s) p))"

definition setprocK :: "nat \<Rightarrow> (proc \<Rightarrow> proc) \<Rightarrow> unit kop" where
  "setprocK p f = ptK (set_proc (Some p) f)"

named_theorems kop_simps \<open>running operations\<close>

lemma kop_run [kop_simps]:
  "retK x s = Ret (x, s)" "bindK m f s = bind_res (m s) (\<lambda>(x, s'). f x s')" "thenK m n s = bind_res (m s) (\<lambda>(_, s'). n s')"
  "getK g s = Ret (g s, s)" "modK h s = Ret ((), h s)" "panicK msg s = Panic msg" "sleepK s = Hang" "faultK s = Fault"
  by (simp_all add: retK_def bindK_def thenK_def getK_def modK_def panicK_def sleepK_def faultK_def)

lemma whenK_run [kop_simps]: "whenK b m s = (if b then m s else Ret ((), s))"
  by (simp add: whenK_def retK_def)

lemma bindK_Ret: "m s = Ret (x, s') \<Longrightarrow> bindK m f s = f x s'"
  by (simp add: bindK_def)

lemma thenK_Ret: "m s = Ret (x, s') \<Longrightarrow> thenK m n s = n s'"
  by (simp add: thenK_def)

section \<open>Little-endian numbers in blocks\<close>

primrec le_bytes :: "nat \<Rightarrow> nat \<Rightarrow> u8 list" where
  "le_bytes 0 x = []"
| "le_bytes (Suc n) x = of_nat (x mod 256) # le_bytes n (x div 256)"

primrec le_nat :: "u8 list \<Rightarrow> nat" where
  "le_nat [] = 0"
| "le_nat (b # bs) = unat b + 256 * le_nat bs"

definition get_le :: "nat \<Rightarrow> nat \<Rightarrow> u8 list \<Rightarrow> nat" where
  "get_le n off bs = le_nat (take n (drop off bs))"

definition put_bytes :: "nat \<Rightarrow> u8 list \<Rightarrow> u8 list \<Rightarrow> u8 list" where
  "put_bytes off xs bs = take off bs @ xs @ drop (off + length xs) bs"

definition put_le :: "nat \<Rightarrow> nat \<Rightarrow> nat \<Rightarrow> u8 list \<Rightarrow> u8 list" where
  "put_le n off x bs = put_bytes off (le_bytes n x) bs"

text \<open>The bytes of a string literal, without the terminating zero.\<close>

definition cbytes :: "string \<Rightarrow> u8 list" where
  "cbytes cs = map of_char cs"

text \<open>A 16-bit field read as a signed \<open>short\<close>, and a \<open>short\<close> stored.\<close>

definition short_of :: "nat \<Rightarrow> int" where
  "short_of x = (if x < 2 ^ 15 then int x else int x - 2 ^ 16)"

definition of_short :: "int \<Rightarrow> nat" where
  "of_short x = nat (x mod 2 ^ 16)"

lemma le_bytes_length [simp]: "length (le_bytes n x) = n"
  by (induction n arbitrary: x) simp_all

lemma le_nat_bytes: "le_nat (le_bytes n x) = x mod 256 ^ n"
proof (induction n arbitrary: x)
  case (Suc n)
  have "unat (of_nat (x mod 256) :: u8) = x mod 256" by (simp add: unsigned_of_nat take_bit_eq_mod)
  then show ?case by (simp add: Suc.IH mod_mult2_eq)
qed simp

lemma put_bytes_length [simp]: "off + length xs \<le> length bs \<Longrightarrow> length (put_bytes off xs bs) = length bs"
  by (simp add: put_bytes_def)

lemma get_put_same:
  assumes "off + n \<le> length bs"
  shows "get_le n off (put_le n off x bs) = x mod 256 ^ n"
  using assms by (simp add: get_le_def put_le_def put_bytes_def le_nat_bytes)

lemma take_drop_put:
  assumes "off + n \<le> p \<or> p + length xs \<le> off" "p + length xs \<le> length bs"
  shows "take n (drop off (put_bytes p xs bs)) = take n (drop off bs)"
  using assms by (auto simp: put_bytes_def intro!: nth_equalityI simp: nth_append)

lemma get_put_other:
  assumes "off + n \<le> p \<or> p + m \<le> off" "p + m \<le> length bs"
  shows "get_le n off (put_le m p x bs) = get_le n off bs"
  using assms by (simp add: get_le_def put_le_def take_drop_put)

lemma short_roundtrip: "- (2 ^ 15) \<le> x \<Longrightarrow> x < 2 ^ 15 \<Longrightarrow> short_of (of_short x) = x"
proof -
  assume x: "- (2 ^ 15) \<le> x" "x < 2 ^ 15"
  show ?thesis
  proof (cases "0 \<le> x")
    case True
    then show ?thesis using x by (simp add: short_of_def of_short_def)
  next
    case False
    have "x mod 2 ^ 16 = (x + 2 ^ 16) mod 2 ^ 16" by simp
    also have "\<dots> = x + 2 ^ 16" using x False by (intro mod_pos_pos_trivial) simp_all
    finally show ?thesis using x False by (simp add: short_of_def of_short_def)
  qed
qed

end
