(* ===== verification/Bio.thy ===== *)
theory Bio
  imports Kernel_State
begin

text \<open>
  Sleep locks (\<open>kernel/sleeplock.c\<close>) and the buffer cache (\<open>kernel/bio.c\<close>). The list of buffers is the ring of
  \<open>prev\<close> and \<open>next\<close> indices through \<open>bcache.head\<close>, which is index \<open>NBUF\<close>; a scan follows at most \<open>NBUF + 1\<close> links, enough
  to go round the ring once.
\<close>

section \<open>Sleep locks\<close>

definition initsleeplock :: "string \<Rightarrow> sleeplock" where
  "initsleeplock name = \<lparr>sl_locked = False, sl_lk = initlock ''sleep lock'', sl_name = name, sl_pid = 0\<rparr>"

type_synonym slens = "(kernel \<Rightarrow> sleeplock) \<times> ((sleeplock \<Rightarrow> sleeplock) \<Rightarrow> kernel \<Rightarrow> kernel)"

definition acquire_sl :: "nat \<Rightarrow> slens \<Rightarrow> unit kop" where
  "acquire_sl c lk = acquireK c (\<lambda>s. sl_lk (fst lk s)) (\<lambda>f. snd lk (sl_lk_update f))"

definition release_sl :: "nat \<Rightarrow> slens \<Rightarrow> unit kop" where
  "release_sl c lk = releaseK c (\<lambda>s. sl_lk (fst lk s)) (\<lambda>f. snd lk (sl_lk_update f))"

definition acquiresleep :: "nat \<Rightarrow> slens \<Rightarrow> unit kop" where
  "acquiresleep c lk =
    thenK (acquire_sl c lk) (bindK (getK (\<lambda>s. sl_locked (fst lk s))) (\<lambda>locked.
      if locked then sleepK
      else thenK (modK (snd lk (sl_locked_update (\<lambda>_. True))))
          (bindK (curproc c) (\<lambda>p. bindK (procK p p_pid) (\<lambda>pid.
           thenK (modK (snd lk (sl_pid_update (\<lambda>_. pid)))) (release_sl c lk))))))"

definition releasesleep :: "nat \<Rightarrow> slens \<Rightarrow> chan \<Rightarrow> unit kop" where
  "releasesleep c lk ch =
    thenK (acquire_sl c lk) (thenK (modK (snd lk (\<lambda>l. l\<lparr>sl_locked := False, sl_pid := 0\<rparr>)))
      (thenK (wakeupK c ch) (release_sl c lk)))"

definition holdingsleep :: "nat \<Rightarrow> slens \<Rightarrow> bool kop" where
  "holdingsleep c lk =
    thenK (acquire_sl c lk) (bindK (getK (fst lk)) (\<lambda>l. bindK (curproc c) (\<lambda>p. bindK (procK p p_pid) (\<lambda>pid.
      thenK (release_sl c lk) (retK (sl_locked l \<and> sl_pid l = pid))))))"

section \<open>Buffers\<close>

definition bufK :: "nat \<Rightarrow> (buf \<Rightarrow> 'a) \<Rightarrow> 'a kop" where
  "bufK b f = getK (\<lambda>s. f (bc_buf (k_bc s) b))"

definition upd_buf :: "nat \<Rightarrow> (buf \<Rightarrow> buf) \<Rightarrow> kernel \<Rightarrow> kernel" where
  "upd_buf b f s = s\<lparr>k_bc := (k_bc s)\<lparr>bc_buf := (bc_buf (k_bc s))(b := f (bc_buf (k_bc s) b))\<rparr>\<rparr>"

definition setbufK :: "nat \<Rightarrow> (buf \<Rightarrow> buf) \<Rightarrow> unit kop" where
  "setbufK b f = modK (upd_buf b f)"

definition buf_lock :: "nat \<Rightarrow> slens" where
  "buf_lock b = ((\<lambda>s. b_lock (bc_buf (k_bc s) b)), (\<lambda>f. upd_buf b (b_lock_update f)))"

definition acquire_bc :: "nat \<Rightarrow> unit kop" where
  "acquire_bc c = acquireK c (\<lambda>s. bc_lock (k_bc s)) (\<lambda>f s. s\<lparr>k_bc := bc_lock_update f (k_bc s)\<rparr>)"

definition release_bc :: "nat \<Rightarrow> unit kop" where
  "release_bc c = releaseK c (\<lambda>s. bc_lock (k_bc s)) (\<lambda>f s. s\<lparr>k_bc := bc_lock_update f (k_bc s)\<rparr>)"

text \<open>Linking \<open>b\<close> in behind the head of the list.\<close>

definition link_front :: "nat \<Rightarrow> (nat \<Rightarrow> buf) \<Rightarrow> (nat \<Rightarrow> buf)" where
  "link_front b B =
    (let B1 = B(b := (B b)\<lparr>b_next := b_next (B NBUF), b_prev := NBUF\<rparr>);
         n = b_next (B1 NBUF);
         B2 = B1(n := (B1 n)\<lparr>b_prev := b\<rparr>)
     in B2(NBUF := (B2 NBUF)\<lparr>b_next := b\<rparr>))"

definition unlink :: "nat \<Rightarrow> (nat \<Rightarrow> buf) \<Rightarrow> (nat \<Rightarrow> buf)" where
  "unlink b B =
    (let n = b_next (B b); B1 = B(n := (B n)\<lparr>b_prev := b_prev (B b)\<rparr>); p = b_prev (B1 b)
     in B1(p := (B1 p)\<lparr>b_next := b_next (B1 b)\<rparr>))"

definition binit :: "bcache \<Rightarrow> bcache" where
  "binit bc =
    (let B0 = (bc_buf bc)(NBUF := (bc_buf bc NBUF)\<lparr>b_prev := NBUF, b_next := NBUF\<rparr>)
     in \<lparr>bc_lock = initlock ''bcache'',
         bc_buf = fold (\<lambda>b B. link_front b (B(b := (B b)\<lparr>b_lock := initsleeplock ''buffer''\<rparr>))) [0..<NBUF] B0\<rparr>)"

text \<open>The two scans of \<open>bget\<close>: forward for the block, backward for a buffer nobody uses.\<close>

primrec bget_cached :: "nat \<Rightarrow> nat \<Rightarrow> nat \<Rightarrow> nat \<Rightarrow> (nat \<Rightarrow> buf) \<Rightarrow> nat option res" where
  "bget_cached 0 b dev blockno B = Hang"
| "bget_cached (Suc fuel) b dev blockno B =
    (if b = NBUF then Ret None
     else if b_dev (B b) = dev \<and> b_blockno (B b) = blockno then Ret (Some b)
     else bget_cached fuel (b_next (B b)) dev blockno B)"

primrec bget_unused :: "nat \<Rightarrow> nat \<Rightarrow> (nat \<Rightarrow> buf) \<Rightarrow> nat option res" where
  "bget_unused 0 b B = Hang"
| "bget_unused (Suc fuel) b B =
    (if b = NBUF then Ret None
     else if b_refcnt (B b) = 0 then Ret (Some b)
     else bget_unused fuel (b_prev (B b)) B)"

definition bget :: "nat \<Rightarrow> nat \<Rightarrow> nat \<Rightarrow> nat kop" where
  "bget c dev blockno =
    thenK (acquire_bc c)
    (bindK (\<lambda>s. bind_res (bget_cached (NBUF + 1) (b_next (bc_buf (k_bc s) NBUF)) dev blockno (bc_buf (k_bc s))) (\<lambda>r. Ret (r, s))) (\<lambda>r.
      case r of
        Some b \<Rightarrow> thenK (setbufK b (\<lambda>x. x\<lparr>b_refcnt := b_refcnt x + 1\<rparr>))
                 (thenK (release_bc c) (thenK (acquiresleep c (buf_lock b)) (retK b)))
      | None \<Rightarrow>
        bindK (\<lambda>s. bind_res (bget_unused (NBUF + 1) (b_prev (bc_buf (k_bc s) NBUF)) (bc_buf (k_bc s))) (\<lambda>r. Ret (r, s))) (\<lambda>r.
          case r of
            Some b \<Rightarrow> thenK (setbufK b (\<lambda>x. x\<lparr>b_dev := dev, b_blockno := blockno, b_valid := False, b_refcnt := 1\<rparr>))
                     (thenK (release_bc c) (thenK (acquiresleep c (buf_lock b)) (retK b)))
          | None \<Rightarrow> panicK ''bget: no buffers'')))"

text \<open>
  The effect of a completed \<open>virtio_disk_rw\<close>: the block of the buffer is written from or read into its data.
\<close>

definition disk_rw :: "nat \<Rightarrow> bool \<Rightarrow> unit kop" where
  "disk_rw b wr s =
    (let bf = bc_buf (k_bc s) b
     in Ret ((), if wr then s\<lparr>k_disk := (k_disk s)(b_blockno bf := b_data bf), k_trace := k_trace s @ [(b_blockno bf, b_data bf)]\<rparr>
                 else upd_buf b (b_data_update (\<lambda>_. k_disk s (b_blockno bf))) s))"

definition bread :: "nat \<Rightarrow> nat \<Rightarrow> nat \<Rightarrow> nat kop" where
  "bread c dev blockno =
    bindK (bget c dev blockno) (\<lambda>b. bindK (bufK b b_valid) (\<lambda>v.
      thenK (whenK (\<not> v) (thenK (disk_rw b False) (setbufK b (b_valid_update (\<lambda>_. True))))) (retK b)))"

definition bwrite :: "nat \<Rightarrow> nat \<Rightarrow> unit kop" where
  "bwrite c b =
    bindK (holdingsleep c (buf_lock b)) (\<lambda>h. if \<not> h then panicK ''bwrite'' else disk_rw b True)"

definition brelse :: "nat \<Rightarrow> nat \<Rightarrow> unit kop" where
  "brelse c b =
    bindK (holdingsleep c (buf_lock b)) (\<lambda>h.
      if \<not> h then panicK ''brelse''
      else thenK (releasesleep c (buf_lock b) (ChanBufLock b))
          (thenK (acquire_bc c)
          (thenK (setbufK b (\<lambda>x. x\<lparr>b_refcnt := b_refcnt x - 1\<rparr>))
          (bindK (bufK b b_refcnt) (\<lambda>r.
           thenK (whenK (r = 0) (modK (\<lambda>s. s\<lparr>k_bc := (k_bc s)\<lparr>bc_buf := link_front b (unlink b (bc_buf (k_bc s)))\<rparr>\<rparr>)))
                 (release_bc c))))))"

definition bpin :: "nat \<Rightarrow> nat \<Rightarrow> unit kop" where
  "bpin c b = thenK (acquire_bc c) (thenK (setbufK b (\<lambda>x. x\<lparr>b_refcnt := b_refcnt x + 1\<rparr>)) (release_bc c))"

definition bunpin :: "nat \<Rightarrow> nat \<Rightarrow> unit kop" where
  "bunpin c b = thenK (acquire_bc c) (thenK (setbufK b (\<lambda>x. x\<lparr>b_refcnt := b_refcnt x - 1\<rparr>)) (release_bc c))"

end
