(* ===== verification/Log.thy ===== *)
theory Log
  imports Bio
begin

text \<open>
  The log (\<open>kernel/log.c\<close>). The header block holds the number of logged blocks and their block numbers, 32 bits
  each, in little-endian order.
\<close>

definition upd_log :: "(klog \<Rightarrow> klog) \<Rightarrow> unit kop" where
  "upd_log f = modK (\<lambda>s. s\<lparr>k_log := f (k_log s)\<rparr>)"

definition acquire_log :: "nat \<Rightarrow> unit kop" where
  "acquire_log c = acquireK c (\<lambda>s. lg_lock (k_log s)) (\<lambda>f s. s\<lparr>k_log := lg_lock_update f (k_log s)\<rparr>)"

definition release_log :: "nat \<Rightarrow> unit kop" where
  "release_log c = releaseK c (\<lambda>s. lg_lock (k_log s)) (\<lambda>f s. s\<lparr>k_log := lg_lock_update f (k_log s)\<rparr>)"

text \<open>An \<open>int\<close> stored in 32 bits.\<close>

definition int32_of :: "nat \<Rightarrow> int" where
  "int32_of x = (if x < 2 ^ 31 then int x else int x - 2 ^ 32)"

definition of_int32 :: "int \<Rightarrow> nat" where
  "of_int32 x = nat (x mod 2 ^ 32)"

definition install_one :: "nat \<Rightarrow> bool \<Rightarrow> nat \<Rightarrow> unit kop" where
  "install_one c recovering tail =
    bindK (getK k_log) (\<lambda>lg.
    bindK (bread c (lg_dev lg) (lg_start lg + tail + 1)) (\<lambda>lbuf.
    bindK (bread c (lg_dev lg) (lh_block lg ! tail)) (\<lambda>dbuf.
    bindK (bufK lbuf b_data) (\<lambda>d.
    thenK (setbufK dbuf (b_data_update (\<lambda>_. d)))
    (thenK (bwrite c dbuf)
    (thenK (whenK (\<not> recovering) (bunpin c dbuf))
    (thenK (brelse c lbuf) (brelse c dbuf))))))))"

definition install_trans :: "nat \<Rightarrow> bool \<Rightarrow> unit kop" where
  "install_trans c recovering =
    bindK (getK k_log) (\<lambda>lg. forK [0..<nat (lh_n lg)] (install_one c recovering))"

definition read_head :: "nat \<Rightarrow> unit kop" where
  "read_head c =
    bindK (getK k_log) (\<lambda>lg.
    bindK (bread c (lg_dev lg) (lg_start lg)) (\<lambda>b.
    bindK (bufK b b_data) (\<lambda>d.
    thenK (upd_log (lh_n_update (\<lambda>_. int32_of (get_le 4 0 d))))
    (thenK (forK [0..<nat (int32_of (get_le 4 0 d))] (\<lambda>i.
       if i < LOGSIZE then upd_log (\<lambda>l. l\<lparr>lh_block := (lh_block l)[i := get_le 4 (4 + 4 * i) d]\<rparr>) else faultK))
    (brelse c b)))))"

definition write_head :: "nat \<Rightarrow> unit kop" where
  "write_head c =
    bindK (getK k_log) (\<lambda>lg.
    bindK (bread c (lg_dev lg) (lg_start lg)) (\<lambda>b.
    thenK (setbufK b (b_data_update (put_le 4 0 (of_int32 (lh_n lg)))))
    (thenK (forK [0..<nat (lh_n lg)] (\<lambda>i.
       if i < LOGSIZE then setbufK b (b_data_update (put_le 4 (4 + 4 * i) (lh_block lg ! i))) else faultK))
    (thenK (bwrite c b) (brelse c b)))))"

definition recover_from_log :: "nat \<Rightarrow> unit kop" where
  "recover_from_log c =
    thenK (read_head c) (thenK (install_trans c True) (thenK (upd_log (lh_n_update (\<lambda>_. 0))) (write_head c)))"

text \<open>\<open>sizeof(struct logheader)\<close> is 124, less than \<open>BSIZE\<close>.\<close>

definition initlog :: "nat \<Rightarrow> nat \<Rightarrow> superblock \<Rightarrow> unit kop" where
  "initlog c dev sb =
    (if 4 + 4 * LOGSIZE \<ge> BSIZE then panicK ''initlog: too big logheader''
     else thenK (upd_log (\<lambda>l. l\<lparr>lg_lock := initlock ''log'', lg_start := sb_logstart sb, lg_size := sb_nlog sb, lg_dev := dev\<rparr>))
         (recover_from_log c))"

definition begin_op :: "nat \<Rightarrow> unit kop" where
  "begin_op c =
    thenK (acquire_log c) (bindK (getK k_log) (\<lambda>lg.
      if lg_committing lg then sleepK
      else if lh_n lg + (lg_outstanding lg + 1) * int MAXOPBLOCKS > int LOGSIZE then sleepK
      else thenK (upd_log (\<lambda>l. l\<lparr>lg_outstanding := lg_outstanding l + 1\<rparr>)) (release_log c)))"

definition write_log_one :: "nat \<Rightarrow> nat \<Rightarrow> unit kop" where
  "write_log_one c tail =
    bindK (getK k_log) (\<lambda>lg.
    bindK (bread c (lg_dev lg) (lg_start lg + tail + 1)) (\<lambda>to.
    bindK (bread c (lg_dev lg) (lh_block lg ! tail)) (\<lambda>from.
    bindK (bufK from b_data) (\<lambda>d.
    thenK (setbufK to (b_data_update (\<lambda>_. d)))
    (thenK (bwrite c to) (thenK (brelse c from) (brelse c to)))))))"

definition write_log :: "nat \<Rightarrow> unit kop" where
  "write_log c = bindK (getK k_log) (\<lambda>lg. forK [0..<nat (lh_n lg)] (write_log_one c))"

definition commit :: "nat \<Rightarrow> unit kop" where
  "commit c =
    bindK (getK k_log) (\<lambda>lg. whenK (lh_n lg > 0)
      (thenK (write_log c) (thenK (write_head c) (thenK (install_trans c False)
        (thenK (upd_log (lh_n_update (\<lambda>_. 0))) (write_head c))))))"

definition end_op :: "nat \<Rightarrow> unit kop" where
  "end_op c =
    thenK (acquire_log c)
    (thenK (upd_log (\<lambda>l. l\<lparr>lg_outstanding := lg_outstanding l - 1\<rparr>))
    (bindK (getK k_log) (\<lambda>lg.
      if lg_committing lg then panicK ''log.committing''
      else if lg_outstanding lg = 0 then
        thenK (upd_log (lg_committing_update (\<lambda>_. True)))
        (thenK (release_log c)
        (thenK (commit c)
        (thenK (acquire_log c)
        (thenK (upd_log (lg_committing_update (\<lambda>_. False)))
        (thenK (wakeupK c ChanLog) (release_log c))))))
      else thenK (wakeupK c ChanLog) (release_log c))))"

text \<open>The index \<open>log_write\<close> stores the block number at: that of the block if it is logged already, else the end.\<close>

definition absorb_index :: "nat \<Rightarrow> klog \<Rightarrow> nat" where
  "absorb_index blockno lg =
    (case filter (\<lambda>i. lh_block lg ! i = blockno) [0..<nat (lh_n lg)] of [] \<Rightarrow> nat (lh_n lg) | i # _ \<Rightarrow> i)"

definition log_write :: "nat \<Rightarrow> nat \<Rightarrow> unit kop" where
  "log_write c b =
    thenK (acquire_log c)
    (bindK (getK k_log) (\<lambda>lg.
     bindK (bufK b b_blockno) (\<lambda>blockno.
      if lh_n lg \<ge> int LOGSIZE \<or> lh_n lg \<ge> int (lg_size lg) - 1 then panicK ''too big a transaction''
      else if lg_outstanding lg < 1 then panicK ''log_write outside of trans''
      else let i = absorb_index blockno lg
           in thenK (upd_log (\<lambda>l. l\<lparr>lh_block := (lh_block l)[i := blockno]\<rparr>))
             (thenK (whenK (int i = lh_n lg) (thenK (bpin c b) (upd_log (\<lambda>l. l\<lparr>lh_n := lh_n l + 1\<rparr>))))
             (release_log c)))))"

end
