(* ===== verification/Fs.thy ===== *)
theory Fs
  imports Log
begin

text \<open>
  The file system (\<open>kernel/fs.c\<close>, with \<open>either_copyout\<close> and \<open>either_copyin\<close> of \<open>kernel/proc.c\<close>): block
  allocation, inodes, file contents, directories and paths. An inode pointer is an index into \<open>itable.inode\<close>. Path
  names are lists of characters without the terminating zero; the name buffers that hold one path element are lists of
  \<open>DIRSIZ\<close> bytes.
\<close>

section \<open>Helpers\<close>

definition inodeK :: "nat \<Rightarrow> (inode \<Rightarrow> 'a) \<Rightarrow> 'a kop" where
  "inodeK ip f = getK (\<lambda>s. f (it_inode (k_it s) ip))"

definition upd_inode :: "nat \<Rightarrow> (inode \<Rightarrow> inode) \<Rightarrow> kernel \<Rightarrow> kernel" where
  "upd_inode ip f s = s\<lparr>k_it := (k_it s)\<lparr>it_inode := (it_inode (k_it s))(ip := f (it_inode (k_it s) ip))\<rparr>\<rparr>"

definition setinodeK :: "nat \<Rightarrow> (inode \<Rightarrow> inode) \<Rightarrow> unit kop" where
  "setinodeK ip f = modK (upd_inode ip f)"

definition inode_lock :: "nat \<Rightarrow> slens" where
  "inode_lock ip = ((\<lambda>s. i_lock (it_inode (k_it s) ip)), (\<lambda>f. upd_inode ip (i_lock_update f)))"

definition acquire_it :: "nat \<Rightarrow> unit kop" where
  "acquire_it c = acquireK c (\<lambda>s. it_lock (k_it s)) (\<lambda>f s. s\<lparr>k_it := it_lock_update f (k_it s)\<rparr>)"

definition release_it :: "nat \<Rightarrow> unit kop" where
  "release_it c = releaseK c (\<lambda>s. it_lock (k_it s)) (\<lambda>f s. s\<lparr>k_it := it_lock_update f (k_it s)\<rparr>)"

definition derefK :: "nat \<Rightarrow> nat option \<Rightarrow> nat kop" where
  "derefK n p s = bind_res (deref n p) (\<lambda>i. Ret (i, s))"

definition sbK :: "(superblock \<Rightarrow> 'a) \<Rightarrow> 'a kop" where
  "sbK f = getK (\<lambda>s. f (k_sb s))"

section \<open>The super block\<close>

definition decode_sb :: "u8 list \<Rightarrow> superblock" where
  "decode_sb d = \<lparr>sb_magic = get_le 4 0 d, sb_size = get_le 4 4 d, sb_nblocks = get_le 4 8 d, sb_ninodes = get_le 4 12 d,
     sb_nlog = get_le 4 16 d, sb_logstart = get_le 4 20 d, sb_inodestart = get_le 4 24 d, sb_bmapstart = get_le 4 28 d\<rparr>"

definition readsb :: "nat \<Rightarrow> nat \<Rightarrow> unit kop" where
  "readsb c dev =
    bindK (bread c dev 1) (\<lambda>bp. bindK (bufK bp b_data) (\<lambda>d.
      thenK (modK (\<lambda>s. s\<lparr>k_sb := decode_sb d\<rparr>)) (brelse c bp)))"

definition fsinit :: "nat \<Rightarrow> nat \<Rightarrow> unit kop" where
  "fsinit c dev =
    thenK (readsb c dev) (bindK (getK k_sb) (\<lambda>sb.
      if sb_magic sb \<noteq> FSMAGIC then panicK ''invalid file system'' else initlog c dev sb))"

section \<open>Blocks\<close>

definition IBLOCK :: "nat \<Rightarrow> superblock \<Rightarrow> nat" where
  "IBLOCK i sb = i div IPB + sb_inodestart sb"

definition BBLOCK :: "nat \<Rightarrow> superblock \<Rightarrow> nat" where
  "BBLOCK b sb = b div BPB + sb_bmapstart sb"

definition bzero :: "nat \<Rightarrow> nat \<Rightarrow> nat \<Rightarrow> unit kop" where
  "bzero c dev bno =
    bindK (bread c dev bno) (\<lambda>bp.
      thenK (setbufK bp (b_data_update (\<lambda>_. replicate BSIZE 0))) (thenK (log_write c bp) (brelse c bp)))"

definition bit_mask :: "nat \<Rightarrow> u8" where
  "bit_mask bi = push_bit (bi mod 8) 1"

definition bit_free :: "u8 list \<Rightarrow> nat \<Rightarrow> bool" where
  "bit_free d bi \<longleftrightarrow> (d ! (bi div 8)) AND bit_mask bi = 0"

primrec balloc_loop :: "nat \<Rightarrow> nat \<Rightarrow> nat list \<Rightarrow> nat kop" where
  "balloc_loop c dev [] = retK 0"
| "balloc_loop c dev (b # bs) =
    bindK (getK k_sb) (\<lambda>sb.
    bindK (bread c dev (BBLOCK b sb)) (\<lambda>bp.
    bindK (bufK bp b_data) (\<lambda>d.
      case List.find (bit_free d) [0..<min BPB (sb_size sb - b)] of
        Some bi \<Rightarrow>
          thenK (setbufK bp (b_data_update (\<lambda>d. d[bi div 8 := (d ! (bi div 8)) OR bit_mask bi])))
          (thenK (log_write c bp)
          (thenK (brelse c bp)
          (thenK (bzero c dev (b + bi)) (retK (b + bi)))))
      | None \<Rightarrow> thenK (brelse c bp) (balloc_loop c dev bs))))"

definition balloc :: "nat \<Rightarrow> nat \<Rightarrow> nat kop" where
  "balloc c dev =
    bindK (sbK sb_size) (\<lambda>size. balloc_loop c dev (map (\<lambda>k. k * BPB) [0..<(size + BPB - 1) div BPB]))"

definition bfree :: "nat \<Rightarrow> nat \<Rightarrow> nat \<Rightarrow> unit kop" where
  "bfree c dev b =
    bindK (getK k_sb) (\<lambda>sb.
    bindK (bread c dev (BBLOCK b sb)) (\<lambda>bp.
    bindK (bufK bp b_data) (\<lambda>d.
      let bi = b mod BPB
      in if bit_free d bi then panicK ''freeing free block''
         else thenK (setbufK bp (b_data_update (\<lambda>d. d[bi div 8 := (d ! (bi div 8)) AND NOT (bit_mask bi)])))
             (thenK (log_write c bp) (brelse c bp)))))"

section \<open>Inodes\<close>

definition iinit :: "itable \<Rightarrow> itable" where
  "iinit it =
    \<lparr>it_lock = initlock ''itable'',
     it_inode = fold (\<lambda>i I. I(i := (I i)\<lparr>i_lock := initsleeplock ''inode''\<rparr>)) [0..<NINODE] (it_inode it)\<rparr>"

text \<open>The fields of the \<open>struct dinode\<close> number \<open>k\<close> of a block.\<close>

definition dinode_type :: "nat \<Rightarrow> u8 list \<Rightarrow> int" where
  "dinode_type k d = short_of (get_le 2 (64 * k) d)"

definition load_dinode :: "nat \<Rightarrow> u8 list \<Rightarrow> inode \<Rightarrow> inode" where
  "load_dinode k d ip = ip\<lparr>i_type := dinode_type k d, i_major := short_of (get_le 2 (64 * k + 2) d),
     i_minor := short_of (get_le 2 (64 * k + 4) d), i_nlink := short_of (get_le 2 (64 * k + 6) d),
     i_size := of_nat (get_le 4 (64 * k + 8) d), i_addrs := map (\<lambda>j. get_le 4 (64 * k + 12 + 4 * j) d) [0..<NDIRECT + 1]\<rparr>"

definition store_dinode :: "nat \<Rightarrow> inode \<Rightarrow> u8 list \<Rightarrow> u8 list" where
  "store_dinode k ip d = put_bytes (64 * k)
     (le_bytes 2 (of_short (i_type ip)) @ le_bytes 2 (of_short (i_major ip)) @ le_bytes 2 (of_short (i_minor ip)) @
      le_bytes 2 (of_short (i_nlink ip)) @ le_bytes 4 (unat (i_size ip)) @ concat (map (le_bytes 4) (i_addrs ip))) d"

text \<open>\<open>iget\<close>: the entry that has the inode, else the first entry nobody refers to.\<close>

definition iget :: "nat \<Rightarrow> nat \<Rightarrow> nat \<Rightarrow> nat kop" where
  "iget c dev inum =
    thenK (acquire_it c) (bindK (getK (\<lambda>s. it_inode (k_it s))) (\<lambda>I.
      case List.find (\<lambda>i. i_ref (I i) > 0 \<and> i_dev (I i) = dev \<and> i_inum (I i) = inum) [0..<NINODE] of
        Some ip \<Rightarrow> thenK (setinodeK ip (\<lambda>x. x\<lparr>i_ref := i_ref x + 1\<rparr>)) (thenK (release_it c) (retK ip))
      | None \<Rightarrow>
        (case List.find (\<lambda>i. i_ref (I i) = 0) [0..<NINODE] of
           None \<Rightarrow> panicK ''iget: no inodes''
         | Some ip \<Rightarrow> thenK (setinodeK ip (\<lambda>x. x\<lparr>i_dev := dev, i_inum := inum, i_ref := 1, i_valid := False\<rparr>))
                    (thenK (release_it c) (retK ip)))))"

primrec ialloc_loop :: "nat \<Rightarrow> nat \<Rightarrow> int \<Rightarrow> nat list \<Rightarrow> nat option kop" where
  "ialloc_loop c dev type [] = retK None"
| "ialloc_loop c dev type (inum # rest) =
    bindK (getK k_sb) (\<lambda>sb.
    bindK (bread c dev (IBLOCK inum sb)) (\<lambda>bp.
    bindK (bufK bp b_data) (\<lambda>d.
      if dinode_type (inum mod IPB) d = 0 then
        thenK (setbufK bp (b_data_update (\<lambda>d. put_le 2 (64 * (inum mod IPB)) (of_short type)
                 (put_bytes (64 * (inum mod IPB)) (replicate 64 0) d))))
        (thenK (log_write c bp)
        (thenK (brelse c bp)
        (bindK (iget c dev inum) (\<lambda>ip. retK (Some ip)))))
      else thenK (brelse c bp) (ialloc_loop c dev type rest))))"

definition ialloc :: "nat \<Rightarrow> nat \<Rightarrow> int \<Rightarrow> nat option kop" where
  "ialloc c dev type = bindK (sbK sb_ninodes) (\<lambda>n. ialloc_loop c dev type [1..<n])"

definition iupdate :: "nat \<Rightarrow> nat \<Rightarrow> unit kop" where
  "iupdate c ip =
    bindK (inodeK ip id) (\<lambda>x.
    bindK (getK k_sb) (\<lambda>sb.
    bindK (bread c (i_dev x) (IBLOCK (i_inum x) sb)) (\<lambda>bp.
      thenK (setbufK bp (b_data_update (store_dinode (i_inum x mod IPB) x)))
      (thenK (log_write c bp) (brelse c bp)))))"

definition idup :: "nat \<Rightarrow> nat \<Rightarrow> nat kop" where
  "idup c ip = thenK (acquire_it c) (thenK (setinodeK ip (\<lambda>x. x\<lparr>i_ref := i_ref x + 1\<rparr>)) (thenK (release_it c) (retK ip)))"

definition ilock :: "nat \<Rightarrow> nat option \<Rightarrow> unit kop" where
  "ilock c p =
    (case p of None \<Rightarrow> panicK ''ilock''
     | Some ip \<Rightarrow> bindK (inodeK ip i_ref) (\<lambda>r.
         if r < 1 then panicK ''ilock''
         else thenK (acquiresleep c (inode_lock ip))
             (bindK (inodeK ip id) (\<lambda>x.
              if i_valid x then retK ()
              else bindK (getK k_sb) (\<lambda>sb.
                   bindK (bread c (i_dev x) (IBLOCK (i_inum x) sb)) (\<lambda>bp.
                   bindK (bufK bp b_data) (\<lambda>d.
                   thenK (setinodeK ip (load_dinode (i_inum x mod IPB) d))
                   (thenK (brelse c bp)
                   (thenK (setinodeK ip (i_valid_update (\<lambda>_. True)))
                   (bindK (inodeK ip i_type) (\<lambda>ty. if ty = 0 then panicK ''ilock: no type'' else retK ()))))))))))) "

definition iunlock :: "nat \<Rightarrow> nat option \<Rightarrow> unit kop" where
  "iunlock c p =
    (case p of None \<Rightarrow> panicK ''iunlock''
     | Some ip \<Rightarrow> bindK (holdingsleep c (inode_lock ip)) (\<lambda>h. bindK (inodeK ip i_ref) (\<lambda>r.
         if \<not> h \<or> r < 1 then panicK ''iunlock'' else releasesleep c (inode_lock ip) (ChanInodeLock ip))))"

definition bmap :: "nat \<Rightarrow> nat \<Rightarrow> nat \<Rightarrow> nat kop" where
  "bmap c ip bn =
    bindK (inodeK ip id) (\<lambda>x.
      if bn < NDIRECT then
        (if i_addrs x ! bn = 0 then
           bindK (balloc c (i_dev x)) (\<lambda>addr.
             if addr = 0 then retK 0
             else thenK (setinodeK ip (\<lambda>x. x\<lparr>i_addrs := (i_addrs x)[bn := addr]\<rparr>)) (retK addr))
         else retK (i_addrs x ! bn))
      else if bn - NDIRECT < NINDIRECT then
        bindK (if i_addrs x ! NDIRECT = 0 then
                 bindK (balloc c (i_dev x)) (\<lambda>addr.
                   thenK (whenK (addr \<noteq> 0) (setinodeK ip (\<lambda>x. x\<lparr>i_addrs := (i_addrs x)[NDIRECT := addr]\<rparr>))) (retK addr))
               else retK (i_addrs x ! NDIRECT)) (\<lambda>ind.
          if ind = 0 then retK 0
          else bindK (bread c (i_dev x) ind) (\<lambda>bp.
               bindK (bufK bp (\<lambda>b. get_le 4 (4 * (bn - NDIRECT)) (b_data b))) (\<lambda>a.
               bindK (if a = 0 then
                        bindK (balloc c (i_dev x)) (\<lambda>addr.
                          thenK (whenK (addr \<noteq> 0) (thenK (setbufK bp (b_data_update (put_le 4 (4 * (bn - NDIRECT)) addr))) (log_write c bp)))
                            (retK addr))
                      else retK a) (\<lambda>addr. thenK (brelse c bp) (retK addr)))))
      else panicK ''bmap: out of range'')"

definition itrunc :: "nat \<Rightarrow> nat \<Rightarrow> unit kop" where
  "itrunc c ip =
    thenK (forK [0..<NDIRECT] (\<lambda>i. bindK (inodeK ip id) (\<lambda>x.
             whenK (i_addrs x ! i \<noteq> 0)
               (thenK (bfree c (i_dev x) (i_addrs x ! i)) (setinodeK ip (\<lambda>x. x\<lparr>i_addrs := (i_addrs x)[i := 0]\<rparr>))))))
    (thenK (bindK (inodeK ip id) (\<lambda>x.
             whenK (i_addrs x ! NDIRECT \<noteq> 0)
               (bindK (bread c (i_dev x) (i_addrs x ! NDIRECT)) (\<lambda>bp.
                thenK (forK [0..<NINDIRECT] (\<lambda>j. bindK (bufK bp (\<lambda>b. get_le 4 (4 * j) (b_data b))) (\<lambda>a.
                         whenK (a \<noteq> 0) (bfree c (i_dev x) a))))
                (thenK (brelse c bp)
                (thenK (bfree c (i_dev x) (i_addrs x ! NDIRECT))
                (setinodeK ip (\<lambda>x. x\<lparr>i_addrs := (i_addrs x)[NDIRECT := 0]\<rparr>))))))))
    (thenK (setinodeK ip (i_size_update (\<lambda>_. 0))) (iupdate c ip)))"

definition iput :: "nat \<Rightarrow> nat \<Rightarrow> unit kop" where
  "iput c ip =
    thenK (acquire_it c) (bindK (inodeK ip id) (\<lambda>x.
      thenK (whenK (i_ref x = 1 \<and> i_valid x \<and> i_nlink x = 0)
        (thenK (acquiresleep c (inode_lock ip))
        (thenK (release_it c)
        (thenK (itrunc c ip)
        (thenK (setinodeK ip (i_type_update (\<lambda>_. 0)))
        (thenK (iupdate c ip)
        (thenK (setinodeK ip (i_valid_update (\<lambda>_. False)))
        (thenK (releasesleep c (inode_lock ip) (ChanInodeLock ip))
        (acquire_it c)))))))))
      (thenK (setinodeK ip (\<lambda>x. x\<lparr>i_ref := i_ref x - 1\<rparr>)) (release_it c))))"

definition iunlockput :: "nat \<Rightarrow> nat \<Rightarrow> unit kop" where
  "iunlockput c ip = thenK (iunlock c (Some ip)) (iput c ip)"

end
