(* ===== verification/Fs_Path.thy ===== *)
theory Fs_Path
  imports Fs
begin

text \<open>
  The contents of files, directories and path names (second half of \<open>kernel/fs.c\<close>). \<open>readi\<close> copies to a user
  address, to a physical address (program segments) or to a variable of the kernel, whose new contents it returns;
  \<open>writei\<close> copies from a user address or from bytes of the kernel.
\<close>

section \<open>Copying to and from either space\<close>

datatype dest = ToUser u64 | ToPhys u64 | ToKernel
datatype source = FromUser u64 | FromKernel "u8 list"

definition dest_add :: "dest \<Rightarrow> u32 \<Rightarrow> dest" where
  "dest_add dst m = (case dst of ToUser a \<Rightarrow> ToUser (a + ucast m) | ToPhys a \<Rightarrow> ToPhys (a + ucast m) | ToKernel \<Rightarrow> ToKernel)"

definition source_add :: "source \<Rightarrow> u32 \<Rightarrow> source" where
  "source_add src m = (case src of FromUser a \<Rightarrow> FromUser (a + ucast m) | FromKernel bs \<Rightarrow> FromKernel (drop (unat m) bs))"

definition either_copyout :: "nat \<Rightarrow> dest \<Rightarrow> u8 list \<Rightarrow> int kop" where
  "either_copyout c dst bs =
    bindK (curproc c) (\<lambda>p.
      case dst of
        ToUser a \<Rightarrow> bindK (procK p p_pagetable) (\<lambda>pt. vmvK (copyout c pt a bs))
      | ToPhys a \<Rightarrow> thenK (modK (\<lambda>s. s\<lparr>k_vm := (k_vm s)\<lparr>vm_mem := store_bytes a bs (vm_mem (k_vm s))\<rparr>\<rparr>)) (retK 0)
      | ToKernel \<Rightarrow> retK 0)"

definition either_copyin :: "nat \<Rightarrow> source \<Rightarrow> nat \<Rightarrow> (int \<times> u8 list) kop" where
  "either_copyin c src n =
    bindK (curproc c) (\<lambda>p.
      case src of
        FromUser a \<Rightarrow> bindK (procK p p_pagetable) (\<lambda>pt. vmrK (copyin c pt a n))
      | FromKernel bs \<Rightarrow> retK (0, take n bs))"

section \<open>Contents\<close>

record stat =
  st_dev :: nat
  st_ino :: nat
  st_type :: int
  st_nlink :: int
  st_size :: u64

definition stati :: "nat \<Rightarrow> stat kop" where
  "stati ip =
    inodeK ip (\<lambda>x. \<lparr>st_dev = i_dev x, st_ino = i_inum x, st_type = i_type x, st_nlink = i_nlink x, st_size = ucast (i_size x)\<rparr>)"

definition chunk_len :: "u32 \<Rightarrow> u32 \<Rightarrow> u32 \<Rightarrow> u32" where
  "chunk_len n tot off = (let r = of_nat (BSIZE - unat off mod BSIZE) in if n - tot < r then n - tot else r)"

fun readi_loop :: "nat \<Rightarrow> nat \<Rightarrow> nat \<Rightarrow> u32 \<Rightarrow> u32 \<Rightarrow> u32 \<Rightarrow> dest \<Rightarrow> u8 list \<Rightarrow> (int \<times> u8 list) kop" where
  "readi_loop c 0 ip n tot off dst acc = sleepK"
| "readi_loop c (Suc fuel) ip n tot off dst acc =
    (if tot < n then
       bindK (bmap c ip (unat off div BSIZE)) (\<lambda>addr.
         if addr = 0 then retK (sint tot, acc)
         else bindK (inodeK ip i_dev) (\<lambda>dev.
              bindK (bread c dev addr) (\<lambda>bp.
              bindK (bufK bp b_data) (\<lambda>d.
                let m = chunk_len n tot off; bs = take (unat m) (drop (unat off mod BSIZE) d)
                in bindK (either_copyout c dst bs) (\<lambda>r.
                   thenK (brelse c bp)
                     (if r = - 1 then retK (- 1, acc)
                      else readi_loop c fuel ip n (tot + m) (off + m) (dest_add dst m) (acc @ bs)))))))
     else retK (sint tot, acc))"

definition readi :: "nat \<Rightarrow> nat \<Rightarrow> dest \<Rightarrow> u32 \<Rightarrow> u32 \<Rightarrow> (int \<times> u8 list) kop" where
  "readi c ip dst off n =
    bindK (inodeK ip i_size) (\<lambda>size.
      if off > size \<or> off + n < off then retK (0, [])
      else let n' = (if off + n > size then size - off else n)
           in readi_loop c (unat n' + 1) ip n' 0 off dst [])"

text \<open>The loop of \<open>writei\<close> returns the number of bytes written and the offset reached.\<close>

fun writei_loop :: "nat \<Rightarrow> nat \<Rightarrow> nat \<Rightarrow> u32 \<Rightarrow> u32 \<Rightarrow> u32 \<Rightarrow> source \<Rightarrow> (u32 \<times> u32) kop" where
  "writei_loop c 0 ip n tot off src = sleepK"
| "writei_loop c (Suc fuel) ip n tot off src =
    (if tot < n then
       bindK (bmap c ip (unat off div BSIZE)) (\<lambda>addr.
         if addr = 0 then retK (tot, off)
         else bindK (inodeK ip i_dev) (\<lambda>dev.
              bindK (bread c dev addr) (\<lambda>bp.
                let m = chunk_len n tot off
                in bindK (either_copyin c src (unat m)) (\<lambda>(r, bs).
                   thenK (setbufK bp (b_data_update (put_bytes (unat off mod BSIZE) bs)))
                     (if r = - 1 then thenK (brelse c bp) (retK (tot, off))
                      else thenK (log_write c bp) (thenK (brelse c bp)
                          (writei_loop c fuel ip n (tot + m) (off + m) (source_add src m))))))))
     else retK (tot, off))"

definition writei :: "nat \<Rightarrow> nat \<Rightarrow> source \<Rightarrow> u32 \<Rightarrow> u32 \<Rightarrow> int kop" where
  "writei c ip src off n =
    bindK (inodeK ip i_size) (\<lambda>size.
      if off > size \<or> off + n < off then retK (- 1)
      else if off + n > of_nat (MAXFILE * BSIZE) then retK (- 1)
      else bindK (writei_loop c (unat n + 1) ip n 0 off src) (\<lambda>(tot, off').
           bindK (inodeK ip i_size) (\<lambda>size.
           thenK (whenK (off' > size) (setinodeK ip (i_size_update (\<lambda>_. off'))))
           (thenK (iupdate c ip) (retK (sint tot))))))"

section \<open>Directories\<close>

definition de_inum :: "u8 list \<Rightarrow> nat" where
  "de_inum de = get_le 2 0 de"

definition de_name :: "u8 list \<Rightarrow> u8 list" where
  "de_name de = take DIRSIZ (drop 2 de)"

definition namecmp :: "u8 list \<Rightarrow> u8 list \<Rightarrow> int" where
  "namecmp s t = strncmp_list DIRSIZ s t"

text \<open>The offsets of the entries of a directory of the given size; the counter of the loop wraps with its type.\<close>

fun dirlookup_loop :: "nat \<Rightarrow> nat \<Rightarrow> nat \<Rightarrow> u8 list \<Rightarrow> u32 \<Rightarrow> (nat \<times> u32) option kop" where
  "dirlookup_loop c 0 dp name off = sleepK"
| "dirlookup_loop c (Suc fuel) dp name off =
    bindK (inodeK dp id) (\<lambda>x.
      if off < i_size x then
        bindK (readi c dp ToKernel off 16) (\<lambda>(r, de).
          if r \<noteq> 16 then panicK ''dirlookup read''
          else if de_inum de = 0 then dirlookup_loop c fuel dp name (off + 16)
          else if namecmp name (de_name de) = 0 then bindK (iget c (i_dev x) (de_inum de)) (\<lambda>ip. retK (Some (ip, off)))
          else dirlookup_loop c fuel dp name (off + 16))
      else retK None)"

definition dirlookup :: "nat \<Rightarrow> nat \<Rightarrow> u8 list \<Rightarrow> (nat \<times> u32) option kop" where
  "dirlookup c dp name =
    bindK (inodeK dp id) (\<lambda>x.
      if i_type x \<noteq> T_DIR then panicK ''dirlookup not DIR''
      else dirlookup_loop c (unat (i_size x) div 16 + 2) dp name 0)"

fun dirlink_slot :: "nat \<Rightarrow> nat \<Rightarrow> nat \<Rightarrow> u32 \<Rightarrow> u32 kop" where
  "dirlink_slot c 0 dp off = sleepK"
| "dirlink_slot c (Suc fuel) dp off =
    bindK (inodeK dp i_size) (\<lambda>size.
      if off < size then
        bindK (readi c dp ToKernel off 16) (\<lambda>(r, de).
          if r \<noteq> 16 then panicK ''dirlink read''
          else if de_inum de = 0 then retK off
          else dirlink_slot c fuel dp (off + 16))
      else retK off)"

definition dirlink :: "nat \<Rightarrow> nat \<Rightarrow> u8 list \<Rightarrow> nat \<Rightarrow> int kop" where
  "dirlink c dp name inum =
    bindK (dirlookup c dp name) (\<lambda>r.
      case r of
        Some (ip, _) \<Rightarrow> thenK (iput c ip) (retK (- 1))
      | None \<Rightarrow>
        bindK (inodeK dp i_size) (\<lambda>size.
        bindK (dirlink_slot c (unat size div 16 + 2) dp 0) (\<lambda>off.
        bindK (writei c dp (FromKernel (le_bytes 2 inum @ strncpy_list DIRSIZ name)) off 16) (\<lambda>r.
          retK (if r \<noteq> 16 then - 1 else 0)))))"

section \<open>Paths\<close>

abbreviation SLASH :: u8 where "SLASH \<equiv> 47"

definition skipelem :: "u8 list \<Rightarrow> u8 list \<Rightarrow> (u8 list \<times> u8 list) option" where
  "skipelem path name =
    (let p1 = dropWhile (\<lambda>ch. ch = SLASH) path
     in if p1 = [] then None
        else let s = takeWhile (\<lambda>ch. ch \<noteq> SLASH) p1;
                 p2 = dropWhile (\<lambda>ch. ch \<noteq> SLASH) p1;
                 name' = (if length s \<ge> DIRSIZ then put_bytes 0 (take DIRSIZ s) name else put_bytes 0 (s @ [0]) name)
             in Some (dropWhile (\<lambda>ch. ch = SLASH) p2, name'))"

fun namex_loop :: "nat \<Rightarrow> nat \<Rightarrow> bool \<Rightarrow> nat \<Rightarrow> u8 list \<Rightarrow> u8 list \<Rightarrow> (nat option \<times> u8 list) kop" where
  "namex_loop c 0 par ip path name = sleepK"
| "namex_loop c (Suc fuel) par ip path name =
    (case skipelem path name of
       None \<Rightarrow> if par then thenK (iput c ip) (retK (None, name)) else retK (Some ip, name)
     | Some (path', name') \<Rightarrow>
         thenK (ilock c (Some ip))
         (bindK (inodeK ip i_type) (\<lambda>ty.
           if ty \<noteq> T_DIR then thenK (iunlockput c ip) (retK (None, name'))
           else if par \<and> path' = [] then thenK (iunlock c (Some ip)) (retK (Some ip, name'))
           else bindK (dirlookup c ip name') (\<lambda>r.
             case r of
               None \<Rightarrow> thenK (iunlockput c ip) (retK (None, name'))
             | Some (nxt, _) \<Rightarrow> thenK (iunlockput c ip) (namex_loop c fuel par nxt path' name')))))"

definition namex :: "nat \<Rightarrow> u8 list \<Rightarrow> bool \<Rightarrow> u8 list \<Rightarrow> (nat option \<times> u8 list) kop" where
  "namex c path par name =
    bindK (if path \<noteq> [] \<and> hd path = SLASH then iget c ROOTDEV ROOTINO
           else bindK (curproc c) (\<lambda>p. bindK (procK p p_cwd) (\<lambda>cwd. bindK (derefK NINODE cwd) (idup c)))) (\<lambda>ip.
      namex_loop c (length path + 1) par ip path name)"

definition namei :: "nat \<Rightarrow> u8 list \<Rightarrow> nat option kop" where
  "namei c path = bindK (namex c path False (replicate DIRSIZ 0)) (\<lambda>(ip, _). retK ip)"

definition nameiparent :: "nat \<Rightarrow> u8 list \<Rightarrow> u8 list \<Rightarrow> (nat option \<times> u8 list) kop" where
  "nameiparent c path name = namex c path True name"

end
