(* ===== verification/Console.thy ===== *)
theory Console
  imports Fs_Path
begin

text \<open>
  The console: the UART driver (\<open>kernel/uart.c\<close>), formatted output and \<open>panic\<close> (\<open>kernel/printf.c\<close>) and the
  line discipline (\<open>kernel/console.c\<close>). Polling the UART until it can take a byte ends when it can, so
  \<open>uartputc_sync\<close> hands the byte over.
\<close>

abbreviation INPUT_BUF_SIZE :: nat where "INPUT_BUF_SIZE \<equiv> 128"
abbreviation UART_TX_BUF_SIZE :: nat where "UART_TX_BUF_SIZE \<equiv> 32"
abbreviation CONSOLE :: nat where "CONSOLE \<equiv> 1"
abbreviation BACKSPACE :: int where "BACKSPACE \<equiv> 0x100"

text \<open>\<open>C(x)\<close>, the control character of a letter.\<close>

definition ctrl :: "int \<Rightarrow> int" where
  "ctrl x = x - 64"

section \<open>The UART\<close>

definition upd_uart :: "(uart \<Rightarrow> uart) \<Rightarrow> unit kop" where
  "upd_uart f = modK (\<lambda>s. s\<lparr>k_uart := f (k_uart s)\<rparr>)"

definition uartK :: "(uart \<Rightarrow> 'a) \<Rightarrow> 'a kop" where
  "uartK f = getK (\<lambda>s. f (k_uart s))"

definition acquire_tx :: "nat \<Rightarrow> unit kop" where
  "acquire_tx c = acquireK c (\<lambda>s. uart_tx_lock (k_uart s)) (\<lambda>f s. s\<lparr>k_uart := uart_tx_lock_update f (k_uart s)\<rparr>)"

definition release_tx :: "nat \<Rightarrow> unit kop" where
  "release_tx c = releaseK c (\<lambda>s. uart_tx_lock (k_uart s)) (\<lambda>f s. s\<lparr>k_uart := uart_tx_lock_update f (k_uart s)\<rparr>)"

text \<open>Registers 0, 1, 2 and 3 are \<open>THR\<close>, \<open>IER\<close>, \<open>FCR\<close> and \<open>LCR\<close>.\<close>

definition WriteReg :: "nat \<Rightarrow> nat \<Rightarrow> unit kop" where
  "WriteReg reg v = upd_uart (\<lambda>u. u\<lparr>uart_regs := uart_regs u @ [(reg, v)]\<rparr>)"

definition uartinit :: "unit kop" where
  "uartinit =
    thenK (WriteReg 1 0x00) (thenK (WriteReg 3 0x80) (thenK (WriteReg 0 0x03) (thenK (WriteReg 1 0x00)
    (thenK (WriteReg 3 0x03) (thenK (WriteReg 2 0x07) (thenK (WriteReg 1 0x03)
    (upd_uart (uart_tx_lock_update (\<lambda>_. initlock ''uart'')))))))))"

definition send_byte :: "u8 \<Rightarrow> unit kop" where
  "send_byte b = upd_uart (\<lambda>u. u\<lparr>uart_out := uart_out u @ [b]\<rparr>)"

fun uartstart_loop :: "nat \<Rightarrow> nat \<Rightarrow> unit kop" where
  "uartstart_loop c 0 = sleepK"
| "uartstart_loop c (Suc fuel) =
    bindK (uartK id) (\<lambda>u.
      if uart_tx_w u = uart_tx_r u then retK ()
      else thenK (upd_uart (\<lambda>u. u\<lparr>uart_polls := uart_polls u + 1\<rparr>))
          (if \<not> uart_idle u (uart_polls u) then retK ()
           else thenK (upd_uart (\<lambda>u. u\<lparr>uart_tx_r := uart_tx_r u + 1\<rparr>))
               (thenK (wakeupK c ChanUart)
               (thenK (send_byte (uart_tx_buf u ! (unat (uart_tx_r u) mod UART_TX_BUF_SIZE))) (uartstart_loop c fuel)))))"

definition uartstart :: "nat \<Rightarrow> unit kop" where
  "uartstart c = bindK (uartK id) (\<lambda>u. uartstart_loop c (unat (uart_tx_w u - uart_tx_r u) + 1))"

definition uartputc :: "nat \<Rightarrow> u8 \<Rightarrow> unit kop" where
  "uartputc c ch =
    thenK (acquire_tx c) (bindK (getK k_panicked) (\<lambda>pk.
      if pk then sleepK
      else bindK (uartK id) (\<lambda>u.
        if uart_tx_w u = uart_tx_r u + of_nat UART_TX_BUF_SIZE then sleepK
        else thenK (upd_uart (\<lambda>u. u\<lparr>uart_tx_buf := (uart_tx_buf u)[unat (uart_tx_w u) mod UART_TX_BUF_SIZE := ch],
                                    uart_tx_w := uart_tx_w u + 1\<rparr>))
            (thenK (uartstart c) (release_tx c)))))"

definition uartputc_sync :: "u8 \<Rightarrow> unit kop" where
  "uartputc_sync ch = bindK (getK k_panicked) (\<lambda>pk. if pk then sleepK else send_byte ch)"

definition uartgetc :: "int kop" where
  "uartgetc = bindK (uartK uart_in) (\<lambda>q.
    case q of [] \<Rightarrow> retK (- 1) | b # bs \<Rightarrow> thenK (upd_uart (uart_in_update (\<lambda>_. bs))) (retK (uint b)))"

section \<open>Formatted output\<close>

definition consputc :: "int \<Rightarrow> unit kop" where
  "consputc ch =
    (if ch = BACKSPACE then thenK (uartputc_sync 8) (thenK (uartputc_sync 32) (uartputc_sync 8))
     else uartputc_sync (of_int ch))"

text \<open>The digits of a number, most significant first; a number below \<open>2 ^ 32\<close> has at most 32 in any base.\<close>

fun digit_loop :: "nat \<Rightarrow> nat \<Rightarrow> nat \<Rightarrow> nat list \<Rightarrow> nat list" where
  "digit_loop 0 base x ds = ds"
| "digit_loop (Suc fuel) base x ds =
    (let ds' = x mod base # ds in if x div base \<noteq> 0 then digit_loop fuel base (x div base) ds' else ds')"

definition digit_char :: "nat \<Rightarrow> u8" where
  "digit_char d = (if d < 10 then of_nat (48 + d) else of_nat (87 + d))"

definition printint :: "u32 \<Rightarrow> nat \<Rightarrow> bool \<Rightarrow> u8 list" where
  "printint xx base sign =
    (let neg = (sign \<and> xx <s 0); x = (if neg then - xx else xx)
     in (if neg then [45] else []) @ map digit_char (digit_loop 32 base (unat x) []))"

definition printptr :: "u64 \<Rightarrow> u8 list" where
  "printptr x = [48, 120] @ map (\<lambda>i. digit_char (unat (drop_bit 60 (push_bit (4 * i) x)))) [0..<16]"

datatype parg = ArgInt u32 | ArgPtr u64 | ArgStr "u8 list option"

abbreviation null_text :: "u8 list" where "null_text \<equiv> cbytes ''(null)''"

text \<open>The characters \<open>printf\<close> puts out; fetching an argument that was not passed, or one of another type, is \<open>Fault\<close>.\<close>

fun format_chars :: "u8 list \<Rightarrow> parg list \<Rightarrow> u8 list res" where
  "format_chars [] as = Ret []"
| "format_chars [ch] as = Ret (if ch = 37 then [] else [ch])"
| "format_chars (ch # d # fmt) as =
    (if ch \<noteq> 37 then bind_res (format_chars (d # fmt) as) (\<lambda>r. Ret (ch # r))
     else if d = 100 then (case as of ArgInt n # as' \<Rightarrow> bind_res (format_chars fmt as') (\<lambda>r. Ret (printint n 10 True @ r)) | _ \<Rightarrow> Fault)
     else if d = 120 then (case as of ArgInt n # as' \<Rightarrow> bind_res (format_chars fmt as') (\<lambda>r. Ret (printint n 16 True @ r)) | _ \<Rightarrow> Fault)
     else if d = 112 then (case as of ArgPtr p # as' \<Rightarrow> bind_res (format_chars fmt as') (\<lambda>r. Ret (printptr p @ r)) | _ \<Rightarrow> Fault)
     else if d = 115 then (case as of ArgStr s # as' \<Rightarrow>
         bind_res (format_chars fmt as') (\<lambda>r. Ret ((case s of None \<Rightarrow> null_text | Some cs \<Rightarrow> cs) @ r)) | _ \<Rightarrow> Fault)
     else if d = 37 then bind_res (format_chars fmt as) (\<lambda>r. Ret (37 # r))
     else bind_res (format_chars fmt as) (\<lambda>r. Ret (37 # d # r)))"

definition acquire_pr :: "nat \<Rightarrow> unit kop" where
  "acquire_pr c = acquireK c k_prlock k_prlock_update"

definition release_pr :: "nat \<Rightarrow> unit kop" where
  "release_pr c = releaseK c k_prlock k_prlock_update"

definition printf :: "nat \<Rightarrow> u8 list option \<Rightarrow> parg list \<Rightarrow> unit kop" where
  "printf c fmt as =
    bindK (getK k_prlocking) (\<lambda>locking.
    thenK (whenK locking (acquire_pr c))
      (case fmt of
         None \<Rightarrow> panicK ''null fmt''
       | Some cs \<Rightarrow> bindK (\<lambda>s. bind_res (format_chars cs as) (\<lambda>r. Ret (r, s))) (\<lambda>r.
           thenK (forK r (\<lambda>ch. consputc (uint ch))) (whenK locking (release_pr c)))))"

text \<open>\<open>panic\<close> prints its message, stops the output of the other CPUs and does not return.\<close>

definition panic :: "nat \<Rightarrow> u8 list \<Rightarrow> unit kop" where
  "panic c msg =
    thenK (modK (k_prlocking_update (\<lambda>_. False)))
    (thenK (printf c (Some (cbytes ''panic: '')) [])
    (thenK (printf c (Some msg) [])
    (thenK (printf c (Some [10]) [])
    (thenK (modK (k_panicked_update (\<lambda>_. True))) sleepK))))"

definition printfinit :: "unit kop" where
  "printfinit = modK (\<lambda>s. s\<lparr>k_prlock := initlock ''pr'', k_prlocking := True\<rparr>)"

section \<open>The process listing\<close>

definition state_text :: "procstate \<Rightarrow> u8 list" where
  "state_text st = (case st of UNUSED \<Rightarrow> cbytes ''unused'' | USED \<Rightarrow> cbytes ''used''
     | SLEEPING \<Rightarrow> cbytes ''sleep '' | RUNNABLE \<Rightarrow> cbytes ''runble''
     | RUNNING \<Rightarrow> cbytes ''run   '' | ZOMBIE \<Rightarrow> cbytes ''zombie'')"

definition procdump :: "nat \<Rightarrow> unit kop" where
  "procdump c =
    thenK (printf c (Some [10]) [])
    (forK [0..<NPROC] (\<lambda>i. bindK (procK i id) (\<lambda>p.
       if p_state p = UNUSED then retK ()
       else thenK (printf c (Some (cbytes ''%d %s %s''))
                     [ArgInt (of_int (p_pid p)), ArgStr (Some (state_text (p_state p))), ArgStr (Some (cstr (p_name p)))])
                  (printf c (Some [10]) []))))"

section \<open>Line editing and the console device\<close>

definition consK :: "(console \<Rightarrow> 'a) \<Rightarrow> 'a kop" where
  "consK f = getK (\<lambda>s. f (k_cons s))"

definition upd_cons :: "(console \<Rightarrow> console) \<Rightarrow> unit kop" where
  "upd_cons f = modK (\<lambda>s. s\<lparr>k_cons := f (k_cons s)\<rparr>)"

definition acquire_cons :: "nat \<Rightarrow> unit kop" where
  "acquire_cons c = acquireK c (\<lambda>s. cons_lock (k_cons s)) (\<lambda>f s. s\<lparr>k_cons := cons_lock_update f (k_cons s)\<rparr>)"

definition release_cons :: "nat \<Rightarrow> unit kop" where
  "release_cons c = releaseK c (\<lambda>s. cons_lock (k_cons s)) (\<lambda>f s. s\<lparr>k_cons := cons_lock_update f (k_cons s)\<rparr>)"

definition cons_at :: "console \<Rightarrow> u32 \<Rightarrow> u8" where
  "cons_at cn i = cons_buf cn ! (unat i mod INPUT_BUF_SIZE)"

fun consolewrite_loop :: "nat \<Rightarrow> source \<Rightarrow> nat \<Rightarrow> nat \<Rightarrow> int kop" where
  "consolewrite_loop c src i 0 = retK (int i)"
| "consolewrite_loop c src i (Suc n) =
    bindK (either_copyin c src 1) (\<lambda>(r, bs).
      if r = - 1 then retK (int i)
      else thenK (uartputc c (hd bs)) (consolewrite_loop c (source_add src 1) (Suc i) n))"

definition consolewrite :: "nat \<Rightarrow> source \<Rightarrow> int \<Rightarrow> int kop" where
  "consolewrite c src n = consolewrite_loop c src 0 (nat n)"

text \<open>
  \<open>n\<close> is what remains of the \<open>target\<close> bytes asked for; the loop returns what is left to read, or \<open>None\<close> when the
  process has been killed. A process that finds no input and has not been killed sleeps.
\<close>

fun consoleread_loop :: "nat \<Rightarrow> dest \<Rightarrow> nat \<Rightarrow> nat \<Rightarrow> nat option kop" where
  "consoleread_loop c dst target 0 = retK (Some 0)"
| "consoleread_loop c dst target (Suc n) =
    bindK (consK id) (\<lambda>cn.
      if cons_r cn = cons_w cn then
        bindK (curproc c) (\<lambda>p. bindK (ptvK (killed c p)) (\<lambda>k. if k \<noteq> 0 then retK None else sleepK))
      else let ch = cons_at cn (cons_r cn)
           in thenK (upd_cons (\<lambda>x. x\<lparr>cons_r := cons_r x + 1\<rparr>))
             (if uint ch = ctrl 68 then
                thenK (whenK (Suc n < target) (upd_cons (\<lambda>x. x\<lparr>cons_r := cons_r x - 1\<rparr>))) (retK (Some (Suc n)))
              else bindK (either_copyout c dst [ch]) (\<lambda>r.
                if r = - 1 then retK (Some (Suc n))
                else if ch = 10 then retK (Some n)
                else consoleread_loop c (dest_add dst 1) target n)))"

definition consoleread :: "nat \<Rightarrow> dest \<Rightarrow> int \<Rightarrow> int kop" where
  "consoleread c dst n =
    thenK (acquire_cons c)
    (bindK (consoleread_loop c dst (nat n) (nat n)) (\<lambda>rest.
      thenK (release_cons c) (retK (case rest of None \<Rightarrow> - 1 | Some m \<Rightarrow> int (nat n) - int m))))"

fun kill_line :: "nat \<Rightarrow> unit kop" where
  "kill_line 0 = sleepK"
| "kill_line (Suc fuel) =
    bindK (consK id) (\<lambda>cn.
      if cons_e cn \<noteq> cons_w cn \<and> cons_at cn (cons_e cn - 1) \<noteq> 10 then
        thenK (upd_cons (\<lambda>x. x\<lparr>cons_e := cons_e x - 1\<rparr>)) (thenK (consputc BACKSPACE) (kill_line fuel))
      else retK ())"

definition consoleintr :: "nat \<Rightarrow> int \<Rightarrow> unit kop" where
  "consoleintr c ch =
    thenK (acquire_cons c)
    (thenK
      (bindK (consK id) (\<lambda>cn.
        if ch = ctrl 80 then procdump c
        else if ch = ctrl 85 then kill_line (unat (cons_e cn - cons_w cn) + 1)
        else if ch = ctrl 72 \<or> ch = 127 then
          whenK (cons_e cn \<noteq> cons_w cn) (thenK (upd_cons (\<lambda>x. x\<lparr>cons_e := cons_e x - 1\<rparr>)) (consputc BACKSPACE))
        else whenK (ch \<noteq> 0 \<and> unat (cons_e cn - cons_r cn) < INPUT_BUF_SIZE)
          (let ch' = (if ch = 13 then 10 else ch)
           in thenK (consputc ch')
             (thenK (upd_cons (\<lambda>x. x\<lparr>cons_buf := (cons_buf x)[unat (cons_e x) mod INPUT_BUF_SIZE := of_int ch'], cons_e := cons_e x + 1\<rparr>))
             (bindK (consK id) (\<lambda>cn.
                whenK (ch' = 10 \<or> ch' = ctrl 68 \<or> unat (cons_e cn - cons_r cn) = INPUT_BUF_SIZE)
                  (thenK (upd_cons (\<lambda>x. x\<lparr>cons_w := cons_e x\<rparr>)) (wakeupK c ChanConsole))))))))
      (release_cons c))"

text \<open>The loop of \<open>uartintr\<close> takes one received byte per iteration.\<close>

fun uartintr_loop :: "nat \<Rightarrow> nat \<Rightarrow> unit kop" where
  "uartintr_loop c 0 = sleepK"
| "uartintr_loop c (Suc fuel) =
    bindK uartgetc (\<lambda>ch. if ch = - 1 then retK () else thenK (consoleintr c ch) (uartintr_loop c fuel))"

definition uartintr :: "nat \<Rightarrow> unit kop" where
  "uartintr c =
    bindK (uartK uart_in) (\<lambda>q.
    thenK (uartintr_loop c (length q + 1))
    (thenK (acquire_tx c) (thenK (uartstart c) (release_tx c))))"

definition consoleinit :: "unit kop" where
  "consoleinit =
    thenK (upd_cons (cons_lock_update (\<lambda>_. initlock ''cons'')))
    (thenK uartinit (modK (\<lambda>s. s\<lparr>k_devsw := (k_devsw s)(CONSOLE := Some ConsoleDev)\<rparr>)))"

end
