(* ===== verification/File.thy ===== *)
theory File
  imports Console
begin

text \<open>
  Open files (\<open>kernel/file.c\<close>) and pipes (\<open>kernel/pipe.c\<close>). A file pointer is an index into \<open>ftable.file\<close>, a pipe
  the address of its page. A reader of an empty pipe and a writer to a full one sleep.
\<close>

section \<open>The file table\<close>

definition fileK :: "nat \<Rightarrow> (kfile \<Rightarrow> 'a) \<Rightarrow> 'a kop" where
  "fileK f g = getK (\<lambda>s. g (ft_file (k_ft s) f))"

definition setfileK :: "nat \<Rightarrow> (kfile \<Rightarrow> kfile) \<Rightarrow> unit kop" where
  "setfileK f g = modK (\<lambda>s. s\<lparr>k_ft := (k_ft s)\<lparr>ft_file := (ft_file (k_ft s))(f := g (ft_file (k_ft s) f))\<rparr>\<rparr>)"

definition acquire_ft :: "nat \<Rightarrow> unit kop" where
  "acquire_ft c = acquireK c (\<lambda>s. ft_lock (k_ft s)) (\<lambda>f s. s\<lparr>k_ft := ft_lock_update f (k_ft s)\<rparr>)"

definition release_ft :: "nat \<Rightarrow> unit kop" where
  "release_ft c = releaseK c (\<lambda>s. ft_lock (k_ft s)) (\<lambda>f s. s\<lparr>k_ft := ft_lock_update f (k_ft s)\<rparr>)"

definition fileinit :: "unit kop" where
  "fileinit = modK (\<lambda>s. s\<lparr>k_ft := (k_ft s)\<lparr>ft_lock := initlock ''ftable''\<rparr>\<rparr>)"

definition filealloc :: "nat \<Rightarrow> nat option kop" where
  "filealloc c =
    thenK (acquire_ft c) (bindK (getK (\<lambda>s. ft_file (k_ft s))) (\<lambda>F.
      case List.find (\<lambda>f. f_ref (F f) = 0) [0..<NFILE] of
        Some f \<Rightarrow> thenK (setfileK f (f_ref_update (\<lambda>_. 1))) (thenK (release_ft c) (retK (Some f)))
      | None \<Rightarrow> thenK (release_ft c) (retK None)))"

definition filedup :: "nat \<Rightarrow> nat \<Rightarrow> nat kop" where
  "filedup c f =
    thenK (acquire_ft c) (bindK (fileK f f_ref) (\<lambda>r.
      if r < 1 then panicK ''filedup''
      else thenK (setfileK f (\<lambda>x. x\<lparr>f_ref := f_ref x + 1\<rparr>)) (thenK (release_ft c) (retK f))))"

section \<open>Pipes\<close>

definition pipeK :: "u64 \<Rightarrow> (pipe \<Rightarrow> 'a) \<Rightarrow> 'a kop" where
  "pipeK pi g = getK (\<lambda>s. g (k_pipe s pi))"

definition upd_pipe :: "u64 \<Rightarrow> (pipe \<Rightarrow> pipe) \<Rightarrow> kernel \<Rightarrow> kernel" where
  "upd_pipe pi g s = s\<lparr>k_pipe := (k_pipe s)(pi := g (k_pipe s pi))\<rparr>"

definition setpipeK :: "u64 \<Rightarrow> (pipe \<Rightarrow> pipe) \<Rightarrow> unit kop" where
  "setpipeK pi g = modK (upd_pipe pi g)"

definition acquire_pi :: "nat \<Rightarrow> u64 \<Rightarrow> unit kop" where
  "acquire_pi c pi = acquireK c (\<lambda>s. pi_lock (k_pipe s pi)) (\<lambda>f. upd_pipe pi (pi_lock_update f))"

definition release_pi :: "nat \<Rightarrow> u64 \<Rightarrow> unit kop" where
  "release_pi c pi = releaseK c (\<lambda>s. pi_lock (k_pipe s pi)) (\<lambda>f. upd_pipe pi (pi_lock_update f))"

definition pipe_full :: "pipe \<Rightarrow> bool" where
  "pipe_full p \<longleftrightarrow> pi_nwrite p = pi_nread p + of_nat PIPESIZE"

definition pipe_empty :: "pipe \<Rightarrow> bool" where
  "pipe_empty p \<longleftrightarrow> pi_nread p = pi_nwrite p"

definition pipe_put :: "u8 \<Rightarrow> pipe \<Rightarrow> pipe" where
  "pipe_put ch p = p\<lparr>pi_data := (pi_data p)[unat (pi_nwrite p) mod PIPESIZE := ch], pi_nwrite := pi_nwrite p + 1\<rparr>"

definition pipe_get :: "pipe \<Rightarrow> u8 \<times> pipe" where
  "pipe_get p = (pi_data p ! (unat (pi_nread p) mod PIPESIZE), p\<lparr>pi_nread := pi_nread p + 1\<rparr>)"

definition pipeclose :: "nat \<Rightarrow> u64 \<Rightarrow> bool \<Rightarrow> unit kop" where
  "pipeclose c pi writable =
    thenK (acquire_pi c pi)
    (thenK (if writable then thenK (setpipeK pi (pi_writeopen_update (\<lambda>_. False))) (wakeupK c (ChanPipeRead pi))
            else thenK (setpipeK pi (pi_readopen_update (\<lambda>_. False))) (wakeupK c (ChanPipeWrite pi)))
    (bindK (pipeK pi id) (\<lambda>p.
      if \<not> pi_readopen p \<and> \<not> pi_writeopen p then thenK (release_pi c pi) (vmK (kfree_vm c pi))
      else release_pi c pi)))"

text \<open>The loop of \<open>pipewrite\<close>; it returns \<open>None\<close> after the early return with -1, for which it has released the lock.\<close>

fun pipewrite_loop :: "nat \<Rightarrow> u64 \<Rightarrow> nat \<Rightarrow> u64 \<Rightarrow> nat \<Rightarrow> nat \<Rightarrow> nat option kop" where
  "pipewrite_loop c pi pr addr i 0 = retK (Some i)"
| "pipewrite_loop c pi pr addr i (Suc n) =
    bindK (pipeK pi id) (\<lambda>p.
    bindK (if \<not> pi_readopen p then retK 1 else ptvK (killed c pr)) (\<lambda>k.
      if k \<noteq> 0 then thenK (release_pi c pi) (retK None)
      else if pipe_full p then thenK (wakeupK c (ChanPipeRead pi)) sleepK
      else bindK (procK pr p_pagetable) (\<lambda>pt.
           bindK (vmrK (copyin c pt (addr + of_nat i) 1)) (\<lambda>(r, bs).
             if r = - 1 then retK (Some i)
             else thenK (setpipeK pi (pipe_put (hd bs))) (pipewrite_loop c pi pr addr (Suc i) n)))))"

definition pipewrite :: "nat \<Rightarrow> u64 \<Rightarrow> u64 \<Rightarrow> int \<Rightarrow> int kop" where
  "pipewrite c pi addr n =
    bindK (curproc c) (\<lambda>pr.
    thenK (acquire_pi c pi)
    (bindK (pipewrite_loop c pi pr addr 0 (nat n)) (\<lambda>r.
      case r of None \<Rightarrow> retK (- 1)
      | Some i \<Rightarrow> thenK (wakeupK c (ChanPipeRead pi)) (thenK (release_pi c pi) (retK (int i))))))"

fun piperead_loop :: "nat \<Rightarrow> u64 \<Rightarrow> nat \<Rightarrow> u64 \<Rightarrow> nat \<Rightarrow> nat \<Rightarrow> nat kop" where
  "piperead_loop c pi pr addr i 0 = retK i"
| "piperead_loop c pi pr addr i (Suc n) =
    bindK (pipeK pi id) (\<lambda>p.
      if pipe_empty p then retK i
      else thenK (setpipeK pi (\<lambda>p. snd (pipe_get p)))
          (bindK (procK pr p_pagetable) (\<lambda>pt.
           bindK (vmvK (copyout c pt (addr + of_nat i) [fst (pipe_get p)])) (\<lambda>r.
             if r = - 1 then retK i else piperead_loop c pi pr addr (Suc i) n))))"

definition piperead :: "nat \<Rightarrow> u64 \<Rightarrow> u64 \<Rightarrow> int \<Rightarrow> int kop" where
  "piperead c pi addr n =
    bindK (curproc c) (\<lambda>pr.
    thenK (acquire_pi c pi)
    (bindK (pipeK pi id) (\<lambda>p.
      if pipe_empty p \<and> pi_writeopen p then
        bindK (ptvK (killed c pr)) (\<lambda>k. if k \<noteq> 0 then thenK (release_pi c pi) (retK (- 1)) else sleepK)
      else bindK (piperead_loop c pi pr addr 0 (nat n)) (\<lambda>i.
           thenK (wakeupK c (ChanPipeWrite pi)) (thenK (release_pi c pi) (retK (int i)))))))"

section \<open>Closing, reading and writing files\<close>

definition fileclose :: "nat \<Rightarrow> nat \<Rightarrow> unit kop" where
  "fileclose c f =
    thenK (acquire_ft c) (bindK (fileK f id) (\<lambda>ff.
      if f_ref ff < 1 then panicK ''fileclose''
      else if f_ref ff - 1 > 0 then thenK (setfileK f (\<lambda>x. x\<lparr>f_ref := f_ref x - 1\<rparr>)) (release_ft c)
      else thenK (setfileK f (\<lambda>x. x\<lparr>f_ref := 0, f_type := FD_NONE\<rparr>))
          (thenK (release_ft c)
            (case f_type ff of
               FD_PIPE \<Rightarrow> pipeclose c (f_pipe ff) (f_writable ff)
             | FD_NONE \<Rightarrow> retK ()
             | _ \<Rightarrow> thenK (begin_op c) (bindK (derefK NINODE (f_ip ff)) (\<lambda>ip. thenK (iput c ip) (end_op c)))))))"

definition pipealloc :: "nat \<Rightarrow> (nat \<times> nat) option kop" where
  "pipealloc c =
    bindK (filealloc c) (\<lambda>r0.
      case r0 of None \<Rightarrow> retK None
      | Some f0 \<Rightarrow>
        bindK (filealloc c) (\<lambda>r1.
          case r1 of None \<Rightarrow> thenK (fileclose c f0) (retK None)
          | Some f1 \<Rightarrow>
            bindK (vmvK (kalloc_vm c)) (\<lambda>pi.
              if pi = 0 then thenK (fileclose c f0) (thenK (fileclose c f1) (retK None))
              else thenK (setpipeK pi (\<lambda>p. p\<lparr>pi_readopen := True, pi_writeopen := True, pi_nwrite := 0, pi_nread := 0,
                                             pi_lock := initlock ''pipe''\<rparr>))
                  (thenK (setfileK f0 (\<lambda>x. x\<lparr>f_type := FD_PIPE, f_readable := True, f_writable := False, f_pipe := pi\<rparr>))
                  (thenK (setfileK f1 (\<lambda>x. x\<lparr>f_type := FD_PIPE, f_readable := False, f_writable := True, f_pipe := pi\<rparr>))
                  (retK (Some (f0, f1))))))))"

text \<open>The bytes of a \<open>struct stat\<close>: \<open>dev\<close>, \<open>ino\<close>, \<open>type\<close>, \<open>nlink\<close>, four bytes of padding, \<open>size\<close>.\<close>

definition stat_bytes :: "stat \<Rightarrow> u8 list" where
  "stat_bytes st = le_bytes 4 (st_dev st) @ le_bytes 4 (st_ino st) @ le_bytes 2 (of_short (st_type st)) @
     le_bytes 2 (of_short (st_nlink st)) @ replicate 4 0 @ le_bytes 8 (unat (st_size st))"

definition filestat :: "nat \<Rightarrow> nat \<Rightarrow> u64 \<Rightarrow> int kop" where
  "filestat c f addr =
    bindK (curproc c) (\<lambda>p.
    bindK (fileK f id) (\<lambda>ff.
      if f_type ff = FD_INODE \<or> f_type ff = FD_DEVICE then
        thenK (ilock c (f_ip ff))
        (bindK (derefK NINODE (f_ip ff)) (\<lambda>ip.
         bindK (stati ip) (\<lambda>st.
         thenK (iunlock c (f_ip ff))
         (bindK (procK p p_pagetable) (\<lambda>pt.
          bindK (vmvK (copyout c pt addr (stat_bytes st))) (\<lambda>r.
            retK (if r < 0 then - 1 else 0)))))))
      else retK (- 1)))"

definition devsw_ready :: "int \<Rightarrow> kernel \<Rightarrow> bool" where
  "devsw_ready mj s \<longleftrightarrow> 0 \<le> mj \<and> mj < int NDEV \<and> k_devsw s (nat mj) \<noteq> None"

definition fileread :: "nat \<Rightarrow> nat \<Rightarrow> u64 \<Rightarrow> int \<Rightarrow> int kop" where
  "fileread c f addr n =
    bindK (fileK f id) (\<lambda>ff.
      if \<not> f_readable ff then retK (- 1)
      else case f_type ff of
        FD_PIPE \<Rightarrow> piperead c (f_pipe ff) addr n
      | FD_DEVICE \<Rightarrow> bindK (getK (devsw_ready (f_major ff))) (\<lambda>ok.
          if ok then consoleread c (ToUser addr) n else retK (- 1))
      | FD_INODE \<Rightarrow>
          thenK (ilock c (f_ip ff))
          (bindK (derefK NINODE (f_ip ff)) (\<lambda>ip.
           bindK (readi c ip (ToUser addr) (f_off ff) (of_int n)) (\<lambda>(r, _).
           thenK (whenK (r > 0) (setfileK f (\<lambda>x. x\<lparr>f_off := f_off x + of_int r\<rparr>)))
           (thenK (iunlock c (f_ip ff)) (retK r)))))
      | FD_NONE \<Rightarrow> panicK ''fileread'')"

text \<open>The loop of \<open>filewrite\<close> over chunks of \<open>max = ((MAXOPBLOCKS-1-1-2) / 2) * BSIZE\<close> bytes; it returns \<open>i\<close>.\<close>

abbreviation WRITE_MAX :: int where "WRITE_MAX \<equiv> 3072"

fun filewrite_loop :: "nat \<Rightarrow> nat \<Rightarrow> nat \<Rightarrow> u64 \<Rightarrow> int \<Rightarrow> int \<Rightarrow> int kop" where
  "filewrite_loop c 0 f addr n i = sleepK"
| "filewrite_loop c (Suc fuel) f addr n i =
    (if i < n then
       let n1 = (if n - i > WRITE_MAX then WRITE_MAX else n - i)
       in thenK (begin_op c)
         (bindK (fileK f id) (\<lambda>ff.
          thenK (ilock c (f_ip ff))
          (bindK (derefK NINODE (f_ip ff)) (\<lambda>ip.
           bindK (writei c ip (FromUser (addr + of_int i)) (f_off ff) (of_int n1)) (\<lambda>r.
           thenK (whenK (r > 0) (setfileK f (\<lambda>x. x\<lparr>f_off := f_off x + of_int r\<rparr>)))
           (thenK (iunlock c (f_ip ff))
           (thenK (end_op c)
             (if r \<noteq> n1 then retK i else filewrite_loop c fuel f addr n (i + r)))))))))
     else retK i)"

definition filewrite :: "nat \<Rightarrow> nat \<Rightarrow> u64 \<Rightarrow> int \<Rightarrow> int kop" where
  "filewrite c f addr n =
    bindK (fileK f id) (\<lambda>ff.
      if \<not> f_writable ff then retK (- 1)
      else case f_type ff of
        FD_PIPE \<Rightarrow> pipewrite c (f_pipe ff) addr n
      | FD_DEVICE \<Rightarrow> bindK (getK (devsw_ready (f_major ff))) (\<lambda>ok.
          if ok then consolewrite c (FromUser addr) n else retK (- 1))
      | FD_INODE \<Rightarrow> bindK (filewrite_loop c (nat n + 1) f addr n 0) (\<lambda>i. retK (if i = n then n else - 1))
      | FD_NONE \<Rightarrow> panicK ''filewrite'')"

end
