(* ===== verification/Proc_Ops.thy ===== *)
theory Proc_Ops
  imports File
begin

text \<open>
  The life of a process (\<open>kernel/proc.c\<close>): allocation, page tables, \<open>fork\<close>, \<open>clone\<close>, \<open>exit\<close>, \<open>wait\<close>, and the
  kernel page table of \<open>kernel/vm.c\<close>. An operation that gives up the CPU ends where it enters the
  scheduler: \<open>exit\<close> returns the state in which \<open>sched\<close> is called.
\<close>

section \<open>Trapframes\<close>

text \<open>The fields of \<open>struct trapframe\<close> that the kernel uses, by their offsets in the trapframe page.\<close>

abbreviation TF_kernel_satp :: nat where "TF_kernel_satp \<equiv> 0"
abbreviation TF_kernel_sp :: nat where "TF_kernel_sp \<equiv> 8"
abbreviation TF_kernel_trap :: nat where "TF_kernel_trap \<equiv> 16"
abbreviation TF_epc :: nat where "TF_epc \<equiv> 24"
abbreviation TF_kernel_hartid :: nat where "TF_kernel_hartid \<equiv> 32"
abbreviation TF_sp :: nat where "TF_sp \<equiv> 48"
abbreviation TF_a0 :: nat where "TF_a0 \<equiv> 112"
abbreviation TF_a1 :: nat where "TF_a1 \<equiv> 120"
abbreviation TF_a2 :: nat where "TF_a2 \<equiv> 128"
abbreviation TF_a7 :: nat where "TF_a7 \<equiv> 168"
abbreviation TF_SIZE :: nat where "TF_SIZE \<equiv> 288"

definition tfK :: "nat \<Rightarrow> nat \<Rightarrow> u64 kop" where
  "tfK p off = bindK (procK p p_trapframe) (\<lambda>tf. if tf = 0 then faultK else getK (\<lambda>s. ld64 (vm_mem (k_vm s)) (tf + of_nat off)))"

definition settfK :: "nat \<Rightarrow> nat \<Rightarrow> u64 \<Rightarrow> unit kop" where
  "settfK p off v = bindK (procK p p_trapframe) (\<lambda>tf.
    if tf = 0 then faultK else modK (\<lambda>s. s\<lparr>k_vm := (k_vm s)\<lparr>vm_mem := st64 (tf + of_nat off) v (vm_mem (k_vm s))\<rparr>\<rparr>))"

definition readticks :: "nat \<Rightarrow> u32 kop" where
  "readticks c =
    thenK (acquireK c k_tickslock k_tickslock_update)
    (bindK (getK k_ticks) (\<lambda>x. thenK (releaseK c k_tickslock k_tickslock_update) (retK x)))"

definition acquire_wait :: "nat \<Rightarrow> unit kop" where
  "acquire_wait c = acquireK c (\<lambda>s. wait_lock (k_pt s)) (\<lambda>f s. s\<lparr>k_pt := wait_lock_update f (k_pt s)\<rparr>)"

definition release_wait :: "nat \<Rightarrow> unit kop" where
  "release_wait c = releaseK c (\<lambda>s. wait_lock (k_pt s)) (\<lambda>f s. s\<lparr>k_pt := wait_lock_update f (k_pt s)\<rparr>)"

section \<open>The kernel page table\<close>

definition proc_mapstacks :: "nat \<Rightarrow> u64 \<Rightarrow> unit kop" where
  "proc_mapstacks c kpgtbl =
    forK [0..<NPROC] (\<lambda>i. bindK (vmvK (kalloc_vm c)) (\<lambda>pa.
      if pa = 0 then panicK ''kalloc''
      else vmK (kvmmap c kpgtbl (KSTACK i) pa (of_nat PGSIZE) (PTE_R OR PTE_W))))"

definition kvmmake :: "nat \<Rightarrow> u64 kop" where
  "kvmmake c =
    bindK (getK k_links) (\<lambda>ln.
    bindK (vmvK (kalloc_vm c)) (\<lambda>kpgtbl.
      if kpgtbl = 0 then faultK
      else thenK (modK (\<lambda>s. s\<lparr>k_vm := zero_page kpgtbl (k_vm s)\<rparr>))
          (thenK (vmK (kvmmap c kpgtbl 0x10000000 0x10000000 (of_nat PGSIZE) (PTE_R OR PTE_W)))
          (thenK (vmK (kvmmap c kpgtbl 0x10001000 0x10001000 (of_nat PGSIZE) (PTE_R OR PTE_W)))
          (thenK (vmK (kvmmap c kpgtbl 0x0c000000 0x0c000000 0x400000 (PTE_R OR PTE_W)))
          (thenK (vmK (kvmmap c kpgtbl (of_nat KERNBASE) (of_nat KERNBASE) (a_etext ln - of_nat KERNBASE) (PTE_R OR PTE_X)))
          (thenK (vmK (kvmmap c kpgtbl (a_etext ln) (a_etext ln) (of_nat PHYSTOP - a_etext ln) (PTE_R OR PTE_W)))
          (thenK (vmK (kvmmap c kpgtbl TRAMPOLINE (a_trampoline ln) (of_nat PGSIZE) (PTE_R OR PTE_X)))
          (thenK (proc_mapstacks c kpgtbl) (retK kpgtbl))))))))))"

definition kvminit :: "nat \<Rightarrow> unit kop" where
  "kvminit c = bindK (kvmmake c) (\<lambda>kp. modK (k_kpgtbl_update (\<lambda>_. kp)))"

section \<open>Page tables of processes\<close>

definition proc_pagetable :: "nat \<Rightarrow> nat \<Rightarrow> u64 kop" where
  "proc_pagetable c p =
    bindK (getK k_links) (\<lambda>ln.
    bindK (procK p p_trapframe) (\<lambda>tf.
    bindK (vmvK (uvmcreate c)) (\<lambda>pagetable.
      if pagetable = 0 then retK 0
      else bindK (vmvK (mappages c pagetable TRAMPOLINE (of_nat PGSIZE) (a_trampoline ln) (PTE_R OR PTE_X))) (\<lambda>r.
        if r < 0 then thenK (vmK (uvmfree c pagetable 0)) (retK 0)
        else bindK (vmvK (mappages c pagetable TRAPFRAME (of_nat PGSIZE) tf (PTE_R OR PTE_W))) (\<lambda>r.
          if r < 0 then
            thenK (vmK (uvmunmap c pagetable TRAMPOLINE 1 False)) (thenK (vmK (uvmfree c pagetable 0)) (retK 0))
          else retK pagetable)))))"

definition proc_freepagetable :: "nat \<Rightarrow> u64 \<Rightarrow> u64 \<Rightarrow> unit kop" where
  "proc_freepagetable c pagetable sz =
    thenK (vmK (uvmunmap c pagetable TRAMPOLINE 1 False))
    (thenK (vmK (uvmunmap c pagetable TRAPFRAME 1 False)) (vmK (uvmfree c pagetable sz)))"

section \<open>Allocating and freeing entries\<close>

definition freeproc :: "nat \<Rightarrow> nat \<Rightarrow> unit kop" where
  "freeproc c p =
    bindK (procK p id) (\<lambda>x.
    thenK (whenK (p_trapframe x \<noteq> 0) (vmK (kfree_vm c (p_trapframe x))))
    (thenK (setprocK p (p_trapframe_update (\<lambda>_. 0)))
    (thenK (whenK (p_pagetable x \<noteq> 0) (proc_freepagetable c (p_pagetable x) (p_sz x)))
    (setprocK p (\<lambda>x. x\<lparr>p_pagetable := 0, p_sz := 0, p_pid := 0, p_parent := None, p_name := (p_name x)[0 := 0], p_chan := None,
       p_killed := 0, p_xstate := 0, p_state := UNUSED,
       p_pinfo := (p_pinfo x)\<lparr>pi_state := UNUSED, pi_pid := 0, pi_parent_pid := 0, pi_sz := 0, pi_cntOfile := 0,
         pi_name := (pi_name (p_pinfo x))[0 := 0], pi_startTime := 0, pi_lastStartTime := 0, pi_cntChange := 0, pi_totalTime := 0\<rparr>\<rparr>)))))"

text \<open>The scan of \<open>allocproc\<close>: it returns with the lock of the entry it has found held.\<close>

primrec allocproc_scan :: "nat \<Rightarrow> nat list \<Rightarrow> nat option kop" where
  "allocproc_scan c [] = retK None"
| "allocproc_scan c (p # ps) =
    thenK (ptK (acquire_proc c p)) (bindK (procK p p_state) (\<lambda>st.
      if st = UNUSED then retK (Some p) else thenK (ptK (release_proc c p)) (allocproc_scan c ps)))"

text \<open>Both pages of a trapframe come from \<open>buddy_alloc(1)\<close>, which is what \<open>kalloc\<close> calls.\<close>

definition allocproc :: "nat \<Rightarrow> nat option kop" where
  "allocproc c =
    bindK (allocproc_scan c [0..<NPROC]) (\<lambda>r.
      case r of None \<Rightarrow> retK None
      | Some p \<Rightarrow>
        bindK (ptvK (allocpid c)) (\<lambda>pid.
        thenK (setprocK p (\<lambda>x. x\<lparr>p_pid := pid, p_state := USED\<rparr>))
        (bindK (vmvK (kalloc_vm c)) (\<lambda>tf.
         thenK (setprocK p (p_trapframe_update (\<lambda>_. tf)))
          (if tf = 0 then thenK (freeproc c p) (thenK (ptK (release_proc c p)) (retK None))
           else bindK (proc_pagetable c p) (\<lambda>pt.
             thenK (setprocK p (p_pagetable_update (\<lambda>_. pt)))
               (if pt = 0 then thenK (freeproc c p) (thenK (ptK (release_proc c p)) (retK None))
                else bindK (getK k_links) (\<lambda>ln.
                  thenK (setprocK p (\<lambda>x. x\<lparr>p_context := \<lparr>ctx_ra = a_forkret ln, ctx_sp = p_kstack x + of_nat PGSIZE,
                                              ctx_saved = replicate 12 0\<rparr>\<rparr>))
                        (retK (Some p))))))))))"

section \<open>The first process\<close>

definition initcode :: "u8 list" where
  "initcode = [
     0x17, 0x05, 0x00, 0x00, 0x13, 0x05, 0x45, 0x02,
     0x97, 0x05, 0x00, 0x00, 0x93, 0x85, 0x35, 0x02,
     0x93, 0x08, 0x70, 0x00, 0x73, 0x00, 0x00, 0x00,
     0x93, 0x08, 0x20, 0x00, 0x73, 0x00, 0x00, 0x00,
     0xef, 0xf0, 0x9f, 0xff, 0x2f, 0x69, 0x6e, 0x69,
     0x74, 0x00, 0x00, 0x24, 0x00, 0x00, 0x00, 0x00,
     0x00, 0x00, 0x00, 0x00]"

abbreviation initcode_name :: "u8 list" where
  "initcode_name \<equiv> [105, 110, 105, 116, 99, 111, 100, 101, 0]"

definition userinit :: "nat \<Rightarrow> unit kop" where
  "userinit c =
    bindK (allocproc c) (\<lambda>r.
    thenK (modK (\<lambda>s. s\<lparr>k_pt := (k_pt s)\<lparr>initproc := r\<rparr>\<rparr>))
    (bindK (derefK NPROC r) (\<lambda>p.
     bindK (procK p p_pagetable) (\<lambda>pt.
     thenK (vmK (uvmfirst c pt initcode))
     (thenK (setprocK p (p_sz_update (\<lambda>_. of_nat PGSIZE)))
     (thenK (settfK p TF_epc 0)
     (thenK (settfK p TF_sp (of_nat PGSIZE))
     (thenK (setprocK p (\<lambda>x. x\<lparr>p_name := safestrcpy_list 16 initcode_name (p_name x)\<rparr>))
     (bindK (namei c [SLASH]) (\<lambda>cwd.
      thenK (setprocK p (\<lambda>x. x\<lparr>p_cwd := cwd, p_state := RUNNABLE\<rparr>))
      (bindK (readticks c) (\<lambda>xticks.
       thenK (setprocK p (\<lambda>x. x\<lparr>p_pinfo := (p_pinfo x)\<lparr>pi_parent_pid := - 1, pi_pid := p_pid x, pi_startTime := xticks\<rparr>\<rparr>))
       (thenK (ptK (userinit_ns p)) (ptK (release_proc c p)))))))))))))))"

section \<open>\<open>growproc\<close>, \<open>fork\<close> and \<open>clone\<close>\<close>

definition growproc :: "nat \<Rightarrow> int \<Rightarrow> int kop" where
  "growproc c n =
    bindK (curproc c) (\<lambda>p.
    bindK (procK p id) (\<lambda>x.
      if n > 0 then
        bindK (vmvK (uvmalloc c (p_pagetable x) (p_sz x) (p_sz x + of_int n) PTE_W)) (\<lambda>sz.
          if sz = 0 then retK (- 1) else thenK (setprocK p (p_sz_update (\<lambda>_. sz))) (retK 0))
      else if n < 0 then
        bindK (vmvK (uvmdealloc c (p_pagetable x) (p_sz x) (p_sz x + of_int n))) (\<lambda>sz.
          thenK (setprocK p (p_sz_update (\<lambda>_. sz))) (retK 0))
      else retK 0))"

text \<open>What \<open>fork\<close> and \<open>clone\<close> do before they come to the namespaces, and after; \<open>ns\<close> is what they do in between.\<close>

definition fork_copy :: "nat \<Rightarrow> nat \<Rightarrow> nat \<Rightarrow> unit kop" where
  "fork_copy c p np =
    bindK (procK p id) (\<lambda>x.
    thenK (setprocK np (p_sz_update (\<lambda>_. p_sz x)))
    (bindK (procK np p_trapframe) (\<lambda>ntf.
     thenK (modK (\<lambda>s. s\<lparr>k_vm := (k_vm s)\<lparr>vm_mem := store_bytes ntf (load_bytes (vm_mem (k_vm s)) (p_trapframe x) TF_SIZE) (vm_mem (k_vm s))\<rparr>\<rparr>))
     (thenK (settfK np TF_a0 0)
     (thenK (forK [0..<NOFILE] (\<lambda>i. case p_ofile x ! i of None \<Rightarrow> retK ()
         | Some f \<Rightarrow> bindK (filedup c f) (\<lambda>f'. setprocK np (\<lambda>y. y\<lparr>p_ofile := (p_ofile y)[i := Some f']\<rparr>))))
     (thenK (bindK (derefK NINODE (p_cwd x)) (\<lambda>ip. bindK (idup c ip) (\<lambda>ip'. setprocK np (p_cwd_update (\<lambda>_. Some ip')))))
     (setprocK np (\<lambda>y. y\<lparr>p_name := safestrcpy_list 16 (p_name x) (p_name y)\<rparr>))))))))"

definition fork_finish :: "nat \<Rightarrow> nat \<Rightarrow> nat \<Rightarrow> int kop" where
  "fork_finish c p np =
    bindK (procK np p_pid) (\<lambda>pid.
    bindK (readticks c) (\<lambda>xticks.
    bindK (procK p p_pid) (\<lambda>ppid.
    thenK (setprocK np (\<lambda>y. y\<lparr>p_pinfo := (p_pinfo y)\<lparr>pi_parent_pid := ppid, pi_pid := p_pid y, pi_startTime := xticks\<rparr>\<rparr>))
    (thenK (ptK (release_proc c np))
    (thenK (acquire_wait c)
    (thenK (setprocK np (p_parent_update (\<lambda>_. Some p)))
    (thenK (release_wait c)
    (thenK (ptK (acquire_proc c np))
    (thenK (setprocK np (p_state_update (\<lambda>_. RUNNABLE)))
    (thenK (ptK (release_proc c np)) (retK pid)))))))))))"

definition fork_with :: "nat \<Rightarrow> (nat \<Rightarrow> nat \<Rightarrow> unit kop) \<Rightarrow> int kop" where
  "fork_with c ns =
    bindK (curproc c) (\<lambda>p.
    bindK (allocproc c) (\<lambda>r.
      case r of None \<Rightarrow> retK (- 1)
      | Some np \<Rightarrow>
        bindK (procK p id) (\<lambda>x.
        bindK (procK np p_pagetable) (\<lambda>npt.
        bindK (vmvK (uvmcopy c (p_pagetable x) npt (p_sz x))) (\<lambda>r.
          if r < 0 then thenK (freeproc c np) (thenK (ptK (release_proc c np)) (retK (- 1)))
          else thenK (fork_copy c p np) (thenK (ns p np) (fork_finish c p np)))))))"

definition fork :: "nat \<Rightarrow> int kop" where
  "fork c = fork_with c (\<lambda>p np. ptK (fork_ns (Some p) np))"

definition clone :: "nat \<Rightarrow> int kop" where
  "clone c = fork_with c (\<lambda>p np. ptK (clone_ns (Some p) np))"

section \<open>The scheduler\<close>

text \<open>
  \<open>sched\<close> up to the switch: its checks of the lock and of the state of the process. That interrupts are off and that no
  other lock is held is the business of \<open>push_off\<close> and \<open>pop_off\<close>.
\<close>

definition sched_enter :: "nat \<Rightarrow> unit kop" where
  "sched_enter c =
    bindK (curproc c) (\<lambda>p. bindK (procK p id) (\<lambda>x.
      if \<not> holding c (p_lock x) then panicK ''sched p->lock''
      else if p_state x = RUNNING then panicK ''sched running''
      else retK ()))"

text \<open>What \<open>sched\<close> does when the process is switched to again.\<close>

definition sched_resume :: "nat \<Rightarrow> unit kop" where
  "sched_resume c =
    bindK (curproc c) (\<lambda>p.
    bindK (readticks c) (\<lambda>xticks.
    setprocK p (\<lambda>x. x\<lparr>p_pinfo := (p_pinfo x)\<lparr>pi_totalTime := pi_totalTime (p_pinfo x) + (xticks - pi_lastStartTime (p_pinfo x)),
                                            pi_lastStartTime := 0\<rparr>\<rparr>)))"

text \<open>One entry of the scheduler's loop, up to the switch to the process, if it switches; and from there on.\<close>

definition scheduler_pick :: "nat \<Rightarrow> nat \<Rightarrow> u32 option kop" where
  "scheduler_pick c p =
    thenK (ptK (acquire_proc c p)) (bindK (procK p p_state) (\<lambda>st.
      if st = RUNNABLE then
        thenK (setprocK p (p_state_update (\<lambda>_. RUNNING)))
        (thenK (modK (\<lambda>s. s\<lparr>k_pt := (k_pt s)\<lparr>cpu_proc := (cpu_proc (k_pt s))(c := Some p)\<rparr>\<rparr>))
        (bindK (readticks c) (\<lambda>xticks.
         thenK (setprocK p (\<lambda>x. x\<lparr>p_pinfo := (p_pinfo x)\<lparr>pi_cntChange := pi_cntChange (p_pinfo x) + 1\<rparr>\<rparr>)) (retK (Some xticks)))))
      else thenK (ptK (release_proc c p)) (retK None)))"

definition scheduler_back :: "nat \<Rightarrow> nat \<Rightarrow> u32 \<Rightarrow> unit kop" where
  "scheduler_back c p xticks =
    thenK (setprocK p (\<lambda>x. x\<lparr>p_pinfo := (p_pinfo x)\<lparr>pi_lastStartTime := xticks\<rparr>\<rparr>))
    (thenK (modK (\<lambda>s. s\<lparr>k_pt := (k_pt s)\<lparr>cpu_proc := (cpu_proc (k_pt s))(c := None)\<rparr>\<rparr>))
    (ptK (release_proc c p)))"

definition yield_enter :: "nat \<Rightarrow> unit kop" where
  "yield_enter c =
    bindK (curproc c) (\<lambda>p.
    thenK (ptK (acquire_proc c p))
    (thenK (setprocK p (p_state_update (\<lambda>_. RUNNABLE))) (sched_enter c)))"

definition yield_resume :: "nat \<Rightarrow> unit kop" where
  "yield_resume c = bindK (curproc c) (\<lambda>p. thenK (sched_resume c) (ptK (release_proc c p)))"

definition sleep_enter :: "nat \<Rightarrow> chan \<Rightarrow> unit kop \<Rightarrow> unit kop" where
  "sleep_enter c ch release_lk =
    bindK (curproc c) (\<lambda>p.
    thenK (ptK (acquire_proc c p))
    (thenK release_lk
    (thenK (setprocK p (\<lambda>x. x\<lparr>p_chan := Some ch, p_state := SLEEPING\<rparr>)) (sched_enter c))))"

definition sleep_resume :: "nat \<Rightarrow> unit kop \<Rightarrow> unit kop" where
  "sleep_resume c acquire_lk =
    bindK (curproc c) (\<lambda>p.
    thenK (sched_resume c)
    (thenK (setprocK p (p_chan_update (\<lambda>_. None)))
    (thenK (ptK (release_proc c p)) acquire_lk)))"

definition forkret :: "nat \<Rightarrow> unit kop \<Rightarrow> unit kop" where
  "forkret c usertrapret =
    bindK (curproc c) (\<lambda>p.
    thenK (ptK (release_proc c p))
    (bindK (getK k_first) (\<lambda>first.
     thenK (whenK first (thenK (modK (k_first_update (\<lambda>_. False))) (fsinit c ROOTDEV))) usertrapret)))"

section \<open>\<open>exit\<close> and \<open>wait\<close>\<close>

definition exit_files :: "nat \<Rightarrow> nat \<Rightarrow> unit kop" where
  "exit_files c p =
    forK [0..<NOFILE] (\<lambda>fd. bindK (procK p (\<lambda>x. p_ofile x ! fd)) (\<lambda>r.
      case r of None \<Rightarrow> retK ()
      | Some f \<Rightarrow> thenK (fileclose c f) (setprocK p (\<lambda>x. x\<lparr>p_ofile := (p_ofile x)[fd := None]\<rparr>))))"

definition exit :: "nat \<Rightarrow> int \<Rightarrow> unit kop" where
  "exit c status =
    bindK (curproc c) (\<lambda>p.
    bindK (getK (\<lambda>s. initproc (k_pt s))) (\<lambda>ini.
      if Some p = ini then panicK ''init exiting''
      else thenK (exit_files c p)
          (thenK (begin_op c)
          (thenK (bindK (procK p p_cwd) (\<lambda>cwd. bindK (derefK NINODE cwd) (iput c)))
          (thenK (end_op c)
          (thenK (setprocK p (p_cwd_update (\<lambda>_. None)))
          (thenK (acquire_wait c)
          (thenK (ptK (exit_ns (Some p)))
          (thenK (ptK (reparent c (Some p)))
          (thenK (bindK (procK p p_parent) (\<lambda>q. ptK (wakeup c (map_option ChanProc q))))
          (thenK (ptK (acquire_proc c p))
          (thenK (setprocK p (\<lambda>x. x\<lparr>p_xstate := status, p_state := ZOMBIE\<rparr>))
          (thenK (release_wait c) (sched_enter c))))))))))))))"

text \<open>One pass of \<open>wait\<close> over the table: the outcome of the call, or whether it has seen a child.\<close>

datatype wait_result = WaitDone int | WaitKids bool

primrec wait_scan :: "nat \<Rightarrow> nat \<Rightarrow> u64 \<Rightarrow> bool \<Rightarrow> nat list \<Rightarrow> wait_result kop" where
  "wait_scan c p addr kids [] = retK (WaitKids kids)"
| "wait_scan c p addr kids (pp # rest) =
    bindK (procK pp p_parent) (\<lambda>par.
      if par = Some p then
        thenK (ptK (acquire_proc c pp))
        (bindK (procK pp id) (\<lambda>x.
          if p_state x = ZOMBIE then
            bindK (procK p p_pagetable) (\<lambda>pt.
            bindK (if addr \<noteq> 0 then vmvK (copyout c pt addr (le_bytes 4 (of_int32 (p_xstate x)))) else retK 0) (\<lambda>r.
              if r < 0 then thenK (ptK (release_proc c pp)) (thenK (release_wait c) (retK (WaitDone (- 1))))
              else thenK (freeproc c pp)
                  (thenK (ptK (release_proc c pp)) (thenK (release_wait c) (retK (WaitDone (p_pid x)))))))
          else thenK (ptK (release_proc c pp)) (wait_scan c p addr True rest)))
      else wait_scan c p addr kids rest)"

definition wait :: "nat \<Rightarrow> u64 \<Rightarrow> int kop" where
  "wait c addr =
    bindK (curproc c) (\<lambda>p.
    thenK (acquire_wait c)
    (bindK (wait_scan c p addr False [0..<NPROC]) (\<lambda>r.
      case r of
        WaitDone pid \<Rightarrow> retK pid
      | WaitKids kids \<Rightarrow>
          bindK (if kids then ptvK (killed c p) else retK 1) (\<lambda>k.
            if k \<noteq> 0 then thenK (release_wait c) (retK (- 1)) else sleepK))))"

end
