(* ===== verification/Proc_Ps.thy ===== *)
theory Proc_Ps
  imports Proc_Ops
begin

text \<open>
  The process-inspection calls of \<open>kernel/proc.c\<close>: \<open>ps_list\<close>, \<open>ps_info\<close>, the calls that copy page tables and
  memory of another process, and \<open>ps_sleep_info\<close>. The structures they hand to user space are written out as the
  bytes the compiler lays them out as.
\<close>

section \<open>Structures as bytes\<close>

definition state_num :: "procstate \<Rightarrow> nat" where
  "state_num st = (case st of UNUSED \<Rightarrow> 0 | USED \<Rightarrow> 1 | SLEEPING \<Rightarrow> 2 | RUNNABLE \<Rightarrow> 3 | RUNNING \<Rightarrow> 4 | ZOMBIE \<Rightarrow> 5)"

definition pinfo_bytes :: "proccess_info \<Rightarrow> u8 list" where
  "pinfo_bytes pi =
    le_bytes 4 (state_num (pi_state pi)) @ le_bytes 4 (of_int32 (pi_pid pi)) @ le_bytes 4 (of_int32 (pi_parent_pid pi)) @ replicate 4 0 @
    le_bytes 8 (unat (pi_sz pi)) @ le_bytes 4 (of_int32 (pi_cntOfile pi)) @ pi_name pi @ le_bytes 4 (unat (pi_startTime pi)) @
    le_bytes 4 (unat (pi_lastStartTime pi)) @ le_bytes 4 (unat (pi_cntChange pi)) @ le_bytes 4 (unat (pi_totalTime pi)) @ replicate 4 0"

record write_info =
  wi_state :: procstate
  wi_a7 :: u32
  wi_file_ptr :: u64
  wi_str_ptr :: u64
  wi_buf_size :: u32

definition write_info_bytes :: "write_info \<Rightarrow> u8 list" where
  "write_info_bytes w = le_bytes 4 (state_num (wi_state w)) @ le_bytes 4 (unat (wi_a7 w)) @ le_bytes 8 (unat (wi_file_ptr w)) @
    le_bytes 8 (unat (wi_str_ptr w)) @ le_bytes 4 (unat (wi_buf_size w)) @ replicate 4 0"

section \<open>\<open>ps_list\<close> and \<open>ps_info\<close>\<close>

text \<open>The first loop of \<open>ps_list\<close> only counts; the count is not used.\<close>

primrec ps_list_loop :: "nat \<Rightarrow> nat \<Rightarrow> int \<Rightarrow> u64 \<Rightarrow> nat list \<Rightarrow> int \<Rightarrow> int kop" where
  "ps_list_loop c mp limit pids [] cnt = retK cnt"
| "ps_list_loop c mp limit pids (p # ps) cnt =
    thenK (ptK (acquire_proc c p))
    (bindK (procK p id) (\<lambda>x.
     bindK (procK mp id) (\<lambda>m.
     bindK (if p_state x \<noteq> UNUSED then ptrK (is_heir (p_node x) (p_node m)) else retK False) (\<lambda>h.
     bindK (if h then
              bindK (ptrK (\<lambda>t. bind_res (get_ns t (p_node m)) (\<lambda>n. ns_pid x (ns_depth n)))) (\<lambda>pid.
              bindK (vmvK (copyout c (p_pagetable m) (pids + of_int (4 * cnt)) (le_bytes 4 (of_int32 pid)))) (\<lambda>_. retK (cnt + 1)))
            else retK cnt) (\<lambda>cnt'.
     thenK (ptK (release_proc c p))
       (if cnt' = limit then retK cnt' else ps_list_loop c mp limit pids ps cnt'))))))"

definition ps_list :: "nat \<Rightarrow> int \<Rightarrow> u64 \<Rightarrow> int kop" where
  "ps_list c limit pids =
    bindK (curproc c) (\<lambda>mp.
    thenK (forK [0..<NPROC] (\<lambda>p. thenK (ptK (acquire_proc c p)) (ptK (release_proc c p))))
    (ps_list_loop c mp limit pids [0..<NPROC] 0))"

definition find_procK :: "nat \<Rightarrow> int \<Rightarrow> nat \<Rightarrow> nat option kop" where
  "find_procK c pid myp = bindK (procK myp p_node) (\<lambda>node. ptvK (find_proc c pid node))"

definition ps_info :: "nat \<Rightarrow> int \<Rightarrow> u64 \<Rightarrow> int kop" where
  "ps_info c pid pinfoAddr =
    bindK (curproc c) (\<lambda>myp.
    bindK (find_procK c pid myp) (\<lambda>r.
    bindK (derefK NPROC r) (\<lambda>p.
    bindK (procK p id) (\<lambda>x.
    bindK (procK myp id) (\<lambda>m.
    bindK (ptrK (\<lambda>t. bind_res (get_ns t (p_node m)) (\<lambda>n. ns_pid x (ns_depth n)))) (\<lambda>pp.
      if pp \<noteq> pid then thenK (ptK (release_proc c p)) (retK (- 1))
      else thenK (setprocK p (\<lambda>x. x\<lparr>p_pinfo := (p_pinfo x)\<lparr>pi_sz := p_sz x, pi_state := p_state x,
                    pi_cntOfile := int (length (filter (\<lambda>f. f \<noteq> None) (p_ofile x))), pi_name := p_name x\<rparr>\<rparr>))
          (bindK (ptrK (get_pid (Some p) (p_node m))) (\<lambda>pid'.
           bindK (ptrK (get_ppid (Some p) (p_node m))) (\<lambda>ppid'.
           thenK (setprocK p (\<lambda>x. x\<lparr>p_pinfo := (p_pinfo x)\<lparr>pi_pid := pid', pi_parent_pid := ppid'\<rparr>\<rparr>))
           (bindK (procK p p_pinfo) (\<lambda>pi.
            bindK (vmvK (copyout c (p_pagetable m) pinfoAddr (pinfo_bytes pi))) (\<lambda>_.
            thenK (ptK (release_proc c p)) (retK 0)))))))))))))"

section \<open>Page tables and memory of another process\<close>

primrec copy_from_level_loop :: "nat list \<Rightarrow> u64 \<Rightarrow> u64 \<Rightarrow> vm \<Rightarrow> u64" where
  "copy_from_level_loop [] pagetable va v = pagetable"
| "copy_from_level_loop (l # ls) pagetable va v =
    (let pte = get_pte v (pte_at pagetable (PX l va))
     in if pte AND PTE_V \<noteq> 0 then copy_from_level_loop ls (PTE2PA pte) va v else 0)"

definition copy_from_level :: "u64 \<Rightarrow> u64 \<Rightarrow> nat \<Rightarrow> vm \<Rightarrow> u64 res" where
  "copy_from_level pagetable va target_level v =
    (if unat va \<ge> MAXVA then Panic ''ps_pt''
     else Ret (copy_from_level_loop (rev [target_level + 1..<3]) pagetable va v))"

text \<open>
  \<open>copyout\<close> of \<open>n\<close> bytes the kernel reads at \<open>src\<close>. The first page of the address space is not mapped in the kernel; a source
  there faults, unless \<open>copyout\<close> finds the destination unmapped before it reads.
\<close>

definition copyout_from :: "nat \<Rightarrow> u64 \<Rightarrow> u64 \<Rightarrow> u64 \<Rightarrow> nat \<Rightarrow> int kop" where
  "copyout_from c pagetable dstva src n =
    (if unat src < PGSIZE then
       bindK (vmrK (walkaddr c pagetable (PGROUNDDOWN dstva))) (\<lambda>pa. if pa = 0 then retK (- 1) else faultK)
     else bindK (getK (\<lambda>s. load_bytes (vm_mem (k_vm s)) src n)) (\<lambda>bs. vmvK (copyout c pagetable dstva bs)))"

definition ps_pt0 :: "nat \<Rightarrow> int \<Rightarrow> u64 \<Rightarrow> int kop" where
  "ps_pt0 c pid tableAddr =
    bindK (curproc c) (\<lambda>myp.
    bindK (find_procK c pid myp) (\<lambda>r.
      case r of None \<Rightarrow> retK (- 1)
      | Some p \<Rightarrow>
        thenK (ptK (acquire_proc c myp))
        (bindK (procK p p_pagetable) (\<lambda>pt.
         bindK (procK myp p_pagetable) (\<lambda>mpt.
         bindK (copyout_from c mpt tableAddr pt (512 * 8)) (\<lambda>_.
         thenK (ptK (release_proc c p)) (thenK (ptK (release_proc c myp)) (retK 0))))))))"

definition ps_pt_level :: "nat \<Rightarrow> nat \<Rightarrow> int \<Rightarrow> u64 \<Rightarrow> u64 \<Rightarrow> int kop" where
  "ps_pt_level c lev pid addr tableAddr =
    bindK (curproc c) (\<lambda>myp.
    bindK (find_procK c pid myp) (\<lambda>r.
      case r of None \<Rightarrow> retK (- 1)
      | Some p \<Rightarrow>
        thenK (ptK (acquire_proc c myp))
        (bindK (procK p p_pagetable) (\<lambda>pt.
         bindK (vmrK (copy_from_level pt addr lev)) (\<lambda>pagetable.
         bindK (procK myp p_pagetable) (\<lambda>mpt.
         bindK (copyout_from c mpt tableAddr pagetable (512 * 8)) (\<lambda>_.
         thenK (ptK (release_proc c p)) (thenK (ptK (release_proc c myp)) (retK 0)))))))))"

definition ps_pt1 :: "nat \<Rightarrow> int \<Rightarrow> u64 \<Rightarrow> u64 \<Rightarrow> int kop" where
  "ps_pt1 c = ps_pt_level c 1"

definition ps_pt2 :: "nat \<Rightarrow> int \<Rightarrow> u64 \<Rightarrow> u64 \<Rightarrow> int kop" where
  "ps_pt2 c = ps_pt_level c 0"

text \<open>
  The loop of \<open>ps_copy\<close>. A page table of 0 makes it read the entry at a small address. The test is \<open>*pte && PTE_V\<close>, true of
  every entry that is not 0, and what is copied is always the rest of the page the entry points to, a whole page.
\<close>

fun ps_copy_loop :: "nat \<Rightarrow> nat \<Rightarrow> nat \<Rightarrow> nat \<Rightarrow> u64 \<Rightarrow> int \<Rightarrow> u64 \<Rightarrow> bool kop" where
  "ps_copy_loop c 0 myp p addr sz copyAddr = sleepK"
| "ps_copy_loop c (Suc fuel) myp p addr sz copyAddr =
    (if sz > 0 then
       bindK (procK p p_pagetable) (\<lambda>pt.
       bindK (vmrK (copy_from_level pt addr 0)) (\<lambda>pagetable.
         if pagetable = 0 then faultK
         else bindK (getK (\<lambda>s. get_pte (k_vm s) (pte_at pagetable (PX 0 addr)))) (\<lambda>pte.
           if pte \<noteq> 0 then
             let pa = PTE2PA pte; n = sint (ucast (of_nat PGSIZE - PGROUNDDOWN pa + pa) :: 32 word)
             in bindK (procK myp p_pagetable) (\<lambda>mpt.
                bindK (copyout_from c mpt copyAddr pa (nat n)) (\<lambda>_.
                ps_copy_loop c fuel myp p (addr + of_int n) (sz - n) (copyAddr + of_int n)))
           else retK False)))
     else retK True)"

definition ps_copy :: "nat \<Rightarrow> int \<Rightarrow> u64 \<Rightarrow> int \<Rightarrow> u64 \<Rightarrow> int kop" where
  "ps_copy c pid addr sz copyAddr =
    bindK (curproc c) (\<lambda>myp.
    bindK (find_procK c pid myp) (\<lambda>r.
    thenK (ptK (acquire_proc c myp))
    (bindK (if sz > 0 then derefK NPROC r else retK (case r of None \<Rightarrow> NPROC | Some p \<Rightarrow> p)) (\<lambda>p.
     bindK (ps_copy_loop c (nat sz + 1) myp p addr sz copyAddr) (\<lambda>ok.
       if ok then thenK (ptK (release_proc c myp)) (bindK (derefK NPROC r) (\<lambda>p. thenK (ptK (release_proc c p)) (retK 0)))
       else retK (- 1))))))"

definition ps_sleep_info :: "nat \<Rightarrow> int \<Rightarrow> u64 \<Rightarrow> int kop" where
  "ps_sleep_info c pid infoAddr =
    bindK (curproc c) (\<lambda>myp.
    bindK (find_procK c pid myp) (\<lambda>r.
      case r of None \<Rightarrow> retK (- 1)
      | Some p \<Rightarrow>
        bindK (procK p p_state) (\<lambda>st.
        bindK (tfK p TF_a7) (\<lambda>a7. bindK (tfK p TF_a0) (\<lambda>a0. bindK (tfK p TF_a1) (\<lambda>a1. bindK (tfK p TF_a2) (\<lambda>a2.
        let w = \<lparr>wi_state = st, wi_a7 = ucast a7, wi_file_ptr = a0, wi_str_ptr = a1, wi_buf_size = ucast a2\<rparr>
        in thenK (whenK (myp \<noteq> p) (ptK (acquire_proc c myp)))
          (bindK (procK myp p_pagetable) (\<lambda>mpt.
           bindK (vmvK (copyout c mpt infoAddr (write_info_bytes w))) (\<lambda>_.
           thenK (ptK (release_proc c p))
           (thenK (whenK (myp \<noteq> p) (ptK (release_proc c myp))) (retK 0))))))))))))"

end
