(* ===== verification/Syscall.thy ===== *)
theory Syscall
  imports Proc_Ps
begin

text \<open>
  Arguments of system calls (\<open>kernel/syscall.c\<close>), the calls on processes (\<open>kernel/sysproc.c\<close>) and the process-inspection
  calls of \<open>kernel/sysfile.c\<close>. A handler returns the 64-bit value that goes to register \<open>a0\<close>.
\<close>

abbreviation MAXARG :: nat where "MAXARG \<equiv> 32"
abbreviation MAXPATH :: nat where "MAXPATH \<equiv> 128"

section \<open>Fetching arguments\<close>

definition fetchaddr :: "nat \<Rightarrow> u64 \<Rightarrow> (int \<times> u64) kop" where
  "fetchaddr c addr =
    bindK (curproc c) (\<lambda>p.
    bindK (procK p id) (\<lambda>x.
      if addr \<ge> p_sz x \<or> addr + 8 > p_sz x then retK (- 1, 0)
      else bindK (vmrK (copyin c (p_pagetable x) addr 8)) (\<lambda>(r, bs).
        if r \<noteq> 0 then retK (- 1, 0) else retK (0, of_nat (le_nat bs)))))"

text \<open>The buffer is returned as \<open>copyinstr\<close> has filled it; \<open>strlen\<close> counts the bytes before the first zero.\<close>

definition fetchstr :: "nat \<Rightarrow> u64 \<Rightarrow> nat \<Rightarrow> (int \<times> u8 list) kop" where
  "fetchstr c addr max_n =
    bindK (curproc c) (\<lambda>p.
    bindK (procK p p_pagetable) (\<lambda>pt.
    bindK (vmrK (copyinstr c pt addr max_n)) (\<lambda>(r, buf).
      retK (if r < 0 then - 1 else int (length (cstr buf)), buf))))"

definition argraw :: "nat \<Rightarrow> nat \<Rightarrow> u64 kop" where
  "argraw c n = bindK (curproc c) (\<lambda>p. if n < 6 then tfK p (TF_a0 + 8 * n) else panicK ''argraw'')"

definition argint :: "nat \<Rightarrow> nat \<Rightarrow> int kop" where
  "argint c n = bindK (argraw c n) (\<lambda>v. retK (sint (ucast v :: u32)))"

definition argaddr :: "nat \<Rightarrow> nat \<Rightarrow> u64 kop" where
  "argaddr c n = argraw c n"

definition argstr :: "nat \<Rightarrow> nat \<Rightarrow> nat \<Rightarrow> (int \<times> u8 list) kop" where
  "argstr c n max_n = bindK (argaddr c n) (\<lambda>addr. fetchstr c addr max_n)"

text \<open>An \<open>int\<close> returned where \<open>uint64\<close> is declared is sign-extended.\<close>

definition intK :: "int kop \<Rightarrow> u64 kop" where
  "intK m = bindK m (\<lambda>r. retK (of_int r))"

section \<open>Calls on processes\<close>

definition sys_getpid :: "nat \<Rightarrow> u64 kop" where
  "sys_getpid c =
    bindK (curproc c) (\<lambda>p. bindK (procK p id) (\<lambda>x.
      intK (ptrK (\<lambda>t. bind_res (get_ns t (p_node x)) (\<lambda>n. ns_pid x (ns_depth n))))))"

definition sys_getppid :: "nat \<Rightarrow> u64 kop" where
  "sys_getppid c =
    bindK (curproc c) (\<lambda>p. bindK (procK p id) (\<lambda>x.
      if p_pid x = 1 then retK 0
      else bindK (ptrK (\<lambda>t. get_proc t (p_parent x))) (\<lambda>y.
        intK (ptrK (\<lambda>t. bind_res (get_ns t (p_node y)) (\<lambda>n. ns_pid y (ns_depth n)))))))"

definition sys_fork :: "nat \<Rightarrow> u64 kop" where
  "sys_fork c = intK (fork c)"

definition sys_clone :: "nat \<Rightarrow> u64 kop" where
  "sys_clone c = intK (clone c)"

definition sys_wait :: "nat \<Rightarrow> u64 kop" where
  "sys_wait c = bindK (argaddr c 0) (\<lambda>p. intK (wait c p))"

definition sys_sbrk :: "nat \<Rightarrow> u64 kop" where
  "sys_sbrk c =
    bindK (argint c 0) (\<lambda>n.
    bindK (curproc c) (\<lambda>p. bindK (procK p p_sz) (\<lambda>addr.
    bindK (growproc c n) (\<lambda>r. if r < 0 then retK (- 1) else retK addr))))"

text \<open>
  The loop of \<open>sys_sleep\<close> up to the point where the process goes to sleep. In \<open>ticks - ticks0 < n\<close> the \<open>int\<close> is
  converted to \<open>uint\<close>.
\<close>

definition sleep_done :: "u32 \<Rightarrow> u32 \<Rightarrow> int \<Rightarrow> bool" where
  "sleep_done ticks ticks0 n \<longleftrightarrow> \<not> ticks - ticks0 < of_int n"

definition sys_sleep_step :: "nat \<Rightarrow> int \<Rightarrow> u32 \<Rightarrow> u64 kop" where
  "sys_sleep_step c n ticks0 =
    bindK (getK k_ticks) (\<lambda>ticks.
      if sleep_done ticks ticks0 n then thenK (releaseK c k_tickslock k_tickslock_update) (retK 0)
      else bindK (curproc c) (\<lambda>p. bindK (ptvK (killed c p)) (\<lambda>k.
        if k \<noteq> 0 then thenK (releaseK c k_tickslock k_tickslock_update) (retK (- 1)) else sleepK)))"

definition sys_sleep :: "nat \<Rightarrow> u64 kop" where
  "sys_sleep c =
    bindK (argint c 0) (\<lambda>n.
    thenK (acquireK c k_tickslock k_tickslock_update)
    (bindK (getK k_ticks) (\<lambda>ticks0. sys_sleep_step c n ticks0)))"

definition sys_kill :: "nat \<Rightarrow> u64 kop" where
  "sys_kill c = bindK (argint c 0) (\<lambda>pid. intK (ptvK (kill c pid)))"

definition sys_uptime :: "nat \<Rightarrow> u64 kop" where
  "sys_uptime c = bindK (readticks c) (\<lambda>xticks. retK (ucast xticks))"

section \<open>Inspection calls\<close>

definition sys_dummy :: "nat \<Rightarrow> u64 kop" where
  "sys_dummy c = retK 0x5555"

text \<open>\<open>sys_mem_dump\<close> is declared to return \<open>uint64\<close> where the table of calls is built, and returns nothing.\<close>

definition sys_mem_dump :: "nat \<Rightarrow> u64 kop" where
  "sys_mem_dump c =
    bindK (vmvK (\<lambda>v. bind_res (mem_dump c (vm_alloc v)) (\<lambda>(d, b). Ret (d, v\<lparr>vm_alloc := b\<rparr>)))) (\<lambda>dump.
    thenK (printf c (Some (cbytes ''Total = %d, Free = %d'' @ [10])) [ArgInt (ucast (bi_total dump)), ArgInt (ucast (bi_free dump))])
    (thenK (forK [0..<STANDART_DEPTH] (\<lambda>i. printf c (Some (cbytes ''%d '')) [ArgInt (ucast (free_by_size dump ! i))]))
    (thenK (printf c (Some [10]) []) (getK (\<lambda>s. a0_leftover (k_links s))))))"

definition sys_ps_list :: "nat \<Rightarrow> u64 kop" where
  "sys_ps_list c = bindK (argint c 0) (\<lambda>limit. bindK (argaddr c 1) (\<lambda>pids. intK (ps_list c limit pids)))"

definition sys_ps_info :: "nat \<Rightarrow> u64 kop" where
  "sys_ps_info c = bindK (argint c 0) (\<lambda>pid. bindK (argaddr c 1) (\<lambda>a. intK (ps_info c pid a)))"

definition sys_ps_pt0 :: "nat \<Rightarrow> u64 kop" where
  "sys_ps_pt0 c = bindK (argint c 0) (\<lambda>pid. bindK (argaddr c 1) (\<lambda>a. intK (ps_pt0 c pid a)))"

definition sys_ps_pt1 :: "nat \<Rightarrow> u64 kop" where
  "sys_ps_pt1 c = bindK (argint c 0) (\<lambda>pid. bindK (argaddr c 1) (\<lambda>addr. bindK (argaddr c 2) (\<lambda>a. intK (ps_pt1 c pid addr a))))"

definition sys_ps_pt2 :: "nat \<Rightarrow> u64 kop" where
  "sys_ps_pt2 c = bindK (argint c 0) (\<lambda>pid. bindK (argaddr c 1) (\<lambda>addr. bindK (argaddr c 2) (\<lambda>a. intK (ps_pt2 c pid addr a))))"

definition sys_ps_copy :: "nat \<Rightarrow> u64 kop" where
  "sys_ps_copy c =
    bindK (argint c 0) (\<lambda>pid. bindK (argaddr c 1) (\<lambda>addr. bindK (argint c 2) (\<lambda>sz. bindK (argaddr c 3) (\<lambda>copyAddr.
      intK (ps_copy c pid addr sz copyAddr)))))"

definition sys_ps_sleep_info :: "nat \<Rightarrow> u64 kop" where
  "sys_ps_sleep_info c = bindK (argint c 0) (\<lambda>pid. bindK (argaddr c 1) (\<lambda>a. intK (ps_sleep_info c pid a)))"

end
