(* ===== verification/Exec.thy ===== *)
theory Exec
  imports Syscall
begin

text \<open>
  \<open>exec\<close> (\<open>kernel/exec.c\<close>, formats of \<open>kernel/elf.h\<close>). The argument strings are in pages of the kernel; \<open>argv\<close> is the list of
  their addresses, up to the null pointer that ends the array.
\<close>

section \<open>ELF files\<close>

abbreviation ELF_MAGIC :: nat where "ELF_MAGIC \<equiv> 0x464C457F"
abbreviation ELF_PROG_LOAD :: nat where "ELF_PROG_LOAD \<equiv> 1"
abbreviation ELFHDR_SIZE :: nat where "ELFHDR_SIZE \<equiv> 64"
abbreviation PROGHDR_SIZE :: nat where "PROGHDR_SIZE \<equiv> 56"

record elfhdr =
  elf_magic :: nat
  elf_elf :: "u8 list"
  elf_type :: nat
  elf_machine :: nat
  elf_version :: nat
  elf_entry :: u64
  elf_phoff :: u64
  elf_shoff :: u64
  elf_flags :: nat
  elf_ehsize :: nat
  elf_phentsize :: nat
  elf_phnum :: nat
  elf_shentsize :: nat
  elf_shnum :: nat
  elf_shstrndx :: nat

record proghdr =
  ph_type :: nat
  ph_flags :: u32
  ph_off :: u64
  ph_vaddr :: u64
  ph_paddr :: u64
  ph_filesz :: u64
  ph_memsz :: u64
  ph_align :: u64

definition decode_elfhdr :: "u8 list \<Rightarrow> elfhdr" where
  "decode_elfhdr d = \<lparr>elf_magic = get_le 4 0 d, elf_elf = take 12 (drop 4 d), elf_type = get_le 2 16 d, elf_machine = get_le 2 18 d,
     elf_version = get_le 4 20 d, elf_entry = of_nat (get_le 8 24 d), elf_phoff = of_nat (get_le 8 32 d),
     elf_shoff = of_nat (get_le 8 40 d), elf_flags = get_le 4 48 d, elf_ehsize = get_le 2 52 d, elf_phentsize = get_le 2 54 d,
     elf_phnum = get_le 2 56 d, elf_shentsize = get_le 2 58 d, elf_shnum = get_le 2 60 d, elf_shstrndx = get_le 2 62 d\<rparr>"

definition decode_proghdr :: "u8 list \<Rightarrow> proghdr" where
  "decode_proghdr d = \<lparr>ph_type = get_le 4 0 d, ph_flags = of_nat (get_le 4 4 d), ph_off = of_nat (get_le 8 8 d),
     ph_vaddr = of_nat (get_le 8 16 d), ph_paddr = of_nat (get_le 8 24 d), ph_filesz = of_nat (get_le 8 32 d),
     ph_memsz = of_nat (get_le 8 40 d), ph_align = of_nat (get_le 8 48 d)\<rparr>"

definition flags2perm :: "u32 \<Rightarrow> u64" where
  "flags2perm flags =
    (let perm = (if flags AND 1 \<noteq> 0 then PTE_X else 0) in if flags AND 2 \<noteq> 0 then perm OR PTE_W else perm)"

section \<open>Loading segments\<close>

fun loadseg_loop :: "nat \<Rightarrow> nat \<Rightarrow> u64 \<Rightarrow> u64 \<Rightarrow> nat \<Rightarrow> u32 \<Rightarrow> u32 \<Rightarrow> u32 \<Rightarrow> int kop" where
  "loadseg_loop c 0 pagetable va ip offset sz i = sleepK"
| "loadseg_loop c (Suc fuel) pagetable va ip offset sz i =
    (if i < sz then
       bindK (vmrK (walkaddr c pagetable (va + ucast i))) (\<lambda>pa.
         if pa = 0 then panicK ''loadseg: address should exist''
         else let n = (if sz - i < of_nat PGSIZE then sz - i else of_nat PGSIZE)
              in bindK (readi c ip (ToPhys pa) (offset + i) n) (\<lambda>(r, _).
                 if (of_int r :: u32) \<noteq> n then retK (- 1)
                 else loadseg_loop c fuel pagetable va ip offset sz (i + of_nat PGSIZE)))
     else retK 0)"

definition loadseg :: "nat \<Rightarrow> u64 \<Rightarrow> u64 \<Rightarrow> nat \<Rightarrow> u32 \<Rightarrow> u32 \<Rightarrow> int kop" where
  "loadseg c pagetable va ip offset sz = loadseg_loop c (unat sz div PGSIZE + 2) pagetable va ip offset sz 0"

text \<open>The loop over the program headers. It returns whether all went well and the size of the image so far.\<close>

primrec load_segments :: "nat \<Rightarrow> nat \<Rightarrow> u64 \<Rightarrow> nat \<Rightarrow> u32 \<Rightarrow> u64 \<Rightarrow> (bool \<times> u64) kop" where
  "load_segments c 0 pagetable ip off sz = retK (True, sz)"
| "load_segments c (Suc n) pagetable ip off sz =
    bindK (readi c ip ToKernel off (of_nat PROGHDR_SIZE)) (\<lambda>(r, d).
      if r \<noteq> int PROGHDR_SIZE then retK (False, sz)
      else let ph = decode_proghdr d; off' = off + of_nat PROGHDR_SIZE
           in if ph_type ph \<noteq> ELF_PROG_LOAD then load_segments c n pagetable ip off' sz
              else if ph_memsz ph < ph_filesz ph then retK (False, sz)
              else if ph_vaddr ph + ph_memsz ph < ph_vaddr ph then retK (False, sz)
              else if unat (ph_vaddr ph) mod PGSIZE \<noteq> 0 then retK (False, sz)
              else bindK (vmvK (uvmalloc c pagetable sz (ph_vaddr ph + ph_memsz ph) (flags2perm (ph_flags ph)))) (\<lambda>sz1.
                if sz1 = 0 then retK (False, sz)
                else bindK (loadseg c pagetable (ph_vaddr ph) ip (ucast (ph_off ph)) (ucast (ph_filesz ph))) (\<lambda>r.
                  if r < 0 then retK (False, sz1) else load_segments c n pagetable ip off' sz1)))"

section \<open>The stack of the new image\<close>

definition strlenK :: "u64 \<Rightarrow> nat kop" where
  "strlenK a = bindK (getK (\<lambda>s. strlen a (vm_mem (k_vm s)))) (\<lambda>r. case r of None \<Rightarrow> sleepK | Some n \<Rightarrow> retK n)"

definition align16 :: "u64 \<Rightarrow> u64" where
  "align16 sp = sp - sp mod 16"

text \<open>Pushing the argument strings: the stack pointer and \<open>ustack\<close> so far, or \<open>None\<close> for \<open>goto bad\<close>.\<close>

primrec push_args :: "nat \<Rightarrow> u64 \<Rightarrow> u64 \<Rightarrow> u64 list \<Rightarrow> u64 \<Rightarrow> u64 list \<Rightarrow> (u64 \<times> u64 list) option kop" where
  "push_args c pagetable stackbase [] sp ustack = retK (Some (sp, ustack))"
| "push_args c pagetable stackbase (a # argv) sp ustack =
    (if length ustack \<ge> MAXARG then retK None
     else bindK (strlenK a) (\<lambda>n.
       let sp' = align16 (sp - of_nat (n + 1))
       in if sp' < stackbase then retK None
          else bindK (getK (\<lambda>s. load_bytes (vm_mem (k_vm s)) a (n + 1))) (\<lambda>bs.
               bindK (vmvK (copyout c pagetable sp' bs)) (\<lambda>r.
                 if r < 0 then retK None else push_args c pagetable stackbase argv sp' (ustack @ [sp'])))))"

definition push_stack :: "nat \<Rightarrow> u64 \<Rightarrow> u64 \<Rightarrow> u64 list \<Rightarrow> (u64 \<times> nat) option kop" where
  "push_stack c pagetable sz argv =
    (let stackbase = sz - of_nat PGSIZE
     in bindK (push_args c pagetable stackbase argv sz []) (\<lambda>r.
       case r of None \<Rightarrow> retK None
       | Some (sp, ustack) \<Rightarrow>
         if length ustack \<ge> MAXARG then faultK
         else let argc = length ustack; sp' = align16 (sp - of_nat ((argc + 1) * 8))
              in if sp' < stackbase then retK None
                 else bindK (vmvK (copyout c pagetable sp' (concat (map (\<lambda>w. le_bytes 8 (unat w)) (ustack @ [0]))))) (\<lambda>r.
                   retK (if r < 0 then None else Some (sp', argc)))))"

definition last_elem :: "u8 list \<Rightarrow> u8 list" where
  "last_elem path = rev (takeWhile (\<lambda>ch. ch \<noteq> SLASH) (rev path))"

section \<open>\<open>exec\<close>\<close>

text \<open>The label \<open>bad\<close>.\<close>

definition exec_bad :: "nat \<Rightarrow> u64 \<Rightarrow> u64 \<Rightarrow> nat option \<Rightarrow> int kop" where
  "exec_bad c pagetable sz ip =
    thenK (whenK (pagetable \<noteq> 0) (proc_freepagetable c pagetable sz))
      (case ip of None \<Rightarrow> retK (- 1) | Some ip \<Rightarrow> thenK (iunlockput c ip) (thenK (end_op c) (retK (- 1))))"

text \<open>From the point where the file is closed: the stack, and the commit to the new image.\<close>

definition exec_commit :: "nat \<Rightarrow> u8 list \<Rightarrow> u64 list \<Rightarrow> elfhdr \<Rightarrow> u64 \<Rightarrow> u64 \<Rightarrow> int kop" where
  "exec_commit c path argv elf pagetable sz0 =
    bindK (curproc c) (\<lambda>p.
    bindK (procK p p_sz) (\<lambda>oldsz.
    let sz = PGROUNDUP sz0
    in bindK (vmvK (uvmalloc c pagetable sz (sz + 2 * of_nat PGSIZE) PTE_W)) (\<lambda>sz1.
      if sz1 = 0 then exec_bad c pagetable sz None
      else thenK (vmK (uvmclear c pagetable (sz1 - 2 * of_nat PGSIZE)))
        (bindK (push_stack c pagetable sz1 argv) (\<lambda>r.
          case r of None \<Rightarrow> exec_bad c pagetable sz1 None
          | Some (sp, argc) \<Rightarrow>
            thenK (settfK p TF_a1 sp)
            (bindK (procK p p_pagetable) (\<lambda>oldpagetable.
             thenK (setprocK p (\<lambda>x. x\<lparr>p_name := safestrcpy_list 16 (last_elem path) (p_name x), p_pagetable := pagetable, p_sz := sz1\<rparr>))
             (thenK (settfK p TF_epc (elf_entry elf))
             (thenK (settfK p TF_sp sp)
             (thenK (proc_freepagetable c oldpagetable oldsz) (retK (int argc)))))))))))) "

definition exec :: "nat \<Rightarrow> u8 list \<Rightarrow> u64 list \<Rightarrow> int kop" where
  "exec c path argv =
    bindK (curproc c) (\<lambda>p.
    thenK (begin_op c)
    (bindK (namei c path) (\<lambda>r.
      case r of None \<Rightarrow> thenK (end_op c) (retK (- 1))
      | Some ip \<Rightarrow>
        thenK (ilock c (Some ip))
        (bindK (readi c ip ToKernel 0 (of_nat ELFHDR_SIZE)) (\<lambda>(r, d).
          let elf = decode_elfhdr d
          in if r \<noteq> int ELFHDR_SIZE then exec_bad c 0 0 (Some ip)
             else if elf_magic elf \<noteq> ELF_MAGIC then exec_bad c 0 0 (Some ip)
             else bindK (proc_pagetable c p) (\<lambda>pagetable.
               if pagetable = 0 then exec_bad c 0 0 (Some ip)
               else bindK (load_segments c (elf_phnum elf) pagetable ip (ucast (elf_phoff elf)) 0) (\<lambda>(ok, sz).
                 if \<not> ok then exec_bad c pagetable sz (Some ip)
                 else thenK (iunlockput c ip) (thenK (end_op c) (exec_commit c path argv elf pagetable sz)))))))))"

end
