(* ===== verification/Sysfile.thy ===== *)
theory Sysfile
  imports Exec
begin

text \<open>
  The file-system calls (\<open>kernel/sysfile.c\<close>) and the dispatch of a system call (\<open>syscall\<close> of \<open>kernel/syscall.c\<close>).
\<close>

section \<open>File descriptors\<close>

abbreviation O_RDONLY :: int where "O_RDONLY \<equiv> 0"
abbreviation O_WRONLY :: u32 where "O_WRONLY \<equiv> 1"
abbreviation O_RDWR :: u32 where "O_RDWR \<equiv> 2"
abbreviation O_CREATE :: u32 where "O_CREATE \<equiv> 0x200"
abbreviation O_TRUNC :: u32 where "O_TRUNC \<equiv> 0x400"

definition argfd :: "nat \<Rightarrow> nat \<Rightarrow> (nat \<times> nat) option kop" where
  "argfd c n =
    bindK (argint c n) (\<lambda>fd.
      if fd < 0 \<or> fd \<ge> int NOFILE then retK None
      else bindK (curproc c) (\<lambda>p. bindK (procK p p_ofile) (\<lambda>ofile.
        retK (case ofile ! nat fd of None \<Rightarrow> None | Some f \<Rightarrow> Some (nat fd, f)))))"

definition set_fd :: "nat \<Rightarrow> nat \<Rightarrow> nat option \<Rightarrow> unit kop" where
  "set_fd p fd v = setprocK p (\<lambda>x. x\<lparr>p_ofile := (p_ofile x)[fd := v]\<rparr>)"

definition fdalloc :: "nat \<Rightarrow> nat \<Rightarrow> nat option kop" where
  "fdalloc c f =
    bindK (curproc c) (\<lambda>p. bindK (procK p p_ofile) (\<lambda>ofile.
      case List.find (\<lambda>fd. ofile ! fd = None) [0..<NOFILE] of
        None \<Rightarrow> retK None
      | Some fd \<Rightarrow> thenK (set_fd p fd (Some f)) (retK (Some fd))))"

definition sys_dup :: "nat \<Rightarrow> u64 kop" where
  "sys_dup c =
    bindK (argfd c 0) (\<lambda>r.
      case r of None \<Rightarrow> retK (- 1)
      | Some (_, f) \<Rightarrow> bindK (fdalloc c f) (\<lambda>r.
          case r of None \<Rightarrow> retK (- 1) | Some fd \<Rightarrow> bindK (filedup c f) (\<lambda>_. retK (of_nat fd))))"

definition sys_read :: "nat \<Rightarrow> u64 kop" where
  "sys_read c =
    bindK (argaddr c 1) (\<lambda>p. bindK (argint c 2) (\<lambda>n. bindK (argfd c 0) (\<lambda>r.
      case r of None \<Rightarrow> retK (- 1) | Some (_, f) \<Rightarrow> intK (fileread c f p n))))"

definition sys_write :: "nat \<Rightarrow> u64 kop" where
  "sys_write c =
    bindK (argaddr c 1) (\<lambda>p. bindK (argint c 2) (\<lambda>n. bindK (argfd c 0) (\<lambda>r.
      case r of None \<Rightarrow> retK (- 1) | Some (_, f) \<Rightarrow> intK (filewrite c f p n))))"

definition sys_close :: "nat \<Rightarrow> u64 kop" where
  "sys_close c =
    bindK (argfd c 0) (\<lambda>r.
      case r of None \<Rightarrow> retK (- 1)
      | Some (fd, f) \<Rightarrow> bindK (curproc c) (\<lambda>p. thenK (set_fd p fd None) (thenK (fileclose c f) (retK 0))))"

definition sys_fstat :: "nat \<Rightarrow> u64 kop" where
  "sys_fstat c =
    bindK (argaddr c 1) (\<lambda>st. bindK (argfd c 0) (\<lambda>r.
      case r of None \<Rightarrow> retK (- 1) | Some (_, f) \<Rightarrow> intK (filestat c f st)))"

section \<open>Links\<close>

definition to_short :: "int \<Rightarrow> int" where
  "to_short x = short_of (of_short x)"

definition add_nlink :: "nat \<Rightarrow> nat \<Rightarrow> int \<Rightarrow> unit kop" where
  "add_nlink c ip d = thenK (setinodeK ip (\<lambda>x. x\<lparr>i_nlink := to_short (i_nlink x + d)\<rparr>)) (iupdate c ip)"

abbreviation name_buf :: "u8 list" where "name_buf \<equiv> replicate DIRSIZ 0"
abbreviation DOT :: "u8 list" where "DOT \<equiv> cbytes ''.'' @ [0]"
abbreviation DOTDOT :: "u8 list" where "DOTDOT \<equiv> cbytes ''..'' @ [0]"

text \<open>The label \<open>bad\<close> of \<open>sys_link\<close>.\<close>

definition link_bad :: "nat \<Rightarrow> nat \<Rightarrow> u64 kop" where
  "link_bad c ip =
    thenK (ilock c (Some ip)) (thenK (add_nlink c ip (- 1)) (thenK (iunlockput c ip) (thenK (end_op c) (retK (- 1)))))"

definition sys_link :: "nat \<Rightarrow> u64 kop" where
  "sys_link c =
    bindK (argstr c 0 MAXPATH) (\<lambda>(r, old). if r < 0 then retK (- 1)
    else bindK (argstr c 1 MAXPATH) (\<lambda>(r, new). if r < 0 then retK (- 1)
    else thenK (begin_op c)
      (bindK (namei c (cstr old)) (\<lambda>r.
        case r of None \<Rightarrow> thenK (end_op c) (retK (- 1))
        | Some ip \<Rightarrow>
          thenK (ilock c (Some ip))
          (bindK (inodeK ip i_type) (\<lambda>ty.
            if ty = T_DIR then thenK (iunlockput c ip) (thenK (end_op c) (retK (- 1)))
            else thenK (add_nlink c ip 1)
              (thenK (iunlock c (Some ip))
              (bindK (nameiparent c (cstr new) name_buf) (\<lambda>(r, name).
                case r of None \<Rightarrow> link_bad c ip
                | Some dp \<Rightarrow>
                  thenK (ilock c (Some dp))
                  (bindK (inodeK dp i_dev) (\<lambda>ddev. bindK (inodeK ip id) (\<lambda>x.
                   bindK (if ddev \<noteq> i_dev x then retK (- 1) else dirlink c dp name (i_inum x)) (\<lambda>r.
                   thenK (iunlockput c dp)
                    (if r < 0 then link_bad c ip
                     else thenK (iput c ip) (thenK (end_op c) (retK 0))))))))))))))))"

fun isdirempty_loop :: "nat \<Rightarrow> nat \<Rightarrow> nat \<Rightarrow> u32 \<Rightarrow> bool kop" where
  "isdirempty_loop c 0 dp off = sleepK"
| "isdirempty_loop c (Suc fuel) dp off =
    bindK (inodeK dp i_size) (\<lambda>sz.
      if off < sz then
        bindK (readi c dp ToKernel off 16) (\<lambda>(r, de).
          if r \<noteq> 16 then panicK ''isdirempty: readi''
          else if de_inum de \<noteq> 0 then retK False
          else isdirempty_loop c fuel dp (off + 16))
      else retK True)"

definition isdirempty :: "nat \<Rightarrow> nat \<Rightarrow> bool kop" where
  "isdirempty c dp = bindK (inodeK dp i_size) (\<lambda>sz. isdirempty_loop c (unat sz div 16 + 2) dp 32)"

text \<open>The label \<open>bad\<close> of \<open>sys_unlink\<close>, and its last part, from the lock of the inode on.\<close>

definition unlink_bad :: "nat \<Rightarrow> nat \<Rightarrow> u64 kop" where
  "unlink_bad c dp = thenK (iunlockput c dp) (thenK (end_op c) (retK (- 1)))"

definition unlink_entry :: "nat \<Rightarrow> nat \<Rightarrow> nat \<Rightarrow> u32 \<Rightarrow> u64 kop" where
  "unlink_entry c dp ip off =
    thenK (ilock c (Some ip))
    (bindK (inodeK ip id) (\<lambda>x.
      if i_nlink x < 1 then panicK ''unlink: nlink < 1''
      else bindK (if i_type x = T_DIR then isdirempty c ip else retK True) (\<lambda>e.
        if \<not> e then thenK (iunlockput c ip) (unlink_bad c dp)
        else bindK (writei c dp (FromKernel (replicate 16 0)) off 16) (\<lambda>r.
          if r \<noteq> 16 then panicK ''unlink: writei''
          else thenK (whenK (i_type x = T_DIR) (add_nlink c dp (- 1)))
            (thenK (iunlockput c dp)
            (thenK (add_nlink c ip (- 1))
            (thenK (iunlockput c ip) (thenK (end_op c) (retK 0)))))))))"

definition sys_unlink :: "nat \<Rightarrow> u64 kop" where
  "sys_unlink c =
    bindK (argstr c 0 MAXPATH) (\<lambda>(r, path). if r < 0 then retK (- 1)
    else thenK (begin_op c)
      (bindK (nameiparent c (cstr path) name_buf) (\<lambda>(r, name).
        case r of None \<Rightarrow> thenK (end_op c) (retK (- 1))
        | Some dp \<Rightarrow>
          thenK (ilock c (Some dp))
            (if namecmp name DOT = 0 \<or> namecmp name DOTDOT = 0 then unlink_bad c dp
             else bindK (dirlookup c dp name) (\<lambda>r.
               case r of None \<Rightarrow> unlink_bad c dp | Some (ip, off) \<Rightarrow> unlink_entry c dp ip off)))))"

section \<open>Creating\<close>

text \<open>The part of \<open>create\<close> that fills a new inode and links it; on failure it is freed again.\<close>

definition create_fail :: "nat \<Rightarrow> nat \<Rightarrow> nat \<Rightarrow> nat option kop" where
  "create_fail c dp ip =
    thenK (setinodeK ip (i_nlink_update (\<lambda>_. 0)))
    (thenK (iupdate c ip) (thenK (iunlockput c ip) (thenK (iunlockput c dp) (retK None))))"

definition create_new :: "nat \<Rightarrow> nat \<Rightarrow> nat \<Rightarrow> u8 list \<Rightarrow> int \<Rightarrow> int \<Rightarrow> int \<Rightarrow> nat option kop" where
  "create_new c dp ip name ty major minor =
    thenK (ilock c (Some ip))
    (thenK (setinodeK ip (\<lambda>x. x\<lparr>i_major := major, i_minor := minor, i_nlink := 1\<rparr>))
    (thenK (iupdate c ip)
    (bindK (inodeK ip i_inum) (\<lambda>inum. bindK (inodeK dp i_inum) (\<lambda>dinum.
     bindK (if ty = T_DIR then bindK (dirlink c ip DOT inum) (\<lambda>r. if r < 0 then retK r else dirlink c ip DOTDOT dinum)
            else retK 0) (\<lambda>r.
       if r < 0 then create_fail c dp ip
       else bindK (dirlink c dp name inum) (\<lambda>r.
         if r < 0 then create_fail c dp ip
         else thenK (whenK (ty = T_DIR) (add_nlink c dp 1)) (thenK (iunlockput c dp) (retK (Some ip))))))))))"

definition create :: "nat \<Rightarrow> u8 list \<Rightarrow> int \<Rightarrow> int \<Rightarrow> int \<Rightarrow> nat option kop" where
  "create c path ty major minor =
    bindK (nameiparent c path name_buf) (\<lambda>(r, name).
      case r of None \<Rightarrow> retK None
      | Some dp \<Rightarrow>
        thenK (ilock c (Some dp))
        (bindK (dirlookup c dp name) (\<lambda>r.
          case r of
            Some (ip, _) \<Rightarrow>
              thenK (iunlockput c dp)
              (thenK (ilock c (Some ip))
              (bindK (inodeK ip i_type) (\<lambda>t.
                if ty = T_FILE \<and> (t = T_FILE \<or> t = T_DEVICE) then retK (Some ip)
                else thenK (iunlockput c ip) (retK None))))
          | None \<Rightarrow>
              bindK (inodeK dp i_dev) (\<lambda>dev.
              bindK (ialloc c dev ty) (\<lambda>r.
                case r of None \<Rightarrow> thenK (iunlockput c dp) (retK None)
                | Some ip \<Rightarrow> create_new c dp ip name ty major minor)))))"

text \<open>The inode \<open>sys_open\<close> works on, locked; \<open>None\<close> where it gives up.\<close>

definition open_inode :: "nat \<Rightarrow> u8 list \<Rightarrow> int \<Rightarrow> nat option kop" where
  "open_inode c path omode =
    (if (of_int omode :: u32) AND O_CREATE \<noteq> 0 then create c path T_FILE 0 0
     else bindK (namei c path) (\<lambda>r.
       case r of None \<Rightarrow> retK None
       | Some ip \<Rightarrow>
         thenK (ilock c (Some ip))
         (bindK (inodeK ip i_type) (\<lambda>ty.
           if ty = T_DIR \<and> omode \<noteq> O_RDONLY then thenK (iunlockput c ip) (retK None) else retK (Some ip)))))"

definition open_file :: "nat \<Rightarrow> int \<Rightarrow> nat \<Rightarrow> nat \<Rightarrow> unit kop" where
  "open_file c omode ip f =
    (let m = of_int omode :: u32
     in bindK (inodeK ip id) (\<lambda>x.
        thenK (if i_type x = T_DEVICE then setfileK f (\<lambda>ff. ff\<lparr>f_type := FD_DEVICE, f_major := i_major x\<rparr>)
               else setfileK f (\<lambda>ff. ff\<lparr>f_type := FD_INODE, f_off := 0\<rparr>))
        (thenK (setfileK f (\<lambda>ff. ff\<lparr>f_ip := Some ip, f_readable := (m AND O_WRONLY = 0),
                                    f_writable := (m AND O_WRONLY \<noteq> 0 \<or> m AND O_RDWR \<noteq> 0)\<rparr>))
        (whenK (m AND O_TRUNC \<noteq> 0 \<and> i_type x = T_FILE) (itrunc c ip)))))"

definition sys_open :: "nat \<Rightarrow> u64 kop" where
  "sys_open c =
    bindK (argint c 1) (\<lambda>omode.
    bindK (argstr c 0 MAXPATH) (\<lambda>(n, path). if n < 0 then retK (- 1)
    else thenK (begin_op c)
      (bindK (open_inode c (cstr path) omode) (\<lambda>r.
        case r of None \<Rightarrow> thenK (end_op c) (retK (- 1))
        | Some ip \<Rightarrow>
          bindK (inodeK ip id) (\<lambda>x.
            if i_type x = T_DEVICE \<and> (i_major x < 0 \<or> i_major x \<ge> int NDEV) then
              thenK (iunlockput c ip) (thenK (end_op c) (retK (- 1)))
            else bindK (filealloc c) (\<lambda>r.
              case r of None \<Rightarrow> thenK (iunlockput c ip) (thenK (end_op c) (retK (- 1)))
              | Some f \<Rightarrow>
                bindK (fdalloc c f) (\<lambda>r.
                  case r of
                    None \<Rightarrow> thenK (fileclose c f) (thenK (iunlockput c ip) (thenK (end_op c) (retK (- 1))))
                  | Some fd \<Rightarrow>
                      thenK (open_file c omode ip f)
                      (thenK (iunlock c (Some ip)) (thenK (end_op c) (retK (of_nat fd)))))))))))"

text \<open>\<open>mkdir\<close> and \<open>mknod\<close> after their arguments; the path is fetched inside the transaction.\<close>

definition make_entry :: "nat \<Rightarrow> int \<Rightarrow> int \<Rightarrow> int \<Rightarrow> u64 kop" where
  "make_entry c ty major minor =
    bindK (bindK (argstr c 0 MAXPATH) (\<lambda>(n, path). if n < 0 then retK None else create c (cstr path) ty major minor)) (\<lambda>r.
      case r of None \<Rightarrow> thenK (end_op c) (retK (- 1))
      | Some ip \<Rightarrow> thenK (iunlockput c ip) (thenK (end_op c) (retK 0)))"

definition sys_mkdir :: "nat \<Rightarrow> u64 kop" where
  "sys_mkdir c = thenK (begin_op c) (make_entry c T_DIR 0 0)"

definition sys_mknod :: "nat \<Rightarrow> u64 kop" where
  "sys_mknod c =
    thenK (begin_op c)
    (bindK (argint c 1) (\<lambda>major. bindK (argint c 2) (\<lambda>minor. make_entry c T_DEVICE (to_short major) (to_short minor))))"

definition sys_chdir :: "nat \<Rightarrow> u64 kop" where
  "sys_chdir c =
    bindK (curproc c) (\<lambda>p.
    thenK (begin_op c)
    (bindK (bindK (argstr c 0 MAXPATH) (\<lambda>(n, path). if n < 0 then retK None else namei c (cstr path))) (\<lambda>r.
      case r of None \<Rightarrow> thenK (end_op c) (retK (- 1))
      | Some ip \<Rightarrow>
        thenK (ilock c (Some ip))
        (bindK (inodeK ip i_type) (\<lambda>ty.
          if ty \<noteq> T_DIR then thenK (iunlockput c ip) (thenK (end_op c) (retK (- 1)))
          else thenK (iunlock c (Some ip))
            (thenK (bindK (procK p p_cwd) (\<lambda>cwd. bindK (derefK NINODE cwd) (iput c)))
            (thenK (end_op c)
            (thenK (setprocK p (p_cwd_update (\<lambda>_. Some ip))) (retK 0)))))))))"

section \<open>\<open>exec\<close> and \<open>pipe\<close>\<close>

text \<open>The loop that fetches the argument strings, from index \<open>MAXARG - n\<close> on: whether it reached the null pointer, and the pages.\<close>

primrec fetch_argv :: "nat \<Rightarrow> u64 \<Rightarrow> nat \<Rightarrow> u64 list \<Rightarrow> (bool \<times> u64 list) kop" where
  "fetch_argv c uargv 0 argv = retK (False, argv)"
| "fetch_argv c uargv (Suc n) argv =
    bindK (fetchaddr c (uargv + of_nat (8 * length argv))) (\<lambda>(r, uarg).
      if r < 0 then retK (False, argv)
      else if uarg = 0 then retK (True, argv)
      else bindK (vmvK (kalloc_vm c)) (\<lambda>page.
        if page = 0 then retK (False, argv)
        else bindK (fetchstr c uarg PGSIZE) (\<lambda>(r, buf).
          thenK (modK (\<lambda>s. s\<lparr>k_vm := (k_vm s)\<lparr>vm_mem := store_bytes page buf (vm_mem (k_vm s))\<rparr>\<rparr>))
            (if r < 0 then retK (False, argv @ [page]) else fetch_argv c uargv n (argv @ [page])))))"

definition sys_exec :: "nat \<Rightarrow> u64 kop" where
  "sys_exec c =
    bindK (argaddr c 1) (\<lambda>uargv.
    bindK (argstr c 0 MAXPATH) (\<lambda>(n, path). if n < 0 then retK (- 1)
    else bindK (fetch_argv c uargv MAXARG []) (\<lambda>(ok, argv).
      bindK (if ok then exec c (cstr path) argv else retK (- 1)) (\<lambda>ret.
      thenK (forK argv (\<lambda>a. vmK (kfree_vm c a))) (retK (of_int ret))))))"

definition sys_pipe :: "nat \<Rightarrow> u64 kop" where
  "sys_pipe c =
    bindK (curproc c) (\<lambda>p.
    bindK (argaddr c 0) (\<lambda>fdarray.
    bindK (pipealloc c) (\<lambda>r.
      case r of None \<Rightarrow> retK (- 1)
      | Some (rfile, wfile) \<Rightarrow>
        let close_both = thenK (fileclose c rfile) (thenK (fileclose c wfile) (retK (- 1)))
        in bindK (fdalloc c rfile) (\<lambda>r0.
          case r0 of None \<Rightarrow> close_both
          | Some fd0 \<Rightarrow>
            bindK (fdalloc c wfile) (\<lambda>r1.
              case r1 of None \<Rightarrow> thenK (set_fd p fd0 None) close_both
              | Some fd1 \<Rightarrow>
                bindK (procK p p_pagetable) (\<lambda>pt.
                bindK (vmvK (copyout c pt fdarray (le_bytes 4 fd0))) (\<lambda>r.
                bindK (if r < 0 then retK r else vmvK (copyout c pt (fdarray + 4) (le_bytes 4 fd1))) (\<lambda>r.
                  if r < 0 then thenK (set_fd p fd0 None) (thenK (set_fd p fd1 None) close_both)
                  else retK 0))))))))"

section \<open>Dispatch\<close>

text \<open>A call returns a value, or it is \<open>exit\<close>, which does not come back; \<open>syscall\<close> says whether the process goes on.\<close>

datatype call_end = Returned u64 | Exited

definition returns :: "u64 kop \<Rightarrow> call_end kop" where
  "returns m = bindK m (\<lambda>v. retK (Returned v))"

definition sys_exit :: "nat \<Rightarrow> call_end kop" where
  "sys_exit c = bindK (argint c 0) (\<lambda>n. thenK (exit c n) (retK Exited))"

text \<open>The table of handlers, by the numbers of \<open>kernel/syscall.h\<close>; entry 0 is empty.\<close>

definition syscalls :: "nat \<Rightarrow> int \<Rightarrow> call_end kop option" where
  "syscalls c num =
    (if num = 1 then Some (returns (sys_fork c))
     else if num = 2 then Some (sys_exit c)
     else if num = 3 then Some (returns (sys_wait c))
     else if num = 4 then Some (returns (sys_pipe c))
     else if num = 5 then Some (returns (sys_read c))
     else if num = 6 then Some (returns (sys_kill c))
     else if num = 7 then Some (returns (sys_exec c))
     else if num = 8 then Some (returns (sys_fstat c))
     else if num = 9 then Some (returns (sys_chdir c))
     else if num = 10 then Some (returns (sys_dup c))
     else if num = 11 then Some (returns (sys_getpid c))
     else if num = 12 then Some (returns (sys_sbrk c))
     else if num = 13 then Some (returns (sys_sleep c))
     else if num = 14 then Some (returns (sys_uptime c))
     else if num = 15 then Some (returns (sys_open c))
     else if num = 16 then Some (returns (sys_write c))
     else if num = 17 then Some (returns (sys_mknod c))
     else if num = 18 then Some (returns (sys_unlink c))
     else if num = 19 then Some (returns (sys_link c))
     else if num = 20 then Some (returns (sys_mkdir c))
     else if num = 21 then Some (returns (sys_close c))
     else if num = 22 then Some (returns (sys_dummy c))
     else if num = 23 then Some (returns (sys_ps_list c))
     else if num = 24 then Some (returns (sys_ps_info c))
     else if num = 25 then Some (returns (sys_ps_pt0 c))
     else if num = 26 then Some (returns (sys_ps_pt1 c))
     else if num = 27 then Some (returns (sys_ps_pt2 c))
     else if num = 28 then Some (returns (sys_ps_copy c))
     else if num = 29 then Some (returns (sys_ps_sleep_info c))
     else if num = 30 then Some (returns (sys_clone c))
     else if num = 31 then Some (returns (sys_getppid c))
     else if num = 32 then Some (returns (sys_mem_dump c))
     else None)"

definition syscall :: "nat \<Rightarrow> bool kop" where
  "syscall c =
    bindK (curproc c) (\<lambda>p.
    bindK (tfK p TF_a7) (\<lambda>a7.
      let num = sint (ucast a7 :: u32)
      in case syscalls c num of
           Some h \<Rightarrow> bindK h (\<lambda>r. case r of Exited \<Rightarrow> retK False | Returned v \<Rightarrow> thenK (settfK p TF_a0 v) (retK True))
         | None \<Rightarrow>
             bindK (procK p id) (\<lambda>x.
             thenK (printf c (Some (cbytes ''%d %s: unknown sys call %d'' @ [10]))
                      [ArgInt (of_int (p_pid x)), ArgStr (Some (cstr (p_name x))), ArgInt (of_int num)])
             (thenK (settfK p TF_a0 (- 1)) (retK True)))))"

end
