(* ===== verification/Sleeplock_Laws.thy ===== *)
theory Sleeplock_Laws
  imports Bio Proc_Search
begin

text \<open>
  What the sleep locks do for a caller that finds the spin locks free. A sleep lock is given by where it is in the
  state; the laws that reading and writing there obey are a locale, and the routines are proved once in it.
\<close>

section \<open>A process on a CPU\<close>

text \<open>CPU \<open>c\<close> runs a process of the table, and no lock of the table is held.\<close>

definition running :: "nat \<Rightarrow> kernel \<Rightarrow> bool" where
  "running c s \<longleftrightarrow> locks_free (k_pt s) \<and> (\<exists>p<NPROC. myproc c (k_pt s) = Some p)"

definition mypid :: "nat \<Rightarrow> kernel \<Rightarrow> int" where
  "mypid c s = p_pid (procs (k_pt s) (the (myproc c (k_pt s))))"

text \<open>Two tables that differ in the states of processes only, as before and after a \<open>wakeup\<close>.\<close>

definition pt_sim :: "ptable \<Rightarrow> ptable \<Rightarrow> bool" where
  "pt_sim t t' \<longleftrightarrow> t'\<lparr>procs := procs t\<rparr> = t \<and> (\<forall>i. (procs t' i)\<lparr>p_state := p_state (procs t i)\<rparr> = procs t i)"

lemma pt_sim_refl [simp, intro]: "pt_sim t t"
  by (simp add: pt_sim_def)

lemma pt_sim_proc: "pt_sim t t' \<Longrightarrow> procs t' i = (procs t i)\<lparr>p_state := p_state (procs t' i)\<rparr>"
  unfolding pt_sim_def by (metis proc.surjective proc.update_convs(2))

lemma pt_sim_sel:
  assumes "pt_sim t t'"
  shows "cpu_proc t' = cpu_proc t \<and> p_lock (procs t' i) = p_lock (procs t i) \<and> p_pid (procs t' i) = p_pid (procs t i) \<and>
    p_cwd (procs t' i) = p_cwd (procs t i) \<and> p_pagetable (procs t' i) = p_pagetable (procs t i)"
proof -
  have "cpu_proc (t'\<lparr>procs := procs t\<rparr>) = cpu_proc t" using assms by (simp add: pt_sim_def)
  then show ?thesis using pt_sim_proc[OF assms, of i] by (cases "procs t i"; cases "procs t' i") auto
qed

lemma pt_sim_trans [trans]:
  assumes "pt_sim t t'" "pt_sim t' t''"
  shows "pt_sim t t''"
proof -
  have "t''\<lparr>procs := procs t\<rparr> = (t''\<lparr>procs := procs t'\<rparr>)\<lparr>procs := procs t\<rparr>" by simp
  also have "\<dots> = t" using assms by (simp add: pt_sim_def)
  finally have a: "t''\<lparr>procs := procs t\<rparr> = t" .
  have "(procs t'' i)\<lparr>p_state := p_state (procs t i)\<rparr> = procs t i" for i
  proof -
    have "(procs t'' i)\<lparr>p_state := p_state (procs t i)\<rparr> = ((procs t'' i)\<lparr>p_state := p_state (procs t' i)\<rparr>)\<lparr>p_state := p_state (procs t i)\<rparr>" by simp
    also have "\<dots> = procs t i" using assms by (simp add: pt_sim_def)
    finally show ?thesis .
  qed
  with a show ?thesis by (simp add: pt_sim_def)
qed

lemma running_sim: "running c s \<Longrightarrow> pt_sim (k_pt s) (k_pt s') \<Longrightarrow> running c s'"
  using pt_sim_sel[of "k_pt s" "k_pt s'"] by (simp add: running_def locks_free_def myproc_def)

lemma mypid_sim: "pt_sim (k_pt s) (k_pt s') \<Longrightarrow> mypid c s' = mypid c s"
  using pt_sim_sel[of "k_pt s" "k_pt s'"] by (simp add: mypid_def myproc_def)

lemma curproc_pid: "running c s \<Longrightarrow> bindK (curproc c) (\<lambda>p. bindK (procK p p_pid) f) s = f (mypid c s) s"
  by (auto simp: running_def curproc_def procK_def mypid_def bindK_def getK_def deref_def)

lemma wakeup_running:
  assumes "running c s"
  shows "\<exists>t. wakeupK c ch s = Ret ((), s\<lparr>k_pt := t\<rparr>) \<and> pt_sim (k_pt s) t"
proof -
  let ?t = "map_procs (wake (myproc c (k_pt s)) (Some ch)) NPROC (k_pt s)"
  have "wakeup c (Some ch) (k_pt s) = Ret ?t"
    using assms by (intro wakeup_ok) (simp add: running_def locks_free_def)
  moreover have "pt_sim (k_pt s) ?t"
    by (simp add: pt_sim_def map_procs_def wake_def)
  ultimately show ?thesis by (auto simp: wakeupK_def ptK_def)
qed

section \<open>Where a sleep lock is\<close>

locale sleep_lock_at =
  fixes lk :: slens
  assumes get_upd: "fst lk (snd lk f s) = f (fst lk s)"
    and upd_upd: "snd lk f (snd lk g s) = snd lk (f \<circ> g) s"
    and upd_cong: "f (fst lk s) = g (fst lk s) \<Longrightarrow> snd lk f s = snd lk g s"
    and upd_id: "snd lk (\<lambda>l. l) s = s"
    and pt_upd: "k_pt (snd lk f s) = k_pt s"
    and get_pt: "fst lk (s\<lparr>k_pt := t\<rparr>) = fst lk s"
    and upd_pt: "snd lk f (s\<lparr>k_pt := t\<rparr>) = (snd lk f s)\<lparr>k_pt := t\<rparr>"
begin

definition slheld :: "nat \<Rightarrow> kernel \<Rightarrow> kernel" where
  "slheld c = snd lk (sl_lk_update (held c))"

lemma acquire_sl_free: "lk_free (sl_lk (fst lk s)) \<Longrightarrow> acquire_sl c lk s = Ret ((), slheld c s)"
  by (simp add: acquire_sl_def acquireK_def slheld_def) (rule upd_cong, cases "fst lk s", simp add: held_def)

lemma slheld_upd:
  assumes "\<And>l :: sleeplock. f (sl_lk_update (held c) l) = sl_lk_update (held c) (f l)"
  shows "snd lk f (slheld c s) = slheld c (snd lk f s)"
  unfolding slheld_def upd_upd by (rule upd_cong) (simp add: assms)

lemma release_slheld: "lk_free (sl_lk (fst lk s)) \<Longrightarrow> release_sl c lk (slheld c s) = Ret ((), s)"
proof -
  assume free: "lk_free (sl_lk (fst lk s))"
  have "release_sl c lk (slheld c s) = Ret ((), snd lk (sl_lk_update (\<lambda>_. sl_lk (fst lk s))) (slheld c s))"
    using free by (simp add: release_sl_def releaseK_def slheld_def get_upd held_def)
  also have "snd lk (sl_lk_update (\<lambda>_. sl_lk (fst lk s))) (slheld c s) = snd lk (\<lambda>l. l) s"
    unfolding slheld_def upd_upd by (rule upd_cong) simp
  finally show ?thesis by (simp add: upd_id)
qed

lemma slheld_simps: "k_pt (slheld c s) = k_pt s" "slheld c (s\<lparr>k_pt := t\<rparr>) = (slheld c s)\<lparr>k_pt := t\<rparr>"
  "sl_locked (fst lk (slheld c s)) = sl_locked (fst lk s)" "sl_pid (fst lk (slheld c s)) = sl_pid (fst lk s)"
  by (simp_all add: slheld_def pt_upd upd_pt get_upd)

lemma running_slheld: "running c (slheld d s) = running c s" "mypid c (slheld d s) = mypid c s"
  by (simp_all add: running_def mypid_def slheld_simps)

lemma acquiresleep_free:
  assumes "running c s" "lk_free (sl_lk (fst lk s))" "\<not> sl_locked (fst lk s)"
  shows "acquiresleep c lk s = Ret ((), snd lk (\<lambda>l. l\<lparr>sl_locked := True, sl_pid := mypid c s\<rparr>) s)"
proof -
  let ?s1 = "snd lk (sl_locked_update (\<lambda>_. True)) s" and ?s2 = "snd lk (\<lambda>l. l\<lparr>sl_locked := True, sl_pid := mypid c s\<rparr>) s"
  have "running c (slheld c ?s1)" "mypid c (slheld c ?s1) = mypid c s"
    using assms(1) by (simp_all add: running_slheld) (simp_all add: running_def mypid_def pt_upd)
  moreover have "snd lk (sl_pid_update (\<lambda>_. mypid c s)) ?s1 = ?s2" unfolding upd_upd by (rule upd_cong) simp
  ultimately show ?thesis using assms(2,3)
    by (simp add: acquiresleep_def kop_simps acquire_sl_free slheld_simps slheld_upd curproc_pid[unfolded bindK_def] release_slheld get_upd)
qed

lemma releasesleep_ok:
  assumes "running c s" "lk_free (sl_lk (fst lk s))"
  shows "\<exists>t. releasesleep c lk ch s = Ret ((), (snd lk (\<lambda>l. l\<lparr>sl_locked := False, sl_pid := 0\<rparr>) s)\<lparr>k_pt := t\<rparr>) \<and> pt_sim (k_pt s) t"
proof -
  let ?s1 = "snd lk (\<lambda>l. l\<lparr>sl_locked := False, sl_pid := 0\<rparr>) s"
  have "running c (slheld c ?s1)" using assms(1) by (simp add: running_slheld) (simp add: running_def pt_upd)
  from wakeup_running[OF this, of ch] obtain t where
    "wakeupK c ch (slheld c ?s1) = Ret ((), (slheld c ?s1)\<lparr>k_pt := t\<rparr>)" "pt_sim (k_pt s) t"
    by (auto simp: slheld_simps pt_upd)
  moreover have "release_sl c lk (slheld c (?s1\<lparr>k_pt := t\<rparr>)) = Ret ((), ?s1\<lparr>k_pt := t\<rparr>)"
    using assms(2) by (intro release_slheld) (simp add: get_pt get_upd)
  ultimately show ?thesis using assms(2)
    by (intro exI[of _ t]) (simp add: releasesleep_def kop_simps acquire_sl_free slheld_upd slheld_simps)
qed

lemma holdingsleep_ok:
  assumes "running c s" "lk_free (sl_lk (fst lk s))"
  shows "holdingsleep c lk s = Ret (sl_locked (fst lk s) \<and> sl_pid (fst lk s) = mypid c s, s)"
  using assms
  by (simp add: holdingsleep_def kop_simps acquire_sl_free curproc_pid[unfolded bindK_def] running_slheld release_slheld slheld_simps)

end

section \<open>The locks of buffers\<close>

lemma upd_buf_simps [simp]:
  "k_pt (upd_buf b f s) = k_pt s" "k_disk (upd_buf b f s) = k_disk s" "k_trace (upd_buf b f s) = k_trace s" "k_log (upd_buf b f s) = k_log s"
  "bc_lock (k_bc (upd_buf b f s)) = bc_lock (k_bc s)" "bc_buf (k_bc (upd_buf b f s)) = (bc_buf (k_bc s))(b := f (bc_buf (k_bc s) b))"
  "upd_buf b f (upd_buf b g s) = upd_buf b (f \<circ> g) s" "upd_buf b f (s\<lparr>k_pt := t\<rparr>) = (upd_buf b f s)\<lparr>k_pt := t\<rparr>"
  by (simp_all add: upd_buf_def)

lemma upd_buf_cong: "f (bc_buf (k_bc s) b) = g (bc_buf (k_bc s) b) \<Longrightarrow> upd_buf b f s = upd_buf b g s"
  by (simp add: upd_buf_def)

lemma upd_buf_id: "f (bc_buf (k_bc s) b) = bc_buf (k_bc s) b \<Longrightarrow> upd_buf b f s = s"
  by (simp add: upd_buf_def)

lemma b_lock_update_cong: "f (b_lock x) = g (b_lock x) \<Longrightarrow> b_lock_update f x = b_lock_update g (x :: buf)"
  by (cases x) simp

interpretation bl: sleep_lock_at "buf_lock b"
proof
  show "fst (buf_lock b) (snd (buf_lock b) f s) = f (fst (buf_lock b) s)" for f s by (simp add: buf_lock_def)
  show "snd (buf_lock b) f (snd (buf_lock b) g s) = snd (buf_lock b) (f \<circ> g) s" for f g s
    by (simp add: buf_lock_def) (rule upd_buf_cong, simp)
  show "snd (buf_lock b) f s = snd (buf_lock b) g s" if "f (fst (buf_lock b) s) = g (fst (buf_lock b) s)" for f g s
    using that by (simp add: buf_lock_def) (rule upd_buf_cong, rule b_lock_update_cong)
  show "snd (buf_lock b) (\<lambda>l. l) s = s" for s by (simp add: buf_lock_def upd_buf_id)
qed (simp_all add: buf_lock_def)

end
