(* ===== verification/Bio_Ring.thy ===== *)
theory Bio_Ring
  imports Sleeplock_Laws
begin

text \<open>
  The list of buffers: following \<open>next\<close> from the head visits every buffer once and comes back, following \<open>prev\<close> visits
  them in the opposite order. The two scans of \<open>bget\<close> search these orders; \<open>brelse\<close> moves a buffer to the front.
\<close>

section \<open>Chains of pointers\<close>

primrec follows :: "(nat \<Rightarrow> nat) \<Rightarrow> nat \<Rightarrow> nat list \<Rightarrow> nat \<Rightarrow> bool" where
  "follows f a [] z \<longleftrightarrow> f a = z"
| "follows f a (x # xs) z \<longleftrightarrow> f a = x \<and> follows f x xs z"

lemma follows_append [simp]: "follows f a (xs @ x # ys) z \<longleftrightarrow> follows f a xs x \<and> follows f x ys z"
  by (induction xs arbitrary: a) auto

lemma follows_cong: "f' a' = f a \<Longrightarrow> (\<forall>x\<in>set xs. f' x = f x) \<Longrightarrow> follows f' a' xs z = follows f a xs z"
  by (induction xs arbitrary: a a') auto

lemma follows_redirect: "follows f a xs z \<Longrightarrow> distinct (a # xs) \<Longrightarrow> follows (f(last (a # xs) := w)) a xs w"
proof (induction xs arbitrary: a)
  case (Cons x xs)
  then show ?case by auto
qed simp

lemma follows_last: "follows f a xs z \<Longrightarrow> f (last (a # xs)) = z"
  by (induction xs arbitrary: a) auto

lemma follows_hd: "follows f a xs z \<Longrightarrow> f a = hd (xs @ [z])"
  by (cases xs) auto

text \<open>Taking an element out of a ring, and putting it in after the head or before it.\<close>

lemma follows_unlink:
  assumes "follows f a (xs @ b # ys) z" "distinct (a # xs @ b # ys)"
  shows "follows (f(last (a # xs) := f b)) a (xs @ ys) z"
proof -
  let ?f = "f(last (a # xs) := f b)"
  have xs: "follows f a xs b" and ys: "follows f b ys z" using assms(1) by auto
  have l: "last (a # xs) \<in> set (a # xs)" by (rule last_in_set) simp
  have r: "follows ?f a xs (f b)" using follows_redirect[OF xs] assms(2) by simp
  show ?thesis
  proof (cases ys)
    case Nil
    then show ?thesis using r ys by simp
  next
    case (Cons y ys')
    have "follows ?f y ys' z = follows f y ys' z" using l assms(2) Cons by (intro follows_cong) auto
    then show ?thesis using r ys Cons by simp
  qed
qed

lemma follows_push:
  assumes "follows f a xs z" "b \<notin> set xs" "a \<notin> set xs" "a \<noteq> b"
  shows "follows (f(b := f a, a := b)) a (b # xs) z"
proof -
  have "follows (f(b := f a, a := b)) b xs z = follows f a xs z" using assms by (intro follows_cong) auto
  then show ?thesis using assms by simp
qed

lemma follows_snoc:
  assumes "follows f a xs z" "distinct (a # xs)" "b \<notin> set (a # xs)"
  shows "follows (f(b := z, last (a # xs) := b)) a (xs @ [b]) z"
proof -
  have "follows (f(b := z)) a xs z = follows f a xs z" using assms(3) by (intro follows_cong) auto
  then have "follows (f(b := z, last (a # xs) := b)) a xs b" using follows_redirect[OF _ assms(2)] assms(1) by simp
  moreover have "last (a # xs) \<noteq> b" using assms(3) last_in_set[of "a # xs"] by auto
  ultimately show ?thesis by simp
qed

section \<open>The ring\<close>

definition ring :: "nat list \<Rightarrow> (nat \<Rightarrow> buf) \<Rightarrow> bool" where
  "ring L B \<longleftrightarrow> distinct L \<and> set L = {..<NBUF} \<and> follows (b_next \<circ> B) NBUF L NBUF \<and> follows (b_prev \<circ> B) NBUF (rev L) NBUF"

lemma ring_cong: "(\<And>b. b_next (B' b) = b_next (B b) \<and> b_prev (B' b) = b_prev (B b)) \<Longrightarrow> ring L B' = ring L B"
proof -
  assume "\<And>b. b_next (B' b) = b_next (B b) \<and> b_prev (B' b) = b_prev (B b)"
  then have "b_next \<circ> B' = b_next \<circ> B" "b_prev \<circ> B' = b_prev \<circ> B" by auto
  then show ?thesis by (simp add: ring_def)
qed

lemma bget_cached_chain:
  assumes "follows (b_next \<circ> B) a xs NBUF" "NBUF \<notin> set xs" "length xs < fuel"
  shows "bget_cached fuel (b_next (B a)) dev bn B = Ret (find (\<lambda>b. b_dev (B b) = dev \<and> b_blockno (B b) = bn) xs)"
  using assms
proof (induction xs arbitrary: a fuel)
  case Nil
  then show ?case by (cases fuel) auto
next
  case (Cons x xs)
  then show ?case by (cases fuel) auto
qed

lemma bget_unused_chain:
  assumes "follows (b_prev \<circ> B) a xs NBUF" "NBUF \<notin> set xs" "length xs < fuel"
  shows "bget_unused fuel (b_prev (B a)) B = Ret (find (\<lambda>b. b_refcnt (B b) = 0) xs)"
  using assms
proof (induction xs arbitrary: a fuel)
  case Nil
  then show ?case by (cases fuel) auto
next
  case (Cons x xs)
  then show ?case by (cases fuel) auto
qed

lemma ring_length: "ring L B \<Longrightarrow> length L = NBUF"
  using distinct_card[of L] by (simp add: ring_def)

lemma ring_scans:
  assumes "ring L B"
  shows "bget_cached (NBUF + 1) (b_next (B NBUF)) dev bn B = Ret (find (\<lambda>b. b_dev (B b) = dev \<and> b_blockno (B b) = bn) L)"
    "bget_unused (NBUF + 1) (b_prev (B NBUF)) B = Ret (find (\<lambda>b. b_refcnt (B b) = 0) (rev L))"
proof -
  have c: "follows (b_next \<circ> B) NBUF L NBUF" "follows (b_prev \<circ> B) NBUF (rev L) NBUF" "NBUF \<notin> set L" "length L < NBUF + 1"
    using assms ring_length[OF assms] by (simp_all add: ring_def)
  show "bget_cached (NBUF + 1) (b_next (B NBUF)) dev bn B = Ret (find (\<lambda>b. b_dev (B b) = dev \<and> b_blockno (B b) = bn) L)"
    by (rule bget_cached_chain[OF c(1,3,4)])
  show "bget_unused (NBUF + 1) (b_prev (B NBUF)) B = Ret (find (\<lambda>b. b_refcnt (B b) = 0) (rev L))"
    by (rule bget_unused_chain[OF c(2)]) (use c(3,4) in simp_all)
qed

text \<open>\<open>unlink\<close> and \<open>link_front\<close> change the pointers only.\<close>

definition same_bufs :: "(nat \<Rightarrow> buf) \<Rightarrow> (nat \<Rightarrow> buf) \<Rightarrow> bool" where
  "same_bufs B B' \<longleftrightarrow> (\<forall>b. (B' b)\<lparr>b_next := b_next (B b), b_prev := b_prev (B b)\<rparr> = B b)"

lemma same_bufs_unlink: "same_bufs B (unlink b B)"
  by (auto simp: same_bufs_def unlink_def Let_def)

lemma same_bufs_link: "same_bufs B (link_front b B)"
  by (auto simp: same_bufs_def link_front_def Let_def)

lemma same_bufs_trans: "same_bufs B B' \<Longrightarrow> same_bufs B' B'' \<Longrightarrow> same_bufs B B''"
  unfolding same_bufs_def
proof
  fix b assume a: "\<forall>b. (B' b)\<lparr>b_next := b_next (B b), b_prev := b_prev (B b)\<rparr> = B b"
    "\<forall>b. (B'' b)\<lparr>b_next := b_next (B' b), b_prev := b_prev (B' b)\<rparr> = B' b"
  have "(B'' b)\<lparr>b_next := b_next (B b), b_prev := b_prev (B b)\<rparr>
    = ((B'' b)\<lparr>b_next := b_next (B' b), b_prev := b_prev (B' b)\<rparr>)\<lparr>b_next := b_next (B b), b_prev := b_prev (B b)\<rparr>" by simp
  also have "\<dots> = B b" using a by simp
  finally show "(B'' b)\<lparr>b_next := b_next (B b), b_prev := b_prev (B b)\<rparr> = B b" .
qed

lemma same_bufs_sel:
  assumes "same_bufs B B'"
  shows "b_valid (B' b) = b_valid (B b) \<and> b_dev (B' b) = b_dev (B b) \<and> b_blockno (B' b) = b_blockno (B b) \<and> b_lock (B' b) = b_lock (B b) \<and>
    b_refcnt (B' b) = b_refcnt (B b) \<and> b_data (B' b) = b_data (B b)"
proof -
  have "(B' b)\<lparr>b_next := b_next (B b), b_prev := b_prev (B b)\<rparr> = B b" using assms by (simp add: same_bufs_def)
  then show ?thesis by (cases "B b"; cases "B' b") simp
qed

text \<open>The neighbours of a buffer in the ring.\<close>

lemma ring_neighbours:
  assumes "ring (xs @ b # ys) B"
  shows "b_prev (B b) = last (NBUF # xs)" "b_next (B b) = last (NBUF # rev ys)" "b \<noteq> NBUF" "b_next (B b) \<noteq> b" "b_prev (B b) \<noteq> b"
proof -
  have d: "distinct (NBUF # xs @ b # ys)" using assms by (auto simp: ring_def)
  have "follows (b_prev \<circ> B) NBUF (rev ys @ b # rev xs) NBUF" using assms by (simp add: ring_def)
  then have "follows (b_prev \<circ> B) b (rev xs) NBUF" by (simp only: follows_append)
  from follows_hd[OF this] show p: "b_prev (B b) = last (NBUF # xs)" by (cases xs rule: rev_cases) auto
  have "follows (b_next \<circ> B) b ys NBUF" using assms by (simp add: ring_def)
  from follows_hd[OF this] show n: "b_next (B b) = last (NBUF # rev ys)" by (cases ys) auto
  show "b \<noteq> NBUF" using d by auto
  show "b_prev (B b) \<noteq> b" using d p last_in_set[of "NBUF # xs"] by auto
  show "b_next (B b) \<noteq> b" using d n last_in_set[of "NBUF # rev ys"] by auto
qed

lemma link_front_pointers:
  assumes "b \<noteq> NBUF"
  shows "b_next \<circ> link_front b B = (b_next \<circ> B)(b := b_next (B NBUF), NBUF := b)"
    "b_prev \<circ> link_front b B = (b_prev \<circ> B)(b := NBUF, b_next (B NBUF) := b)"
  using assms by (auto simp: link_front_def Let_def fun_eq_iff)

lemma unlink_pointers:
  assumes "b_next (B b) \<noteq> b"
  shows "b_next \<circ> unlink b B = (b_next \<circ> B)(b_prev (B b) := b_next (B b))" "b_prev \<circ> unlink b B = (b_prev \<circ> B)(b_next (B b) := b_prev (B b))"
  using assms by (auto simp: unlink_def Let_def fun_eq_iff)

lemma move_front_pointers:
  assumes "ring (xs @ b # ys) B"
  shows "b_next \<circ> link_front b (unlink b B)
      = (let f = (b_next \<circ> B)(last (NBUF # xs) := (b_next \<circ> B) b) in f(b := f NBUF, NBUF := b))"
    "b_prev \<circ> link_front b (unlink b B)
      = (let g = (b_prev \<circ> B)(last (NBUF # rev ys) := (b_prev \<circ> B) b) in g(b := NBUF, ((b_next \<circ> B)(last (NBUF # xs) := (b_next \<circ> B) b)) NBUF := b))"
proof -
  note nb = ring_neighbours[OF assms]
  have n: "b_next (unlink b B NBUF) = ((b_next \<circ> B)(last (NBUF # xs) := (b_next \<circ> B) b)) NBUF"
    unfolding nb(1)[symmetric] unlink_pointers(1)[of B b, OF nb(4), unfolded comp_def, THEN fun_cong] by (simp add: comp_def)
  show "b_next \<circ> link_front b (unlink b B)
      = (let f = (b_next \<circ> B)(last (NBUF # xs) := (b_next \<circ> B) b) in f(b := f NBUF, NBUF := b))"
    unfolding link_front_pointers[OF nb(3)] unlink_pointers[of B b, OF nb(4)] n Let_def nb(1) comp_apply ..
  show "b_prev \<circ> link_front b (unlink b B)
      = (let g = (b_prev \<circ> B)(last (NBUF # rev ys) := (b_prev \<circ> B) b) in g(b := NBUF, ((b_next \<circ> B)(last (NBUF # xs) := (b_next \<circ> B) b)) NBUF := b))"
    unfolding link_front_pointers[OF nb(3)] unlink_pointers[of B b, OF nb(4)] n Let_def nb(2) comp_apply ..
qed

lemma ring_move_front:
  assumes "ring (xs @ b # ys) B"
  shows "ring (b # xs @ ys) (link_front b (unlink b B))"
proof -
  let ?f = "(b_next \<circ> B)(last (NBUF # xs) := (b_next \<circ> B) b)" and ?g = "(b_prev \<circ> B)(last (NBUF # rev ys) := (b_prev \<circ> B) b)"
  have r: "follows (b_next \<circ> B) NBUF (xs @ b # ys) NBUF" "follows (b_prev \<circ> B) NBUF (rev ys @ b # rev xs) NBUF"
    "set (xs @ b # ys) = {..<NBUF}" and d: "distinct (NBUF # xs @ b # ys)" "distinct (NBUF # rev ys @ b # rev xs)"
    using assms by (auto simp: ring_def)
  have f: "follows ?f NBUF (xs @ ys) NBUF" by (rule follows_unlink[OF r(1) d(1)])
  have g: "follows ?g NBUF (rev ys @ rev xs) NBUF" by (rule follows_unlink[OF r(2) d(2)])
  have "follows (?f(b := ?f NBUF, NBUF := b)) NBUF (b # xs @ ys) NBUF" using d(1) by (intro follows_push[OF f]) auto
  moreover have n: "?f NBUF = last (NBUF # rev ys @ rev xs)" using follows_hd[OF f] by (cases xs; cases ys) auto
  have d': "distinct (NBUF # rev ys @ rev xs)" "b \<notin> set (NBUF # rev ys @ rev xs)" using d(1) by auto
  have "follows (?g(b := NBUF, ?f NBUF := b)) NBUF ((rev ys @ rev xs) @ [b]) NBUF"
    unfolding n by (rule follows_snoc[OF g d'])
  ultimately show ?thesis using r(3) d(1) unfolding ring_def move_front_pointers[OF assms] by (simp add: Let_def insert_commute)
qed

section \<open>\<open>binit\<close> makes a ring\<close>

lemma binit_ring: "ring (rev [0..<NBUF]) (bc_buf (binit bc))"
proof -
  define F where "F = (\<lambda>b B. link_front b (B(b := (B b)\<lparr>b_lock := initsleeplock ''buffer''\<rparr>)))"
  define B0 where "B0 = (bc_buf bc)(NBUF := (bc_buf bc NBUF)\<lparr>b_prev := NBUF, b_next := NBUF\<rparr>)"
  have "k \<le> NBUF \<Longrightarrow> follows (b_next \<circ> fold F [0..<k] B0) NBUF (rev [0..<k]) NBUF \<and> follows (b_prev \<circ> fold F [0..<k] B0) NBUF [0..<k] NBUF" for k
  proof (induction k)
    case 0
    show ?case by (simp add: B0_def)
  next
    case (Suc k)
    let ?B = "fold F [0..<k] B0" and ?B' = "(fold F [0..<k] B0)(k := (fold F [0..<k] B0 k)\<lparr>b_lock := initsleeplock ''buffer''\<rparr>)"
    have k: "k \<noteq> NBUF" using Suc.prems by simp
    have pts: "b_next \<circ> ?B' = b_next \<circ> ?B" "b_prev \<circ> ?B' = b_prev \<circ> ?B" by (auto simp: fun_eq_iff)
    have "k \<le> NBUF" using Suc.prems by simp
    note IH = conjunct1[OF Suc.IH[OF this]] conjunct2[OF Suc.IH[OF this]]
    have n: "b_next (?B' NBUF) = (b_next \<circ> ?B) NBUF" using k by simp
    have "follows ((b_next \<circ> ?B)(k := (b_next \<circ> ?B) NBUF, NBUF := k)) NBUF (k # rev [0..<k]) NBUF"
      using Suc.prems by (intro follows_push[OF IH(1)]) auto
    moreover have last: "(b_next \<circ> ?B) NBUF = last (NBUF # [0..<k])" using follows_hd[OF IH(1)] by (cases k) auto
    have d: "distinct (NBUF # [0..<k])" "k \<notin> set (NBUF # [0..<k])" using Suc.prems by auto
    have "follows ((b_prev \<circ> ?B)(k := NBUF, (b_next \<circ> ?B) NBUF := k)) NBUF ([0..<k] @ [k]) NBUF"
      unfolding last by (rule follows_snoc[OF IH(2) d])
    moreover have eqs: "fold F [0..<Suc k] B0 = link_front k ?B'" "rev [0..<Suc k] = k # rev [0..<k]" "[0..<Suc k] = [0..<k] @ [k]"
      by (simp_all add: F_def)
    ultimately show ?case unfolding eqs(1,2) link_front_pointers[OF k] pts n unfolding eqs(3) by blast
  qed
  note pts = this[OF order_refl]
  have "bc_buf (binit bc) = fold F [0..<NBUF] B0" by (simp only: binit_def F_def B0_def Let_def bcache.simps)
  then show ?thesis using pts
    by (simp only: ring_def rev_rev_ident distinct_rev distinct_upt set_rev set_upt lessThan_atLeast0 simp_thms)
qed

end
