(* ===== verification/Bio_View.thy ===== *)
theory Bio_View
  imports Bio_Ring
begin

text \<open>
  The buffer cache as a cache: what a block contains as seen through it (\<open>view\<close>), the invariant that makes this well
  defined, and what \<open>bread\<close>, \<open>bwrite\<close>, \<open>brelse\<close>, \<open>bpin\<close> and \<open>bunpin\<close> do to the view and to the disk.
\<close>

section \<open>Invariant and view\<close>

abbreviation bufs :: "kernel \<Rightarrow> nat \<Rightarrow> buf" where
  "bufs s \<equiv> bc_buf (k_bc s)"

text \<open>
  There is one disk, and all blocks belong to \<open>ROOTDEV\<close>. A buffer that is held (\<open>h\<close>) by the caller, whose pid is \<open>pid\<close>, or pinned (\<open>p\<close>): each counts as one reference. A
  buffer that is neither has the contents the disk has, if it has any.
\<close>

definition buf_ok :: "int \<Rightarrow> bool \<Rightarrow> bool \<Rightarrow> (nat \<Rightarrow> u8 list) \<Rightarrow> buf \<Rightarrow> bool" where
  "buf_ok pid h p D x \<longleftrightarrow>
    lk_free (sl_lk (b_lock x)) \<and> sl_locked (b_lock x) = h \<and> (h \<longrightarrow> sl_pid (b_lock x) = pid) \<and> b_refcnt x = of_bool h + of_bool p \<and>
    (h \<or> p \<longrightarrow> b_valid x) \<and>
    (b_valid x \<longrightarrow> b_dev x = ROOTDEV \<and> length (b_data x) = BSIZE \<and> (\<not> h \<and> \<not> p \<longrightarrow> b_data x = D (b_blockno x)))"

definition blk :: "buf \<Rightarrow> nat \<times> nat" where
  "blk x = (b_dev x, b_blockno x)"

text \<open>\<open>H\<close> is the set of buffers the caller holds, \<open>Q\<close> the set of blocks that are pinned.\<close>

definition bio_ok :: "nat \<Rightarrow> nat set \<Rightarrow> (nat \<times> nat) set \<Rightarrow> kernel \<Rightarrow> bool" where
  "bio_ok c H Q s \<longleftrightarrow>
    running c s \<and> lk_free (bc_lock (k_bc s)) \<and> (\<exists>L. ring L (bufs s)) \<and> (\<forall>n. length (k_disk s n) = BSIZE) \<and> H \<subseteq> {..<NBUF} \<and>
    (\<forall>b<NBUF. buf_ok (mypid c s) (b \<in> H) (blk (bufs s b) \<in> Q) (k_disk s) (bufs s b)) \<and>
    (\<forall>q\<in>Q. fst q \<noteq> 0 \<and> (\<exists>b<NBUF. blk (bufs s b) = q)) \<and>
    (\<forall>a<NBUF. \<forall>b<NBUF. b_dev (bufs s a) \<noteq> 0 \<longrightarrow> blk (bufs s a) = blk (bufs s b) \<longrightarrow> a = b)"

definition view :: "kernel \<Rightarrow> nat \<times> nat \<Rightarrow> u8 list" where
  "view s q =
    (case find (\<lambda>b. blk (bufs s b) = q \<and> b_valid (bufs s b)) [0..<NBUF] of
       Some b \<Rightarrow> b_data (bufs s b) | None \<Rightarrow> k_disk s (snd q))"

lemma bio_okD:
  assumes "bio_ok c H Q s"
  shows "running c s" "lk_free (bc_lock (k_bc s))" "\<exists>L. ring L (bufs s)" "\<And>n. length (k_disk s n) = BSIZE" "H \<subseteq> {..<NBUF}"
    "\<And>b. b < NBUF \<Longrightarrow> buf_ok (mypid c s) (b \<in> H) (blk (bufs s b) \<in> Q) (k_disk s) (bufs s b)"
    "\<And>q. q \<in> Q \<Longrightarrow> fst q \<noteq> 0 \<and> (\<exists>b<NBUF. blk (bufs s b) = q)"
    "\<And>a b. a < NBUF \<Longrightarrow> b < NBUF \<Longrightarrow> b_dev (bufs s a) \<noteq> 0 \<Longrightarrow> blk (bufs s a) = blk (bufs s b) \<Longrightarrow> a = b"
  using assms unfolding bio_ok_def by blast+

lemma fst_blk [simp]: "fst (blk x) = b_dev x" "snd (blk x) = b_blockno x"
  by (simp_all add: blk_def)

lemma view_cached:
  assumes ok: "bio_ok c H Q s" and b: "b < NBUF" "blk (bufs s b) = q" "b_valid (bufs s b)" "fst q \<noteq> 0"
  shows "view s q = b_data (bufs s b)"
proof -
  let ?P = "\<lambda>b. blk (bufs s b) = q \<and> b_valid (bufs s b)"
  obtain a where a: "find ?P [0..<NBUF] = Some a"
    using b by (cases "find ?P [0..<NBUF]") (auto simp: find_None_iff)
  then have "a < NBUF" "blk (bufs s a) = q" by (auto simp: find_Some_iff)
  then have "a = b" using bio_okD(8)[OF ok, of a b] b by auto
  then show ?thesis using a by (simp add: view_def)
qed

lemma view_uncached: "\<not> (\<exists>b<NBUF. blk (bufs s b) = q \<and> b_valid (bufs s b)) \<Longrightarrow> view s q = k_disk s (snd q)"
proof -
  assume "\<not> (\<exists>b<NBUF. blk (bufs s b) = q \<and> b_valid (bufs s b))"
  then have "find (\<lambda>b. blk (bufs s b) = q \<and> b_valid (bufs s b)) [0..<NBUF] = None" by (auto simp: find_None_iff)
  then show ?thesis by (simp add: view_def)
qed

lemma view_cong: "bufs s' = bufs s \<Longrightarrow> k_disk s' = k_disk s \<Longrightarrow> view s' q = view s q"
  by (simp only: view_def)

lemma view_length:
  assumes "bio_ok c H Q s" "fst q \<noteq> 0"
  shows "length (view s q) = BSIZE"
proof (cases "\<exists>b<NBUF. blk (bufs s b) = q \<and> b_valid (bufs s b)")
  case True
  then obtain b where b: "b < NBUF" "blk (bufs s b) = q" "b_valid (bufs s b)" by blast
  show ?thesis using view_cached[OF assms(1) b assms(2)] bio_okD(6)[OF assms(1) b(1)] b(3) by (simp add: buf_ok_def)
next
  case False
  then show ?thesis using view_uncached bio_okD(4)[OF assms(1)] by simp
qed

text \<open>A block that is neither pinned nor in a buffer that is held is on the disk as it is seen.\<close>

lemma view_clean:
  assumes ok: "bio_ok c H Q s" "fst q \<noteq> 0" "q \<notin> Q" "q \<notin> (\<lambda>b. blk (bufs s b)) ` H"
  shows "view s q = k_disk s (snd q)"
proof (cases "\<exists>b<NBUF. blk (bufs s b) = q \<and> b_valid (bufs s b)")
  case True
  then obtain b where b: "b < NBUF" "blk (bufs s b) = q" "b_valid (bufs s b)" by blast
  then have "b \<notin> H" using assms(4) by auto
  moreover have "b_blockno (bufs s b) = snd q" using b(2) by auto
  ultimately show ?thesis using view_cached[OF ok(1) b ok(2)] bio_okD(6)[OF ok(1) b(1)] b(2,3) assms(3) by (simp add: buf_ok_def)
next
  case False
  then show ?thesis by (rule view_uncached)
qed

section \<open>The lock of the cache\<close>

definition bcheld :: "nat \<Rightarrow> kernel \<Rightarrow> kernel" where
  "bcheld c s = s\<lparr>k_bc := (k_bc s)\<lparr>bc_lock := held c (bc_lock (k_bc s))\<rparr>\<rparr>"

lemma acquire_bc_free: "lk_free (bc_lock (k_bc s)) \<Longrightarrow> acquire_bc c s = Ret ((), bcheld c s)"
  by (simp add: acquire_bc_def acquireK_def bcheld_def held_def)

lemma release_bcheld: "lk_free (bc_lock (k_bc s)) \<Longrightarrow> release_bc c (bcheld c s) = Ret ((), s)"
  by (simp add: release_bc_def releaseK_def bcheld_def held_def)

lemma bcheld_simps [simp]: "bufs (bcheld c s) = bufs s" "k_pt (bcheld c s) = k_pt s" "upd_buf b f (bcheld c s) = bcheld c (upd_buf b f s)"
  by (simp_all add: bcheld_def upd_buf_def)

definition hold_buf :: "int \<Rightarrow> buf \<Rightarrow> buf" where
  "hold_buf pid x = x\<lparr>b_lock := (b_lock x)\<lparr>sl_locked := True, sl_pid := pid\<rparr>\<rparr>"

lemma lock_buf:
  assumes "running c s" "lk_free (sl_lk (b_lock (bufs s b)))" "\<not> sl_locked (b_lock (bufs s b))"
  shows "acquiresleep c (buf_lock b) s = Ret ((), upd_buf b (hold_buf (mypid c s)) s)"
proof -
  have "acquiresleep c (buf_lock b) s = Ret ((), snd (buf_lock b) (\<lambda>l. l\<lparr>sl_locked := True, sl_pid := mypid c s\<rparr>) s)"
    using assms by (intro bl.acquiresleep_free) (simp_all add: buf_lock_def)
  also have "snd (buf_lock b) (\<lambda>l. l\<lparr>sl_locked := True, sl_pid := mypid c s\<rparr>) s = upd_buf b (hold_buf (mypid c s)) s"
    by (simp add: buf_lock_def) (rule upd_buf_cong, cases "bufs s b", simp add: hold_buf_def)
  finally show ?thesis .
qed

section \<open>\<open>bget\<close>\<close>

lemma bget_run:
  assumes ok: "bio_ok c H Q s" and L: "ring L (bufs s)"
  shows "bget c dev bn s =
    (case find (\<lambda>b. blk (bufs s b) = (dev, bn)) L of
       Some b \<Rightarrow> bind_res (acquiresleep c (buf_lock b) (upd_buf b (\<lambda>x. x\<lparr>b_refcnt := b_refcnt x + 1\<rparr>) s)) (\<lambda>(_, s'). Ret (b, s'))
     | None \<Rightarrow> (case find (\<lambda>b. b_refcnt (bufs s b) = 0) (rev L) of
         Some b \<Rightarrow> bind_res (acquiresleep c (buf_lock b) (upd_buf b (\<lambda>x. x\<lparr>b_dev := dev, b_blockno := bn, b_valid := False, b_refcnt := 1\<rparr>) s)) (\<lambda>(_, s'). Ret (b, s'))
       | None \<Rightarrow> Panic ''bget: no buffers''))"
proof -
  have "(\<lambda>b. b_dev (bufs s b) = dev \<and> b_blockno (bufs s b) = bn) = (\<lambda>b. blk (bufs s b) = (dev, bn))" by (auto simp: blk_def)
  then show ?thesis using bio_okD(2)[OF ok] ring_scans[OF L]
    by (simp add: bget_def kop_simps acquire_bc_free release_bcheld setbufK_def del: bget_cached.simps bget_unused.simps split: option.split)
qed

section \<open>Changing one buffer\<close>

lemma bio_ok_upd:
  assumes ok: "bio_ok c H Q s" and b: "b < NBUF" and ptrs: "b_next x = b_next (bufs s b)" "b_prev x = b_prev (bufs s b)"
    and x: "buf_ok (mypid c s) h (blk x \<in> Q) (k_disk s) x"
    and blk: "blk x = blk (bufs s b) \<or> (\<forall>a<NBUF. blk (bufs s a) \<noteq> blk x) \<and> blk (bufs s b) \<notin> Q"
  shows "bio_ok c (if h then insert b H else H - {b}) Q (upd_buf b (\<lambda>_. x) s)"
proof -
  let ?s = "upd_buf b (\<lambda>_. x) s" and ?H = "if h then insert b H else H - {b}"
  note d = bio_okD[OF ok]
  have pid: "mypid c ?s = mypid c s" by (simp add: mypid_def)
  have B: "bufs ?s = (bufs s)(b := x)" by simp
  have r: "running c ?s" "lk_free (bc_lock (k_bc ?s))" "\<And>n. length (k_disk ?s n) = BSIZE" "?H \<subseteq> {..<NBUF}"
    using d(1,2,4,5) b by (auto simp: running_def)
  have ring: "\<exists>L. ring L (bufs ?s)" using d(3) ring_cong[of "bufs ?s" "bufs s"] ptrs by simp
  have bo: "buf_ok (mypid c ?s) (a \<in> ?H) (blk (bufs ?s a) \<in> Q) (k_disk ?s) (bufs ?s a)" if "a < NBUF" for a
    using d(6)[OF that] x by (cases "a = b"; cases h) (simp_all add: pid)
  have pin: "fst q \<noteq> 0 \<and> (\<exists>b<NBUF. blk (bufs ?s b) = q)" if q: "q \<in> Q" for q
  proof -
    from d(7)[OF q] obtain a where a: "fst q \<noteq> 0" "a < NBUF" "blk (bufs s a) = q" by blast
    show ?thesis
    proof (cases "a = b")
      case True
      then have "blk x = q" using blk a(3) q by auto
      then show ?thesis using a(1) b B by auto
    next
      case False
      then show ?thesis using a B by auto
    qed
  qed
  have uniq: "a = a'" if a: "a < NBUF" "a' < NBUF" "b_dev (bufs ?s a) \<noteq> 0" "blk (bufs ?s a) = blk (bufs ?s a')" for a a'
  proof (cases "a = b \<or> a' = b")
    case False
    then show ?thesis using d(8)[of a a'] a B by simp
  next
    case True
    then obtain z where z: "(a = b \<and> a' = z) \<or> (a' = b \<and> a = z)" "z < NBUF" using a by blast
    show ?thesis
    proof (rule ccontr)
      assume n: "a \<noteq> a'"
      then have zb: "z \<noteq> b" and zx: "blk (bufs s z) = blk x" using z a(4) B by auto
      moreover have "b_dev (bufs s z) \<noteq> 0" using z a(3,4) n B zx by (metis fst_blk(1) fun_upd_other fun_upd_same)
      ultimately show False using blk d(8)[of z b] z(2) b by metis
    qed
  qed
  show ?thesis unfolding bio_ok_def using r ring bo pin uniq by blast
qed

lemma view_upd:
  assumes ok: "bio_ok c H Q s" "bio_ok c H' Q' (upd_buf b (\<lambda>_. x) s)" and b: "b < NBUF" and x: "b_valid x" and q: "fst q \<noteq> 0"
  shows "view (upd_buf b (\<lambda>_. x) s) q =
    (if q = blk x then b_data x else if q = blk (bufs s b) then k_disk s (snd q) else view s q)"
proof -
  let ?s = "upd_buf b (\<lambda>_. x) s"
  consider "q = blk x" | "q \<noteq> blk x" "q = blk (bufs s b)" | "q \<noteq> blk x" "q \<noteq> blk (bufs s b)" by blast
  then show ?thesis
  proof cases
    case 1
    then show ?thesis using view_cached[OF ok(2) b, of q] x q by simp
  next
    case 2
    have "\<not> (\<exists>a<NBUF. blk (bufs ?s a) = q \<and> b_valid (bufs ?s a))"
    proof
      assume "\<exists>a<NBUF. blk (bufs ?s a) = q \<and> b_valid (bufs ?s a)"
      then obtain a where a: "a < NBUF" "blk (bufs ?s a) = q" by blast
      then have "a \<noteq> b" using 2 by auto
      then have "blk (bufs s b) = blk (bufs s a)" using a 2 by simp
      moreover have "b_dev (bufs s b) \<noteq> 0" using 2 q by simp
      ultimately show False using bio_okD(8)[OF ok(1) b a(1)] \<open>a \<noteq> b\<close> by simp
    qed
    from view_uncached[OF this] 2 show ?thesis by simp
  next
    case 3
    have "(\<lambda>a. blk (bufs ?s a) = q \<and> b_valid (bufs ?s a)) = (\<lambda>a. blk (bufs s a) = q \<and> b_valid (bufs s a))"
      using 3 by (auto simp: fun_eq_iff)
    moreover have "b_data (bufs ?s a) = b_data (bufs s a)" if "find (\<lambda>a. blk (bufs s a) = q \<and> b_valid (bufs s a)) [0..<NBUF] = Some a" for a
      using that 3 by (auto simp: find_Some_iff)
    ultimately show ?thesis using 3 by (simp add: view_def split: option.split)
  qed
qed

section \<open>\<open>bread\<close>\<close>

text \<open>There is a buffer nobody uses when fewer than \<open>NBUF\<close> are held or pinned.\<close>

lemma find_SomeD: "find P xs = Some x \<Longrightarrow> x \<in> set xs \<and> P x"
  by (induction xs) (auto split: if_splits)

lemma spare_buffer:
  assumes ok: "bio_ok c H Q s" and few: "card H + card Q < NBUF" "finite Q"
  shows "\<exists>b<NBUF. b_refcnt (bufs s b) = 0"
proof (rule ccontr)
  assume "\<not> ?thesis"
  then have used: "b \<in> H \<or> blk (bufs s b) \<in> Q" if "b < NBUF" for b
    using bio_okD(6)[OF ok that] that by (auto simp: buf_ok_def)
  let ?U = "{b. b < NBUF \<and> b \<notin> H}"
  have "inj_on (\<lambda>b. blk (bufs s b)) ?U"
  proof (rule inj_onI)
    fix a b assume a: "a \<in> ?U" "b \<in> ?U" "blk (bufs s a) = blk (bufs s b)"
    then have "b_dev (bufs s a) \<noteq> 0" using used[of a] bio_okD(6)[OF ok, of a] by (auto simp: buf_ok_def)
    then show "a = b" using bio_okD(8)[OF ok] a by blast
  qed
  moreover have "(\<lambda>b. blk (bufs s b)) ` ?U \<subseteq> Q" using used by blast
  ultimately have U: "card ?U \<le> card Q" using few(2) by (rule card_inj_on_le)
  have "{..<NBUF} \<subseteq> H \<union> ?U" by auto
  moreover have fin: "finite H" using bio_okD(5)[OF ok] finite_subset by blast
  ultimately have "card {..<NBUF} \<le> card (H \<union> ?U)" by (intro card_mono) auto
  then have "NBUF \<le> card H + card ?U" using card_Un_le[of H ?U] by simp
  then show False using U few(1) by linarith
qed

text \<open>A buffer, read and locked: what \<open>bread\<close> makes of the buffer \<open>x\<close> it has chosen.\<close>

definition read_buf :: "int \<Rightarrow> nat \<times> nat \<Rightarrow> (nat \<Rightarrow> u8 list) \<Rightarrow> bool \<Rightarrow> buf \<Rightarrow> buf" where
  "read_buf pid q D pinned x =
    (hold_buf pid x)\<lparr>b_dev := fst q, b_blockno := snd q, b_valid := True, b_refcnt := 1 + of_bool pinned,
       b_data := (if blk x = q \<and> b_valid x then b_data x else D (snd q))\<rparr>"

lemma read_buf_simps [simp]:
  "blk (read_buf pid q D p x) = q" "b_valid (read_buf pid q D p x)" "b_next (read_buf pid q D p x) = b_next x"
  "b_prev (read_buf pid q D p x) = b_prev x" "b_data (read_buf pid q D p x) = (if blk x = q \<and> b_valid x then b_data x else D (snd q))"
  by (simp_all add: read_buf_def hold_buf_def blk_def)

lemma buf_ok_read:
  assumes "buf_ok pid False (blk x \<in> Q) D x" "fst q = ROOTDEV" "\<And>n. length (D n) = BSIZE"
  shows "buf_ok pid True p D (read_buf pid q D p x)"
  using assms by (auto simp: buf_ok_def read_buf_def hold_buf_def)

lemma running_upd [simp]: "running c (upd_buf b f s) = running c s" "mypid c (upd_buf b f s) = mypid c s"
  by (simp_all add: running_def mypid_def)

lemma bread_upd:
  assumes ok: "bio_ok c H Q s" and few: "(dev, bn) \<in> Q \<or> card H + card Q < NBUF" "finite Q" and dev: "dev \<noteq> 0"
    and out: "(dev, bn) \<notin> (\<lambda>b. blk (bufs s b)) ` H"
  shows "\<exists>b<NBUF. bread c dev bn s = Ret (b, upd_buf b (\<lambda>_. read_buf (mypid c s) (dev, bn) (k_disk s) ((dev, bn) \<in> Q) (bufs s b)) s) \<and> b \<notin> H \<and>
    (blk (bufs s b) = (dev, bn) \<or> (\<forall>a<NBUF. blk (bufs s a) \<noteq> (dev, bn)) \<and> blk (bufs s b) \<notin> Q)"
proof -
  from bio_okD(3)[OF ok] obtain L where L: "ring L (bufs s)" by blast
  have setL: "set L = {..<NBUF}" using L by (simp add: ring_def)
  note run = bio_okD(1)[OF ok]
  show ?thesis
  proof (cases "find (\<lambda>b. blk (bufs s b) = (dev, bn)) L")
    case (Some b)
    then have b: "b < NBUF" "blk (bufs s b) = (dev, bn)" using setL by (auto simp: find_Some_iff)
    then have bH: "b \<notin> H" using out by (metis image_eqI)
    then have bo: "buf_ok (mypid c s) False ((dev, bn) \<in> Q) (k_disk s) (bufs s b)" using bio_okD(6)[OF ok b(1)] b(2) by simp
    have "bget c dev bn s = Ret (b, upd_buf b (\<lambda>x. hold_buf (mypid c s) (x\<lparr>b_refcnt := b_refcnt x + 1\<rparr>)) s)"
      using bo run by (simp add: bget_run[OF ok L] Some lock_buf buf_ok_def comp_def)
    then have "bread c dev bn s = Ret (b, upd_buf b (\<lambda>_. read_buf (mypid c s) (dev, bn) (k_disk s) ((dev, bn) \<in> Q) (bufs s b)) s)"
      using bo b(2) by (auto simp: bread_def kop_simps bufK_def setbufK_def disk_rw_def Let_def hold_buf_def blk_def read_buf_def buf_ok_def
          intro!: upd_buf_cong)
    then show ?thesis using b bH by blast
  next
    case None
    then have none: "\<And>a. a < NBUF \<Longrightarrow> blk (bufs s a) \<noteq> (dev, bn)" using setL by (auto simp: find_None_iff)
    have "(dev, bn) \<notin> Q" using bio_okD(7)[OF ok, of "(dev, bn)"] none by blast
    obtain b where F: "find (\<lambda>b. b_refcnt (bufs s b) = 0) (rev L) = Some b"
      using spare_buffer[OF ok _ few(2)] few(1) \<open>(dev, bn) \<notin> Q\<close> setL by (cases "find (\<lambda>b. b_refcnt (bufs s b) = 0) (rev L)") (auto simp: find_None_iff)
    then have b: "b < NBUF" "b_refcnt (bufs s b) = 0" using setL find_SomeD[OF F] by auto
    have bH: "b \<notin> H" "blk (bufs s b) \<notin> Q" using bio_okD(6)[OF ok b(1)] b(2) by (auto simp: buf_ok_def of_bool_def split: if_splits)
    have bo: "buf_ok (mypid c s) False False (k_disk s) (bufs s b)" using bio_okD(6)[OF ok b(1)] bH by simp
    have "bget c dev bn s = Ret (b, upd_buf b (\<lambda>x. hold_buf (mypid c s) (x\<lparr>b_dev := dev, b_blockno := bn, b_valid := False, b_refcnt := 1\<rparr>)) s)"
      using bo run by (simp add: bget_run[OF ok L] None F lock_buf buf_ok_def comp_def)
    then have "bread c dev bn s = Ret (b, upd_buf b (\<lambda>_. read_buf (mypid c s) (dev, bn) (k_disk s) ((dev, bn) \<in> Q) (bufs s b)) s)"
      using none[OF b(1)] \<open>(dev, bn) \<notin> Q\<close> by (auto simp: bread_def kop_simps bufK_def setbufK_def disk_rw_def Let_def hold_buf_def read_buf_def intro!: upd_buf_cong)
    then show ?thesis using b bH none by blast
  qed
qed

section \<open>The operations in terms of the view\<close>

text \<open>Everything but the cache, the disk and the states of sleeping processes is as before.\<close>

definition bframe :: "kernel \<Rightarrow> kernel \<Rightarrow> bool" where
  "bframe s s' \<longleftrightarrow> pt_sim (k_pt s) (k_pt s') \<and> s'\<lparr>k_pt := k_pt s, k_bc := k_bc s, k_disk := k_disk s, k_trace := k_trace s\<rparr> = s"

lemma bframe_refl [simp, intro]: "bframe s s"
  by (simp add: bframe_def)

lemma bframe_trans [trans]:
  assumes "bframe s s'" "bframe s' s''"
  shows "bframe s s''"
proof -
  have "s''\<lparr>k_pt := k_pt s, k_bc := k_bc s, k_disk := k_disk s, k_trace := k_trace s\<rparr>
    = (s''\<lparr>k_pt := k_pt s', k_bc := k_bc s', k_disk := k_disk s', k_trace := k_trace s'\<rparr>)\<lparr>k_pt := k_pt s, k_bc := k_bc s, k_disk := k_disk s, k_trace := k_trace s\<rparr>"
    by simp
  also have "\<dots> = s" using assms by (simp add: bframe_def)
  finally show ?thesis using assms pt_sim_trans by (auto simp: bframe_def)
qed

lemma bframe_sel:
  assumes "bframe s s'"
  shows "k_log s' = k_log s \<and> k_sb s' = k_sb s \<and> k_it s' = k_it s \<and> k_vm s' = k_vm s \<and> k_ft s' = k_ft s"
proof -
  have "s'\<lparr>k_pt := k_pt s, k_bc := k_bc s, k_disk := k_disk s, k_trace := k_trace s\<rparr> = s" using assms by (simp add: bframe_def)
  then show ?thesis by (cases s; cases s') simp
qed

text \<open>A step that the view and the disk do not show.\<close>

definition quiet :: "kernel \<Rightarrow> kernel \<Rightarrow> bool" where
  "quiet s s' \<longleftrightarrow> (\<forall>n. view s' (ROOTDEV, n) = view s (ROOTDEV, n)) \<and> k_disk s' = k_disk s \<and> k_trace s' = k_trace s \<and> bframe s s'"

lemma quiet_refl [simp, intro]: "quiet s s"
  by (simp add: quiet_def)

lemma quiet_trans [trans]: "quiet s s' \<Longrightarrow> quiet s' s'' \<Longrightarrow> quiet s s''"
  using bframe_trans by (auto simp: quiet_def)

text \<open>Buffer \<open>b\<close> has block \<open>n\<close> with the contents \<open>d\<close>.\<close>

definition has_block :: "kernel \<Rightarrow> nat \<Rightarrow> nat \<Rightarrow> u8 list \<Rightarrow> bool" where
  "has_block s b n d \<longleftrightarrow> blk (bufs s b) = (ROOTDEV, n) \<and> b_data (bufs s b) = d"

lemma bio_uniq:
  assumes "bio_ok c H Q s" "a < NBUF" "b < NBUF" "blk (bufs s a) = (ROOTDEV, n)" "blk (bufs s b) = (ROOTDEV, n)"
  shows "a = b"
proof (rule bio_okD(8)[OF assms(1-3)])
  show "b_dev (bufs s a) \<noteq> 0" using arg_cong[OF assms(4), of fst] by simp
qed (simp add: assms)

lemma held_less: "bio_ok c H Q s \<Longrightarrow> b \<in> H \<Longrightarrow> b < NBUF"
  using bio_okD(5) by blast

lemma bread_ok:
  assumes ok: "bio_ok c H Q s" and few: "(ROOTDEV, n) \<in> Q \<or> card H + card Q < NBUF" "finite Q" and out: "\<forall>b\<in>H. blk (bufs s b) \<noteq> (ROOTDEV, n)"
  shows "\<exists>b s'. bread c ROOTDEV n s = Ret (b, s') \<and> b \<notin> H \<and> bio_ok c (insert b H) Q s' \<and> has_block s' b n (view s (ROOTDEV, n)) \<and>
    (\<forall>a\<in>H. bufs s' a = bufs s a) \<and> quiet s s'"
proof -
  let ?q = "(ROOTDEV, n)"
  have "?q \<notin> (\<lambda>b. blk (bufs s b)) ` H" using out by auto
  moreover have "ROOTDEV \<noteq> 0" by simp
  ultimately obtain b where b: "b < NBUF" "b \<notin> H"
    "bread c ROOTDEV n s = Ret (b, upd_buf b (\<lambda>_. read_buf (mypid c s) ?q (k_disk s) (?q \<in> Q) (bufs s b)) s)"
    "blk (bufs s b) = ?q \<or> (\<forall>a<NBUF. blk (bufs s a) \<noteq> ?q) \<and> blk (bufs s b) \<notin> Q"
    using bread_upd[OF ok few] by blast
  let ?x = "read_buf (mypid c s) ?q (k_disk s) (?q \<in> Q) (bufs s b)"
  let ?s = "upd_buf b (\<lambda>_. ?x) s"
  have "buf_ok (mypid c s) False (blk (bufs s b) \<in> Q) (k_disk s) (bufs s b)" using bio_okD(6)[OF ok b(1)] b(2) by simp
  then have x: "buf_ok (mypid c s) True (blk ?x \<in> Q) (k_disk s) ?x" unfolding read_buf_simps(1) by (rule buf_ok_read) (simp_all add: bio_okD(4)[OF ok])
  have "blk ?x = blk (bufs s b) \<or> (\<forall>a<NBUF. blk (bufs s a) \<noteq> blk ?x) \<and> blk (bufs s b) \<notin> Q"
    unfolding read_buf_simps(1) using b(4) by metis
  from bio_ok_upd[OF ok b(1) _ _ x this] have ok': "bio_ok c (insert b H) Q ?s" by simp
  have data: "b_data ?x = view s ?q"
  proof (cases "blk (bufs s b) = ?q \<and> b_valid (bufs s b)")
    case True
    then show ?thesis using view_cached[OF ok b(1), of ?q] by simp
  next
    case False
    have "\<not> (\<exists>a<NBUF. blk (bufs s a) = ?q \<and> b_valid (bufs s a))"
    proof
      assume "\<exists>a<NBUF. blk (bufs s a) = ?q \<and> b_valid (bufs s a)"
      then obtain a where a: "a < NBUF" "blk (bufs s a) = ?q" "b_valid (bufs s a)" by blast
      then have "blk (bufs s b) = ?q" using b(4) by blast
      then have "a = b" by (rule bio_uniq[OF ok a(1) b(1) a(2)])
      then show False using a False by simp
    qed
    from view_uncached[OF this] False show ?thesis by auto
  qed
  have "view ?s (ROOTDEV, m) = view s (ROOTDEV, m)" for m
  proof -
    have clean: "view s (ROOTDEV, m) = k_disk s m" if "(ROOTDEV, m) = blk (bufs s b)" "(ROOTDEV, m) \<noteq> ?q"
    proof -
      have "(ROOTDEV, m) \<notin> Q" using b(4) that by metis
      moreover have "(ROOTDEV, m) \<notin> (\<lambda>b. blk (bufs s b)) ` H"
      proof
        assume "(ROOTDEV, m) \<in> (\<lambda>b. blk (bufs s b)) ` H"
        then obtain a where a: "a \<in> H" "blk (bufs s a) = (ROOTDEV, m)" by auto
        then have "a = b" using held_less[OF ok a(1)] b(1) that(1) by (intro bio_uniq[OF ok _ _ a(2)]) simp_all
        then show False using a(1) b(2) by simp
      qed
      ultimately show ?thesis using view_clean[OF ok, of "(ROOTDEV, m)"] by simp
    qed
    have nz: "fst (ROOTDEV, m) \<noteq> 0" by simp
    have "view ?s (ROOTDEV, m) = (if (ROOTDEV, m) = ?q then b_data ?x else if (ROOTDEV, m) = blk (bufs s b) then k_disk s m else view s (ROOTDEV, m))"
      using view_upd[OF ok ok' b(1) read_buf_simps(2) nz] unfolding read_buf_simps(1) snd_conv .
    then show ?thesis using data clean by metis
  qed
  then have "quiet s ?s" by (simp add: quiet_def bframe_def upd_buf_def)
  moreover have "has_block ?s b n (view s ?q)" using data by (simp add: has_block_def del: read_buf_simps(5))
  moreover have "\<forall>a\<in>H. bufs ?s a = bufs s a" using b(2) by auto
  ultimately show ?thesis using b(2,3) ok' by blast
qed

text \<open>Writing into a buffer that is held.\<close>

lemma held_ok: "bio_ok c H Q s \<Longrightarrow> b \<in> H \<Longrightarrow> buf_ok (mypid c s) True (blk (bufs s b) \<in> Q) (k_disk s) (bufs s b)"
  using bio_okD(6)[of c H Q s b] held_less[of c H Q s b] by simp

lemma set_data_ok:
  assumes ok: "bio_ok c H Q s" and b: "b \<in> H" and d: "length d = BSIZE" and blk: "blk (bufs s b) = (ROOTDEV, n)"
  defines "s' \<equiv> upd_buf b (b_data_update (\<lambda>_. d)) s"
  shows "bio_ok c H Q s'" "view s' (ROOTDEV, m) = (if m = n then d else view s (ROOTDEV, m))" "has_block s' b n d" "bframe s s'"
proof -
  let ?x = "(bufs s b)\<lparr>b_data := d\<rparr>"
  have eq: "s' = upd_buf b (\<lambda>_. ?x) s" unfolding s'_def by (rule upd_buf_cong) simp
  have blkx: "blk ?x = blk (bufs s b)" by (simp add: blk_def)
  have x: "buf_ok (mypid c s) True (blk ?x \<in> Q) (k_disk s) ?x" using held_ok[OF ok b] d unfolding blkx by (simp add: buf_ok_def)
  note lt = held_less[OF ok b]
  show ok': "bio_ok c H Q s'" using bio_ok_upd[OF ok lt _ _ x] b blkx by (simp add: eq insert_absorb)
  have "b_valid ?x" using x by (simp add: buf_ok_def)
  from view_upd[OF ok ok'[unfolded eq] lt this, of "(ROOTDEV, m)"]
  show "view s' (ROOTDEV, m) = (if m = n then d else view s (ROOTDEV, m))" unfolding eq blkx blk by simp
  show "has_block s' b n d" using blk blkx by (simp add: has_block_def eq)
  show "bframe s s'" by (simp add: s'_def bframe_def upd_buf_def)
qed

lemma hold_run:
  assumes "bio_ok c H Q s" "b \<in> H"
  shows "holdingsleep c (buf_lock b) s = Ret (True, s)"
  using bl.holdingsleep_ok[OF bio_okD(1)[OF assms(1)], of b] held_ok[OF assms] by (simp add: buf_lock_def buf_ok_def)

lemma bwrite_ok:
  assumes ok: "bio_ok c H Q s" and b: "b \<in> H" and hb: "has_block s b n d"
  defines "s' \<equiv> s\<lparr>k_disk := (k_disk s)(n := d), k_trace := k_trace s @ [(n, d)]\<rparr>"
  shows "bwrite c b s = Ret ((), s')" "bio_ok c H Q s'" "view s' (ROOTDEV, m) = view s (ROOTDEV, m)" "bframe s s'"
proof -
  have blk: "blk (bufs s b) = (ROOTDEV, n)" and data: "b_data (bufs s b) = d" using hb by (simp_all add: has_block_def)
  have bn: "b_blockno (bufs s b) = n" using arg_cong[OF blk, of snd] by simp
  note lt = held_less[OF ok b]
  show "bwrite c b s = Ret ((), s')" using hold_run[OF ok b] by (simp add: bwrite_def kop_simps disk_rw_def Let_def bn data s'_def)
  have B: "bufs s' = bufs s" "mypid c s' = mypid c s" "running c s' = running c s" by (simp_all add: s'_def mypid_def running_def)
  have len: "length d = BSIZE" using held_ok[OF ok b] data by (simp add: buf_ok_def)
  have bo: "buf_ok (mypid c s') (a \<in> H) (blk (bufs s' a) \<in> Q) (k_disk s') (bufs s' a)" if a: "a < NBUF" for a
  proof (cases "a \<notin> H \<and> blk (bufs s a) \<notin> Q \<and> b_valid (bufs s a)")
    case True
    have o: "buf_ok (mypid c s) False False (k_disk s) (bufs s a)" using bio_okD(6)[OF ok a] True by simp
    have "b_blockno (bufs s a) \<noteq> n"
    proof
      assume "b_blockno (bufs s a) = n"
      then have "blk (bufs s a) = (ROOTDEV, n)" using o True by (simp add: buf_ok_def blk_def)
      then have "a = b" using blk by (intro bio_uniq[OF ok a lt])
      then show False using True b by simp
    qed
    then have "k_disk s' (b_blockno (bufs s a)) = k_disk s (b_blockno (bufs s a))" by (simp add: s'_def)
    then show ?thesis using o True bio_okD(4)[OF ok] unfolding B buf_ok_def by simp
  next
    case False
    then show ?thesis using bio_okD(6)[OF ok a] unfolding B by (auto simp: buf_ok_def)
  qed
  have "\<And>m. length (k_disk s' m) = BSIZE" using bio_okD(4)[OF ok] len by (simp add: s'_def)
  moreover have "lk_free (bc_lock (k_bc s'))" using bio_okD(2)[OF ok] by (simp add: s'_def)
  ultimately show ok': "bio_ok c H Q s'"
    using bio_okD(1,3,5,7,8)[OF ok] bo unfolding bio_ok_def B by blast
  show "view s' (ROOTDEV, m) = view s (ROOTDEV, m)"
  proof (cases "m = n")
    case True
    then show ?thesis using view_cached[OF ok lt blk] view_cached[OF ok' lt, of "(ROOTDEV, n)"] held_ok[OF ok b] blk by (simp add: B buf_ok_def)
  next
    case False
    then have "k_disk s' m = k_disk s m" by (simp add: s'_def)
    then show ?thesis unfolding view_def B snd_conv by (simp only:)
  qed
  show "bframe s s'" by (simp add: s'_def bframe_def)
qed

section \<open>\<open>brelse\<close>, \<open>bpin\<close> and \<open>bunpin\<close>\<close>

lemma bio_ok_pt:
  assumes ok: "bio_ok c H Q s" and sim: "pt_sim (k_pt s) t"
  shows "bio_ok c H Q (s\<lparr>k_pt := t\<rparr>)"
proof -
  have "running c (s\<lparr>k_pt := t\<rparr>)" "mypid c (s\<lparr>k_pt := t\<rparr>) = mypid c s"
    using running_sim[OF bio_okD(1)[OF ok], of "s\<lparr>k_pt := t\<rparr>"] mypid_sim[of s "s\<lparr>k_pt := t\<rparr>" c] sim by simp_all
  then show ?thesis using ok unfolding bio_ok_def by simp
qed

definition set_bufs :: "(nat \<Rightarrow> buf) \<Rightarrow> kernel \<Rightarrow> kernel" where
  "set_bufs B s = s\<lparr>k_bc := (k_bc s)\<lparr>bc_buf := B\<rparr>\<rparr>"

lemma set_bufs_simps [simp]:
  "bufs (set_bufs B s) = B" "k_pt (set_bufs B s) = k_pt s" "k_disk (set_bufs B s) = k_disk s" "k_trace (set_bufs B s) = k_trace s"
  "bc_lock (k_bc (set_bufs B s)) = bc_lock (k_bc s)" "set_bufs B (bcheld c s) = bcheld c (set_bufs B s)"
  by (simp_all add: set_bufs_def bcheld_def)

lemma same_bufs_blk: "same_bufs B B' \<Longrightarrow> blk (B' b) = blk (B b)"
  using same_bufs_sel[of B B' b] by (simp add: blk_def)

lemma bio_ok_ring:
  assumes ok: "bio_ok c H Q s" and same: "same_bufs (bufs s) B" and ring: "ring L B"
  shows "bio_ok c H Q (set_bufs B s)" "view (set_bufs B s) q = view s q"
proof -
  let ?s = "set_bufs B s"
  have m: "mypid c ?s = mypid c s" "running c ?s = running c s" by (simp_all add: mypid_def running_def)
  have sel: "buf_ok pid h p D (B b) = buf_ok pid h p D (bufs s b)" "b_dev (B b) = b_dev (bufs s b)" for pid h p D b
    using same_bufs_sel[OF same, of b] by (simp_all add: buf_ok_def)
  show "bio_ok c H Q ?s" using ok ring unfolding bio_ok_def m set_bufs_simps same_bufs_blk[OF same] sel by blast
  have "b_valid (B b) = b_valid (bufs s b)" "b_data (B b) = b_data (bufs s b)" for b using same_bufs_sel[OF same, of b] by simp_all
  then show "view ?s q = view s q" unfolding view_def set_bufs_simps same_bufs_blk[OF same] by (simp only:)
qed

definition drop_buf :: "buf \<Rightarrow> buf" where
  "drop_buf x = x\<lparr>b_lock := (b_lock x)\<lparr>sl_locked := False, sl_pid := 0\<rparr>, b_refcnt := b_refcnt x - 1\<rparr>"

lemma brelse_run:
  assumes ok: "bio_ok c H Q s" and b: "b \<in> H"
  shows "\<exists>t. pt_sim (k_pt s) t \<and> brelse c b s = Ret ((), let s1 = (upd_buf b drop_buf s)\<lparr>k_pt := t\<rparr> in
    if blk (bufs s b) \<in> Q then s1 else set_bufs (link_front b (unlink b (bufs s1))) s1)"
proof -
  have bo: "buf_ok (mypid c s) True (blk (bufs s b) \<in> Q) (k_disk s) (bufs s b)" by (rule held_ok[OF ok b])
  have "lk_free (sl_lk (fst (buf_lock b) s))" using bo by (simp add: buf_lock_def buf_ok_def)
  from bl.releasesleep_ok[OF bio_okD(1)[OF ok] this, of "ChanBufLock b"] obtain t where t: "pt_sim (k_pt s) t"
    "releasesleep c (buf_lock b) (ChanBufLock b) s = Ret ((), (upd_buf b (b_lock_update (\<lambda>l. l\<lparr>sl_locked := False, sl_pid := 0\<rparr>)) s)\<lparr>k_pt := t\<rparr>)"
    by (auto simp: buf_lock_def)
  define s0 where "s0 = (upd_buf b (b_lock_update (\<lambda>l. l\<lparr>sl_locked := False, sl_pid := 0\<rparr>)) s)\<lparr>k_pt := t\<rparr>"
  define s1 where "s1 = (upd_buf b drop_buf s)\<lparr>k_pt := t\<rparr>"
  have d: "upd_buf b (\<lambda>x. x\<lparr>b_refcnt := b_refcnt x - 1\<rparr>) s0 = s1"
    unfolding s0_def s1_def by (simp add: comp_def)
      (rule arg_cong[of _ _ "\<lambda>s. s\<lparr>k_pt := t\<rparr>"], rule upd_buf_cong, cases "bufs s b", simp add: drop_buf_def)
  have free: "lk_free (bc_lock (k_bc s0))" "lk_free (bc_lock (k_bc s1))" using bio_okD(2)[OF ok] by (simp_all add: s0_def s1_def)
  have r: "(b_refcnt (bufs s1 b) = 0) = (blk (bufs s b) \<notin> Q)" using bo by (simp add: buf_ok_def drop_buf_def s1_def)
  have sb: "(bcheld c s1)\<lparr>k_bc := (k_bc (bcheld c s1))\<lparr>bc_buf := B\<rparr>\<rparr> = bcheld c (set_bufs B s1)" for B
    by (simp add: set_bufs_def bcheld_def)
  have free2: "lk_free (bc_lock (k_bc (set_bufs B s1)))" for B using free(2) by simp
  have "brelse c b s = Ret ((), if blk (bufs s b) \<in> Q then s1 else set_bufs (link_front b (unlink b (bufs s1))) s1)"
    using hold_run[OF ok b] t(2)[folded s0_def] r
    by (simp add: brelse_def kop_simps acquire_bc_free free setbufK_def bufK_def d release_bcheld sb free2 del: upd_buf_simps set_bufs_simps)
  with t(1) show ?thesis unfolding Let_def s1_def by blast
qed

lemma brelse_ok:
  assumes ok: "bio_ok c H Q s" and b: "b \<in> H" and hb: "has_block s b n d" and clean: "(ROOTDEV, n) \<in> Q \<or> d = k_disk s n"
  shows "\<exists>s'. brelse c b s = Ret ((), s') \<and> bio_ok c (H - {b}) Q s' \<and> quiet s s' \<and> (\<forall>a m e. a \<noteq> b \<longrightarrow> has_block s' a m e = has_block s a m e)"
proof -
  have blkb: "blk (bufs s b) = (ROOTDEV, n)" and data: "b_data (bufs s b) = d" using hb by (simp_all add: has_block_def)
  have bn: "b_blockno (bufs s b) = n" using arg_cong[OF blkb, of snd] by simp
  note lt = held_less[OF ok b]
  from brelse_run[OF ok b] obtain t where t: "pt_sim (k_pt s) t" "brelse c b s = Ret ((), let s1 = (upd_buf b drop_buf s)\<lparr>k_pt := t\<rparr> in
    if blk (bufs s b) \<in> Q then s1 else set_bufs (link_front b (unlink b (bufs s1))) s1)" by blast
  let ?x = "drop_buf (bufs s b)" and ?u = "upd_buf b (\<lambda>_. drop_buf (bufs s b)) s"
  have blkx: "blk ?x = blk (bufs s b)" by (simp add: blk_def drop_buf_def)
  have x: "buf_ok (mypid c s) False (blk ?x \<in> Q) (k_disk s) ?x"
    using held_ok[OF ok b] clean blkb unfolding blkx by (auto simp: buf_ok_def drop_buf_def bn data)
  have u: "bio_ok c (H - {b}) Q ?u" using bio_ok_upd[OF ok lt _ _ x] blkx by (simp add: drop_buf_def)
  have eq: "upd_buf b drop_buf s = ?u" by (rule upd_buf_cong) simp
  have vu: "view ?u (ROOTDEV, m) = view s (ROOTDEV, m)" for m
  proof -
    have v: "b_valid ?x" using held_ok[OF ok b] by (simp add: buf_ok_def drop_buf_def)
    have "view s (ROOTDEV, n) = b_data ?x"
      using view_cached[OF ok lt blkb] held_ok[OF ok b] by (simp add: buf_ok_def drop_buf_def)
    then show ?thesis using view_upd[OF ok u lt v, of "(ROOTDEV, m)"] unfolding blkx blkb by simp
  qed
  define s1 where "s1 = ?u\<lparr>k_pt := t\<rparr>"
  have s1: "bio_ok c (H - {b}) Q s1" unfolding s1_def using bio_ok_pt[OF u] t(1) by simp
  have v1: "view s1 q = view ?u q" for q by (rule view_cong) (simp_all add: s1_def)
  have B1: "bufs s1 = (bufs s)(b := ?x)" by (simp add: s1_def)
  obtain L where "ring L (bufs s1)" using bio_okD(3)[OF s1] by blast
  moreover have "b \<in> set L" using calculation lt by (simp add: ring_def)
  ultimately obtain xs ys where L: "ring (xs @ b # ys) (bufs s1)" using split_list[of b L] by blast
  let ?B = "link_front b (unlink b (bufs s1))"
  have same: "same_bufs (bufs s1) ?B" by (rule same_bufs_trans[OF same_bufs_unlink same_bufs_link])
  define s2 where "s2 = (if blk (bufs s b) \<in> Q then s1 else set_bufs ?B s1)"
  have run: "brelse c b s = Ret ((), s2)" unfolding t(2) Let_def eq s2_def s1_def ..
  have ok2: "bio_ok c (H - {b}) Q s2" and v2: "view s2 q = view s1 q" for q
    using s1 bio_ok_ring[OF s1 same ring_move_front[OF L]] by (simp_all add: s2_def)
  have hb2: "has_block s2 a m e = has_block s a m e" if "a \<noteq> b" for a m e
    using that same_bufs_sel[OF same, of a] same_bufs_blk[OF same, of a] by (simp add: s2_def has_block_def B1)
  have "quiet s s2" unfolding quiet_def v2 v1 vu using t(1)
    by (simp add: s2_def s1_def bframe_def set_bufs_def upd_buf_def)
  then show ?thesis using run ok2 hb2 by blast
qed

text \<open>Pinning and unpinning change the reference count of a buffer that is held.\<close>

lemma bio_ok_pins:
  assumes ok: "bio_ok c H Q s" and b: "b \<in> H" and x: "buf_ok (mypid c s) True (blk (bufs s b) \<in> Q') (k_disk s) x" "blk x = blk (bufs s b)"
      "b_next x = b_next (bufs s b)" "b_prev x = b_prev (bufs s b)"
    and Q: "Q - {blk (bufs s b)} = Q' - {blk (bufs s b)}" "b_dev (bufs s b) \<noteq> 0"
  shows "bio_ok c H Q' (upd_buf b (\<lambda>_. x) s)"
proof -
  let ?s = "upd_buf b (\<lambda>_. x) s"
  note d = bio_okD[OF ok] and lt = held_less[OF ok b]
  have blk': "blk (bufs ?s a) = blk (bufs s a)" for a using x(2) by simp
  have dev': "b_dev (bufs ?s a) = b_dev (bufs s a)" for a using blk'[of a] fst_blk(1)[of "bufs ?s a"] fst_blk(1)[of "bufs s a"] by simp
  have m: "mypid c ?s = mypid c s" "running c ?s = running c s" by simp_all
  have "buf_ok (mypid c s) (a \<in> H) (blk (bufs s a) \<in> Q') (k_disk ?s) (bufs ?s a)" if a: "a < NBUF" for a
  proof (cases "a = b")
    case True
    then show ?thesis using x(1) b by simp
  next
    case False
    then have "blk (bufs s a) \<noteq> blk (bufs s b)" using d(8)[OF lt a Q(2)] by auto
    then have "(blk (bufs s a) \<in> Q') = (blk (bufs s a) \<in> Q)" using Q(1) by blast
    then show ?thesis using d(6)[OF a] False by simp
  qed
  moreover have "\<exists>L. ring L (bufs ?s)" using d(3) ring_cong[of "bufs ?s" "bufs s"] x(3,4) by simp
  moreover have "fst q \<noteq> 0 \<and> (\<exists>a<NBUF. blk (bufs s a) = q)" if q: "q \<in> Q'" for q
  proof (cases "q = blk (bufs s b)")
    case True
    then show ?thesis using Q(2) lt by auto
  next
    case False
    then have "q \<in> Q" using q Q(1) by blast
    then show ?thesis by (rule d(7))
  qed
  moreover have "\<And>n. length (k_disk ?s n) = BSIZE" "lk_free (bc_lock (k_bc ?s))" using d(2,4) by simp_all
  ultimately show ?thesis using d(1,5,8) unfolding bio_ok_def m blk' dev' by blast
qed

lemma pin_run:
  assumes "lk_free (bc_lock (k_bc s))"
  shows "bpin c b s = Ret ((), upd_buf b (\<lambda>x. x\<lparr>b_refcnt := b_refcnt x + 1\<rparr>) s)"
    "bunpin c b s = Ret ((), upd_buf b (\<lambda>x. x\<lparr>b_refcnt := b_refcnt x - 1\<rparr>) s)"
  using assms by (simp_all add: bpin_def bunpin_def kop_simps acquire_bc_free setbufK_def release_bcheld)

lemma recount_ok:
  assumes ok: "bio_ok c H Q s" and b: "b \<in> H" and hb: "has_block s b n d"
    and Q: "Q - {(ROOTDEV, n)} = Q' - {(ROOTDEV, n)}" "b_refcnt (bufs s b) + k = 1 + of_bool ((ROOTDEV, n) \<in> Q')"
  defines "s' \<equiv> upd_buf b (\<lambda>x. x\<lparr>b_refcnt := b_refcnt x + k\<rparr>) s"
  shows "bio_ok c H Q' s' \<and> quiet s s' \<and> (\<forall>a m e. has_block s' a m e = has_block s a m e)"
proof -
  let ?x = "(bufs s b)\<lparr>b_refcnt := b_refcnt (bufs s b) + k\<rparr>"
  have blkb: "blk (bufs s b) = (ROOTDEV, n)" using hb by (simp add: has_block_def)
  have eq: "s' = upd_buf b (\<lambda>_. ?x) s" unfolding s'_def by (rule upd_buf_cong) simp
  have dev: "b_dev (bufs s b) \<noteq> 0" using arg_cong[OF blkb, of fst] by simp
  have x: "buf_ok (mypid c s) True (blk (bufs s b) \<in> Q') (k_disk s) ?x"
    using held_ok[OF ok b] Q(2) unfolding blkb by (simp add: buf_ok_def)
  have blkx: "blk ?x = blk (bufs s b)" by (simp add: blk_def)
  have ok': "bio_ok c H Q' s'" unfolding eq using Q(1) dev by (intro bio_ok_pins[OF ok b x blkx]) (simp_all add: blkb)
  have bx: "blk ?x = (ROOTDEV, n)" "b_valid ?x" "b_data ?x = b_data (bufs s b)" using blkb x by (simp_all add: blk_def buf_ok_def)
  have nz: "fst (ROOTDEV, m) \<noteq> 0" for m by simp
  have vn: "view s (ROOTDEV, n) = b_data (bufs s b)" using view_cached[OF ok held_less[OF ok b] blkb _ nz] bx(2) by simp
  have "view s' (ROOTDEV, m) = view s (ROOTDEV, m)" for m
    using view_upd[OF ok ok'[unfolded eq] held_less[OF ok b] bx(2) nz[of m]] vn unfolding eq bx blkb by auto
  then have "quiet s s'" by (simp add: quiet_def s'_def bframe_def upd_buf_def)
  moreover have "has_block s' a m e = has_block s a m e" for a m e using bx blkb by (cases "a = b") (simp_all add: has_block_def eq)
  ultimately show ?thesis using ok' by blast
qed

lemma bpin_ok:
  assumes ok: "bio_ok c H Q s" and b: "b \<in> H" and hb: "has_block s b n d" and q: "(ROOTDEV, n) \<notin> Q"
  shows "\<exists>s'. bpin c b s = Ret ((), s') \<and> bio_ok c H (insert (ROOTDEV, n) Q) s' \<and> quiet s s' \<and> (\<forall>a m e. has_block s' a m e = has_block s a m e)"
proof -
  have "blk (bufs s b) = (ROOTDEV, n)" using hb by (simp add: has_block_def)
  then have "b_refcnt (bufs s b) + 1 = 1 + of_bool ((ROOTDEV, n) \<in> insert (ROOTDEV, n) Q)" using held_ok[OF ok b] q by (simp add: buf_ok_def)
  from recount_ok[OF ok b hb _ this] show ?thesis using pin_run[OF bio_okD(2)[OF ok]] by auto
qed

lemma bunpin_ok:
  assumes ok: "bio_ok c H Q s" and b: "b \<in> H" and hb: "has_block s b n d" and q: "(ROOTDEV, n) \<in> Q"
  shows "\<exists>s'. bunpin c b s = Ret ((), s') \<and> bio_ok c H (Q - {(ROOTDEV, n)}) s' \<and> quiet s s' \<and> (\<forall>a m e. has_block s' a m e = has_block s a m e)"
proof -
  have "blk (bufs s b) = (ROOTDEV, n)" using hb by (simp add: has_block_def)
  then have "b_refcnt (bufs s b) + (- 1) = 1 + of_bool ((ROOTDEV, n) \<in> Q - {(ROOTDEV, n)})" using held_ok[OF ok b] q by (simp add: buf_ok_def)
  from recount_ok[OF ok b hb _ this] show ?thesis using pin_run[OF bio_okD(2)[OF ok]] by auto
qed

end
