(* ===== verification/Log_Correct.thy ===== *)
theory Log_Correct
  imports Log Bio_View
begin

text \<open>
  What the log writes to the disk, block by block and in order, and what recovery makes of a disk: \<open>recovered\<close> is the
  contents of the disk as recovery will install it, whatever the moment of a crash was.
\<close>

section \<open>Loops and writes\<close>

lemma forK_append: "forK (xs @ ys) f s = bind_res (forK xs f s) (\<lambda>(_, s'). forK ys f s')"
proof (induction xs arbitrary: s)
  case (Cons x xs)
  then show ?case by (cases "f x s") (auto simp: thenK_def)
qed (simp add: retK_def)

lemma forK_upt:
  assumes "\<And>i s. i < n \<Longrightarrow> Inv i s \<Longrightarrow> \<exists>s'. f i s = Ret ((), s') \<and> Inv (Suc i) s'" and "Inv 0 s"
  shows "\<exists>s'. forK [0..<n] f s = Ret ((), s') \<and> Inv n s'"
  using assms
proof (induction n)
  case 0
  then show ?case by (simp add: retK_def)
next
  case (Suc n)
  from Suc.IH[OF _ Suc.prems(2)] Suc.prems(1) obtain s1 where s1: "forK [0..<n] f s = Ret ((), s1)" "Inv n s1" by auto
  from Suc.prems(1)[of n, OF _ s1(2)] show ?case using s1(1) by (auto simp: forK_append thenK_def retK_def)
qed

definition writes :: "(nat \<times> u8 list) list \<Rightarrow> (nat \<Rightarrow> u8 list) \<Rightarrow> nat \<Rightarrow> u8 list" where
  "writes ws D = fold (\<lambda>(n, d) D. D(n := d)) ws D"

lemma writes_simps [simp]:
  "writes [] D = D" "writes ((n, d) # ws) D = writes ws (D(n := d))" "writes (us @ ws) D = writes ws (writes us D)"
  by (simp_all add: writes_def)

lemma writes_other: "n \<notin> fst ` set ws \<Longrightarrow> writes ws D n = D n"
  by (induction ws arbitrary: D) auto

lemma writes_map: "distinct (map f xs) \<Longrightarrow> i \<in> set xs \<Longrightarrow> writes (map (\<lambda>i. (f i, d i)) xs) D (f i) = d i"
proof (induction xs arbitrary: D)
  case (Cons x xs)
  show ?case
  proof (cases "i = x")
    case True
    then have "f i \<notin> fst ` set (map (\<lambda>i. (f i, d i)) xs)" using Cons.prems by auto
    then show ?thesis using True by (simp add: writes_other)
  next
    case False
    then show ?thesis using Cons by auto
  qed
qed simp

text \<open>An operation that has written \<open>ws\<close>, as seen on the disk and through the cache.\<close>

abbreviation vw :: "kernel \<Rightarrow> nat \<Rightarrow> u8 list" where
  "vw s n \<equiv> view s (ROOTDEV, n)"

definition wrote :: "(nat \<times> u8 list) list \<Rightarrow> kernel \<Rightarrow> kernel \<Rightarrow> bool" where
  "wrote ws s s' \<longleftrightarrow> k_disk s' = writes ws (k_disk s) \<and> k_trace s' = k_trace s @ ws \<and> vw s' = writes ws (vw s) \<and> bframe s s'"

lemma wrote_Nil: "quiet s s' \<Longrightarrow> wrote [] s s'"
  by (auto simp: quiet_def wrote_def)

lemma wrote_trans: "wrote us s s' \<Longrightarrow> wrote ws s' s'' \<Longrightarrow> wrote (us @ ws) s s''"
  using bframe_trans by (auto simp: wrote_def)

lemma wrote_quiet: "wrote us s s' \<Longrightarrow> quiet s' s'' \<Longrightarrow> wrote us s s''"
  using wrote_trans[OF _ wrote_Nil] by fastforce

lemma quiet_wrote: "quiet s s' \<Longrightarrow> wrote us s' s'' \<Longrightarrow> wrote us s s''"
  using wrote_trans[OF wrote_Nil] by fastforce

text \<open>Rewriting a buffer that is held and writing it.\<close>

lemma rewrite_ok:
  assumes ok: "bio_ok c H Q s" and b: "b \<in> H" and hb: "has_block s b n d0" and d: "length d = BSIZE"
  shows "\<exists>s'. bwrite c b (upd_buf b (b_data_update (\<lambda>_. d)) s) = Ret ((), s') \<and> bio_ok c H Q s' \<and> wrote [(n, d)] s s' \<and> has_block s' b n d \<and>
    (\<forall>a. a \<noteq> b \<longrightarrow> bufs s' a = bufs s a)"
proof -
  let ?s1 = "upd_buf b (b_data_update (\<lambda>_. d)) s"
  have blk: "blk (bufs s b) = (ROOTDEV, n)" using hb by (simp add: has_block_def)
  note s1 = set_data_ok[OF ok b d blk]
  note s2 = bwrite_ok[OF s1(1) b s1(3)]
  have "wrote [(n, d)] s (?s1\<lparr>k_disk := (k_disk ?s1)(n := d), k_trace := k_trace ?s1 @ [(n, d)]\<rparr>)"
    unfolding wrote_def using s1(2) s2(3) bframe_trans[OF s1(4) s2(4)] by (simp add: fun_eq_iff)
  moreover have "has_block (?s1\<lparr>k_disk := (k_disk ?s1)(n := d), k_trace := k_trace ?s1 @ [(n, d)]\<rparr>) b n d" using s1(3) by (simp add: has_block_def)
  ultimately show ?thesis using s2(1,2) by auto
qed

text \<open>Setting data twice, and in a loop.\<close>

lemma upd_data_comp: "upd_buf b (b_data_update f) (upd_buf b (b_data_update g) s) = upd_buf b (b_data_update (\<lambda>d. f (g d))) s"
  by (simp add: comp_def)

lemma forK_data:
  "n \<le> LOGSIZE \<Longrightarrow> forK [0..<n] (\<lambda>i. if i < LOGSIZE then setbufK b (b_data_update (G i)) else faultK) s
    = Ret ((), upd_buf b (b_data_update (fold G [0..<n])) s)"
proof (induction n)
  case 0
  have "upd_buf b (b_data_update (\<lambda>d. d)) s = s" by (rule upd_buf_id) simp
  then show ?case by (simp add: retK_def id_def)
next
  case (Suc n)
  then show ?case by (simp add: forK_append setbufK_def modK_def thenK_def retK_def upd_data_comp comp_def)
qed

section \<open>The steps of a commit\<close>

lemma wroteD: "wrote ws s s' \<Longrightarrow> k_disk s' = writes ws (k_disk s)" "wrote ws s s' \<Longrightarrow> vw s' n = writes ws (vw s) n" "wrote ws s s' \<Longrightarrow> k_log s' = k_log s"
  using bframe_sel by (auto simp: wrote_def dest: fun_cong)

lemma quietD: "quiet s s' \<Longrightarrow> k_disk s' = k_disk s" "quiet s s' \<Longrightarrow> vw s' n = vw s n" "quiet s s' \<Longrightarrow> k_log s' = k_log s"
  using bframe_sel by (auto simp: quiet_def)

lemma has_block_cong: "bufs s' b = bufs s b \<Longrightarrow> has_block s' b n d = has_block s b n d"
  by (simp add: has_block_def)

text \<open>Reading two different blocks.\<close>

lemma bread_two:
  assumes ok: "bio_ok c {} Q s" and Q: "finite Q" "card Q < NBUF" "(ROOTDEV, n) \<in> Q \<or> card Q + 1 < NBUF" and ne: "m \<noteq> n"
  shows "\<exists>a b s1 s2. bread c ROOTDEV m s = Ret (a, s1) \<and> bread c ROOTDEV n s1 = Ret (b, s2) \<and> a \<noteq> b \<and> bio_ok c {a, b} Q s2 \<and>
    has_block s2 a m (vw s m) \<and> has_block s2 b n (vw s n) \<and> quiet s s2"
proof -
  from bread_ok[OF ok, of m] Q obtain a s1 where a: "bread c ROOTDEV m s = Ret (a, s1)" "bio_ok c {a} Q s1" "has_block s1 a m (vw s m)" "quiet s s1" by auto
  have "\<forall>b\<in>{a}. blk (bufs s1 b) \<noteq> (ROOTDEV, n)" using a(3) ne by (simp add: has_block_def)
  from bread_ok[OF a(2) _ Q(1) this] Q(3) obtain b s2 where b: "bread c ROOTDEV n s1 = Ret (b, s2)" "b \<noteq> a" "bio_ok c {b, a} Q s2"
    "has_block s2 b n (vw s1 n)" "bufs s2 a = bufs s1 a" "quiet s1 s2" by auto
  have "has_block s2 a m (vw s m)" using a(3) b(5) by (simp add: has_block_def)
  moreover have "has_block s2 b n (vw s n)" using b(4) quietD(2)[OF a(4)] by simp
  moreover have "bio_ok c {a, b} Q s2" using b(3) by (simp add: insert_commute)
  ultimately show ?thesis using a(1) b(1,2) quiet_trans[OF a(4) b(6)] by blast
qed

text \<open>Releasing a buffer that is held, with nothing to lose.\<close>

lemma brelse_clean:
  assumes "bio_ok c (insert b H) Q s" "b \<notin> H" "has_block s b n d" "(ROOTDEV, n) \<in> Q \<or> d = k_disk s n"
  shows "\<exists>s'. brelse c b s = Ret ((), s') \<and> bio_ok c H Q s' \<and> quiet s s' \<and> (\<forall>a m e. a \<noteq> b \<longrightarrow> has_block s' a m e = has_block s a m e)"
  using brelse_ok[OF assms(1) _ assms(3,4)] assms(2) by (simp add: insert_Diff_if)

lemma view_len: "bio_ok c H Q s \<Longrightarrow> length (vw s n) = BSIZE"
  by (rule view_length) simp_all

lemma write_log_one_ok:
  assumes ok: "bio_ok c {} Q s" and Q: "finite Q" "card Q < NBUF" and lg: "lg_dev (k_log s) = ROOTDEV"
    and tb: "tb = lg_start (k_log s) + i + 1" and hb: "hb = lh_block (k_log s) ! i" "(ROOTDEV, hb) \<in> Q" "tb \<noteq> hb"
  shows "\<exists>s'. write_log_one c i s = Ret ((), s') \<and> bio_ok c {} Q s' \<and> wrote [(tb, vw s hb)] s s'"
proof -
  from bread_two[OF ok Q disjI1[OF hb(2)] hb(3)] obtain a b s1 s2 where r: "bread c ROOTDEV tb s = Ret (a, s1)" "bread c ROOTDEV hb s1 = Ret (b, s2)"
    "a \<noteq> b" "bio_ok c {a, b} Q s2" "has_block s2 a tb (vw s tb)" "has_block s2 b hb (vw s hb)" "quiet s s2" by blast
  from rewrite_ok[OF r(4) _ r(5) view_len[OF ok, of hb]] obtain s3 where w: "bwrite c a (upd_buf a (b_data_update (\<lambda>_. vw s hb)) s2) = Ret ((), s3)"
    "bio_ok c {a, b} Q s3" "wrote [(tb, vw s hb)] s2 s3" "has_block s3 a tb (vw s hb)" "bufs s3 b = bufs s2 b" using r(3) by auto
  have "has_block s3 b hb (vw s hb)" using r(6) w(5) has_block_cong by blast
  from brelse_clean[of c b "{a}" Q s3, OF _ _ this] w(2) r(3) hb(2) obtain s4 where f: "brelse c b s3 = Ret ((), s4)" "bio_ok c {a} Q s4" "quiet s3 s4"
    "has_block s4 a tb (vw s hb)" using w(4) by (auto simp: insert_commute)
  have "k_disk s4 tb = vw s hb" using quietD(1)[OF f(3)] wroteD(1)[OF w(3)] by simp
  from brelse_clean[of c a "{}" Q s4, OF _ _ f(4)] this f(2) obtain s5 where g: "brelse c a s4 = Ret ((), s5)" "bio_ok c {} Q s5" "quiet s4 s5" by auto
  have "wrote [(tb, vw s hb)] s s5" by (rule wrote_quiet[OF wrote_quiet[OF quiet_wrote[OF r(7) w(3)] f(3)] g(3)])
  moreover have "b_data (bufs s2 b) = vw s hb" using r(6) by (simp add: has_block_def)
  ultimately show ?thesis using r(1,2) w(1) f(1) g(1,2)
    by (simp add: write_log_one_def kop_simps lg tb[simplified, symmetric] hb(1)[symmetric] bufK_def setbufK_def)
qed

lemma install_one_ok:
  assumes ok: "bio_ok c {} Q s" and Q: "finite Q" "card Q < NBUF" and lg: "lg_dev (k_log s) = ROOTDEV"
    and tb: "tb = lg_start (k_log s) + i + 1" "(ROOTDEV, tb) \<notin> Q" and hb: "hb = lh_block (k_log s) ! i" "tb \<noteq> hb"
    and rec: "if recovering then (ROOTDEV, hb) \<notin> Q \<and> card Q + 1 < NBUF else (ROOTDEV, hb) \<in> Q"
  shows "\<exists>s'. install_one c recovering i s = Ret ((), s') \<and> bio_ok c {} (Q - {(ROOTDEV, hb)}) s' \<and> wrote [(hb, vw s tb)] s s'"
proof -
  let ?Q = "Q - {(ROOTDEV, hb)}"
  have few: "(ROOTDEV, hb) \<in> Q \<or> card Q + 1 < NBUF" using rec by (auto split: if_splits)
  from bread_two[OF ok Q few hb(2)] obtain a b s1 s2 where r: "bread c ROOTDEV tb s = Ret (a, s1)" "bread c ROOTDEV hb s1 = Ret (b, s2)"
    "a \<noteq> b" "bio_ok c {a, b} Q s2" "has_block s2 a tb (vw s tb)" "has_block s2 b hb (vw s hb)" "quiet s s2" by blast
  from rewrite_ok[OF r(4) _ r(6) view_len[OF ok, of tb]] obtain s3 where w: "bwrite c b (upd_buf b (b_data_update (\<lambda>_. vw s tb)) s2) = Ret ((), s3)"
    "bio_ok c {a, b} Q s3" "wrote [(hb, vw s tb)] s2 s3" "has_block s3 b hb (vw s tb)" "bufs s3 a = bufs s2 a" using r(3) by auto
  have a3: "has_block s3 a tb (vw s tb)" using r(5) w(5) has_block_cong by blast
  have "\<exists>s4. whenK (\<not> recovering) (bunpin c b) s3 = Ret ((), s4) \<and> bio_ok c {a, b} ?Q s4 \<and> quiet s3 s4 \<and> (\<forall>a m e. has_block s4 a m e = has_block s3 a m e)"
  proof (cases recovering)
    case True
    then show ?thesis using rec w(2) by (auto simp: kop_simps)
  next
    case False
    then show ?thesis using rec bunpin_ok[OF w(2) _ w(4)] by (simp add: kop_simps)
  qed
  then obtain s4 where u: "whenK (\<not> recovering) (bunpin c b) s3 = Ret ((), s4)" "bio_ok c {a, b} ?Q s4" "quiet s3 s4"
    "has_block s4 a tb (vw s tb)" "has_block s4 b hb (vw s tb)" using a3 w(4) by blast
  have d4: "k_disk s4 = (k_disk s)(hb := vw s tb)" using quietD(1)[OF u(3)] wroteD(1)[OF w(3)] quietD(1)[OF r(7)] by simp
  have "k_disk s4 tb = vw s tb" using view_clean[OF ok, of "(ROOTDEV, tb)"] tb(2) hb(2) d4 by simp
  from brelse_clean[of c a "{b}" ?Q s4, OF _ _ u(4)] this u(2) r(3) obtain s5 where f: "brelse c a s4 = Ret ((), s5)" "bio_ok c {b} ?Q s5" "quiet s4 s5"
    "has_block s5 b hb (vw s tb)" using u(5) by auto
  have "k_disk s5 hb = vw s tb" using quietD(1)[OF f(3)] d4 by simp
  from brelse_clean[of c b "{}" ?Q s5, OF _ _ f(4)] this f(2) obtain s6 where g: "brelse c b s5 = Ret ((), s6)" "bio_ok c {} ?Q s6" "quiet s5 s6" by auto
  have "wrote [(hb, vw s tb)] s s6" by (rule wrote_quiet[OF wrote_quiet[OF wrote_quiet[OF quiet_wrote[OF r(7) w(3)] u(3)] f(3)] g(3)])
  moreover have "b_data (bufs s2 a) = vw s tb" using r(5) by (simp add: has_block_def)
  ultimately show ?thesis using r(1,2) w(1) u(1) f(1) g(1,2)
    by (simp add: install_one_def bindK_def thenK_def getK_def modK_def lg tb(1)[simplified, symmetric] hb(1)[symmetric] bufK_def setbufK_def)
qed

section \<open>The header block\<close>

definition hdr :: "nat \<Rightarrow> nat list \<Rightarrow> u8 list \<Rightarrow> u8 list" where
  "hdr n bl d = fold (\<lambda>i. put_le 4 (4 + 4 * i) (bl ! i)) [0..<n] (put_le 4 0 n d)"

definition hdr_n :: "u8 list \<Rightarrow> nat" where
  "hdr_n d = get_le 4 0 d"

definition hdr_block :: "u8 list \<Rightarrow> nat \<Rightarrow> nat" where
  "hdr_block d i = get_le 4 (4 + 4 * i) d"

lemma put_le_length [simp]: "off + n \<le> length d \<Longrightarrow> length (put_le n off x d) = length d"
  by (simp add: put_le_def)

lemma hdr_read:
  assumes "length d = BSIZE" "n \<le> LOGSIZE"
  shows "length (hdr n bl d) = BSIZE \<and> get_le 4 0 (hdr n bl d) = n \<and> (\<forall>i<n. get_le 4 (4 + 4 * i) (hdr n bl d) = (bl ! i) mod 2 ^ 32)"
proof -
  have "length (fold (\<lambda>i. put_le 4 (4 + 4 * i) (bl ! i)) [0..<k] (put_le 4 0 n d)) = BSIZE \<and>
    get_le 4 0 (fold (\<lambda>i. put_le 4 (4 + 4 * i) (bl ! i)) [0..<k] (put_le 4 0 n d)) = n \<and>
    (\<forall>i<k. get_le 4 (4 + 4 * i) (fold (\<lambda>i. put_le 4 (4 + 4 * i) (bl ! i)) [0..<k] (put_le 4 0 n d)) = (bl ! i) mod 2 ^ 32)"
    if "k \<le> LOGSIZE" for k
    using that
  proof (induction k)
    case 0
    then show ?case using assms by (simp add: get_put_same)
  next
    case (Suc k)
    let ?d = "fold (\<lambda>i. put_le 4 (4 + 4 * i) (bl ! i)) [0..<k] (put_le 4 0 n d)"
    have IH: "length ?d = BSIZE" "get_le 4 0 ?d = n" "\<forall>i<k. get_le 4 (4 + 4 * i) ?d = (bl ! i) mod 2 ^ 32" using Suc by auto
    have "get_le 4 (4 + 4 * i) (put_le 4 (4 + 4 * k) (bl ! k) ?d) = (bl ! i) mod 2 ^ 32" if "i < Suc k" for i
    proof (cases "i = k")
      case True
      then show ?thesis using IH(1) Suc.prems by (simp add: get_put_same)
    next
      case False
      then show ?thesis using IH(1,3) Suc.prems that by (subst get_put_other) auto
    qed
    then show ?case using IH(1,2) Suc.prems by (simp add: get_put_other)
  qed
  from this[OF assms(2)] show ?thesis unfolding hdr_def .
qed

lemma write_head_ok:
  assumes ok: "bio_ok c {} Q s" and Q: "finite Q" "card Q < NBUF" and lg: "lg_dev (k_log s) = ROOTDEV" "0 \<le> lh_n (k_log s)" "lh_n (k_log s) \<le> int LOGSIZE"
  shows "\<exists>s'. write_head c s = Ret ((), s') \<and> bio_ok c {} Q s' \<and>
    wrote [(lg_start (k_log s), hdr (nat (lh_n (k_log s))) (lh_block (k_log s)) (vw s (lg_start (k_log s))))] s s'"
proof -
  let ?st = "lg_start (k_log s)" and ?n = "nat (lh_n (k_log s))" and ?bl = "lh_block (k_log s)"
  let ?d = "hdr ?n ?bl (vw s ?st)"
  from bread_ok[OF ok, of ?st] Q obtain b s1 where b: "bread c ROOTDEV ?st s = Ret (b, s1)" "bio_ok c {b} Q s1" "has_block s1 b ?st (vw s ?st)" "quiet s s1" by auto
  have n: "?n \<le> LOGSIZE" "of_int32 (lh_n (k_log s)) = ?n" using lg by (auto simp: of_int32_def)
  have len: "length ?d = BSIZE" using hdr_read[OF view_len[OF ok] n(1)] by blast
  from rewrite_ok[OF b(2) _ b(3) len] obtain s2 where w: "bwrite c b (upd_buf b (b_data_update (\<lambda>_. ?d)) s1) = Ret ((), s2)"
    "bio_ok c {b} Q s2" "wrote [(?st, ?d)] s1 s2" "has_block s2 b ?st ?d" by auto
  have "upd_buf b (b_data_update (\<lambda>_. ?d)) s1 = upd_buf b (b_data_update (fold (\<lambda>i. put_le 4 (4 + 4 * i) (?bl ! i)) [0..<?n]))
      (upd_buf b (b_data_update (put_le 4 0 ?n)) s1)"
    using b(3) by (simp add: comp_def) (rule upd_buf_cong, simp add: hdr_def has_block_def)
  then have loop: "thenK (setbufK b (b_data_update (put_le 4 0 (of_int32 (lh_n (k_log s))))))
      (thenK (forK [0..<?n] (\<lambda>i. if i < LOGSIZE then setbufK b (b_data_update (put_le 4 (4 + 4 * i) (?bl ! i))) else faultK)) m) s1
      = m (upd_buf b (b_data_update (\<lambda>_. ?d)) s1)" for m :: "unit kop"
    by (simp add: thenK_def forK_data[OF n(1)] setbufK_def modK_def n(2))
  have "k_disk s2 ?st = ?d" using wroteD(1)[OF w(3)] by simp
  from brelse_clean[of c b "{}" Q s2, OF _ _ w(4)] this w(2) obtain s3 where f: "brelse c b s2 = Ret ((), s3)" "bio_ok c {} Q s3" "quiet s2 s3" by auto
  have "write_head c s = Ret ((), s3)"
    using b(1) by (simp add: write_head_def bindK_def getK_def lg(1) loop) (simp add: thenK_def w(1)[simplified] f(1))
  then show ?thesis using f(2) wrote_quiet[OF quiet_wrote[OF b(4) w(3)] f(3)] by blast
qed

section \<open>Commit\<close>

definition log_area :: "nat \<Rightarrow> nat set" where
  "log_area st = {st..<st + LOGSIZE}"

definition nlog :: "kernel \<Rightarrow> nat" where
  "nlog s = nat (lh_n (k_log s))"

definition logged :: "kernel \<Rightarrow> (nat \<times> nat) set" where
  "logged s = (\<lambda>i. (ROOTDEV, lh_block (k_log s) ! i)) ` {..<nlog s}"

text \<open>
  A log that is ready to be committed: fewer than \<open>LOGSIZE\<close> different blocks, none of them a block of the log itself.
\<close>

definition log_ok :: "kernel \<Rightarrow> bool" where
  "log_ok s \<longleftrightarrow> (let lg = k_log s; n = nlog s in
    lg_dev lg = ROOTDEV \<and> 0 \<le> lh_n lg \<and> n < LOGSIZE \<and> length (lh_block lg) = LOGSIZE \<and> inj_on (\<lambda>i. lh_block lg ! i) {..<n} \<and>
    (\<forall>i<n. lh_block lg ! i < 2 ^ 32 \<and> lh_block lg ! i \<notin> log_area (lg_start lg)))"

lemma logged_facts:
  "finite (logged s)" "card (logged s) \<le> nlog s" "i < nlog s \<Longrightarrow> (ROOTDEV, lh_block (k_log s) ! i) \<in> logged s"
  unfolding logged_def by (auto intro: order_trans[OF card_image_le])

lemma write_log_ok:
  assumes ok: "bio_ok c {} (logged s) s" and lg: "log_ok s"
  defines "st \<equiv> lg_start (k_log s)" and "bl \<equiv> lh_block (k_log s)"
  shows "\<exists>s'. write_log c s = Ret ((), s') \<and> bio_ok c {} (logged s) s' \<and> wrote (map (\<lambda>i. (st + i + 1, vw s (bl ! i))) [0..<nlog s]) s s'"
proof -
  let ?Inv = "\<lambda>i s'. bio_ok c {} (logged s) s' \<and> wrote (map (\<lambda>i. (st + i + 1, vw s (bl ! i))) [0..<i]) s s'"
  have L: "lg_dev (k_log s) = ROOTDEV" "nlog s < LOGSIZE" "\<And>i. i < nlog s \<Longrightarrow> bl ! i \<notin> log_area st" using lg by (auto simp: log_ok_def Let_def st_def bl_def)
  have few: "card (logged s) < NBUF" using logged_facts(2)[of s] L(2) by simp
  have "\<exists>s'. forK [0..<nlog s] (write_log_one c) s = Ret ((), s') \<and> ?Inv (nlog s) s'"
  proof (rule forK_upt[where Inv = ?Inv])
    fix i s1 assume i: "i < nlog s" and inv: "?Inv i s1"
    note inv1 = conjunct1[OF inv] and inv2 = conjunct2[OF inv]
    note lg1 = wroteD(3)[OF inv2]
    have ne: "st + i + 1 \<noteq> bl ! i" using L(2) L(3)[OF i] i by (auto simp: log_area_def)
    have "bl ! i \<notin> fst ` set (map (\<lambda>i. (st + i + 1, vw s (bl ! i))) [0..<i])" using L(2) L(3)[OF i] i by (auto simp: log_area_def)
    from writes_other[OF this] have v: "vw s1 (bl ! i) = vw s (bl ! i)" by (simp only: wroteD(2)[OF inv2])
    have "\<exists>s'. write_log_one c i s1 = Ret ((), s') \<and> bio_ok c {} (logged s) s' \<and> wrote [(st + i + 1, vw s1 (bl ! i))] s1 s'"
      using ne L(1) logged_facts(3)[OF i]
      by (intro write_log_one_ok[OF inv1 logged_facts(1) few]) (simp_all add: lg1 st_def bl_def)
    then obtain s2 where s2: "write_log_one c i s1 = Ret ((), s2)" "bio_ok c {} (logged s) s2" "wrote [(st + i + 1, vw s (bl ! i))] s1 s2"
      unfolding v by blast
    show "\<exists>s'. write_log_one c i s1 = Ret ((), s') \<and> ?Inv (Suc i) s'" using s2(1,2) wrote_trans[OF inv2 s2(3)] by simp
  qed (use ok in \<open>auto simp: wrote_def\<close>)
  then show ?thesis by (simp add: write_log_def bindK_def getK_def nlog_def)
qed

lemma install_trans_ok:
  assumes ok: "bio_ok c {} (logged s) s1" and lg: "log_ok s" "k_log s1 = k_log s"
  defines "st \<equiv> lg_start (k_log s)" and "bl \<equiv> lh_block (k_log s)"
  shows "\<exists>s'. install_trans c False s1 = Ret ((), s') \<and> bio_ok c {} {} s' \<and> wrote (map (\<lambda>i. (bl ! i, vw s1 (st + i + 1))) [0..<nlog s]) s1 s'"
proof -
  let ?ws = "\<lambda>i. map (\<lambda>i. (bl ! i, vw s1 (st + i + 1))) [0..<i]" and ?Q = "\<lambda>i. (\<lambda>i. (ROOTDEV, bl ! i)) ` {i..<nlog s}"
  let ?Inv = "\<lambda>i s'. bio_ok c {} (?Q i) s' \<and> wrote (?ws i) s1 s'"
  have L: "lg_dev (k_log s) = ROOTDEV" "nlog s < LOGSIZE" "\<And>i. i < nlog s \<Longrightarrow> bl ! i \<notin> log_area st" "inj_on (\<lambda>i. bl ! i) {..<nlog s}"
    using lg(1) by (auto simp: log_ok_def Let_def st_def bl_def)
  have "\<exists>s'. forK [0..<nlog s] (install_one c False) s1 = Ret ((), s') \<and> ?Inv (nlog s) s'"
  proof (rule forK_upt[where Inv = ?Inv])
    fix i s2 assume i: "i < nlog s" and inv: "?Inv i s2"
    note inv1 = conjunct1[OF inv] and inv2 = conjunct2[OF inv]
    have lg2: "k_log s2 = k_log s" using wroteD(3)[OF inv2] lg(2) by simp
    have Q: "finite (?Q i)" "card (?Q i) < NBUF" using card_image_le[of "{i..<nlog s}" "\<lambda>i. (ROOTDEV, bl ! i)"] L(2) i by auto
    have apart: "st + i + 1 \<noteq> bl ! j" if "j < nlog s" for j using L(2) L(3)[OF that] i by (auto simp: log_area_def)
    have ne: "st + i + 1 \<noteq> bl ! i" "(ROOTDEV, st + i + 1) \<notin> ?Q i" using i by (auto simp: apart[simplified])
    have "st + i + 1 \<notin> fst ` set (?ws i)" using i by (auto simp: apart[simplified])
    from writes_other[OF this] have v: "vw s2 (st + i + 1) = vw s1 (st + i + 1)" by (simp only: wroteD(2)[OF inv2])
    have "\<exists>s'. install_one c False i s2 = Ret ((), s') \<and> bio_ok c {} (?Q i - {(ROOTDEV, bl ! i)}) s' \<and> wrote [(bl ! i, vw s2 (st + i + 1))] s2 s'"
      using ne L(1) i by (intro install_one_ok[OF inv1 Q]) (simp_all add: lg2 st_def bl_def)
    then obtain s3 where s3: "install_one c False i s2 = Ret ((), s3)" "bio_ok c {} (?Q i - {(ROOTDEV, bl ! i)}) s3" "wrote [(bl ! i, vw s1 (st + i + 1))] s2 s3"
      unfolding v by blast
    have "(ROOTDEV, bl ! i) \<notin> ?Q (Suc i)" using i by (auto dest!: inj_onD[OF L(4)])
    moreover have "{i..<nlog s} = insert i {Suc i..<nlog s}" using i by auto
    ultimately have "?Q i - {(ROOTDEV, bl ! i)} = ?Q (Suc i)" by simp
    then show "\<exists>s'. install_one c False i s2 = Ret ((), s') \<and> ?Inv (Suc i) s'" using s3(1,2) wrote_trans[OF inv2 s3(3)] by simp
  next
    show "?Inv 0 s1" using ok by (simp add: logged_def bl_def atLeast0LessThan wrote_def)
  qed
  then show ?thesis using lg(2) by (simp add: install_trans_def bindK_def getK_def nlog_def)
qed

lemma bio_ok_log [simp]: "bio_ok c H Q (s\<lparr>k_log := l\<rparr>) = bio_ok c H Q s" "view (s\<lparr>k_log := l\<rparr>) q = view s q"
  by (simp add: bio_ok_def running_def mypid_def) (rule view_cong, simp_all)

text \<open>The writes of a commit: the blocks into the log, the header, the blocks home, the empty header.\<close>

definition commit_writes :: "kernel \<Rightarrow> (nat \<times> u8 list) list" where
  "commit_writes s =
    (let st = lg_start (k_log s); bl = lh_block (k_log s); n = nlog s; h = hdr n bl (vw s st)
     in map (\<lambda>i. (st + i + 1, vw s (bl ! i))) [0..<n] @ [(st, h)] @ map (\<lambda>i. (bl ! i, vw s (bl ! i))) [0..<n] @ [(st, hdr 0 bl h)])"

lemma commit_ok:
  assumes ok: "bio_ok c {} (logged s) s" and lg: "log_ok s" and n: "0 < nlog s"
  shows "\<exists>s'. commit c s = Ret ((), s') \<and> bio_ok c {} {} s' \<and> k_disk s' = writes (commit_writes s) (k_disk s) \<and>
    k_trace s' = k_trace s @ commit_writes s \<and> vw s' = writes (commit_writes s) (vw s) \<and> k_log s' = (k_log s)\<lparr>lh_n := 0\<rparr>"
proof -
  define st bl N V where "st = lg_start (k_log s)" and "bl = lh_block (k_log s)" and "N = nlog s" and "V = vw s"
  note defs = st_def bl_def N_def V_def
  have L: "lg_dev (k_log s) = ROOTDEV" "0 \<le> lh_n (k_log s)" "N < LOGSIZE" "\<And>i. i < N \<Longrightarrow> bl ! i \<notin> log_area st" "inj_on (\<lambda>i. bl ! i) {..<N}"
    using lg by (auto simp: log_ok_def Let_def defs)
  let ?w1 = "map (\<lambda>i. (st + i + 1, V (bl ! i))) [0..<N]" and ?h = "hdr N bl (V st)"
  from write_log_ok[OF ok lg] obtain s1 where s1: "write_log c s = Ret ((), s1)" "bio_ok c {} (logged s) s1" "wrote ?w1 s s1"
    unfolding defs by blast
  note g1 = wroteD(3)[OF s1(3)]
  have few: "card (logged s) < NBUF" using logged_facts(2)[of s] L(3) by (simp add: N_def)
  have apart: "bl ! i \<noteq> st" "bl ! i \<noteq> st + j + 1" if "i < N" "j < N" for i j using L(3) L(4)[OF that(1)] that(2) by (auto simp: log_area_def)
  have v1: "vw s1 st = V st" unfolding wroteD(2)[OF s1(3)] V_def by (rule writes_other) auto
  have n1: "nat (lh_n (k_log s1)) = N" "lg_start (k_log s1) = st" "lh_block (k_log s1) = bl" by (simp_all add: g1 defs nlog_def)
  have "lh_n (k_log s) \<le> int LOGSIZE" using L(2,3) by (simp add: N_def nlog_def)
  with write_head_ok[OF s1(2) logged_facts(1) few] L(1,2) obtain s2 where s2: "write_head c s1 = Ret ((), s2)" "bio_ok c {} (logged s) s2" "wrote [(st, ?h)] s1 s2"
    unfolding n1 v1 by (auto simp: g1)
  have g2: "k_log s2 = k_log s" using wroteD(3)[OF s2(3)] g1 by simp
  have v2: "vw s2 (st + i + 1) = V (bl ! i)" if "i < N" for i
  proof -
    have "writes ?w1 (vw s) (st + i + 1) = V (bl ! i)" using writes_map[of "\<lambda>i. st + i + 1" "[0..<N]" i "\<lambda>i. V (bl ! i)" "vw s"] that by (simp add: distinct_map inj_on_def)
    then show ?thesis unfolding wroteD(2)[OF s2(3)] wroteD(2)[OF s1(3)] by simp
  qed
  have w3: "map (\<lambda>i. (bl ! i, vw s2 (st + i + 1))) [0..<N] = map (\<lambda>i. (bl ! i, V (bl ! i))) [0..<N]" using v2 by simp
  let ?w3 = "map (\<lambda>i. (bl ! i, V (bl ! i))) [0..<N]"
  from install_trans_ok[OF s2(2) lg g2] obtain s3 where s3: "install_trans c False s2 = Ret ((), s3)" "bio_ok c {} {} s3" "wrote ?w3 s2 s3"
    unfolding st_def[symmetric] bl_def[symmetric] N_def[symmetric] w3 by blast
  have g3: "k_log s3 = k_log s" using wroteD(3)[OF s3(3)] g2 by simp
  define s4 where "s4 = s3\<lparr>k_log := (k_log s3)\<lparr>lh_n := 0\<rparr>\<rparr>"
  have v3: "vw s4 st = ?h"
  proof -
    have "st \<notin> fst ` set ?w3" using apart(1) by fastforce
    then have "writes ?w3 (vw s2) st = vw s2 st" by (rule writes_other)
    moreover have "vw s2 st = ?h" unfolding wroteD(2)[OF s2(3)] by simp
    ultimately show ?thesis unfolding s4_def bio_ok_log wroteD(2)[OF s3(3)] by simp
  qed
  have ok4: "bio_ok c {} {} s4" using s3(2) by (simp add: s4_def)
  have n4: "nat (lh_n (k_log s4)) = 0" "lg_start (k_log s4) = st" "lh_block (k_log s4) = bl" "lg_dev (k_log s4) = ROOTDEV" "lh_n (k_log s4) = 0"
    using L(1) by (simp_all add: s4_def g3 defs)
  have "\<exists>s5. write_head c s4 = Ret ((), s5) \<and> bio_ok c {} {} s5 \<and> wrote [(st, hdr 0 bl ?h)] s4 s5"
    using write_head_ok[OF ok4] unfolding n4 v3 by simp
  then obtain s5 where s5: "write_head c s4 = Ret ((), s5)" "bio_ok c {} {} s5" "wrote [(st, hdr 0 bl ?h)] s4 s5" by blast
  have "k_log s5 = (k_log s)\<lparr>lh_n := 0\<rparr>" using wroteD(3)[OF s5(3)] by (simp add: s4_def g3)
  moreover have "wrote (?w1 @ [(st, ?h)] @ ?w3) s s3" using wrote_trans[OF s1(3) wrote_trans[OF s2(3) s3(3)]] .
  moreover have "commit_writes s = (?w1 @ [(st, ?h)] @ ?w3) @ [(st, hdr 0 bl ?h)]" by (simp add: commit_writes_def Let_def defs)
  ultimately have "k_disk s5 = writes (commit_writes s) (k_disk s)" "k_trace s5 = k_trace s @ commit_writes s" "vw s5 = writes (commit_writes s) (vw s)"
    "k_log s5 = (k_log s)\<lparr>lh_n := 0\<rparr>"
    using s5(3) by (simp_all add: wrote_def s4_def)
  moreover have "commit c s = Ret ((), s5)"
    using n s1(1) s2(1) s3(1) s5(1) by (simp add: commit_def kop_simps nlog_def upd_log_def s4_def)
  ultimately show ?thesis using s5(2) by blast
qed

end
