(* ===== verification/Log_Crash.thy ===== *)
theory Log_Crash
  imports Log_Correct "HOL-Library.Sublist"
begin

text \<open>
  Crashes: what recovery makes of a disk (\<open>recovered\<close>), that every state of the disk during a commit is recovered to
  the files before it or after it, and that recovery installs exactly this, however often it is interrupted itself.
\<close>

section \<open>Crashes\<close>

text \<open>What recovery makes of a disk: the blocks named in the header are overwritten with their copies in the log.\<close>

definition recovered :: "nat \<Rightarrow> (nat \<Rightarrow> u8 list) \<Rightarrow> nat \<Rightarrow> u8 list" where
  "recovered st D = writes (map (\<lambda>i. (hdr_block (D st) i, D (st + i + 1))) [0..<hdr_n (D st)]) D"

definition log_readable :: "nat \<Rightarrow> (nat \<Rightarrow> u8 list) \<Rightarrow> bool" where
  "log_readable st D \<longleftrightarrow> hdr_n (D st) < LOGSIZE \<and> (\<forall>i<hdr_n (D st). hdr_block (D st) i \<notin> log_area st)"

definition same_files :: "nat \<Rightarrow> (nat \<Rightarrow> u8 list) \<Rightarrow> (nat \<Rightarrow> u8 list) \<Rightarrow> bool" where
  "same_files st D D' \<longleftrightarrow> (\<forall>m. m \<notin> log_area st \<longrightarrow> D m = D' m)"

lemma recovered_empty: "hdr_n (D st) = 0 \<Longrightarrow> recovered st D = D \<and> log_readable st D"
  by (simp add: recovered_def log_readable_def)

text \<open>Writes whose effect the writes after them hide.\<close>

lemma writes_agree: "D1 m = D2 m \<or> m \<in> fst ` set ws \<Longrightarrow> writes ws D1 m = writes ws D2 m"
proof (induction ws arbitrary: D1 D2)
  case (Cons w ws)
  show ?case
  proof (cases w)
    case (Pair a d)
    then have "(D1(a := d)) m = (D2(a := d)) m \<or> m \<in> fst ` set ws" using Cons.prems by auto
    from Cons.IH[of "D1(a := d)" "D2(a := d)", OF this] show ?thesis unfolding Pair writes_simps .
  qed
qed simp

lemma writes_hidden:
  assumes "fst ` set us \<subseteq> fst ` set ws"
  shows "writes ws (writes us D) = writes ws D"
proof
  fix m
  show "writes ws (writes us D) m = writes ws D m" by (rule writes_agree) (use assms writes_other[of m us D] in blast)
qed

lemma writes_same: "D m = D' m \<Longrightarrow> writes ws D m = writes ws D' m"
  by (rule writes_agree) (rule disjI1)

lemma commit_prefixes:
  fixes st N :: nat and bl :: "nat list" and V D0 :: "nat \<Rightarrow> u8 list"
  defines "w1 \<equiv> map (\<lambda>i. (st + i + 1, V (bl ! i))) [0..<N]" and "w3 \<equiv> map (\<lambda>i. (bl ! i, V (bl ! i))) [0..<N]"
  assumes N: "N < LOGSIZE" and bl: "\<And>i. i < N \<Longrightarrow> bl ! i \<notin> log_area st"
    and h: "hdr_n h = N" "\<And>i. i < N \<Longrightarrow> hdr_block h i = bl ! i" and z: "hdr_n z = 0" "hdr_n (D0 st) = 0"
    and pre: "prefix us (w1 @ [(st, h)] @ w3 @ [(st, z)])"
  shows "log_readable st (writes us D0) \<and> (same_files st (recovered st (writes us D0)) D0 \<or> same_files st (recovered st (writes us D0)) (writes w3 D0))"
proof -
  have outside: "m \<notin> fst ` set w1" if "m \<notin> log_area st \<or> m = st" for m using that N by (auto simp: w1_def log_area_def)
  have inside: "m \<notin> fst ` set w3" if "m \<in> log_area st" for m using that bl by (auto simp: w3_def)
  have st: "st \<in> log_area st" "\<And>i. i < N \<Longrightarrow> st + i + 1 \<in> log_area st" using N by (auto simp: log_area_def)
  consider "prefix us w1" | us3 where "us = w1 @ [(st, h)] @ us3" "prefix us3 w3" | "us = w1 @ [(st, h)] @ w3 @ [(st, z)]"
    using pre by (auto simp: prefix_append prefix_Cons)
  then show ?thesis
  proof cases
    case 1
    then have sub: "fst ` set us \<subseteq> fst ` set w1" by (auto simp: prefix_def)
    have "writes us D0 m = D0 m" if "m \<notin> log_area st \<or> m = st" for m using outside[OF that] sub by (intro writes_other) auto
    then show ?thesis using recovered_empty[of "writes us D0" st] z by (auto simp: same_files_def)
  next
    case 2
    define D where "D = writes w1 D0"
    have us: "writes us D0 = writes us3 (D(st := h))" by (simp add: 2(1) D_def)
    have sub: "fst ` set us3 \<subseteq> fst ` set w3" using 2(2) by (auto simp: prefix_def)
    have la: "writes us3 (D(st := h)) m = (D(st := h)) m" if "m \<in> log_area st" for m using inside[OF that] sub by (intro writes_other) auto
    have "D (st + i + 1) = V (bl ! i)" if "i < N" for i
      using writes_map[of "\<lambda>i. st + i + 1" "[0..<N]" i "\<lambda>i. V (bl ! i)" D0] that by (simp add: D_def w1_def distinct_map inj_on_def)
    then have cp: "writes us D0 (st + i + 1) = V (bl ! i)" if "i < N" for i unfolding us using la[OF st(2)[OF that]] that by simp
    have hd: "writes us D0 st = h" unfolding us using la[OF st(1)] by simp
    have "recovered st (writes us D0) = writes w3 (writes us D0)" unfolding recovered_def hd h(1) w3_def using cp h(2) by (intro arg_cong[of _ _ "\<lambda>ws. writes ws (writes us D0)"] map_cong) auto
    also have "\<dots> = writes w3 (D(st := h))" unfolding us by (rule writes_hidden[OF sub])
    finally have r: "recovered st (writes us D0) = writes w3 (D(st := h))" .
    have "(D(st := h)) m = D0 m" if "m \<notin> log_area st" for m using that st(1) outside[of m] writes_other[of m w1 D0] by (auto simp: D_def)
    then have "same_files st (recovered st (writes us D0)) (writes w3 D0)" unfolding same_files_def r by (intro allI impI writes_same)
    then show ?thesis using hd h bl N by (simp add: log_readable_def)
  next
    case 3
    define D where "D = (writes w1 D0)(st := h)"
    have us: "writes us D0 = (writes w3 D)(st := z)" by (simp add: 3 D_def)
    have "(writes us D0) m = writes w3 D0 m" if "m \<notin> log_area st" for m
    proof -
      have "m \<noteq> st" "D m = D0 m" using that st(1) outside[of m] writes_other[of m w1 D0] by (auto simp: D_def)
      then show ?thesis unfolding us using writes_same[of D m D0 w3] by simp
    qed
    moreover have "hdr_n (writes us D0 st) = 0" unfolding us using z by simp
    ultimately show ?thesis using recovered_empty[of "writes us D0" st] by (simp add: same_files_def)
  qed
qed

lemma commit_states:
  assumes ok: "bio_ok c {} (logged s) s" and lg: "log_ok s" and st: "st = lg_start (k_log s)"
    and clean: "hdr_n (k_disk s st) = 0" and pre: "prefix us (commit_writes s)"
  shows "log_readable st (writes us (k_disk s)) \<and>
    (same_files st (recovered st (writes us (k_disk s))) (k_disk s) \<or> same_files st (recovered st (writes us (k_disk s))) (vw s))"
proof -
  define bl N where "bl = lh_block (k_log s)" and "N = nlog s"
  have L: "N < LOGSIZE" "\<And>i. i < N \<Longrightarrow> bl ! i < 2 ^ 32 \<and> bl ! i \<notin> log_area st" "inj_on (\<lambda>i. bl ! i) {..<N}"
    using lg by (auto simp: log_ok_def Let_def st bl_def N_def)
  let ?h = "hdr N bl (vw s st)"
  have h: "length ?h = BSIZE" "get_le 4 0 ?h = N" "\<And>i. i < N \<Longrightarrow> get_le 4 (4 + 4 * i) ?h = (bl ! i) mod 2 ^ 32"
    using hdr_read[OF view_len[OF ok], of N bl st] L(1) by auto
  have hb: "hdr_block ?h i = bl ! i" if "i < N" for i using h(3)[OF that] L(2)[OF that] by (simp add: hdr_block_def)
  have z: "hdr_n (hdr 0 bl ?h) = 0" using hdr_read[OF h(1), of 0 bl] by (simp add: hdr_n_def)
  have w: "commit_writes s = map (\<lambda>i. (st + i + 1, vw s (bl ! i))) [0..<N] @ [(st, ?h)] @ map (\<lambda>i. (bl ! i, vw s (bl ! i))) [0..<N] @ [(st, hdr 0 bl ?h)]"
    by (simp add: commit_writes_def Let_def st bl_def N_def)
  let ?w3 = "map (\<lambda>i. (bl ! i, vw s (bl ! i))) [0..<N]"
  have "writes ?w3 (k_disk s) m = vw s m" if m: "m \<notin> log_area st" for m
  proof (cases "\<exists>i<N. m = bl ! i")
    case True
    then obtain i where i: "i < N" "m = bl ! i" by blast
    have "distinct (map (\<lambda>i. bl ! i) [0..<N])" using L(3) by (simp add: distinct_map atLeast0LessThan)
    from writes_map[OF this, of i "\<lambda>i. vw s (bl ! i)" "k_disk s"] i show ?thesis by simp
  next
    case False
    have "(ROOTDEV, m) \<notin> logged s" using False by (auto simp: logged_def bl_def N_def)
    then have "vw s m = k_disk s m" using view_clean[OF ok, of "(ROOTDEV, m)"] by simp
    moreover have "m \<notin> fst ` set ?w3" using False by auto
    ultimately show ?thesis using writes_other by simp
  qed
  then have new: "same_files st D (writes ?w3 (k_disk s)) \<Longrightarrow> same_files st D (vw s)" for D by (simp add: same_files_def)
  have "hdr_n ?h = N" using h(2) by (simp add: hdr_n_def)
  from commit_prefixes[where V = "vw s" and ?D0.0 = "k_disk s", OF L(1) conjunct2[OF L(2)] this hb z clean pre[unfolded w]]
  show ?thesis using new by blast
qed

section \<open>Recovery\<close>

lemma forK_log:
  assumes "n \<le> LOGSIZE" "length (lh_block (k_log s)) = LOGSIZE"
  shows "forK [0..<n] (\<lambda>i. if i < LOGSIZE then upd_log (\<lambda>l. l\<lparr>lh_block := (lh_block l)[i := x i]\<rparr>) else faultK) s
    = Ret ((), s\<lparr>k_log := (k_log s)\<lparr>lh_block := map x [0..<n] @ drop n (lh_block (k_log s))\<rparr>\<rparr>)"
  using assms(1)
proof (induction n)
  case 0
  then show ?case by (simp add: retK_def)
next
  case (Suc n)
  have "(map x [0..<n] @ drop n (lh_block (k_log s)))[n := x n] = map x [0..<Suc n] @ drop (Suc n) (lh_block (k_log s))"
    using Suc.prems assms(2) by (simp add: list_update_append Cons_nth_drop_Suc[symmetric])
  then show ?case using Suc by (simp add: forK_append upd_log_def modK_def thenK_def retK_def)
qed

lemma has_block_log [simp]: "has_block (s\<lparr>k_log := l\<rparr>) b n d = has_block s b n d"
  by (simp add: has_block_def)

lemma read_head_ok:
  assumes ok: "bio_ok c {} {} s" and lg: "lg_dev (k_log s) = ROOTDEV" "length (lh_block (k_log s)) = LOGSIZE"
  defines "d \<equiv> k_disk s (lg_start (k_log s))"
  assumes k: "hdr_n d \<le> LOGSIZE"
  shows "\<exists>s'. read_head c s = Ret ((), s') \<and> bio_ok c {} {} s' \<and> k_disk s' = k_disk s \<and> k_trace s' = k_trace s \<and>
    k_log s' = (k_log s)\<lparr>lh_n := int (hdr_n d), lh_block := map (hdr_block d) [0..<hdr_n d] @ drop (hdr_n d) (lh_block (k_log s))\<rparr>"
proof -
  let ?st = "lg_start (k_log s)"
  from bread_ok[OF ok, of ?st] obtain b s1 where b: "bread c ROOTDEV ?st s = Ret (b, s1)" "bio_ok c {b} {} s1" "has_block s1 b ?st (vw s ?st)" "quiet s s1" by auto
  have d: "vw s ?st = d" using view_clean[OF ok, of "(ROOTDEV, ?st)"] by (simp add: d_def)
  have n: "int32_of (get_le 4 0 d) = int (hdr_n d)" using k by (simp add: int32_of_def hdr_n_def)
  define s2 where "s2 = s1\<lparr>k_log := (k_log s1)\<lparr>lh_n := int (hdr_n d), lh_block := map (hdr_block d) [0..<hdr_n d] @ drop (hdr_n d) (lh_block (k_log s1))\<rparr>\<rparr>"
  note g1 = quietD(3)[OF b(4)]
  have "has_block s2 b ?st d" "bio_ok c {b} {} s2" using b(2,3) d by (simp_all add: s2_def)
  with brelse_clean[of c b "{}" "{}" s2 ?st d] quietD(1)[OF b(4)] obtain s3 where f: "brelse c b s2 = Ret ((), s3)" "bio_ok c {} {} s3" "quiet s2 s3"
    by (auto simp: s2_def d_def)
  have hb: "get_le 4 (4 + 4 * i) d = hdr_block d i" for i by (simp add: hdr_block_def)
  have bd: "b_data (bufs s1 b) = d" using b(3) d by (simp add: has_block_def)
  have len: "length (lh_block (k_log (s1\<lparr>k_log := (k_log s1)\<lparr>lh_n := int (hdr_n d)\<rparr>\<rparr>))) = LOGSIZE" using lg(2) g1 by simp
  have "read_head c s = Ret ((), s3)"
    using b(1) f(1) forK_log[OF k len, of "hdr_block d"]
    by (simp add: read_head_def kop_simps lg(1) bufK_def hb bd n upd_log_def s2_def cong: if_cong)
  moreover have "k_disk s3 = k_disk s" "k_trace s3 = k_trace s" "k_log s3 = k_log s2"
    using f(3) b(4) quietD(3)[OF f(3)] by (simp_all add: quiet_def s2_def)
  ultimately show ?thesis using f(2) g1 by (simp add: s2_def)
qed

text \<open>Installing during recovery, where nothing is pinned.\<close>

lemma install_recover:
  assumes ok: "bio_ok c {} {} s" and lg: "lg_dev (k_log s) = ROOTDEV" "0 \<le> lh_n (k_log s)" "nlog s < LOGSIZE"
  defines "st \<equiv> lg_start (k_log s)" and "bl \<equiv> lh_block (k_log s)"
  assumes bl: "\<And>i. i < nlog s \<Longrightarrow> bl ! i \<notin> log_area st"
  shows "\<exists>s'. install_trans c True s = Ret ((), s') \<and> bio_ok c {} {} s' \<and> wrote (map (\<lambda>i. (bl ! i, k_disk s (st + i + 1))) [0..<nlog s]) s s'"
proof -
  let ?ws = "\<lambda>i. map (\<lambda>i. (bl ! i, k_disk s (st + i + 1))) [0..<i]"
  let ?Inv = "\<lambda>i s'. bio_ok c {} {} s' \<and> wrote (?ws i) s s'"
  have v0: "vw s m = k_disk s m" for m using view_clean[OF ok, of "(ROOTDEV, m)"] by simp
  have "\<exists>s'. forK [0..<nlog s] (install_one c True) s = Ret ((), s') \<and> ?Inv (nlog s) s'"
  proof (rule forK_upt[where Inv = ?Inv])
    fix i s2 assume i: "i < nlog s" and inv: "?Inv i s2"
    note inv1 = conjunct1[OF inv] and inv2 = conjunct2[OF inv]
    note lg2 = wroteD(3)[OF inv2]
    have apart: "st + i + 1 \<noteq> bl ! j" if "j < nlog s" for j using lg(3) bl[OF that] i by (auto simp: log_area_def)
    have "st + i + 1 \<notin> fst ` set (?ws i)" using i by (auto simp: apart[simplified])
    from writes_other[OF this] have v: "vw s2 (st + i + 1) = k_disk s (st + i + 1)" by (simp only: wroteD(2)[OF inv2] v0)
    have "\<exists>s'. install_one c True i s2 = Ret ((), s') \<and> bio_ok c {} ({} - {(ROOTDEV, bl ! i)}) s' \<and> wrote [(bl ! i, vw s2 (st + i + 1))] s2 s'"
      using apart[OF i] lg(1) by (intro install_one_ok[OF inv1]) (simp_all add: lg2 st_def bl_def)
    then obtain s3 where s3: "install_one c True i s2 = Ret ((), s3)" "bio_ok c {} {} s3" "wrote [(bl ! i, k_disk s (st + i + 1))] s2 s3"
      unfolding v by auto
    show "\<exists>s'. install_one c True i s2 = Ret ((), s') \<and> ?Inv (Suc i) s'" using s3(1,2) wrote_trans[OF inv2 s3(3)] by simp
  qed (use ok in \<open>simp add: wrote_def\<close>)
  then show ?thesis by (simp add: install_trans_def bindK_def getK_def nlog_def)
qed

definition recovery_writes :: "nat \<Rightarrow> (nat \<Rightarrow> u8 list) \<Rightarrow> u8 list \<Rightarrow> (nat \<times> u8 list) list" where
  "recovery_writes st D z = map (\<lambda>i. (hdr_block (D st) i, D (st + i + 1))) [0..<hdr_n (D st)] @ [(st, z)]"

lemma initlog_ok:
  assumes ok: "bio_ok c {} {} r" and len: "length (lh_block (k_log r)) = LOGSIZE" and rd: "log_readable (sb_logstart sb) (k_disk r)"
  shows "\<exists>r' z. initlog c ROOTDEV sb r = Ret ((), r') \<and> bio_ok c {} {} r' \<and> hdr_n z = 0 \<and>
    k_disk r' = writes (recovery_writes (sb_logstart sb) (k_disk r) z) (k_disk r) \<and>
    k_trace r' = k_trace r @ recovery_writes (sb_logstart sb) (k_disk r) z \<and> lh_n (k_log r') = 0"
proof -
  define st D where "st = sb_logstart sb" and "D = k_disk r"
  let ?k = "hdr_n (D st)" and ?d = "D st"
  define r0 where "r0 = r\<lparr>k_log := (k_log r)\<lparr>lg_lock := initlock ''log'', lg_start := st, lg_size := sb_nlog sb, lg_dev := ROOTDEV\<rparr>\<rparr>"
  have k: "?k < LOGSIZE" "\<And>i. i < ?k \<Longrightarrow> hdr_block ?d i \<notin> log_area st" using rd by (auto simp: log_readable_def st_def D_def)
  have ok0: "bio_ok c {} {} r0" using ok by (simp add: r0_def)
  have "\<exists>s'. read_head c r0 = Ret ((), s') \<and> bio_ok c {} {} s' \<and> k_disk s' = k_disk r0 \<and> k_trace s' = k_trace r0 \<and>
    k_log s' = (k_log r0)\<lparr>lh_n := int ?k, lh_block := map (hdr_block ?d) [0..<?k] @ drop ?k (lh_block (k_log r0))\<rparr>"
    using read_head_ok[OF ok0] less_imp_le[OF k(1)] len by (simp add: r0_def D_def)
  then obtain r1 where r1: "read_head c r0 = Ret ((), r1)" "bio_ok c {} {} r1" "k_disk r1 = D" "k_trace r1 = k_trace r"
    "k_log r1 = (k_log r0)\<lparr>lh_n := int ?k, lh_block := map (hdr_block ?d) [0..<?k] @ drop ?k (lh_block (k_log r0))\<rparr>" by (auto simp: r0_def D_def)
  have g1: "lg_dev (k_log r1) = ROOTDEV" "0 \<le> lh_n (k_log r1)" "nlog r1 = ?k" "lg_start (k_log r1) = st" by (simp_all add: r1(5) r0_def nlog_def)
  have b1: "lh_block (k_log r1) ! i = hdr_block ?d i" if "i < ?k" for i using that by (simp add: r1(5) nth_append)
  let ?ws = "map (\<lambda>i. (hdr_block ?d i, D (st + i + 1))) [0..<?k]"
  have "map (\<lambda>i. (lh_block (k_log r1) ! i, k_disk r1 (lg_start (k_log r1) + i + 1))) [0..<nlog r1] = ?ws" using b1 g1 r1(3) by simp
  moreover have "\<exists>s'. install_trans c True r1 = Ret ((), s') \<and> bio_ok c {} {} s' \<and>
      wrote (map (\<lambda>i. (lh_block (k_log r1) ! i, k_disk r1 (lg_start (k_log r1) + i + 1))) [0..<nlog r1]) r1 s'"
    using k b1 g1 by (intro install_recover[OF r1(2)]) simp_all
  ultimately obtain r2 where r2: "install_trans c True r1 = Ret ((), r2)" "bio_ok c {} {} r2" "wrote ?ws r1 r2" by auto
  note g2 = wroteD(3)[OF r2(3)]
  define r3 where "r3 = r2\<lparr>k_log := (k_log r2)\<lparr>lh_n := 0\<rparr>\<rparr>"
  have ok3: "bio_ok c {} {} r3" using r2(2) by (simp add: r3_def)
  have g3: "lg_dev (k_log r3) = ROOTDEV" "lh_n (k_log r3) = 0" "lg_start (k_log r3) = st" using g1 g2 by (simp_all add: r3_def)
  let ?z = "hdr 0 (lh_block (k_log r3)) (vw r3 st)"
  have "\<exists>s'. write_head c r3 = Ret ((), s') \<and> bio_ok c {} {} s' \<and> wrote [(st, ?z)] r3 s'" using write_head_ok[OF ok3] g3 by simp
  then obtain r4 where r4: "write_head c r3 = Ret ((), r4)" "bio_ok c {} {} r4" "wrote [(st, ?z)] r3 r4" by blast
  have "hdr_n ?z = 0" using hdr_read[OF view_len[OF ok3], of 0] by (simp add: hdr_n_def)
  moreover have "k_disk r4 = writes (?ws @ [(st, ?z)]) D" "k_trace r4 = k_trace r @ ?ws @ [(st, ?z)]"
    using r2(3) r4(3) r1(3,4) by (simp_all add: wrote_def r3_def)
  moreover have "lh_n (k_log r4) = 0" using wroteD(3)[OF r4(3)] g3(2) by simp
  moreover have "initlog c ROOTDEV sb r = Ret ((), r4)"
    using r1(1) r2(1) r4(1) by (simp add: initlog_def recover_from_log_def thenK_def upd_log_def modK_def r3_def r0_def st_def)
  ultimately show ?thesis using r4(2) by (auto simp: recovery_writes_def st_def D_def)
qed

lemma recovery_states:
  assumes rd: "log_readable st D" and z: "hdr_n z = 0" and pre: "prefix us (recovery_writes st D z)"
  shows "log_readable st (writes us D) \<and> same_files st (recovered st (writes us D)) (recovered st D)"
proof -
  let ?ws = "map (\<lambda>i. (hdr_block (D st) i, D (st + i + 1))) [0..<hdr_n (D st)]"
  have k: "hdr_n (D st) < LOGSIZE" "\<And>i. i < hdr_n (D st) \<Longrightarrow> hdr_block (D st) i \<notin> log_area st" using rd by (auto simp: log_readable_def)
  have st: "st \<in> log_area st" "\<And>i. i < hdr_n (D st) \<Longrightarrow> st + i + 1 \<in> log_area st" using k(1) by (auto simp: log_area_def)
  consider "prefix us ?ws" | "us = ?ws @ [(st, z)]" using pre by (auto simp: recovery_writes_def prefix_append prefix_Cons)
  then show ?thesis
  proof cases
    case 1
    then have sub: "fst ` set us \<subseteq> fst ` set ?ws" by (intro image_mono set_mono_prefix)
    have la: "writes us D m = D m" if "m \<in> log_area st" for m
    proof (rule writes_other)
      have "m \<notin> fst ` set ?ws" using k(2) that by auto
      then show "m \<notin> fst ` set us" using sub by blast
    qed
    have "recovered st (writes us D) = writes ?ws (writes us D)"
      unfolding recovered_def la[OF st(1)] using la[OF st(2)] by (intro arg_cong[of _ _ "\<lambda>ws. writes ws (writes us D)"] map_cong) auto
    also have "\<dots> = recovered st D" unfolding recovered_def by (rule writes_hidden[OF sub])
    finally show ?thesis using rd la[OF st(1)] by (simp add: same_files_def log_readable_def)
  next
    case 2
    have "writes us D = (recovered st D)(st := z)" by (simp add: 2 recovered_def)
    moreover from this have "recovered st (writes us D) = writes us D \<and> log_readable st (writes us D)" using z by (intro recovered_empty) simp
    ultimately show ?thesis using st(1) by (auto simp: same_files_def)
  qed
qed

end
