(* ===== verification/Log_Txn.thy ===== *)
theory Log_Txn
  imports Log_Crash
begin

text \<open>
  File-system operations as transactions: \<open>begin_op\<close>, any number of logged block updates, \<open>end_op\<close>. The client here is
  the pattern every writer of \<open>kernel/fs.c\<close> follows: read a block, change the buffer, \<open>log_write\<close>, release.
\<close>

section \<open>The lock of the log\<close>

definition lgheld :: "nat \<Rightarrow> kernel \<Rightarrow> kernel" where
  "lgheld c s = s\<lparr>k_log := (k_log s)\<lparr>lg_lock := held c (lg_lock (k_log s))\<rparr>\<rparr>"

lemma acquire_log_free: "lk_free (lg_lock (k_log s)) \<Longrightarrow> acquire_log c s = Ret ((), lgheld c s)"
  by (simp add: acquire_log_def acquireK_def lgheld_def held_def)

lemma release_lgheld: "lk_free (lg_lock (k_log s)) \<Longrightarrow> release_log c (lgheld c s) = Ret ((), s)"
  by (simp add: release_log_def releaseK_def lgheld_def held_def)

lemma lgheld_simps [simp]:
  "lg_committing (k_log (lgheld c s)) = lg_committing (k_log s)" "lh_n (k_log (lgheld c s)) = lh_n (k_log s)" "lh_block (k_log (lgheld c s)) = lh_block (k_log s)"
  "lg_outstanding (k_log (lgheld c s)) = lg_outstanding (k_log s)" "lg_size (k_log (lgheld c s)) = lg_size (k_log s)" "k_bc (lgheld c s) = k_bc s"
  "absorb_index n (k_log (lgheld c s)) = absorb_index n (k_log s)"
  by (simp_all add: lgheld_def absorb_index_def cong: list.case_cong)

lemma upd_lgheld:
  assumes "\<And>l. f (lg_lock_update (held c) l) = lg_lock_update (held c) (f l)"
  shows "upd_log f (lgheld c s) = Ret ((), lgheld c (s\<lparr>k_log := f (k_log s)\<rparr>))"
proof -
  have held: "lg_lock_update (held c) l = l\<lparr>lg_lock := held c (lg_lock l)\<rparr>" for l by simp
  show ?thesis using assms[of "k_log s"] by (simp add: upd_log_def modK_def lgheld_def held)
qed

lemma view_log [simp]: "view (s\<lparr>k_log := l\<rparr>) q = view s q"
  by (rule view_cong) simp_all

definition in_op :: "nat \<Rightarrow> nat set \<Rightarrow> kernel \<Rightarrow> bool" where
  "in_op c H s \<longleftrightarrow> bio_ok c H (logged s) s \<and> log_ok s \<and> lk_free (lg_lock (k_log s)) \<and> \<not> lg_committing (k_log s) \<and> lg_size (k_log s) = LOGSIZE"

lemma in_opD:
  assumes "in_op c H s"
  shows "bio_ok c H (logged s) s" "log_ok s" "lk_free (lg_lock (k_log s))" "\<not> lg_committing (k_log s)" "lg_size (k_log s) = LOGSIZE"
  using assms by (simp_all add: in_op_def)

lemma log_okD:
  assumes "log_ok s"
  shows "lg_dev (k_log s) = ROOTDEV" "lh_n (k_log s) = int (nlog s)" "nlog s < LOGSIZE" "length (lh_block (k_log s)) = LOGSIZE"
  using assms by (simp_all add: log_ok_def Let_def nlog_def)

lemma begin_op_ok:
  assumes "in_op c H s" "int (nlog s) + (lg_outstanding (k_log s) + 1) * int MAXOPBLOCKS \<le> int LOGSIZE"
  shows "begin_op c s = Ret ((), s\<lparr>k_log := (k_log s)\<lparr>lg_outstanding := lg_outstanding (k_log s) + 1\<rparr>\<rparr>)"
proof -
  let ?s = "s\<lparr>k_log := (k_log s)\<lparr>lg_outstanding := lg_outstanding (k_log s) + 1\<rparr>\<rparr>"
  have "upd_log (\<lambda>l. l\<lparr>lg_outstanding := lg_outstanding l + 1\<rparr>) (lgheld c s) = Ret ((), lgheld c ?s)" by (subst upd_lgheld) simp_all
  moreover have "release_log c (lgheld c ?s) = Ret ((), ?s)" using in_opD(3)[OF assms(1)] by (intro release_lgheld) simp
  ultimately show ?thesis
    using assms(2) in_opD(3,4)[OF assms(1)] log_okD(2)[OF in_opD(2)[OF assms(1)]]
    by (simp add: begin_op_def thenK_def bindK_def getK_def acquire_log_free del: One_nat_def)
qed

section \<open>Logging a block\<close>

lemma absorb_index_cases:
  assumes "log_ok s"
  shows "absorb_index n (k_log s) = nlog s \<and> (ROOTDEV, n) \<notin> logged s \<or>
    absorb_index n (k_log s) < nlog s \<and> lh_block (k_log s) ! absorb_index n (k_log s) = n \<and> (ROOTDEV, n) \<in> logged s"
proof -
  let ?f = "filter (\<lambda>i. lh_block (k_log s) ! i = n) [0..<nlog s]"
  show ?thesis
  proof (cases ?f)
    case Nil
    then show ?thesis by (auto simp: absorb_index_def nlog_def logged_def filter_empty_conv)
  next
    case (Cons i rest)
    then have "i \<in> set ?f" by simp
    then show ?thesis using Cons by (auto simp: absorb_index_def nlog_def logged_def)
  qed
qed

definition log_frame :: "kernel \<Rightarrow> kernel \<Rightarrow> bool" where
  "log_frame s s' \<longleftrightarrow> k_disk s' = k_disk s \<and> k_trace s' = k_trace s \<and>
    k_log s' = (k_log s)\<lparr>lh_n := lh_n (k_log s'), lh_block := lh_block (k_log s')\<rparr>"

lemma log_ok_add:
  assumes lg: "log_ok s" and n: "n < 2 ^ 32" "n \<notin> log_area (lg_start (k_log s))" "(ROOTDEV, n) \<notin> logged s" and more: "nlog s + 1 < LOGSIZE"
    and s': "k_log s' = (k_log s)\<lparr>lh_n := lh_n (k_log s) + 1, lh_block := (lh_block (k_log s))[nlog s := n]\<rparr>"
  shows "log_ok s'" "logged s' = insert (ROOTDEV, n) (logged s)" "nlog s' = nlog s + 1"
proof -
  let ?bl = "lh_block (k_log s)"
  have L: "length ?bl = LOGSIZE" "inj_on (\<lambda>i. ?bl ! i) {..<nlog s}" "\<And>i. i < nlog s \<Longrightarrow> ?bl ! i < 2 ^ 32 \<and> ?bl ! i \<notin> log_area (lg_start (k_log s))"
    using lg by (auto simp: log_ok_def Let_def)
  show n': "nlog s' = nlog s + 1" using log_okD(2)[OF lg] by (simp add: nlog_def[of s'] s')
  have nth: "lh_block (k_log s') ! i = (if i = nlog s then n else ?bl ! i)" if "i < nlog s'" for i
    using that more L(1) by (simp add: n' s' nth_list_update)
  have fresh: "?bl ! i \<noteq> n" if "i < nlog s" for i using n(3) that by (auto simp: logged_def)
  have set: "{..<nlog s'} = insert (nlog s) {..<nlog s}" by (auto simp: n')
  show "logged s' = insert (ROOTDEV, n) (logged s)"
    unfolding logged_def set image_insert
    by (rule arg_cong2[of _ _ _ _ insert]) (auto simp: nth n' intro!: image_cong)
  have "inj_on (\<lambda>i. lh_block (k_log s') ! i) {..<nlog s'}"
  proof (rule inj_onI)
    fix i j assume "i \<in> {..<nlog s'}" "j \<in> {..<nlog s'}" "lh_block (k_log s') ! i = lh_block (k_log s') ! j"
    then show "i = j" using fresh[of i] fresh[of j] inj_onD[OF L(2), of i j] nth[of i] nth[of j] by (auto simp: n' less_Suc_eq split: if_splits)
  qed
  moreover have "\<forall>i<nlog s'. lh_block (k_log s') ! i < 2 ^ 32 \<and> lh_block (k_log s') ! i \<notin> log_area (lg_start (k_log s'))"
    using L(3) n(1,2) nth by (simp add: s') (simp add: n' less_Suc_eq)
  ultimately show "log_ok s'" using log_okD[OF lg] more n' by (simp add: log_ok_def Let_def s')
qed

lemma log_write_ok:
  assumes op: "in_op c H s" and b: "b \<in> H" and hb: "has_block s b n d" and out: "1 \<le> lg_outstanding (k_log s)" and more: "nlog s + 1 < LOGSIZE"
    and n: "n < 2 ^ 32" "n \<notin> log_area (lg_start (k_log s))"
  shows "\<exists>s'. log_write c b s = Ret ((), s') \<and> in_op c H s' \<and> (ROOTDEV, n) \<in> logged s' \<and> nlog s' \<le> nlog s + 1 \<and>
    vw s' = vw s \<and> log_frame s s' \<and> has_block s' b n d"
proof -
  note ok = in_opD(1)[OF op] and lg = in_opD(2)[OF op] and free = in_opD(3)[OF op]
  note L = log_okD[OF lg]
  let ?i = "absorb_index n (k_log s)"
  define s1 where "s1 = s\<lparr>k_log := (k_log s)\<lparr>lh_block := (lh_block (k_log s))[?i := n]\<rparr>\<rparr>"
  have bn: "b_blockno (bufs s b) = n" using hb arg_cong[of _ _ snd] by (auto simp: has_block_def blk_def)
  have upd: "upd_log (\<lambda>l. l\<lparr>lh_block := (lh_block l)[?i := n]\<rparr>) (lgheld c s) = Ret ((), lgheld c s1)" unfolding s1_def by (subst upd_lgheld) simp_all
  have run: "log_write c b s = thenK (whenK (int ?i = int (nlog s)) (thenK (bpin c b) (upd_log (\<lambda>l. l\<lparr>lh_n := lh_n l + 1\<rparr>)))) (release_log c) (lgheld c s1)"
    using L more out in_opD(5)[OF op] bn free
    by (simp add: log_write_def thenK_def bindK_def getK_def acquire_log_free bufK_def Let_def) (simp add: upd thenK_def)
  from absorb_index_cases[OF lg, of n] consider "?i = nlog s" "(ROOTDEV, n) \<notin> logged s" | "?i < nlog s" "lh_block (k_log s) ! ?i = n" "(ROOTDEV, n) \<in> logged s" by blast
  then show ?thesis
  proof cases
    case 1
    have "bio_ok c H (logged s) (lgheld c s1)" "has_block (lgheld c s1) b n d" using ok hb by (simp_all add: lgheld_def s1_def)
    from bpin_ok[OF this(1) b this(2) 1(2)] obtain s2 where s2: "bpin c b (lgheld c s1) = Ret ((), s2)" "bio_ok c H (insert (ROOTDEV, n) (logged s)) s2"
      "quiet (lgheld c s1) s2" "has_block s2 b n d" using hb by (auto simp: lgheld_def s1_def)
    note k2 = quietD(3)[OF s2(3)]
    define s3 where "s3 = s2\<lparr>k_log := (k_log s)\<lparr>lh_n := lh_n (k_log s) + 1, lh_block := (lh_block (k_log s))[nlog s := n]\<rparr>\<rparr>"
    have "s2\<lparr>k_log := (k_log s2)\<lparr>lh_n := lh_n (k_log s2) + 1\<rparr>\<rparr> = lgheld c s3" by (simp add: k2 s3_def lgheld_def s1_def 1)
    then have "log_write c b s = Ret ((), s3)" using s2(1) 1(1) free by (simp add: run thenK_def whenK_def upd_log_def modK_def) (simp add: release_lgheld s3_def)
    moreover have k3: "k_log s3 = (k_log s)\<lparr>lh_n := lh_n (k_log s) + 1, lh_block := (lh_block (k_log s))[nlog s := n]\<rparr>" by (simp add: s3_def)
    note add = log_ok_add[OF lg n 1(2) more k3]
    have "in_op c H s3" using s2(2) add(1,2) in_opD(3-5)[OF op] by (simp add: in_op_def k3) (simp add: s3_def)
    moreover have "vw s3 = vw s" using quietD(2)[OF s2(3)] by (simp add: s3_def lgheld_def s1_def)
    moreover have "log_frame s s3" using s2(3) by (simp add: log_frame_def k3) (simp add: s3_def quiet_def lgheld_def s1_def)
    ultimately show ?thesis using add s2(4) by (intro exI[of _ s3]) (auto simp: s3_def)
  next
    case 2
    have "(lh_block (k_log s))[?i := n] = lh_block (k_log s)" using list_update_id[of "lh_block (k_log s)" ?i] 2(2) by simp
    then have "s1 = s" by (simp add: s1_def)
    then have "log_write c b s = Ret ((), s)" using 2(1) free by (simp add: run thenK_def whenK_def retK_def release_lgheld)
    then show ?thesis using op 2(3) hb by (intro exI[of _ s]) (simp add: log_frame_def)
  qed
qed

section \<open>An operation of the file system\<close>

definition put_block :: "nat \<Rightarrow> nat \<times> u8 list \<Rightarrow> unit kop" where
  "put_block c u =
    bindK (bread c ROOTDEV (fst u)) (\<lambda>b. thenK (setbufK b (b_data_update (\<lambda>_. snd u))) (thenK (log_write c b) (brelse c b)))"

definition transaction :: "nat \<Rightarrow> (nat \<times> u8 list) list \<Rightarrow> unit kop" where
  "transaction c us = thenK (begin_op c) (thenK (forK us (put_block c)) (end_op c))"

text \<open>A block that operations may log: of the file system proper.\<close>

definition data_block :: "kernel \<Rightarrow> nat \<times> u8 list \<Rightarrow> bool" where
  "data_block s u \<longleftrightarrow> fst u < 2 ^ 32 \<and> fst u \<notin> log_area (lg_start (k_log s)) \<and> length (snd u) = BSIZE"

lemma log_frame_trans: "log_frame s s' \<Longrightarrow> log_frame s' s'' \<Longrightarrow> log_frame s s''"
  by (cases "k_log s"; cases "k_log s'"; cases "k_log s''") (simp add: log_frame_def)

lemma log_frameD:
  assumes "log_frame s s'"
  shows "lg_outstanding (k_log s') = lg_outstanding (k_log s)" "lg_start (k_log s') = lg_start (k_log s)" "k_disk s' = k_disk s" "k_trace s' = k_trace s"
    "data_block s' = data_block s"
proof -
  have k: "k_log s' = (k_log s)\<lparr>lh_n := lh_n (k_log s'), lh_block := lh_block (k_log s')\<rparr>" using assms by (simp add: log_frame_def)
  show "lg_outstanding (k_log s') = lg_outstanding (k_log s)" by (subst k) simp
  show st: "lg_start (k_log s') = lg_start (k_log s)" by (subst k) simp
  show "k_disk s' = k_disk s" "k_trace s' = k_trace s" using assms by (simp_all add: log_frame_def)
  show "data_block s' = data_block s" by (simp add: data_block_def st fun_eq_iff)
qed

lemma put_block_ok:
  assumes op: "in_op c {} s" and out: "1 \<le> lg_outstanding (k_log s)" and more: "nlog s + 1 < LOGSIZE" and u: "data_block s u"
  shows "\<exists>s'. put_block c u s = Ret ((), s') \<and> in_op c {} s' \<and> nlog s' \<le> nlog s + 1 \<and> vw s' = (vw s)(fst u := snd u) \<and> log_frame s s'"
proof -
  obtain n d where ud: "u = (n, d)" by (cases u)
  have n: "n < 2 ^ 32" "n \<notin> log_area (lg_start (k_log s))" "length d = BSIZE" using u by (simp_all add: data_block_def ud)
  note ok = in_opD(1)[OF op]
  have "card (logged s) < NBUF" using logged_facts(2)[of s] more by simp
  with bread_ok[OF ok _ logged_facts(1), of n] obtain b s1 where b: "bread c ROOTDEV n s = Ret (b, s1)" "bio_ok c {b} (logged s) s1"
    "has_block s1 b n (vw s n)" "quiet s s1" by auto
  define s2 where "s2 = upd_buf b (b_data_update (\<lambda>_. d)) s1"
  have blk: "blk (bufs s1 b) = (ROOTDEV, n)" using b(3) by (simp add: has_block_def)
  note sd = set_data_ok[OF b(2) _ n(3) blk, folded s2_def]
  have k2: "k_log s2 = k_log s" using quietD(3)[OF b(4)] by (simp add: s2_def)
  have "logged s2 = logged s" "nlog s2 = nlog s" "log_ok s2 = log_ok s" by (simp_all add: logged_def nlog_def log_ok_def k2)
  moreover from this have "in_op c {b} s2" using op sd(1) by (simp add: in_op_def k2)
  ultimately obtain s3 where s3: "log_write c b s2 = Ret ((), s3)" "in_op c {b} s3" "(ROOTDEV, n) \<in> logged s3" "nlog s3 \<le> nlog s + 1" "vw s3 = vw s2" "log_frame s2 s3" "has_block s3 b n d"
    using log_write_ok[of c "{b}" s2 b n d] sd(3) out more n(1,2) by (auto simp: k2)
  obtain s4 where s4: "brelse c b s3 = Ret ((), s4)" "bio_ok c {} (logged s3) s4" "quiet s3 s4"
    using brelse_clean[OF in_opD(1)[OF s3(2)] _ s3(7)] s3(3) by auto
  have k4: "k_log s4 = k_log s3" using quietD(3)[OF s4(3)] .
  have "logged s4 = logged s3" "nlog s4 = nlog s3" "log_ok s4 = log_ok s3" by (simp_all add: logged_def nlog_def log_ok_def k4)
  moreover from this have "in_op c {} s4" using s3(2) s4(2) by (simp add: in_op_def k4)
  moreover have "put_block c u s = Ret ((), s4)" using b(1) s3(1) s4(1) by (simp add: put_block_def ud bindK_def thenK_def setbufK_def modK_def s2_def)
  moreover have "vw s4 = (vw s)(n := d)" using quietD(2)[OF s4(3)] s3(5) sd(2) quietD(2)[OF b(4)] by (auto simp: fun_eq_iff)
  moreover have "log_frame s s4"
    using s3(6) b(4) s4(3) by (simp add: log_frame_def k4 k2 quiet_def) (simp add: s2_def)
  ultimately show ?thesis using s3(4) by (intro exI[of _ s4]) (simp add: ud)
qed

lemma put_blocks_ok:
  assumes "in_op c {} s" "1 \<le> lg_outstanding (k_log s)" "nlog s + length us < LOGSIZE" "\<forall>u\<in>set us. data_block s u"
  shows "\<exists>s'. forK us (put_block c) s = Ret ((), s') \<and> in_op c {} s' \<and> nlog s' \<le> nlog s + length us \<and> vw s' = writes us (vw s) \<and> log_frame s s'"
  using assms
proof (induction us arbitrary: s)
  case Nil
  then show ?case by (auto simp: retK_def log_frame_def)
next
  case (Cons u us)
  obtain s1 where s1: "put_block c u s = Ret ((), s1)" "in_op c {} s1" "nlog s1 \<le> nlog s + 1" "vw s1 = (vw s)(fst u := snd u)" "log_frame s s1"
    using put_block_ok[OF Cons.prems(1,2), of u] Cons.prems(3,4) by auto
  note fr = log_frameD[OF s1(5)]
  obtain s2 where s2: "forK us (put_block c) s1 = Ret ((), s2)" "in_op c {} s2" "nlog s2 \<le> nlog s1 + length us" "vw s2 = writes us (vw s1)" "log_frame s1 s2"
    using Cons.IH[OF s1(2)] s1(3) Cons.prems fr by auto
  have "writes us (vw s1) = writes (u # us) (vw s)" by (cases u) (simp only: s1(4) writes_simps fst_conv snd_conv)
  then show ?case using s1(1,3) s2 log_frame_trans[OF s1(5) s2(5)] by (intro exI[of _ s2]) (auto simp: thenK_def)
qed

text \<open>A file system at rest: no operation is running, nothing is pinned, and the log on the disk is empty.\<close>

definition at_rest :: "nat \<Rightarrow> kernel \<Rightarrow> bool" where
  "at_rest c s \<longleftrightarrow> in_op c {} s \<and> lh_n (k_log s) = 0 \<and> lg_outstanding (k_log s) = 0 \<and> hdr_n (k_disk s (lg_start (k_log s))) = 0"

lemma writes_same_value: "(\<And>d. (m, d) \<in> set ws \<Longrightarrow> d = D m) \<Longrightarrow> writes ws D m = D m"
proof (induction ws arbitrary: D)
  case (Cons w ws)
  obtain n d where w: "w = (n, d)" by (cases w)
  have same: "(D(n := d)) m = D m" using Cons.prems[of d] by (auto simp: w)
  then have "writes ws (D(n := d)) m = (D(n := d)) m" using Cons.prems by (intro Cons.IH) (auto simp: w)
  then show ?case using same by (simp add: w)
qed simp

lemma commit_files:
  assumes lg: "log_ok s" and m: "m \<notin> log_area (lg_start (k_log s))"
  shows "writes (commit_writes s) (vw s) m = vw s m"
proof (rule writes_same_value)
  fix d assume "(m, d) \<in> set (commit_writes s)"
  then show "d = vw s m" using m log_okD(3)[OF lg] by (auto simp: commit_writes_def Let_def log_area_def)
qed

lemma commit_header: "bio_ok c H Q s \<Longrightarrow> log_ok s \<Longrightarrow> hdr_n (writes (commit_writes s) D (lg_start (k_log s))) = 0"
proof -
  assume ok: "bio_ok c H Q s" and lg: "log_ok s"
  let ?h = "hdr (nlog s) (lh_block (k_log s)) (vw s (lg_start (k_log s)))"
  have "length ?h = BSIZE" using hdr_read[OF view_len[OF ok], of "nlog s"] log_okD(3)[OF lg] by auto
  then have "hdr_n (hdr 0 (lh_block (k_log s)) ?h) = 0" using hdr_read[of ?h 0] by (simp add: hdr_n_def)
  then show ?thesis by (simp add: commit_writes_def Let_def)
qed

definition end_writes :: "kernel \<Rightarrow> (nat \<times> u8 list) list" where
  "end_writes s = (if nlog s = 0 then [] else commit_writes s)"

lemma commit_any:
  assumes ok: "bio_ok c {} (logged s) s" and lg: "log_ok s" and st: "st = lg_start (k_log s)" and clean: "hdr_n (k_disk s st) = 0"
  shows "\<exists>s'. commit c s = Ret ((), s') \<and> bio_ok c {} {} s' \<and> k_disk s' = writes (end_writes s) (k_disk s) \<and> k_trace s' = k_trace s @ end_writes s \<and>
    k_log s' = (k_log s)\<lparr>lh_n := 0\<rparr> \<and> same_files st (k_disk s') (vw s) \<and> hdr_n (k_disk s' st) = 0"
proof (cases "nlog s = 0")
  case True
  have l: "logged s = {}" "lh_n (k_log s) = 0" using True log_okD(2)[OF lg] by (simp_all add: logged_def)
  have "vw s m = k_disk s m" for m using view_clean[OF ok, of "(ROOTDEV, m)"] by (simp add: l)
  moreover have "commit c s = Ret ((), s)" by (simp add: commit_def bindK_def getK_def whenK_def retK_def l)
  moreover have "k_log s = (k_log s)\<lparr>lh_n := 0\<rparr>" using l(2) by (cases "k_log s") simp
  ultimately show ?thesis using ok clean True l by (intro exI[of _ s]) (simp add: end_writes_def same_files_def)
next
  case False
  from commit_ok[OF ok lg] False obtain s' where s': "commit c s = Ret ((), s')" "bio_ok c {} {} s'" "k_disk s' = writes (commit_writes s) (k_disk s)"
    "k_trace s' = k_trace s @ commit_writes s" "vw s' = writes (commit_writes s) (vw s)" "k_log s' = (k_log s)\<lparr>lh_n := 0\<rparr>" by auto
  have "k_disk s' m = writes (commit_writes s) (vw s) m" for m
    using view_clean[OF s'(2), of "(ROOTDEV, m)"] fun_cong[OF s'(5), of m] by simp
  then have "same_files st (k_disk s') (vw s)" using commit_files[OF lg] by (simp add: same_files_def st)
  then show ?thesis using s' False commit_header[OF ok lg] by (simp add: end_writes_def st)
qed

lemma end_op_ok:
  assumes op: "in_op c {} s" and last: "lg_outstanding (k_log s) = 1" and st: "st = lg_start (k_log s)" and clean: "hdr_n (k_disk s st) = 0"
  shows "\<exists>s'. end_op c s = Ret ((), s') \<and> at_rest c s' \<and> k_disk s' = writes (end_writes s) (k_disk s) \<and> k_trace s' = k_trace s @ end_writes s \<and>
    lg_start (k_log s') = st \<and> same_files st (k_disk s') (vw s)"
proof -
  note free = in_opD(3)[OF op]
  define s1 where "s1 = s\<lparr>k_log := (k_log s)\<lparr>lg_outstanding := 0, lg_committing := True\<rparr>\<rparr>"
  let ?s0 = "s\<lparr>k_log := (k_log s)\<lparr>lg_outstanding := 0\<rparr>\<rparr>"
  have u0: "upd_log (\<lambda>l. l\<lparr>lg_outstanding := lg_outstanding l - 1\<rparr>) (lgheld c s) = Ret ((), lgheld c ?s0)"
    using last by (subst upd_lgheld) simp_all
  have u1: "upd_log (lg_committing_update (\<lambda>_. True)) (lgheld c ?s0) = Ret ((), lgheld c s1)"
    unfolding s1_def by (subst upd_lgheld) simp_all
  have same: "logged s1 = logged s" "nlog s1 = nlog s" "end_writes s1 = end_writes s" "log_ok s1 = log_ok s"
    by (simp_all add: logged_def nlog_def end_writes_def commit_writes_def log_ok_def s1_def Let_def)
  have "bio_ok c {} (logged s1) s1" using in_opD(1)[OF op] unfolding same by (simp add: s1_def)
  moreover have "log_ok s1" "st = lg_start (k_log s1)" "hdr_n (k_disk s1 st) = 0" using in_opD(2)[OF op] st clean unfolding same by (simp_all add: s1_def)
  ultimately have "\<exists>s'. commit c s1 = Ret ((), s') \<and> bio_ok c {} {} s' \<and> k_disk s' = writes (end_writes s) (k_disk s) \<and> k_trace s' = k_trace s @ end_writes s \<and>
    k_log s' = (k_log s1)\<lparr>lh_n := 0\<rparr> \<and> same_files st (k_disk s') (vw s) \<and> hdr_n (k_disk s' st) = 0"
    using commit_any[of c s1 st] unfolding same by (simp add: s1_def)
  then obtain s2 where s2: "commit c s1 = Ret ((), s2)" "bio_ok c {} {} s2" "k_disk s2 = writes (end_writes s) (k_disk s)"
    "k_trace s2 = k_trace s @ end_writes s" "k_log s2 = (k_log s1)\<lparr>lh_n := 0\<rparr>" "same_files st (k_disk s2) (vw s)" "hdr_n (k_disk s2 st) = 0" by blast
  define s3 where "s3 = s2\<lparr>k_log := (k_log s2)\<lparr>lg_committing := False\<rparr>\<rparr>"
  have u2: "upd_log (lg_committing_update (\<lambda>_. False)) (lgheld c s2) = Ret ((), lgheld c s3)"
    unfolding s3_def by (subst upd_lgheld) simp_all
  have ok3: "bio_ok c {} {} s3" using s2(2) by (simp add: s3_def)
  have "running c (lgheld c s3)" using bio_okD(1)[OF ok3] by (simp add: running_def lgheld_def)
  from wakeup_running[OF this, of ChanLog] obtain t where t: "wakeupK c ChanLog (lgheld c s3) = Ret ((), (lgheld c s3)\<lparr>k_pt := t\<rparr>)" "pt_sim (k_pt s3) t"
    by (auto simp: lgheld_def)
  define s4 where "s4 = s3\<lparr>k_pt := t\<rparr>"
  have h4: "(lgheld c s3)\<lparr>k_pt := t\<rparr> = lgheld c s4" by (simp add: s4_def lgheld_def)
  have k4: "k_log s4 = (k_log s)\<lparr>lg_outstanding := 0, lg_committing := False, lh_n := 0\<rparr>" by (simp add: s4_def s3_def s2(5) s1_def)
  have f2: "lk_free (lg_lock (k_log s1))" "lk_free (lg_lock (k_log s2))" "lk_free (lg_lock (k_log s4))" using free by (simp_all add: s2(5) s1_def k4)
  have "end_op c s = Ret ((), s4)"
    using in_opD(4)[OF op] free f2
    by (simp add: end_op_def thenK_def bindK_def getK_def acquire_log_free u0 u1 release_lgheld s2(1) u2 t(1) h4)
  moreover have "at_rest c s4"
    using bio_ok_pt[OF ok3 t(2)] in_opD(2,3,5)[OF op] s2(7)
    by (simp add: at_rest_def in_op_def s4_def[symmetric] log_ok_def logged_def nlog_def k4 Let_def) (simp add: s4_def s3_def st)
  moreover have "k_disk s4 = k_disk s2" "k_trace s4 = k_trace s2" by (simp_all add: s4_def s3_def)
  ultimately show ?thesis using s2 by (intro exI[of _ s4]) (simp add: k4 st)
qed

text \<open>An operation of at most \<open>MAXOPBLOCKS\<close> updates: it returns, its updates are on the disk, and at every moment in between the disk is recovered to the files
  without any of its updates or with all of them.\<close>

lemma transaction_states:
  assumes rest: "at_rest c s" and us: "length us \<le> MAXOPBLOCKS" "\<forall>u\<in>set us. data_block s u" and st: "st = lg_start (k_log s)"
  shows "\<exists>s' ws. transaction c us s = Ret ((), s') \<and> at_rest c s' \<and> lg_start (k_log s') = st \<and> k_disk s' = writes ws (k_disk s) \<and> k_trace s' = k_trace s @ ws \<and>
    same_files st (k_disk s') (writes us (k_disk s)) \<and>
    (\<forall>ps. prefix ps ws \<longrightarrow> log_readable st (writes ps (k_disk s)) \<and>
      (same_files st (recovered st (writes ps (k_disk s))) (k_disk s) \<or> same_files st (recovered st (writes ps (k_disk s))) (writes us (k_disk s))))"
proof -
  have op: "in_op c {} s" and z: "lh_n (k_log s) = 0" "lg_outstanding (k_log s) = 0" "hdr_n (k_disk s st) = 0" using rest by (simp_all add: at_rest_def st)
  have n0: "nlog s = 0" "logged s = {}" using z by (simp_all add: nlog_def logged_def)
  have v0: "vw s = k_disk s" using view_clean[OF in_opD(1)[OF op]] by (auto simp: n0 fun_eq_iff)
  define s1 where "s1 = s\<lparr>k_log := (k_log s)\<lparr>lg_outstanding := 1\<rparr>\<rparr>"
  have b: "begin_op c s = Ret ((), s1)" using begin_op_ok[OF op] by (simp add: z n0 s1_def)
  have n1: "nlog s1 = 0" "logged s1 = {}" "log_ok s1 = log_ok s" by (simp_all add: n0[unfolded nlog_def logged_def] nlog_def logged_def log_ok_def s1_def z Let_def)
  have "in_op c {} s1" using op by (simp add: in_op_def n0 n1) (simp add: s1_def)
  moreover have "\<forall>u\<in>set us. data_block s1 u" using us(2) by (simp add: data_block_def s1_def)
  ultimately obtain s2 where s2: "forK us (put_block c) s1 = Ret ((), s2)" "in_op c {} s2" "vw s2 = writes us (vw s1)" "log_frame s1 s2"
    using put_blocks_ok[of c s1 us] us(1) by (auto simp: n1) (auto simp: s1_def)
  note fr = log_frameD[OF s2(4)]
  have d2: "k_disk s2 = k_disk s" "k_trace s2 = k_trace s" "lg_start (k_log s2) = st" "lg_outstanding (k_log s2) = 1" by (simp_all add: fr s1_def st)
  have v2: "vw s2 = writes us (k_disk s)" using s2(3) v0 by (simp only: s1_def view_log)
  have clean: "hdr_n (k_disk s2 st) = 0" using z(3) d2(1) by simp
  from end_op_ok[OF s2(2) d2(4) d2(3)[symmetric] clean] obtain s3 where s3: "end_op c s2 = Ret ((), s3)" "at_rest c s3" "k_disk s3 = writes (end_writes s2) (k_disk s)"
    "k_trace s3 = k_trace s @ end_writes s2" "lg_start (k_log s3) = st" "same_files st (k_disk s3) (vw s2)" unfolding d2 by blast
  have pre: "log_readable st (writes ps (k_disk s)) \<and>
      (same_files st (recovered st (writes ps (k_disk s))) (k_disk s) \<or> same_files st (recovered st (writes ps (k_disk s))) (writes us (k_disk s)))"
    if "prefix ps (end_writes s2)" for ps
  proof (cases "nlog s2 = 0")
    case True
    then show ?thesis using that recovered_empty[of "k_disk s" st] z(3) by (simp add: end_writes_def same_files_def)
  next
    case False
    then have "prefix ps (commit_writes s2)" using that by (simp add: end_writes_def)
    from commit_states[OF in_opD(1,2)[OF s2(2)] d2(3)[symmetric] clean this] show ?thesis unfolding d2(1) v2 .
  qed
  have "transaction c us s = Ret ((), s3)" using b s2(1) s3(1) by (simp add: transaction_def thenK_def)
  then show ?thesis using s3 pre unfolding v2 by blast
qed

end
