(* ===== verification/Kernel_Example.thy ===== *)
theory Kernel_Example
  imports Log_Txn
begin

text \<open>
  The globals of the kernel as the loader leaves them (\<open>zero_kernel\<close>), and a kernel with one running process, an initialised
  buffer cache, an empty log and a disk of zeros (\<open>small_kernel\<close>), on which the statements about the file system are instantiated.
\<close>

definition zero_lock :: spinlock where
  "zero_lock = \<lparr>lk_locked = 0, lk_name = '''', lk_cpu = None\<rparr>"

definition zero_sleeplock :: sleeplock where
  "zero_sleeplock = \<lparr>sl_locked = False, sl_lk = zero_lock, sl_name = '''', sl_pid = 0\<rparr>"

definition zero_buf :: buf where
  "zero_buf = \<lparr>b_valid = False, b_disk = False, b_dev = 0, b_blockno = 0, b_lock = zero_sleeplock, b_refcnt = 0, b_prev = 0, b_next = 0,
     b_data = replicate BSIZE 0\<rparr>"

definition zero_buddy :: buddy where
  "zero_buddy = \<lparr>nodes_mem = (\<lambda>_. \<lparr>leftChild = None, rightChild = None, head = None, depth = 0, start_ptr = 0, maxFreePage = 0, cnt_page = 0, is_used = 0\<rparr>),
     free_root = 0, blocks = (\<lambda>_. \<lparr>bm_lock = zero_lock, bm_root = None, bm_info = \<lparr>bi_total = 0, bi_free = 0, free_by_size = replicate 10 0\<rparr>\<rparr>),
     mem_separator = 0, end_ptr = 0x80030000\<rparr>"

definition zero_inode :: inode where
  "zero_inode = \<lparr>i_dev = 0, i_inum = 0, i_ref = 0, i_lock = zero_sleeplock, i_valid = False, i_type = 0, i_major = 0, i_minor = 0, i_nlink = 0,
     i_size = 0, i_addrs = replicate (NDIRECT + 1) 0\<rparr>"

definition zero_file :: kfile where
  "zero_file = \<lparr>f_type = FD_NONE, f_ref = 0, f_readable = False, f_writable = False, f_pipe = 0, f_ip = None, f_off = 0, f_major = 0\<rparr>"

definition zero_hart :: hart where
  "zero_hart = \<lparr>h_mhartid = 0, h_tp = 0, h_mstatus = 0, h_mepc = 0, h_medeleg = 0, h_mideleg = 0, h_mie = 0, h_mscratch = 0, h_mtvec = 0,
     h_pmpaddr0 = 0, h_pmpcfg0 = 0, h_satp = 0, h_sstatus = 0, h_sie = 0, h_sip = 0, h_sepc = 0, h_stvec = 0, h_scause = 0, h_stval = 0\<rparr>"

definition zero_vdisk :: vdisk where
  "zero_vdisk = \<lparr>vd_desc_page = 0, vd_avail_page = 0, vd_used_page = 0, vd_desc = (\<lambda>_. \<lparr>d_addr = DNull, d_len = 0, d_flags = 0, d_next = 0\<rparr>),
     va_idx = 0, va_ring = (\<lambda>_. 0), vu_idx = 0, vu_ring = (\<lambda>_. 0), vd_free = (\<lambda>_. False), vd_used_idx = 0, vd_info_b = (\<lambda>_. None),
     vd_info_status = (\<lambda>_. 0), vd_ops = (\<lambda>_. \<lparr>rq_type = 0, rq_sector = 0\<rparr>), vdisk_lock = zero_lock\<rparr>"

definition zero_log :: klog where
  "zero_log = \<lparr>lg_lock = zero_lock, lg_start = 0, lg_size = 0, lg_outstanding = 0, lg_committing = False, lg_dev = 0, lh_n = 0, lh_block = replicate LOGSIZE 0\<rparr>"

definition zero_kernel :: kernel where
  "zero_kernel = \<lparr>k_vm = \<lparr>vm_mem = (\<lambda>_. 0), vm_alloc = zero_buddy\<rparr>, k_pt = zero_ptable, k_hart = (\<lambda>_. zero_hart),
     k_plat = \<lparr>plic_reg = (\<lambda>_. 0), plic_claims = (\<lambda>_. []), clint_mtime = 0, clint_mtimecmp = (\<lambda>_. 0), vio_writes = [], vio_answer = (\<lambda>_ _. 0)\<rparr>,
     k_scratch = (\<lambda>_. replicate 5 0), k_started = False, k_vd = zero_vdisk, k_ticks = 0, k_tickslock = zero_lock,
     k_bc = \<lparr>bc_lock = zero_lock, bc_buf = (\<lambda>_. zero_buf)\<rparr>, k_disk = (\<lambda>_. replicate BSIZE 0), k_trace = [], k_log = zero_log,
     k_sb = \<lparr>sb_magic = 0, sb_size = 0, sb_nblocks = 0, sb_ninodes = 0, sb_nlog = 0, sb_logstart = 0, sb_inodestart = 0, sb_bmapstart = 0\<rparr>,
     k_it = \<lparr>it_lock = zero_lock, it_inode = (\<lambda>_. zero_inode)\<rparr>, k_ft = \<lparr>ft_lock = zero_lock, ft_file = (\<lambda>_. zero_file)\<rparr>,
     k_pipe = (\<lambda>_. \<lparr>pi_lock = zero_lock, pi_data = replicate PIPESIZE 0, pi_nread = 0, pi_nwrite = 0, pi_readopen = False, pi_writeopen = False\<rparr>),
     k_cons = \<lparr>cons_lock = zero_lock, cons_buf = replicate 128 0, cons_r = 0, cons_w = 0, cons_e = 0\<rparr>,
     k_uart = \<lparr>uart_tx_lock = zero_lock, uart_tx_buf = replicate 32 0, uart_tx_w = 0, uart_tx_r = 0, uart_out = [], uart_in = [],
       uart_idle = (\<lambda>_. True), uart_polls = 0, uart_regs = []\<rparr>,
     k_devsw = (\<lambda>_. None), k_prlock = zero_lock, k_prlocking = False, k_panicked = False, k_first = True, k_kpgtbl = 0,
     k_links = \<lparr>a_etext = 0x80008000, a_trampoline = 0x80007000, a_forkret = 0x80001000, a_uservec = 0x80007000, a_userret = 0x8000709c,
       a_kernelvec = 0x80005000, a_usertrap = 0x80002000, a_main = 0x80000e00, a_timervec = 0x80005100, a_timer_scratch = 0x80009000, a0_leftover = 0\<rparr>\<rparr>"

text \<open>One process, number 0 with pid 1, runs on CPU 0; the log starts at block 2.\<close>

definition small_ptable :: ptable where
  "small_ptable = zero_ptable\<lparr>procs := (procs zero_ptable)(0 := zero_proc\<lparr>p_pid := 1, p_state := RUNNING\<rparr>), cpu_proc := (\<lambda>_. None)(0 := Some 0)\<rparr>"

definition small_kernel :: kernel where
  "small_kernel = zero_kernel\<lparr>k_pt := small_ptable, k_bc := binit (k_bc zero_kernel),
     k_log := zero_log\<lparr>lg_start := 2, lg_size := LOGSIZE, lg_dev := ROOTDEV\<rparr>\<rparr>"

section \<open>The small kernel\<close>

lemma zero_lock_free [simp]: "lk_free zero_lock" "lk_free (initlock nm)"
  by (simp_all add: zero_lock_def lk_free_def initlock_def)

lemma small_running: "running 0 small_kernel" "mypid 0 small_kernel = 1"
  by (simp_all add: running_def mypid_def small_kernel_def small_ptable_def locks_free_def myproc_def zero_ptable_def zero_proc_def lk_free_def)

definition blank_buf :: "buf \<Rightarrow> bool" where
  "blank_buf x \<longleftrightarrow> \<not> b_valid x \<and> b_dev x = 0 \<and> b_refcnt x = 0 \<and> lk_free (sl_lk (b_lock x)) \<and> \<not> sl_locked (b_lock x)"

lemma link_front_blank: "\<forall>i. blank_buf (B i) \<Longrightarrow> blank_buf (link_front b B i)"
  by (simp add: link_front_def Let_def blank_buf_def)

lemma relock_blank: "\<forall>i. blank_buf (B i) \<Longrightarrow> \<forall>i. blank_buf ((B(n := (B n)\<lparr>b_lock := initsleeplock nm\<rparr>)) i)"
  by (simp add: blank_buf_def initsleeplock_def)

lemma binit_blank: "\<forall>i. blank_buf (bc_buf bc i) \<Longrightarrow> blank_buf (bc_buf (binit bc) i)"
proof -
  assume b: "\<forall>i. blank_buf (bc_buf bc i)"
  have "\<forall>i. blank_buf (fold (\<lambda>b B. link_front b (B(b := (B b)\<lparr>b_lock := initsleeplock ''buffer''\<rparr>))) [0..<n] B i)"
    if "\<forall>i. blank_buf (B i)" for n B
    using that
  proof (induction n)
    case (Suc n)
    show ?case using link_front_blank[OF relock_blank[OF Suc.IH[OF Suc.prems]]] by simp
  qed simp
  from this[of "(bc_buf bc)(NBUF := (bc_buf bc NBUF)\<lparr>b_prev := NBUF, b_next := NBUF\<rparr>)" NBUF]
  show ?thesis using b unfolding binit_def Let_def by (simp add: blank_buf_def del: upt_rec_numeral)
qed

lemma small_blank: "blank_buf (bufs small_kernel i)"
  unfolding small_kernel_def by (simp, rule binit_blank) (simp add: zero_kernel_def zero_buf_def zero_sleeplock_def blank_buf_def)

text \<open>The cache as \<open>binit\<close> leaves it holds no block.\<close>

lemma blank_bio_ok:
  assumes "running c s" "lk_free (bc_lock (k_bc s))" "ring L (bufs s)" "\<And>n. length (k_disk s n) = BSIZE" "\<And>i. blank_buf (bufs s i)"
  shows "bio_ok c {} {} s"
  using assms unfolding bio_ok_def blank_buf_def buf_ok_def by auto

lemma small_bio_ok: "bio_ok 0 {} {} small_kernel"
proof (rule blank_bio_ok)
  show "ring (rev [0..<NBUF]) (bufs small_kernel)" 
  proof -
    have "bufs small_kernel = bc_buf (binit (k_bc zero_kernel))" by (simp add: small_kernel_def)
    then show ?thesis by (simp only: binit_ring)
  qed
  show "lk_free (bc_lock (k_bc small_kernel))" by (simp add: small_kernel_def binit_def Let_def del: upt_rec_numeral)
  show "\<And>n. length (k_disk small_kernel n) = BSIZE" by (simp add: small_kernel_def zero_kernel_def)
qed (rule small_running small_blank)+

lemma zeros_empty_log: "hdr_n (replicate BSIZE 0) = 0"
  by (simp add: hdr_n_def get_le_def le_nat_def numeral_eq_Suc)

lemma small_at_rest: "at_rest 0 small_kernel"
proof -
  have k: "k_log small_kernel = zero_log\<lparr>lg_start := 2, lg_size := LOGSIZE, lg_dev := ROOTDEV\<rparr>" "k_disk small_kernel = (\<lambda>_. replicate BSIZE 0)"
    by (simp_all add: small_kernel_def zero_kernel_def)
  have "logged small_kernel = {}" by (simp add: logged_def nlog_def k zero_log_def)
  then show ?thesis using small_bio_ok zeros_empty_log
    by (simp add: at_rest_def in_op_def log_ok_def nlog_def k zero_log_def Let_def)
qed

end
