(* ===== verification/Log_Props.thy ===== *)
theory Log_Props
  imports Kernel_Example
begin

text \<open>
  The properties of the buffer cache and the log: operations are atomic whenever the machine stops, recovery may be interrupted
  any number of times, the cache shows every reader the last write, and what \<open>begin_op\<close> admits.
\<close>

text \<open>A kernel that has just booted from a disk: its cache is empty, and its log has not been read.\<close>

definition rebooted :: "nat \<Rightarrow> (nat \<Rightarrow> u8 list) \<Rightarrow> kernel \<Rightarrow> bool" where
  "rebooted c D r \<longleftrightarrow> bio_ok c {} {} r \<and> length (lh_block (k_log r)) = LOGSIZE \<and> k_disk r = D"

lemma recovery_files:
  assumes "rebooted c D r" "sb_logstart sb = st" "log_readable st D"
  shows "\<exists>r'. initlog c ROOTDEV sb r = Ret ((), r') \<and> bio_ok c {} {} r' \<and> same_files st (k_disk r') (recovered st D) \<and> hdr_n (k_disk r' st) = 0 \<and> lh_n (k_log r') = 0"
proof -
  obtain r' z where r': "initlog c ROOTDEV sb r = Ret ((), r')" "bio_ok c {} {} r'" "hdr_n z = 0" "k_disk r' = writes (recovery_writes st D z) D" "lh_n (k_log r') = 0"
    using initlog_ok[of c r sb] assms by (auto simp: rebooted_def)
  have e: "k_disk r' = (recovered st D)(st := z)" unfolding r'(4) recovery_writes_def recovered_def by simp
  have "st \<in> log_area st" by (simp add: log_area_def)
  then have "same_files st (k_disk r') (recovered st D)" unfolding e by (auto simp: same_files_def)
  moreover have "hdr_n (k_disk r' st) = 0" using r'(3) unfolding e by simp
  ultimately show ?thesis using r' by blast
qed

text \<open>C2: An operation of the file system is atomic. From a file system at rest, \<open>begin_op\<close>, up to \<open>MAXOPBLOCKS\<close> logged block updates and \<open>end_op\<close>
  return, and the disk then holds all the updates. If the machine stops after any number of the block writes this takes, a kernel that boots from the disk
  finishes \<open>initlog\<close>, and the files it then has are those before the operation or those after it; its log is empty.\<close>

theorem operation_crash_atomic:
  assumes "at_rest c s" "length us \<le> MAXOPBLOCKS" "\<forall>u\<in>set us. data_block s u"
  shows "\<exists>s' ws. transaction c us s = Ret ((), s') \<and> at_rest c s' \<and> k_trace s' = k_trace s @ ws \<and> k_disk s' = writes ws (k_disk s) \<and>
    same_files (lg_start (k_log s)) (k_disk s') (writes us (k_disk s)) \<and>
    (\<forall>ps c' r sb. prefix ps ws \<and> rebooted c' (writes ps (k_disk s)) r \<and> sb_logstart sb = lg_start (k_log s) \<longrightarrow>
      (\<exists>r'. initlog c' ROOTDEV sb r = Ret ((), r') \<and> hdr_n (k_disk r' (lg_start (k_log s))) = 0 \<and>
        (same_files (lg_start (k_log s)) (k_disk r') (k_disk s) \<or> same_files (lg_start (k_log s)) (k_disk r') (writes us (k_disk s)))))"
proof -
  let ?st = "lg_start (k_log s)"
  from transaction_states[OF assms refl] obtain s' ws where t: "transaction c us s = Ret ((), s')" "at_rest c s'" "k_disk s' = writes ws (k_disk s)"
    "k_trace s' = k_trace s @ ws" "same_files ?st (k_disk s') (writes us (k_disk s))"
    and p: "\<And>ps. prefix ps ws \<Longrightarrow> log_readable ?st (writes ps (k_disk s)) \<and>
      (same_files ?st (recovered ?st (writes ps (k_disk s))) (k_disk s) \<or> same_files ?st (recovered ?st (writes ps (k_disk s))) (writes us (k_disk s)))"
    by blast
  have "\<exists>r'. initlog c' ROOTDEV sb r = Ret ((), r') \<and> hdr_n (k_disk r' ?st) = 0 \<and>
      (same_files ?st (k_disk r') (k_disk s) \<or> same_files ?st (k_disk r') (writes us (k_disk s)))"
    if "prefix ps ws" "rebooted c' (writes ps (k_disk s)) r" "sb_logstart sb = ?st" for ps c' r sb
  proof -
    from recovery_files[OF that(2,3) conjunct1[OF p[OF that(1)]]] obtain r' where r': "initlog c' ROOTDEV sb r = Ret ((), r')"
      "same_files ?st (k_disk r') (recovered ?st (writes ps (k_disk s)))" "hdr_n (k_disk r' ?st) = 0" by blast
    then show ?thesis using conjunct2[OF p[OF that(1)]] by (intro exI[of _ r']) (auto simp: same_files_def)
  qed
  then show ?thesis using t by (intro exI[of _ s'] exI[of _ ws]) blast
qed

lemma small_data_block: "n \<in> {40..<2 ^ 32} \<Longrightarrow> data_block small_kernel (n, replicate BSIZE v)"
  by (auto simp: data_block_def small_kernel_def log_area_def)

lemma small_rebooted: "rebooted 0 (k_disk small_kernel) small_kernel" "lg_start (k_log small_kernel) = 2"
  using small_bio_ok by (simp_all add: rebooted_def small_kernel_def zero_kernel_def zero_log_def)

definition small_sb :: superblock where
  "small_sb = (k_sb small_kernel)\<lparr>sb_logstart := 2, sb_nlog := LOGSIZE\<rparr>"

theorem operation_crash_atomic_witness:
  "(\<exists>s'. transaction 0 [(40, replicate BSIZE 1), (41, replicate BSIZE 2)] small_kernel = Ret ((), s') \<and> k_disk s' 40 = replicate BSIZE 1 \<and> k_disk s' 41 = replicate BSIZE 2) \<and>
    (\<exists>r'. initlog 0 ROOTDEV small_sb small_kernel = Ret ((), r'))"
proof -
  let ?us = "[(40, replicate BSIZE 1), (41, replicate BSIZE 2)]"
  obtain s' ws where s': "transaction 0 ?us small_kernel = Ret ((), s')" "same_files (lg_start (k_log small_kernel)) (k_disk s') (writes ?us (k_disk small_kernel))"
    and r: "\<And>ps c' r sb. prefix ps ws \<and> rebooted c' (writes ps (k_disk small_kernel)) r \<and> sb_logstart sb = lg_start (k_log small_kernel) \<Longrightarrow>
      \<exists>r'. initlog c' ROOTDEV sb r = Ret ((), r')"
    using operation_crash_atomic[OF small_at_rest, of ?us] small_data_block by simp blast
  have "(40 :: nat) \<notin> log_area (lg_start (k_log small_kernel))" "(41 :: nat) \<notin> log_area (lg_start (k_log small_kernel))"
    by (simp_all add: small_kernel_def log_area_def)
  then show ?thesis using s' r[of "[]" 0 small_kernel small_sb] small_rebooted by (auto simp: same_files_def small_sb_def)
qed

text \<open>C10: Recovery itself may be interrupted any number of times: if the machine stops after any number of the block writes of \<open>initlog\<close>, booting again from
  the disk and finishing \<open>initlog\<close> gives the files that the first run would have given, with an empty log.\<close>

theorem recovery_crash_safe:
  assumes "rebooted c D r" "log_readable (sb_logstart sb) D"
  shows "\<exists>r' ws. initlog c ROOTDEV sb r = Ret ((), r') \<and> k_trace r' = k_trace r @ ws \<and> k_disk r' = writes ws D \<and> hdr_n (k_disk r' (sb_logstart sb)) = 0 \<and>
    (\<forall>ps c2 r2. prefix ps ws \<and> rebooted c2 (writes ps D) r2 \<longrightarrow>
      (\<exists>r3. initlog c2 ROOTDEV sb r2 = Ret ((), r3) \<and> same_files (sb_logstart sb) (k_disk r3) (k_disk r') \<and> hdr_n (k_disk r3 (sb_logstart sb)) = 0))"
proof -
  let ?st = "sb_logstart sb"
  have "k_disk r = D" using assms(1) by (simp add: rebooted_def)
  then obtain r' z where r': "initlog c ROOTDEV sb r = Ret ((), r')" "hdr_n z = 0" "k_disk r' = writes (recovery_writes ?st D z) D"
    "k_trace r' = k_trace r @ recovery_writes ?st D z"
    using initlog_ok[of c r sb] assms by (auto simp: rebooted_def)
  from recovery_files[OF assms(1) refl assms(2)] r'(1) have end_files: "same_files ?st (k_disk r') (recovered ?st D)" "hdr_n (k_disk r' ?st) = 0" by auto
  have "\<exists>r3. initlog c2 ROOTDEV sb r2 = Ret ((), r3) \<and> same_files ?st (k_disk r3) (k_disk r') \<and> hdr_n (k_disk r3 ?st) = 0"
    if "prefix ps (recovery_writes ?st D z)" "rebooted c2 (writes ps D) r2" for ps c2 r2
  proof -
    note rs = recovery_states[OF assms(2) r'(2) that(1)]
    from recovery_files[OF that(2) refl conjunct1[OF rs]] obtain r3 where "initlog c2 ROOTDEV sb r2 = Ret ((), r3)"
      "same_files ?st (k_disk r3) (recovered ?st (writes ps D))" "hdr_n (k_disk r3 ?st) = 0" by blast
    then show ?thesis using conjunct2[OF rs] end_files(1) by (intro exI[of _ r3]) (simp add: same_files_def)
  qed
  then show ?thesis using r' end_files(2) by (intro exI[of _ r'] exI[of _ "recovery_writes ?st D z"]) blast
qed

theorem recovery_crash_safe_witness:
  "\<exists>r'. initlog 0 ROOTDEV small_sb small_kernel = Ret ((), r') \<and> hdr_n (k_disk r' 2) = 0"
proof -
  have "log_readable 2 (k_disk small_kernel)" using zeros_empty_log by (simp add: log_readable_def small_kernel_def zero_kernel_def)
  then show ?thesis using recovery_crash_safe[OF small_rebooted(1), of small_sb] by (auto simp: small_sb_def)
qed

text \<open>C20: The buffer cache shows the last write. Inside an operation, after a block has been updated and released, reading any block returns a locked buffer with
  the block's current contents - the new ones for the block that was updated, what it had before for every other - although nothing has been written to the disk yet;
  and no other buffer caches the same block.\<close>

theorem cache_shows_last_write:
  assumes "in_op c {} s" "1 \<le> lg_outstanding (k_log s)" "nlog s + 1 < LOGSIZE" "data_block s (n, d)"
  shows "\<exists>s1 b s2. put_block c (n, d) s = Ret ((), s1) \<and> k_disk s1 = k_disk s \<and> bread c ROOTDEV m s1 = Ret (b, s2) \<and>
    b_dev (bufs s2 b) = ROOTDEV \<and> b_blockno (bufs s2 b) = m \<and> b_data (bufs s2 b) = (if m = n then d else view s (ROOTDEV, m)) \<and>
    sl_locked (b_lock (bufs s2 b)) \<and> sl_pid (b_lock (bufs s2 b)) = mypid c s2 \<and>
    (\<forall>a<NBUF. b_dev (bufs s2 a) = ROOTDEV \<and> b_blockno (bufs s2 a) = m \<longrightarrow> a = b)"
proof -
  obtain s1 where s1: "put_block c (n, d) s = Ret ((), s1)" "in_op c {} s1" "nlog s1 \<le> nlog s + 1" "vw s1 = (vw s)(n := d)" "log_frame s s1"
    using put_block_ok[OF assms] by auto
  have few: "card (logged s1) < NBUF" using logged_facts(2)[of s1] s1(3) assms(3) by simp
  with bread_ok[OF in_opD(1)[OF s1(2)] _ logged_facts(1), of m] obtain b s2 where b: "bread c ROOTDEV m s1 = Ret (b, s2)" "bio_ok c {b} (logged s1) s2"
    "has_block s2 b m (vw s1 m)" by auto
  have blk: "blk (bufs s2 b) = (ROOTDEV, m)" "b_data (bufs s2 b) = vw s1 m" using b(3) by (simp_all add: has_block_def)
  then have "b_dev (bufs s2 b) = ROOTDEV" "b_blockno (bufs s2 b) = m" by (simp_all add: blk_def)
  moreover have "vw s1 m = (if m = n then d else view s (ROOTDEV, m))" using fun_cong[OF s1(4), of m] by simp
  moreover have "a = b" if "a < NBUF" "b_dev (bufs s2 a) = ROOTDEV \<and> b_blockno (bufs s2 a) = m" for a
    using bio_uniq[OF b(2) that(1), of b m] held_less[OF b(2)] blk(1) that(2) by (simp add: blk_def)
  moreover have "sl_locked (b_lock (bufs s2 b)) \<and> sl_pid (b_lock (bufs s2 b)) = mypid c s2" using held_ok[OF b(2), of b] by (simp add: buf_ok_def)
  ultimately show ?thesis using s1(1) b(1) blk(2) log_frameD(3)[OF s1(5)] by (intro exI[of _ s1] exI[of _ b] exI[of _ s2]) simp
qed

definition small_op :: kernel where
  "small_op = small_kernel\<lparr>k_log := (k_log small_kernel)\<lparr>lg_outstanding := 1\<rparr>\<rparr>"

lemma small_in_op: "in_op 0 {} small_op" "lg_outstanding (k_log small_op) = 1" "nlog small_op = 0" "data_block small_op = data_block small_kernel"
proof -
  have k: "nlog small_kernel = 0" using small_at_rest by (simp add: at_rest_def nlog_def)
  show "nlog small_op = 0" "lg_outstanding (k_log small_op) = 1" "data_block small_op = data_block small_kernel"
    using k by (simp_all add: small_op_def nlog_def data_block_def fun_eq_iff)
  show "in_op 0 {} small_op" using small_at_rest k small_bio_ok
    by (simp add: at_rest_def in_op_def small_op_def log_ok_def logged_def nlog_def Let_def)
qed

theorem cache_shows_last_write_witness:
  "\<exists>s1 b s2. put_block 0 (40, replicate BSIZE 7) small_op = Ret ((), s1) \<and> bread 0 ROOTDEV 40 s1 = Ret (b, s2) \<and> b_data (bufs s2 b) = replicate BSIZE 7"
proof -
  have "data_block small_op (40, replicate BSIZE 7)" unfolding small_in_op(4) by (rule small_data_block) simp
  from cache_shows_last_write[OF small_in_op(1) _ _ this, of 40] show ?thesis using small_in_op(2,3) by force
qed

end
