(* ===== verification/Ring_Buffer.thy ===== *)
theory Ring_Buffer
  imports Kernel_Prelude
begin

text \<open>
  Circular buffers with free-running counters, as the pipe, the console and the UART have them: the counters wrap at the width of their
  type, the index is a counter modulo the size. What such a buffer holds (\<open>ring_items\<close>), and the interface of a bounded first-in first-out
  queue, with what follows from its laws for any interleaving of a producer and a consumer.
\<close>

section \<open>Counters modulo a size\<close>

definition ring_items :: "nat \<Rightarrow> 'a list \<Rightarrow> 'w::len word \<Rightarrow> 'w word \<Rightarrow> 'a list" where
  "ring_items N data r w = map (\<lambda>i. data ! ((unat r + i) mod N)) [0..<unat (w - r)]"

lemma ring_items_length [simp]: "length (ring_items N data r w) = unat (w - r)"
  by (simp add: ring_items_def)

text \<open>A size that divides the range of the counters: the indices go on when a counter wraps.\<close>

lemma unat_add_mod:
  fixes r k :: "'w::len word"
  assumes "N dvd 2 ^ LENGTH('w)"
  shows "unat (r + k) mod N = (unat r + unat k) mod N"
  using assms by (simp add: unat_word_ariths mod_mod_cancel)

lemma ring_items_empty: "ring_items N data r w = [] \<longleftrightarrow> r = w"
  by (auto simp: ring_items_def unat_eq_0)

lemma ring_items_full:
  fixes r w :: "'w::len word"
  assumes "N < 2 ^ LENGTH('w)"
  shows "w = r + of_nat N \<longleftrightarrow> length (ring_items N data r w) = N"
proof -
  have "unat (of_nat N :: 'w word) = N" using assms by (simp add: unsigned_of_nat take_bit_nat_eq_self)
  then have "unat (w - r) = N \<longleftrightarrow> w - r = of_nat N" by (metis word_unat_eq_iff)
  then show ?thesis by (auto simp: algebra_simps)
qed

lemma counter_diff_Suc:
  fixes r w :: "'w::len word"
  assumes "unat (w - r) < N" "N < 2 ^ LENGTH('w)"
  shows "unat (w + 1 - r) = Suc (unat (w - r))"
proof -
  have e: "w + 1 - r = (w - r) + 1" by simp
  have "unat (w - r) + 1 < 2 ^ LENGTH('w)" using assms by linarith
  then have "unat ((w - r) + 1) = unat (w - r) + 1" by (simp add: unat_word_ariths(1))
  then show ?thesis unfolding e by simp
qed

lemma ring_items_put:
  fixes r w :: "'w::len word"
  assumes "N dvd 2 ^ LENGTH('w)" "N < 2 ^ LENGTH('w)" "length data = N" "unat (w - r) < N"
  shows "ring_items N (data[unat w mod N := x]) r (w + 1) = ring_items N data r w @ [x]"
proof -
  let ?k = "unat (w - r)"
  have w: "unat w mod N = (unat r + ?k) mod N" using unat_add_mod[OF assms(1), of r "w - r"] by simp
  have ne: "(unat r + i) mod N \<noteq> (unat r + ?k) mod N" if "i < ?k" for i
  proof
    assume "(unat r + i) mod N = (unat r + ?k) mod N"
    then have "N dvd (unat r + ?k) - (unat r + i)" using mod_eq_dvd_iff_nat[of "unat r + i" "unat r + ?k" N] that by simp
    then have "N dvd ?k - i" by simp
    then show False using nat_dvd_not_less[of "?k - i" N] that assms(4) by simp
  qed
  have "0 < N" using assms(4) by simp
  then show ?thesis
    using assms(3) w counter_diff_Suc[OF assms(4,2)] by (simp add: ring_items_def nth_list_update ne[THEN not_sym])
qed

lemma counter_diff_pred:
  fixes r w :: "'w::len word"
  assumes "r \<noteq> w"
  shows "unat (w - r) = Suc (unat (w - (r + 1)))"
proof -
  have "w - r \<noteq> 0" using assms by simp
  then have "unat (w - r) \<noteq> 0" by (simp only: unat_eq_0) simp
  moreover have "w - (r + 1) = (w - r) - 1" by (rule diff_diff_eq[symmetric])
  ultimately show ?thesis using unat_minus_one[OF \<open>w - r \<noteq> 0\<close>] by (simp only:)
qed

lemma ring_items_get:
  fixes r w :: "'w::len word"
  assumes "N dvd 2 ^ LENGTH('w)" "0 < N" "r \<noteq> w"
  shows "ring_items N data r w = data ! (unat r mod N) # ring_items N data (r + 1) w"
proof -
  have "(unat (r + 1) + i) mod N = (unat r + Suc i) mod N" for i
  proof -
    have "(unat (r + 1) + i) mod N = (unat (r + 1) mod N + i) mod N" by (simp add: mod_add_left_eq)
    also have "\<dots> = ((unat r + unat (1 :: 'w word)) mod N + i) mod N" using unat_add_mod[OF assms(1), of r 1] by simp
    finally show ?thesis by (simp add: mod_add_left_eq)
  qed
  then show ?thesis
    by (simp add: ring_items_def counter_diff_pred[OF assms(3)] upt_conv_Cons map_Suc_upt[symmetric] del: upt_Suc map_Suc_upt)
qed

section \<open>Bounded queues\<close>

locale bounded_queue =
  fixes inv :: "'q \<Rightarrow> bool" and items :: "'q \<Rightarrow> 'a list" and cap :: nat
    and put :: "'a \<Rightarrow> 'q \<Rightarrow> 'q" and get :: "'q \<Rightarrow> 'a \<times> 'q" and is_full :: "'q \<Rightarrow> bool" and is_empty :: "'q \<Rightarrow> bool"
  assumes put_inv: "inv q \<Longrightarrow> \<not> is_full q \<Longrightarrow> inv (put x q)"
    and put_items: "inv q \<Longrightarrow> \<not> is_full q \<Longrightarrow> items (put x q) = items q @ [x]"
    and get_inv: "inv q \<Longrightarrow> \<not> is_empty q \<Longrightarrow> inv (snd (get q))"
    and get_items: "inv q \<Longrightarrow> \<not> is_empty q \<Longrightarrow> items q = fst (get q) # items (snd (get q))"
    and full_iff: "inv q \<Longrightarrow> is_full q \<longleftrightarrow> length (items q) = cap"
    and empty_iff: "inv q \<Longrightarrow> is_empty q \<longleftrightarrow> items q = []"
    and bound: "inv q \<Longrightarrow> length (items q) \<le> cap"
    and cap_pos: "0 < cap"
begin

lemma not_both: "inv q \<Longrightarrow> \<not> (is_full q \<and> is_empty q)"
  using full_iff empty_iff cap_pos by fastforce

primrec puts :: "'a list \<Rightarrow> 'q \<Rightarrow> 'q" where
  "puts [] q = q"
| "puts (x # xs) q = puts xs (put x q)"

primrec gets :: "nat \<Rightarrow> 'q \<Rightarrow> 'a list \<times> 'q" where
  "gets 0 q = ([], q)"
| "gets (Suc n) q = (let (x, q1) = get q; (xs, q2) = gets n q1 in (x # xs, q2))"

lemma room: "inv q \<Longrightarrow> length (items q) < cap \<Longrightarrow> \<not> is_full q"
  using full_iff by auto

lemma puts_items: "inv q \<Longrightarrow> length (items q) + length xs \<le> cap \<Longrightarrow> inv (puts xs q) \<and> items (puts xs q) = items q @ xs"
proof (induction xs arbitrary: q)
  case (Cons x xs)
  have nf: "\<not> is_full q" using Cons.prems by (intro room) simp_all
  show ?case using Cons.IH[OF put_inv[OF Cons.prems(1) nf, of x]] put_items[OF Cons.prems(1) nf, of x] Cons.prems(2) by simp
qed simp

lemma gets_items: "inv q \<Longrightarrow> n \<le> length (items q) \<Longrightarrow> inv (snd (gets n q)) \<and> fst (gets n q) = take n (items q) \<and> items (snd (gets n q)) = drop n (items q)"
proof (induction n arbitrary: q)
  case (Suc n)
  have ne: "\<not> is_empty q" using Suc.prems empty_iff by auto
  note g = get_inv[OF Suc.prems(1) ne] get_items[OF Suc.prems(1) ne]
  obtain x q1 where q1: "get q = (x, q1)" by (cases "get q")
  have "inv q1" "items q = x # items q1" using g q1 by auto
  then show ?case using Suc.IH[of q1] Suc.prems(2) q1 by (auto simp: Let_def split: prod.splits)
qed simp

end

end
