(* ===== verification/Pipe_Correct.thy ===== *)
theory Pipe_Correct
  imports File Ring_Buffer VM_Copy Sleeplock_Laws
begin

text \<open>
  Pipes (\<open>kernel/pipe.c\<close>): the ring in the page is a bounded queue of bytes, also when the 32-bit counters wrap; a writer and a reader
  that run in any interleaving, sleep and wake each other; and what one call of \<open>pipewrite\<close> or \<open>piperead\<close> does to the queue and to user memory.
\<close>

section \<open>The ring is a queue\<close>

definition pipe_items :: "pipe \<Rightarrow> u8 list" where
  "pipe_items p = ring_items PIPESIZE (pi_data p) (pi_nread p) (pi_nwrite p)"

definition pipe_inv :: "pipe \<Rightarrow> bool" where
  "pipe_inv p \<longleftrightarrow> length (pi_data p) = PIPESIZE \<and> unat (pi_nwrite p - pi_nread p) \<le> PIPESIZE"

lemma pipe_size: "(PIPESIZE :: nat) dvd 2 ^ LENGTH(32)" "(PIPESIZE :: nat) < 2 ^ LENGTH(32)"
  by simp_all

lemma pipe_full_length: "pipe_full p \<longleftrightarrow> length (pipe_items p) = PIPESIZE"
  unfolding pipe_full_def pipe_items_def by (rule ring_items_full[OF pipe_size(2)])

lemma pipe_put_items: "pipe_inv p \<Longrightarrow> \<not> pipe_full p \<Longrightarrow> pipe_inv (pipe_put x p) \<and> pipe_items (pipe_put x p) = pipe_items p @ [x]"
proof -
  assume inv: "pipe_inv p" and nf: "\<not> pipe_full p"
  have lt: "unat (pi_nwrite p - pi_nread p) < PIPESIZE" using inv nf pipe_full_length[of p] by (simp add: pipe_inv_def pipe_items_def)
  have "pipe_items (pipe_put x p) = pipe_items p @ [x]"
    using ring_items_put[OF pipe_size _ lt, of "pi_data p" x] inv by (simp add: pipe_items_def pipe_put_def pipe_inv_def)
  moreover have "pipe_inv (pipe_put x p)" using counter_diff_Suc[OF lt pipe_size(2)] lt inv by (simp add: pipe_inv_def pipe_put_def)
  ultimately show ?thesis by blast
qed

lemma pipe_get_items:
  "pipe_inv p \<Longrightarrow> \<not> pipe_empty p \<Longrightarrow> pipe_inv (snd (pipe_get p)) \<and> pipe_items p = fst (pipe_get p) # pipe_items (snd (pipe_get p))"
proof -
  assume inv: "pipe_inv p" and ne: "\<not> pipe_empty p"
  then have ne': "pi_nread p \<noteq> pi_nwrite p" by (simp add: pipe_empty_def)
  have "pipe_items p = fst (pipe_get p) # pipe_items (snd (pipe_get p))"
    using ring_items_get[OF pipe_size(1) _ ne', of "pi_data p"] by (simp add: pipe_items_def pipe_get_def)
  moreover have "pipe_inv (snd (pipe_get p))" using counter_diff_pred[OF ne'] inv by (simp add: pipe_inv_def pipe_get_def)
  ultimately show ?thesis by blast
qed

interpretation pq: bounded_queue pipe_inv pipe_items PIPESIZE pipe_put pipe_get pipe_full pipe_empty
proof unfold_locales
  fix q x
  show "pipe_inv q \<Longrightarrow> \<not> pipe_full q \<Longrightarrow> pipe_inv (pipe_put x q)" using pipe_put_items by blast
  show "pipe_inv q \<Longrightarrow> \<not> pipe_full q \<Longrightarrow> pipe_items (pipe_put x q) = pipe_items q @ [x]" using pipe_put_items by blast
  show "pipe_inv q \<Longrightarrow> \<not> pipe_empty q \<Longrightarrow> pipe_inv (snd (pipe_get q))" using pipe_get_items by blast
  show "pipe_inv q \<Longrightarrow> \<not> pipe_empty q \<Longrightarrow> pipe_items q = fst (pipe_get q) # pipe_items (snd (pipe_get q))" using pipe_get_items by blast
  show "pipe_inv q \<Longrightarrow> pipe_full q \<longleftrightarrow> length (pipe_items q) = PIPESIZE" by (rule pipe_full_length)
  show "pipe_inv q \<Longrightarrow> pipe_empty q \<longleftrightarrow> pipe_items q = []" by (simp add: pipe_empty_def pipe_items_def ring_items_empty)
  show "pipe_inv q \<Longrightarrow> length (pipe_items q) \<le> PIPESIZE" by (simp add: pipe_items_def pipe_inv_def)
qed simp

section \<open>A writer and a reader\<close>

text \<open>
  The control points of one \<open>pipewrite\<close> and of a process that calls \<open>piperead\<close> again and again, with the sleeps on the two channels; a step is what happens
  between two points, and steps of the two processes interleave freely. \<open>RCopy i n\<close> is the copying loop, with \<open>i\<close> of \<open>n\<close> bytes read. The copies from and to
  user memory succeed, and nobody is killed or closes an end.
\<close>

datatype wpc = WCheck | WAsleep | WEnd
datatype rpc = RCheck | RAsleep | RCopy nat nat

record pipe_run =
  pr_pipe :: pipe
  pr_w :: wpc
  pr_todo :: "u8 list"
  pr_r :: rpc
  pr_got :: "u8 list"

definition wake_reader :: "rpc \<Rightarrow> rpc" where
  "wake_reader r = (if r = RAsleep then RCheck else r)"

definition wake_writer :: "wpc \<Rightarrow> wpc" where
  "wake_writer w = (if w = WAsleep then WCheck else w)"

inductive pipe_step :: "pipe_run \<Rightarrow> pipe_run \<Rightarrow> bool" where
  w_put: "pr_w s = WCheck \<Longrightarrow> pr_todo s = ch # rest \<Longrightarrow> \<not> pipe_full (pr_pipe s) \<Longrightarrow>
    pipe_step s (s\<lparr>pr_pipe := pipe_put ch (pr_pipe s), pr_todo := rest\<rparr>)"
| w_full: "pr_w s = WCheck \<Longrightarrow> pr_todo s \<noteq> [] \<Longrightarrow> pipe_full (pr_pipe s) \<Longrightarrow>
    pipe_step s (s\<lparr>pr_r := wake_reader (pr_r s), pr_w := WAsleep\<rparr>)"
| w_done: "pr_w s = WCheck \<Longrightarrow> pr_todo s = [] \<Longrightarrow> pipe_step s (s\<lparr>pr_r := wake_reader (pr_r s), pr_w := WEnd\<rparr>)"
| r_empty: "pr_r s = RCheck \<Longrightarrow> pipe_empty (pr_pipe s) \<Longrightarrow> pipe_step s (s\<lparr>pr_r := RAsleep\<rparr>)"
| r_go: "pr_r s = RCheck \<Longrightarrow> \<not> pipe_empty (pr_pipe s) \<Longrightarrow> 0 < n \<Longrightarrow> pipe_step s (s\<lparr>pr_r := RCopy 0 n\<rparr>)"
| r_get: "pr_r s = RCopy i n \<Longrightarrow> i < n \<Longrightarrow> \<not> pipe_empty (pr_pipe s) \<Longrightarrow>
    pipe_step s (s\<lparr>pr_pipe := snd (pipe_get (pr_pipe s)), pr_got := pr_got s @ [fst (pipe_get (pr_pipe s))], pr_r := RCopy (Suc i) n\<rparr>)"
| r_done: "pr_r s = RCopy i n \<Longrightarrow> i = n \<or> pipe_empty (pr_pipe s) \<Longrightarrow> pipe_step s (s\<lparr>pr_w := wake_writer (pr_w s), pr_r := RCheck\<rparr>)"

inductive_cases pipe_step_cases: "pipe_step s s'"

text \<open>
  Whatever is written is read or in the queue; a writer sleeps only while the queue is full or the reader is copying, a reader only while it is empty or the writer
  is writing; a reader that has started to copy has something to copy.
\<close>

definition run_inv :: "u8 list \<Rightarrow> pipe_run \<Rightarrow> bool" where
  "run_inv bs s \<longleftrightarrow> pipe_inv (pr_pipe s) \<and> pr_got s @ pipe_items (pr_pipe s) @ pr_todo s = bs \<and>
    (pr_w s = WAsleep \<longrightarrow> pr_todo s \<noteq> [] \<and> (pipe_full (pr_pipe s) \<or> (\<exists>i n. pr_r s = RCopy i n))) \<and>
    (pr_w s = WEnd \<longrightarrow> pr_todo s = []) \<and>
    (pr_r s = RAsleep \<longrightarrow> pipe_empty (pr_pipe s) \<or> pr_w s = WCheck) \<and>
    (\<forall>i n. pr_r s = RCopy i n \<longrightarrow> i \<le> n \<and> 0 < n \<and> (i = 0 \<longrightarrow> \<not> pipe_empty (pr_pipe s)))"

lemma put_not_empty: "pipe_inv p \<Longrightarrow> \<not> pipe_full p \<Longrightarrow> \<not> pipe_empty (pipe_put x p)"
  using pq.put_inv[of p x] pq.put_items[of p x] pq.empty_iff[of "pipe_put x p"] by auto

lemma run_inv_step:
  assumes "pipe_step s s'" "run_inv bs s"
  shows "run_inv bs s'"
  using assms
proof (cases rule: pipe_step.cases)
  case (w_put ch rest)
  then show ?thesis using assms(2) pq.put_inv[of "pr_pipe s" ch] pq.put_items[of "pr_pipe s" ch] put_not_empty[of "pr_pipe s" ch]
    by (auto simp: run_inv_def)
next
  case (r_get i n)
  then show ?thesis using assms(2) pq.get_inv[of "pr_pipe s"] pq.get_items[of "pr_pipe s"] by (auto simp: run_inv_def)
qed (use assms(2) pq.not_both[of "pr_pipe s"] in \<open>auto simp: run_inv_def wake_reader_def wake_writer_def split: if_splits\<close>)

lemma run_inv_reach: "pipe_step\<^sup>*\<^sup>* s s' \<Longrightarrow> run_inv bs s \<Longrightarrow> run_inv bs s'"
  by (induction rule: rtranclp_induct) (auto intro: run_inv_step)

subsection \<open>Every schedule ends\<close>

definition w_weight :: "wpc \<Rightarrow> nat" where
  "w_weight w = (case w of WCheck \<Rightarrow> 3 | WAsleep \<Rightarrow> 1 | WEnd \<Rightarrow> 0)"

definition r_weight :: "rpc \<Rightarrow> nat" where
  "r_weight r = (case r of RCheck \<Rightarrow> 3 | RAsleep \<Rightarrow> 2 | RCopy i n \<Rightarrow> if i = 0 then 0 else 6)"

definition run_measure :: "pipe_run \<Rightarrow> nat" where
  "run_measure s = 16 * length (pr_todo s) + 8 * length (pipe_items (pr_pipe s)) + w_weight (pr_w s) + r_weight (pr_r s)"

lemma run_measure_step:
  assumes "pipe_step s s'" "run_inv bs s"
  shows "run_measure s' < run_measure s"
  using assms
proof (cases rule: pipe_step.cases)
  case (w_put ch rest)
  then show ?thesis using assms(2) pq.put_items[of "pr_pipe s" ch] by (simp add: run_inv_def run_measure_def)
next
  case (r_get i n)
  then show ?thesis using assms(2) pq.get_items[of "pr_pipe s"] by (simp add: run_inv_def run_measure_def r_weight_def)
next
  case (r_done i n)
  then have "i \<noteq> 0" using assms(2) by (auto simp: run_inv_def)
  then show ?thesis using r_done by (simp add: run_measure_def r_weight_def w_weight_def wake_writer_def split: wpc.splits)
qed (auto simp: run_measure_def r_weight_def w_weight_def wake_reader_def split: rpc.splits)

lemma no_infinite_run:
  assumes "run_inv bs (f 0)" "\<And>i. pipe_step (f i) (f (Suc i))"
  shows False
proof -
  have inv: "run_inv bs (f i)" for i by (induction i) (use assms run_inv_step in blast)+
  have "run_measure (f i) + i \<le> run_measure (f 0)" for i
  proof (induction i)
    case (Suc i)
    then show ?case using run_measure_step[OF assms(2)[of i] inv[of i]] by simp
  qed simp
  from this[of "Suc (run_measure (f 0))"] show False by simp
qed

lemma run_stuck:
  assumes "run_inv bs s" "\<And>s'. \<not> pipe_step s s'"
  shows "pr_w s = WEnd \<and> pr_r s = RAsleep \<and> pr_got s = bs"
proof -
  have w: "pr_w s \<noteq> WCheck" using assms(2) w_put[of s] w_full[of s] w_done[of s] by (metis neq_Nil_conv)
  have r: "pr_r s \<noteq> RCheck" using assms(2) r_empty[of s] r_go[of s 1] by (metis zero_less_one)
  have c: "pr_r s \<noteq> RCopy i n" for i n
    using assms r_get[of s i n] r_done[of s i n] by (auto simp: run_inv_def le_less)
  have ra: "pr_r s = RAsleep" using r c by (cases "pr_r s") auto
  then have e: "pipe_empty (pr_pipe s)" using assms(1) w by (simp add: run_inv_def)
  have inv: "pipe_inv (pr_pipe s)" using assms(1) by (simp add: run_inv_def)
  have "pr_w s \<noteq> WAsleep" using assms(1) ra e pq.not_both[OF inv] by (auto simp: run_inv_def)
  then have "pr_w s = WEnd" using w by (cases "pr_w s") auto
  then show ?thesis using assms(1) ra e pq.empty_iff[OF inv] by (auto simp: run_inv_def)
qed

section \<open>One call\<close>

lemma killed_free: "locks_free t \<Longrightarrow> p < NPROC \<Longrightarrow> killed c p t = Ret (p_killed (procs t p), t)"
proof -
  assume "locks_free t" and p: "p < NPROC"
  then have lk: "lk_free (p_lock (procs t p))" by (simp add: locks_free_def)
  have "acquire_proc c p t = Ret (lockp c p t)" by (rule acquire_proc_free[OF p lk])
  moreover have "release_proc c p (lockp c p t) = Ret t" by (rule release_lockp[OF p lk])
  moreover have "p_killed (procs (lockp c p t) p) = p_killed (procs t p)" by (simp add: lockp_def upd_proc_def)
  ultimately show ?thesis by (simp add: killed_def Let_def)
qed

definition pi_held :: "nat \<Rightarrow> u64 \<Rightarrow> kernel \<Rightarrow> kernel" where
  "pi_held c pi = upd_pipe pi (pi_lock_update (held c))"

lemma upd_pipe_upd: "upd_pipe pi f (upd_pipe pi g s) = upd_pipe pi (f \<circ> g) s"
  by (simp add: upd_pipe_def)

lemma upd_pipe_cong: "f (k_pipe s pi) = g (k_pipe s pi) \<Longrightarrow> upd_pipe pi f s = upd_pipe pi g s"
  by (simp add: upd_pipe_def)

lemma upd_pipe_simps [simp]:
  "k_pipe (upd_pipe pi f s) pi = f (k_pipe s pi)" "k_pt (upd_pipe pi f s) = k_pt s" "k_vm (upd_pipe pi f s) = k_vm s"
  "upd_pipe pi f (s\<lparr>k_pt := t\<rparr>) = (upd_pipe pi f s)\<lparr>k_pt := t\<rparr>" "upd_pipe pi f (s\<lparr>k_vm := v\<rparr>) = (upd_pipe pi f s)\<lparr>k_vm := v\<rparr>"
  "(upd_pipe pi f s)\<lparr>k_pt := k_pt s\<rparr> = upd_pipe pi f s"
  by (simp_all add: upd_pipe_def)

lemma acquire_pi_free: "lk_free (pi_lock (k_pipe s pi)) \<Longrightarrow> acquire_pi c pi s = Ret ((), pi_held c pi s)"
  by (simp add: acquire_pi_def acquireK_def pi_held_def) (rule upd_pipe_cong, cases "k_pipe s pi", simp add: held_def)

lemma pi_held_upd: "\<lbrakk>\<And>p. pi_lock (g p) = pi_lock p; \<And>p f. g (pi_lock_update f p) = pi_lock_update f (g p)\<rbrakk> \<Longrightarrow> upd_pipe pi g (pi_held c pi s) = pi_held c pi (upd_pipe pi g s)"
  unfolding pi_held_def upd_pipe_upd by (rule upd_pipe_cong) simp

lemma release_pi_held: "lk_free (pi_lock (k_pipe s pi)) \<Longrightarrow> release_pi c pi (pi_held c pi s) = Ret ((), s)"
  by (simp add: release_pi_def releaseK_def pi_held_def held_def upd_pipe_def)

lemma put_lock [simp]: "pi_lock (pipe_put x p) = pi_lock p" "pipe_put x (pi_lock_update f p) = pi_lock_update f (pipe_put x p)"
  "pi_readopen (pipe_put x p) = pi_readopen p" "pipe_full (pi_lock_update f p) = pipe_full p"
  by (simp_all add: pipe_put_def pipe_full_def)

lemma get_lock [simp]: "pi_lock (snd (pipe_get p)) = pi_lock p" "snd (pipe_get (pi_lock_update f p)) = pi_lock_update f (snd (pipe_get p))"
  "fst (pipe_get (pi_lock_update f p)) = fst (pipe_get p)" "pipe_empty (pi_lock_update f p) = pipe_empty p"
  by (simp_all add: pipe_get_def pipe_empty_def)

lemma puts_lock [simp]: "pi_lock (pq.puts bs p) = pi_lock p" "pi_readopen (pq.puts bs p) = pi_readopen p"
  by (induction bs arbitrary: p) simp_all

lemma pipewrite_loop_ok:
  assumes "locks_free (k_pt s)" "pr < NPROC" "p_killed (procs (k_pt s) pr) = 0" "pt_wf (vm_mem (k_vm s)) pt" "pt = p_pagetable (procs (k_pt s) pr)"
    "pipe_inv (k_pipe s pi)" "pi_readopen (k_pipe s pi)" "length (pipe_items (k_pipe s pi)) + n \<le> PIPESIZE"
    "\<forall>j<n. user_ok (k_vm s) pt (addr + of_nat (i + j))"
  shows "pipewrite_loop c pi pr addr i n (pi_held c pi s)
    = Ret (Some (i + n), pi_held c pi (upd_pipe pi (pq.puts (user_bytes (k_vm s) pt (addr + of_nat i) n)) s))"
  using assms
proof (induction n arbitrary: i s)
  case 0
  then show ?case by (simp add: retK_def upd_pipe_def)
next
  case (Suc n)
  let ?a = "addr + of_nat i" and ?v = "k_vm s"
  let ?b = "vm_mem ?v (upa ?v pt ?a)"
  have u0: "user_ok ?v pt ?a" using Suc.prems(9)[rule_format, of 0] by simp
  then have ci: "copyin c pt ?a 1 ?v = Ret (0, [?b])" using copyin_ref[OF Suc.prems(4), of c ?a 1] copyin_bytes_all[of 1 ?v pt ?a] by (simp add: user_bytes_def)
  have k: "killed c pr (k_pt s) = Ret (0, k_pt s)" using killed_free[OF Suc.prems(1,2)] Suc.prems(3) by simp
  have nf: "\<not> pipe_full (k_pipe s pi)" using Suc.prems(6,8) by (intro pq.room) simp_all
  let ?s1 = "upd_pipe pi (pipe_put ?b) s"
  have pi1: "pipe_inv (k_pipe ?s1 pi)" "length (pipe_items (k_pipe ?s1 pi)) + n \<le> PIPESIZE"
    using pq.put_inv[OF Suc.prems(6) nf] pq.put_items[OF Suc.prems(6) nf] Suc.prems(8) by simp_all
  have ok1: "\<forall>j<n. user_ok (k_vm ?s1) pt (addr + of_nat (Suc i + j))"
  proof (intro allI impI)
    fix j assume "j < n"
    then show "user_ok (k_vm ?s1) pt (addr + of_nat (Suc i + j))" using Suc.prems(9)[rule_format, of "Suc j"] by simp
  qed
  have step: "pipewrite_loop c pi pr addr i (Suc n) (pi_held c pi s) = pipewrite_loop c pi pr addr (Suc i) n (pi_held c pi ?s1)"
    using k nf ci Suc.prems(5,7) pi_held_upd[of "pipe_put ?b" pi c s]
    by (simp add: kop_simps pipeK_def ptvK_def vmrK_def procK_def setpipeK_def pi_held_def)
  have "pq.puts (user_bytes ?v pt ?a (Suc n)) \<circ> id = pq.puts (user_bytes ?v pt (addr + of_nat (Suc i)) n) \<circ> pipe_put ?b"
    by (simp add: fun_eq_iff user_bytes_Suc add.assoc add.commute[of 1])
  then have "upd_pipe pi (pq.puts (user_bytes ?v pt ?a (Suc n))) s = upd_pipe pi (pq.puts (user_bytes ?v pt (addr + of_nat (Suc i)) n)) ?s1"
    unfolding upd_pipe_upd by simp
  then show ?case unfolding step using Suc.IH[OF _ Suc.prems(2), of ?s1 "Suc i"] Suc.prems(1,3-5,7) pi1 ok1 by simp
qed

text \<open>\<open>pipewrite\<close> with room for all bytes: they are appended to the queue, and a reader that sleeps is made runnable.\<close>

lemma pipewrite_ok:
  assumes run: "running c s" and pr: "myproc c (k_pt s) = Some pr" "p_killed (procs (k_pt s) pr) = 0"
    and pt: "pt = p_pagetable (procs (k_pt s) pr)" "pt_wf (vm_mem (k_vm s)) pt"
    and pi: "lk_free (pi_lock (k_pipe s pi))" "pipe_inv (k_pipe s pi)" "pi_readopen (k_pipe s pi)" "length (pipe_items (k_pipe s pi)) + n \<le> PIPESIZE"
    and user: "\<forall>j<n. user_ok (k_vm s) pt (addr + of_nat j)"
  shows "pipewrite c pi addr (int n) s = Ret (int n,
    (upd_pipe pi (pq.puts (user_bytes (k_vm s) pt addr n)) s)\<lparr>k_pt := map_procs (wake (Some pr) (Some (ChanPipeRead pi))) NPROC (k_pt s)\<rparr>)"
proof -
  have lt: "pr < NPROC" and lf: "locks_free (k_pt s)" using run pr(1) by (auto simp: running_def)
  let ?s1 = "upd_pipe pi (pq.puts (user_bytes (k_vm s) pt addr n)) s" and ?t = "map_procs (wake (Some pr) (Some (ChanPipeRead pi))) NPROC (k_pt s)"
  have loop: "pipewrite_loop c pi pr addr 0 n (pi_held c pi s) = Ret (Some n, pi_held c pi ?s1)"
    using pipewrite_loop_ok[OF lf lt pr(2) pt(2,1) pi(2-4), of addr 0 c] user by simp
  have "wakeup c (Some (ChanPipeRead pi)) (k_pt s) = Ret ?t" using wakeup_ok[of c "k_pt s"] lf pr(1) by (simp add: locks_free_def)
  then have wk: "wakeupK c (ChanPipeRead pi) (pi_held c pi ?s1) = Ret ((), pi_held c pi (?s1\<lparr>k_pt := ?t\<rparr>))"
    by (simp add: wakeupK_def ptK_def pi_held_def)
  have "release_pi c pi (pi_held c pi (?s1\<lparr>k_pt := ?t\<rparr>)) = Ret ((), ?s1\<lparr>k_pt := ?t\<rparr>)"
    using pi(1) by (intro release_pi_held) (simp add: upd_pipe_def)
  then show ?thesis using pr lt acquire_pi_free[OF pi(1), of c] loop wk
    by (simp add: pipewrite_def kop_simps curproc_def deref_def)
qed

lemma copyout_step:
  assumes "user_sep v pt" "user_ok v pt a"
  shows "copyout c pt a [b] v = Ret (0, v\<lparr>vm_mem := (vm_mem v)(upa v pt a := b)\<rparr>)"
  using copyout_ref[OF assms(1), of c a "[b]"] assms(2) by simp

lemma piperead_loop_ok:
  assumes "user_sep (k_vm s) pt" "pt = p_pagetable (procs (k_pt s) pr)" "pipe_inv (k_pipe s pi)"
    "m = min n (length (pipe_items (k_pipe s pi)))" "\<forall>j<m. user_ok (k_vm s) pt (addr + of_nat (i + j))"
  shows "piperead_loop c pi pr addr i n (pi_held c pi s)
    = Ret (i + m, pi_held c pi ((upd_pipe pi (\<lambda>p. snd (pq.gets m p)) s)\<lparr>k_vm := snd (copyout_bytes pt (take m (pipe_items (k_pipe s pi))) (addr + of_nat i) (k_vm s))\<rparr>))"
  using assms
proof (induction n arbitrary: i s m)
  case 0
  then show ?case by (simp add: retK_def upd_pipe_def)
next
  case (Suc n)
  let ?p = "k_pipe s pi" and ?a = "addr + of_nat i" and ?v = "k_vm s"
  show ?case
  proof (cases "pipe_empty ?p")
    case True
    then have "m = 0" using Suc.prems(3,4) pq.empty_iff by simp
    then show ?thesis using True by (simp add: kop_simps pipeK_def pi_held_def upd_pipe_def)
  next
    case False
    note g = pq.get_inv[OF Suc.prems(3) False] pq.get_items[OF Suc.prems(3) False]
    let ?b = "fst (pipe_get ?p)" and ?q = "snd (pipe_get ?p)"
    obtain k where m: "m = Suc k" "k = min n (length (pipe_items ?q))" using Suc.prems(4) g(2) by simp
    have u0: "user_ok ?v pt ?a" using Suc.prems(5)[rule_format, of 0] m by simp
    let ?v1 = "?v\<lparr>vm_mem := (vm_mem ?v)(upa ?v pt ?a := ?b)\<rparr>"
    note w = user_write_byte[OF Suc.prems(1) u0, of ?b]
    let ?s1 = "(upd_pipe pi (\<lambda>p. snd (pipe_get p)) s)\<lparr>k_vm := ?v1\<rparr>"
    have "upd_pipe pi (\<lambda>p. snd (pipe_get p)) (pi_held c pi s) = pi_held c pi (upd_pipe pi (\<lambda>p. snd (pipe_get p)) s)" by (rule pi_held_upd) simp_all
    then have step: "piperead_loop c pi pr addr i (Suc n) (pi_held c pi s) = piperead_loop c pi pr addr (Suc i) n (pi_held c pi ?s1)"
      using False copyout_step[OF Suc.prems(1) u0, of c ?b] Suc.prems(2)
      by (simp add: kop_simps pipeK_def vmvK_def procK_def setpipeK_def pi_held_def)
    have ok1: "\<forall>j<k. user_ok ?v1 pt (addr + of_nat (Suc i + j))"
    proof (intro allI impI)
      fix j assume "j < k"
      then show "user_ok ?v1 pt (addr + of_nat (Suc i + j))" using Suc.prems(5)[rule_format, of "Suc j"] m w(5) by simp
    qed
    have k1: "k_pipe ?s1 pi = ?q" "k_vm ?s1 = ?v1" "k_pt ?s1 = k_pt s" by (simp_all add: upd_pipe_def)
    have IH: "piperead_loop c pi pr addr (Suc i) n (pi_held c pi ?s1) = Ret (Suc i + k,
        pi_held c pi ((upd_pipe pi (\<lambda>p. snd (pq.gets k p)) ?s1)\<lparr>k_vm := snd (copyout_bytes pt (take k (pipe_items ?q)) (addr + of_nat (Suc i)) ?v1)\<rparr>))"
      using Suc.IH[of ?s1 k "Suc i"] w(1) Suc.prems(2) g(1) m(2) ok1 unfolding k1 by simp
    have "snd (pq.gets k (snd (pipe_get p))) = snd (pq.gets m p)" for p by (simp add: m(1) Let_def split: prod.splits)
    then have "upd_pipe pi (\<lambda>p. snd (pq.gets k p)) (upd_pipe pi (\<lambda>p. snd (pipe_get p)) s) = upd_pipe pi (\<lambda>p. snd (pq.gets m p)) s"
      by (simp add: upd_pipe_upd comp_def)
    moreover have "copyout_bytes pt (take m (pipe_items ?p)) ?a ?v = copyout_bytes pt (take k (pipe_items ?q)) (addr + of_nat (Suc i)) ?v1"
      using u0 g(2) m(1) by (simp add: add.assoc add.commute[of 1])
    ultimately show ?thesis unfolding step IH using m(1) by (simp add: pi_held_def)
  qed
qed

text \<open>\<open>piperead\<close> when there is something to read: it takes as many bytes as asked for or as there are, and a writer that sleeps is made runnable.\<close>

lemma piperead_ok:
  assumes run: "running c s" and pr: "myproc c (k_pt s) = Some pr"
    and pt: "pt = p_pagetable (procs (k_pt s) pr)" "user_sep (k_vm s) pt"
    and pi: "lk_free (pi_lock (k_pipe s pi))" "pipe_inv (k_pipe s pi)" "pipe_items (k_pipe s pi) \<noteq> []"
    and m: "m = min n (length (pipe_items (k_pipe s pi)))" and user: "\<forall>j<m. user_ok (k_vm s) pt (addr + of_nat j)"
  shows "piperead c pi addr (int n) s = Ret (int m,
    (upd_pipe pi (\<lambda>p. snd (pq.gets m p)) s)\<lparr>k_vm := snd (copyout_bytes pt (take m (pipe_items (k_pipe s pi))) addr (k_vm s)),
      k_pt := map_procs (wake (Some pr) (Some (ChanPipeWrite pi))) NPROC (k_pt s)\<rparr>)"
proof -
  have lt: "pr < NPROC" and lf: "locks_free (k_pt s)" using run pr by (auto simp: running_def)
  let ?v = "snd (copyout_bytes pt (take m (pipe_items (k_pipe s pi))) addr (k_vm s))"
  let ?s1 = "(upd_pipe pi (\<lambda>p. snd (pq.gets m p)) s)\<lparr>k_vm := ?v\<rparr>" and ?t = "map_procs (wake (Some pr) (Some (ChanPipeWrite pi))) NPROC (k_pt s)"
  have loop: "piperead_loop c pi pr addr 0 n (pi_held c pi s) = Ret (m, pi_held c pi ?s1)"
    using piperead_loop_ok[OF pt(2,1) pi(2) m, of addr 0 c] user by simp
  have "wakeup c (Some (ChanPipeWrite pi)) (k_pt s) = Ret ?t" using wakeup_ok[of c "k_pt s"] lf pr by (simp add: locks_free_def)
  then have wk: "wakeupK c (ChanPipeWrite pi) (pi_held c pi ?s1) = Ret ((), pi_held c pi (?s1\<lparr>k_pt := ?t\<rparr>))"
    by (simp add: wakeupK_def ptK_def pi_held_def)
  have lk: "pi_lock (snd (pq.gets m p)) = pi_lock p" for p
    by (induction m arbitrary: p) (auto simp: Let_def split: prod.splits, metis get_lock(1) snd_conv)
  have "release_pi c pi (pi_held c pi (?s1\<lparr>k_pt := ?t\<rparr>)) = Ret ((), ?s1\<lparr>k_pt := ?t\<rparr>)"
    using pi(1) lk by (intro release_pi_held) (simp add: upd_pipe_def)
  moreover have "\<not> pipe_empty (k_pipe (pi_held c pi s) pi)" using pi(2,3) pq.empty_iff by (simp add: pi_held_def)
  ultimately show ?thesis using pr lt acquire_pi_free[OF pi(1), of c] loop wk
    by (simp add: piperead_def kop_simps curproc_def deref_def pipeK_def)
qed

end
