(* ===== verification/User_Example.thy ===== *)
theory User_Example
  imports VM_Example Kernel_Example
begin

text \<open>A user address space with one readable and writable page, for the statements about user memory.\<close>

lemma example_user:
  obtains s A where "us_ok A 1 s" "user_sep s A" "\<And>va. unat va < PGSIZE \<Longrightarrow> user_ok s A va"
proof -
  obtain s A E D where e: "us_ok A 1 s" "tpage D" "\<And>k. k < 2 ^ 27 \<Longrightarrow> ptmap s A k = (if k = 0 then PA2PTE D OR RWU OR PTE_V else 0)"
    by (rule example_space) blast
  have "user_sep s A" using e(3) by (intro us_ok_user_sep[OF e(1)]) simp
  moreover have "aligned D" using e(2) by (simp add: tpage_def)
  then have "user_ok s A va" if "unat va < PGSIZE" for va
    using that e(2,3) leaf_perm_pte(1,2)[OF leaf_perm_RWU(1)] leaf_perm_RWU(2)[of D]
    by (simp add: user_ok_def upte_def is_leaf_def tpage_def)
  ultimately show ?thesis using that e(1) by blast
qed

end
