(* ===== verification/Pipe_Props.thy ===== *)
theory Pipe_Props
  imports Pipe_Correct User_Example
begin

text \<open>The properties of pipes.\<close>

text \<open>A write of \<open>bs\<close> to a pipe that is empty, and a reader; nothing has happened yet.\<close>

definition pipe_start :: "pipe \<Rightarrow> u8 list \<Rightarrow> pipe_run" where
  "pipe_start p bs = \<lparr>pr_pipe = p, pr_w = WCheck, pr_todo = bs, pr_r = RCheck, pr_got = []\<rparr>"

lemma start_inv: "pipe_inv p \<Longrightarrow> pipe_empty p \<Longrightarrow> run_inv bs (pipe_start p bs)"
  using pq.empty_iff by (simp add: run_inv_def pipe_start_def)

text \<open>C6: Whatever the interleaving of a writer and a reader of a pipe, with their sleeping and waking, and wherever the 32-bit counters of the pipe stand (also when
  they wrap), the bytes read so far, followed by those in the ring, followed by those still to be written, are the bytes of the write in their order; the ring holds at
  most \<open>PIPESIZE\<close> of them; and the two are never both asleep.\<close>

theorem pipe_first_in_first_out:
  assumes "pipe_inv p" "pipe_empty p" "pipe_step\<^sup>*\<^sup>* (pipe_start p bs) s"
  shows "pr_got s @ pipe_items (pr_pipe s) @ pr_todo s = bs \<and> length (pipe_items (pr_pipe s)) \<le> PIPESIZE \<and> \<not> (pr_w s = WAsleep \<and> pr_r s = RAsleep)"
proof -
  have i: "run_inv bs s" using run_inv_reach[OF assms(3) start_inv[OF assms(1,2)]] .
  then have p: "pipe_inv (pr_pipe s)" by (simp add: run_inv_def)
  show ?thesis using i pq.bound[OF p] pq.not_both[OF p] by (auto simp: run_inv_def)
qed

definition small_pipe :: pipe where
  "small_pipe = \<lparr>pi_lock = zero_lock, pi_data = replicate PIPESIZE 0, pi_nread = 0xFFFFFFFF, pi_nwrite = 0xFFFFFFFF, pi_readopen = True, pi_writeopen = True\<rparr>"

lemma small_pipe_ok: "pipe_inv small_pipe" "pipe_empty small_pipe" "\<not> pipe_full small_pipe"
  by (simp_all add: small_pipe_def pipe_inv_def pipe_empty_def pipe_full_def)

theorem pipe_first_in_first_out_witness:
  "\<exists>s. pipe_step\<^sup>*\<^sup>* (pipe_start small_pipe [1, 2]) s \<and> pr_got s @ pipe_items (pr_pipe s) @ pr_todo s = [1, 2] \<and> pr_todo s = [2]"
proof -
  let ?s = "(pipe_start small_pipe [1, 2])\<lparr>pr_pipe := pipe_put 1 small_pipe, pr_todo := [2]\<rparr>"
  have "pipe_step (pipe_start small_pipe [1, 2]) ?s" using w_put[of "pipe_start small_pipe [1, 2]" 1 "[2]"] small_pipe_ok(3) by (simp add: pipe_start_def)
  then have r: "pipe_step\<^sup>*\<^sup>* (pipe_start small_pipe [1, 2]) ?s" by (rule r_into_rtranclp)
  then show ?thesis using pipe_first_in_first_out[OF small_pipe_ok(1,2) r] by (intro exI[of _ ?s]) simp
qed



text \<open>C28: A process on one CPU writes \<open>n\<close> bytes, at most \<open>PIPESIZE\<close>, to an empty pipe, and then a process on another CPU reads: both calls return \<open>n\<close>, the memory of the reader holds at the
  address it gave the bytes the memory of the writer held at the address it gave, the pipe is empty again, and every process that was sleeping for something to read has been
  made runnable.\<close>

theorem pipe_transfers:
  assumes "running c s" "myproc c (k_pt s) = Some p" "p_killed (procs (k_pt s) p) = 0" "pt_wf (vm_mem (k_vm s)) (p_pagetable (procs (k_pt s) p))"
    and "running c' s" "myproc c' (k_pt s) = Some q" "user_sep (k_vm s) (p_pagetable (procs (k_pt s) q))"
    and "lk_free (pi_lock (k_pipe s pi))" "pipe_inv (k_pipe s pi)" "pi_readopen (k_pipe s pi)" "pipe_empty (k_pipe s pi)" "0 < n" "n \<le> PIPESIZE"
    and "\<forall>j<n. user_ok (k_vm s) (p_pagetable (procs (k_pt s) p)) (a + of_nat j)" "\<forall>j<n. user_ok (k_vm s) (p_pagetable (procs (k_pt s) q)) (b + of_nat j)"
  shows "\<exists>s1 s2. pipewrite c pi a (int n) s = Ret (int n, s1) \<and> piperead c' pi b (int n) s1 = Ret (int n, s2) \<and>
    user_bytes (k_vm s2) (p_pagetable (procs (k_pt s) q)) b n = user_bytes (k_vm s) (p_pagetable (procs (k_pt s) p)) a n \<and>
    pipe_empty (k_pipe s2 pi) \<and>
    (\<forall>i<NPROC. i \<noteq> p \<and> p_state (procs (k_pt s) i) = SLEEPING \<and> p_chan (procs (k_pt s) i) = Some (ChanPipeRead pi) \<longrightarrow> p_state (procs (k_pt s1) i) = RUNNABLE)"
proof -
  let ?A = "p_pagetable (procs (k_pt s) p)" and ?B = "p_pagetable (procs (k_pt s) q)" and ?P = "k_pipe s pi" and ?v = "k_vm s"
  let ?bs = "user_bytes ?v ?A a n"
  let ?s1 = "(upd_pipe pi (pq.puts ?bs) s)\<lparr>k_pt := map_procs (wake (Some p) (Some (ChanPipeRead pi))) NPROC (k_pt s)\<rparr>"
  have e: "pipe_items ?P = []" using assms(9,11) pq.empty_iff by simp
  have w: "pipewrite c pi a (int n) s = Ret (int n, ?s1)" using assms(1-4,8-10,13,14) e by (intro pipewrite_ok) simp_all
  have P1: "k_pipe ?s1 pi = pq.puts ?bs ?P" by (simp add: upd_pipe_def)
  have q1: "pipe_inv (pq.puts ?bs ?P)" "pipe_items (pq.puts ?bs ?P) = ?bs" using pq.puts_items[OF assms(9), of ?bs] e assms(13) by simp_all
  have sim: "pt_sim (k_pt s) (k_pt ?s1)" by (simp add: pt_sim_def map_procs_def wake_def)
  have run1: "running c' ?s1" using running_sim[OF assms(5) sim] .
  have pr1: "myproc c' (k_pt ?s1) = Some q" "p_pagetable (procs (k_pt ?s1) q) = ?B" using pt_sim_sel[OF sim] assms(6) by (simp_all add: myproc_def)
  let ?v2 = "snd (copyout_bytes ?B ?bs b ?v)"
  have "?bs \<noteq> []" using assms(12) user_bytes_length[of ?v ?A a n] by (metis length_0_conv less_numeral_extra(3))
  let ?t = "map_procs (wake (Some q) (Some (ChanPipeWrite pi))) NPROC (k_pt ?s1)"
  have r: "piperead c' pi b (int n) ?s1 = Ret (int n, (upd_pipe pi (\<lambda>p. snd (pq.gets n p)) ?s1)\<lparr>k_vm := ?v2, k_pt := ?t\<rparr>)"
    using piperead_ok[OF run1 pr1(1), of ?B pi n n b] assms(7,8,15) pr1(2) q1 P1 \<open>?bs \<noteq> []\<close> by simp
  let ?s2 = "(upd_pipe pi (\<lambda>p. snd (pq.gets n p)) ?s1)\<lparr>k_vm := ?v2, k_pt := ?t\<rparr>"
  obtain v' where v': "copyout_bytes ?B ?bs b ?v = (0, v')" "upa v' ?B = upa ?v ?B"
    "\<forall>a'. user_ok ?v ?B a' \<longrightarrow> vm_mem v' (upa ?v ?B a') = (if unat (a' - b) < length ?bs then ?bs ! unat (a' - b) else vm_mem ?v (upa ?v ?B a'))"
    by (rule copyout_bytes_effect[OF assms(7), of ?bs b]) (use assms(13,15) in auto)
  have "vm_mem v' (upa v' ?B (b + of_nat j)) = ?bs ! j" if "j < n" for j
  proof -
    have "unat (of_nat j :: u64) = j" using that assms(13) by (simp add: unsigned_of_nat take_bit_nat_eq_self)
    then show ?thesis using v'(2,3) assms(15) that by simp
  qed
  then have "user_bytes v' ?B b n = ?bs" by (intro nth_equalityI) (simp_all add: user_bytes_def)
  moreover have "pipe_items (k_pipe ?s2 pi) = [] \<and> pipe_inv (k_pipe ?s2 pi)" using pq.gets_items[OF q1(1), of n] q1(2) by (simp add: upd_pipe_def)
  then have "pipe_empty (k_pipe ?s2 pi)" using pq.empty_iff by blast
  moreover have "p_state (procs (k_pt ?s1) i) = RUNNABLE"
    if "i < NPROC" "i \<noteq> p" "p_state (procs (k_pt s) i) = SLEEPING" "p_chan (procs (k_pt s) i) = Some (ChanPipeRead pi)" for i
    using that by (simp add: map_procs_def wake_def)
  ultimately show ?thesis using w r v'(1) by (intro exI[of _ ?s1] exI[of _ ?s2]) simp
qed

text \<open>Two processes in the one-page address space, on CPUs 0 and 1.\<close>

definition pipe_kernel :: "vm \<Rightarrow> u64 \<Rightarrow> kernel" where
  "pipe_kernel v A = small_kernel\<lparr>k_vm := v, k_pipe := (\<lambda>_. small_pipe),
     k_pt := small_ptable\<lparr>procs := (\<lambda>_. zero_proc)(0 := zero_proc\<lparr>p_state := RUNNING, p_pagetable := A\<rparr>, 1 := zero_proc\<lparr>p_state := RUNNING, p_pagetable := A\<rparr>),
                         cpu_proc := (\<lambda>_. None)(0 := Some 0, 1 := Some 1)\<rparr>\<rparr>"

theorem pipe_transfers_witness:
  "\<exists>v A s1 s2. pipewrite 0 4096 0 3 (pipe_kernel v A) = Ret (3, s1) \<and> piperead 1 4096 100 3 s1 = Ret (3, s2) \<and> user_bytes (k_vm s2) A 100 3 = user_bytes v A 0 3"
proof -
  obtain v A where e: "user_sep v A" "\<And>a. unat a < PGSIZE \<Longrightarrow> user_ok v A a" by (rule example_user) blast
  let ?s = "pipe_kernel v A"
  have k: "running 0 ?s" "running 1 ?s" "myproc 0 (k_pt ?s) = Some 0" "myproc 1 (k_pt ?s) = Some 1" "k_vm ?s = v" "k_pipe ?s 4096 = small_pipe"
    "p_pagetable (procs (k_pt ?s) 0) = A" "p_pagetable (procs (k_pt ?s) 1) = A" "p_killed (procs (k_pt ?s) 0) = 0"
    by (simp_all add: pipe_kernel_def small_ptable_def running_def locks_free_def myproc_def zero_proc_def lk_free_def zero_ptable_def)
  have u: "\<forall>j<3. user_ok v A (0 + of_nat j)" "\<forall>j<3. user_ok v A (100 + of_nat j)"
    by (auto intro!: e(2) simp: less_Suc_eq numeral_3_eq_3)
  have "lk_free (pi_lock small_pipe)" "pi_readopen small_pipe" by (simp_all add: small_pipe_def)
  then have "\<exists>s1 s2. pipewrite 0 4096 0 (int 3) ?s = Ret (int 3, s1) \<and> piperead 1 4096 100 (int 3) s1 = Ret (int 3, s2) \<and> user_bytes (k_vm s2) A 100 3 = user_bytes v A 0 3"
    using pipe_transfers[OF k(1,3,9) _ k(2,4), of 4096 3 0 100] e(1) u small_pipe_ok(1,2) user_sepD(1)[OF e(1)] unfolding k by fastforce
  then show ?thesis by auto
qed

end
