(* ===== verification/Virtio.thy ===== *)
theory Virtio
  imports Bio
begin

text \<open>
  The disk driver (\<open>kernel/virtio_disk.c\<close>). \<open>virtio_disk_rw\<close> sleeps until the interrupt handler says that the device is done with the
  buffer; it is cut there into \<open>virtio_disk_rw_submit\<close> and \<open>virtio_disk_rw_finish\<close>. Waiting for free descriptors is \<open>Hang\<close>. The word \<open>reserved\<close> of a request, which is always
  zero, is left out.
\<close>

abbreviation NUM :: nat where "NUM \<equiv> 8"
abbreviation VRING_DESC_F_NEXT :: u16 where "VRING_DESC_F_NEXT \<equiv> 1"
abbreviation VRING_DESC_F_WRITE :: u16 where "VRING_DESC_F_WRITE \<equiv> 2"
abbreviation VIRTIO_BLK_T_IN :: u32 where "VIRTIO_BLK_T_IN \<equiv> 0"
abbreviation VIRTIO_BLK_T_OUT :: u32 where "VIRTIO_BLK_T_OUT \<equiv> 1"

abbreviation VIRTIO_MMIO_MAGIC_VALUE :: nat where "VIRTIO_MMIO_MAGIC_VALUE \<equiv> 0x000"
abbreviation VIRTIO_MMIO_VERSION :: nat where "VIRTIO_MMIO_VERSION \<equiv> 0x004"
abbreviation VIRTIO_MMIO_DEVICE_ID :: nat where "VIRTIO_MMIO_DEVICE_ID \<equiv> 0x008"
abbreviation VIRTIO_MMIO_VENDOR_ID :: nat where "VIRTIO_MMIO_VENDOR_ID \<equiv> 0x00c"
abbreviation VIRTIO_MMIO_DEVICE_FEATURES :: nat where "VIRTIO_MMIO_DEVICE_FEATURES \<equiv> 0x010"
abbreviation VIRTIO_MMIO_DRIVER_FEATURES :: nat where "VIRTIO_MMIO_DRIVER_FEATURES \<equiv> 0x020"
abbreviation VIRTIO_MMIO_QUEUE_SEL :: nat where "VIRTIO_MMIO_QUEUE_SEL \<equiv> 0x030"
abbreviation VIRTIO_MMIO_QUEUE_NUM_MAX :: nat where "VIRTIO_MMIO_QUEUE_NUM_MAX \<equiv> 0x034"
abbreviation VIRTIO_MMIO_QUEUE_NUM :: nat where "VIRTIO_MMIO_QUEUE_NUM \<equiv> 0x038"
abbreviation VIRTIO_MMIO_QUEUE_READY :: nat where "VIRTIO_MMIO_QUEUE_READY \<equiv> 0x044"
abbreviation VIRTIO_MMIO_QUEUE_NOTIFY :: nat where "VIRTIO_MMIO_QUEUE_NOTIFY \<equiv> 0x050"
abbreviation VIRTIO_MMIO_INTERRUPT_STATUS :: nat where "VIRTIO_MMIO_INTERRUPT_STATUS \<equiv> 0x060"
abbreviation VIRTIO_MMIO_INTERRUPT_ACK :: nat where "VIRTIO_MMIO_INTERRUPT_ACK \<equiv> 0x064"
abbreviation VIRTIO_MMIO_STATUS :: nat where "VIRTIO_MMIO_STATUS \<equiv> 0x070"
abbreviation VIRTIO_MMIO_QUEUE_DESC_LOW :: nat where "VIRTIO_MMIO_QUEUE_DESC_LOW \<equiv> 0x080"
abbreviation VIRTIO_MMIO_DRIVER_DESC_LOW :: nat where "VIRTIO_MMIO_DRIVER_DESC_LOW \<equiv> 0x090"
abbreviation VIRTIO_MMIO_DEVICE_DESC_LOW :: nat where "VIRTIO_MMIO_DEVICE_DESC_LOW \<equiv> 0x0a0"

definition vdK :: "(vdisk \<Rightarrow> 'a) \<Rightarrow> 'a kop" where
  "vdK f = getK (\<lambda>s. f (k_vd s))"

definition upd_vd :: "(vdisk \<Rightarrow> vdisk) \<Rightarrow> kernel \<Rightarrow> kernel" where
  "upd_vd f s = s\<lparr>k_vd := f (k_vd s)\<rparr>"

definition setvdK :: "(vdisk \<Rightarrow> vdisk) \<Rightarrow> unit kop" where
  "setvdK f = modK (upd_vd f)"

definition acquire_vd :: "nat \<Rightarrow> unit kop" where
  "acquire_vd c = acquireK c (\<lambda>s. vdisk_lock (k_vd s)) (\<lambda>f. upd_vd (vdisk_lock_update f))"

definition release_vd :: "nat \<Rightarrow> unit kop" where
  "release_vd c = releaseK c (\<lambda>s. vdisk_lock (k_vd s)) (\<lambda>f. upd_vd (vdisk_lock_update f))"

section \<open>Registers and initialisation\<close>

text \<open>A write to a register is recorded; what a read returns is up to the device.\<close>

definition vio_write :: "nat \<Rightarrow> u32 \<Rightarrow> unit kop" where
  "vio_write r v = modK (\<lambda>s. s\<lparr>k_plat := (k_plat s)\<lparr>vio_writes := vio_writes (k_plat s) @ [(r, v)]\<rparr>\<rparr>)"

definition vio_read :: "nat \<Rightarrow> u32 kop" where
  "vio_read r = getK (\<lambda>s. vio_answer (k_plat s) (vio_writes (k_plat s)) r)"

text \<open>The features the driver does not want: bits 5, 7, 11, 12, 27, 29 and 28.\<close>

definition driver_features :: "u32 \<Rightarrow> u32" where
  "driver_features f =
    f AND NOT (push_bit 5 1) AND NOT (push_bit 7 1) AND NOT (push_bit 11 1) AND NOT (push_bit 12 1)
      AND NOT (push_bit 27 1) AND NOT (push_bit 29 1) AND NOT (push_bit 28 1)"

definition vio_write64 :: "nat \<Rightarrow> u64 \<Rightarrow> unit kop" where
  "vio_write64 r a = thenK (vio_write r (ucast a)) (vio_write (r + 4) (ucast (drop_bit 32 a)))"

definition virtio_queue_pages :: "nat \<Rightarrow> unit kop" where
  "virtio_queue_pages c =
    bindK (vmvK (kalloc_vm c)) (\<lambda>d.
    bindK (vmvK (kalloc_vm c)) (\<lambda>a.
    bindK (vmvK (kalloc_vm c)) (\<lambda>u.
    thenK (setvdK (\<lambda>v. v\<lparr>vd_desc_page := d, vd_avail_page := a, vd_used_page := u\<rparr>))
      (if d = 0 \<or> a = 0 \<or> u = 0 then panicK ''virtio disk kalloc''
       else setvdK (\<lambda>v. v\<lparr>vd_desc := (\<lambda>_. \<lparr>d_addr = DNull, d_len = 0, d_flags = 0, d_next = 0\<rparr>),
                        va_idx := 0, va_ring := (\<lambda>_. 0), vu_idx := 0, vu_ring := (\<lambda>_. 0)\<rparr>)))))"

definition virtio_disk_init :: "nat \<Rightarrow> unit kop" where
  "virtio_disk_init c =
    thenK (setvdK (vdisk_lock_update (\<lambda>_. initlock ''virtio_disk'')))
    (bindK (vio_read VIRTIO_MMIO_MAGIC_VALUE) (\<lambda>magic. bindK (vio_read VIRTIO_MMIO_VERSION) (\<lambda>version. bindK (vio_read VIRTIO_MMIO_DEVICE_ID) (\<lambda>dev. bindK (vio_read VIRTIO_MMIO_VENDOR_ID) (\<lambda>vendor.
      if magic \<noteq> 0x74726976 \<or> version \<noteq> 2 \<or> dev \<noteq> 2 \<or> vendor \<noteq> 0x554d4551 then panicK ''could not find virtio disk''
      else thenK (vio_write VIRTIO_MMIO_STATUS 0) (thenK (vio_write VIRTIO_MMIO_STATUS 1) (thenK (vio_write VIRTIO_MMIO_STATUS 3)
       (bindK (vio_read VIRTIO_MMIO_DEVICE_FEATURES) (\<lambda>features.
        thenK (vio_write VIRTIO_MMIO_DRIVER_FEATURES (driver_features features)) (thenK (vio_write VIRTIO_MMIO_STATUS 11)
        (bindK (vio_read VIRTIO_MMIO_STATUS) (\<lambda>status.
          if status AND 8 = 0 then panicK ''virtio disk FEATURES_OK unset''
          else thenK (vio_write VIRTIO_MMIO_QUEUE_SEL 0)
           (bindK (vio_read VIRTIO_MMIO_QUEUE_READY) (\<lambda>ready.
             if ready \<noteq> 0 then panicK ''virtio disk should not be ready''
             else bindK (vio_read VIRTIO_MMIO_QUEUE_NUM_MAX) (\<lambda>max.
               if max = 0 then panicK ''virtio disk has no queue 0''
               else if max < of_nat NUM then panicK ''virtio disk max queue too short''
               else thenK (virtio_queue_pages c)
                (thenK (vio_write VIRTIO_MMIO_QUEUE_NUM (of_nat NUM))
                (bindK (vdK id) (\<lambda>v.
                 thenK (vio_write64 VIRTIO_MMIO_QUEUE_DESC_LOW (vd_desc_page v)) (thenK (vio_write64 VIRTIO_MMIO_DRIVER_DESC_LOW (vd_avail_page v)) (thenK (vio_write64 VIRTIO_MMIO_DEVICE_DESC_LOW (vd_used_page v))
                 (thenK (vio_write VIRTIO_MMIO_QUEUE_READY 1)
                 (thenK (setvdK (\<lambda>v. v\<lparr>vd_free := (\<lambda>i. i < NUM)\<rparr>)) (vio_write VIRTIO_MMIO_STATUS (status OR 4))))))))))))))))))))))))"

section \<open>Descriptors\<close>

definition alloc_desc :: "int kop" where
  "alloc_desc =
    bindK (vdK vd_free) (\<lambda>F.
      case find F [0..<NUM] of
        None \<Rightarrow> retK (- 1)
      | Some i \<Rightarrow> thenK (setvdK (\<lambda>v. v\<lparr>vd_free := (vd_free v)(i := False)\<rparr>)) (retK (int i)))"

definition free_desc :: "nat \<Rightarrow> nat \<Rightarrow> unit kop" where
  "free_desc c i =
    (if i \<ge> NUM then panicK ''free_desc 1''
     else bindK (vdK (\<lambda>v. vd_free v i)) (\<lambda>f.
       if f then panicK ''free_desc 2''
       else thenK (setvdK (\<lambda>v. v\<lparr>vd_desc := (vd_desc v)(i := \<lparr>d_addr = DNull, d_len = 0, d_flags = 0, d_next = 0\<rparr>),
                                vd_free := (vd_free v)(i := True)\<rparr>))
           (wakeupK c ChanDisk)))"

text \<open>A chain has at most \<open>NUM\<close> descriptors: following it any further frees one twice.\<close>

primrec free_chain_loop :: "nat \<Rightarrow> nat \<Rightarrow> nat \<Rightarrow> unit kop" where
  "free_chain_loop c 0 i = sleepK"
| "free_chain_loop c (Suc fuel) i =
    bindK (vdK (\<lambda>v. vd_desc v i)) (\<lambda>d.
    thenK (free_desc c i)
      (if d_flags d AND VRING_DESC_F_NEXT \<noteq> 0 then free_chain_loop c fuel (unat (d_next d)) else retK ()))"

definition free_chain :: "nat \<Rightarrow> nat \<Rightarrow> unit kop" where
  "free_chain c i = free_chain_loop c (NUM + 1) i"

text \<open>\<open>alloc3_desc\<close> takes three descriptors, or gives back those it has taken.\<close>

primrec alloc3_loop :: "nat \<Rightarrow> nat \<Rightarrow> nat list \<Rightarrow> nat list option kop" where
  "alloc3_loop c 0 idx = retK (Some idx)"
| "alloc3_loop c (Suc n) idx =
    bindK alloc_desc (\<lambda>i. if i < 0 then thenK (forK idx (free_desc c)) (retK None) else alloc3_loop c n (idx @ [nat i]))"

definition alloc3_desc :: "nat \<Rightarrow> nat list option kop" where
  "alloc3_desc c = alloc3_loop c 3 []"

section \<open>A transfer\<close>

definition set_desc :: "nat \<Rightarrow> virtq_desc \<Rightarrow> unit kop" where
  "set_desc i d = setvdK (\<lambda>v. v\<lparr>vd_desc := (vd_desc v)(i := d)\<rparr>)"

text \<open>The three descriptors of a request, and what the driver notes down about it.\<close>

definition virtio_format :: "nat \<Rightarrow> bool \<Rightarrow> u64 \<Rightarrow> nat list \<Rightarrow> unit kop" where
  "virtio_format b wr sector idx =
    (let i0 = idx ! 0; i1 = idx ! 1; i2 = idx ! 2
     in thenK (setvdK (\<lambda>v. v\<lparr>vd_ops := (vd_ops v)(i0 := \<lparr>rq_type = (if wr then VIRTIO_BLK_T_OUT else VIRTIO_BLK_T_IN), rq_sector = sector\<rparr>)\<rparr>))
       (thenK (set_desc i0 \<lparr>d_addr = OpsAt i0, d_len = 16, d_flags = VRING_DESC_F_NEXT, d_next = of_nat i1\<rparr>)
       (thenK (set_desc i1 \<lparr>d_addr = DataOf b, d_len = of_nat BSIZE, d_flags = (if wr then 0 else VRING_DESC_F_WRITE) OR VRING_DESC_F_NEXT, d_next = of_nat i2\<rparr>)
       (thenK (setvdK (\<lambda>v. v\<lparr>vd_info_status := (vd_info_status v)(i0 := 0xff)\<rparr>))
       (thenK (set_desc i2 \<lparr>d_addr = StatusAt i0, d_len = 1, d_flags = VRING_DESC_F_WRITE, d_next = 0\<rparr>)
       (thenK (setbufK b (b_disk_update (\<lambda>_. True)))
       (setvdK (\<lambda>v. v\<lparr>vd_info_b := (vd_info_b v)(i0 := Some b)\<rparr>))))))))"

text \<open>Up to the point where the process waits for the device; the result is the head of the chain.\<close>

definition virtio_disk_rw_submit :: "nat \<Rightarrow> nat \<Rightarrow> bool \<Rightarrow> nat kop" where
  "virtio_disk_rw_submit c b wr =
    bindK (bufK b b_blockno) (\<lambda>blockno.
    thenK (acquire_vd c)
    (bindK (alloc3_desc c) (\<lambda>r.
      case r of
        None \<Rightarrow> sleepK
      | Some idx \<Rightarrow>
          thenK (virtio_format b wr (of_nat (blockno * (BSIZE div 512) mod 2 ^ 32)) idx)
          (thenK (setvdK (\<lambda>v. v\<lparr>va_ring := (va_ring v)(unat (va_idx v) mod NUM := of_nat (idx ! 0))\<rparr>))
          (thenK (setvdK (\<lambda>v. v\<lparr>va_idx := va_idx v + 1\<rparr>))
          (thenK (vio_write VIRTIO_MMIO_QUEUE_NOTIFY 0)
          (thenK (release_vd c) (retK (idx ! 0)))))))))"

text \<open>From waking up on: the buffer is the caller's again.\<close>

definition virtio_disk_rw_finish :: "nat \<Rightarrow> nat \<Rightarrow> nat \<Rightarrow> unit kop" where
  "virtio_disk_rw_finish c b i0 =
    thenK (acquire_vd c)
    (bindK (bufK b b_disk) (\<lambda>busy.
      if busy then sleepK
      else thenK (setvdK (\<lambda>v. v\<lparr>vd_info_b := (vd_info_b v)(i0 := None)\<rparr>))
          (thenK (free_chain c i0) (release_vd c))))"

section \<open>The interrupt\<close>

text \<open>An id the device makes up indexes outside \<open>info\<close>.\<close>

primrec virtio_intr_loop :: "nat \<Rightarrow> nat \<Rightarrow> unit kop" where
  "virtio_intr_loop c 0 = sleepK"
| "virtio_intr_loop c (Suc fuel) =
    bindK (vdK id) (\<lambda>v.
      if vd_used_idx v = vu_idx v then retK ()
      else let i = unat (vu_ring v (unat (vd_used_idx v) mod NUM))
           in if i \<ge> NUM then faultK
              else if vd_info_status v i \<noteq> 0 then panicK ''virtio_disk_intr status''
              else (case vd_info_b v i of
                 None \<Rightarrow> faultK
               | Some b \<Rightarrow>
                   thenK (setbufK b (b_disk_update (\<lambda>_. False)))
                   (thenK (wakeupK c (ChanBuf b))
                   (thenK (setvdK (\<lambda>v. v\<lparr>vd_used_idx := vd_used_idx v + 1\<rparr>)) (virtio_intr_loop c fuel)))))"

definition virtio_disk_intr :: "nat \<Rightarrow> unit kop" where
  "virtio_disk_intr c =
    thenK (acquire_vd c)
    (thenK (bindK (vio_read VIRTIO_MMIO_INTERRUPT_STATUS) (\<lambda>st. vio_write VIRTIO_MMIO_INTERRUPT_ACK (st AND 0x3)))
    (bindK (vdK id) (\<lambda>v.
     thenK (virtio_intr_loop c (unat (vu_idx v - vd_used_idx v) + 1)) (release_vd c))))"

end
