(* ===== verification/Virtio_Correct.thy ===== *)
theory Virtio_Correct
  imports Virtio Sleeplock_Laws Ring_Buffer
begin

text \<open>
  What the disk driver guarantees while several requests are under way: the chains of descriptors of different requests are disjoint, the rings do not
  overflow, and nothing the driver does panics, whatever the order in which requests are submitted, completed by the device and picked up.
\<close>

section \<open>Descriptors\<close>

definition vdheld :: "nat \<Rightarrow> kernel \<Rightarrow> kernel" where
  "vdheld c = upd_vd (vdisk_lock_update (held c))"

lemma acquire_vd_free: "lk_free (vdisk_lock (k_vd s)) \<Longrightarrow> acquire_vd c s = Ret ((), vdheld c s)"
  by (simp add: acquire_vd_def acquireK_def vdheld_def upd_vd_def held_def)

lemma release_vdheld: "lk_free (vdisk_lock (k_vd s)) \<Longrightarrow> release_vd c (vdheld c s) = Ret ((), s)"
  by (simp add: release_vd_def releaseK_def vdheld_def upd_vd_def held_def)

text \<open>Updates of the driver's state that leave the lock alone commute with taking it.\<close>

definition lock_blind :: "(vdisk \<Rightarrow> vdisk) \<Rightarrow> bool" where
  "lock_blind f \<longleftrightarrow> (\<forall>v g. f (vdisk_lock_update g v) = vdisk_lock_update g (f v)) \<and> (\<forall>v. vdisk_lock (f v) = vdisk_lock v)"

lemma vdheld_upd: "lock_blind f \<Longrightarrow> upd_vd f (vdheld c s) = vdheld c (upd_vd f s)"
  by (simp add: vdheld_def upd_vd_def lock_blind_def)

lemma vdheld_simps [simp]:
  "k_pt (vdheld c s) = k_pt s" "k_bc (vdheld c s) = k_bc s" "k_disk (vdheld c s) = k_disk s" "k_plat (vdheld c s) = k_plat s" "k_trace (vdheld c s) = k_trace s"
  "vd_free (k_vd (vdheld c s)) = vd_free (k_vd s)" "vd_desc (k_vd (vdheld c s)) = vd_desc (k_vd s)" "vu_idx (k_vd (vdheld c s)) = vu_idx (k_vd s)"
  "vd_used_idx (k_vd (vdheld c s)) = vd_used_idx (k_vd s)" "vu_ring (k_vd (vdheld c s)) = vu_ring (k_vd s)"
  "vd_info_status (k_vd (vdheld c s)) = vd_info_status (k_vd s)" "vd_info_b (k_vd (vdheld c s)) = vd_info_b (k_vd s)"
  "vdheld c (s\<lparr>k_pt := t\<rparr>) = (vdheld c s)\<lparr>k_pt := t\<rparr>" "upd_buf b g (vdheld c s) = vdheld c (upd_buf b g s)"
  by (simp_all add: vdheld_def upd_vd_def upd_buf_def)

lemma upd_vd_simps [simp]:
  "k_pt (upd_vd f s) = k_pt s" "k_bc (upd_vd f s) = k_bc s" "k_disk (upd_vd f s) = k_disk s" "k_trace (upd_vd f s) = k_trace s" "k_vd (upd_vd f s) = f (k_vd s)"
  "k_plat (upd_vd f s) = k_plat s" "upd_vd f (s\<lparr>k_pt := t\<rparr>) = (upd_vd f s)\<lparr>k_pt := t\<rparr>" "upd_vd f (upd_vd g s) = upd_vd (f \<circ> g) s"
  "upd_vd f (upd_buf b h s) = upd_buf b h (upd_vd f s)"
  by (simp_all add: upd_vd_def upd_buf_def)

definition take_desc :: "nat \<Rightarrow> vdisk \<Rightarrow> vdisk" where
  "take_desc i v = v\<lparr>vd_free := (vd_free v)(i := False)\<rparr>"

definition give_desc :: "nat \<Rightarrow> vdisk \<Rightarrow> vdisk" where
  "give_desc i v = v\<lparr>vd_desc := (vd_desc v)(i := \<lparr>d_addr = DNull, d_len = 0, d_flags = 0, d_next = 0\<rparr>), vd_free := (vd_free v)(i := True)\<rparr>"

lemma find_filter: "find P xs = (case filter P xs of [] \<Rightarrow> None | x # _ \<Rightarrow> Some x)"
  by (induction xs) (auto split: list.splits)

lemma alloc_desc_run:
  "alloc_desc s = (case filter (vd_free (k_vd s)) [0..<NUM] of [] \<Rightarrow> Ret (- 1, s) | i # _ \<Rightarrow> Ret (int i, upd_vd (take_desc i) s))"
  by (simp add: alloc_desc_def kop_simps vdK_def find_filter setvdK_def take_desc_def[abs_def] del: upt_rec_numeral split: list.splits)

lemma filter_take: "filter (vd_free v) xs = i # is \<Longrightarrow> distinct xs \<Longrightarrow> filter (vd_free (take_desc i v)) xs = is"
proof -
  assume f: "filter (vd_free v) xs = i # is" and d: "distinct xs"
  have "filter (vd_free (take_desc i v)) xs = filter (\<lambda>j. j \<noteq> i) (filter (vd_free v) xs)"
    unfolding filter_filter by (rule filter_cong) (auto simp: take_desc_def)
  also have "\<dots> = is" using distinct_filter[OF d, of "vd_free v"] f by (auto simp: filter_id_conv)
  finally show ?thesis .
qed

lemma wakeup_free:
  assumes "locks_free (k_pt s)"
  shows "\<exists>t. wakeupK c ch s = Ret ((), s\<lparr>k_pt := t\<rparr>) \<and> pt_sim (k_pt s) t"
proof -
  let ?t = "map_procs (wake (myproc c (k_pt s)) (Some ch)) NPROC (k_pt s)"
  have "wakeup c (Some ch) (k_pt s) = Ret ?t" using assms by (intro wakeup_ok) (simp add: locks_free_def)
  moreover have "pt_sim (k_pt s) ?t" by (simp add: pt_sim_def map_procs_def wake_def)
  ultimately show ?thesis by (auto simp: wakeupK_def ptK_def)
qed

lemma locks_free_sim: "pt_sim t t' \<Longrightarrow> locks_free t \<Longrightarrow> locks_free t'"
  using pt_sim_sel[of t t'] by (simp add: locks_free_def)

lemma free_desc_run:
  assumes "i < NUM" "\<not> vd_free (k_vd s) i" "locks_free (k_pt s)"
  shows "\<exists>t. free_desc c i s = Ret ((), (upd_vd (give_desc i) s)\<lparr>k_pt := t\<rparr>) \<and> pt_sim (k_pt s) t"
proof -
  from wakeup_free[of "upd_vd (give_desc i) s" c ChanDisk] assms(3) obtain t where
    "wakeupK c ChanDisk (upd_vd (give_desc i) s) = Ret ((), (upd_vd (give_desc i) s)\<lparr>k_pt := t\<rparr>)" "pt_sim (k_pt s) t" by auto
  then show ?thesis using assms(1,2) by (auto simp: free_desc_def kop_simps vdK_def setvdK_def give_desc_def[abs_def] intro!: exI[of _ t])
qed

lemma alloc3_some:
  assumes "filter (vd_free (k_vd s)) [0..<NUM] = i0 # i1 # i2 # rest"
  shows "alloc3_desc c s = Ret (Some [i0, i1, i2], upd_vd (take_desc i2 \<circ> take_desc i1 \<circ> take_desc i0) s)"
proof -
  let ?v = "k_vd s"
  have 1: "filter (vd_free (take_desc i0 ?v)) [0..<NUM] = i1 # i2 # rest" by (rule filter_take[OF assms]) simp
  have 2: "filter (vd_free (take_desc i1 (take_desc i0 ?v))) [0..<NUM] = i2 # rest" by (rule filter_take[OF 1]) simp
  show ?thesis using assms 1 2 by (simp add: alloc3_desc_def numeral_3_eq_3 bindK_def alloc_desc_run retK_def comp_assoc del: upt_rec_numeral)
qed

lemma alloc3_none:
  assumes "length (filter (vd_free (k_vd s)) [0..<NUM]) < 3" "locks_free (k_pt s)"
  shows "\<exists>s'. alloc3_desc c s = Ret (None, s')"
proof -
  let ?v = "k_vd s"
  consider "filter (vd_free ?v) [0..<NUM] = []" | i0 where "filter (vd_free ?v) [0..<NUM] = [i0]" | i0 i1 where "filter (vd_free ?v) [0..<NUM] = [i0, i1]"
    using assms(1) by (cases "filter (vd_free ?v) [0..<NUM]" rule: list.exhaust; force simp: length_Suc_conv less_Suc_eq numeral_3_eq_3)
  then show ?thesis
  proof cases
    case 1
    then show ?thesis by (simp add: alloc3_desc_def numeral_3_eq_3 bindK_def alloc_desc_run retK_def thenK_def del: upt_rec_numeral)
  next
    case 2
    then have f: "filter (vd_free (take_desc i0 ?v)) [0..<NUM] = []" by (rule filter_take) simp
    have "i0 \<in> set (filter (vd_free ?v) [0..<NUM])" using 2 by simp
    then have "i0 < NUM" by simp
    with free_desc_run[of i0 "upd_vd (take_desc i0) s" c] assms(2) obtain s' where "free_desc c i0 (upd_vd (take_desc i0) s) = Ret ((), s')"
      by (auto simp: take_desc_def)
    then show ?thesis using 2 f by (simp add: alloc3_desc_def numeral_3_eq_3 bindK_def alloc_desc_run retK_def thenK_def del: upt_rec_numeral)
  next
    case 3
    then have f: "filter (vd_free (take_desc i0 ?v)) [0..<NUM] = [i1]" by (rule filter_take) simp
    then have g: "filter (vd_free (take_desc i1 (take_desc i0 ?v))) [0..<NUM] = []" by (rule filter_take) simp
    have "i0 \<in> set (filter (vd_free ?v) [0..<NUM])" "i1 \<in> set (filter (vd_free ?v) [0..<NUM])" "i0 \<noteq> i1"
      using 3 distinct_filter[of "[0..<NUM]" "vd_free ?v"] by simp_all
    then have i: "i0 < NUM" "i1 < NUM" "i0 \<noteq> i1" by simp_all
    let ?s = "upd_vd (take_desc i1 \<circ> take_desc i0) s"
    have "\<exists>t. free_desc c i0 ?s = Ret ((), (upd_vd (give_desc i0) ?s)\<lparr>k_pt := t\<rparr>) \<and> pt_sim (k_pt ?s) t"
      using i assms(2) by (intro free_desc_run) (simp_all add: take_desc_def)
    then obtain t where t: "free_desc c i0 ?s = Ret ((), (upd_vd (give_desc i0) ?s)\<lparr>k_pt := t\<rparr>)" "pt_sim (k_pt s) t" by auto
    let ?s1 = "(upd_vd (give_desc i0) ?s)\<lparr>k_pt := t\<rparr>"
    have "\<exists>t. free_desc c i1 ?s1 = Ret ((), (upd_vd (give_desc i1) ?s1)\<lparr>k_pt := t\<rparr>) \<and> pt_sim (k_pt ?s1) t"
      using i locks_free_sim[OF t(2) assms(2)] by (intro free_desc_run) (simp_all add: take_desc_def give_desc_def upd_vd_def)
    then obtain s2 where "free_desc c i1 ?s1 = Ret ((), s2)" by blast
    then show ?thesis using 3 f g t(1) by (simp add: alloc3_desc_def numeral_3_eq_3 bindK_def alloc_desc_run retK_def thenK_def comp_def del: upt_rec_numeral)
  qed
qed

section \<open>Requests under way\<close>

datatype vphase = Pending | Completed | Seen

record vreq =
  vr_b :: nat
  vr_wr :: bool
  vr_phase :: vphase

definition vchain :: "vdisk \<Rightarrow> nat \<Rightarrow> nat list" where
  "vchain v h = (let i1 = unat (d_next (vd_desc v h)); i2 = unat (d_next (vd_desc v i1)) in [h, i1, i2])"

definition sector_of :: "nat \<Rightarrow> u64" where
  "sector_of n = of_nat (n * (BSIZE div 512) mod 2 ^ 32)"

definition req_type :: "bool \<Rightarrow> u32" where
  "req_type wr = (if wr then VIRTIO_BLK_T_OUT else VIRTIO_BLK_T_IN)"

text \<open>What the tables say about a request with head \<open>h\<close>, in a state whose buffers are \<open>B\<close>.\<close>

definition req_ok :: "vdisk \<Rightarrow> (nat \<Rightarrow> buf) \<Rightarrow> nat \<Rightarrow> vreq \<Rightarrow> bool" where
  "req_ok v B h r \<longleftrightarrow> (let i1 = vchain v h ! 1; i2 = vchain v h ! 2 in
    distinct (vchain v h) \<and> set (vchain v h) \<subseteq> {..<NUM} \<and>
    vd_desc v h = \<lparr>d_addr = OpsAt h, d_len = 16, d_flags = VRING_DESC_F_NEXT, d_next = of_nat i1\<rparr> \<and>
    vd_desc v i1 = \<lparr>d_addr = DataOf (vr_b r), d_len = of_nat BSIZE, d_flags = (if vr_wr r then 0 else VRING_DESC_F_WRITE) OR VRING_DESC_F_NEXT, d_next = of_nat i2\<rparr> \<and>
    vd_desc v i2 = \<lparr>d_addr = StatusAt h, d_len = 1, d_flags = VRING_DESC_F_WRITE, d_next = 0\<rparr> \<and>
    vd_ops v h = \<lparr>rq_type = req_type (vr_wr r), rq_sector = sector_of (b_blockno (B (vr_b r)))\<rparr> \<and>
    vd_info_b v h = Some (vr_b r) \<and> (vr_phase r \<noteq> Pending \<longrightarrow> vd_info_status v h = 0) \<and> b_disk (B (vr_b r)) = (vr_phase r \<noteq> Seen))"

definition used_list :: "vdisk \<Rightarrow> nat list" where
  "used_list v = ring_items NUM (map (\<lambda>i. unat (vu_ring v i)) [0..<NUM]) (vd_used_idx v) (vu_idx v)"

definition busy_descs :: "vdisk \<Rightarrow> (nat \<Rightarrow> vreq option) \<Rightarrow> nat set" where
  "busy_descs v R = (\<Union>h\<in>dom R. set (vchain v h))"

definition vd_inv :: "kernel \<Rightarrow> (nat \<Rightarrow> vreq option) \<Rightarrow> bool" where
  "vd_inv s R \<longleftrightarrow> (let v = k_vd s; B = bc_buf (k_bc s) in
    lk_free (vdisk_lock v) \<and> locks_free (k_pt s) \<and>
    (\<forall>h r. R h = Some r \<longrightarrow> req_ok v B h r) \<and>
    (\<forall>h h' r r'. R h = Some r \<longrightarrow> R h' = Some r' \<longrightarrow> h \<noteq> h' \<longrightarrow> set (vchain v h) \<inter> set (vchain v h') = {} \<and> vr_b r \<noteq> vr_b r') \<and>
    (\<forall>i. vd_free v i \<longleftrightarrow> i < NUM \<and> i \<notin> busy_descs v R) \<and>
    distinct (used_list v) \<and> (\<forall>h. h \<in> set (used_list v) \<longleftrightarrow> (\<exists>r. R h = Some r \<and> vr_phase r = Completed)))"

lemma vd_invD:
  assumes "vd_inv s R"
  shows "lk_free (vdisk_lock (k_vd s))" "locks_free (k_pt s)" "R h = Some r \<Longrightarrow> req_ok (k_vd s) (bc_buf (k_bc s)) h r"
    "R h = Some r \<Longrightarrow> R h' = Some r' \<Longrightarrow> h \<noteq> h' \<Longrightarrow> set (vchain (k_vd s) h) \<inter> set (vchain (k_vd s) h') = {} \<and> vr_b r \<noteq> vr_b r'"
    "vd_free (k_vd s) i \<longleftrightarrow> i < NUM \<and> i \<notin> busy_descs (k_vd s) R" "distinct (used_list (k_vd s))"
    "h \<in> set (used_list (k_vd s)) \<longleftrightarrow> (\<exists>r. R h = Some r \<and> vr_phase r = Completed)"
  using assms unfolding vd_inv_def Let_def by blast+

lemma vchain_hd [simp]: "vchain v h ! 0 = h" "h \<in> set (vchain v h)"
  by (simp_all add: vchain_def Let_def)

lemma req_okD:
  assumes "req_ok v B h r"
  shows "distinct (vchain v h)" "set (vchain v h) \<subseteq> {..<NUM}" "h < NUM"
  using assms vchain_hd(2)[of h v] unfolding req_ok_def Let_def by blast+

text \<open>What happens elsewhere does not matter to a request.\<close>

lemma vchain_frame: "(\<And>i. i \<in> set (vchain v h) \<Longrightarrow> vd_desc v' i = vd_desc v i) \<Longrightarrow> vchain v' h = vchain v h"
  by (simp add: vchain_def Let_def)

lemma req_ok_frame:
  assumes "\<And>i. i \<in> set (vchain v h) \<Longrightarrow> vd_desc v' i = vd_desc v i" "vd_ops v' h = vd_ops v h" "vd_info_b v' h = vd_info_b v h"
    "vd_info_status v' h = vd_info_status v h" "b_disk (B' (vr_b r)) = b_disk (B (vr_b r))" "b_blockno (B' (vr_b r)) = b_blockno (B (vr_b r))"
  shows "req_ok v' B' h r = req_ok v B h r"
proof -
  have c: "vchain v' h = vchain v h" using assms(1) by (rule vchain_frame)
  have "vd_desc v' h = vd_desc v h" "vd_desc v' (vchain v h ! 1) = vd_desc v (vchain v h ! 1)" "vd_desc v' (vchain v h ! 2) = vd_desc v (vchain v h ! 2)"
    using assms(1) by (simp_all add: vchain_def Let_def)
  then show ?thesis unfolding req_ok_def c assms(2-6) by simp
qed

text \<open>At most two requests fit.\<close>

lemma few_requests:
  assumes "vd_inv s R"
  shows "finite (dom R)" "3 * card (dom R) \<le> NUM"
proof -
  let ?v = "k_vd s"
  have sub: "dom R \<subseteq> {..<NUM}" using vd_invD(3)[OF assms] req_okD(3) by blast
  then show fin: "finite (dom R)" using finite_subset by blast
  have c3: "card (set (vchain ?v h)) = 3" if "h \<in> dom R" for h
    using that vd_invD(3)[OF assms] req_okD(1) distinct_card[of "vchain ?v h"] by (fastforce simp: vchain_def Let_def)
  have "card (busy_descs ?v R) = (\<Sum>h\<in>dom R. card (set (vchain ?v h)))"
    unfolding busy_descs_def using fin vd_invD(4)[OF assms] by (intro card_UN_disjoint) (auto simp: dom_def, blast)
  also have "\<dots> = 3 * card (dom R)" using c3 by simp
  finally have "3 * card (dom R) = card (busy_descs ?v R)" by simp
  also have "\<dots> \<le> card {..<NUM}" using vd_invD(3)[OF assms] req_okD(2) by (intro card_mono) (auto simp: busy_descs_def, blast)
  finally show "3 * card (dom R) \<le> NUM" by simp
qed

lemma used_few:
  assumes "vd_inv s R"
  shows "length (used_list (k_vd s)) \<le> 2" "unat (vu_idx (k_vd s) - vd_used_idx (k_vd s)) \<le> 2"
proof -
  have "set (used_list (k_vd s)) \<subseteq> dom R" using vd_invD(7)[OF assms] by blast
  then have "card (set (used_list (k_vd s))) \<le> card (dom R)" using few_requests(1)[OF assms] by (rule card_mono[rotated])
  then show "length (used_list (k_vd s)) \<le> 2" using distinct_card[OF vd_invD(6)[OF assms]] few_requests(2)[OF assms] by simp
  then show "unat (vu_idx (k_vd s) - vd_used_idx (k_vd s)) \<le> 2" by (simp add: used_list_def)
qed

section \<open>Submitting\<close>

definition submit_vd :: "nat \<Rightarrow> bool \<Rightarrow> nat \<Rightarrow> nat \<Rightarrow> nat \<Rightarrow> nat \<Rightarrow> vdisk \<Rightarrow> vdisk" where
  "submit_vd b wr n i0 i1 i2 v = v\<lparr>vd_free := (vd_free v)(i0 := False, i1 := False, i2 := False),
     vd_ops := (vd_ops v)(i0 := \<lparr>rq_type = req_type wr, rq_sector = sector_of n\<rparr>),
     vd_desc := (vd_desc v)(i0 := \<lparr>d_addr = OpsAt i0, d_len = 16, d_flags = VRING_DESC_F_NEXT, d_next = of_nat i1\<rparr>,
       i1 := \<lparr>d_addr = DataOf b, d_len = of_nat BSIZE, d_flags = (if wr then 0 else VRING_DESC_F_WRITE) OR VRING_DESC_F_NEXT, d_next = of_nat i2\<rparr>,
       i2 := \<lparr>d_addr = StatusAt i0, d_len = 1, d_flags = VRING_DESC_F_WRITE, d_next = 0\<rparr>),
     vd_info_status := (vd_info_status v)(i0 := 0xff), vd_info_b := (vd_info_b v)(i0 := Some b),
     va_ring := (va_ring v)(unat (va_idx v) mod NUM := of_nat i0), va_idx := va_idx v + 1\<rparr>"

definition notify :: "kernel \<Rightarrow> kernel" where
  "notify s = s\<lparr>k_plat := (k_plat s)\<lparr>vio_writes := vio_writes (k_plat s) @ [(VIRTIO_MMIO_QUEUE_NOTIFY, 0)]\<rparr>\<rparr>"

lemma submit_run:
  assumes "lk_free (vdisk_lock (k_vd s))" "filter (vd_free (k_vd s)) [0..<NUM] = i0 # i1 # i2 # rest"
  shows "virtio_disk_rw_submit c b wr s =
    Ret (i0, upd_buf b (b_disk_update (\<lambda>_. True)) (upd_vd (submit_vd b wr (b_blockno (bc_buf (k_bc s) b)) i0 i1 i2) (notify s)))"
proof -
  let ?n = "b_blockno (bc_buf (k_bc s) b)"
  have a: "alloc3_desc c (vdheld c s) = Ret (Some [i0, i1, i2], upd_vd (take_desc i2 \<circ> take_desc i1 \<circ> take_desc i0) (vdheld c s))"
    using assms(2) by (intro alloc3_some) simp
  let ?t = "upd_buf b (b_disk_update (\<lambda>_. True)) (upd_vd (submit_vd b wr ?n i0 i1 i2) (notify s))"
  let ?s0 = "upd_vd (take_desc i2 \<circ> take_desc i1 \<circ> take_desc i0) (vdheld c s)"
  obtain s1 where s1: "virtio_format b wr (sector_of ?n) [i0, i1, i2] ?s0 = Ret ((), s1)"
    "s1\<lparr>k_vd := (k_vd s1)\<lparr>va_ring := (va_ring (k_vd s1))(unat (va_idx (k_vd s1)) mod NUM := of_nat i0), va_idx := va_idx (k_vd s1) + 1\<rparr>,
        k_plat := (k_plat s1)\<lparr>vio_writes := vio_writes (k_plat s1) @ [(VIRTIO_MMIO_QUEUE_NOTIFY, 0)]\<rparr>\<rparr> = vdheld c ?t"
    by (simp add: virtio_format_def thenK_def setvdK_def set_desc_def setbufK_def modK_def upd_vd_def upd_buf_def vdheld_def notify_def
        take_desc_def submit_vd_def req_type_def comp_def)
  have "release_vd c (vdheld c ?t) = Ret ((), ?t)" using assms(1) by (intro release_vdheld) (simp add: submit_vd_def upd_buf_def notify_def)
  then show ?thesis using a s1 assms(1)
    by (simp add: virtio_disk_rw_submit_def bindK_def bufK_def getK_def acquire_vd_free thenK_def retK_def setvdK_def vio_write_def modK_def upd_vd_def
        sector_of_def)
qed

text \<open>Changing one request, when nothing else changes for the others.\<close>

definition others_same :: "kernel \<Rightarrow> kernel \<Rightarrow> (nat \<Rightarrow> vreq option) \<Rightarrow> nat \<Rightarrow> bool" where
  "others_same s s' R h \<longleftrightarrow> (\<forall>g r. R g = Some r \<longrightarrow> g \<noteq> h \<longrightarrow>
    (\<forall>i\<in>set (vchain (k_vd s) g). vd_desc (k_vd s') i = vd_desc (k_vd s) i) \<and> vd_ops (k_vd s') g = vd_ops (k_vd s) g \<and>
    vd_info_b (k_vd s') g = vd_info_b (k_vd s) g \<and> vd_info_status (k_vd s') g = vd_info_status (k_vd s) g \<and>
    b_disk (bc_buf (k_bc s') (vr_b r)) = b_disk (bc_buf (k_bc s) (vr_b r)) \<and> b_blockno (bc_buf (k_bc s') (vr_b r)) = b_blockno (bc_buf (k_bc s) (vr_b r)))"

lemma others_chain: "others_same s s' R h \<Longrightarrow> R g = Some r \<Longrightarrow> g \<noteq> h \<Longrightarrow> vchain (k_vd s') g = vchain (k_vd s) g"
  by (rule vchain_frame) (auto simp: others_same_def)

lemma busy_change:
  assumes "others_same s s' R h"
  shows "busy_descs (k_vd s') (R(h := x)) = (\<Union>g\<in>dom R - {h}. set (vchain (k_vd s) g)) \<union> (if x = None then {} else set (vchain (k_vd s') h))"
proof -
  have "dom (R(h := x)) = (dom R - {h}) \<union> (if x = None then {} else {h})" by auto
  moreover have "vchain (k_vd s') g = vchain (k_vd s) g" if "g \<in> dom R - {h}" for g using others_chain[OF assms] that by auto
  ultimately show ?thesis unfolding busy_descs_def by simp
qed

lemma vd_inv_change:
  assumes inv: "vd_inv s R" and lks: "lk_free (vdisk_lock (k_vd s'))" "locks_free (k_pt s')" and same: "others_same s s' R h"
    and new: "\<And>r. x = Some r \<Longrightarrow> req_ok (k_vd s') (bc_buf (k_bc s')) h r \<and>
      (\<forall>g r'. R g = Some r' \<longrightarrow> g \<noteq> h \<longrightarrow> set (vchain (k_vd s') h) \<inter> set (vchain (k_vd s) g) = {} \<and> vr_b r \<noteq> vr_b r')"
    and free: "\<And>i. vd_free (k_vd s') i \<longleftrightarrow> i < NUM \<and> i \<notin> (\<Union>g\<in>dom R - {h}. set (vchain (k_vd s) g)) \<and> (x \<noteq> None \<longrightarrow> i \<notin> set (vchain (k_vd s') h))"
    and used: "distinct (used_list (k_vd s'))" "\<And>g. g \<in> set (used_list (k_vd s')) \<longleftrightarrow> (\<exists>r. (R(h := x)) g = Some r \<and> vr_phase r = Completed)"
  shows "vd_inv s' (R(h := x))"
proof -
  let ?v = "k_vd s" and ?v' = "k_vd s'" and ?R = "R(h := x)"
  have ok: "req_ok ?v' (bc_buf (k_bc s')) g r" if "?R g = Some r" for g r
  proof (cases "g = h")
    case False
    then have g: "R g = Some r" using that by simp
    then have "req_ok ?v' (bc_buf (k_bc s')) g r = req_ok ?v (bc_buf (k_bc s)) g r" using same False by (intro req_ok_frame) (auto simp: others_same_def)
    then show ?thesis using vd_invD(3)[OF inv g] by simp
  qed (use new that in auto)
  have apart: "set (vchain ?v' g) \<inter> set (vchain ?v' g') = {} \<and> vr_b r \<noteq> vr_b r'" if "?R g = Some r" "?R g' = Some r'" and ne: "g \<noteq> g'" for g g' r r'
  proof -
    consider "g = h" "g' \<noteq> h" | "g \<noteq> h" "g' = h" | "g \<noteq> h" "g' \<noteq> h" using ne by blast
    then show ?thesis
    proof cases
      case 1
      then show ?thesis using new[of r] that others_chain[OF same, of g' r'] by auto
    next
      case 2
      then have "set (vchain ?v' h) \<inter> set (vchain ?v g) = {} \<and> vr_b r' \<noteq> vr_b r" using new[of r'] that by simp
      then show ?thesis using 2 that others_chain[OF same, of g r] by auto
    next
      case 3
      then show ?thesis using vd_invD(4)[OF inv, of g r g' r'] that others_chain[OF same, of g r] others_chain[OF same, of g' r'] by simp
    qed
  qed
  have "\<forall>i. vd_free ?v' i \<longleftrightarrow> i < NUM \<and> i \<notin> busy_descs ?v' ?R" unfolding busy_change[OF same] using free by auto
  then show ?thesis unfolding vd_inv_def Let_def using lks ok apart used by blast
qed

lemma busy_split: "h \<in> dom R \<Longrightarrow> busy_descs v R = (\<Union>g\<in>dom R - {h}. set (vchain v g)) \<union> set (vchain v h)"
  by (auto simp: busy_descs_def)

lemma unat_of_desc: "i < NUM \<Longrightarrow> unat (of_nat i :: u16) = i" "i < NUM \<Longrightarrow> unat (of_nat i :: u32) = i"
  by (simp_all add: unsigned_of_nat take_bit_nat_eq_self)

lemma submit_ok:
  assumes inv: "vd_inv s R" and b: "\<And>h r. R h = Some r \<Longrightarrow> vr_b r \<noteq> b"
  shows "virtio_disk_rw_submit c b wr s = Hang \<or>
    (\<exists>h s'. virtio_disk_rw_submit c b wr s = Ret (h, s') \<and> R h = None \<and> vd_inv s' (R(h \<mapsto> \<lparr>vr_b = b, vr_wr = wr, vr_phase = Pending\<rparr>)) \<and>
      k_disk s' = k_disk s \<and> k_trace s' = k_trace s \<and> bc_buf (k_bc s') = (bc_buf (k_bc s))(b := (bc_buf (k_bc s) b)\<lparr>b_disk := True\<rparr>))"
proof (cases "length (filter (vd_free (k_vd s)) [0..<NUM]) < 3")
  case True
  then obtain s1 where "alloc3_desc c (vdheld c s) = Ret (None, s1)" using alloc3_none[of "vdheld c s" c] vd_invD(2)[OF inv] by auto
  then show ?thesis using acquire_vd_free[OF vd_invD(1)[OF inv], of c]
    by (simp add: virtio_disk_rw_submit_def bindK_def bufK_def getK_def thenK_def sleepK_def)
next
  case False
  then obtain i0 i1 i2 rest where fl: "filter (vd_free (k_vd s)) [0..<NUM] = i0 # i1 # i2 # rest"
    by (auto simp: not_less numeral_3_eq_3 Suc_le_length_iff)
  let ?v = "k_vd s" and ?n = "b_blockno (bc_buf (k_bc s) b)"
  have "{i0, i1, i2} \<subseteq> set (filter (vd_free ?v) [0..<NUM])" using fl by simp
  then have fr: "i0 < NUM" "i1 < NUM" "i2 < NUM" "vd_free ?v i0" "vd_free ?v i1" "vd_free ?v i2" by auto
  have d: "i0 \<noteq> i1" "i0 \<noteq> i2" "i1 \<noteq> i2" using distinct_filter[of "[0..<NUM]" "vd_free ?v"] fl by auto
  define s' where "s' = upd_buf b (b_disk_update (\<lambda>_. True)) (upd_vd (submit_vd b wr ?n i0 i1 i2) (notify s))"
  let ?r = "\<lparr>vr_b = b, vr_wr = wr, vr_phase = Pending\<rparr>"
  have run: "virtio_disk_rw_submit c b wr s = Ret (i0, s')" using submit_run[OF vd_invD(1)[OF inv] fl] by (simp add: s'_def)
  have vd': "k_vd s' = submit_vd b wr ?n i0 i1 i2 ?v" by (simp add: s'_def upd_buf_def notify_def)
  have bf': "bc_buf (k_bc s') = (bc_buf (k_bc s))(b := (bc_buf (k_bc s) b)\<lparr>b_disk := True\<rparr>)" by (simp add: s'_def upd_buf_def notify_def)
  have idle: "i \<notin> busy_descs ?v R" if "i \<in> {i0, i1, i2}" for i using that fr vd_invD(5)[OF inv] by auto
  have none: "R i0 = None" using idle[of i0] by (auto simp: busy_descs_def dom_def)
  have ch: "vchain (k_vd s') i0 = [i0, i1, i2]" using d fr by (simp add: vchain_def vd' submit_vd_def unat_of_desc)
  have out: "i \<noteq> i0 \<and> i \<noteq> i1 \<and> i \<noteq> i2" if "i \<in> set (vchain ?v g)" "R g = Some r" for i g r
  proof -
    have "i \<in> busy_descs ?v R" using that by (auto simp: busy_descs_def dom_def)
    then show ?thesis using idle by blast
  qed
  have same: "others_same s s' R i0"
    unfolding others_same_def vd' bf' using out b vchain_hd(2) by (auto simp: submit_vd_def)
  have rq: "req_ok (k_vd s') (bc_buf (k_bc s')) i0 ?r"
    using d fr unfolding req_ok_def Let_def ch by (simp add: vd' bf' submit_vd_def)
  have "vd_inv s' (R(i0 := Some ?r))"
  proof (rule vd_inv_change[OF inv _ _ same])
    show "lk_free (vdisk_lock (k_vd s'))" "locks_free (k_pt s')" using vd_invD(1,2)[OF inv] by (simp_all add: vd' submit_vd_def) (simp add: s'_def upd_buf_def notify_def)
    show "req_ok (k_vd s') (bc_buf (k_bc s')) i0 r \<and>
      (\<forall>g r'. R g = Some r' \<longrightarrow> g \<noteq> i0 \<longrightarrow> set (vchain (k_vd s') i0) \<inter> set (vchain ?v g) = {} \<and> vr_b r \<noteq> vr_b r')" if "Some ?r = Some r" for r
      using that rq out b unfolding ch by fastforce
    show "vd_free (k_vd s') i \<longleftrightarrow> i < NUM \<and> i \<notin> (\<Union>g\<in>dom R - {i0}. set (vchain ?v g)) \<and> (Some ?r \<noteq> None \<longrightarrow> i \<notin> set (vchain (k_vd s') i0))" for i
      using vd_invD(5)[OF inv, of i] none unfolding ch by (auto simp: vd' submit_vd_def busy_descs_def)
    have u: "used_list (k_vd s') = used_list ?v" by (simp add: used_list_def vd' submit_vd_def)
    show "distinct (used_list (k_vd s'))" using vd_invD(6)[OF inv] by (simp add: u)
    show "g \<in> set (used_list (k_vd s')) \<longleftrightarrow> (\<exists>r. (R(i0 := Some ?r)) g = Some r \<and> vr_phase r = Completed)" for g
      using vd_invD(7)[OF inv, of g] none by (auto simp: u)
  qed
  then show ?thesis using run none bf' by (intro disjI2 exI[of _ i0] exI[of _ s']) (simp add: s'_def upd_buf_def notify_def)
qed

section \<open>The interrupt handler\<close>

lemma used_next:
  assumes "vd_inv s R" "used_list (k_vd s) = i # is"
  shows "vd_used_idx (k_vd s) \<noteq> vu_idx (k_vd s)" "unat (vu_ring (k_vd s) (unat (vd_used_idx (k_vd s)) mod NUM)) = i"
    "used_list ((k_vd s)\<lparr>vd_used_idx := vd_used_idx (k_vd s) + 1\<rparr>) = is"
proof -
  let ?v = "k_vd s" and ?d = "map (\<lambda>i. unat (vu_ring (k_vd s) i)) [0..<NUM]"
  show ne: "vd_used_idx ?v \<noteq> vu_idx ?v" using assms(2) ring_items_empty[of NUM ?d "vd_used_idx ?v" "vu_idx ?v"] by (auto simp: used_list_def)
  have "(NUM :: nat) dvd 2 ^ LENGTH(16)" "(0 :: nat) < NUM" by simp_all
  from ring_items_get[OF this ne, of ?d] have e: "used_list ?v = ?d ! (unat (vd_used_idx ?v) mod NUM) # ring_items NUM ?d (vd_used_idx ?v + 1) (vu_idx ?v)"
    by (simp only: used_list_def)
  have lt: "unat (vd_used_idx ?v) mod NUM < NUM" by simp
  then have "?d ! (unat (vd_used_idx ?v) mod NUM) = unat (vu_ring ?v (unat (vd_used_idx ?v) mod NUM))" by (subst nth_map) (simp_all del: upt_rec_numeral)
  then show "unat (vu_ring ?v (unat (vd_used_idx ?v) mod NUM)) = i" using assms(2) e by simp
  show "used_list (?v\<lparr>vd_used_idx := vd_used_idx ?v + 1\<rparr>) = is" using assms(2) e by (simp add: used_list_def)
qed

definition seen_at :: "nat \<Rightarrow> nat \<Rightarrow> kernel \<Rightarrow> kernel" where
  "seen_at b i s = upd_vd (\<lambda>v. v\<lparr>vd_used_idx := vd_used_idx v + 1\<rparr>) (upd_buf b (b_disk_update (\<lambda>_. False)) s)"

lemma seen_inv:
  assumes inv: "vd_inv s R" and u: "used_list (k_vd s) = i # is" and r: "R i = Some r" and t: "pt_sim (k_pt s) t"
  shows "vd_inv ((seen_at (vr_b r) i s)\<lparr>k_pt := t\<rparr>) (R(i \<mapsto> r\<lparr>vr_phase := Seen\<rparr>))"
proof -
  let ?s = "(seen_at (vr_b r) i s)\<lparr>k_pt := t\<rparr>" and ?v = "k_vd s"
  have vd: "k_vd ?s = ?v\<lparr>vd_used_idx := vd_used_idx ?v + 1\<rparr>" by (simp add: seen_at_def upd_buf_def)
  have bf: "bc_buf (k_bc ?s) = (bc_buf (k_bc s))(vr_b r := (bc_buf (k_bc s) (vr_b r))\<lparr>b_disk := False\<rparr>)" by (simp add: seen_at_def upd_buf_def)
  have ch: "vchain (k_vd ?s) h = vchain ?v h" for h by (simp add: vchain_def vd)
  have c: "vr_phase r = Completed" using vd_invD(7)[OF inv, of i] u r by auto
  have ne: "vr_b r' \<noteq> vr_b r" if "R g = Some r'" "g \<noteq> i" for g r' using vd_invD(4)[OF inv that(1) r that(2)] by simp
  have same: "others_same s ?s R i" unfolding others_same_def vd bf using ne by auto
  note rq = vd_invD(3)[OF inv r]
  show ?thesis
  proof (rule vd_inv_change[OF inv _ _ same])
    show "lk_free (vdisk_lock (k_vd ?s))" "locks_free (k_pt ?s)" using vd_invD(1)[OF inv] locks_free_sim[OF t vd_invD(2)[OF inv]] by (simp_all add: vd)
    have "req_ok (k_vd ?s) (bc_buf (k_bc ?s)) i (r\<lparr>vr_phase := Seen\<rparr>)" using rq c unfolding req_ok_def Let_def ch unfolding vd bf by simp
    then show "req_ok (k_vd ?s) (bc_buf (k_bc ?s)) i r' \<and>
      (\<forall>g r''. R g = Some r'' \<longrightarrow> g \<noteq> i \<longrightarrow> set (vchain (k_vd ?s) i) \<inter> set (vchain ?v g) = {} \<and> vr_b r' \<noteq> vr_b r'')" if "Some (r\<lparr>vr_phase := Seen\<rparr>) = Some r'" for r'
      using that vd_invD(4)[OF inv r] unfolding ch by auto
    show "vd_free (k_vd ?s) j \<longleftrightarrow> j < NUM \<and> j \<notin> (\<Union>g\<in>dom R - {i}. set (vchain ?v g)) \<and> (Some (r\<lparr>vr_phase := Seen\<rparr>) \<noteq> None \<longrightarrow> j \<notin> set (vchain (k_vd ?s) i))" for j
      using vd_invD(5)[OF inv, of j] busy_split[of i R ?v] r unfolding ch by (auto simp: vd)
    have ul: "used_list (k_vd ?s) = is" unfolding vd by (rule used_next(3)[OF inv u])
    have d: "distinct (i # is)" using vd_invD(6)[OF inv] u by simp
    then show "distinct (used_list (k_vd ?s))" unfolding ul by simp
    show "g \<in> set (used_list (k_vd ?s)) \<longleftrightarrow> (\<exists>r'. (R(i \<mapsto> r\<lparr>vr_phase := Seen\<rparr>)) g = Some r' \<and> vr_phase r' = Completed)" for g
      using vd_invD(7)[OF inv, of g] u d unfolding ul by auto
  qed
qed

definition see :: "vreq \<Rightarrow> vreq" where
  "see r = (if vr_phase r = Completed then r\<lparr>vr_phase := Seen\<rparr> else r)"

text \<open>The buffers of two states differ in \<open>disk\<close> only.\<close>

definition same_but_disk :: "kernel \<Rightarrow> kernel \<Rightarrow> bool" where
  "same_but_disk s s' \<longleftrightarrow> k_disk s' = k_disk s \<and> k_trace s' = k_trace s \<and> (\<forall>b. (bc_buf (k_bc s') b)\<lparr>b_disk := b_disk (bc_buf (k_bc s) b)\<rparr> = bc_buf (k_bc s) b)"

lemma same_but_disk_trans: "same_but_disk s s' \<Longrightarrow> same_but_disk s' s'' \<Longrightarrow> same_but_disk s s''"
  unfolding same_but_disk_def by (metis buf.update_convs(2) buf.surjective)

lemma intr_loop_ok:
  "vd_inv s R \<Longrightarrow> length (used_list (k_vd s)) < fuel \<Longrightarrow>
    \<exists>s'. virtio_intr_loop c fuel (vdheld c s) = Ret ((), vdheld c s') \<and> vd_inv s' (map_option see \<circ> R) \<and> same_but_disk s s'"
proof (induction fuel arbitrary: s R)
  case (Suc fuel)
  let ?v = "k_vd s"
  show ?case
  proof (cases "used_list ?v")
    case Nil
    then have e: "vd_used_idx ?v = vu_idx ?v" unfolding used_list_def by (simp only: ring_items_empty)
    have "map_option see \<circ> R = R"
    proof
      fix h show "(map_option see \<circ> R) h = R h" using vd_invD(7)[OF Suc.prems(1), of h] Nil by (cases "R h") (auto simp: see_def)
    qed
    then show ?thesis using e Suc.prems(1) by (intro exI[of _ s]) (simp add: bindK_def vdK_def getK_def retK_def same_but_disk_def)
  next
    case (Cons i rest)
    then obtain r where r: "R i = Some r" "vr_phase r = Completed" using vd_invD(7)[OF Suc.prems(1), of i] by auto
    note rq = vd_invD(3)[OF Suc.prems(1) r(1)] and un = used_next[OF Suc.prems(1) Cons]
    have f: "i < NUM" "vd_info_status ?v i = 0" "vd_info_b ?v i = Some (vr_b r)" using rq r(2) req_okD(3)[OF rq] by (simp_all add: req_ok_def Let_def)
    let ?s1 = "upd_buf (vr_b r) (b_disk_update (\<lambda>_. False)) s"
    have "locks_free (k_pt (vdheld c ?s1))" using vd_invD(2)[OF Suc.prems(1)] by (simp add: upd_buf_def)
    from wakeup_free[OF this, of c "ChanBuf (vr_b r)"] obtain t where t: "wakeupK c (ChanBuf (vr_b r)) (vdheld c ?s1) = Ret ((), vdheld c (?s1\<lparr>k_pt := t\<rparr>))" "pt_sim (k_pt s) t"
      by (auto simp: upd_buf_def)
    let ?s2 = "(seen_at (vr_b r) i s)\<lparr>k_pt := t\<rparr>"
    have "upd_vd (\<lambda>v. v\<lparr>vd_used_idx := vd_used_idx v + 1\<rparr>) (vdheld c (?s1\<lparr>k_pt := t\<rparr>)) = vdheld c ?s2"
      by (subst vdheld_upd) (simp_all add: lock_blind_def seen_at_def)
    then have step: "virtio_intr_loop c (Suc fuel) (vdheld c s) = virtio_intr_loop c fuel (vdheld c ?s2)"
      using un(1,2) f t(1) by (simp add: bindK_def vdK_def getK_def thenK_def setbufK_def modK_def setvdK_def Let_def)
    have inv2: "vd_inv ?s2 (R(i \<mapsto> r\<lparr>vr_phase := Seen\<rparr>))" by (rule seen_inv[OF Suc.prems(1) Cons r(1) t(2)])
    have "used_list (k_vd ?s2) = rest" using un(3) by (simp add: seen_at_def upd_buf_def)
    then have "length (used_list (k_vd ?s2)) < fuel" using Suc.prems(2) Cons by simp
    from Suc.IH[OF inv2 this] obtain s' where s': "virtio_intr_loop c fuel (vdheld c ?s2) = Ret ((), vdheld c s')"
      "vd_inv s' (map_option see \<circ> R(i \<mapsto> r\<lparr>vr_phase := Seen\<rparr>))" "same_but_disk ?s2 s'" by blast
    have e: "map_option see \<circ> R(i \<mapsto> r\<lparr>vr_phase := Seen\<rparr>) = map_option see \<circ> R" using r by (auto simp: fun_eq_iff see_def)
    have "same_but_disk s ?s2" by (simp add: same_but_disk_def seen_at_def upd_buf_def)
    then show ?thesis unfolding step using s'(1) s'(2)[unfolded e] same_but_disk_trans[OF _ s'(3)] by blast
  qed
qed simp

lemma intr_ok:
  assumes inv: "vd_inv s R"
  shows "\<exists>s'. virtio_disk_intr c s = Ret ((), s') \<and> vd_inv s' (map_option see \<circ> R) \<and> same_but_disk s s'"
proof -
  let ?k = "vio_answer (k_plat s) (vio_writes (k_plat s)) VIRTIO_MMIO_INTERRUPT_STATUS"
  define s1 where "s1 = s\<lparr>k_plat := (k_plat s)\<lparr>vio_writes := vio_writes (k_plat s) @ [(VIRTIO_MMIO_INTERRUPT_ACK, ?k AND 0x3)]\<rparr>\<rparr>"
  have inv1: "vd_inv s1 R" using inv by (simp add: vd_inv_def s1_def)
  have "length (used_list (k_vd s1)) < unat (vu_idx (k_vd s) - vd_used_idx (k_vd s)) + 1" by (simp add: used_list_def s1_def)
  from intr_loop_ok[OF inv1 this, of c] obtain s' where s': "virtio_intr_loop c (unat (vu_idx (k_vd s) - vd_used_idx (k_vd s)) + 1) (vdheld c s1) = Ret ((), vdheld c s')"
    "vd_inv s' (map_option see \<circ> R)" "same_but_disk s1 s'" by blast
  have "vdheld c s\<lparr>k_plat := k_plat s1\<rparr> = vdheld c s1" by (simp add: s1_def vdheld_def upd_vd_def)
  then have "virtio_disk_intr c s = Ret ((), s')"
    using acquire_vd_free[OF vd_invD(1)[OF inv], of c] release_vdheld[OF vd_invD(1)[OF s'(2)], of c] s'(1)
    by (simp add: virtio_disk_intr_def thenK_def bindK_def vio_read_def vio_write_def getK_def modK_def vdK_def s1_def del: virtio_intr_loop.simps)
  moreover have "same_but_disk s s1" by (simp add: same_but_disk_def s1_def)
  ultimately show ?thesis using s'(2,3) same_but_disk_trans by blast
qed

section \<open>Finishing\<close>

lemma free_chain_run:
  assumes i: "h < NUM" "i1 < NUM" "i2 < NUM" "distinct [h, i1, i2]" and nf: "\<And>j. j \<in> {h, i1, i2} \<Longrightarrow> \<not> vd_free (k_vd s) j"
    and ds: "d_flags (vd_desc (k_vd s) h) AND VRING_DESC_F_NEXT \<noteq> 0" "d_next (vd_desc (k_vd s) h) = of_nat i1"
      "d_flags (vd_desc (k_vd s) i1) AND VRING_DESC_F_NEXT \<noteq> 0" "d_next (vd_desc (k_vd s) i1) = of_nat i2" "d_flags (vd_desc (k_vd s) i2) AND VRING_DESC_F_NEXT = 0"
    and lf: "locks_free (k_pt s)"
  defines "v' \<equiv> (give_desc i2 \<circ> give_desc i1 \<circ> give_desc h) (k_vd s)"
  shows "\<exists>t. free_chain c h (vdheld c s) = Ret ((), vdheld c (s\<lparr>k_vd := v', k_pt := t\<rparr>)) \<and> pt_sim (k_pt s) t"
proof -
  have gb: "lock_blind (give_desc j)" for j by (simp add: lock_blind_def give_desc_def)
  let ?s1 = "upd_vd (give_desc h) s" and ?s2 = "upd_vd (give_desc i1) (upd_vd (give_desc h) s)"
  obtain t1 where t1: "free_desc c h (vdheld c s) = Ret ((), vdheld c (?s1\<lparr>k_pt := t1\<rparr>))" "pt_sim (k_pt s) t1"
    using free_desc_run[of h "vdheld c s" c] i(1) nf lf by (auto simp: vdheld_upd[OF gb])
  obtain t2 where t2: "free_desc c i1 (vdheld c (?s1\<lparr>k_pt := t1\<rparr>)) = Ret ((), vdheld c (?s2\<lparr>k_pt := t2\<rparr>))" "pt_sim t1 t2"
    using free_desc_run[of i1 "vdheld c (?s1\<lparr>k_pt := t1\<rparr>)" c] i nf[of i1] locks_free_sim[OF t1(2) lf] by (auto simp: vdheld_upd[OF gb] give_desc_def)
  obtain t3 where t3: "free_desc c i2 (vdheld c (?s2\<lparr>k_pt := t2\<rparr>)) = Ret ((), vdheld c ((upd_vd (give_desc i2) ?s2)\<lparr>k_pt := t3\<rparr>))" "pt_sim t2 t3"
    using free_desc_run[of i2 "vdheld c (?s2\<lparr>k_pt := t2\<rparr>)" c] i nf[of i2] locks_free_sim[OF t2(2) locks_free_sim[OF t1(2) lf]]
    by (auto simp: vdheld_upd[OF gb] give_desc_def)
  have run: "free_chain c h (vdheld c s) = Ret ((), vdheld c ((upd_vd (give_desc i2) ?s2)\<lparr>k_pt := t3\<rparr>))"
    using t1(1) t2(1) t3(1) ds i by (simp add: free_chain_def numeral_eq_Suc bindK_def vdK_def getK_def thenK_def retK_def unat_of_desc give_desc_def)
  have e: "(upd_vd (give_desc i2) ?s2)\<lparr>k_pt := t3\<rparr> = s\<lparr>k_vd := v', k_pt := t3\<rparr>" by (simp add: v'_def upd_vd_def)
  show ?thesis using run[unfolded e] pt_sim_trans[OF pt_sim_trans[OF t1(2) t2(2)] t3(2)] by blast
qed

lemma finish_ok:
  assumes inv: "vd_inv s R" and r: "R h = Some r" "vr_phase r = Seen"
  shows "\<exists>s'. virtio_disk_rw_finish c (vr_b r) h s = Ret ((), s') \<and> vd_inv s' (R(h := None)) \<and>
    k_disk s' = k_disk s \<and> k_trace s' = k_trace s \<and> bc_buf (k_bc s') = bc_buf (k_bc s)"
proof -
  let ?v = "k_vd s" and ?s1 = "upd_vd (\<lambda>v. v\<lparr>vd_info_b := (vd_info_b v)(h := None)\<rparr>) s"
  note rq = vd_invD(3)[OF inv r(1)]
  obtain i1 i2 where ch: "vchain ?v h = [h, i1, i2]" by (simp add: vchain_def Let_def)
  have bd: "\<not> b_disk (bc_buf (k_bc s) (vr_b r))" using rq r(2) by (simp add: req_ok_def Let_def)
  have i: "h < NUM" "i1 < NUM" "i2 < NUM" "distinct [h, i1, i2]" using req_okD[OF rq] by (simp_all add: ch)
  have nf: "\<not> vd_free ?v j" if "j \<in> {h, i1, i2}" for j using that vd_invD(5)[OF inv, of j] busy_split[of h R ?v] r by (auto simp: ch dom_def)
  have clr: "upd_vd (\<lambda>v. v\<lparr>vd_info_b := (vd_info_b v)(h := None)\<rparr>) (vdheld c s) = vdheld c ?s1" by (rule vdheld_upd) (simp add: lock_blind_def)
  let ?v' = "(give_desc i2 \<circ> give_desc i1 \<circ> give_desc h) (k_vd ?s1)"
  have "\<exists>t. free_chain c h (vdheld c ?s1) = Ret ((), vdheld c (?s1\<lparr>k_vd := ?v', k_pt := t\<rparr>)) \<and> pt_sim (k_pt ?s1) t"
    using rq nf vd_invD(2)[OF inv] by (intro free_chain_run[OF i]) (auto simp: req_ok_def Let_def ch)
  then obtain t where t: "free_chain c h (vdheld c ?s1) = Ret ((), vdheld c (?s1\<lparr>k_vd := ?v', k_pt := t\<rparr>))" "pt_sim (k_pt s) t" by auto
  define s' where "s' = ?s1\<lparr>k_vd := ?v', k_pt := t\<rparr>"
  have vd': "k_vd s' = ?v'" by (simp add: s'_def)
  have lk: "lk_free (vdisk_lock (k_vd s'))" using vd_invD(1)[OF inv] by (simp add: s'_def give_desc_def)
  have run: "virtio_disk_rw_finish c (vr_b r) h s = Ret ((), s')"
    using acquire_vd_free[OF vd_invD(1)[OF inv], of c] release_vdheld[OF lk, of c] clr t(1) bd
    by (simp add: virtio_disk_rw_finish_def thenK_def bindK_def bufK_def getK_def setvdK_def modK_def s'_def)
  have out: "j \<noteq> h \<and> j \<noteq> i1 \<and> j \<noteq> i2" if "j \<in> set (vchain ?v g)" "R g = Some r'" "g \<noteq> h" for j g r'
    using vd_invD(4)[OF inv r(1) that(2)] that(1,3) by (auto simp: ch)
  have bf: "bc_buf (k_bc s') = bc_buf (k_bc s)" by (simp add: s'_def)
  have same: "others_same s s' R h" unfolding others_same_def vd' bf using out by (auto simp: give_desc_def)
  have "vd_inv s' (R(h := None))"
  proof (rule vd_inv_change[OF inv lk _ same])
    show "locks_free (k_pt s')" using locks_free_sim[OF t(2) vd_invD(2)[OF inv]] by (simp add: s'_def)
    define U where "U = (\<Union>g\<in>dom R - {h}. set (vchain ?v g))"
    have "vd_free (k_vd s') j \<longleftrightarrow> j \<in> {h, i1, i2} \<or> vd_free ?v j" for j by (auto simp: vd' give_desc_def)
    moreover have "U \<inter> {h, i1, i2} = {}" using out unfolding U_def by blast
    moreover have "busy_descs ?v R = U \<union> {h, i1, i2}" using busy_split[of h R ?v] r(1) unfolding ch U_def by auto
    moreover have "{h, i1, i2} \<subseteq> {..<NUM}" using i by simp
    ultimately have "vd_free (k_vd s') j \<longleftrightarrow> j < NUM \<and> j \<notin> U" for j using vd_invD(5)[OF inv, of j] by blast
    then show "vd_free (k_vd s') j \<longleftrightarrow> j < NUM \<and> j \<notin> (\<Union>g\<in>dom R - {h}. set (vchain ?v g)) \<and> (None \<noteq> None \<longrightarrow> j \<notin> set (vchain (k_vd s') h))" for j
      unfolding U_def by simp
    have u: "used_list (k_vd s') = used_list ?v" by (simp add: used_list_def vd' give_desc_def)
    show "distinct (used_list (k_vd s'))" using vd_invD(6)[OF inv] by (simp add: u)
    show "g \<in> set (used_list (k_vd s')) \<longleftrightarrow> (\<exists>r. (R(h := None)) g = Some r \<and> vr_phase r = Completed)" for g
      using vd_invD(7)[OF inv, of g] r by (auto simp: u)
  qed simp
  then show ?thesis using run bf by (intro exI[of _ s']) (simp add: s'_def)
qed

end
