(* ===== verification/Virtio_Props.thy ===== *)
theory Virtio_Props
  imports Virtio_Correct Kernel_Example
begin

text \<open>
  The disk driver together with a device. The device is a parameter; \<open>virtio_device\<close> states what the virtio specification promises of a block device that completes the
  request whose chain starts at descriptor \<open>h\<close>: it transfers the block, writes 0 to the status byte and puts the head into the used ring.
\<close>

section \<open>The device\<close>

definition request_at :: "vdisk \<Rightarrow> nat \<Rightarrow> bool \<Rightarrow> nat \<Rightarrow> nat \<Rightarrow> nat \<Rightarrow> bool" where
  "request_at v h wr b n t \<longleftrightarrow> (\<exists>q. let d0 = vd_desc v h; d1 = vd_desc v (unat (d_next d0)); d2 = vd_desc v (unat (d_next d1)) in
    d_addr d0 = OpsAt q \<and> d_flags d0 AND VRING_DESC_F_NEXT \<noteq> 0 \<and>
    d_addr d1 = DataOf b \<and> d_len d1 = of_nat BSIZE \<and> (d_flags d1 AND VRING_DESC_F_WRITE \<noteq> 0 \<longleftrightarrow> \<not> wr) \<and> d_flags d1 AND VRING_DESC_F_NEXT \<noteq> 0 \<and>
    d_addr d2 = StatusAt t \<and> d_flags d2 AND VRING_DESC_F_WRITE \<noteq> 0 \<and>
    rq_type (vd_ops v q) = (if wr then VIRTIO_BLK_T_OUT else VIRTIO_BLK_T_IN) \<and> rq_sector (vd_ops v q) = of_nat (2 * n) \<and> 2 * n < 2 ^ 32)"

definition transfer :: "bool \<Rightarrow> nat \<Rightarrow> nat \<Rightarrow> kernel \<Rightarrow> kernel" where
  "transfer wr b n s =
    (if wr then s\<lparr>k_disk := (k_disk s)(n := b_data (bc_buf (k_bc s) b)), k_trace := k_trace s @ [(n, b_data (bc_buf (k_bc s) b))]\<rparr>
     else upd_buf b (b_data_update (\<lambda>_. k_disk s n)) s)"

definition completed :: "nat \<Rightarrow> bool \<Rightarrow> nat \<Rightarrow> nat \<Rightarrow> nat \<Rightarrow> kernel \<Rightarrow> kernel" where
  "completed h wr b n t s =
    upd_vd (\<lambda>v. v\<lparr>vd_info_status := (vd_info_status v)(t := 0), vu_ring := (vu_ring v)(unat (vu_idx v) mod NUM := of_nat h), vu_idx := vu_idx v + 1\<rparr>)
      (transfer wr b n s)"

definition virtio_device :: "(nat \<Rightarrow> kernel \<Rightarrow> kernel) \<Rightarrow> bool" where
  "virtio_device dev \<longleftrightarrow> (\<forall>h s wr b n t. request_at (k_vd s) h wr b n t \<longrightarrow> dev h s = completed h wr b n t s)"

lemma req_request:
  assumes "req_ok v B h r" "b_blockno (B (vr_b r)) < 2 ^ 31"
  shows "request_at v h (vr_wr r) (vr_b r) (b_blockno (B (vr_b r))) h"
proof -
  obtain i1 i2 where ch: "vchain v h = [h, i1, i2]" "unat (d_next (vd_desc v h)) = i1" "unat (d_next (vd_desc v i1)) = i2" by (simp add: vchain_def Let_def)
  have "sector_of (b_blockno (B (vr_b r))) = of_nat (2 * b_blockno (B (vr_b r)))" using assms(2) by (simp add: sector_of_def mult.commute)
  then show ?thesis using assms unfolding request_at_def Let_def
    by (intro exI[of _ h]) (auto simp: req_ok_def Let_def ch req_type_def unat_of_desc)
qed

lemma transfer_simps [simp]:
  "k_vd (transfer wr b n s) = k_vd s" "k_pt (transfer wr b n s) = k_pt s" "b_disk (bc_buf (k_bc (transfer wr b n s)) x) = b_disk (bc_buf (k_bc s) x)"
  "b_blockno (bc_buf (k_bc (transfer wr b n s)) x) = b_blockno (bc_buf (k_bc s) x)"
  by (simp_all add: transfer_def upd_buf_def)

lemma completed_inv:
  assumes inv: "vd_inv s R" and r: "R h = Some r" "vr_phase r = Pending"
  shows "vd_inv (completed h (vr_wr r) (vr_b r) n h s) (R(h \<mapsto> r\<lparr>vr_phase := Completed\<rparr>))"
proof -
  let ?v = "k_vd s" and ?s = "completed h (vr_wr r) (vr_b r) n h s"
  note rq = vd_invD(3)[OF inv r(1)]
  have h: "h < NUM" by (rule req_okD(3)[OF rq])
  have vd: "k_vd ?s = ?v\<lparr>vd_info_status := (vd_info_status ?v)(h := 0), vu_ring := (vu_ring ?v)(unat (vu_idx ?v) mod NUM := of_nat h), vu_idx := vu_idx ?v + 1\<rparr>"
    by (simp add: completed_def)
  have bf: "b_disk (bc_buf (k_bc ?s) x) = b_disk (bc_buf (k_bc s) x)" "b_blockno (bc_buf (k_bc ?s) x) = b_blockno (bc_buf (k_bc s) x)" for x by (simp_all add: completed_def)
  have ch: "vchain (k_vd ?s) g = vchain ?v g" for g unfolding vd by (simp add: vchain_def)
  have same: "others_same s ?s R h" unfolding others_same_def bf unfolding vd by simp
  show ?thesis
  proof (rule vd_inv_change[OF inv _ _ same])
    show "lk_free (vdisk_lock (k_vd ?s))" "locks_free (k_pt ?s)" using vd_invD(1,2)[OF inv] unfolding vd by (simp_all add: completed_def)
    have "req_ok (k_vd ?s) (bc_buf (k_bc ?s)) h (r\<lparr>vr_phase := Completed\<rparr>)" using rq r(2) unfolding req_ok_def Let_def ch unfolding vd by (simp add: bf)
    then show "req_ok (k_vd ?s) (bc_buf (k_bc ?s)) h r' \<and>
      (\<forall>g r''. R g = Some r'' \<longrightarrow> g \<noteq> h \<longrightarrow> set (vchain (k_vd ?s) h) \<inter> set (vchain ?v g) = {} \<and> vr_b r' \<noteq> vr_b r'')" if "Some (r\<lparr>vr_phase := Completed\<rparr>) = Some r'" for r'
      using that vd_invD(4)[OF inv r(1)] unfolding ch by auto
    show "vd_free (k_vd ?s) j \<longleftrightarrow> j < NUM \<and> j \<notin> (\<Union>g\<in>dom R - {h}. set (vchain ?v g)) \<and> (Some (r\<lparr>vr_phase := Completed\<rparr>) \<noteq> None \<longrightarrow> j \<notin> set (vchain (k_vd ?s) h))" for j
      using vd_invD(5)[OF inv, of j] busy_split[of h R ?v] r unfolding ch unfolding vd by auto
    have lt: "unat (vu_idx ?v - vd_used_idx ?v) < NUM" using used_few(2)[OF inv] by simp
    have "(NUM :: nat) dvd 2 ^ LENGTH(16)" "(NUM :: nat) < 2 ^ LENGTH(16)" by simp_all
    moreover have "map (\<lambda>i. unat (vu_ring (k_vd ?s) i)) [0..<NUM] = (map (\<lambda>i. unat (vu_ring ?v i)) [0..<NUM])[unat (vu_idx ?v) mod NUM := h]"
      unfolding vd using h by (intro nth_equalityI) (auto simp: nth_list_update unat_of_desc simp del: upt_rec_numeral)
    ultimately have ul: "used_list (k_vd ?s) = used_list ?v @ [h]"
      using ring_items_put[OF _ _ _ lt, of "map (\<lambda>i. unat (vu_ring ?v i)) [0..<NUM]" h] unfolding used_list_def vd by (simp del: upt_rec_numeral)
    have nh: "h \<notin> set (used_list ?v)" using vd_invD(7)[OF inv, of h] r by auto
    then show "distinct (used_list (k_vd ?s))" using vd_invD(6)[OF inv] unfolding ul by simp
    show "g \<in> set (used_list (k_vd ?s)) \<longleftrightarrow> (\<exists>r'. (R(h \<mapsto> r\<lparr>vr_phase := Completed\<rparr>)) g = Some r' \<and> vr_phase r' = Completed)" for g
      using vd_invD(7)[OF inv, of g] nh unfolding ul by auto
  qed
qed

section \<open>The driver and the device\<close>

inductive vstep :: "(nat \<Rightarrow> kernel \<Rightarrow> kernel) \<Rightarrow> kernel \<times> (nat \<Rightarrow> vreq option) \<Rightarrow> kernel \<times> (nat \<Rightarrow> vreq option) \<Rightarrow> bool" for dev where
  v_submit: "(\<And>g r. R g = Some r \<Longrightarrow> vr_b r \<noteq> b) \<Longrightarrow> b_blockno (bc_buf (k_bc s) b) < 2 ^ 31 \<Longrightarrow> virtio_disk_rw_submit c b wr s = Ret (h, s') \<Longrightarrow>
    vstep dev (s, R) (s', R(h \<mapsto> \<lparr>vr_b = b, vr_wr = wr, vr_phase = Pending\<rparr>))"
| v_device: "R h = Some r \<Longrightarrow> vr_phase r = Pending \<Longrightarrow> vstep dev (s, R) (dev h s, R(h \<mapsto> r\<lparr>vr_phase := Completed\<rparr>))"
| v_interrupt: "virtio_disk_intr c s = Ret ((), s') \<Longrightarrow> vstep dev (s, R) (s', map_option see \<circ> R)"
| v_finish: "R h = Some r \<Longrightarrow> vr_phase r = Seen \<Longrightarrow> virtio_disk_rw_finish c (vr_b r) h s = Ret ((), s') \<Longrightarrow> vstep dev (s, R) (s', R(h := None))"

definition vsys_inv :: "kernel \<times> (nat \<Rightarrow> vreq option) \<Rightarrow> bool" where
  "vsys_inv S \<longleftrightarrow> vd_inv (fst S) (snd S) \<and> (\<forall>h r. snd S h = Some r \<longrightarrow> b_blockno (bc_buf (k_bc (fst S)) (vr_b r)) < 2 ^ 31)"

lemma same_but_disk_blockno: "same_but_disk s s' \<Longrightarrow> b_blockno (bc_buf (k_bc s') b) = b_blockno (bc_buf (k_bc s) b)"
proof -
  assume "same_but_disk s s'"
  then have "b_blockno ((bc_buf (k_bc s') b)\<lparr>b_disk := b_disk (bc_buf (k_bc s) b)\<rparr>) = b_blockno (bc_buf (k_bc s) b)" by (simp add: same_but_disk_def)
  then show ?thesis by simp
qed

lemma vsys_step:
  assumes "vstep dev S S'" "virtio_device dev" "vsys_inv S"
  shows "vsys_inv S'"
  using assms
proof (cases rule: vstep.cases)
  case (v_submit R b s c wr h s')
  have inv: "vd_inv s R" using assms(3) v_submit by (simp add: vsys_inv_def)
  from submit_ok[OF inv v_submit(3), where c = c and wr = wr] v_submit(5) have "vd_inv s' (R(h \<mapsto> \<lparr>vr_b = b, vr_wr = wr, vr_phase = Pending\<rparr>))"
    "bc_buf (k_bc s') = (bc_buf (k_bc s))(b := (bc_buf (k_bc s) b)\<lparr>b_disk := True\<rparr>)" by auto
  then show ?thesis using v_submit assms(3) by (auto simp: vsys_inv_def)
next
  case (v_device R h r s)
  have inv: "vd_inv s R" "b_blockno (bc_buf (k_bc s) (vr_b r)) < 2 ^ 31" using assms(3) v_device by (auto simp: vsys_inv_def)
  let ?n = "b_blockno (bc_buf (k_bc s) (vr_b r))"
  have "dev h s = completed h (vr_wr r) (vr_b r) ?n h s"
    using assms(2) req_request[OF vd_invD(3)[OF inv(1) v_device(3)] inv(2)] by (simp add: virtio_device_def)
  then show ?thesis using completed_inv[OF inv(1) v_device(3,4), of ?n] v_device assms(3) by (auto simp: vsys_inv_def) (auto simp: completed_def)
next
  case (v_interrupt c s s' R)
  have inv: "vd_inv s R" using assms(3) v_interrupt by (simp add: vsys_inv_def)
  from intr_ok[OF inv, of c] v_interrupt(3) have i: "vd_inv s' (map_option see \<circ> R)" "same_but_disk s s'" by auto
  have "vr_b (see r) = vr_b r" for r by (simp add: see_def)
  then show ?thesis using i v_interrupt assms(3) same_but_disk_blockno[OF i(2)] by (auto simp: vsys_inv_def)
next
  case (v_finish R h r c s s')
  have inv: "vd_inv s R" using assms(3) v_finish by (simp add: vsys_inv_def)
  from finish_ok[OF inv v_finish(3,4), of c] v_finish(5) have "vd_inv s' (R(h := None))" "bc_buf (k_bc s') = bc_buf (k_bc s)" by auto
  then show ?thesis using v_finish assms(3) by (auto simp: vsys_inv_def)
qed

lemma vsys_reach: "(vstep dev)\<^sup>*\<^sup>* S S' \<Longrightarrow> virtio_device dev \<Longrightarrow> vsys_inv S \<Longrightarrow> vsys_inv S'"
  by (induction rule: rtranclp_induct) (auto intro: vsys_step)

text \<open>The driver as \<open>virtio_disk_init\<close> leaves it.\<close>

definition driver_idle :: "kernel \<Rightarrow> bool" where
  "driver_idle s \<longleftrightarrow> lk_free (vdisk_lock (k_vd s)) \<and> locks_free (k_pt s) \<and> vd_free (k_vd s) = (\<lambda>i. i < NUM) \<and> vd_used_idx (k_vd s) = vu_idx (k_vd s)"

lemma idle_inv: "driver_idle s \<Longrightarrow> vd_inv s (\<lambda>_. None)"
proof -
  assume i: "driver_idle s"
  then have "used_list (k_vd s) = []" unfolding used_list_def ring_items_empty by (simp add: driver_idle_def)
  then show ?thesis using i by (simp add: vd_inv_def driver_idle_def busy_descs_def)
qed

lemma inv_idle:
  assumes "vd_inv s (\<lambda>_. None)"
  shows "driver_idle s"
proof -
  have "used_list (k_vd s) = []" using vd_invD(7)[OF assms, of "hd (used_list (k_vd s))"] hd_in_set[of "used_list (k_vd s)"] by auto
  then have "vd_used_idx (k_vd s) = vu_idx (k_vd s)" unfolding used_list_def ring_items_empty .
  moreover have "vd_free (k_vd s) = (\<lambda>i. i < NUM)" using vd_invD(5)[OF assms] by (auto simp: busy_descs_def)
  ultimately show ?thesis using vd_invD(1,2)[OF assms] by (simp add: driver_idle_def)
qed

text \<open>C4: The disk driver is safe under concurrency. Starting from an idle driver, let requests for different buffers be submitted, completed by the device in any order,
  noticed by the interrupt handler and finished, in any interleaving. Then submitting returns or waits for descriptors, the interrupt handler returns and finishing a request whose
  completion was noticed returns - no panic and no wild pointer; requests under way use disjoint chains of descriptors, and there are at most two of them.\<close>

theorem virtio_driver_safe:
  assumes "virtio_device dev" "driver_idle s0" "(vstep dev)\<^sup>*\<^sup>* (s0, \<lambda>_. None) (s, R)"
  shows "(\<forall>c b wr. (\<forall>g r. R g = Some r \<longrightarrow> vr_b r \<noteq> b) \<longrightarrow>
      virtio_disk_rw_submit c b wr s = Hang \<or> (\<exists>h s'. virtio_disk_rw_submit c b wr s = Ret (h, s') \<and> R h = None)) \<and>
    (\<forall>c. \<exists>s'. virtio_disk_intr c s = Ret ((), s')) \<and>
    (\<forall>c h r. R h = Some r \<and> vr_phase r = Seen \<longrightarrow> (\<exists>s'. virtio_disk_rw_finish c (vr_b r) h s = Ret ((), s'))) \<and>
    (\<forall>g h. g \<in> dom R \<and> h \<in> dom R \<and> g \<noteq> h \<longrightarrow> set (vchain (k_vd s) g) \<inter> set (vchain (k_vd s) h) = {}) \<and> card (dom R) \<le> 2"
proof -
  have "vsys_inv (s0, \<lambda>_. None)" using idle_inv[OF assms(2)] by (simp add: vsys_inv_def)
  then have inv: "vd_inv s R" using vsys_reach[OF assms(3,1)] by (simp add: vsys_inv_def)
  have "virtio_disk_rw_submit c b wr s = Hang \<or> (\<exists>h s'. virtio_disk_rw_submit c b wr s = Ret (h, s') \<and> R h = None)"
    if "\<forall>g r. R g = Some r \<longrightarrow> vr_b r \<noteq> b" for c b wr using submit_ok[OF inv, of b c wr] that by blast
  moreover have "\<exists>s'. virtio_disk_intr c s = Ret ((), s')" for c using intr_ok[OF inv] by blast
  moreover have "\<exists>s'. virtio_disk_rw_finish c (vr_b r) h s = Ret ((), s')" if "R h = Some r \<and> vr_phase r = Seen" for c h r
    using finish_ok[OF inv] that by blast
  moreover have "set (vchain (k_vd s) g) \<inter> set (vchain (k_vd s) h) = {}" if "g \<in> dom R \<and> h \<in> dom R \<and> g \<noteq> h" for g h
    using vd_invD(4)[OF inv] that by blast
  moreover have "card (dom R) \<le> 2" using few_requests(2)[OF inv] by simp
  ultimately show ?thesis by blast
qed

text \<open>A device that does what the specification says, by looking for the request it is told to complete.\<close>

definition model_device :: "nat \<Rightarrow> kernel \<Rightarrow> kernel" where
  "model_device h s =
    (let v = k_vd s; d0 = vd_desc v h; d1 = vd_desc v (unat (d_next d0)); d2 = vd_desc v (unat (d_next d1)) in
     case (d_addr d0, d_addr d1, d_addr d2) of
       (OpsAt q, DataOf b, StatusAt t) \<Rightarrow> completed h (rq_type (vd_ops v q) = VIRTIO_BLK_T_OUT) b (unat (rq_sector (vd_ops v q)) div 2) t s
     | _ \<Rightarrow> s)"

lemma model_device_ok: "virtio_device model_device"
  unfolding virtio_device_def
proof (intro allI impI)
  fix h wr b n t and s :: kernel assume "request_at (k_vd s) h wr b n t"
  then obtain q where q: "d_addr (vd_desc (k_vd s) h) = OpsAt q" "d_addr (vd_desc (k_vd s) (unat (d_next (vd_desc (k_vd s) h)))) = DataOf b"
    "d_addr (vd_desc (k_vd s) (unat (d_next (vd_desc (k_vd s) (unat (d_next (vd_desc (k_vd s) h))))))) = StatusAt t"
    "rq_type (vd_ops (k_vd s) q) = (if wr then VIRTIO_BLK_T_OUT else VIRTIO_BLK_T_IN)" "rq_sector (vd_ops (k_vd s) q) = of_nat (2 * n)" "2 * n < 2 ^ 32"
    unfolding request_at_def Let_def by auto
  have "unat (of_nat (2 * n) :: u64) = 2 * n" using q(6) by (simp only: unsigned_of_nat) (simp add: take_bit_nat_eq_self)
  then show "model_device h s = completed h wr b n t s" unfolding model_device_def Let_def q(1-3) by (simp add: q(4,5))
qed

lemma upt_NUM: "[0..<NUM] = 0 # 1 # 2 # [3, 4, 5, 6, 7]"
  by (simp add: upt_conv_Cons)

definition disk_kernel :: kernel where
  "disk_kernel = small_kernel\<lparr>k_vd := zero_vdisk\<lparr>vd_free := (\<lambda>i. i < NUM)\<rparr>\<rparr>"

lemma disk_kernel_idle: "driver_idle disk_kernel"
  using small_running(1) by (simp add: driver_idle_def disk_kernel_def zero_vdisk_def running_def)

lemma link_front_blockno: "\<forall>i. b_blockno (B i) = 0 \<Longrightarrow> \<forall>i. b_blockno (link_front b B i) = 0"
  by (simp add: link_front_def Let_def)

lemma relock_blockno: "\<forall>i. b_blockno (B i) = 0 \<Longrightarrow> \<forall>i. b_blockno ((B(n := (B n)\<lparr>b_lock := l\<rparr>)) i) = 0"
  by simp

lemma binit_blockno:
  assumes "\<forall>i. b_blockno (bc_buf bc i) = 0"
  shows "b_blockno (bc_buf (binit bc) i) = 0"
proof -
  have "\<forall>i. b_blockno (fold (\<lambda>b B. link_front b (B(b := (B b)\<lparr>b_lock := initsleeplock ''buffer''\<rparr>))) [0..<n] B i) = 0" if "\<forall>i. b_blockno (B i) = 0" for n B
    using that
  proof (induction n)
    case (Suc n)
    show ?case using link_front_blockno[OF relock_blockno[OF Suc.IH[OF Suc.prems]]] by simp
  qed simp
  from this[of "(bc_buf bc)(NBUF := (bc_buf bc NBUF)\<lparr>b_prev := NBUF, b_next := NBUF\<rparr>)" NBUF] show ?thesis
    using assms unfolding binit_def Let_def by (simp del: upt_rec_numeral)
qed

lemma small_blockno: "b_blockno (bc_buf (k_bc small_kernel) i) = 0"
  unfolding small_kernel_def by (simp, rule binit_blockno) (simp add: zero_kernel_def zero_buf_def)

theorem virtio_driver_safe_witness:
  "(\<exists>h s'. virtio_disk_rw_submit 0 3 True disk_kernel = Ret (h, s')) \<and> (\<exists>s'. virtio_disk_intr 0 disk_kernel = Ret ((), s'))"
proof -
  have f: "filter (vd_free (k_vd disk_kernel)) [0..<NUM] = 0 # 1 # 2 # [3, 4, 5, 6, 7]" unfolding upt_NUM by (simp add: disk_kernel_def)
  have "\<exists>h s'. virtio_disk_rw_submit 0 3 True disk_kernel = Ret (h, s')"
    using submit_run[OF _ f, of 0 3 True] disk_kernel_idle by (simp add: driver_idle_def)
  moreover have "\<exists>s'. virtio_disk_intr 0 disk_kernel = Ret ((), s')"
    using virtio_driver_safe[OF model_device_ok disk_kernel_idle, of disk_kernel "\<lambda>_. None"] by simp
  ultimately show ?thesis by blast
qed

text \<open>C11: A transfer through the driver and the device is the transfer the buffer cache relies on: submitting a request for a buffer to an idle driver, the device completing it, the
  interrupt and finishing it all return, and then the disk, the record of its writes and all buffers are as after \<open>disk_rw\<close>, the buffer no longer belongs to the disk,
  and the driver is idle again.\<close>

theorem virtio_refines_disk_rw:
  assumes "virtio_device dev" "driver_idle s" "b_blockno (bc_buf (k_bc s) b) < 2 ^ 31"
  shows "\<exists>h s1 s2 s3 sd. virtio_disk_rw_submit c b wr s = Ret (h, s1) \<and> virtio_disk_intr c' (dev h s1) = Ret ((), s2) \<and>
    virtio_disk_rw_finish c b h s2 = Ret ((), s3) \<and> disk_rw b wr s = Ret ((), sd) \<and>
    k_disk s3 = k_disk sd \<and> k_trace s3 = k_trace sd \<and> (\<forall>x. (bc_buf (k_bc s3) x)\<lparr>b_disk := y\<rparr> = (bc_buf (k_bc sd) x)\<lparr>b_disk := y\<rparr>) \<and>
    \<not> b_disk (bc_buf (k_bc s3) b) \<and> driver_idle s3"
proof -
  let ?n = "b_blockno (bc_buf (k_bc s) b)" and ?r = "\<lparr>vr_b = b, vr_wr = wr, vr_phase = Pending\<rparr>"
  have f: "filter (vd_free (k_vd s)) [0..<NUM] = 0 # 1 # 2 # [3, 4, 5, 6, 7]" unfolding upt_NUM using assms(2) by (simp add: driver_idle_def)
  have "virtio_disk_rw_submit c b wr s \<noteq> Hang" using submit_run[OF _ f, of c b wr] assms(2) by (simp add: driver_idle_def)
  with submit_ok[OF idle_inv[OF assms(2)], of b c wr] obtain h s1 where s1: "virtio_disk_rw_submit c b wr s = Ret (h, s1)" "vd_inv s1 ((\<lambda>_. None)(h \<mapsto> ?r))"
    "k_disk s1 = k_disk s" "k_trace s1 = k_trace s" "bc_buf (k_bc s1) = (bc_buf (k_bc s))(b := (bc_buf (k_bc s) b)\<lparr>b_disk := True\<rparr>)" by auto
  let ?R1 = "(\<lambda>_. None)(h \<mapsto> ?r)" and ?R2 = "(\<lambda>_. None)(h \<mapsto> ?r\<lparr>vr_phase := Completed\<rparr>)" and ?R3 = "(\<lambda>_. None)(h \<mapsto> ?r\<lparr>vr_phase := Seen\<rparr>)"
  have n1: "b_blockno (bc_buf (k_bc s1) b) = ?n" by (simp add: s1(5))
  have dv: "dev h s1 = completed h wr b ?n h s1"
    using assms(1) req_request[OF vd_invD(3)[OF s1(2), of h ?r]] assms(3) n1 by (simp add: virtio_device_def)
  have inv2: "vd_inv (dev h s1) ?R2" unfolding dv using completed_inv[OF s1(2), of h ?r ?n] by simp
  from intr_ok[OF inv2, of c'] obtain s2 where s2: "virtio_disk_intr c' (dev h s1) = Ret ((), s2)" "vd_inv s2 (map_option see \<circ> ?R2)" "same_but_disk (dev h s1) s2" by blast
  have "map_option see \<circ> ?R2 = ?R3" by (auto simp: see_def fun_eq_iff)
  then have inv3: "vd_inv s2 ?R3" using s2(2) by simp
  from finish_ok[OF inv3, of h "?r\<lparr>vr_phase := Seen\<rparr>" c] obtain s3 where s3: "virtio_disk_rw_finish c b h s2 = Ret ((), s3)" "vd_inv s3 (?R3(h := None))"
    "k_disk s3 = k_disk s2" "k_trace s3 = k_trace s2" "bc_buf (k_bc s3) = bc_buf (k_bc s2)" by auto
  have "?R3(h := None) = (\<lambda>_. None)" by auto
  then have fin: "driver_idle s3" using inv_idle s3(2) by simp
  have "\<not> b_disk (bc_buf (k_bc s3) b)" using vd_invD(3)[OF inv3, of h "?r\<lparr>vr_phase := Seen\<rparr>"] s3(5) by (simp add: req_ok_def Let_def)
  moreover obtain sd where sd: "disk_rw b wr s = Ret ((), sd)" "sd = transfer wr b ?n s" by (simp add: disk_rw_def transfer_def Let_def)
  have dk: "k_disk (dev h s1) = k_disk sd" "k_trace (dev h s1) = k_trace sd" unfolding dv sd(2) by (simp_all add: completed_def transfer_def s1(3-5) upd_buf_def)
  have bq: "(bc_buf (k_bc (dev h s1)) x)\<lparr>b_disk := y\<rparr> = (bc_buf (k_bc sd) x)\<lparr>b_disk := y\<rparr>" for x unfolding dv sd(2) by (simp add: completed_def transfer_def s1(3-5) upd_buf_def)
  have "(bc_buf (k_bc s3) x)\<lparr>b_disk := y\<rparr> = (bc_buf (k_bc sd) x)\<lparr>b_disk := y\<rparr>" for x
  proof -
    have "(bc_buf (k_bc s2) x)\<lparr>b_disk := b_disk (bc_buf (k_bc (dev h s1)) x)\<rparr>\<lparr>b_disk := y\<rparr> = (bc_buf (k_bc (dev h s1)) x)\<lparr>b_disk := y\<rparr>"
      using s2(3) by (simp only: same_but_disk_def)
    then show ?thesis using bq[of x] s3(5) by simp
  qed
  moreover have "k_disk s3 = k_disk sd" "k_trace s3 = k_trace sd" using s3(3,4) s2(3) dk by (simp_all add: same_but_disk_def)
  ultimately show ?thesis using s1(1) s2(1) s3(1) sd(1) fin by blast
qed

theorem virtio_refines_disk_rw_witness:
  "\<exists>h s1 s2 s3. virtio_disk_rw_submit 0 3 False disk_kernel = Ret (h, s1) \<and> virtio_disk_intr 1 (model_device h s1) = Ret ((), s2) \<and>
    virtio_disk_rw_finish 0 3 h s2 = Ret ((), s3) \<and> \<not> b_disk (bc_buf (k_bc s3) 3)"
proof -
  have bl: "b_blockno (bc_buf (k_bc disk_kernel) 3) < 2 ^ 31" using small_blockno[of 3] by (simp add: disk_kernel_def)
  show ?thesis using virtio_refines_disk_rw[OF model_device_ok disk_kernel_idle bl, of 0 False 1] by blast
qed

end
