(* ===== verification/Hart.thy ===== *)
theory Hart
  imports Proc_Ops
begin

text \<open>
  The registers of a hart (\<open>kernel/riscv.h\<close>): what the accessor functions read and write, the interrupt flag, and the page table in use.
  A register holds what was last written to it; flushing the TLB has no effect here.
\<close>

abbreviation SSTATUS_SPP :: u64 where "SSTATUS_SPP \<equiv> 0x100"
abbreviation SSTATUS_SPIE :: u64 where "SSTATUS_SPIE \<equiv> 0x20"
abbreviation SSTATUS_SIE :: u64 where "SSTATUS_SIE \<equiv> 0x2"
abbreviation MSTATUS_MPP_MASK :: u64 where "MSTATUS_MPP_MASK \<equiv> 0x1800"
abbreviation MSTATUS_MPP_S :: u64 where "MSTATUS_MPP_S \<equiv> 0x800"
abbreviation MSTATUS_MIE :: u64 where "MSTATUS_MIE \<equiv> 0x8"
abbreviation SIE_SEIE :: u64 where "SIE_SEIE \<equiv> 0x200"
abbreviation SIE_STIE :: u64 where "SIE_STIE \<equiv> 0x20"
abbreviation SIE_SSIE :: u64 where "SIE_SSIE \<equiv> 0x2"
abbreviation MIE_MTIE :: u64 where "MIE_MTIE \<equiv> 0x80"
abbreviation SATP_SV39 :: u64 where "SATP_SV39 \<equiv> 0x8000000000000000"

definition hartK :: "nat \<Rightarrow> (hart \<Rightarrow> 'a) \<Rightarrow> 'a kop" where
  "hartK c f = getK (\<lambda>s. f (k_hart s c))"

definition sethartK :: "nat \<Rightarrow> (hart \<Rightarrow> hart) \<Rightarrow> unit kop" where
  "sethartK c f = modK (\<lambda>s. s\<lparr>k_hart := (k_hart s)(c := f (k_hart s c))\<rparr>)"

section \<open>Accessors\<close>

definition r_mhartid :: "nat \<Rightarrow> u64 kop" where
  "r_mhartid c = hartK c h_mhartid"

definition r_mstatus :: "nat \<Rightarrow> u64 kop" where
  "r_mstatus c = hartK c h_mstatus"

definition r_sstatus :: "nat \<Rightarrow> u64 kop" where
  "r_sstatus c = hartK c h_sstatus"

definition r_sip :: "nat \<Rightarrow> u64 kop" where
  "r_sip c = hartK c h_sip"

definition r_sie :: "nat \<Rightarrow> u64 kop" where
  "r_sie c = hartK c h_sie"

definition r_mie :: "nat \<Rightarrow> u64 kop" where
  "r_mie c = hartK c h_mie"

definition r_sepc :: "nat \<Rightarrow> u64 kop" where
  "r_sepc c = hartK c h_sepc"

definition r_medeleg :: "nat \<Rightarrow> u64 kop" where
  "r_medeleg c = hartK c h_medeleg"

definition r_mideleg :: "nat \<Rightarrow> u64 kop" where
  "r_mideleg c = hartK c h_mideleg"

definition r_stvec :: "nat \<Rightarrow> u64 kop" where
  "r_stvec c = hartK c h_stvec"

definition r_satp :: "nat \<Rightarrow> u64 kop" where
  "r_satp c = hartK c h_satp"

definition r_scause :: "nat \<Rightarrow> u64 kop" where
  "r_scause c = hartK c h_scause"

definition r_stval :: "nat \<Rightarrow> u64 kop" where
  "r_stval c = hartK c h_stval"

definition r_tp :: "nat \<Rightarrow> u64 kop" where
  "r_tp c = hartK c h_tp"

definition w_mstatus :: "nat \<Rightarrow> u64 \<Rightarrow> unit kop" where
  "w_mstatus c x = sethartK c (h_mstatus_update (\<lambda>_. x))"

definition w_mepc :: "nat \<Rightarrow> u64 \<Rightarrow> unit kop" where
  "w_mepc c x = sethartK c (h_mepc_update (\<lambda>_. x))"

definition w_sstatus :: "nat \<Rightarrow> u64 \<Rightarrow> unit kop" where
  "w_sstatus c x = sethartK c (h_sstatus_update (\<lambda>_. x))"

definition w_sip :: "nat \<Rightarrow> u64 \<Rightarrow> unit kop" where
  "w_sip c x = sethartK c (h_sip_update (\<lambda>_. x))"

definition w_sie :: "nat \<Rightarrow> u64 \<Rightarrow> unit kop" where
  "w_sie c x = sethartK c (h_sie_update (\<lambda>_. x))"

definition w_mie :: "nat \<Rightarrow> u64 \<Rightarrow> unit kop" where
  "w_mie c x = sethartK c (h_mie_update (\<lambda>_. x))"

definition w_sepc :: "nat \<Rightarrow> u64 \<Rightarrow> unit kop" where
  "w_sepc c x = sethartK c (h_sepc_update (\<lambda>_. x))"

definition w_medeleg :: "nat \<Rightarrow> u64 \<Rightarrow> unit kop" where
  "w_medeleg c x = sethartK c (h_medeleg_update (\<lambda>_. x))"

definition w_mideleg :: "nat \<Rightarrow> u64 \<Rightarrow> unit kop" where
  "w_mideleg c x = sethartK c (h_mideleg_update (\<lambda>_. x))"

definition w_stvec :: "nat \<Rightarrow> u64 \<Rightarrow> unit kop" where
  "w_stvec c x = sethartK c (h_stvec_update (\<lambda>_. x))"

definition w_mtvec :: "nat \<Rightarrow> u64 \<Rightarrow> unit kop" where
  "w_mtvec c x = sethartK c (h_mtvec_update (\<lambda>_. x))"

definition w_pmpcfg0 :: "nat \<Rightarrow> u64 \<Rightarrow> unit kop" where
  "w_pmpcfg0 c x = sethartK c (h_pmpcfg0_update (\<lambda>_. x))"

definition w_pmpaddr0 :: "nat \<Rightarrow> u64 \<Rightarrow> unit kop" where
  "w_pmpaddr0 c x = sethartK c (h_pmpaddr0_update (\<lambda>_. x))"

definition w_satp :: "nat \<Rightarrow> u64 \<Rightarrow> unit kop" where
  "w_satp c x = sethartK c (h_satp_update (\<lambda>_. x))"

definition w_mscratch :: "nat \<Rightarrow> u64 \<Rightarrow> unit kop" where
  "w_mscratch c x = sethartK c (h_mscratch_update (\<lambda>_. x))"

definition w_tp :: "nat \<Rightarrow> u64 \<Rightarrow> unit kop" where
  "w_tp c x = sethartK c (h_tp_update (\<lambda>_. x))"

lemmas reg_defs = r_mhartid_def r_mstatus_def r_sstatus_def r_sip_def r_sie_def r_mie_def r_sepc_def r_medeleg_def r_mideleg_def r_stvec_def r_satp_def r_scause_def r_stval_def r_tp_def
  w_mstatus_def w_mepc_def w_sstatus_def w_sip_def w_sie_def w_mie_def w_sepc_def w_medeleg_def w_mideleg_def w_stvec_def w_mtvec_def w_pmpcfg0_def w_pmpaddr0_def w_satp_def w_mscratch_def w_tp_def

definition intr_on :: "nat \<Rightarrow> unit kop" where
  "intr_on c = bindK (r_sstatus c) (\<lambda>x. w_sstatus c (x OR SSTATUS_SIE))"

definition intr_off :: "nat \<Rightarrow> unit kop" where
  "intr_off c = bindK (r_sstatus c) (\<lambda>x. w_sstatus c (x AND NOT SSTATUS_SIE))"

definition intr_get :: "nat \<Rightarrow> bool kop" where
  "intr_get c = bindK (r_sstatus c) (\<lambda>x. retK (x AND SSTATUS_SIE \<noteq> 0))"

definition MAKE_SATP :: "u64 \<Rightarrow> u64" where
  "MAKE_SATP pagetable = SATP_SV39 OR drop_bit 12 pagetable"

definition sfence_vma :: "unit kop" where
  "sfence_vma = retK ()"

text \<open>\<open>cpuid\<close> reads \<open>tp\<close>, where \<open>start\<close> has put the number of the hart.\<close>

definition cpuid :: "nat \<Rightarrow> int kop" where
  "cpuid c = bindK (r_tp c) (\<lambda>x. retK (sint (ucast x :: u32)))"

definition kvminithart :: "nat \<Rightarrow> unit kop" where
  "kvminithart c = thenK sfence_vma (bindK (getK k_kpgtbl) (\<lambda>pt. thenK (w_satp c (MAKE_SATP pt)) sfence_vma))"

end
