(* ===== verification/Trap.thy ===== *)
theory Trap
  imports Hart Sysfile Virtio
begin

text \<open>
  Traps (\<open>kernel/trap.c\<close>) and the interrupt controller (\<open>kernel/plic.c\<close>). A handler that gives up the CPU is cut at the switch: \<open>usertrap\<close> and
  \<open>kerneltrap\<close> say how they end, and the parts after the switch are \<open>usertrap_resume\<close> and \<open>kerneltrap_resume\<close>.
\<close>

abbreviation UART0_IRQ :: int where "UART0_IRQ \<equiv> 10"
abbreviation VIRTIO0_IRQ :: int where "VIRTIO0_IRQ \<equiv> 1"
abbreviation PLIC :: u64 where "PLIC \<equiv> 0x0c000000"

section \<open>The interrupt controller\<close>

definition PLIC_SENABLE :: "int \<Rightarrow> u64" where
  "PLIC_SENABLE hart = PLIC + 0x2080 + of_int hart * 0x100"

definition PLIC_SPRIORITY :: "int \<Rightarrow> u64" where
  "PLIC_SPRIORITY hart = PLIC + 0x201000 + of_int hart * 0x2000"

definition PLIC_SCLAIM :: "int \<Rightarrow> u64" where
  "PLIC_SCLAIM hart = PLIC + 0x201004 + of_int hart * 0x2000"

definition plic_write :: "u64 \<Rightarrow> u32 \<Rightarrow> unit kop" where
  "plic_write a v = modK (\<lambda>s. s\<lparr>k_plat := (k_plat s)\<lparr>plic_reg := (plic_reg (k_plat s))(a := v)\<rparr>\<rparr>)"

definition plicinit :: "unit kop" where
  "plicinit = thenK (plic_write (PLIC + of_int (UART0_IRQ * 4)) 1) (plic_write (PLIC + of_int (VIRTIO0_IRQ * 4)) 1)"

definition plicinithart :: "nat \<Rightarrow> unit kop" where
  "plicinithart c = bindK (cpuid c) (\<lambda>hart.
    thenK (plic_write (PLIC_SENABLE hart) (push_bit (nat UART0_IRQ) 1 OR push_bit (nat VIRTIO0_IRQ) 1)) (plic_write (PLIC_SPRIORITY hart) 0))"

text \<open>Reading the claim register takes the next pending interrupt of the hart; it reads 0 when there is none.\<close>

definition plic_claim :: "nat \<Rightarrow> int kop" where
  "plic_claim c = bindK (cpuid c) (\<lambda>hart. bindK (getK (\<lambda>s. plic_claims (k_plat s) (nat hart))) (\<lambda>q.
    thenK (modK (\<lambda>s. s\<lparr>k_plat := (k_plat s)\<lparr>plic_claims := (plic_claims (k_plat s))(nat hart := tl q)\<rparr>\<rparr>))
      (retK (case q of [] \<Rightarrow> 0 | irq # _ \<Rightarrow> sint irq))))"

definition plic_complete :: "nat \<Rightarrow> int \<Rightarrow> unit kop" where
  "plic_complete c irq = bindK (cpuid c) (\<lambda>hart. plic_write (PLIC_SCLAIM hart) (of_int irq))"

section \<open>Interrupts\<close>

definition trapinit :: "unit kop" where
  "trapinit = modK (\<lambda>s. s\<lparr>k_tickslock := initlock ''time''\<rparr>)"

definition trapinithart :: "nat \<Rightarrow> unit kop" where
  "trapinithart c = bindK (getK (\<lambda>s. a_kernelvec (k_links s))) (w_stvec c)"

definition clockintr :: "nat \<Rightarrow> unit kop" where
  "clockintr c =
    thenK (acquireK c k_tickslock k_tickslock_update)
    (thenK (modK (\<lambda>s. s\<lparr>k_ticks := k_ticks s + 1\<rparr>))
    (thenK (wakeupK c ChanTicks) (releaseK c k_tickslock k_tickslock_update)))"

definition devintr :: "nat \<Rightarrow> int kop" where
  "devintr c =
    bindK (r_scause c) (\<lambda>scause.
      if scause AND 0x8000000000000000 \<noteq> 0 \<and> scause AND 0xff = 9 then
        bindK (plic_claim c) (\<lambda>irq.
        thenK (if irq = UART0_IRQ then uartintr c
               else if irq = VIRTIO0_IRQ then virtio_disk_intr c
               else whenK (irq \<noteq> 0) (printf c (Some (cbytes ''unexpected interrupt irq=%d'' @ [10])) [ArgInt (of_int irq)]))
        (thenK (whenK (irq \<noteq> 0) (plic_complete c irq)) (retK 1)))
      else if scause = 0x8000000000000001 then
        bindK (cpuid c) (\<lambda>id.
        thenK (whenK (id = 0) (clockintr c))
        (thenK (bindK (r_sip c) (\<lambda>x. w_sip c (x AND NOT 2))) (retK 2)))
      else retK 0)"

section \<open>To and from user space\<close>

text \<open>\<open>usertrapret\<close> ends with a call of \<open>userret\<close> at the address and with the argument it returns here.\<close>

definition usertrapret :: "nat \<Rightarrow> (u64 \<times> u64) kop" where
  "usertrapret c =
    bindK (curproc c) (\<lambda>p.
    bindK (getK k_links) (\<lambda>ln.
    thenK (intr_off c)
    (thenK (w_stvec c (TRAMPOLINE + (a_uservec ln - a_trampoline ln)))
    (thenK (bindK (r_satp c) (settfK p TF_kernel_satp))
    (thenK (bindK (procK p p_kstack) (\<lambda>k. settfK p TF_kernel_sp (k + of_nat PGSIZE)))
    (thenK (settfK p TF_kernel_trap (a_usertrap ln))
    (thenK (bindK (r_tp c) (settfK p TF_kernel_hartid))
    (thenK (bindK (r_sstatus c) (\<lambda>x. w_sstatus c ((x AND NOT SSTATUS_SPP) OR SSTATUS_SPIE)))
    (thenK (bindK (tfK p TF_epc) (w_sepc c))
    (bindK (procK p p_pagetable) (\<lambda>pt.
     retK (TRAMPOLINE + (a_userret ln - a_trampoline ln), MAKE_SATP pt))))))))))))"

text \<open>How a trap from user space ends: in user space again, with the process gone, or at the switch of \<open>yield\<close>.\<close>

datatype trap_end = ToUserRet u64 u64 | ProcGone | Yielding

definition usertrap_tail :: "nat \<Rightarrow> nat \<Rightarrow> int \<Rightarrow> trap_end kop" where
  "usertrap_tail c p which_dev =
    bindK (ptvK (killed c p)) (\<lambda>k.
      if k \<noteq> 0 then thenK (exit c (- 1)) (retK ProcGone)
      else if which_dev = 2 then thenK (yield_enter c) (retK Yielding)
      else bindK (usertrapret c) (\<lambda>(pc, satp). retK (ToUserRet pc satp)))"

definition usertrap :: "nat \<Rightarrow> trap_end kop" where
  "usertrap c =
    bindK (r_sstatus c) (\<lambda>st.
      if st AND SSTATUS_SPP \<noteq> 0 then panicK ''usertrap: not from user mode''
      else thenK (bindK (getK (\<lambda>s. a_kernelvec (k_links s))) (w_stvec c))
       (bindK (curproc c) (\<lambda>p.
        thenK (bindK (r_sepc c) (settfK p TF_epc))
        (bindK (r_scause c) (\<lambda>cause.
          if cause = 8 then
            bindK (ptvK (killed c p)) (\<lambda>k.
              if k \<noteq> 0 then thenK (exit c (- 1)) (retK ProcGone)
              else thenK (bindK (tfK p TF_epc) (\<lambda>e. settfK p TF_epc (e + 4)))
                  (thenK (intr_on c)
                  (bindK (syscall c) (\<lambda>goes_on. if goes_on then usertrap_tail c p 0 else retK ProcGone))))
          else bindK (devintr c) (\<lambda>which_dev.
            if which_dev \<noteq> 0 then usertrap_tail c p which_dev
            else bindK (procK p p_pid) (\<lambda>pid. bindK (r_sepc c) (\<lambda>sepc. bindK (r_stval c) (\<lambda>stval.
               thenK (printf c (Some (cbytes ''usertrap(): unexpected scause %p pid=%d'' @ [10])) [ArgPtr cause, ArgInt (of_int pid)])
               (thenK (printf c (Some (cbytes ''            sepc=%p stval=%p'' @ [10])) [ArgPtr sepc, ArgPtr stval])
               (thenK (ptK (setkilled c p)) (usertrap_tail c p 0))))))))))))"

definition usertrap_resume :: "nat \<Rightarrow> (u64 \<times> u64) kop" where
  "usertrap_resume c = thenK (yield_resume c) (usertrapret c)"

text \<open>A process that is scheduled for the first time.\<close>

definition forkret_user :: "nat \<Rightarrow> unit kop" where
  "forkret_user c = forkret c (thenK (usertrapret c) (retK ()))"

section \<open>Traps in the kernel\<close>

definition kerneltrap_resume :: "nat \<Rightarrow> u64 \<Rightarrow> u64 \<Rightarrow> unit kop" where
  "kerneltrap_resume c sepc sstatus = thenK (w_sepc c sepc) (w_sstatus c sstatus)"

text \<open>\<open>True\<close> when it returns, \<open>False\<close> when it stops at the switch of \<open>yield\<close>.\<close>

definition kerneltrap :: "nat \<Rightarrow> bool kop" where
  "kerneltrap c =
    bindK (r_sepc c) (\<lambda>sepc. bindK (r_sstatus c) (\<lambda>sstatus. bindK (r_scause c) (\<lambda>scause.
      if sstatus AND SSTATUS_SPP = 0 then panicK ''kerneltrap: not from supervisor mode''
      else bindK (intr_get c) (\<lambda>on.
        if on then panicK ''kerneltrap: interrupts enabled''
        else bindK (devintr c) (\<lambda>which_dev.
          if which_dev = 0 then
            bindK (r_stval c) (\<lambda>stval.
            thenK (printf c (Some (cbytes ''scause %p'' @ [10])) [ArgPtr scause])
            (thenK (printf c (Some (cbytes ''sepc=%p stval=%p'' @ [10])) [ArgPtr sepc, ArgPtr stval])
              (panicK ''kerneltrap'')))
          else bindK (getK (\<lambda>s. myproc c (k_pt s))) (\<lambda>mp.
            bindK (case mp of None \<Rightarrow> retK False | Some p \<Rightarrow> procK p (\<lambda>x. p_state x = RUNNING)) (\<lambda>run.
              if which_dev = 2 \<and> run then thenK (yield_enter c) (retK False)
              else thenK (kerneltrap_resume c sepc sstatus) (retK True))))))))"

end
