(* ===== verification/Boot.thy ===== *)
theory Boot
  imports Trap
begin

text \<open>
  From power-on to the scheduler: \<open>kernel/start.c\<close> in machine mode, and \<open>main\<close> of \<open>kernel/main.c\<close>, in which hart 0 initialises every part of
  the kernel while the others wait.
\<close>

abbreviation CLINT :: u64 where "CLINT \<equiv> 0x2000000"
abbreviation TIMER_INTERVAL :: u64 where "TIMER_INTERVAL \<equiv> 20000"

definition CLINT_MTIMECMP :: "u64 \<Rightarrow> u64" where
  "CLINT_MTIMECMP hartid = CLINT + 0x4000 + 8 * hartid"

definition timerinit :: "nat \<Rightarrow> unit kop" where
  "timerinit c =
    bindK (r_mhartid c) (\<lambda>hartid. let id = scast (ucast hartid :: u32) :: u64 in
    thenK (modK (\<lambda>s. s\<lparr>k_plat := (k_plat s)\<lparr>clint_mtimecmp := (clint_mtimecmp (k_plat s))(unat id := clint_mtime (k_plat s) + TIMER_INTERVAL)\<rparr>\<rparr>))
    (thenK (modK (\<lambda>s. s\<lparr>k_scratch := (k_scratch s)(unat id := (k_scratch s (unat id))[3 := CLINT_MTIMECMP id, 4 := TIMER_INTERVAL])\<rparr>))
    (thenK (bindK (getK k_links) (\<lambda>ln. thenK (w_mscratch c (a_timer_scratch ln + id * 40)) (w_mtvec c (a_timervec ln))))
    (thenK (bindK (r_mstatus c) (\<lambda>x. w_mstatus c (x OR MSTATUS_MIE)))
    (bindK (r_mie c) (\<lambda>x. w_mie c (x OR MIE_MTIE)))))))"

definition start :: "nat \<Rightarrow> unit kop" where
  "start c =
    thenK (bindK (r_mstatus c) (\<lambda>x. w_mstatus c ((x AND NOT MSTATUS_MPP_MASK) OR MSTATUS_MPP_S)))
    (thenK (bindK (getK (\<lambda>s. a_main (k_links s))) (w_mepc c))
    (thenK (w_satp c 0)
    (thenK (w_medeleg c 0xffff)
    (thenK (w_mideleg c 0xffff)
    (thenK (bindK (r_sie c) (\<lambda>x. w_sie c (x OR SIE_SEIE OR SIE_STIE OR SIE_SSIE)))
    (thenK (w_pmpaddr0 c 0x3fffffffffffff)
    (thenK (w_pmpcfg0 c 0xf)
    (thenK (timerinit c)
    (bindK (r_mhartid c) (\<lambda>id. w_tp c (scast (ucast id :: u32))))))))))))"

text \<open>\<open>main\<close>, up to the call of \<open>scheduler\<close>. A hart other than 0 that finds \<open>started\<close> unset keeps looking.\<close>

definition main :: "nat \<Rightarrow> unit kop" where
  "main c =
    bindK (cpuid c) (\<lambda>id.
      if id = 0 then
        thenK consoleinit
        (thenK printfinit
        (thenK (printf c (Some [10]) [])
        (thenK (printf c (Some (cbytes ''xv6 kernel is booting'' @ [10])) [])
        (thenK (printf c (Some [10]) [])
        (thenK (modK (\<lambda>s. s\<lparr>k_vm := (k_vm s)\<lparr>vm_alloc := kinit (vm_alloc (k_vm s))\<rparr>\<rparr>))
        (thenK (vmK (\<lambda>v. bind_res (buddy_init (vm_alloc v)) (\<lambda>b. Ret (v\<lparr>vm_alloc := b\<rparr>))))
        (thenK (kvminit c)
        (thenK (kvminithart c)
        (thenK (modK (\<lambda>s. s\<lparr>k_pt := procinit (k_pt s)\<rparr>))
        (thenK trapinit
        (thenK (trapinithart c)
        (thenK plicinit
        (thenK (plicinithart c)
        (thenK (modK (\<lambda>s. s\<lparr>k_bc := binit (k_bc s)\<rparr>))
        (thenK (modK (\<lambda>s. s\<lparr>k_it := iinit (k_it s)\<rparr>))
        (thenK fileinit
        (thenK (virtio_disk_init c)
        (thenK (userinit c)
        (modK (\<lambda>s. s\<lparr>k_started := True\<rparr>))))))))))))))))))))
      else bindK (getK k_started) (\<lambda>st.
        if \<not> st then sleepK
        else thenK (printf c (Some (cbytes ''hart %d starting'' @ [10])) [ArgInt (of_int id)])
            (thenK (kvminithart c) (thenK (trapinithart c) (plicinithart c)))))"

end
