(* ===== verification/Trap_Correct.thy ===== *)
theory Trap_Correct
  imports Boot Kernel_Example Pipe_Correct
begin

text \<open>
  A trap from user space and back: what \<open>usertrapret\<close> leaves in the registers and the trapframe, and a system call from the \<open>ecall\<close>
  to the instruction after it.
\<close>

section \<open>Fields of the trapframe\<close>

definition tf_of :: "nat \<Rightarrow> kernel \<Rightarrow> u64" where
  "tf_of p s = p_trapframe (procs (k_pt s) p)"

definition set_tf :: "nat \<Rightarrow> nat \<Rightarrow> u64 \<Rightarrow> kernel \<Rightarrow> kernel" where
  "set_tf p off v s = s\<lparr>k_vm := (k_vm s)\<lparr>vm_mem := st64 (tf_of p s + of_nat off) v (vm_mem (k_vm s))\<rparr>\<rparr>"

definition get_tf :: "nat \<Rightarrow> nat \<Rightarrow> kernel \<Rightarrow> u64" where
  "get_tf p off s = ld64 (vm_mem (k_vm s)) (tf_of p s + of_nat off)"

definition set_hart :: "nat \<Rightarrow> (hart \<Rightarrow> hart) \<Rightarrow> kernel \<Rightarrow> kernel" where
  "set_hart c f s = s\<lparr>k_hart := (k_hart s)(c := f (k_hart s c))\<rparr>"

lemma set_tf_simps [simp]:
  "k_pt (set_tf p off v s) = k_pt s" "k_hart (set_tf p off v s) = k_hart s" "k_links (set_tf p off v s) = k_links s" "tf_of q (set_tf p off v s) = tf_of q s"
  by (simp_all add: set_tf_def tf_of_def)

lemma set_hart_simps [simp]:
  "k_pt (set_hart c f s) = k_pt s" "k_vm (set_hart c f s) = k_vm s" "k_links (set_hart c f s) = k_links s" "tf_of q (set_hart c f s) = tf_of q s"
  "k_hart (set_hart c f s) c = f (k_hart s c)" "get_tf q off (set_hart c f s) = get_tf q off s"
  by (simp_all add: set_hart_def tf_of_def get_tf_def)

lemma set_hart_norm:
  "set_tf p off v (set_hart c f s) = set_hart c f (set_tf p off v s)" "set_hart c f (set_hart c g s) = set_hart c (\<lambda>h. f (g h)) s"
  by (simp_all add: set_hart_def set_tf_def tf_of_def)

lemma tfK_run: "tf_of p s \<noteq> 0 \<Longrightarrow> tfK p off s = Ret (get_tf p off s, s)"
  by (simp add: tfK_def procK_def kop_simps tf_of_def get_tf_def)

lemma settfK_run: "tf_of p s \<noteq> 0 \<Longrightarrow> settfK p off v s = Ret ((), set_tf p off v s)"
  by (simp add: settfK_def procK_def kop_simps tf_of_def set_tf_def)

lemma curproc_run: "myproc c (k_pt s) = Some p \<Longrightarrow> p < NPROC \<Longrightarrow> curproc c s = Ret (p, s)"
  by (simp add: curproc_def deref_def)

lemma hart_run:
  "hartK c f s = Ret (f (k_hart s c), s)" "sethartK c g s = Ret ((), set_hart c g s)"
  by (simp_all add: hartK_def sethartK_def kop_simps set_hart_def)

lemma tf_apart:
  assumes "off + 8 \<le> off' \<or> off' + 8 \<le> off" "off < 4096" "off' < 4096"
  shows "apart (tf + of_nat off) 8 (tf + of_nat off') 8"
  unfolding apart_def
proof (intro allI notI)
  fix x
  assume x: "unat (x - (tf + of_nat off)) < 8 \<and> unat (x - (tf + of_nat off')) < 8"
  define d where "d = x - tf"
  have "unat (d - of_nat off) < 8" "unat (d - of_nat off') < 8" using x by (simp_all add: d_def algebra_simps)
  moreover have "unat (of_nat off :: u64) = off" "unat (of_nat off' :: u64) = off'" using assms(2,3) by (simp_all add: unat_of_nat)
  ultimately show False using assms by (auto simp: unat_sub_if' split: if_splits)
qed

lemma get_set_tf:
  "get_tf p off (set_tf p off v s) = v"
  "off + 8 \<le> off' \<or> off' + 8 \<le> off \<Longrightarrow> off < 4096 \<Longrightarrow> off' < 4096 \<Longrightarrow> get_tf p off (set_tf p off' v s) = get_tf p off s"
proof -
  show "get_tf p off (set_tf p off v s) = v" by (simp add: get_tf_def set_tf_def tf_of_def)
  show "get_tf p off (set_tf p off' v s) = get_tf p off s" if "off + 8 \<le> off' \<or> off' + 8 \<le> off" "off < 4096" "off' < 4096"
    using ld64_st64_apart[OF tf_apart[OF that]] by (simp add: get_tf_def set_tf_def tf_of_def)
qed

section \<open>Back to user space\<close>

lemmas trap_run = curproc_run tfK_run settfK_run hart_run r_sstatus_def w_sstatus_def r_scause_def r_sepc_def w_sepc_def w_stvec_def r_satp_def r_tp_def
  intr_on_def intr_off_def procK_def

definition after_ret :: "nat \<Rightarrow> nat \<Rightarrow> kernel \<Rightarrow> kernel" where
  "after_ret c p s =
    (let ln = k_links s; h = k_hart s c in
     set_hart c (\<lambda>x. x\<lparr>h_stvec := TRAMPOLINE + (a_uservec ln - a_trampoline ln),
         h_sstatus := ((h_sstatus h AND NOT SSTATUS_SIE) AND NOT SSTATUS_SPP) OR SSTATUS_SPIE, h_sepc := get_tf p TF_epc s\<rparr>)
       (set_tf p TF_kernel_hartid (h_tp h) (set_tf p TF_kernel_trap (a_usertrap ln)
         (set_tf p TF_kernel_sp (p_kstack (procs (k_pt s) p) + of_nat PGSIZE) (set_tf p TF_kernel_satp (h_satp h) s)))))"

lemma usertrapret_run:
  assumes "myproc c (k_pt s) = Some p" "p < NPROC" "tf_of p s \<noteq> 0"
  shows "usertrapret c s =
    Ret ((TRAMPOLINE + (a_userret (k_links s) - a_trampoline (k_links s)), MAKE_SATP (p_pagetable (procs (k_pt s) p))), after_ret c p s)"
  using assms unfolding usertrapret_def after_ret_def Let_def by (simp add: kop_simps trap_run set_hart_norm get_set_tf)

section \<open>A system call\<close>

text \<open>The state in which the handler of a system call runs: the saved program counter is past the \<open>ecall\<close>.\<close>

definition in_syscall :: "nat \<Rightarrow> nat \<Rightarrow> kernel \<Rightarrow> kernel" where
  "in_syscall c p s =
    set_hart c (\<lambda>x. x\<lparr>h_stvec := a_kernelvec (k_links s), h_sstatus := h_sstatus (k_hart s c) OR SSTATUS_SIE\<rparr>)
      (set_tf p TF_epc (h_sepc (k_hart s c) + 4) (set_tf p TF_epc (h_sepc (k_hart s c)) s))"

lemma in_syscall_simps [simp]:
  "k_pt (in_syscall c p s) = k_pt s" "k_links (in_syscall c p s) = k_links s" "tf_of q (in_syscall c p s) = tf_of q s"
  by (simp_all add: in_syscall_def)

lemma usertrap_syscall:
  assumes p: "myproc c (k_pt s) = Some p" "p < NPROC" "tf_of p s \<noteq> 0"
    and pt: "locks_free (k_pt s)" "p_killed (procs (k_pt s) p) = 0"
    and user: "h_sstatus (k_hart s c) AND SSTATUS_SPP = 0" "h_scause (k_hart s c) = 8"
    and call: "syscalls c (sint (ucast (get_tf p TF_a7 s) :: u32)) = Some (returns h)" "h (in_syscall c p s) = Ret (v, in_syscall c p s)"
  shows "usertrap c s =
    Ret (ToUserRet (TRAMPOLINE + (a_userret (k_links s) - a_trampoline (k_links s))) (MAKE_SATP (p_pagetable (procs (k_pt s) p))),
      after_ret c p (set_tf p TF_a0 v (in_syscall c p s)))"
proof -
  let ?s1 = "in_syscall c p s" and ?s2 = "set_tf p TF_a0 v (in_syscall c p s)"
  have k: "killed c p (k_pt s) = Ret (0, k_pt s)" using killed_free[OF pt(1) p(2)] pt(2) by simp
  have kK: "ptvK (killed c p) s' = Ret (0, s')" if "k_pt s' = k_pt s" for s' using k that by (simp add: ptvK_def)
  have a7: "get_tf p TF_a7 ?s1 = get_tf p TF_a7 s" by (simp add: in_syscall_def get_set_tf)
  have "syscall c ?s1 = Ret (True, ?s2)"
    using p call unfolding syscall_def by (simp add: kop_simps trap_run a7 returns_def Let_def)
  moreover have "usertrap_tail c p 0 ?s2 = Ret (ToUserRet (TRAMPOLINE + (a_userret (k_links s) - a_trampoline (k_links s)))
      (MAKE_SATP (p_pagetable (procs (k_pt s) p))), after_ret c p ?s2)"
    using kK[of ?s2] usertrapret_run[of c ?s2 p] p unfolding usertrap_tail_def by (simp add: kop_simps)
  moreover have "usertrap c s = bindK (syscall c) (\<lambda>goes_on. if goes_on then usertrap_tail c p 0 else retK ProcGone) ?s1"
    using p user kK unfolding usertrap_def in_syscall_def by (simp add: kop_simps trap_run set_hart_norm get_set_tf)
  ultimately show ?thesis by (simp add: kop_simps)
qed

lemma sys_getpid_run:
  assumes "myproc c (k_pt s) = Some p" "p < NPROC" "p_node (procs (k_pt s) p) = Some n" "n < NNMND"
    "ns_depth (nodes (k_pt s) n) < length (namespace_pids (procs (k_pt s) p))"
  shows "sys_getpid c s = Ret (of_int (namespace_pids (procs (k_pt s) p) ! ns_depth (nodes (k_pt s) n)), s)"
  using assms unfolding sys_getpid_def
  by (simp add: kop_simps curproc_run procK_def intK_def ptrK_def get_ns_def deref_def ns_pid_def)

section \<open>What the trap changes\<close>

lemma set_tf_outside:
  assumes "off < 4096" "unat (x - tf_of p s) < off \<or> off + 8 \<le> unat (x - tf_of p s)"
  shows "vm_mem (k_vm (set_tf p off v s)) x = vm_mem (k_vm s) x"
proof -
  define d where "d = x - tf_of p s"
  have "unat (of_nat off :: u64) = off" using assms(1) by (simp add: unat_of_nat)
  then have "\<not> unat (d - of_nat off) < 8" using assms by (auto simp: d_def[symmetric] unat_sub_if')
  then have "\<not> unat (x - (tf_of p s + of_nat off)) < 8" by (simp add: d_def algebra_simps)
  then show ?thesis by (simp add: set_tf_def st64_def store_bytes_def)
qed

text \<open>A return to user space writes the first three and the fifth word of the trapframe.\<close>

lemma after_ret_outside:
  assumes "40 \<le> unat (x - tf_of p s)"
  shows "vm_mem (k_vm (after_ret c p s)) x = vm_mem (k_vm s) x"
  using assms unfolding after_ret_def Let_def by (simp add: set_tf_outside)

lemma after_ret_simps:
  "k_pt (after_ret c p s) = k_pt s"
  "h_sepc (k_hart (after_ret c p s) c) = get_tf p TF_epc s"
  "h_stvec (k_hart (after_ret c p s) c) = TRAMPOLINE + (a_uservec (k_links s) - a_trampoline (k_links s))"
  "h_sstatus (k_hart (after_ret c p s) c) = ((h_sstatus (k_hart s c) AND NOT SSTATUS_SIE) AND NOT SSTATUS_SPP) OR SSTATUS_SPIE"
  "get_tf p TF_kernel_satp (after_ret c p s) = h_satp (k_hart s c)"
  "get_tf p TF_kernel_sp (after_ret c p s) = p_kstack (procs (k_pt s) p) + of_nat PGSIZE"
  "get_tf p TF_kernel_trap (after_ret c p s) = a_usertrap (k_links s)"
  "get_tf p TF_kernel_hartid (after_ret c p s) = h_tp (k_hart s c)"
  "40 \<le> off \<Longrightarrow> off < 4096 \<Longrightarrow> get_tf p off (after_ret c p s) = get_tf p off s"
  unfolding after_ret_def Let_def by (simp_all add: get_set_tf)

end
