(* ===== verification/Trap_Props.thy ===== *)
theory Trap_Props
  imports Trap_Correct
begin

text \<open>Properties of traps.\<close>

text \<open>C17: A system call, from the \<open>ecall\<close> to the instruction after it. When a process executes \<open>ecall\<close> in user mode with the number of \<open>getpid\<close>
  in \<open>a7\<close>, \<open>usertrap\<close> returns to user space: \<open>a0\<close> holds the pid of the process in its own namespace, execution goes on after the \<open>ecall\<close>, in
  user mode with interrupts enabled there and disabled until then, on the page table of the process; the next trap will find the
  kernel's page table, stack, handler and hart in the trapframe; every other register of the user, all other memory and the process
  table are unchanged.\<close>

theorem getpid_round_trip:
  assumes "myproc c (k_pt s) = Some p" "p < NPROC" "tf_of p s \<noteq> 0" "locks_free (k_pt s)" "p_killed (procs (k_pt s) p) = 0"
    and "p_node (procs (k_pt s) p) = Some n" "n < NNMND" "ns_depth (nodes (k_pt s) n) < length (namespace_pids (procs (k_pt s) p))"
    and "\<not> bit (h_sstatus (k_hart s c)) 8" "h_scause (k_hart s c) = 8" "get_tf p TF_a7 s = 11"
  shows "\<exists>s'. usertrap c s =
      Ret (ToUserRet (TRAMPOLINE + (a_userret (k_links s) - a_trampoline (k_links s))) (MAKE_SATP (p_pagetable (procs (k_pt s) p))), s') \<and>
    get_tf p TF_a0 s' = of_int (namespace_pids (procs (k_pt s) p) ! ns_depth (nodes (k_pt s) n)) \<and>
    h_sepc (k_hart s' c) = h_sepc (k_hart s c) + 4 \<and>
    h_stvec (k_hart s' c) = TRAMPOLINE + (a_uservec (k_links s) - a_trampoline (k_links s)) \<and>
    \<not> bit (h_sstatus (k_hart s' c)) 8 \<and> bit (h_sstatus (k_hart s' c)) 5 \<and> \<not> bit (h_sstatus (k_hart s' c)) 1 \<and>
    get_tf p TF_kernel_satp s' = h_satp (k_hart s c) \<and> get_tf p TF_kernel_sp s' = p_kstack (procs (k_pt s) p) + of_nat PGSIZE \<and>
    get_tf p TF_kernel_trap s' = a_usertrap (k_links s) \<and> get_tf p TF_kernel_hartid s' = h_tp (k_hart s c) \<and>
    (\<forall>x. 40 \<le> unat (x - tf_of p s) \<and> (unat (x - tf_of p s) < 112 \<or> 120 \<le> unat (x - tf_of p s)) \<longrightarrow> vm_mem (k_vm s') x = vm_mem (k_vm s) x) \<and>
    k_pt s' = k_pt s"
proof -
  let ?v = "of_int (namespace_pids (procs (k_pt s) p) ! ns_depth (nodes (k_pt s) n)) :: u64"
  let ?s2 = "set_tf p TF_a0 ?v (in_syscall c p s)"
  have "h_sstatus (k_hart s c) AND SSTATUS_SPP = 0"
  proof (rule bit_eqI)
    have spp: "SSTATUS_SPP = 2 ^ 8" by simp
    show "bit (h_sstatus (k_hart s c) AND SSTATUS_SPP) i = bit 0 i" for i
      using assms(9) unfolding spp bit_and_iff bit_exp_iff by auto
  qed
  moreover have "sys_getpid c (in_syscall c p s) = Ret (?v, in_syscall c p s)" using sys_getpid_run[of c "in_syscall c p s" p n] assms by simp
  ultimately have run: "usertrap c s = Ret (ToUserRet (TRAMPOLINE + (a_userret (k_links s) - a_trampoline (k_links s)))
      (MAKE_SATP (p_pagetable (procs (k_pt s) p))), after_ret c p ?s2)"
    using assms by (intro usertrap_syscall[where h = "sys_getpid c"]) (simp_all add: syscalls_def)
  have out: "vm_mem (k_vm (after_ret c p ?s2)) x = vm_mem (k_vm s) x"
    if "40 \<le> unat (x - tf_of p s)" "unat (x - tf_of p s) < 112 \<or> 120 \<le> unat (x - tf_of p s)" for x
    using that by (simp add: after_ret_outside set_tf_outside in_syscall_def)
  have hart: "h_satp (k_hart ?s2 c) = h_satp (k_hart s c)" "h_tp (k_hart ?s2 c) = h_tp (k_hart s c)" by (simp_all add: in_syscall_def)
  have epc: "get_tf p TF_epc ?s2 = h_sepc (k_hart s c) + 4" "get_tf p TF_a0 ?s2 = ?v" by (simp_all add: get_set_tf in_syscall_def)
  show ?thesis
    using run out hart epc by (intro exI[of _ "after_ret c p ?s2"]) (simp add: after_ret_simps bit_simps)
qed

definition trap_kernel :: kernel where
  "trap_kernel = small_kernel\<lparr>
     k_pt := small_ptable\<lparr>procs := (procs small_ptable)(0 := zero_proc\<lparr>p_pid := 1, p_state := RUNNING, p_trapframe := 0x87000000, p_node := Some 0,
       namespace_pids := [5]\<rparr>)\<rparr>,
     k_vm := (k_vm small_kernel)\<lparr>vm_mem := st64 0x870000a8 11 (\<lambda>_. 0)\<rparr>,
     k_hart := (k_hart small_kernel)(0 := zero_hart\<lparr>h_scause := 8, h_sepc := 0x1234\<rparr>)\<rparr>"

theorem getpid_round_trip_witness:
  "\<exists>s'. usertrap 0 trap_kernel = Ret (ToUserRet (TRAMPOLINE + 0x9c) (MAKE_SATP 0), s') \<and>
    get_tf 0 TF_a0 s' = 5 \<and> h_sepc (k_hart s' 0) = 0x1238 \<and> bit (h_sstatus (k_hart s' 0)) 5"
proof -
  have pt: "procs (k_pt trap_kernel) 0 = zero_proc\<lparr>p_pid := 1, p_state := RUNNING, p_trapframe := 0x87000000, p_node := Some 0, namespace_pids := [5]\<rparr>"
    by (simp add: trap_kernel_def)
  have tf: "tf_of 0 trap_kernel = 0x87000000" by (simp add: tf_of_def pt)
  have "myproc 0 (k_pt trap_kernel) = Some 0" by (simp add: trap_kernel_def small_ptable_def myproc_def)
  moreover have "locks_free (k_pt trap_kernel)"
    by (simp add: trap_kernel_def small_ptable_def zero_ptable_def zero_proc_def locks_free_def lk_free_def)
  moreover have "ns_depth (nodes (k_pt trap_kernel) 0) = 0" by (simp add: trap_kernel_def small_ptable_def zero_ptable_def)
  moreover have "get_tf 0 TF_a7 trap_kernel = 11" by (simp add: get_tf_def tf) (simp add: trap_kernel_def)
  moreover have "k_hart trap_kernel 0 = zero_hart\<lparr>h_scause := 8, h_sepc := 0x1234\<rparr>" by (simp add: trap_kernel_def)
  moreover have "k_links trap_kernel = k_links zero_kernel" by (simp add: trap_kernel_def small_kernel_def)
  ultimately show ?thesis
    using getpid_round_trip[of 0 trap_kernel 0 0] tf pt by (auto simp: zero_proc_def zero_hart_def zero_kernel_def)
qed

end
