(* ===== verification/User_Sys.thy ===== *)
theory User_Sys
  imports Console
begin

text \<open>
  User programs. A program runs against a world that answers its system calls: \<open>'w\<close> is the state of that world and a function of
  type \<open>'w sysf\<close> gives, for a call, the value it returns, the bytes it stores in the memory of the caller, and the new state.
  Strings in user memory are lists of their bytes without the final zero byte. A program that runs for ever has no result.
\<close>

datatype ucall =
    Sys_fork | Sys_clone | Sys_wait | Sys_pipe
  | Sys_write int "u8 list" | Sys_read int int | Sys_close int | Sys_dup int
  | Sys_open "u8 list" int | Sys_mknod "u8 list" int int | Sys_unlink "u8 list" | Sys_fstat int
  | Sys_link "u8 list" "u8 list" | Sys_mkdir "u8 list" | Sys_chdir "u8 list"
  | Sys_kill int | Sys_exec "u8 list" "u8 list list" | Sys_getpid | Sys_sbrk int | Sys_sleep int | Sys_uptime | Sys_dummy
  | Sys_ps_list int | Sys_ps_info int | Sys_ps_pt0 int | Sys_ps_pt1 int u64 | Sys_ps_pt2 int u64
  | Sys_ps_copy int u64 int | Sys_ps_sleep_info int | Sys_mem_dump

type_synonym 'w sysf = "ucall \<Rightarrow> 'w \<Rightarrow> (int \<times> u8 list) \<times> 'w"

text \<open>How a program, or a part of it, ends: with a value, by \<open>exit\<close>, by a successful \<open>exec\<close>, or by an access outside its objects.\<close>

datatype 'a uout = Done 'a | Exited int | Became "u8 list" "u8 list list" | Crash

type_synonym ('a, 'w) uprog = "'w sysf \<Rightarrow> 'w \<Rightarrow> ('a uout \<times> 'w) option"

named_theorems uprog_simps \<open>evaluation of user programs\<close>

definition retU :: "'a \<Rightarrow> ('a, 'w) uprog" where
  "retU a sys w = Some (Done a, w)"

definition bindU :: "('a, 'w) uprog \<Rightarrow> ('a \<Rightarrow> ('b, 'w) uprog) \<Rightarrow> ('b, 'w) uprog" where
  "bindU m k sys w = Option.bind (m sys w) (\<lambda>(r, w').
    case r of Done a \<Rightarrow> k a sys w' | Exited n \<Rightarrow> Some (Exited n, w') | Became p as \<Rightarrow> Some (Became p as, w') | Crash \<Rightarrow> Some (Crash, w'))"

definition thenU :: "('a, 'w) uprog \<Rightarrow> ('b, 'w) uprog \<Rightarrow> ('b, 'w) uprog" where
  "thenU m k = bindU m (\<lambda>_. k)"

definition exitU :: "int \<Rightarrow> ('a, 'w) uprog" where
  "exitU n sys w = Some (Exited n, w)"

definition crashU :: "('a, 'w) uprog" where
  "crashU sys w = Some (Crash, w)"

definition whenU :: "bool \<Rightarrow> (unit, 'w) uprog \<Rightarrow> (unit, 'w) uprog" where
  "whenU b m = (if b then m else retU ())"

definition callU :: "ucall \<Rightarrow> (int \<times> u8 list, 'w) uprog" where
  "callU c sys w = (let (r, w') = sys c w in Some (Done r, w'))"

text \<open>A system call of which only the returned value is used, or none.\<close>

definition scall :: "ucall \<Rightarrow> (int, 'w) uprog" where
  "scall c = bindU (callU c) (\<lambda>(r, _). retU r)"

definition doU :: "ucall \<Rightarrow> (unit, 'w) uprog" where
  "doU c = bindU (callU c) (\<lambda>_. retU ())"

text \<open>\<open>exec\<close> returns only when it fails.\<close>

definition execU :: "u8 list \<Rightarrow> u8 list list \<Rightarrow> (unit, 'w) uprog" where
  "execU path argv sys w = (let ((r, _), w') = sys (Sys_exec path argv) w in if r < 0 then Some (Done (), w') else Some (Became path argv, w'))"

primrec forU :: "'x list \<Rightarrow> ('x \<Rightarrow> (unit, 'w) uprog) \<Rightarrow> (unit, 'w) uprog" where
  "forU [] f = retU ()"
| "forU (x # xs) f = thenU (f x) (forU xs f)"

lemmas uprog_defs = retU_def bindU_def thenU_def exitU_def crashU_def whenU_def callU_def scall_def doU_def execU_def

lemma bindU_mono [partial_function_mono]:
  assumes "mono_option (\<lambda>f. m f sys w)" "\<And>a w'. mono_option (\<lambda>f. k f a sys w')"
  shows "mono_option (\<lambda>f. bindU (m f) (\<lambda>a. k f a) sys w)"
  unfolding bindU_def
proof (rule bind_mono[OF assms(1)])
  fix x
  show "mono_option (\<lambda>f. case x of (r, w') \<Rightarrow> (case r of Done a \<Rightarrow> k f a sys w' | Exited n \<Rightarrow> Some (Exited n, w')
      | Became p as \<Rightarrow> Some (Became p as, w') | Crash \<Rightarrow> Some (Crash, w')))"
    by (cases x; cases "fst x") (auto intro: assms(2) option.const_mono)
qed

lemma ifU_mono [partial_function_mono]:
  assumes "mono_option (\<lambda>f. m f sys w)" "mono_option (\<lambda>f. k f sys w)"
  shows "mono_option (\<lambda>f. (if b then m f else k f) sys w)"
  using assms by (cases b) simp_all

lemma thenU_mono [partial_function_mono]:
  assumes "mono_option (\<lambda>f. m f sys w)" "\<And>w'. mono_option (\<lambda>f. k f sys w')"
  shows "mono_option (\<lambda>f. thenU (m f) (k f) sys w)"
  unfolding thenU_def by (rule bindU_mono) (fact assms)+

text \<open>Evaluation step by step.\<close>

lemma bindU_assoc: "bindU (bindU m f) g = bindU m (\<lambda>a. bindU (f a) g)"
  by (intro ext) (auto simp: bindU_def Option.bind_assoc split: uout.splits option.splits prod.splits intro!: Option.bind_cong)

lemma bindU_Done [uprog_simps]: "bindU (retU a) k = k a"
  by (intro ext) (simp add: retU_def bindU_def)

lemma bindU_exitU [uprog_simps]: "bindU (exitU n) k = exitU n"
  by (intro ext) (simp add: exitU_def bindU_def)

lemma bindU_crashU [uprog_simps]: "bindU crashU k = crashU"
  by (intro ext) (simp add: crashU_def bindU_def)

lemma bindU_if: "bindU (if b then m else m') k = (if b then bindU m k else bindU m' k)"
  by simp

lemma bindU_run: "m sys w = Some (Done a, w') \<Longrightarrow> bindU m k sys w = k a sys w'"
  by (simp add: bindU_def)

lemma thenU_run: "m sys w = Some (Done a, w') \<Longrightarrow> thenU m k sys w = k sys w'"
  by (simp add: bindU_def thenU_def)

end
