(* ===== verification/Ulib.thy ===== *)
theory Ulib
  imports User_Sys
begin

text \<open>
  \<open>user/ulib.c\<close>. The routines on memory are those of the source over byte memory; the loops without a bound are partial functions.
  The programs, whose strings are lists, use the versions on lists (\<open>strchr_list\<close>, \<open>strcmp_list\<close>, \<open>atoi_list\<close>), which agree with the
  routines on memory. Names that the kernel has too carry the prefix \<open>u_\<close>.
\<close>

section \<open>The routines\<close>

partial_function (option) strcpy :: "u64 \<Rightarrow> u64 \<Rightarrow> mem \<Rightarrow> mem option" where
  "strcpy s t m = (let m' = m(s := m t) in if m t \<noteq> 0 then strcpy (s + 1) (t + 1) m' else Some m')"

partial_function (option) strcmp :: "u64 \<Rightarrow> u64 \<Rightarrow> mem \<Rightarrow> int option" where
  "strcmp p q m = (if m p \<noteq> 0 \<and> m p = m q then strcmp (p + 1) (q + 1) m else Some (uint (m p) - uint (m q)))"

partial_function (option) u_strlen_loop :: "mem \<Rightarrow> u64 \<Rightarrow> nat \<Rightarrow> nat option" where
  "u_strlen_loop m s n = (if m (s + of_nat n) \<noteq> 0 then u_strlen_loop m s (n + 1) else Some n)"

definition u_strlen :: "u64 \<Rightarrow> mem \<Rightarrow> nat option" where
  "u_strlen s m = u_strlen_loop m s 0"

definition u_memset :: "u64 \<Rightarrow> int \<Rightarrow> nat \<Rightarrow> mem \<Rightarrow> mem" where
  "u_memset dst c n m = fold (\<lambda>i m. m(dst + of_nat i := word_of_int c)) [0..<n] m"

text \<open>The result is the address found, or 0.\<close>

partial_function (option) strchr :: "u64 \<Rightarrow> u8 \<Rightarrow> mem \<Rightarrow> u64 option" where
  "strchr s c m = (if m s = 0 then Some 0 else if m s = c then Some s else strchr (s + 1) c m)"

text \<open>\<open>gets\<close> returns the bytes it stores before the final zero byte.\<close>

primrec gets_loop :: "nat \<Rightarrow> u8 list \<Rightarrow> (u8 list, 'w) uprog" where
  "gets_loop 0 buf = retU buf"
| "gets_loop (Suc n) buf =
    bindU (callU (Sys_read 0 1)) (\<lambda>(cc, bs).
      if cc < 1 then retU buf
      else let c = hd (bs @ [0]) in
        if c = 10 \<or> c = 13 then retU (buf @ [c]) else gets_loop n (buf @ [c]))"

definition gets :: "int \<Rightarrow> (u8 list, 'w) uprog" where
  "gets mx = gets_loop (nat (mx - 1)) []"

text \<open>\<open>stat\<close> returns the result and the bytes of the \<open>struct stat\<close>.\<close>

definition stat :: "u8 list \<Rightarrow> (int \<times> u8 list, 'w) uprog" where
  "stat n =
    bindU (scall (Sys_open n 0)) (\<lambda>fd.
      if fd < 0 then retU (- 1, [])
      else bindU (callU (Sys_fstat fd)) (\<lambda>r. thenU (doU (Sys_close fd)) (retU r)))"

text \<open>The value is a 32-bit \<open>int\<close>, which wraps.\<close>

partial_function (option) atoi_loop :: "u64 \<Rightarrow> u32 \<Rightarrow> mem \<Rightarrow> u32 option" where
  "atoi_loop s n m = (if 48 \<le> m s \<and> m s \<le> 57 then atoi_loop (s + 1) (n * 10 + ucast (m s) - 48) m else Some n)"

definition atoi :: "u64 \<Rightarrow> mem \<Rightarrow> u32 option" where
  "atoi s m = atoi_loop s 0 m"

primrec u_move_up :: "nat \<Rightarrow> u64 \<Rightarrow> u64 \<Rightarrow> mem \<Rightarrow> mem" where
  "u_move_up 0 d s m = m"
| "u_move_up (Suc n) d s m = u_move_up n (d + 1) (s + 1) (m(d := m s))"

primrec u_move_down :: "nat \<Rightarrow> u64 \<Rightarrow> u64 \<Rightarrow> mem \<Rightarrow> mem" where
  "u_move_down 0 d s m = m"
| "u_move_down (Suc n) d s m = u_move_down n (d - 1) (s - 1) (m(d - 1 := m (s - 1)))"

definition u_memmove :: "u64 \<Rightarrow> u64 \<Rightarrow> int \<Rightarrow> mem \<Rightarrow> mem" where
  "u_memmove dst src n m =
    (if src > dst then u_move_up (nat n) dst src m
     else u_move_down (nat n) (dst + of_int n) (src + of_int n) m)"

primrec u_memcmp :: "u64 \<Rightarrow> u64 \<Rightarrow> nat \<Rightarrow> mem \<Rightarrow> int" where
  "u_memcmp p1 p2 0 m = 0"
| "u_memcmp p1 p2 (Suc n) m =
    (if m p1 \<noteq> m p2 then uint (m p1) - uint (m p2) else u_memcmp (p1 + 1) (p2 + 1) n m)"

definition u_memcpy :: "u64 \<Rightarrow> u64 \<Rightarrow> u32 \<Rightarrow> mem \<Rightarrow> mem" where
  "u_memcpy dst src n m = u_memmove dst src (sint n) m"

section \<open>On lists\<close>

fun strchr_list :: "u8 list \<Rightarrow> u8 \<Rightarrow> nat option" where
  "strchr_list [] c = None"
| "strchr_list (x # xs) c = (if x = 0 then None else if x = c then Some 0 else map_option Suc (strchr_list xs c))"

fun strcmp_list :: "u8 list \<Rightarrow> u8 list \<Rightarrow> int" where
  "strcmp_list (x # xs) (y # ys) = (if x = y then strcmp_list xs ys else uint x - uint y)"
| "strcmp_list (x # xs) [] = uint x"
| "strcmp_list [] (y # ys) = - uint y"
| "strcmp_list [] [] = 0"

fun atoi_list :: "u32 \<Rightarrow> u8 list \<Rightarrow> u32" where
  "atoi_list n [] = n"
| "atoi_list n (c # cs) = (if 48 \<le> c \<and> c \<le> 57 then atoi_list (n * 10 + ucast c - 48) cs else n)"

lemma cstr_at_Cons: "cstr_at m s (x # xs) \<longleftrightarrow> m s = x \<and> x \<noteq> 0 \<and> cstr_at m (s + 1) xs"
  unfolding cstr_at_def by (auto simp: less_Suc_eq_0_disj algebra_simps)

lemma cstr_at_Nil: "cstr_at m s [] \<longleftrightarrow> m s = 0"
  by (simp add: cstr_at_def)

lemmas cstr_at_simps = cstr_at_Cons cstr_at_Nil

lemma strchr_cstr:
  "cstr_at m s xs \<Longrightarrow> strchr s c m = Some (case strchr_list xs c of None \<Rightarrow> 0 | Some i \<Rightarrow> s + of_nat i)"
proof (induction xs arbitrary: s)
  case Nil
  then show ?case by (subst strchr.simps) (simp add: cstr_at_simps)
next
  case (Cons x xs)
  then show ?case by (subst strchr.simps) (auto simp: cstr_at_simps split: option.splits)
qed

lemma strcmp_cstr: "cstr_at m p xs \<Longrightarrow> cstr_at m q ys \<Longrightarrow> strcmp p q m = Some (strcmp_list xs ys)"
proof (induction xs ys arbitrary: p q rule: strcmp_list.induct)
  case (1 x xs y ys)
  then show ?case by (subst strcmp.simps) (auto simp: cstr_at_simps)
qed (subst strcmp.simps, auto simp: cstr_at_simps)+

lemma strcmp_list_0: "strcmp_list xs ys = 0 \<longleftrightarrow> xs = ys" if "0 \<notin> set xs" "0 \<notin> set ys"
  using that by (induction xs ys rule: strcmp_list.induct) (auto simp: uint_0_iff dest: word_eq_iff_unsigned[THEN iffD2])

lemma atoi_loop_cstr: "cstr_at m s xs \<Longrightarrow> atoi_loop s n m = Some (atoi_list n xs)"
proof (induction n xs arbitrary: s rule: atoi_list.induct)
  case (1 n)
  then show ?case by (subst atoi_loop.simps) (simp add: cstr_at_simps)
next
  case (2 n c cs)
  then show ?case by (subst atoi_loop.simps) (auto simp: cstr_at_simps)
qed

lemma atoi_cstr: "cstr_at m s xs \<Longrightarrow> atoi s m = Some (atoi_list 0 xs)"
  unfolding atoi_def by (rule atoi_loop_cstr)

text \<open>\<open>strchr\<close> finds the first occurrence.\<close>

lemma strchr_list_None: "0 \<notin> set xs \<Longrightarrow> strchr_list xs c = None \<longleftrightarrow> c \<notin> set xs"
  by (induction xs) auto

lemma strchr_list_split: "0 \<notin> set xs \<Longrightarrow> c \<notin> set xs \<Longrightarrow> c \<noteq> 0 \<Longrightarrow> strchr_list (xs @ c # ys) c = Some (length xs)"
  by (induction xs) auto

section \<open>Moving blocks\<close>

lemma u_move_up_eq: "u_move_up n d s m = move_up n d s m"
  by (induction n arbitrary: d s m) simp_all

lemma u_move_down_eq: "u_move_down n d s m = move_down n d s m"
  by (induction n arbitrary: d s m) simp_all

lemma u_memmove_copy:
  assumes k: "unat src + k < 2 ^ 64" "unat dst + k < 2 ^ 64"
  shows "u_memmove dst src (int k) m = copy_bytes dst src k m"
proof (cases "src > dst")
  case True
  then have lt: "unat dst < unat src" by (simp add: word_less_nat_alt)
  have "unat (dst - src) = 2 ^ 64 + unat dst - unat src" using lt by (simp add: unat_sub_if')
  then have "k \<le> unat (dst - src)" "k \<le> 2 ^ 64" using k(1) by simp_all
  then have "move_up k dst src m = copy_bytes dst src k m" by (simp add: move_up_copy)
  then show ?thesis using True unfolding u_memmove_def u_move_up_eq by simp
next
  case False
  then have le: "unat src \<le> unat dst" by (simp add: word_less_nat_alt)
  have "unat (src - dst) = 0 \<or> k \<le> unat (src - dst)" using le k(2) by (cases "src = dst") (auto simp: unat_sub_if')
  then have "move_down k (dst + of_nat k) (src + of_nat k) m = copy_bytes dst src k m" using k(1) by (simp add: move_down_copy)
  then show ?thesis using False unfolding u_memmove_def u_move_down_eq by simp
qed

end
