(* ===== verification/User_Printf.thy ===== *)
theory User_Printf
  imports Ulib
begin

text \<open>
  \<open>user/printf.c\<close>. Every character is written by a system call of its own. An argument is a 64-bit slot, from which \<open>%d\<close>, \<open>%x\<close> and \<open>%c\<close>
  take the lower half, or a string. Fetching an argument that was not passed is a crash.
\<close>

datatype uarg = UInt u32 | ULong u64 | UStr "u8 list option"

fun arg_int :: "uarg \<Rightarrow> u32 option" where
  "arg_int (UInt n) = Some n"
| "arg_int (ULong n) = Some (ucast n)"
| "arg_int (UStr s) = None"

fun arg_long :: "uarg \<Rightarrow> u64 option" where
  "arg_long (UInt n) = Some (scast n)"
| "arg_long (ULong n) = Some n"
| "arg_long (UStr s) = None"

definition u_putc :: "int \<Rightarrow> u8 \<Rightarrow> (unit, 'w) uprog" where
  "u_putc fd c = doU (Sys_write fd [c])"

definition u_digit :: "nat \<Rightarrow> u8" where
  "u_digit d = cbytes ''0123456789ABCDEF'' ! d"

text \<open>The digits are produced in reverse into \<open>buf\<close> and put out from its end.\<close>

definition u_printint :: "u32 \<Rightarrow> nat \<Rightarrow> bool \<Rightarrow> u8 list" where
  "u_printint xx base sg =
    (let neg = (sg \<and> xx <s 0); x = (if neg then - xx else xx)
     in (if neg then [45] else []) @ map u_digit (digit_loop 32 base (unat x) []))"

definition u_printptr :: "u64 \<Rightarrow> u8 list" where
  "u_printptr x = [48, 120] @ map (\<lambda>i. u_digit (unat (drop_bit 60 (push_bit (4 * i) x)))) [0..<16]"

text \<open>One conversion: what it puts out, and the arguments it leaves.\<close>

definition u_convert :: "u8 \<Rightarrow> uarg list \<Rightarrow> (u8 list \<times> uarg list) option" where
  "u_convert c as =
    (if c = 100 then (case as of a # as' \<Rightarrow> map_option (\<lambda>n. (u_printint n 10 True, as')) (arg_int a) | [] \<Rightarrow> None)
     else if c = 108 then (case as of a # as' \<Rightarrow> map_option (\<lambda>n. (u_printint (ucast n) 10 False, as')) (arg_long a) | [] \<Rightarrow> None)
     else if c = 120 then (case as of a # as' \<Rightarrow> map_option (\<lambda>n. (u_printint n 16 False, as')) (arg_int a) | [] \<Rightarrow> None)
     else if c = 112 then (case as of a # as' \<Rightarrow> map_option (\<lambda>n. (u_printptr n, as')) (arg_long a) | [] \<Rightarrow> None)
     else if c = 115 then (case as of UStr s # as' \<Rightarrow> Some (case s of None \<Rightarrow> cbytes ''(null)'' | Some cs \<Rightarrow> cs, as') | _ \<Rightarrow> None)
     else if c = 99 then (case as of a # as' \<Rightarrow> map_option (\<lambda>n. ([ucast n], as')) (arg_int a) | [] \<Rightarrow> None)
     else if c = 37 then Some ([37], as)
     else Some ([37, c], as))"

fun u_vprintf :: "int \<Rightarrow> u8 list \<Rightarrow> uarg list \<Rightarrow> (unit, 'w) uprog" where
  "u_vprintf fd [] as = retU ()"
| "u_vprintf fd [c] as = whenU (c \<noteq> 37) (u_putc fd c)"
| "u_vprintf fd (c # d # fmt) as =
    (if c \<noteq> 37 then thenU (u_putc fd c) (u_vprintf fd (d # fmt) as)
     else case u_convert d as of None \<Rightarrow> crashU | Some (out, as') \<Rightarrow> thenU (forU out (u_putc fd)) (u_vprintf fd fmt as'))"

definition u_fprintf :: "int \<Rightarrow> u8 list \<Rightarrow> uarg list \<Rightarrow> (unit, 'w) uprog" where
  "u_fprintf fd fmt as = u_vprintf fd fmt as"

definition u_printf :: "u8 list \<Rightarrow> uarg list \<Rightarrow> (unit, 'w) uprog" where
  "u_printf fmt as = u_vprintf 1 fmt as"

section \<open>What is printed can be read back\<close>

text \<open>The digits that \<open>digit_loop\<close> produces, as a number.\<close>

definition digits_value :: "nat \<Rightarrow> nat list \<Rightarrow> nat" where
  "digits_value base ds = foldl (\<lambda>n d. n * base + d) 0 ds"

lemma foldl_digits: "foldl (\<lambda>n d. n * b + d) a ds = a * b ^ length ds + foldl (\<lambda>n d. n * b + d) (0 :: nat) ds"
proof (induction ds arbitrary: a)
  case (Cons d ds)
  show ?case using Cons[of "a * b + d"] Cons[of d] by (simp add: algebra_simps)
qed simp

lemma digit_loop_value:
  "x < base ^ fuel \<Longrightarrow> 2 \<le> base \<Longrightarrow> 0 < fuel \<Longrightarrow> digits_value base (digit_loop fuel base x ds) = x * base ^ length ds + digits_value base ds"
proof (induction fuel base x ds rule: digit_loop.induct)
  case (2 fuel base x ds)
  have val: "digits_value base (x mod base # ds) = x mod base * base ^ length ds + digits_value base ds"
    unfolding digits_value_def using foldl_digits[of base "x mod base" ds] by simp
  show ?case
  proof (cases "x div base = 0")
    case True
    then have "x mod base = x" using "2.prems"(2) by (simp add: div_eq_0_iff)
    then show ?thesis using val True by (simp add: Let_def)
  next
    case False
    then have "0 < fuel" using "2.prems" by (cases fuel) (auto simp: div_eq_0_iff)
    moreover have "x div base < base ^ fuel" using "2.prems" by (simp add: less_mult_imp_div_less mult.commute)
    ultimately have "digits_value base (digit_loop fuel base (x div base) (x mod base # ds))
        = x div base * base ^ Suc (length ds) + digits_value base (x mod base # ds)"
      using "2.IH"[OF refl] False "2.prems"(2) by simp
    then show ?thesis using False unfolding val
      by (simp add: Let_def) (metis (no_types) add.assoc distrib_right div_mult_mod_eq mult.assoc)
  qed
qed simp

lemma digit_loop_digits: "0 < base \<Longrightarrow> set (digit_loop fuel base x ds) \<subseteq> {..<base} \<union> set ds"
proof (induction fuel base x ds rule: digit_loop.induct)
  case (2 fuel base x ds)
  then have "x mod base \<in> {..<base}" by simp
  then have "set (x mod base # ds) \<subseteq> {..<base} \<union> set ds" by auto
  then show ?case using "2.IH"[OF refl] "2.prems" unfolding digit_loop.simps Let_def
    by (cases "x div base = 0") (simp, force)
qed simp

lemma u_digit_nat: "d < 10 \<Longrightarrow> u_digit d = of_nat (48 + d)"
  by (auto simp: u_digit_def cbytes_def less_Suc_eq numeral_eq_Suc)

lemma atoi_list_digits:
  "set ds \<subseteq> {..<10} \<Longrightarrow> atoi_list (of_nat n) (map u_digit ds) = of_nat (foldl (\<lambda>n d. n * 10 + d) n ds)"
proof (induction ds arbitrary: n)
  case (Cons d ds)
  then have d: "d < 10" by simp
  then consider "d = 0" | "d = 1" | "d = 2" | "d = 3" | "d = 4" | "d = 5" | "d = 6" | "d = 7" | "d = 8" | "d = 9"
    by atomize_elim presburger
  then have r: "48 \<le> u_digit d \<and> u_digit d \<le> 57 \<and> (ucast (u_digit d) :: u32) = of_nat (48 + d)"
    by cases (simp_all add: u_digit_nat)
  then have "of_nat n * 10 + ucast (u_digit d) - 48 = (of_nat (n * 10 + d) :: u32)" by simp
  then show ?case using r Cons.IH[of "n * 10 + d"] Cons.prems by simp
qed simp

lemma atoi_list_printint:
  assumes "0 \<le> sint x"
  shows "atoi_list 0 (u_printint x 10 True) = x"
proof -
  let ?ds = "digit_loop 32 10 (unat x) []"
  have "\<not> x <s 0" using assms by (simp add: word_sless_alt)
  then have "u_printint x 10 True = map u_digit ?ds" by (simp add: u_printint_def)
  moreover have "set ?ds \<subseteq> {..<10}" using digit_loop_digits[of 10 32 "unat x" "[]"] by simp
  moreover have "unat x < 10 ^ 32" using unsigned_less[of x, where ?'a = nat] by simp
  then have "digits_value 10 ?ds = unat x" using digit_loop_value[of "unat x" 10 32 "[]"] by (simp add: digits_value_def)
  ultimately show ?thesis using atoi_list_digits[of ?ds 0] by (simp add: digits_value_def)
qed

end
