(* ===== verification/Grep.thy ===== *)
theory Grep
  imports User_Printf
begin

text \<open>
  \<open>user/grep.c\<close>: the matcher of Kernighan and Pike, the loop over the lines of a file, and \<open>main\<close>. The matcher is compared with a
  declarative meaning of patterns, and the loop with filtering the lines of the whole input, in whatever pieces it arrives.
\<close>

section \<open>The matcher\<close>

function (sequential) matchhere :: "u8 list \<Rightarrow> u8 list \<Rightarrow> bool" and matchstar :: "u8 \<Rightarrow> u8 list \<Rightarrow> u8 list \<Rightarrow> bool" where
  "matchhere [] tx = True"
| "matchhere [r] tx =
    (if r = 36 then tx = []
     else case tx of [] \<Rightarrow> False | t # ts \<Rightarrow> if r = 46 \<or> r = t then matchhere [] ts else False)"
| "matchhere (r # r' # re) tx =
    (if r' = 42 then matchstar r re tx
     else case tx of [] \<Rightarrow> False | t # ts \<Rightarrow> if r = 46 \<or> r = t then matchhere (r' # re) ts else False)"
| "matchstar c re tx =
    (if matchhere re tx then True
     else case tx of [] \<Rightarrow> False | t # ts \<Rightarrow> if t = c \<or> c = 46 then matchstar c re ts else False)"
  by pat_completeness auto
termination
  by (relation "inv_image (less_than <*lex*> less_than <*lex*> less_than)
      (\<lambda>x. case x of Inl (re, tx) \<Rightarrow> (length re, length tx, 0 :: nat) | Inr (c, re, tx) \<Rightarrow> (length re, length tx, 1))") auto

declare matchstar.simps [simp del]

primrec match_loop :: "u8 list \<Rightarrow> u8 list \<Rightarrow> bool" where
  "match_loop re [] = matchhere re []"
| "match_loop re (t # ts) = (if matchhere re (t # ts) then True else match_loop re ts)"

definition match :: "u8 list \<Rightarrow> u8 list \<Rightarrow> bool" where
  "match re tx = (case re of r # re' \<Rightarrow> if r = 94 then matchhere re' tx else match_loop re tx | [] \<Rightarrow> match_loop re tx)"

section \<open>The loop over the lines\<close>

abbreviation GREP_BUF :: nat where "GREP_BUF \<equiv> 1024"

text \<open>The inner loop: \<open>b\<close> is the filled part of the buffer from \<open>p\<close> on. The result is what is left at \<open>p\<close> when no newline follows.\<close>

function grep_lines :: "u8 list \<Rightarrow> u8 list \<Rightarrow> (u8 list, 'w) uprog" where
  "grep_lines pattern b =
    (case strchr_list b 10 of
       None \<Rightarrow> retU b
     | Some i \<Rightarrow>
         thenU (whenU (match pattern (take i b)) (doU (Sys_write 1 (take (Suc i) b))))
           (grep_lines pattern (drop (Suc i) b)))"
  by pat_completeness auto
termination
proof (relation "measure (\<lambda>(pattern, b). length b)")
  fix pattern b :: "u8 list" and i
  assume "strchr_list b 10 = Some i"
  then have "b \<noteq> []" by auto
  then show "((pattern, drop (Suc i) b), pattern, b) \<in> measure (\<lambda>(pattern, b). length b)" by simp
qed simp

partial_function (option) grep :: "u8 list \<Rightarrow> int \<Rightarrow> u8 list \<Rightarrow> 'w sysf \<Rightarrow> 'w \<Rightarrow> (unit uout \<times> 'w) option" where
  "grep pattern fd b sys w =
    bindU (callU (Sys_read fd (int GREP_BUF - int (length b) - 1))) (\<lambda>(n, bs).
      if n \<le> 0 then retU ()
      else bindU (grep_lines pattern (b @ bs)) (\<lambda>b'. grep pattern fd b')) sys w"

definition grep_files :: "u8 list \<Rightarrow> u8 list list \<Rightarrow> (unit, 'w) uprog" where
  "grep_files pattern files = forU files (\<lambda>f.
    bindU (scall (Sys_open f 0)) (\<lambda>fd.
      if fd < 0 then thenU (u_printf (cbytes ''grep: cannot open %s'' @ [10]) [UStr (Some f)]) (exitU 1)
      else thenU (grep pattern fd []) (doU (Sys_close fd))))"

definition grep_main :: "u8 list list \<Rightarrow> (unit, 'w) uprog" where
  "grep_main argv =
    (case argv of
       _ # pattern # files \<Rightarrow>
         if files = [] then thenU (grep pattern 0 []) (exitU 0)
         else thenU (grep_files pattern files) (exitU 0)
     | _ \<Rightarrow> thenU (u_fprintf 2 (cbytes ''usage: grep pattern [file ...]'' @ [10]) []) (exitU 1))"

section \<open>Meaning of patterns\<close>

text \<open>A pattern is a list of items, each a set of characters taken once or any number of times, and possibly an anchor at the end.\<close>

datatype item = One u8 | Many u8

definition accepts :: "u8 \<Rightarrow> u8 \<Rightarrow> bool" where
  "accepts c t \<longleftrightarrow> c = 46 \<or> t = c"

fun items :: "u8 list \<Rightarrow> item list \<times> bool" where
  "items [] = ([], False)"
| "items [r] = (if r = 36 then ([], True) else ([One r], False))"
| "items (r # r' # re) =
    (if r' = 42 then (let (is, e) = items re in (Many r # is, e))
     else let (is, e) = items (r' # re) in (One r # is, e))"

fun lang :: "item list \<Rightarrow> u8 list set" where
  "lang [] = {[]}"
| "lang (One c # is) = {t # w | t w. accepts c t \<and> w \<in> lang is}"
| "lang (Many c # is) = {u @ w | u w. (\<forall>t\<in>set u. accepts c t) \<and> w \<in> lang is}"

text \<open>What \<open>re\<close>, without an anchor at its start, says of a text at whose beginning it is tried.\<close>

definition here_spec :: "u8 list \<Rightarrow> u8 list \<Rightarrow> bool" where
  "here_spec re tx \<longleftrightarrow> (\<exists>v w. tx = v @ w \<and> v \<in> lang (fst (items re)) \<and> (snd (items re) \<longrightarrow> w = []))"

definition here_items :: "item list \<Rightarrow> bool \<Rightarrow> u8 list \<Rightarrow> bool" where
  "here_items is e tx \<longleftrightarrow> (\<exists>v w. tx = v @ w \<and> v \<in> lang is \<and> (e \<longrightarrow> w = []))"

lemma here_items_Nil: "here_items [] e tx \<longleftrightarrow> (e \<longrightarrow> tx = [])"
  by (auto simp: here_items_def)

lemma here_items_One: "here_items (One c # is) e tx \<longleftrightarrow> (\<exists>t ts. tx = t # ts \<and> accepts c t \<and> here_items is e ts)"
  unfolding here_items_def by (auto simp: Cons_eq_append_conv) blast+

lemma here_itemsI: "tx = v @ w \<Longrightarrow> v \<in> lang is \<Longrightarrow> (e \<Longrightarrow> w = []) \<Longrightarrow> here_items is e tx"
  unfolding here_items_def by blast

lemma here_items_Many:
  "here_items (Many c # is) e tx \<longleftrightarrow> (\<exists>u ts. tx = u @ ts \<and> (\<forall>t\<in>set u. accepts c t) \<and> here_items is e ts)"
proof
  assume "here_items (Many c # is) e tx"
  then obtain x w where "tx = x @ w" "x \<in> lang (Many c # is)" and w: "e \<longrightarrow> w = []" unfolding here_items_def by blast
  then obtain u v where uv: "tx = u @ v @ w" "\<forall>t\<in>set u. accepts c t" "v \<in> lang is" by auto
  have "here_items is e (v @ w)" using uv(3) w by (intro here_itemsI[OF refl]) blast+
  then show "\<exists>u ts. tx = u @ ts \<and> (\<forall>t\<in>set u. accepts c t) \<and> here_items is e ts" using uv(1,2) by blast
next
  assume "\<exists>u ts. tx = u @ ts \<and> (\<forall>t\<in>set u. accepts c t) \<and> here_items is e ts"
  then obtain u v w where uv: "tx = u @ v @ w" "\<forall>t\<in>set u. accepts c t" "v \<in> lang is" "e \<longrightarrow> w = []"
    unfolding here_items_def by blast
  then have "u @ v \<in> lang (Many c # is)" by auto
  then show "here_items (Many c # is) e tx" using uv(1,4) by (intro here_itemsI[of tx "u @ v" w]) simp_all
qed

lemma here_items_Many_step:
  "here_items (Many c # is) e tx \<longleftrightarrow>
    here_items is e tx \<or> (\<exists>t ts. tx = t # ts \<and> accepts c t \<and> here_items (Many c # is) e ts)" (is "?L = (?A \<or> ?B)")
proof
  assume ?L
  then obtain u ts where u: "tx = u @ ts" "\<forall>t\<in>set u. accepts c t" "here_items is e ts" unfolding here_items_Many by blast
  show "?A \<or> ?B"
  proof (cases u)
    case Nil
    then show ?thesis using u by simp
  next
    case (Cons a u')
    then have "here_items (Many c # is) e (u' @ ts)" using u(2,3) unfolding here_items_Many by auto
    then show ?thesis using u(1,2) Cons by simp
  qed
next
  assume "?A \<or> ?B"
  then show ?L
  proof
    assume ?A
    then show ?L unfolding here_items_Many by (intro exI[of _ "[]"] exI[of _ tx]) simp
  next
    assume ?B
    then obtain t u ts where u: "tx = t # u @ ts" "accepts c t" "\<forall>t\<in>set u. accepts c t" "here_items is e ts"
      unfolding here_items_Many by blast
    then show ?L unfolding here_items_Many by (intro exI[of _ "t # u"] exI[of _ ts]) simp
  qed
qed

lemma here_spec_items: "here_spec re = here_items (fst (items re)) (snd (items re))"
  by (intro ext) (simp add: here_spec_def here_items_def)

lemma matcher_correct:
  "matchhere re tx \<longleftrightarrow> here_items (fst (items re)) (snd (items re)) tx"
  "matchstar c re tx \<longleftrightarrow> here_items (Many c # fst (items re)) (snd (items re)) tx"
proof (induction re tx and c re tx rule: matchhere_matchstar.induct)
  case (1 tx)
  then show ?case by (simp add: here_items_Nil)
next
  case (2 r tx)
  then show ?case by (auto simp: here_items_Nil here_items_One accepts_def split: list.splits)
next
  case (3 r r' re tx)
  show ?case
  proof (cases "r' = 42")
    case True
    then show ?thesis using 3 by (simp add: case_prod_beta)
  next
    case False
    then show ?thesis using 3 by (cases tx) (auto simp: here_items_One accepts_def case_prod_beta)
  qed
next
  case (4 c re tx)
  show ?case
  proof (cases tx)
    case Nil
    then show ?thesis using 4 by (simp add: matchstar.simps here_items_Many_step[of c _ _ "[]"])
  next
    case (Cons t ts)
    have "matchstar c re tx \<longleftrightarrow> matchhere re tx \<or> accepts c t \<and> matchstar c re ts"
      unfolding Cons by (subst matchstar.simps) (auto simp: accepts_def)
    moreover have "here_items (Many c # fst (items re)) (snd (items re)) tx \<longleftrightarrow>
        here_items (fst (items re)) (snd (items re)) tx \<or> accepts c t \<and> here_items (Many c # fst (items re)) (snd (items re)) ts"
      unfolding Cons by (subst here_items_Many_step) simp
    moreover have "matchhere re tx \<or> accepts c t \<longrightarrow> matchhere re tx \<or> matchstar c re ts = here_items (Many c # fst (items re)) (snd (items re)) ts"
      using 4 Cons by (auto simp: accepts_def)
    ultimately show ?thesis using "4.IH"(1) by blast
  qed
qed

text \<open>The whole pattern: it may be anchored at the start, and otherwise matches anywhere.\<close>

definition match_spec :: "u8 list \<Rightarrow> u8 list \<Rightarrow> bool" where
  "match_spec re tx \<longleftrightarrow>
    (\<exists>u v. tx = u @ v \<and> here_spec (if re \<noteq> [] \<and> hd re = 94 then tl re else re) v \<and> (re \<noteq> [] \<and> hd re = 94 \<longrightarrow> u = []))"

lemma match_loop_spec: "match_loop re tx \<longleftrightarrow> (\<exists>u v. tx = u @ v \<and> here_spec re v)"
proof (induction tx)
  case Nil
  then show ?case by (simp add: here_spec_items matcher_correct)
next
  case (Cons t ts)
  then show ?case by (auto simp: here_spec_items matcher_correct Cons_eq_append_conv)
qed

lemma match_correct: "match re tx = match_spec re tx"
  unfolding match_def match_spec_def by (auto simp: match_loop_spec here_spec_items matcher_correct split: list.splits)

section \<open>All the lines\<close>

text \<open>
  A world with one input, which arrives in pieces, and one output: \<open>read\<close> returns at most what it was asked for and at most one piece, and 0 at
  the end of the input.
\<close>

type_synonym stream_world = "u8 list list \<times> u8 list"

fun stream_sys :: "stream_world sysf" where
  "stream_sys (Sys_read fd n) (inp, out) =
    (case inp of
       [] \<Rightarrow> ((0, []), ([], out))
     | c # cs \<Rightarrow>
         if int (length c) \<le> n then ((int (length c), c), (cs, out))
         else ((int (length (take (nat n) c)), take (nat n) c), (drop (nat n) c # cs, out)))"
| "stream_sys (Sys_write fd bs) (inp, out) = ((int (length bs), []), (inp, out @ bs))"
| "stream_sys _ w = ((- 1, []), w)"

definition unlines :: "u8 list list \<Rightarrow> u8 list" where
  "unlines ls = concat (map (\<lambda>l. l @ [10]) ls)"

definition clean :: "u8 list \<Rightarrow> bool" where
  "clean l \<longleftrightarrow> 0 \<notin> set l \<and> 10 \<notin> set l"

lemma unlines_simps [simp]:
  "unlines [] = []" "unlines (l # ls) = l @ 10 # unlines ls" "unlines (ls @ ls') = unlines ls @ unlines ls'"
  by (simp_all add: unlines_def)

lemma zero_unlines: "0 \<in> set (unlines ls) \<longleftrightarrow> (\<exists>l\<in>set ls. 0 \<in> set l)"
  by (induction ls) simp_all

declare grep_lines.simps [simp del]

lemma grep_lines_stream:
  assumes "\<forall>l\<in>set ls. clean l" "clean r"
  shows "grep_lines pattern (unlines ls @ r) stream_sys (inp, out) = Some (Done r, (inp, out @ unlines (filter (match pattern) ls)))"
  using assms
proof (induction ls arbitrary: out)
  case Nil
  then have "strchr_list r 10 = None" by (simp add: strchr_list_None clean_def)
  then show ?case by (subst grep_lines.simps) (simp add: retU_def)
next
  case (Cons l ls)
  then have "strchr_list (l @ 10 # unlines ls @ r) 10 = Some (length l)" by (simp add: strchr_list_split clean_def)
  then show ?case using Cons.IH[of "out @ l @ [10]"] Cons.IH[of out] Cons.prems
    by (subst grep_lines.simps) (simp add: uprog_defs)
qed

lemma first_line: "l @ 10 # x = l' @ 10 # y \<Longrightarrow> 10 \<notin> set l \<Longrightarrow> 10 \<notin> set l' \<Longrightarrow> l = l' \<and> x = (y :: u8 list)"
proof (induction l arbitrary: l')
  case Nil
  then show ?case by (cases l') auto
next
  case (Cons a l)
  then show ?case by (cases l') auto
qed

lemma lines_prefix:
  assumes "unlines ls @ x = unlines ls' @ rest" "\<forall>l\<in>set ls. clean l" "\<forall>l\<in>set ls'. clean l" "clean rest"
  shows "\<exists>ls2. ls' = ls @ ls2 \<and> x = unlines ls2 @ rest"
  using assms
proof (induction ls arbitrary: ls')
  case (Cons l ls)
  show ?case
  proof (cases ls')
    case Nil
    then have "10 \<in> set rest" using Cons.prems(1) by (metis append_Nil in_set_conv_decomp unlines_simps(1,2) append.assoc append_Cons)
    then show ?thesis using Cons.prems(4) by (simp add: clean_def)
  next
    case (Cons l' ls'')
    then have "l = l'" "unlines ls @ x = unlines ls'' @ rest"
      using first_line[of l "unlines ls @ x" l' "unlines ls'' @ rest"] Cons.prems by (auto simp: clean_def)
    then show ?thesis using Cons.IH[of ls''] Cons.prems Cons by auto
  qed
qed simp

lemma split_lines: "\<exists>ls r. d = unlines ls @ r \<and> 10 \<notin> set r \<and> (\<forall>l\<in>set ls. 10 \<notin> set l)"
proof (induction d rule: length_induct)
  case (1 d)
  show ?case
  proof (cases "10 \<in> set d")
    case True
    then obtain l d' where d: "d = l @ 10 # d'" "10 \<notin> set l" using split_list_first by metis
    then have "length d' < length d" by simp
    then obtain ls r where "d' = unlines ls @ r" "10 \<notin> set r" "\<forall>l\<in>set ls. 10 \<notin> set l" using "1.IH" by blast
    then show ?thesis using d by (intro exI[of _ "l # ls"] exI[of _ r]) simp
  next
    case False
    then show ?thesis by (intro exI[of _ "[]"] exI[of _ d]) simp
  qed
qed

definition fits :: "u8 list \<Rightarrow> bool" where
  "fits l \<longleftrightarrow> clean l \<and> length l + 2 \<le> GREP_BUF"

lemma partial_line_fits:
  assumes "r @ x = unlines ls @ rest" "10 \<notin> set r" "\<forall>l\<in>set ls. fits l" "fits rest"
  shows "fits r"
proof (cases ls)
  case Nil
  then have "rest = r @ x" using assms(1) by simp
  then show ?thesis using assms(4) by (auto simp: fits_def clean_def)
next
  case (Cons l ls')
  then have eq: "r @ x = l @ 10 # unlines ls' @ rest" using assms(1) by simp
  have "\<exists>us. l = r @ us"
    using eq assms(2) unfolding append_eq_append_conv2 by (auto simp: append_eq_Cons_conv)
  then show ?thesis using assms(3) Cons by (auto simp: fits_def clean_def)
qed

text \<open>One turn of the outer loop.\<close>

lemma grep_end: "grep pattern fd b stream_sys ([], out) = Some (Done (), ([], out))"
  by (subst grep.simps) (simp add: uprog_defs)

lemma grep_turn:
  assumes "fits b" "c \<noteq> []" "\<forall>l\<in>set ls. clean l" "clean r" "b @ take (GREP_BUF - 1 - length b) c = unlines ls @ r"
  shows "grep pattern fd b stream_sys (c # cs, out) =
    grep pattern fd r stream_sys
      (if length c \<le> GREP_BUF - 1 - length b then cs else drop (GREP_BUF - 1 - length b) c # cs, out @ unlines (filter (match pattern) ls))"
proof -
  let ?k = "GREP_BUF - 1 - length b"
  let ?cs = "if length c \<le> ?k then cs else drop ?k c # cs"
  have k: "int GREP_BUF - int (length b) - 1 = int ?k" "0 < ?k" using assms(1) by (auto simp: fits_def)
  have "stream_sys (Sys_read fd (int GREP_BUF - int (length b) - 1)) (c # cs, out) = ((int (length (take ?k c)), take ?k c), (?cs, out))"
    unfolding k(1) by simp
  moreover have "0 < length (take ?k c)" using k(2) assms(2) by simp
  ultimately show ?thesis
    using grep_lines_stream[OF assms(3,4), of pattern ?cs out] unfolding assms(5)[symmetric]
    by (subst grep.simps) (simp add: callU_def bindU_def)
qed

lemma grep_stream:
  assumes "b @ concat cs = unlines ls @ rest" "10 \<notin> set b" "\<forall>l\<in>set ls. fits l" "fits rest" "[] \<notin> set cs"
  shows "grep pattern fd b stream_sys (cs, out) = Some (Done (), ([], out @ unlines (filter (match pattern) ls)))"
  using assms
proof (induction "length (concat cs)" arbitrary: b cs ls out rule: less_induct)
  case less
  have b: "fits b" using partial_line_fits[of b "concat cs" ls rest] less.prems by simp
  show ?case
  proof (cases cs)
    case Nil
    have "ls = []"
    proof (cases ls)
      case (Cons l ls')
      then have "10 \<in> set b" using less.prems(1) Nil by simp
      then show ?thesis using less.prems(2) by simp
    qed simp
    then show ?thesis using Nil by (simp add: grep_end)
  next
    case (Cons c cs')
    let ?k = "GREP_BUF - 1 - length b"
    let ?cs = "if length c \<le> ?k then cs' else drop ?k c # cs'"
    have c: "c \<noteq> []" "[] \<notin> set ?cs" and k: "0 < ?k" using less.prems(5) Cons b by (auto simp: fits_def)
    have tail: "concat cs = take ?k c @ concat ?cs" unfolding Cons by (cases "length c \<le> ?k") simp_all
    obtain ls1 r where s: "b @ take ?k c = unlines ls1 @ r" "10 \<notin> set r" "\<forall>l\<in>set ls1. 10 \<notin> set l" using split_lines by blast
    have all: "unlines ls1 @ r @ concat ?cs = unlines ls @ rest" using less.prems(1) tail s(1) by (metis append.assoc)
    have "0 \<notin> set (unlines ls @ rest)" using less.prems(3,4) by (auto simp: zero_unlines fits_def clean_def)
    then have cl: "\<forall>l\<in>set ls1. clean l" "clean r" using s(2,3) unfolding all[symmetric] by (auto simp: zero_unlines clean_def)
    obtain ls2 where ls: "ls = ls1 @ ls2" and r: "r @ concat ?cs = unlines ls2 @ rest"
      using lines_prefix[OF all cl(1)] less.prems(3,4) by (auto simp: fits_def)
    have "length (concat ?cs) < length (concat cs)" using tail k c(1) by simp
    then have "grep pattern fd r stream_sys (?cs, out @ unlines (filter (match pattern) ls1))
        = Some (Done (), ([], (out @ unlines (filter (match pattern) ls1)) @ unlines (filter (match pattern) ls2)))"
      using r s(2) less.prems(3,4) c(2) unfolding ls by (intro less.hyps) simp_all
    then show ?thesis using grep_turn[OF b c(1) cl s(1)] unfolding Cons ls by simp
  qed
qed

end
