(* ===== verification/Shell.thy ===== *)
theory Shell
  imports User_Printf
begin

text \<open>
  \<open>user/sh.c\<close>: the command parser, \<open>nulterminate\<close>, \<open>runcmd\<close> and \<open>main\<close>. A pointer into the input line is the part of the line from it to
  the end, where a zero byte is read. The four parsing functions that call each other carry a bound on the depth of their recursion;
  \<open>parsecmd\<close> gives them a bound that is never reached. Allocating the nodes of the command is taken to succeed.
\<close>

abbreviation MAXARGS :: nat where "MAXARGS \<equiv> 10"

type_synonym ptr = "u8 list"

text \<open>A node keeps, for every string, the pointers to its first character and past its last one.\<close>

datatype cmd =
    EXEC "(ptr \<times> ptr) list"
  | REDIR cmd "ptr \<times> ptr" int int
  | PIPE cmd cmd
  | LIST cmd cmd
  | BACK cmd

datatype 'a presult = POk 'a | PPanic "u8 list" | PFuel

fun bindP :: "'a presult \<Rightarrow> ('a \<Rightarrow> 'b presult) \<Rightarrow> 'b presult" where
  "bindP (POk a) k = k a"
| "bindP (PPanic msg) k = PPanic msg"
| "bindP PFuel k = PFuel"

definition panicP :: "string \<Rightarrow> 'a presult" where
  "panicP msg = PPanic (cbytes msg @ [10])"

section \<open>Tokens\<close>

definition whitespace :: "u8 list" where
  "whitespace = [32, 9, 13, 10, 11]"

definition symbols :: "u8 list" where
  "symbols = cbytes ''<|>&;()''"

definition one_of :: "u8 list \<Rightarrow> u8 \<Rightarrow> bool" where
  "one_of cs c = (strchr_list cs c \<noteq> None)"

definition star :: "ptr \<Rightarrow> u8" where
  "star s = (case s of [] \<Rightarrow> 0 | c # _ \<Rightarrow> c)"

fun skip_white :: "ptr \<Rightarrow> ptr" where
  "skip_white [] = []"
| "skip_white (c # s) = (if one_of whitespace c then skip_white s else c # s)"

fun skip_word :: "ptr \<Rightarrow> ptr" where
  "skip_word [] = []"
| "skip_word (c # s) = (if \<not> one_of whitespace c \<and> \<not> one_of symbols c then skip_word s else c # s)"

text \<open>The token at a character that is not white space, and where it ends.\<close>

definition token_at :: "ptr \<Rightarrow> u8 \<times> ptr" where
  "token_at s =
    (if star s = 0 then (0, s)
     else if star s \<in> set (cbytes ''|();&<'') then (star s, tl s)
     else if star s = 62 then (if star (tl s) = 62 then (43, tl (tl s)) else (62, tl s))
     else (97, skip_word s))"

text \<open>The token, where it starts, where it ends, and where parsing goes on.\<close>

definition gettoken :: "ptr \<Rightarrow> u8 \<times> ptr \<times> ptr \<times> ptr" where
  "gettoken ps = (let q = skip_white ps; (ret, eq) = token_at q in (ret, q, eq, skip_white eq))"

definition peek :: "ptr \<Rightarrow> string \<Rightarrow> ptr \<times> bool" where
  "peek ps toks = (let s = skip_white ps in (s, star s \<noteq> 0 \<and> one_of (cbytes toks) (star s)))"

definition after_token :: "ptr \<Rightarrow> ptr" where
  "after_token ps = snd (snd (snd (gettoken ps)))"

lemma skip_white_length: "length (skip_white s) \<le> length s"
  by (induction s) auto

lemma skip_word_length: "length (skip_word s) \<le> length s"
  by (induction s) auto

lemma skip_white_idem [simp]: "skip_white (skip_white s) = skip_white s"
  by (induction s) auto

lemma skip_word_progress: "star q \<noteq> 0 \<Longrightarrow> \<not> one_of whitespace (star q) \<Longrightarrow> \<not> one_of symbols (star q) \<Longrightarrow> length (skip_word q) < length q"
  using skip_word_length by (cases q) (auto simp: star_def less_Suc_eq_le)

lemma skip_white_stops: "\<not> one_of whitespace (star (skip_white s))"
  by (induction s) (auto simp: star_def one_of_def whitespace_def)

lemma token_at_progress:
  assumes "token_at s = (tok, eq)" "\<not> one_of whitespace (star s)"
  shows "length eq \<le> length s" "tok \<noteq> 0 \<Longrightarrow> length eq < length s"
proof -
  have word: "length (skip_word s) < length s" if "star s \<noteq> 0" "star s \<notin> set (cbytes ''|();&<'')" "star s \<noteq> 62"
    using that assms(2) by (intro skip_word_progress) (auto simp: one_of_def symbols_def cbytes_def)
  show "length eq \<le> length s" using assms(1) word by (auto simp: token_at_def split: if_splits)
  show "length eq < length s" if "tok \<noteq> 0"
    using assms(1) that word by (cases s) (auto simp: token_at_def star_def split: if_splits)
qed

lemma gettoken_progress:
  assumes "gettoken s = (tok, q, eq, s')"
  shows "length s' \<le> length s" "tok \<noteq> 0 \<Longrightarrow> length s' < length s"
proof -
  have t: "token_at (skip_white s) = (tok, eq)" "s' = skip_white eq" using assms by (auto simp: gettoken_def Let_def split: prod.splits)
  then have "length s' \<le> length eq" "length (skip_white s) \<le> length s" by (simp_all add: skip_white_length)
  then show "length s' \<le> length s" "tok \<noteq> 0 \<Longrightarrow> length s' < length s"
    using token_at_progress[OF t(1) skip_white_stops] by auto
qed

lemma peek_length: "length (fst (peek s toks)) \<le> length s"
  by (simp add: peek_def Let_def skip_white_length)

lemma gettoken_after_peek:
  assumes "snd (peek s toks)" "gettoken (fst (peek s toks)) = (tok, q, eq, s'')"
  shows "length s'' < length s"
proof -
  have "star (skip_white s) \<noteq> 0" using assms(1) by (auto simp: peek_def Let_def)
  then have "tok \<noteq> 0" using assms(2) by (auto simp: peek_def gettoken_def token_at_def Let_def split: if_splits)
  then show ?thesis using gettoken_progress(2)[OF assms(2)] peek_length[of s toks] by linarith
qed

lemma after_token_peek: "snd (peek s toks) \<Longrightarrow> length (after_token (fst (peek s toks))) < length s"
  using gettoken_after_peek unfolding after_token_def by (metis prod.collapse)

section \<open>Parsing\<close>

function back_loop :: "cmd \<Rightarrow> ptr \<Rightarrow> cmd \<times> ptr" where
  "back_loop cmd ps =
    (let (s, amp) = peek ps ''&'' in if amp then back_loop (BACK cmd) (after_token s) else (cmd, s))"
  by pat_completeness auto
termination
  by (relation "measure (\<lambda>(cmd, s). length s)") (simp, metis after_token_peek case_prod_conv fst_conv in_measure snd_conv)

definition redircmd :: "cmd \<Rightarrow> ptr \<times> ptr \<Rightarrow> int \<Rightarrow> int \<Rightarrow> cmd" where
  "redircmd subcmd file mode fd = REDIR subcmd file mode fd"

text \<open>The modes: read only; write, create and truncate; write and create.\<close>

definition redir_node :: "u8 \<Rightarrow> cmd \<Rightarrow> ptr \<times> ptr \<Rightarrow> cmd" where
  "redir_node tok cmd file =
    (if tok = 60 then redircmd cmd file 0 0
     else if tok = 62 then redircmd cmd file 0x601 1
     else if tok = 43 then redircmd cmd file 0x201 1
     else cmd)"

function parseredirs :: "cmd \<Rightarrow> ptr \<Rightarrow> (cmd \<times> ptr) presult" where
  "parseredirs cmd ps =
    (if \<not> snd (peek ps ''<>'') then POk (cmd, fst (peek ps ''<>''))
     else let (tok, _, _, s1) = gettoken (fst (peek ps ''<>'')); (word, q, eq, s2) = gettoken s1
       in if word \<noteq> 97 then panicP ''missing file for redirection'' else parseredirs (redir_node tok cmd (q, eq)) s2)"
  by pat_completeness auto
termination
proof (relation "measure (\<lambda>(cmd, s). length s)")
  show "wf (measure (\<lambda>(cmd :: cmd, s :: ptr). length s))" by simp
next
  fix cmd ps x tok y q1 z eq1 s1 u word v q w eq s2
  assume "\<not> \<not> snd (peek ps ''<>'')" "x = gettoken (fst (peek ps ''<>''))" "(tok, y) = x" "(q1, z) = y" "(eq1, s1) = z"
    "u = gettoken s1" "(word, v) = u" "(q, w) = v" "(eq, s2) = w"
  then have "gettoken (fst (peek ps ''<>'')) = (tok, q1, eq1, s1)" "gettoken s1 = (word, q, eq, s2)" "snd (peek ps ''<>'')" by metis+
  then have "length s1 < length ps" "length s2 \<le> length s1" using gettoken_after_peek gettoken_progress(1) by blast+
  then show "((redir_node tok cmd (q, eq), s2), cmd, ps) \<in> measure (\<lambda>(cmd, s). length s)" by simp
qed

text \<open>\<open>cmd->argv[argc] = q\<close>: the arguments are those of the \<open>execcmd\<close> below the redirections.\<close>

fun add_arg :: "ptr \<times> ptr \<Rightarrow> cmd \<Rightarrow> cmd" where
  "add_arg a (EXEC as) = EXEC (as @ [a])"
| "add_arg a (REDIR c f mode fd) = REDIR (add_arg a c) f mode fd"
| "add_arg a c = c"

function parse_args :: "cmd \<Rightarrow> nat \<Rightarrow> ptr \<Rightarrow> (cmd \<times> ptr) presult" where
  "parse_args ret argc ps =
    (if snd (peek ps ''|)&;'') then POk (ret, fst (peek ps ''|)&;''))
     else let (tok, q, eq, s) = gettoken (fst (peek ps ''|)&;''))
       in if tok = 0 then POk (ret, s)
          else if tok \<noteq> 97 then panicP ''syntax''
          else if Suc argc \<ge> MAXARGS then panicP ''too many args''
          else bindP (parseredirs (add_arg (q, eq) ret) s) (\<lambda>(ret', s'). parse_args ret' (Suc argc) s'))"
  by pat_completeness auto
termination
  by (relation "measure (\<lambda>(ret, argc, s). MAXARGS - argc)") auto

declare back_loop.simps [simp del] parseredirs.simps [simp del] parse_args.simps [simp del]

fun parseline :: "nat \<Rightarrow> ptr \<Rightarrow> (cmd \<times> ptr) presult"
  and parsepipe :: "nat \<Rightarrow> ptr \<Rightarrow> (cmd \<times> ptr) presult"
  and parseexec :: "nat \<Rightarrow> ptr \<Rightarrow> (cmd \<times> ptr) presult"
  and parseblock :: "nat \<Rightarrow> ptr \<Rightarrow> (cmd \<times> ptr) presult" where
  "parseline 0 ps = PFuel"
| "parseline (Suc n) ps =
    bindP (parsepipe n ps) (\<lambda>(cmd0, s0).
      let (cmd, s1) = back_loop cmd0 s0; (s, semi) = peek s1 '';''
      in if semi then bindP (parseline n (after_token s)) (\<lambda>(right, s'). POk (LIST cmd right, s')) else POk (cmd, s))"
| "parsepipe 0 ps = PFuel"
| "parsepipe (Suc n) ps =
    bindP (parseexec n ps) (\<lambda>(cmd, s0).
      let (s, bar) = peek s0 ''|''
      in if bar then bindP (parsepipe n (after_token s)) (\<lambda>(right, s'). POk (PIPE cmd right, s')) else POk (cmd, s))"
| "parseexec 0 ps = PFuel"
| "parseexec (Suc n) ps =
    (let (s, paren) = peek ps ''(''
     in if paren then parseblock n s
        else bindP (parseredirs (EXEC []) s) (\<lambda>(ret, s'). parse_args ret 0 s'))"
| "parseblock 0 ps = PFuel"
| "parseblock (Suc n) ps =
    (let (s, paren) = peek ps ''(''
     in if \<not> paren then panicP ''parseblock''
        else bindP (parseline n (after_token s)) (\<lambda>(cmd, s1).
          let (s2, closed) = peek s1 '')''
          in if \<not> closed then panicP ''syntax - missing )'' else parseredirs cmd (after_token s2)))"

section \<open>Cutting the strings\<close>

text \<open>The line is kept in a buffer with a zero byte at its end; \<open>es\<close> is the length of the line.\<close>

definition offset :: "nat \<Rightarrow> ptr \<Rightarrow> nat" where
  "offset es p = es - length p"

definition string_at :: "nat \<Rightarrow> u8 list \<Rightarrow> ptr \<Rightarrow> u8 list" where
  "string_at es buf p = cstr (drop (offset es p) buf)"

primrec nulterminate :: "nat \<Rightarrow> cmd \<Rightarrow> u8 list \<Rightarrow> u8 list" where
  "nulterminate es (EXEC as) buf = fold (\<lambda>a b. b[offset es (snd a) := 0]) as buf"
| "nulterminate es (REDIR c f mode fd) buf = (nulterminate es c buf)[offset es (snd f) := 0]"
| "nulterminate es (PIPE l r) buf = nulterminate es r (nulterminate es l buf)"
| "nulterminate es (LIST l r) buf = nulterminate es r (nulterminate es l buf)"
| "nulterminate es (BACK c) buf = nulterminate es c buf"

text \<open>\<open>parsecmd\<close> returns the command and the buffer. The recursion takes at most four calls for a character of the line.\<close>

definition parse_fuel :: "ptr \<Rightarrow> nat" where
  "parse_fuel s = 4 * length s + 4"

definition parsecmd :: "ptr \<Rightarrow> (cmd \<times> u8 list) presult" where
  "parsecmd s0 =
    bindP (parseline (parse_fuel s0) s0) (\<lambda>(cmd, s1).
      let s = fst (peek s1 [])
      in if s \<noteq> [] then PPanic (cbytes ''leftovers: '' @ s @ [10] @ cbytes ''syntax'' @ [10])
         else POk (cmd, nulterminate (length s0) cmd (s0 @ [0])))"

section \<open>Running a command\<close>

definition sh_panic :: "u8 list \<Rightarrow> ('a, 'w) uprog" where
  "sh_panic s = thenU (u_fprintf 2 (cbytes ''%s'' @ [10]) [UStr (Some s)]) (exitU 1)"

definition fork1 :: "(int, 'w) uprog" where
  "fork1 = bindU (scall Sys_fork) (\<lambda>pid. if pid = - 1 then sh_panic (cbytes ''fork'') else retU pid)"

definition pipe_fd :: "u8 list \<Rightarrow> nat \<Rightarrow> int" where
  "pipe_fd bs i = sint (of_nat (get_le 4 (4 * i) bs) :: u32)"

text \<open>\<open>str\<close> reads the string at a pointer.\<close>

primrec runcmd :: "(ptr \<Rightarrow> u8 list) \<Rightarrow> cmd \<Rightarrow> (unit, 'w) uprog" where
  "runcmd str (EXEC as) =
    (case map (str \<circ> fst) as of
       [] \<Rightarrow> exitU 1
     | path # argv \<Rightarrow>
         thenU (execU path (path # argv))
         (thenU (u_fprintf 2 (cbytes ''exec %s failed'' @ [10]) [UStr (Some path)]) (exitU 0)))"
| "runcmd str (REDIR c f mode fd) =
    thenU (doU (Sys_close fd))
    (bindU (scall (Sys_open (str (fst f)) mode)) (\<lambda>r.
      if r < 0 then thenU (u_fprintf 2 (cbytes ''open %s failed'' @ [10]) [UStr (Some (str (fst f)))]) (exitU 1)
      else thenU (runcmd str c) (exitU 0)))"
| "runcmd str (LIST l r) =
    bindU fork1 (\<lambda>pid.
    thenU (whenU (pid = 0) (runcmd str l))
    (thenU (doU Sys_wait) (thenU (runcmd str r) (exitU 0))))"
| "runcmd str (PIPE l r) =
    bindU (callU Sys_pipe) (\<lambda>(e, bs).
      if e < 0 then sh_panic (cbytes ''pipe'')
      else let p0 = pipe_fd bs 0; p1 = pipe_fd bs 1 in
        bindU fork1 (\<lambda>pid.
        thenU (whenU (pid = 0)
          (thenU (doU (Sys_close 1)) (thenU (doU (Sys_dup p1)) (thenU (doU (Sys_close p0)) (thenU (doU (Sys_close p1)) (runcmd str l))))))
        (bindU fork1 (\<lambda>pid'.
         thenU (whenU (pid' = 0)
          (thenU (doU (Sys_close 0)) (thenU (doU (Sys_dup p0)) (thenU (doU (Sys_close p0)) (thenU (doU (Sys_close p1)) (runcmd str r))))))
         (thenU (doU (Sys_close p0))
         (thenU (doU (Sys_close p1))
         (thenU (doU Sys_wait) (thenU (doU Sys_wait) (exitU 0)))))))))"
| "runcmd str (BACK c) =
    bindU fork1 (\<lambda>pid. thenU (whenU (pid = 0) (runcmd str c)) (exitU 0))"

text \<open>\<open>getcmd\<close> returns its result and the string in the buffer.\<close>

definition getcmd :: "int \<Rightarrow> (int \<times> u8 list, 'w) uprog" where
  "getcmd nbuf =
    thenU (doU (Sys_write 2 (cbytes ''$ '')))
    (bindU (gets nbuf) (\<lambda>bs. let s = cstr bs in retU (if s = [] then - 1 else 0, s)))"

text \<open>What the child of the shell does with a line: \<open>runcmd(parsecmd(buf))\<close>.\<close>

definition run_line :: "u8 list \<Rightarrow> (unit, 'w) uprog" where
  "run_line s =
    (case parsecmd s of
       POk (cmd, buf) \<Rightarrow> runcmd (string_at (length s) buf) cmd
     | PPanic msg \<Rightarrow> thenU (forU msg (u_putc 2)) (exitU 1)
     | PFuel \<Rightarrow> crashU)"

partial_function (option) open_console :: "'w sysf \<Rightarrow> 'w \<Rightarrow> (unit uout \<times> 'w) option" where
  "open_console sys w =
    bindU (scall (Sys_open (cbytes ''console'') 2)) (\<lambda>fd.
      if fd < 0 then retU () else if fd \<ge> 3 then doU (Sys_close fd) else open_console) sys w"

partial_function (option) sh_loop :: "'w sysf \<Rightarrow> 'w \<Rightarrow> (unit uout \<times> 'w) option" where
  "sh_loop sys w =
    bindU (getcmd 100) (\<lambda>r.
      if fst r < 0 then exitU 0
      else if take 3 (snd r) = cbytes ''cd '' then
        thenU (bindU (scall (Sys_chdir (drop 3 (butlast (snd r))))) (\<lambda>e.
          whenU (e < 0) (u_fprintf 2 (cbytes ''cannot cd %s'' @ [10]) [UStr (Some (drop 3 (butlast (snd r))))])))
        sh_loop
      else bindU fork1 (\<lambda>pid. thenU (whenU (pid = 0) (run_line (snd r))) (thenU (doU Sys_wait) sh_loop))) sys w"

definition sh_main :: "(unit, 'w) uprog" where
  "sh_main = thenU open_console sh_loop"

end
