(* ===== verification/Shell_Correct.thy ===== *)
theory Shell_Correct
  imports Shell "HOL-Library.Sublist"
begin

text \<open>
  The parser of the shell: on every line it ends within its bound, the pointers it leaves in the command mark words of the line, and after
  \<open>nulterminate\<close> the strings at those pointers are these words.
\<close>

section \<open>Words of the line\<close>

definition wordc :: "u8 \<Rightarrow> bool" where
  "wordc c \<longleftrightarrow> c \<noteq> 0 \<and> \<not> one_of whitespace c \<and> \<not> one_of symbols c"

definition is_word :: "u8 list \<Rightarrow> bool" where
  "is_word w \<longleftrightarrow> w \<noteq> [] \<and> (\<forall>c\<in>set w. wordc c)"

definition good_tok :: "ptr \<Rightarrow> ptr \<times> ptr \<Rightarrow> bool" where
  "good_tok s t \<longleftrightarrow> suffix (fst t) s \<and> (\<exists>w. fst t = w @ snd t \<and> is_word w) \<and> \<not> wordc (star (snd t))"

definition redir_modes :: "(int \<times> int) set" where
  "redir_modes = {(0, 0), (0x601, 1), (0x201, 1)}"

primrec good_cmd :: "ptr \<Rightarrow> cmd \<Rightarrow> bool" where
  "good_cmd s (EXEC as) \<longleftrightarrow> length as < MAXARGS \<and> (\<forall>a\<in>set as. good_tok s a)"
| "good_cmd s (REDIR c f mode fd) \<longleftrightarrow> good_cmd s c \<and> good_tok s f \<and> (mode, fd) \<in> redir_modes"
| "good_cmd s (PIPE l r) \<longleftrightarrow> good_cmd s l \<and> good_cmd s r"
| "good_cmd s (LIST l r) \<longleftrightarrow> good_cmd s l \<and> good_cmd s r"
| "good_cmd s (BACK c) \<longleftrightarrow> good_cmd s c"

lemma good_tok_suffix: "good_tok s' t \<Longrightarrow> suffix s' s \<Longrightarrow> good_tok s t"
  unfolding good_tok_def using suffix_order.trans by blast

lemma good_cmd_suffix: "good_cmd s' c \<Longrightarrow> suffix s' s \<Longrightarrow> good_cmd s c"
  by (induction c) (auto intro: good_tok_suffix)

lemma zero_suffix: "suffix s' s \<Longrightarrow> 0 \<notin> set s \<Longrightarrow> 0 \<notin> set s'"
  using set_mono_suffix by blast

section \<open>Tokens\<close>

lemma skip_white_suffix: "suffix (skip_white s) s"
  by (induction s) (auto intro: suffix_ConsI)

lemma skip_word_split: "0 \<notin> set s \<Longrightarrow> \<exists>w. s = w @ skip_word s \<and> (\<forall>c\<in>set w. wordc c) \<and> \<not> wordc (star (skip_word s))"
proof (induction s)
  case Nil
  then show ?case by (simp add: star_def wordc_def)
next
  case (Cons c s)
  show ?case
  proof (cases "wordc c")
    case True
    then obtain w where "s = w @ skip_word s" "\<forall>c\<in>set w. wordc c" "\<not> wordc (star (skip_word s))" using Cons by auto
    then show ?thesis using True by (intro exI[of _ "c # w"]) (auto simp: wordc_def)
  next
    case False
    then show ?thesis using Cons.prems by (intro exI[of _ "[]"]) (auto simp: wordc_def star_def)
  qed
qed

lemma token_at_suffix: "token_at s = (tok, eq) \<Longrightarrow> 0 \<notin> set s \<Longrightarrow> suffix eq s"
  using skip_word_split[of s] by (auto simp: token_at_def suffix_def split: if_splits) (metis append_Cons append_Nil list.collapse tl_Nil)+

lemma token_at_word:
  assumes "token_at s = (97, eq)" "0 \<notin> set s" "\<not> one_of whitespace (star s)"
  shows "good_tok s (s, eq)"
proof -
  have eq: "eq = skip_word s" and c: "star s \<noteq> 0" "star s \<notin> set (cbytes ''|();&<'')" "star s \<noteq> 62"
    using assms(1) by (auto simp: token_at_def cbytes_def split: if_splits)
  have "\<not> one_of symbols (star s)" using c by (auto simp: one_of_def symbols_def cbytes_def)
  then have "length (skip_word s) < length s" using c(1) assms(3) by (intro skip_word_progress)
  moreover obtain w where w: "s = w @ skip_word s" "\<forall>c\<in>set w. wordc c" "\<not> wordc (star (skip_word s))"
    using skip_word_split[OF assms(2)] by blast
  ultimately have "w \<noteq> []" by auto
  then show ?thesis using w unfolding good_tok_def eq is_word_def by auto
qed

lemma gettoken_suffix:
  assumes "gettoken s = (tok, q, eq, s')" "0 \<notin> set s"
  shows "suffix s' s" "tok = 97 \<Longrightarrow> good_tok s (q, eq)"
proof -
  have t: "token_at (skip_white s) = (tok, eq)" "q = skip_white s" "s' = skip_white eq"
    using assms(1) by (auto simp: gettoken_def Let_def split: prod.splits)
  have z: "0 \<notin> set (skip_white s)" using assms(2) zero_suffix skip_white_suffix by blast
  have "suffix eq (skip_white s)" using token_at_suffix[OF t(1) z] .
  then show "suffix s' s" unfolding t(3) by (meson skip_white_suffix suffix_order.trans)
  show "good_tok s (q, eq)" if "tok = 97"
    using token_at_word[of "skip_white s" eq] t z that skip_white_stops good_tok_suffix skip_white_suffix by metis
qed

lemma peek_suffix: "suffix (fst (peek s toks)) s"
  by (simp add: peek_def Let_def skip_white_suffix)

lemma after_token_suffix: "0 \<notin> set s \<Longrightarrow> suffix (after_token s) s"
  using gettoken_suffix(1)[of s] unfolding after_token_def by (metis prod.collapse)

section \<open>The loops\<close>

text \<open>What every parsing function promises for the text \<open>s\<close>, as part of the line \<open>S\<close>.\<close>

definition parsed :: "ptr \<Rightarrow> ptr \<Rightarrow> (cmd \<times> ptr) presult \<Rightarrow> bool" where
  "parsed S s r \<longleftrightarrow> (case r of POk (c, s') \<Rightarrow> suffix s' s \<and> good_cmd S c | PPanic _ \<Rightarrow> True | PFuel \<Rightarrow> False)"

lemma parsed_simps [simp]:
  "parsed S s (POk (c, s')) \<longleftrightarrow> suffix s' s \<and> good_cmd S c" "parsed S s (panicP msg)" "parsed S s (PPanic m)" "\<not> parsed S s PFuel"
  by (simp_all add: parsed_def panicP_def)

lemma parsed_bind:
  assumes "parsed S s r" "\<And>c s'. suffix s' s \<Longrightarrow> good_cmd S c \<Longrightarrow> r = POk (c, s') \<Longrightarrow> parsed S s' (k (c, s'))"
  shows "parsed S s (bindP r k)"
proof (cases r)
  case (POk x)
  then obtain c s' where x: "r = POk (c, s')" by (cases x) auto
  then have "suffix s' s" "good_cmd S c" using assms(1) by simp_all
  then have "parsed S s' (k (c, s'))" using assms(2) x by blast
  then show ?thesis using x \<open>suffix s' s\<close> by (auto simp: parsed_def split: presult.splits intro: suffix_order.trans)
qed (use assms(1) in auto)

lemma parsed_suffix: "parsed S s' r \<Longrightarrow> suffix s' s \<Longrightarrow> parsed S s r"
  by (auto simp: parsed_def split: presult.splits intro: suffix_order.trans)

lemma back_loop_parsed:
  "good_cmd S c \<Longrightarrow> 0 \<notin> set s \<Longrightarrow> good_cmd S (fst (back_loop c s)) \<and> suffix (snd (back_loop c s)) s"
proof (induction c s rule: back_loop.induct)
  case (1 c s)
  let ?p = "peek s ''&''"
  show ?case
  proof (cases "snd ?p")
    case True
    have z: "0 \<notin> set (fst ?p)" using zero_suffix[OF peek_suffix "1.prems"(2)] .
    have a: "suffix (after_token (fst ?p)) s" using after_token_suffix[OF z] peek_suffix suffix_order.trans by blast
    then have "good_cmd S (fst (back_loop (BACK c) (after_token (fst ?p)))) \<and> suffix (snd (back_loop (BACK c) (after_token (fst ?p)))) (after_token (fst ?p))"
      using "1.IH"[OF refl prod.collapse True] "1.prems"(1) zero_suffix[OF a "1.prems"(2)] by simp
    moreover have "back_loop c s = back_loop (BACK c) (after_token (fst ?p))" using True by (subst back_loop.simps) (simp add: case_prod_beta)
    ultimately show ?thesis using a suffix_order.trans by metis
  next
    case False
    then have "back_loop c s = (c, fst ?p)" by (subst back_loop.simps) (simp add: case_prod_beta)
    then show ?thesis using "1.prems" peek_suffix by simp
  qed
qed

text \<open>The arguments of the \<open>execcmd\<close> below the redirections.\<close>

fun is_exec :: "cmd \<Rightarrow> bool" where
  "is_exec (EXEC as) = True"
| "is_exec (REDIR c f mode fd) = is_exec c"
| "is_exec c = False"

fun args_of :: "cmd \<Rightarrow> (ptr \<times> ptr) list" where
  "args_of (EXEC as) = as"
| "args_of (REDIR c f mode fd) = args_of c"
| "args_of c = []"

lemma redir_node_simps [simp]:
  "is_exec (redir_node tok c f) = is_exec c" "args_of (redir_node tok c f) = args_of c"
  by (simp_all add: redir_node_def redircmd_def)

lemma redir_node_good: "good_cmd S c \<Longrightarrow> good_tok S f \<Longrightarrow> good_cmd S (redir_node tok c f)"
  by (simp add: redir_node_def redircmd_def redir_modes_def)

lemma add_arg_simps:
  "is_exec (add_arg a c) = is_exec c" "is_exec c \<Longrightarrow> args_of (add_arg a c) = args_of c @ [a]"
  "is_exec c \<Longrightarrow> good_cmd S c \<Longrightarrow> good_tok S a \<Longrightarrow> Suc (length (args_of c)) < MAXARGS \<Longrightarrow> good_cmd S (add_arg a c)"
  by (induction a c rule: add_arg.induct) auto

lemma parseredirs_parsed:
  assumes "good_cmd S c" "0 \<notin> set s" "suffix s S"
  shows "parsed S s (parseredirs c s) \<and> (\<forall>c' s'. parseredirs c s = POk (c', s') \<longrightarrow> is_exec c' = is_exec c \<and> args_of c' = args_of c)"
  using assms
proof (induction c s rule: parseredirs.induct)
  case (1 c s)
  let ?p = "peek s ''<>''"
  show ?case
  proof (cases "snd ?p")
    case False
    then show ?thesis using "1.prems" peek_suffix by (subst (1 2) parseredirs.simps) simp
  next
    case True
    obtain tok q1 eq1 s1 where g1: "gettoken (fst ?p) = (tok, q1, eq1, s1)" by (metis prod_cases4)
    obtain wd q eq s2 where g2: "gettoken s1 = (wd, q, eq, s2)" by (metis prod_cases4)
    have step: "parseredirs c s = (if wd \<noteq> 97 then panicP ''missing file for redirection'' else parseredirs (redir_node tok c (q, eq)) s2)"
      using True g1 g2 by (subst parseredirs.simps) simp
    have s1: "suffix s1 s" using gettoken_suffix(1)[OF g1 zero_suffix[OF peek_suffix "1.prems"(2)]] peek_suffix suffix_order.trans by blast
    have z1: "0 \<notin> set s1" using zero_suffix[OF s1 "1.prems"(2)] .
    have s2: "suffix s2 s" using gettoken_suffix(1)[OF g2 z1] s1 suffix_order.trans by blast
    show ?thesis
    proof (cases "wd = 97")
      case w: True
      have "good_tok S (q, eq)" using gettoken_suffix(2)[OF g2 z1 w] s1 "1.prems"(3) good_tok_suffix by blast
      then have "good_cmd S (redir_node tok c (q, eq))" using "1.prems"(1) redir_node_good by blast
      then show ?thesis
        using "1.IH"[of "(tok, q1, eq1, s1)" tok "(q1, eq1, s1)" q1 "(eq1, s1)" eq1 s1 "(wd, q, eq, s2)" wd "(q, eq, s2)" q "(eq, s2)" eq s2]
          True g1 g2 w s2 zero_suffix[OF s2 "1.prems"(2)] suffix_order.trans[OF s2 "1.prems"(3)] parsed_suffix
        unfolding step by auto
    next
      case False
      then show ?thesis unfolding step by (simp add: panicP_def)
    qed
  qed
qed

lemma parse_args_parsed:
  assumes "good_cmd S c" "is_exec c" "length (args_of c) = argc" "0 \<notin> set s" "suffix s S"
  shows "parsed S s (parse_args c argc s)"
  using assms
proof (induction c argc s rule: parse_args.induct)
  case (1 c argc s)
  let ?p = "peek s ''|)&;''"
  obtain tok q eq s1 where g: "gettoken (fst ?p) = (tok, q, eq, s1)" by (metis prod_cases4)
  have z: "0 \<notin> set (fst ?p)" using zero_suffix[OF peek_suffix "1.prems"(4)] .
  have s1: "suffix s1 s" using gettoken_suffix(1)[OF g z] peek_suffix suffix_order.trans by blast
  have z1: "0 \<notin> set s1" using zero_suffix[OF s1 "1.prems"(4)] .
  have step: "parse_args c argc s =
      (if snd ?p then POk (c, fst ?p) else if tok = 0 then POk (c, s1) else if tok \<noteq> 97 then panicP ''syntax''
       else if Suc argc \<ge> MAXARGS then panicP ''too many args''
       else bindP (parseredirs (add_arg (q, eq) c) s1) (\<lambda>(c', s'). parse_args c' (Suc argc) s'))"
    using g by (subst parse_args.simps) simp
  show ?case
  proof (cases "\<not> snd ?p \<and> tok = 97 \<and> Suc argc < MAXARGS")
    case False
    then show ?thesis unfolding step using "1.prems"(1) peek_suffix s1 by auto
  next
    case True
    let ?c = "add_arg (q, eq) c"
    have "good_tok S (q, eq)" using gettoken_suffix(2)[OF g z] True good_tok_suffix peek_suffix suffix_order.trans "1.prems"(5) by metis
    then have c: "good_cmd S ?c" "is_exec ?c" "length (args_of ?c) = Suc argc" using "1.prems" True by (simp_all add: add_arg_simps)
    have r: "parsed S s1 (parseredirs ?c s1)"
      "parseredirs ?c s1 = POk (c', s') \<Longrightarrow> is_exec c' \<and> length (args_of c') = Suc argc" for c' s'
      using parseredirs_parsed[OF c(1) z1 suffix_order.trans[OF s1 "1.prems"(5)]] c(2,3) by auto
    have "parsed S s1 (bindP (parseredirs ?c s1) (\<lambda>(c', s'). parse_args c' (Suc argc) s'))"
    proof (rule parsed_bind[OF r(1)])
      fix c' s' assume a: "suffix s' s1" "good_cmd S c'" "parseredirs ?c s1 = POk (c', s')"
      have "suffix s' S" using a(1) s1 "1.prems"(5) suffix_order.trans by metis
      then show "parsed S s' (case (c', s') of (c', s') \<Rightarrow> parse_args c' (Suc argc) s')"
        using "1.IH"[of "(tok, q, eq, s1)" tok "(q, eq, s1)" q "(eq, s1)" eq s1 c' s'] g True a r(2)[OF a(3)] zero_suffix[OF a(1) z1]
        by simp
    qed
    then show ?thesis unfolding step using True s1 parsed_suffix by auto
  qed
qed

section \<open>The recursion\<close>

lemma token_after_peek:
  assumes "snd (peek s toks)" "0 \<notin> set s"
  shows "suffix (after_token (fst (peek s toks))) s" "length (after_token (fst (peek s toks))) < length s"
    "0 \<notin> set (after_token (fst (peek s toks)))"
proof -
  show a: "suffix (after_token (fst (peek s toks))) s"
    using after_token_suffix[OF zero_suffix[OF peek_suffix assms(2)]] peek_suffix suffix_order.trans by blast
  show "length (after_token (fst (peek s toks))) < length s" using after_token_peek[OF assms(1)] .
  show "0 \<notin> set (after_token (fst (peek s toks)))" using zero_suffix[OF a assms(2)] .
qed

lemma parseline_step:
  assumes "suffix s S" "0 \<notin> set S" "parsed S s (parsepipe n s)"
    and rec: "\<And>s'. suffix s' s \<Longrightarrow> length s' < length s \<Longrightarrow> parsed S s' (parseline n s')"
  shows "parsed S s (parseline (Suc n) s)"
  unfolding parseline.simps
proof (rule parsed_bind[OF assms(3)])
  fix c s0 assume a: "suffix s0 s" "good_cmd S c"
  have z: "0 \<notin> set s'" if "suffix s' s" for s' using that assms(1,2) zero_suffix suffix_order.trans by metis
  obtain c1 s1 where b: "back_loop c s0 = (c1, s1)" by (cases "back_loop c s0")
  have g: "good_cmd S c1" "suffix s1 s0" using back_loop_parsed[OF a(2) z[OF a(1)]] b by auto
  let ?p = "peek s1 '';''"
  have "parsed S s0 (bindP (parseline n (after_token (fst ?p))) (\<lambda>(right, s'). POk (LIST c1 right, s')))" if semi: "snd ?p"
  proof (rule parsed_suffix[OF parsed_bind])
    have s1: "suffix s1 s" using g(2) a(1) suffix_order.trans by blast
    note t = token_after_peek[OF semi z[OF s1]]
    show "parsed S (after_token (fst ?p)) (parseline n (after_token (fst ?p)))"
      using t(2) suffix_length_le[OF s1] suffix_order.trans[OF t(1) s1] by (intro rec) auto
    show "suffix (after_token (fst ?p)) s0" using t(1) g(2) suffix_order.trans by blast
  qed (use g in auto)
  then show "parsed S s0 (case (c, s0) of (cmd0, s0) \<Rightarrow> let (cmd, s1) = back_loop cmd0 s0; (s, semi) = peek s1 '';''
     in if semi then bindP (parseline n (after_token s)) (\<lambda>(right, s'). POk (LIST cmd right, s')) else POk (cmd, s))"
    using g peek_suffix[of s1 "'';''"] suffix_order.trans by (auto simp: b case_prod_beta)
qed

lemma parsepipe_step:
  assumes "suffix s S" "0 \<notin> set S" "parsed S s (parseexec n s)"
    and rec: "\<And>s'. suffix s' s \<Longrightarrow> length s' < length s \<Longrightarrow> parsed S s' (parsepipe n s')"
  shows "parsed S s (parsepipe (Suc n) s)"
  unfolding parsepipe.simps
proof (rule parsed_bind[OF assms(3)])
  fix c s0 assume a: "suffix s0 s" "good_cmd S c"
  have z: "0 \<notin> set s0" using a assms(1,2) zero_suffix suffix_order.trans by metis
  let ?p = "peek s0 ''|''"
  have "parsed S s0 (bindP (parsepipe n (after_token (fst ?p))) (\<lambda>(right, s'). POk (PIPE c right, s')))" if bar: "snd ?p"
  proof (rule parsed_suffix[OF parsed_bind])
    note t = token_after_peek[OF bar z]
    show "parsed S (after_token (fst ?p)) (parsepipe n (after_token (fst ?p)))"
      using t(2) suffix_length_le[OF a(1)] suffix_order.trans[OF t(1) a(1)] by (intro rec) auto
    show "suffix (after_token (fst ?p)) s0" using t(1) .
  qed (use a in auto)
  then show "parsed S s0 (case (c, s0) of (cmd, s0) \<Rightarrow> let (s, bar) = peek s0 ''|''
     in if bar then bindP (parsepipe n (after_token s)) (\<lambda>(right, s'). POk (PIPE cmd right, s')) else POk (cmd, s))"
    using a peek_suffix[of s0 "''|''"] by (auto simp: case_prod_beta)
qed

lemma parseexec_step:
  assumes "suffix s S" "0 \<notin> set S" and rec: "\<And>s'. suffix s' s \<Longrightarrow> parsed S s' (parseblock n s')"
  shows "parsed S s (parseexec (Suc n) s)"
proof -
  let ?s = "fst (peek s ''('')"
  have s: "suffix ?s s" "suffix ?s S" "0 \<notin> set ?s"
    using peek_suffix assms(1,2) zero_suffix suffix_order.trans by metis+
  have r: "parsed S ?s (parseredirs (EXEC []) ?s)" "parseredirs (EXEC []) ?s = POk (c, s') \<Longrightarrow> is_exec c \<and> args_of c = []" for c s'
    using parseredirs_parsed[of S "EXEC []" ?s] s by auto
  have "parsed S ?s (bindP (parseredirs (EXEC []) ?s) (\<lambda>(ret, s'). parse_args ret 0 s'))"
  proof (rule parsed_bind[OF r(1)])
    fix c s' assume a: "suffix s' ?s" "good_cmd S c" "parseredirs (EXEC []) ?s = POk (c, s')"
    show "parsed S s' (case (c, s') of (ret, s') \<Rightarrow> parse_args ret 0 s')"
      using parse_args_parsed[OF a(2)] r(2)[OF a(3)] zero_suffix[OF a(1) s(3)] suffix_order.trans[OF a(1) s(2)] by simp
  qed
  then show ?thesis using rec[OF s(1)] parsed_suffix[OF _ s(1)] by (simp add: case_prod_beta)
qed

lemma parseblock_step:
  assumes "suffix s S" "0 \<notin> set S"
    and rec: "\<And>s'. suffix s' s \<Longrightarrow> length s' < length s \<Longrightarrow> parsed S s' (parseline n s')"
  shows "parsed S s (parseblock (Suc n) s)"
proof (cases "snd (peek s ''('')")
  case True
  have z: "0 \<notin> set s'" if "suffix s' s" for s' using that assms(1,2) zero_suffix suffix_order.trans by metis
  let ?s = "after_token (fst (peek s ''(''))"
  note t = token_after_peek[OF True z[OF suffix_order.refl]]
  have "parsed S ?s (bindP (parseline n ?s) (\<lambda>(cmd, s1). let (s2, closed) = peek s1 '')''
      in if \<not> closed then panicP ''syntax - missing )'' else parseredirs cmd (after_token s2)))"
  proof (rule parsed_bind[OF rec[OF t(1,2)]])
    fix c s1 assume a: "suffix s1 ?s" "good_cmd S c"
    let ?p = "peek s1 '')''"
    have s1: "suffix s1 s" using a(1) t(1) suffix_order.trans by blast
    have "parsed S s1 (parseredirs c (after_token (fst ?p)))" if "snd ?p"
    proof -
      note t' = token_after_peek[OF that z[OF s1]]
      have "suffix (after_token (fst ?p)) S" using t'(1) s1 assms(1) suffix_order.trans by metis
      then show ?thesis using parseredirs_parsed[OF a(2) t'(3)] parsed_suffix[OF _ t'(1)] by blast
    qed
    then show "parsed S s1 (case (c, s1) of (cmd, s1) \<Rightarrow> let (s2, closed) = peek s1 '')''
        in if \<not> closed then panicP ''syntax - missing )'' else parseredirs cmd (after_token s2))"
      by (simp add: case_prod_beta)
  qed
  then show ?thesis using True parsed_suffix[OF _ t(1)] by (simp add: case_prod_beta)
next
  case False
  then show ?thesis by (simp add: case_prod_beta)
qed

text \<open>Four calls for every character are enough.\<close>

lemma parser_parsed:
  "suffix s S \<Longrightarrow> 0 \<notin> set S \<Longrightarrow>
    (4 * length s + 4 \<le> n \<longrightarrow> parsed S s (parseline n s)) \<and> (4 * length s + 3 \<le> n \<longrightarrow> parsed S s (parsepipe n s)) \<and>
    (4 * length s + 2 \<le> n \<longrightarrow> parsed S s (parseexec n s)) \<and> (4 * length s + 1 \<le> n \<longrightarrow> parsed S s (parseblock n s))"
proof (induction n arbitrary: s)
  case (Suc n)
  have IH: "4 * length s' + 4 \<le> n \<Longrightarrow> parsed S s' (parseline n s')" "4 * length s' + 3 \<le> n \<Longrightarrow> parsed S s' (parsepipe n s')"
    "4 * length s' + 2 \<le> n \<Longrightarrow> parsed S s' (parseexec n s')" "4 * length s' + 1 \<le> n \<Longrightarrow> parsed S s' (parseblock n s')" if "suffix s' s" for s'
    using Suc.IH[OF suffix_order.trans[OF that Suc.prems(1)] Suc.prems(2)] by auto
  have "parsed S s (parseline (Suc n) s)" if "4 * length s + 4 \<le> Suc n"
    using that by (intro parseline_step[OF Suc.prems] IH) auto
  moreover have "parsed S s (parsepipe (Suc n) s)" if "4 * length s + 3 \<le> Suc n"
    using that by (intro parsepipe_step[OF Suc.prems] IH) auto
  moreover have "parsed S s (parseexec (Suc n) s)" if "4 * length s + 2 \<le> Suc n"
    using that suffix_length_le by (intro parseexec_step[OF Suc.prems] IH) fastforce+
  moreover have "parsed S s (parseblock (Suc n) s)" if "4 * length s + 1 \<le> Suc n"
    using that by (intro parseblock_step[OF Suc.prems] IH) auto
  ultimately show ?case by blast
qed simp

lemma parseline_parsed: "0 \<notin> set s \<Longrightarrow> parsed s s (parseline (parse_fuel s) s)"
  using parser_parsed[of s s "parse_fuel s"] by (simp add: parse_fuel_def)

section \<open>The strings of a command\<close>

text \<open>A command with its strings in place of pointers: as the pointers mark them, and as they are read from the buffer.\<close>

datatype scmd = SExec "u8 list list" | SRedir scmd "u8 list" int int | SPipe scmd scmd | SList scmd scmd | SBack scmd

definition marked :: "ptr \<times> ptr \<Rightarrow> u8 list" where
  "marked t = take (length (fst t) - length (snd t)) (fst t)"

primrec strings :: "(ptr \<times> ptr \<Rightarrow> u8 list) \<Rightarrow> cmd \<Rightarrow> scmd" where
  "strings str (EXEC as) = SExec (map str as)"
| "strings str (REDIR c f mode fd) = SRedir (strings str c) (str f) mode fd"
| "strings str (PIPE l r) = SPipe (strings str l) (strings str r)"
| "strings str (LIST l r) = SList (strings str l) (strings str r)"
| "strings str (BACK c) = SBack (strings str c)"

primrec cmd_toks :: "cmd \<Rightarrow> (ptr \<times> ptr) list" where
  "cmd_toks (EXEC as) = as"
| "cmd_toks (REDIR c f mode fd) = cmd_toks c @ [f]"
| "cmd_toks (PIPE l r) = cmd_toks l @ cmd_toks r"
| "cmd_toks (LIST l r) = cmd_toks l @ cmd_toks r"
| "cmd_toks (BACK c) = cmd_toks c"

lemma strings_cong: "(\<And>t. t \<in> set (cmd_toks c) \<Longrightarrow> f t = g t) \<Longrightarrow> strings f c = strings g c"
  by (induction c) simp_all

lemma good_cmd_toks: "good_cmd s c \<Longrightarrow> t \<in> set (cmd_toks c) \<Longrightarrow> good_tok s t"
  by (induction c) auto

lemma nulterminate_toks: "nulterminate es c buf = fold (\<lambda>t b. b[offset es (snd t) := 0]) (cmd_toks c) buf"
  by (induction c arbitrary: buf) simp_all

lemma fold_zero_nth:
  "i < length buf \<Longrightarrow> fold (\<lambda>t b. b[offset es (snd t) := 0]) ts buf ! i = (if \<exists>t\<in>set ts. offset es (snd t) = i then 0 else buf ! i)"
  by (induction ts arbitrary: buf) (auto simp: nth_list_update)

lemma fold_zero_length: "length (fold (\<lambda>t b. b[offset es (snd t) := 0]) ts buf) = length buf"
  by (induction ts arbitrary: buf) simp_all

lemma nulterminate_nth:
  "i < length buf \<Longrightarrow> nulterminate es c buf ! i = (if \<exists>t\<in>set (cmd_toks c). offset es (snd t) = i then 0 else buf ! i)"
  unfolding nulterminate_toks by (rule fold_zero_nth)

lemma nulterminate_length [simp]: "length (nulterminate es c buf) = length buf"
  unfolding nulterminate_toks by (rule fold_zero_length)

lemma cstr_prefix:
  assumes "length w < length xs" "\<forall>j<length w. xs ! j = w ! j \<and> w ! j \<noteq> 0" "xs ! length w = 0"
  shows "cstr xs = w"
proof -
  have "xs = w @ 0 # drop (Suc (length w)) xs"
    using id_take_nth_drop[OF assms(1)] assms by (metis length_take less_or_eq_imp_le min.absorb2 nth_equalityI nth_take)
  moreover have "takeWhile (\<lambda>c. c \<noteq> 0) (w @ 0 # ys) = w" for ys
    using assms(2) by (subst takeWhile_append2) (auto simp: in_set_conv_nth)
  ultimately show ?thesis unfolding cstr_def by metis
qed

text \<open>The character of the buffer at a pointer into the line.\<close>

lemma line_nth: "suffix p s \<Longrightarrow> j \<le> length p \<Longrightarrow> (s @ [0]) ! (offset (length s) p + j) = (p @ [0]) ! j"
  by (auto simp: suffix_def offset_def nth_append)

lemma star_nth: "(p @ [0]) ! 0 = star p"
  by (cases p) (simp_all add: star_def)

lemma string_at_marked:
  assumes "good_cmd s c" "t \<in> set (cmd_toks c)"
  shows "string_at (length s) (nulterminate (length s) c (s @ [0])) (fst t) = marked t"
proof -
  let ?n = "length s" and ?b = "nulterminate (length s) c (s @ [0])"
  have good: "good_tok s t" using good_cmd_toks[OF assms] .
  then obtain w where q: "fst t = w @ snd t" and w: "is_word w" and sx: "suffix (fst t) s" unfolding good_tok_def by blast
  have len: "length (fst t) \<le> ?n" using suffix_length_le[OF sx] .
  have off: "offset ?n (fst t) + length w = offset ?n (snd t)" using q len by (simp add: offset_def)
  have nth: "drop (offset ?n (fst t)) ?b ! j = ?b ! (offset ?n (fst t) + j)" if "j \<le> length w" for j
    using that off len q by (intro nth_drop) (simp add: offset_def)
  have "?b ! (offset ?n (fst t) + j) = w ! j \<and> w ! j \<noteq> 0" if j: "j < length w" for j
  proof -
    have char: "(s @ [0]) ! (offset ?n (fst t) + j) = w ! j" using line_nth[OF sx, of j] j q by (simp add: nth_append)
    have wc: "wordc (w ! j)" using w j by (simp add: is_word_def)
    have "offset ?n (snd t') \<noteq> offset ?n (fst t) + j" if "t' \<in> set (cmd_toks c)" for t'
    proof
      assume eq: "offset ?n (snd t') = offset ?n (fst t) + j"
      have g: "good_tok s t'" using good_cmd_toks[OF assms(1) that] .
      then have "suffix (snd t') s" unfolding good_tok_def by (metis suffix_def suffix_order.trans)
      then have "(s @ [0]) ! (offset ?n (snd t')) = star (snd t')" using line_nth[of "snd t'" s 0] star_nth by simp
      then show False using g wc char eq unfolding good_tok_def by simp
    qed
    moreover have "offset ?n (fst t) + j < length (s @ [0])" using off j by (simp add: offset_def)
    ultimately show ?thesis using char wc by (auto simp: nulterminate_nth wordc_def)
  qed
  moreover have "?b ! (offset ?n (fst t) + length w) = 0"
    unfolding off using assms(2) by (subst nulterminate_nth) (auto simp: offset_def)
  moreover have "length w < length (drop (offset ?n (fst t)) ?b)" using len q by (simp add: offset_def)
  ultimately have "string_at ?n ?b (fst t) = w" unfolding string_at_def using nth by (intro cstr_prefix) auto
  then show ?thesis using q by (simp add: marked_def)
qed

lemma parsecmd_strings:
  assumes "0 \<notin> set s" "parsecmd s = POk (c, buf)"
  shows "good_cmd s c" "strings (string_at (length s) buf \<circ> fst) c = strings marked c"
proof -
  obtain c' s1 where l: "parseline (parse_fuel s) s = POk (c', s1)" and c: "c' = c" "buf = nulterminate (length s) c (s @ [0])"
    using assms(2) by (cases "parseline (parse_fuel s) s") (auto simp: parsecmd_def Let_def split: if_splits)
  show "good_cmd s c" using parseline_parsed[OF assms(1)] l c by simp
  then show "strings (string_at (length s) buf \<circ> fst) c = strings marked c"
    unfolding c using string_at_marked by (intro strings_cong) simp
qed

lemma parsecmd_total: "0 \<notin> set s \<Longrightarrow> parsecmd s \<noteq> PFuel"
  using parseline_parsed[of s] by (cases "parseline (parse_fuel s) s") (auto simp: parsecmd_def Let_def split: if_splits)

end
