(* ===== verification/Shell_Print.thy ===== *)
theory Shell_Print
  imports Shell_Correct
begin

text \<open>
  Commands written out as text, with parentheses where the grammar of the shell needs them, and that the parser reads the text back.
\<close>

section \<open>Writing a command\<close>

definition paren :: "bool \<Rightarrow> u8 list \<Rightarrow> u8 list" where
  "paren b s = (if b then [40, 32] @ s @ [41, 32] else s)"

definition words :: "u8 list list \<Rightarrow> u8 list" where
  "words ws = concat (map (\<lambda>w. w @ [32]) ws)"

definition redir_text :: "int \<Rightarrow> int \<Rightarrow> u8 list" where
  "redir_text mode fd = (if fd = 0 then [60, 32] else if mode = 0x601 then [62, 32] else [62, 62, 32])"

text \<open>The levels: 0 for \<open>parseline\<close>, 1 for what may stand before \<open>&\<close>, 2 for \<open>parsepipe\<close>, 3 for \<open>parseexec\<close>.\<close>

primrec pr :: "scmd \<Rightarrow> nat \<Rightarrow> u8 list" where
  "pr (SExec ws) lvl = words ws"
| "pr (SRedir c f mode fd) lvl = pr c 3 @ redir_text mode fd @ f @ [32]"
| "pr (SPipe l r) lvl = paren (3 \<le> lvl) (pr l 3 @ [124, 32] @ pr r 2)"
| "pr (SBack c) lvl = paren (2 \<le> lvl) (pr c 1 @ [38, 32])"
| "pr (SList l r) lvl = paren (1 \<le> lvl) (pr l 1 @ [59, 32] @ pr r 0)"

primrec wf_scmd :: "scmd \<Rightarrow> bool" where
  "wf_scmd (SExec ws) \<longleftrightarrow> length ws < MAXARGS \<and> (\<forall>w\<in>set ws. is_word w)"
| "wf_scmd (SRedir c f mode fd) \<longleftrightarrow> wf_scmd c \<and> is_word f \<and> (mode, fd) \<in> redir_modes"
| "wf_scmd (SPipe l r) \<longleftrightarrow> wf_scmd l \<and> wf_scmd r"
| "wf_scmd (SBack c) \<longleftrightarrow> wf_scmd c"
| "wf_scmd (SList l r) \<longleftrightarrow> wf_scmd l \<and> wf_scmd r"

lemma words_simps [simp]: "words [] = []" "words (w # ws) = w @ 32 # words ws"
  by (simp_all add: words_def)

section \<open>Tokens at the front of a text\<close>

definition tight :: "ptr \<Rightarrow> bool" where
  "tight s \<longleftrightarrow> \<not> one_of whitespace (star s)"

lemma char_class:
  "one_of whitespace c \<longleftrightarrow> c \<in> {32, 9, 13, 10, 11}" "one_of symbols c \<longleftrightarrow> c \<in> {60, 124, 62, 38, 59, 40, 41}"
  by (auto simp: one_of_def whitespace_def symbols_def cbytes_def)

lemma skip_tight: "tight s \<Longrightarrow> skip_white s = s"
  by (cases s) (simp_all add: tight_def star_def)

lemma skip_space: "tight s \<Longrightarrow> skip_white (32 # s) = s"
  by (simp add: skip_tight char_class)

lemma tight_simps [simp]: "tight []" "tight (c # s) \<longleftrightarrow> \<not> one_of whitespace c"
  by (auto simp: tight_def star_def char_class)

lemma star_simps [simp]: "star [] = 0" "star (c # s) = c"
  by (simp_all add: star_def)

lemma word_not: "is_word w \<Longrightarrow> \<exists>c w'. w = c # w' \<and> wordc c \<and> c \<notin> {0, 32, 9, 13, 10, 11, 60, 124, 62, 38, 59, 40, 41}"
  by (cases w) (auto simp: is_word_def wordc_def char_class)

lemma skip_word_word: "(\<forall>c\<in>set w. wordc c) \<Longrightarrow> skip_word (w @ 32 # s) = 32 # s"
  by (induction w) (auto simp: wordc_def char_class)

lemma gettoken_word:
  assumes "is_word w" "tight s"
  shows "gettoken (w @ 32 # s) = (97, w @ 32 # s, 32 # s, s)"
proof -
  obtain c w' where w: "w = c # w'" "wordc c" "c \<notin> {0, 32, 9, 13, 10, 11, 60, 124, 62, 38, 59, 40, 41}" using word_not[OF assms(1)] by blast
  have "skip_word (w @ 32 # s) = 32 # s" using assms(1) by (simp add: skip_word_word is_word_def)
  then have "token_at (w @ 32 # s) = (97, 32 # s)" using w by (simp add: token_at_def cbytes_def)
  moreover have "skip_white (w @ 32 # s) = w @ 32 # s" using w by (intro skip_tight) (simp add: char_class)
  ultimately show ?thesis using skip_space[OF assms(2)] by (simp add: gettoken_def)
qed

lemma gettoken_symbol:
  assumes "c \<in> {124, 40, 41, 59, 38, 60, 62}" "tight s"
  shows "gettoken (c # 32 # s) = (c, c # 32 # s, 32 # s, s)"
proof -
  have "token_at (c # 32 # s) = (c, 32 # s)" using assms(1) by (auto simp: token_at_def cbytes_def)
  moreover have "skip_white (c # 32 # s) = c # 32 # s" using assms(1) by (intro skip_tight) (auto simp: char_class)
  ultimately show ?thesis using skip_space[OF assms(2)] by (simp add: gettoken_def)
qed

lemma gettoken_append: "tight s \<Longrightarrow> gettoken (62 # 62 # 32 # s) = (43, 62 # 62 # 32 # s, 32 # s, s)"
  using skip_space[of s] by (simp add: gettoken_def token_at_def cbytes_def char_class)

lemma after_symbol: "c \<in> {124, 40, 41, 59, 38, 60, 62} \<Longrightarrow> tight s \<Longrightarrow> after_token (c # 32 # s) = s"
  unfolding after_token_def by (simp add: gettoken_symbol)

lemma peek_tight: "tight s \<Longrightarrow> peek s toks = (s, star s \<noteq> 0 \<and> one_of (cbytes toks) (star s))"
  by (simp add: peek_def skip_tight)

lemma peek_sets:
  "one_of (cbytes ''&'') c \<longleftrightarrow> c = 38" "one_of (cbytes '';'') c \<longleftrightarrow> c = 59" "one_of (cbytes ''|'') c \<longleftrightarrow> c = 124"
  "one_of (cbytes ''('') c \<longleftrightarrow> c = 40" "one_of (cbytes '')'') c \<longleftrightarrow> c = 41" "one_of (cbytes ''<>'') c \<longleftrightarrow> c = 60 \<or> c = 62"
  "one_of (cbytes ''|)&;'') c \<longleftrightarrow> c = 124 \<or> c = 41 \<or> c = 38 \<or> c = 59" "\<not> one_of (cbytes []) c"
  by (auto simp: one_of_def cbytes_def)

lemma tight_word: "is_word w \<Longrightarrow> tight (w @ s)"
  using word_not[of w] by (auto simp: char_class)

lemma tight_words: "\<forall>w\<in>set ws. is_word w \<Longrightarrow> tight s \<Longrightarrow> tight (words ws @ s)"
  by (cases ws) (simp_all add: tight_word)

lemma tight_pr: "wf_scmd c \<Longrightarrow> tight s \<Longrightarrow> tight (pr c lvl @ s)"
proof (induction c arbitrary: lvl s)
  case (SRedir c f mode fd)
  have "tight (redir_text mode fd @ f @ 32 # s)" by (simp add: redir_text_def char_class)
  then show ?case using SRedir by simp
qed (auto simp: paren_def tight_words char_class)

section \<open>Redirections and arguments\<close>

text \<open>What may follow an \<open>exec\<close>, a pipeline, and a line.\<close>

definition after_exec :: "ptr \<Rightarrow> bool" where
  "after_exec s \<longleftrightarrow> tight s \<and> star s \<in> {0, 124, 38, 59, 41}"

definition after_pipe :: "ptr \<Rightarrow> bool" where
  "after_pipe s \<longleftrightarrow> tight s \<and> star s \<in> {0, 38, 59, 41}"

definition after_line :: "ptr \<Rightarrow> bool" where
  "after_line s \<longleftrightarrow> tight s \<and> star s \<in> {0, 41}"

lemma parseredirs_none: "tight s \<Longrightarrow> star s \<notin> {60, 62} \<Longrightarrow> parseredirs c s = POk (c, s)"
  by (subst parseredirs.simps) (simp add: peek_tight peek_sets)

lemma parseredirs_one:
  assumes "is_word f" "(mode, fd) \<in> redir_modes" "tight s"
  shows "parseredirs c (redir_text mode fd @ f @ 32 # s) = parseredirs (REDIR c (f @ 32 # s, 32 # s) mode fd) s"
proof -
  let ?t = "redir_text mode fd @ f @ 32 # s"
  have tf: "tight (f @ 32 # s)" using assms(1) by (rule tight_word)
  obtain tok q eq where g: "gettoken ?t = (tok, q, eq, f @ 32 # s)" and r: "\<forall>x. redir_node tok c x = REDIR c x mode fd"
    using assms(2) gettoken_symbol[OF _ tf, of 60] gettoken_symbol[OF _ tf, of 62] gettoken_append[OF tf]
    by (auto simp: redir_modes_def redir_text_def redir_node_def redircmd_def)
  have "peek ?t ''<>'' = (?t, True)" by (subst peek_tight) (auto simp: redir_text_def peek_sets char_class)
  then show ?thesis using g gettoken_word[OF assms(1,3)] by (subst parseredirs.simps) (simp add: r)
qed

lemma parse_args_end: "after_exec s \<Longrightarrow> parse_args c n s = POk (c, s)"
proof -
  assume s: "after_exec s"
  have "gettoken s = (0, s, s, s)" if "star s = 0" using s that by (simp add: after_exec_def gettoken_def token_at_def skip_tight)
  then show ?thesis using s by (subst parse_args.simps) (auto simp: after_exec_def peek_tight peek_sets)
qed

text \<open>What is done after a command when redirections may follow; an \<open>execcmd\<close> can get more arguments.\<close>

definition fin :: "cmd \<Rightarrow> ptr \<Rightarrow> (cmd \<times> ptr) presult" where
  "fin c s = bindP (parseredirs c s) (\<lambda>(c', s'). if is_exec c then parse_args c' (length (args_of c)) s' else POk (c', s'))"

lemma fin_end: "after_exec s \<Longrightarrow> fin c s = POk (c, s)"
  by (auto simp: fin_def after_exec_def parseredirs_none parse_args_end[unfolded after_exec_def])

lemma fin_redir:
  assumes "is_word f" "(mode, fd) \<in> redir_modes" "tight s"
  shows "fin c (redir_text mode fd @ f @ 32 # s) = fin (REDIR c (f @ 32 # s, 32 # s) mode fd) s"
  unfolding fin_def parseredirs_one[OF assms] by (simp cong: if_cong)

lemma marked_word: "marked (w @ s, s) = w"
  by (simp add: marked_def)

lemma parse_args_words:
  assumes "ws \<noteq> []" "\<forall>w\<in>set ws. is_word w" "length as + length ws < MAXARGS" "tight s"
  shows "\<exists>ts. map marked ts = ws \<and> parse_args (EXEC as) (length as) (words ws @ s) = fin (EXEC (as @ ts)) s"
  using assms
proof (induction ws arbitrary: as)
  case (Cons w ws)
  let ?s = "words ws @ s" and ?t = "(w @ 32 # words ws @ s, 32 # words ws @ s)"
  have w: "is_word w" "tight ?s" using Cons.prems by (simp_all add: tight_words)
  obtain c w' where c: "w = c # w'" "c \<notin> {0, 32, 9, 13, 10, 11, 60, 124, 62, 38, 59, 40, 41}" using word_not[OF w(1)] by blast
  have "peek (w @ 32 # ?s) ''|)&;'' = (w @ 32 # ?s, False)"
    using c by (subst peek_tight) (auto simp: peek_sets char_class)
  then have step: "parse_args (EXEC as) (length as) (words (w # ws) @ s)
      = bindP (parseredirs (EXEC (as @ [?t])) ?s) (\<lambda>(c', s'). parse_args c' (Suc (length as)) s')"
    using gettoken_word[OF w] Cons.prems(3) by (subst parse_args.simps) simp
  show ?case
  proof (cases "ws = []")
    case True
    then show ?thesis using step marked_word[of w "32 # s"] by (intro exI[of _ "[?t]"]) (simp add: fin_def)
  next
    case False
    then obtain d v where "star ?s = d" "d \<notin> {60, 62}" "ws = v # tl ws" using Cons.prems(2) word_not by (cases ws) force+
    then have "parseredirs (EXEC (as @ [?t])) ?s = POk (EXEC (as @ [?t]), ?s)" using parseredirs_none[OF w(2)] by auto
    moreover obtain ts where "map marked ts = ws" "parse_args (EXEC (as @ [?t])) (length (as @ [?t])) ?s = fin (EXEC ((as @ [?t]) @ ts)) s"
      using Cons.IH[of "as @ [?t]"] Cons.prems False by auto
    ultimately show ?thesis using step marked_word[of w "32 # ?s"] by (intro exI[of _ "?t # ts"]) simp
  qed
qed simp

section \<open>The four levels\<close>

text \<open>With enough depth, the parsing function of a level reads the text of a command and stops where the text ends.\<close>

definition reads_exec :: "scmd \<Rightarrow> bool" where
  "reads_exec c \<longleftrightarrow> (\<forall>s. tight s \<longrightarrow> star s \<in> {0, 124, 38, 59, 41, 60, 62} \<longrightarrow>
    (\<exists>c' N. strings marked c' = c \<and> (\<forall>n\<ge>N. parseexec n (pr c 3 @ s) = fin c' s)))"

definition reads_pipe :: "scmd \<Rightarrow> bool" where
  "reads_pipe c \<longleftrightarrow> (\<forall>s. after_pipe s \<longrightarrow>
    (\<exists>c' N. strings marked c' = c \<and> (\<forall>n\<ge>N. parsepipe n (pr c 2 @ s) = POk (c', s))))"

definition reads_back :: "scmd \<Rightarrow> bool" where
  "reads_back c \<longleftrightarrow> (\<forall>s. after_pipe s \<longrightarrow>
    (\<exists>c' N. strings marked c' = c \<and>
      (\<forall>n\<ge>N. bindP (parsepipe n (pr c 1 @ s)) (\<lambda>(d, s'). POk (back_loop d s')) = POk (back_loop c' s))))"

definition reads_line :: "scmd \<Rightarrow> bool" where
  "reads_line c \<longleftrightarrow> (\<forall>s. after_line s \<longrightarrow>
    (\<exists>c' N. strings marked c' = c \<and> (\<forall>n\<ge>N. parseline n (pr c 0 @ s) = POk (c', s))))"

lemma at_least: "n \<ge> Suc N \<Longrightarrow> (\<And>k. n = Suc k \<Longrightarrow> k \<ge> N \<Longrightarrow> P (Suc k)) \<Longrightarrow> P n"
  by (cases n) auto

lemma parseline_Suc:
  "parseline (Suc n) s = bindP (bindP (parsepipe n s) (\<lambda>(c, s'). POk (back_loop c s'))) (\<lambda>(cmd, s1).
    if snd (peek s1 '';'') then bindP (parseline n (after_token (fst (peek s1 '';'')))) (\<lambda>(right, s'). POk (LIST cmd right, s'))
    else POk (cmd, fst (peek s1 '';'')))"
  by (cases "parsepipe n s") (auto simp: case_prod_beta)

lemma back_loop_end: "tight s \<Longrightarrow> star s \<noteq> 38 \<Longrightarrow> back_loop c s = (c, s)"
  by (subst back_loop.simps) (simp add: peek_tight peek_sets)

lemma back_loop_amp: "tight s \<Longrightarrow> back_loop c (38 # 32 # s) = back_loop (BACK c) s"
  by (subst back_loop.simps) (simp add: peek_tight peek_sets char_class after_symbol)

lemma pipe_from_exec:
  assumes "reads_exec c" "pr c 2 = pr c 3"
  shows "reads_pipe c"
  unfolding reads_pipe_def
proof (intro allI impI)
  fix s assume s: "after_pipe s"
  then obtain c' N where c: "strings marked c' = c" "\<And>n. n \<ge> N \<Longrightarrow> parseexec n (pr c 3 @ s) = fin c' s"
    using assms(1) unfolding reads_exec_def after_pipe_def by (metis insertCI insertE)
  have "fin c' s = POk (c', s)" using s by (intro fin_end) (auto simp: after_exec_def after_pipe_def)
  then have "parsepipe (Suc n) (pr c 2 @ s) = POk (c', s)" if "n \<ge> N" for n
    using c(2)[OF that] s unfolding assms(2) by (auto simp: after_pipe_def peek_tight peek_sets)
  then show "\<exists>c' N. strings marked c' = c \<and> (\<forall>n\<ge>N. parsepipe n (pr c 2 @ s) = POk (c', s))"
    using c(1) by (intro exI[of _ c'] exI[of _ "Suc N"]) (auto elim!: at_least)
qed

lemma back_from_pipe:
  assumes "reads_pipe c" "pr c 1 = pr c 2"
  shows "reads_back c"
  using assms unfolding reads_back_def reads_pipe_def by fastforce

lemma line_from_back:
  assumes "reads_back c" "pr c 0 = pr c 1"
  shows "reads_line c"
  unfolding reads_line_def
proof (intro allI impI)
  fix s assume s: "after_line s"
  then have "after_pipe s" by (auto simp: after_line_def after_pipe_def)
  then obtain c' N where c: "strings marked c' = c"
    "\<And>n. n \<ge> N \<Longrightarrow> bindP (parsepipe n (pr c 1 @ s)) (\<lambda>(d, s'). POk (back_loop d s')) = POk (back_loop c' s)"
    using assms(1) unfolding reads_back_def by blast
  have "back_loop c' s = (c', s)" using s by (intro back_loop_end) (auto simp: after_line_def)
  then have "parseline (Suc n) (pr c 0 @ s) = POk (c', s)" if "n \<ge> N" for n
    using c(2)[OF that] s unfolding assms(2) parseline_Suc by (auto simp: after_line_def peek_tight peek_sets)
  then show "\<exists>c' N. strings marked c' = c \<and> (\<forall>n\<ge>N. parseline n (pr c 0 @ s) = POk (c', s))"
    using c(1) by (intro exI[of _ c'] exI[of _ "Suc N"]) (auto elim!: at_least)
qed

lemma exec_from_line:
  assumes "reads_line c" "wf_scmd c" "pr c 3 = paren True (pr c 0)" "\<And>c'. strings marked c' = c \<Longrightarrow> \<not> is_exec c'"
  shows "reads_exec c"
  unfolding reads_exec_def
proof (intro allI impI)
  fix s assume s: "tight s" "star s \<in> {0, 124, 38, 59, 41, 60, 62}"
  have "after_line (41 # 32 # s)" by (simp add: after_line_def char_class)
  then obtain c' N where c: "strings marked c' = c" "\<And>n. n \<ge> N \<Longrightarrow> parseline n (pr c 0 @ 41 # 32 # s) = POk (c', 41 # 32 # s)"
    using assms(1) unfolding reads_line_def by blast
  have t: "tight (pr c 0 @ 41 # 32 # s)" using assms(2) by (intro tight_pr) (simp_all add: char_class)
  have "parseexec (Suc (Suc n)) (pr c 3 @ s) = fin c' s" if "n \<ge> N" for n
    using c(2)[OF that] assms(4)[OF c(1)] t s
    by (cases "parseredirs c' s") (auto simp: assms(3) paren_def peek_tight peek_sets char_class after_symbol fin_def)
  then show "\<exists>c' N. strings marked c' = c \<and> (\<forall>n\<ge>N. parseexec n (pr c 3 @ s) = fin c' s)"
    using c(1) by (intro exI[of _ c'] exI[of _ "Suc (Suc N)"]) (auto elim!: at_least)
qed

lemma reads_SExec:
  assumes "wf_scmd (SExec ws)"
  shows "reads_exec (SExec ws)"
  unfolding reads_exec_def
proof (intro allI impI)
  fix s assume s: "tight s" "star s \<in> {0, 124, 38, 59, 41, 60, 62}"
  have ws: "\<forall>w\<in>set ws. is_word w" "length ws < MAXARGS" using assms by simp_all
  have t: "tight (words ws @ s)" using ws(1) s(1) by (rule tight_words)
  have st: "star (words ws @ s) \<noteq> 40 \<and> (ws \<noteq> [] \<longrightarrow> star (words ws @ s) \<notin> {60, 62})"
    using ws(1) s(2) word_not by (cases ws) force+
  have step: "parseexec (Suc n) (pr (SExec ws) 3 @ s) = bindP (parseredirs (EXEC []) (words ws @ s)) (\<lambda>(c, s'). parse_args c 0 s')" for n
    using st t by (simp add: peek_tight peek_sets)
  have "\<exists>ts. map marked ts = ws \<and> (\<forall>n. parseexec (Suc n) (pr (SExec ws) 3 @ s) = fin (EXEC ts) s)"
  proof (cases "ws = []")
    case True
    then show ?thesis using step by (intro exI[of _ "[]"]) (simp add: fin_def)
  next
    case False
    then have "parseredirs (EXEC []) (words ws @ s) = POk (EXEC [], words ws @ s)" using parseredirs_none[OF t] st by blast
    moreover obtain ts where "map marked ts = ws" "parse_args (EXEC []) 0 (words ws @ s) = fin (EXEC ts) s"
      using parse_args_words[OF False ws(1), of "[]" s] ws(2) s(1) by auto
    ultimately show ?thesis unfolding step by (intro exI[of _ ts]) simp
  qed
  then obtain ts where "map marked ts = ws" "\<And>n. parseexec (Suc n) (pr (SExec ws) 3 @ s) = fin (EXEC ts) s" by blast
  then show "\<exists>c' N. strings marked c' = SExec ws \<and> (\<forall>n\<ge>N. parseexec n (pr (SExec ws) 3 @ s) = fin c' s)"
    by (intro exI[of _ "EXEC ts"] exI[of _ "Suc 0"]) (auto elim!: at_least)
qed

lemma reads_SRedir:
  assumes "wf_scmd (SRedir c f mode fd)" "reads_exec c"
  shows "reads_exec (SRedir c f mode fd)"
  unfolding reads_exec_def
proof (intro allI impI)
  fix s assume s: "tight s" "star s \<in> {0, 124, 38, 59, 41, 60, 62}"
  let ?s = "redir_text mode fd @ f @ 32 # s"
  have w: "is_word f" "(mode, fd) \<in> redir_modes" using assms(1) by simp_all
  have "tight ?s" "star ?s \<in> {60, 62}" by (auto simp: redir_text_def char_class)
  then obtain c' N where c: "strings marked c' = c" "\<And>n. n \<ge> N \<Longrightarrow> parseexec n (pr c 3 @ ?s) = fin c' ?s"
    using assms(2) unfolding reads_exec_def by (metis insertCI insertE)
  then show "\<exists>c' N. strings marked c' = SRedir c f mode fd \<and> (\<forall>n\<ge>N. parseexec n (pr (SRedir c f mode fd) 3 @ s) = fin c' s)"
    using fin_redir[OF w s(1), of c'] marked_word[of f "32 # s"]
    by (intro exI[of _ "REDIR c' (f @ 32 # s, 32 # s) mode fd"] exI[of _ N]) simp
qed

lemma reads_SPipe:
  assumes "wf_scmd (SPipe l r)" "reads_exec l" "reads_pipe r"
  shows "reads_pipe (SPipe l r)"
  unfolding reads_pipe_def
proof (intro allI impI)
  fix s assume s: "after_pipe s"
  let ?s = "124 # 32 # pr r 2 @ s"
  obtain r' M where r: "strings marked r' = r" "\<And>n. n \<ge> M \<Longrightarrow> parsepipe n (pr r 2 @ s) = POk (r', s)"
    using assms(3) s unfolding reads_pipe_def by blast
  have t: "tight (pr r 2 @ s)" using assms(1) s by (intro tight_pr) (simp_all add: after_pipe_def)
  have "tight ?s" "star ?s = 124" by (simp_all add: char_class)
  then obtain l' N where l: "strings marked l' = l" "\<And>n. n \<ge> N \<Longrightarrow> parseexec n (pr l 3 @ ?s) = fin l' ?s"
    using assms(2) unfolding reads_exec_def by (metis insertCI)
  have "fin l' ?s = POk (l', ?s)" by (intro fin_end) (simp add: after_exec_def char_class)
  then have "parsepipe (Suc n) (pr (SPipe l r) 2 @ s) = POk (PIPE l' r', s)" if "n \<ge> max N M" for n
    using l(2)[of n] r(2)[of n] that t by (simp add: paren_def peek_tight peek_sets char_class after_symbol)
  then show "\<exists>c' N. strings marked c' = SPipe l r \<and> (\<forall>n\<ge>N. parsepipe n (pr (SPipe l r) 2 @ s) = POk (c', s))"
    using l(1) r(1) by (intro exI[of _ "PIPE l' r'"] exI[of _ "Suc (max N M)"]) (auto elim!: at_least)
qed

lemma reads_SBack:
  assumes "reads_back c"
  shows "reads_back (SBack c)"
  unfolding reads_back_def
proof (intro allI impI)
  fix s assume s: "after_pipe s"
  have "after_pipe (38 # 32 # s)" by (simp add: after_pipe_def char_class)
  then obtain c' N where c: "strings marked c' = c"
    "\<And>n. n \<ge> N \<Longrightarrow> bindP (parsepipe n (pr c 1 @ 38 # 32 # s)) (\<lambda>(d, s'). POk (back_loop d s')) = POk (back_loop c' (38 # 32 # s))"
    using assms unfolding reads_back_def by blast
  then show "\<exists>c' N. strings marked c' = SBack c \<and>
      (\<forall>n\<ge>N. bindP (parsepipe n (pr (SBack c) 1 @ s)) (\<lambda>(d, s'). POk (back_loop d s')) = POk (back_loop c' s))"
    using back_loop_amp[of s c'] s by (intro exI[of _ "BACK c'"] exI[of _ N]) (simp add: paren_def after_pipe_def)
qed

lemma reads_SList:
  assumes "wf_scmd (SList l r)" "reads_back l" "reads_line r"
  shows "reads_line (SList l r)"
  unfolding reads_line_def
proof (intro allI impI)
  fix s assume s: "after_line s"
  let ?s = "59 # 32 # pr r 0 @ s"
  obtain r' M where r: "strings marked r' = r" "\<And>n. n \<ge> M \<Longrightarrow> parseline n (pr r 0 @ s) = POk (r', s)"
    using assms(3) s unfolding reads_line_def by blast
  have t: "tight (pr r 0 @ s)" using assms(1) s by (intro tight_pr) (simp_all add: after_line_def)
  have "after_pipe ?s" by (simp add: after_pipe_def char_class)
  then obtain l' N where l: "strings marked l' = l"
    "\<And>n. n \<ge> N \<Longrightarrow> bindP (parsepipe n (pr l 1 @ ?s)) (\<lambda>(d, s'). POk (back_loop d s')) = POk (back_loop l' ?s)"
    using assms(2) unfolding reads_back_def by blast
  have "back_loop l' ?s = (l', ?s)" by (intro back_loop_end) (simp_all add: char_class)
  then have "parseline (Suc n) (pr (SList l r) 0 @ s) = POk (LIST l' r', s)" if "n \<ge> max N M" for n
    using l(2)[of n] r(2)[of n] that t unfolding parseline_Suc by (simp add: paren_def peek_tight peek_sets char_class after_symbol)
  then show "\<exists>c' N. strings marked c' = SList l r \<and> (\<forall>n\<ge>N. parseline n (pr (SList l r) 0 @ s) = POk (c', s))"
    using l(1) r(1) by (intro exI[of _ "LIST l' r'"] exI[of _ "Suc (max N M)"]) (auto elim!: at_least)
qed

lemma strings_shape:
  "strings marked c' = SPipe l r \<Longrightarrow> \<not> is_exec c'" "strings marked c' = SBack c \<Longrightarrow> \<not> is_exec c'" "strings marked c' = SList l r \<Longrightarrow> \<not> is_exec c'"
  by (cases c'; simp)+

lemma reads_all: "wf_scmd c \<Longrightarrow> reads_exec c \<and> reads_pipe c \<and> reads_back c \<and> reads_line c"
proof (induction c)
  case (SExec ws)
  have "reads_exec (SExec ws)" by (rule reads_SExec[OF SExec])
  then show ?case using pipe_from_exec back_from_pipe line_from_back by simp
next
  case (SRedir c f mode fd)
  then have "reads_exec (SRedir c f mode fd)" by (intro reads_SRedir) simp_all
  then show ?case using pipe_from_exec back_from_pipe line_from_back by simp
next
  case (SPipe l r)
  then have p: "reads_pipe (SPipe l r)" by (intro reads_SPipe) simp_all
  then have b: "reads_back (SPipe l r)" by (intro back_from_pipe) (simp_all add: paren_def)
  then have i: "reads_line (SPipe l r)" by (intro line_from_back) (simp_all add: paren_def)
  have "reads_exec (SPipe l r)" using i SPipe.prems strings_shape(1) by (intro exec_from_line) (simp_all add: paren_def)
  then show ?case using p b i by blast
next
  case (SBack c)
  then have b: "reads_back (SBack c)" by (intro reads_SBack) simp_all
  then have i: "reads_line (SBack c)" by (intro line_from_back) (simp_all add: paren_def)
  have e: "reads_exec (SBack c)" using i SBack.prems strings_shape(2) by (intro exec_from_line) (simp_all add: paren_def)
  then have "reads_pipe (SBack c)" by (intro pipe_from_exec) (simp_all add: paren_def)
  then show ?case using e b i by blast
next
  case (SList l r)
  then have i: "reads_line (SList l r)" by (intro reads_SList) simp_all
  have e: "reads_exec (SList l r)" using i SList.prems strings_shape(3) by (intro exec_from_line) (simp_all add: paren_def)
  then have p: "reads_pipe (SList l r)" by (intro pipe_from_exec) (simp_all add: paren_def)
  then have "reads_back (SList l r)" by (intro back_from_pipe) (simp_all add: paren_def)
  then show ?case using e p i by blast
qed

section \<open>The bound of the recursion\<close>

lemma bindP_mono:
  "bindP m k \<noteq> PFuel \<Longrightarrow> (m \<noteq> PFuel \<Longrightarrow> m' = m) \<Longrightarrow> (\<And>a. k a \<noteq> PFuel \<Longrightarrow> k' a = k a) \<Longrightarrow> bindP m' k' = bindP m k"
  by (cases m) auto

lemma parser_mono:
  "(parseline n s \<noteq> PFuel \<longrightarrow> parseline (Suc n) s = parseline n s) \<and> (parsepipe n s \<noteq> PFuel \<longrightarrow> parsepipe (Suc n) s = parsepipe n s) \<and>
   (parseexec n s \<noteq> PFuel \<longrightarrow> parseexec (Suc n) s = parseexec n s) \<and> (parseblock n s \<noteq> PFuel \<longrightarrow> parseblock (Suc n) s = parseblock n s)"
proof (induction n arbitrary: s)
  case (Suc n)
  have IH: "parseline n s \<noteq> PFuel \<Longrightarrow> parseline (Suc n) s = parseline n s" "parsepipe n s \<noteq> PFuel \<Longrightarrow> parsepipe (Suc n) s = parsepipe n s"
    "parseexec n s \<noteq> PFuel \<Longrightarrow> parseexec (Suc n) s = parseexec n s" "parseblock n s \<noteq> PFuel \<Longrightarrow> parseblock (Suc n) s = parseblock n s" for s
    using Suc.IH by auto
  have "parseline (Suc (Suc n)) s = parseline (Suc n) s" if "parseline (Suc n) s \<noteq> PFuel"
    using that unfolding parseline.simps(2)[of "Suc n" s] parseline.simps(2)[of n s]
    by (rule bindP_mono) (auto simp: IH(2) case_prod_beta simp del: parseline.simps parsepipe.simps split: if_splits intro!: bindP_mono IH(1))
  moreover have "parsepipe (Suc (Suc n)) s = parsepipe (Suc n) s" if "parsepipe (Suc n) s \<noteq> PFuel"
    using that unfolding parsepipe.simps(2)[of "Suc n" s] parsepipe.simps(2)[of n s]
    by (rule bindP_mono) (auto simp: IH(3) case_prod_beta simp del: parsepipe.simps parseexec.simps split: if_splits intro!: bindP_mono IH(2))
  moreover have "parseexec (Suc (Suc n)) s = parseexec (Suc n) s" if "parseexec (Suc n) s \<noteq> PFuel"
    using that unfolding parseexec.simps(2)[of "Suc n" s] parseexec.simps(2)[of n s] by (auto simp: IH(4) case_prod_beta simp del: parseblock.simps split: if_splits)
  moreover have "parseblock (Suc (Suc n)) s = parseblock (Suc n) s" if "parseblock (Suc n) s \<noteq> PFuel"
    using that unfolding parseblock.simps(2)[of "Suc n" s] parseblock.simps(2)[of n s]
    by (auto simp: case_prod_beta simp del: parseline.simps split: if_splits intro!: bindP_mono IH(1))
  ultimately show ?case by blast
qed simp

lemma parseline_mono: "n \<le> k \<Longrightarrow> parseline n s \<noteq> PFuel \<Longrightarrow> parseline k s = parseline n s"
  by (induction k rule: dec_induct) (use parser_mono in auto)

lemma pr_no_zero: "wf_scmd c \<Longrightarrow> 0 \<notin> set (pr c lvl)"
  by (induction c arbitrary: lvl) (auto simp: paren_def words_def redir_text_def is_word_def wordc_def)

lemma parsecmd_pr:
  assumes "wf_scmd c"
  shows "\<exists>c' buf. parsecmd (pr c 0) = POk (c', buf) \<and> strings (string_at (length (pr c 0)) buf \<circ> fst) c' = c"
proof -
  let ?s = "pr c 0"
  have z: "0 \<notin> set ?s" using pr_no_zero[OF assms] .
  have "after_line []" by (simp add: after_line_def)
  then obtain c' N where c: "strings marked c' = c" "\<forall>n\<ge>N. parseline n (?s @ []) = POk (c', [])"
    using reads_all[OF assms] unfolding reads_line_def by blast
  have "parseline (parse_fuel ?s) ?s \<noteq> PFuel" using parseline_parsed[OF z] by auto
  then have "parseline (parse_fuel ?s) ?s = POk (c', [])"
    using parseline_mono[of "parse_fuel ?s" "max N (parse_fuel ?s)" ?s] c(2) by simp
  then have p: "parsecmd ?s = POk (c', nulterminate (length ?s) c' (?s @ [0]))" by (simp add: parsecmd_def peek_tight)
  then show ?thesis using parsecmd_strings(2)[OF z p] c(1) by blast
qed

end
