(* ===== verification/User_Props.thy ===== *)
theory User_Props
  imports Grep Shell_Print
begin

text \<open>Properties of the user programs and their library.\<close>

text \<open>C26: The matcher of \<open>grep\<close> decides the declarative meaning of the pattern: with \<open>^\<close> at the front the text has to begin with a word of
  the pattern's language, with \<open>$\<close> at the end it has to end with one, and otherwise it has to contain one; \<open>.\<close> stands for any character,
  \<open>c*\<close> for any number of \<open>c\<close>, and the characters are literal elsewhere.\<close>

theorem grep_match_meaning:
  "match re tx \<longleftrightarrow>
    (\<exists>u v w. tx = u @ v @ w \<and>
      v \<in> lang (fst (items (if take 1 re = [94] then drop 1 re else re))) \<and>
      (take 1 re = [94] \<longrightarrow> u = []) \<and>
      (snd (items (if take 1 re = [94] then drop 1 re else re)) \<longrightarrow> w = []))"
proof -
  have hd: "take 1 re = [94] \<longleftrightarrow> re \<noteq> [] \<and> hd re = 94" by (cases re) auto
  show ?thesis unfolding match_correct match_spec_def here_spec_def hd by (cases re) auto
qed

theorem grep_match_meaning_witness:
  "match (cbytes ''^ab*c$'') (cbytes ''abbc'') \<and> \<not> match (cbytes ''^ab*c$'') (cbytes ''abbcd'') \<and>
   (\<exists>u v w. cbytes ''xaby'' = u @ v @ w \<and> v \<in> lang (fst (items (cbytes ''a.''))))"
proof -
  have "match (cbytes ''a.'') (cbytes ''xaby'')" by code_simp
  then have "\<exists>u v w. cbytes ''xaby'' = u @ v @ w \<and> v \<in> lang (fst (items (cbytes ''a.'')))"
    using grep_match_meaning[of "cbytes ''a.''" "cbytes ''xaby''"] by (auto simp: cbytes_def)
  moreover have "match (cbytes ''^ab*c$'') (cbytes ''abbc'')" "\<not> match (cbytes ''^ab*c$'') (cbytes ''abbcd'')" by code_simp+
  ultimately show ?thesis by blast
qed



text \<open>C37: \<open>atoi\<close> applied to a string that \<open>printf\<close> prints for \<open>%d\<close> returns, for every \<open>int\<close> that is not negative, the number printed.\<close>

theorem atoi_reads_printed:
  assumes "0 \<le> sint x" "cstr_at m s (u_printint x 10 True)"
  shows "atoi s m = Some x"
  using atoi_cstr[OF assms(2)] atoi_list_printint[OF assms(1)] by simp

theorem atoi_reads_printed_witness:
  "atoi 0x1000 (\<lambda>a. if a = 0x1000 then 52 else if a = 0x1001 then 50 else 0) = Some 42"
proof -
  have "u_printint 42 10 True = [52, 50]" by code_simp
  then have "cstr_at (\<lambda>a. if a = 0x1000 then 52 else if a = 0x1001 then 50 else 0) 0x1000 (u_printint 42 10 True)"
    by (simp add: cstr_at_simps)
  then show ?thesis by (intro atoi_reads_printed) simp_all
qed

text \<open>C15: The shell reads back every command that can be written: take any tree of commands built from programs with at most nine words, redirections,
  pipelines, background commands and sequences, write it out with parentheses where they are needed, and \<open>parsecmd\<close> returns; the
  strings found in its buffer, once \<open>nulterminate\<close> has cut it up, make the command it returns the tree one started from.\<close>

theorem shell_parse_print:
  assumes "wf_scmd c"
  shows "\<exists>cmd buf. parsecmd (pr c 0) = POk (cmd, buf) \<and> strings (string_at (length (pr c 0)) buf \<circ> fst) cmd = c"
  using parsecmd_pr[OF assms] .

theorem shell_parse_print_witness:
  "\<exists>cmd buf. parsecmd (cbytes ''( ls | wc > out & ) < in ; echo a '') = POk (cmd, buf) \<and>
    strings (string_at 34 buf \<circ> fst) cmd =
      SList (SRedir (SBack (SPipe (SExec [cbytes ''ls'']) (SRedir (SExec [cbytes ''wc'']) (cbytes ''out'') 0x601 1))) (cbytes ''in'') 0 0)
        (SExec [cbytes ''echo'', cbytes ''a''])"
proof -
  let ?c = "SList (SRedir (SBack (SPipe (SExec [cbytes ''ls'']) (SRedir (SExec [cbytes ''wc'']) (cbytes ''out'') 0x601 1))) (cbytes ''in'') 0 0)
    (SExec [cbytes ''echo'', cbytes ''a''])"
  have "wf_scmd ?c" by (simp add: is_word_def wordc_def char_class redir_modes_def cbytes_def)
  moreover have "pr ?c 0 = cbytes ''( ls | wc > out & ) < in ; echo a ''" by (simp add: paren_def redir_text_def cbytes_def)
  moreover have "length (cbytes ''( ls | wc > out & ) < in ; echo a '') = 34" by (simp add: cbytes_def)
  ultimately show ?thesis using shell_parse_print[of ?c] by simp
qed

text \<open>C27: On every line the parser of the shell ends, with an error or with a command, and stays within its arrays: a program has fewer than
  \<open>MAXARGS\<close> words, every pair of pointers marks a word inside the line that ends before a separator, the cut is made within the buffer,
  and after all the cuts the string at a pointer is still the whole word that was marked.\<close>

theorem shell_parser_bounds:
  assumes "0 \<notin> set s"
  shows "(\<exists>msg. parsecmd s = PPanic msg) \<or>
    (\<exists>c buf. parsecmd s = POk (c, buf) \<and> good_cmd s c \<and> length buf = length s + 1 \<and>
      strings (string_at (length s) buf \<circ> fst) c = strings marked c)"
proof (cases "parsecmd s")
  case (POk x)
  then obtain c buf where x: "parsecmd s = POk (c, buf)" by (cases x) auto
  then have "length buf = length s + 1"
    by (cases "parseline (parse_fuel s) s") (auto simp: parsecmd_def Let_def split: if_splits)
  then show ?thesis using x parsecmd_strings[OF assms x] by blast
qed (use parsecmd_total[OF assms] in auto)

theorem shell_parser_bounds_witness:
  "(\<exists>msg. parsecmd (cbytes ''a b c d e f g h i j'') = PPanic msg) \<and>
   (\<exists>c buf. parsecmd (cbytes ''cat<x|wc&'') = POk (c, buf) \<and> good_cmd (cbytes ''cat<x|wc&'') c)"
proof -
  have "parsecmd (cbytes ''a b c d e f g h i j'') = PPanic (cbytes ''too many args'' @ [10])" by code_simp
  moreover have "case parsecmd (cbytes ''cat<x|wc&'') of POk _ \<Rightarrow> True | _ \<Rightarrow> False" by code_simp
  moreover have "0 \<notin> set (cbytes ''cat<x|wc&'')" by (simp add: cbytes_def)
  ultimately show ?thesis using shell_parser_bounds[of "cbytes ''cat<x|wc&''"] by auto
qed

end
