(* ===== verification/User_Programs.thy ===== *)
theory User_Programs
  imports Grep
begin

text \<open>
  The small user programs: \<open>cat\<close>, \<open>wc\<close>, \<open>echo\<close>, \<open>kill\<close>, \<open>ln\<close>, \<open>mkdir\<close>, \<open>rm\<close>, \<open>ls\<close>, \<open>init\<close>, \<open>zombie\<close>, \<open>timekiller\<close>, \<open>new_command\<close>, \<open>forktest\<close>
  and \<open>stressfs\<close>. The argument of a \<open>main\<close> is the list of its words, the name of the program first. A \<open>main\<close> that returns exits
  with 0, as \<open>_main\<close> of the library makes it do.
\<close>

definition u_atoi :: "u8 list \<Rightarrow> u32" where
  "u_atoi s = atoi_list 0 s"

text \<open>A line of text in the source of a program: its characters and a newline.\<close>

definition line :: "string \<Rightarrow> u8 list" where
  "line s = cbytes s @ [10]"

section \<open>cat\<close>

partial_function (option) cat :: "int \<Rightarrow> 'w sysf \<Rightarrow> 'w \<Rightarrow> (unit uout \<times> 'w) option" where
  "cat fd sys w =
    bindU (callU (Sys_read fd 512)) (\<lambda>r.
      if fst r > 0 then
        bindU (scall (Sys_write 1 (snd r))) (\<lambda>m.
          if m \<noteq> fst r then thenU (u_fprintf 2 (line ''cat: write error'') []) (exitU 1) else cat fd)
      else whenU (fst r < 0) (thenU (u_fprintf 2 (line ''cat: read error'') []) (exitU 1))) sys w"

definition cat_main :: "u8 list list \<Rightarrow> (unit, 'w) uprog" where
  "cat_main argv =
    (if length argv \<le> 1 then thenU (cat 0) (exitU 0)
     else thenU (forU (tl argv) (\<lambda>f.
        bindU (scall (Sys_open f 0)) (\<lambda>fd.
          if fd < 0 then thenU (u_fprintf 2 (line ''cat: cannot open %s'') [UStr (Some f)]) (exitU 1)
          else thenU (cat fd) (doU (Sys_close fd))))) (exitU 0))"

section \<open>wc\<close>

text \<open>The counters \<open>l\<close>, \<open>w\<close>, \<open>c\<close> and the flag \<open>inword\<close>.\<close>

record wc_state =
  wc_l :: u32
  wc_w :: u32
  wc_c :: u32
  wc_inword :: bool

definition wc_char :: "u8 \<Rightarrow> wc_state \<Rightarrow> wc_state" where
  "wc_char b s =
    (let s = s\<lparr>wc_c := wc_c s + 1\<rparr>; s = (if b = 10 then s\<lparr>wc_l := wc_l s + 1\<rparr> else s)
     in if strchr_list [32, 13, 9, 10, 11] b \<noteq> None then s\<lparr>wc_inword := False\<rparr>
        else if \<not> wc_inword s then s\<lparr>wc_w := wc_w s + 1, wc_inword := True\<rparr> else s)"

partial_function (option) wc_loop :: "int \<Rightarrow> wc_state \<Rightarrow> 'w sysf \<Rightarrow> 'w \<Rightarrow> ((int \<times> wc_state) uout \<times> 'w) option" where
  "wc_loop fd s sys w =
    bindU (callU (Sys_read fd 512)) (\<lambda>r. if fst r > 0 then wc_loop fd (fold wc_char (snd r) s) else retU (fst r, s)) sys w"

definition wc :: "int \<Rightarrow> u8 list \<Rightarrow> (unit, 'w) uprog" where
  "wc fd name =
    bindU (wc_loop fd \<lparr>wc_l = 0, wc_w = 0, wc_c = 0, wc_inword = False\<rparr>) (\<lambda>(n, s).
      if n < 0 then thenU (u_printf (line ''wc: read error'') []) (exitU 1)
      else u_printf (line ''%d %d %d %s'') [UInt (wc_l s), UInt (wc_w s), UInt (wc_c s), UStr (Some name)])"

definition wc_main :: "u8 list list \<Rightarrow> (unit, 'w) uprog" where
  "wc_main argv =
    (if length argv \<le> 1 then thenU (wc 0 []) (exitU 0)
     else thenU (forU (tl argv) (\<lambda>f.
        bindU (scall (Sys_open f 0)) (\<lambda>fd.
          if fd < 0 then thenU (u_printf (line ''wc: cannot open %s'') [UStr (Some f)]) (exitU 1)
          else thenU (wc fd f) (doU (Sys_close fd))))) (exitU 0))"

section \<open>echo, kill, ln, mkdir, rm\<close>

fun echo_words :: "u8 list list \<Rightarrow> (unit, 'w) uprog" where
  "echo_words [] = retU ()"
| "echo_words (a # as) = thenU (doU (Sys_write 1 a)) (thenU (doU (Sys_write 1 (if as \<noteq> [] then [32] else [10]))) (echo_words as))"

definition echo_main :: "u8 list list \<Rightarrow> (unit, 'w) uprog" where
  "echo_main argv = thenU (echo_words (tl argv)) (exitU 0)"

definition kill_main :: "u8 list list \<Rightarrow> (unit, 'w) uprog" where
  "kill_main argv =
    (if length argv < 2 then thenU (u_fprintf 2 (line ''usage: kill pid...'') []) (exitU 1)
     else thenU (forU (tl argv) (\<lambda>a. doU (Sys_kill (sint (u_atoi a))))) (exitU 0))"

definition ln_main :: "u8 list list \<Rightarrow> (unit, 'w) uprog" where
  "ln_main argv =
    (if length argv \<noteq> 3 then thenU (u_fprintf 2 (line ''Usage: ln old new'') []) (exitU 1)
     else thenU (bindU (scall (Sys_link (argv ! 1) (argv ! 2))) (\<lambda>r.
        whenU (r < 0) (u_fprintf 2 (line ''link %s %s: failed'') [UStr (Some (argv ! 1)), UStr (Some (argv ! 2))]))) (exitU 0))"

text \<open>The loops of \<open>mkdir\<close> and \<open>rm\<close>, which stop at the first failure.\<close>

fun until_failure :: "(u8 list \<Rightarrow> ucall) \<Rightarrow> u8 list \<Rightarrow> u8 list list \<Rightarrow> (unit, 'w) uprog" where
  "until_failure call msg [] = retU ()"
| "until_failure call msg (a # as) =
    bindU (scall (call a)) (\<lambda>r. if r < 0 then u_fprintf 2 msg [UStr (Some a)] else until_failure call msg as)"

definition mkdir_main :: "u8 list list \<Rightarrow> (unit, 'w) uprog" where
  "mkdir_main argv =
    (if length argv < 2 then thenU (u_fprintf 2 (line ''Usage: mkdir files...'') []) (exitU 1)
     else thenU (until_failure Sys_mkdir (line ''mkdir: %s failed to create'') (tl argv)) (exitU 0))"

definition rm_main :: "u8 list list \<Rightarrow> (unit, 'w) uprog" where
  "rm_main argv =
    (if length argv < 2 then thenU (u_fprintf 2 (line ''Usage: rm files...'') []) (exitU 1)
     else thenU (until_failure Sys_unlink (line ''rm: %s failed to delete'') (tl argv)) (exitU 0))"

section \<open>ls\<close>

abbreviation LS_DIRSIZ :: nat where "LS_DIRSIZ \<equiv> 14"

text \<open>The fields of a \<open>struct stat\<close> and a \<open>struct dirent\<close> among their bytes.\<close>

definition st_ino :: "u8 list \<Rightarrow> u32" where
  "st_ino bs = of_nat (get_le 4 4 bs)"

definition st_type :: "u8 list \<Rightarrow> int" where
  "st_type bs = short_of (get_le 2 8 bs)"

definition st_size :: "u8 list \<Rightarrow> u64" where
  "st_size bs = of_nat (get_le 8 16 bs)"

definition de_name :: "u8 list \<Rightarrow> u8 list" where
  "de_name bs = cstr (take LS_DIRSIZ (drop 2 bs))"

definition fmtname :: "u8 list \<Rightarrow> u8 list" where
  "fmtname path =
    (let p = rev (takeWhile (\<lambda>c. c \<noteq> 47) (rev path))
     in if length p \<ge> LS_DIRSIZ then p else p @ replicate (LS_DIRSIZ - length p) 32)"

partial_function (option) ls_dir :: "int \<Rightarrow> u8 list \<Rightarrow> 'w sysf \<Rightarrow> 'w \<Rightarrow> (unit uout \<times> 'w) option" where
  "ls_dir fd path sys w =
    bindU (callU (Sys_read fd 16)) (\<lambda>r.
      if fst r \<noteq> 16 then retU ()
      else if get_le 2 0 (snd r) = 0 then ls_dir fd path
      else thenU
        (let buf = path @ [47] @ de_name (snd r) in
          bindU (stat buf) (\<lambda>st.
            if fst st < 0 then u_printf (line ''ls: cannot stat %s'') [UStr (Some buf)]
            else u_printf (line ''%s %d %d %d'')
              [UStr (Some (fmtname buf)), UInt (of_int (st_type (snd st))), UInt (st_ino (snd st)), ULong (st_size (snd st))]))
        (ls_dir fd path)) sys w"

definition ls :: "u8 list \<Rightarrow> (unit, 'w) uprog" where
  "ls path =
    bindU (scall (Sys_open path 0)) (\<lambda>fd.
      if fd < 0 then u_fprintf 2 (line ''ls: cannot open %s'') [UStr (Some path)]
      else bindU (callU (Sys_fstat fd)) (\<lambda>(r, st).
        if r < 0 then thenU (u_fprintf 2 (line ''ls: cannot stat %s'') [UStr (Some path)]) (doU (Sys_close fd))
        else thenU
          (if st_type st = 3 \<or> st_type st = 2 then
             u_printf (line ''%s %d %d %l'') [UStr (Some (fmtname path)), UInt (of_int (st_type st)), UInt (st_ino st), ULong (st_size st)]
           else if st_type st = 1 then
             (if length path + 1 + LS_DIRSIZ + 1 > 512 then u_printf (line ''ls: path too long'') [] else ls_dir fd path)
           else retU ())
          (doU (Sys_close fd))))"

definition ls_main :: "u8 list list \<Rightarrow> (unit, 'w) uprog" where
  "ls_main argv = (if length argv < 2 then thenU (ls (cbytes ''.'')) (exitU 0) else thenU (forU (tl argv) ls) (exitU 0))"

section \<open>init\<close>

partial_function (option) init_wait :: "int \<Rightarrow> 'w sysf \<Rightarrow> 'w \<Rightarrow> (unit uout \<times> 'w) option" where
  "init_wait pid sys w =
    bindU (scall Sys_wait) (\<lambda>wpid.
      if wpid = pid then retU ()
      else if wpid < 0 then thenU (u_printf (line ''init: wait returned an error'') []) (exitU 1)
      else init_wait pid) sys w"

partial_function (option) init_loop :: "'w sysf \<Rightarrow> 'w \<Rightarrow> (unit uout \<times> 'w) option" where
  "init_loop sys w =
    thenU (u_printf (line ''init: starting sh'') [])
    (bindU (scall Sys_fork) (\<lambda>pid.
      if pid < 0 then thenU (u_printf (line ''init: fork failed'') []) (exitU 1)
      else if pid = 0 then
        thenU (execU (cbytes ''sh'') [cbytes ''sh'']) (thenU (u_printf (line ''init: exec sh failed'') []) (exitU 1))
      else thenU (init_wait pid) init_loop)) sys w"

definition init_main :: "(unit, 'w) uprog" where
  "init_main =
    thenU (bindU (scall (Sys_open (cbytes ''console'') 2)) (\<lambda>fd.
      whenU (fd < 0) (thenU (doU (Sys_mknod (cbytes ''console'') 1 0)) (doU (Sys_open (cbytes ''console'') 2)))))
    (thenU (doU (Sys_dup 0)) (thenU (doU (Sys_dup 0)) init_loop))"

section \<open>Tests and demonstrations\<close>

definition zombie_main :: "(unit, 'w) uprog" where
  "zombie_main = thenU (bindU (scall Sys_fork) (\<lambda>pid. whenU (pid > 0) (doU (Sys_sleep 5)))) (exitU 0)"

definition new_command_main :: "(unit, 'w) uprog" where
  "new_command_main = thenU (u_printf (line ''Hello world, %d'') [UInt 120]) (exitU 0)"

definition timekiller_sum :: "nat \<Rightarrow> u32" where
  "timekiller_sum limit = fold (\<lambda>i sum. fold (\<lambda>j sum. sum + of_nat i) [0..<limit] sum) [0..<limit] 0"

definition timekiller_main :: "u8 list list \<Rightarrow> (unit, 'w) uprog" where
  "timekiller_main argv =
    (let limit1 = (if length argv = 3 then sint (u_atoi (argv ! 1)) else 1000);
         limit2 = (if length argv = 3 then sint (u_atoi (argv ! 2)) else 2000)
     in bindU (scall Sys_fork) (\<lambda>pid.
        thenU (doU Sys_fork)
        (thenU (u_printf (line ''Stop KT with PP=%d, result=%d'')
          [UInt (of_int pid), UInt (timekiller_sum (nat (if pid \<noteq> 0 then limit1 else limit2)))]) (exitU 0))))"

definition forktest_print :: "u8 list \<Rightarrow> (unit, 'w) uprog" where
  "forktest_print s = doU (Sys_write 1 s)"

text \<open>The number of children started, up to the limit.\<close>

primrec forktest_forks :: "nat \<Rightarrow> nat \<Rightarrow> (nat, 'w) uprog" where
  "forktest_forks 0 n = retU n"
| "forktest_forks (Suc k) n =
    bindU (scall Sys_fork) (\<lambda>pid. if pid < 0 then retU n else if pid = 0 then exitU 0 else forktest_forks k (Suc n))"

primrec forktest_waits :: "nat \<Rightarrow> (unit, 'w) uprog" where
  "forktest_waits 0 = retU ()"
| "forktest_waits (Suc n) =
    bindU (scall Sys_wait) (\<lambda>r. if r < 0 then thenU (forktest_print (line ''wait stopped early'')) (exitU 1) else forktest_waits n)"

definition forktest :: "(unit, 'w) uprog" where
  "forktest =
    thenU (forktest_print (line ''fork test''))
    (bindU (forktest_forks 1000 0) (\<lambda>n.
      if n = 1000 then thenU (forktest_print (line ''fork claimed to work N times!'')) (exitU 1)
      else thenU (forktest_waits n)
        (bindU (scall Sys_wait) (\<lambda>r.
          if r \<noteq> - 1 then thenU (forktest_print (line ''wait got too many'')) (exitU 1)
          else forktest_print (line ''fork test OK'')))))"

definition forktest_main :: "(unit, 'w) uprog" where
  "forktest_main = thenU forktest (exitU 0)"

text \<open>Up to four processes, each knowing how many were started before it.\<close>

primrec stressfs_forks :: "nat \<Rightarrow> nat \<Rightarrow> (nat, 'w) uprog" where
  "stressfs_forks 0 i = retU i"
| "stressfs_forks (Suc k) i = bindU (scall Sys_fork) (\<lambda>pid. if pid > 0 then retU i else stressfs_forks k (Suc i))"

definition stressfs_main :: "(unit, 'w) uprog" where
  "stressfs_main =
    thenU (u_printf (line ''stressfs starting'') [])
    (bindU (stressfs_forks 4 0) (\<lambda>i.
      let path = cbytes ''stressfs'' @ [48 + of_nat i] in
      thenU (u_printf (line ''write %d'') [UInt (of_nat i)])
      (bindU (scall (Sys_open path 0x202)) (\<lambda>fd.
       thenU (forU [0..<20] (\<lambda>_. doU (Sys_write fd (replicate 512 97))))
       (thenU (doU (Sys_close fd))
       (thenU (u_printf (line ''read'') [])
       (bindU (scall (Sys_open path 0)) (\<lambda>fd'.
        thenU (forU [0..<20] (\<lambda>_. doU (Sys_read fd' 512)))
        (thenU (doU (Sys_close fd')) (thenU (doU Sys_wait) (exitU 0)))))))))))"

section \<open>cat copies its input\<close>

lemma cat_stream:
  assumes "[] \<notin> set pieces"
  shows "cat fd stream_sys (pieces, out) = Some (Done (), ([], out @ concat pieces))"
  using assms
proof (induction "length (concat pieces)" arbitrary: pieces out rule: less_induct)
  case less
  show ?case
  proof (cases pieces)
    case Nil
    then show ?thesis by (subst cat.simps) (simp add: uprog_defs)
  next
    case (Cons c cs)
    let ?cs = "if length c \<le> 512 then cs else drop 512 c # cs"
    have c: "c \<noteq> []" "[] \<notin> set ?cs" using less.prems Cons by auto
    have "length (concat ?cs) < length (concat pieces)" using c(1) Cons by auto
    then have "cat fd stream_sys (?cs, out @ take 512 c) = Some (Done (), ([], (out @ take 512 c) @ concat ?cs))"
      using less.hyps c(2) by blast
    moreover have "take 512 c @ concat ?cs = concat pieces" unfolding Cons by (cases "length c \<le> 512") simp_all
    moreover have "cat fd stream_sys (c # cs, out) = cat fd stream_sys (?cs, out @ take 512 c)"
      using c(1) by (subst cat.simps) (simp add: callU_def scall_def bindU_def retU_def)
    ultimately show ?thesis using Cons by simp
  qed
qed

end
