(* ===== verification/Ps.thy ===== *)
theory Ps
  imports User_Programs
begin

text \<open>
  \<open>user/ps.c\<close>: the front end of the inspection calls. A read of a missing argument, of an array outside its bounds or of memory never
  written is a crash. \<open>malloc\<close> is taken to succeed.
\<close>

section \<open>Tables and helpers\<close>

definition ps_states :: "u8 list list" where
  "ps_states = map cbytes [''unused  '', ''used    '', ''sleeping'', ''runnable'', ''running '', ''zombie  '']"

definition ps_flags :: "u8 list list" where
  "ps_flags = map cbytes [''VALID'', ''READABLE'', ''WRITE'', ''EXECUTABLE'', ''USER'', ''GLOBAL'', ''ACCESSED'', ''DIRTY'']"

text \<open>The entry 0 is a null pointer.\<close>

definition sys_call :: "u8 list option list" where
  "sys_call = None # map (Some \<circ> cbytes)
    [''fork'', ''exit'', ''wait'', ''pipe'', ''read'', ''kill'', ''exec'', ''fstat'', ''chdir'', ''dup'', ''getpid'', ''sbrk'', ''sleep'', ''uptime'',
     ''open'', ''write'', ''mknod'', ''unlink'', ''link'', ''mkdir'', ''close'', ''dummy'', ''ps_list'', ''ps_info'', ''ps_pt0'', ''ps_pt1'',
     ''ps_pt2'', ''ps_copy'', ''ps_sleep_info'']"

definition index :: "'a list \<Rightarrow> int \<Rightarrow> ('a, 'w) uprog" where
  "index xs i = (if 0 \<le> i \<and> i < int (length xs) then retU (xs ! nat i) else crashU)"

fun strtoull_loop :: "u64 \<Rightarrow> u8 list \<Rightarrow> u64" where
  "strtoull_loop ans [] = ans"
| "strtoull_loop ans (c # cs) = (if 48 \<le> c \<and> c \<le> 57 then strtoull_loop (ans * 10 + ucast c - 48) cs else ans)"

definition strtoull :: "u8 list \<Rightarrow> u64" where
  "strtoull s = strtoull_loop 0 s"

text \<open>Fields among the bytes that a call stores.\<close>

definition int_at :: "nat \<Rightarrow> u8 list \<Rightarrow> u32" where
  "int_at off bs = of_nat (get_le 4 off bs)"

definition long_at :: "nat \<Rightarrow> u8 list \<Rightarrow> u64" where
  "long_at off bs = of_nat (get_le 8 off bs)"

definition pids_of :: "u8 list \<Rightarrow> u32 list" where
  "pids_of bs = map (\<lambda>i. int_at (4 * i) bs) [0..<length bs div 4]"

section \<open>Tests\<close>

definition ps_if :: "bool \<Rightarrow> (int, 'w) uprog \<Rightarrow> (int, 'w) uprog" where
  "ps_if b m = (if b then m else retU (- 1))"

text \<open>\<open>wait(&res)\<close>: the status, which stays what it was when nothing is stored.\<close>

definition wait_status :: "u32 \<Rightarrow> (u32, 'w) uprog" where
  "wait_status res = bindU (callU Sys_wait) (\<lambda>(_, bs). retU (if bs = [] then res else int_at 0 bs))"

definition print_status :: "u32 \<Rightarrow> (u32, 'w) uprog" where
  "print_status res = bindU (wait_status res) (\<lambda>res'. thenU (u_printf (line ''Exit code = %d'') [UInt res']) (retU res'))"

definition test_1 :: "(unit, 'w) uprog" where
  "test_1 = bindU (scall Sys_clone) (\<lambda>a. whenU (a = 0) (doU (Sys_sleep 200)))"

definition test_2 :: "(unit, 'w) uprog" where
  "test_2 = bindU (scall Sys_clone) (\<lambda>a. if a = 0 then exitU 0 else doU Sys_wait)"

definition test_3 :: "(unit, 'w) uprog" where
  "test_3 =
    bindU (scall Sys_clone) (\<lambda>a.
    bindU (ps_if (a = 0) (scall Sys_fork)) (\<lambda>b.
    thenU (whenU (a = 0 \<and> b \<noteq> 0) (u_printf (line ''b = %d'') [UInt (of_int b)]))
    (thenU (whenU (a = 0) (doU (Sys_sleep 300)))
    (thenU (whenU (b = 0) (doU (Sys_sleep 200))) (doU (Sys_sleep 100))))))"

definition test_4 :: "(unit, 'w) uprog" where
  "test_4 =
    bindU (scall Sys_clone) (\<lambda>a.
    bindU (if a \<noteq> 0 then bindU (print_status 0) (\<lambda>_. retU (- 1)) else scall Sys_fork) (\<lambda>b.
    thenU (whenU (a = 0 \<and> b \<noteq> 0) (u_printf (line ''b = %d'') [UInt (of_int b)]))
    (thenU (whenU (b \<noteq> 0 \<and> a = 0) (exitU 0))
    (thenU (whenU (a = 0) (doU (Sys_sleep 300)))
    (thenU (whenU (b = 0) (doU (Sys_sleep 200))) (doU (Sys_sleep 100)))))))"

text \<open>The tests 5, 6 and 7 differ in which of their calls are \<open>fork\<close> and which \<open>clone\<close>.\<close>

definition test_5_to_7 :: "ucall \<Rightarrow> ucall \<Rightarrow> (unit, 'w) uprog" where
  "test_5_to_7 second third =
    bindU (scall Sys_clone) (\<lambda>a.
    bindU (ps_if (a = 0) (scall second)) (\<lambda>b.
    bindU (ps_if (a = 0 \<and> b = 0) (scall third)) (\<lambda>c.
    thenU (whenU (a = 0 \<and> b \<noteq> 0) (bindU (print_status 0) (\<lambda>res. bindU (print_status res) (\<lambda>_. retU ()))))
    (thenU (whenU (a = 0 \<and> b = 0 \<and> c \<noteq> 0) (exitU 0))
    (thenU (whenU (a = 0) (doU (Sys_sleep 1000))) (doU (Sys_sleep 100)))))))"

definition test_5 :: "(unit, 'w) uprog" where
  "test_5 = test_5_to_7 Sys_fork Sys_fork"

definition test_6 :: "(unit, 'w) uprog" where
  "test_6 = test_5_to_7 Sys_clone Sys_fork"

definition test_7 :: "(unit, 'w) uprog" where
  "test_7 = test_5_to_7 Sys_clone Sys_clone"

definition run_test :: "int \<Rightarrow> (unit, 'w) uprog" where
  "run_test n =
    (if n = 1 then test_1 else if n = 2 then test_2 else if n = 3 then test_3 else if n = 4 then test_4 else if n = 5 then test_5
     else if n = 6 then test_6 else if n = 7 then test_7 else retU ())"

section \<open>The commands\<close>

definition ps_count :: "(unit, 'w) uprog" where
  "ps_count = bindU (scall (Sys_ps_list 64)) (\<lambda>n. u_printf (line ''%d'') [UInt (of_int n)])"

definition ps_pids :: "u8 list list \<Rightarrow> (unit, 'w) uprog" where
  "ps_pids argv =
    bindU (callU (Sys_ps_list 64)) (\<lambda>(n, bs).
      let limit = (if length argv \<ge> 3 then sint (u_atoi (argv ! 2)) else n) in
      forU [0..<nat limit] (\<lambda>i. bindU (index (pids_of bs) (int i)) (\<lambda>pid. u_printf (line ''Pid %d = %d'') [UInt (of_nat i), UInt pid])))"

definition ps_info_row :: "u32 \<Rightarrow> (unit, 'w) uprog" where
  "ps_info_row pid =
    bindU (callU (Sys_ps_info (sint pid))) (\<lambda>(r, bs).
      if r = 0 then
        bindU (index ps_states (uint (int_at 0 bs))) (\<lambda>state.
        bindU (scall Sys_uptime) (\<lambda>now.
          u_printf (cbytes ''%s'' @ [9] @ cbytes ''%d'' @ [9] @ cbytes ''%d'' @ [9] @ cbytes ''%d'' @ [9] @ cbytes ''%d'' @ [9, 9] @
              cbytes ''%d'' @ [9, 9, 9] @ cbytes ''%d'' @ [9, 9] @ cbytes ''%d'' @ [9, 9] @ line ''%s'')
            [UStr (Some state), UInt (int_at 4 bs), UInt (of_int now - int_at 44 bs), UInt (int_at 8 bs), ULong (long_at 16 bs),
             UInt (int_at 24 bs), UInt (int_at 56 bs), UInt (int_at 52 bs), UStr (Some (cstr (take 16 (drop 28 bs))))]))
      else u_printf (line ''Have some troubles'') [])"

definition ps_list_cmd :: "u8 list list \<Rightarrow> (unit, 'w) uprog" where
  "ps_list_cmd argv =
    thenU (forU [0..<length argv] (\<lambda>i.
      whenU (argv ! i = cbytes ''-t'') (bindU (index argv (int i + 1)) (\<lambda>a. run_test (sint (u_atoi a))))))
    (bindU (let is = filter (\<lambda>i. argv ! i = cbytes ''-l'') [0..<length argv]
            in if is = [] then retU 64 else bindU (index argv (int (last is) + 1)) (\<lambda>a. retU (sint (u_atoi a)))) (\<lambda>limit.
     bindU (callU (Sys_ps_list limit)) (\<lambda>(n, bs).
     thenU (u_printf (cbytes ''state'' @ [9, 9] @ cbytes ''pid'' @ [9] @ cbytes ''Uptime'' @ [9] @ cbytes ''P_pid'' @ [9] @ cbytes ''Mem size'' @ [9] @
         cbytes ''cnt open file'' @ [9, 9] @ cbytes ''Work Time'' @ [9] @ cbytes ''Switch cnt'' @ [9] @ line ''Name'') [])
     (forU [0..<nat n] (\<lambda>i. bindU (index (pids_of bs) (int i)) ps_info_row)))))"

text \<open>One entry of a page table; \<open>nv\<close> is \<open>need_valid\<close>.\<close>

definition pt_row :: "nat \<Rightarrow> u64 \<Rightarrow> nat \<Rightarrow> (unit, 'w) uprog" where
  "pt_row nv entry i =
    (let set_bits = filter (\<lambda>j. bit entry j) [nv..<8]; final = (if set_bits = [] then 0 else last set_bits) in
     whenU (bit entry 0 \<or> nv = 0)
       (thenU (u_printf (cbytes ''%d'' @ [9] @ cbytes '': '') [UInt (of_nat i)])
       (thenU (u_printf (cbytes ''%x'' @ [9]) [ULong (PTE2PA entry)])
       (thenU (forU set_bits (\<lambda>j.
          thenU (u_printf (cbytes ''%s'') [UStr (Some (ps_flags ! j))]) (whenU (j \<noteq> final) (u_printf (cbytes '','') []))))
       (u_printf [10] [])))))"

definition ps_pt_cmd :: "u8 list list \<Rightarrow> (unit, 'w) uprog" where
  "ps_pt_cmd argv =
    (let pid = sint (u_atoi (argv ! 3)); nv = (if last argv = cbytes ''-v'' then 0 else 1) in
     bindU (if argv ! 2 = cbytes ''0'' then callU (Sys_ps_pt0 pid)
            else if argv ! 2 = cbytes ''1'' then bindU (index argv 4) (\<lambda>a. callU (Sys_ps_pt1 pid (strtoull a)))
            else if argv ! 2 = cbytes ''2'' then bindU (index argv 4) (\<lambda>a. callU (Sys_ps_pt2 pid (strtoull a)))
            else retU (- 1, [])) (\<lambda>(r, bs).
       whenU (r = 0)
         (thenU (u_printf (cbytes ''#'' @ [9] @ cbytes ''PNN'' @ [9, 9] @ line ''Flags'') [])
           (forU [0..<512] (\<lambda>i. pt_row nv (long_at (8 * i) bs) i)))))"

definition hex_byte :: "u8 \<Rightarrow> (unit, 'w) uprog" where
  "hex_byte d = thenU (whenU (d < 0x10) (u_printf (cbytes ''0'') [])) (u_printf (cbytes ''%x'') [UInt (ucast d)])"

definition ps_dump_cmd :: "u8 list list \<Rightarrow> (unit, 'w) uprog" where
  "ps_dump_cmd argv =
    (let sz = sint (u_atoi (argv ! 4)) in
     bindU (callU (Sys_ps_copy (sint (u_atoi (argv ! 2))) (strtoull (argv ! 3)) sz)) (\<lambda>(code, bs).
       if code = 0 then
         thenU (forU [0..<nat sz] (\<lambda>i.
           bindU (index bs (int i)) (\<lambda>d.
           thenU (hex_byte d)
           (thenU (whenU (i mod 4 = 3) (u_printf (cbytes '' '') [])) (whenU (i mod 16 = 15) (u_printf [10] []))))))
         (whenU (sz mod 16 \<noteq> 0) (u_printf [10] []))
       else u_printf (line ''I have a error code: %d'') [UInt (of_int code)]))"

text \<open>A row of the buffer of a sleeping \<open>write\<close>: sixteen characters, then the same in hexadecimal.\<close>

definition sleep_byte :: "int \<Rightarrow> u8 list \<Rightarrow> nat \<Rightarrow> (u8, 'w) uprog" where
  "sleep_byte sz bs k = (if int k < sz then index bs (int k) else retU 0)"

definition sleep_row :: "int \<Rightarrow> u8 list \<Rightarrow> nat \<Rightarrow> (unit, 'w) uprog" where
  "sleep_row sz bs i =
    thenU (u_printf (cbytes ''['') [])
    (thenU (forU [0..<16] (\<lambda>j. bindU (sleep_byte sz bs (i * 8 + j)) (\<lambda>d.
       thenU (whenU (d < 0x10) (u_printf (cbytes ''0'') [])) (u_printf (cbytes ''%c'') [UInt (if d < 32 then 46 else ucast d)]))))
    (thenU (u_printf (cbytes '']'' @ [9]) [])
    (thenU (forU [0..<16] (\<lambda>j. bindU (sleep_byte sz bs (i * 8 + j)) (\<lambda>d.
       thenU (hex_byte d) (whenU (j mod 4 = 3) (u_printf (cbytes '' '') [])))))
    (u_printf [10] []))))"

definition ps_sleep_buffer :: "int \<Rightarrow> u8 list \<Rightarrow> (unit, 'w) uprog" where
  "ps_sleep_buffer pid info =
    (let sz = sint (int_at 24 info) in
     bindU (callU (Sys_ps_copy pid (long_at 16 info) sz)) (\<lambda>(code, bs).
       if code = 0 then
         thenU (u_printf (line ''File ptr = %p'') [ULong (long_at 8 info)])
         (thenU (u_printf (line ''Size = %d'') [UInt (int_at 24 info)])
         (forU [0..<nat ((if 0 \<le> sz then sz div 16 else - (- sz div 16)) + 1)] (sleep_row sz bs)))
       else u_printf (line ''Return code = %d'') [UInt (of_int code)]))"

definition ps_sleep_cmd :: "u8 list list \<Rightarrow> (unit, 'w) uprog" where
  "ps_sleep_cmd argv =
    (let pid = sint (u_atoi (argv ! 2)) in
     bindU (callU (Sys_ps_sleep_info pid)) (\<lambda>(_, bs).
     let info = (if bs = [] then replicate 32 0 else bs) in
     bindU (index ps_states (uint (int_at 0 info))) (\<lambda>state.
     thenU (whenU (state = cbytes ''sleeping'')
       (bindU (index sys_call (sint (int_at 4 info))) (\<lambda>call.
         case call of None \<Rightarrow> crashU | Some name \<Rightarrow> whenU (name = cbytes ''write'') (ps_sleep_buffer pid info))))
     (bindU (index sys_call (sint (int_at 4 info))) (\<lambda>call. u_printf (line ''%s, %s'') [UStr (Some state), UStr call])))))"

definition ps_main :: "u8 list list \<Rightarrow> (unit, 'w) uprog" where
  "ps_main argv =
    (let argc = length argv; is_cmd = (\<lambda>name. argv ! 1 = cbytes name) in
     thenU (whenU (argc = 2 \<and> is_cmd ''mem_dump'') (doU Sys_mem_dump))
     (thenU (whenU (argc = 2 \<and> is_cmd ''count'') ps_count)
     (thenU (whenU (argc \<ge> 2 \<and> is_cmd ''pids'') (ps_pids argv))
     (thenU (whenU (argc \<ge> 2 \<and> is_cmd ''list'') (ps_list_cmd argv))
     (thenU (whenU (argc \<ge> 4 \<and> is_cmd ''pt'') (ps_pt_cmd argv))
     (thenU (whenU (argc = 5 \<and> is_cmd ''dump'') (ps_dump_cmd argv))
     (thenU (whenU (argc = 3 \<and> is_cmd ''sleep'') (ps_sleep_cmd argv)) (exitU 0))))))))"

end
