(* ===== verification/Spec2Isabelle.thy ===== *)
theory Spec2Isabelle
  imports Memory_Props Namespace_Props VM_Props Sysfile Log_Props Pipe_Props Virtio_Props Trap_Props User_Props Ps
begin

text \<open>
  A verification library for this repository: an xv6 for RISC-V whose page allocator is a buddy allocator, whose processes live in
  pid namespaces, and which has system calls to inspect processes; and the programs that run on it.

  \<^bold>\<open>The program and its parts.\<close> A user process enters the kernel through a trap; \<open>syscall\<close> picks a handler, which reads its
  arguments out of the trapframe and the user's memory and calls into the process table (\<open>proc.c\<close>), the virtual memory
  (\<open>vm.c\<close>) or the files (\<open>file.c\<close>, \<open>pipe.c\<close>, \<open>fs.c\<close>). Virtual memory takes its pages from \<open>kalloc.c\<close>, which hands out
  single pages of the buddy allocator (\<open>buddy_alloc.c\<close>). The file system is layered: inodes, directories and paths over
  the log (\<open>log.c\<close>), the log over the buffer cache (\<open>bio.c\<close>), the cache over the disk. Spin locks protect tables, sleep
  locks protect buffers and inodes. The disk is a virtio device, driven by \<open>virtio_disk.c\<close>; interrupts arrive through \<open>plic.c\<close> and
  \<open>trap.c\<close>. The user programs (\<open>user/\<close>) are built on a small library and reach the kernel by system calls only.

  \<^bold>\<open>Style of the model.\<close> C structs are records, enums are datatypes, fixed arrays are functions or lists with the bound checked,
  machine integers on which the code does arithmetic that may wrap are words of their width. A pointer into a static array is an index
  option; the outcome of an operation is a value of \<open>'a res\<close> (\<open>Kernel_Prelude\<close>): \<open>Ret\<close>, \<open>Panic\<close> with the message of the
  source, \<open>Fault\<close> for a null or wild pointer, \<open>Hang\<close> for a loop that does not end or a wait that nobody ends. Operations on
  the whole kernel are functions of type \<open>'a kop\<close> (\<open>Kernel_State\<close>), state passing over one record with a field for every
  global of the source. Where a routine switches to another process (\<open>sleep\<close>, \<open>yield\<close>, \<open>sched\<close>, the body of \<open>scheduler\<close>,
  \<open>sys_sleep\<close>) it is cut at the switch into the part before and the part after. A user program is a function of type
  \<open>('a, 'w) uprog\<close> (\<open>User_Sys\<close>): it runs against any world \<open>'w\<close> that answers its system calls, and ends with a value, by \<open>exit\<close>,
  by \<open>exec\<close> or by an access outside its objects.

  \<^bold>\<open>Theories.\<close>
  \<^item> \<open>Kernel_Prelude\<close>: outcomes, folds over outcomes, pointers, facts on words. \<open>Kernel_Spinlock\<close> (\<open>spinlock.c\<close>): locks as
    the code has them, a step relation for CPUs that compete, \<open>push_off\<close> and \<open>pop_off\<close>. \<open>Riscv\<close> (\<open>riscv.h\<close>,
    \<open>memlayout.h\<close>): page rounding, page-table entries. \<open>Kernel_Mem\<close>, \<open>Kstring\<close> (\<open>string.c\<close>): bytes in physical memory.
  \<^item> \<open>Buddy_Alloc\<close> (\<open>buddy_alloc.c\<close>): the tree of nodes and every routine. \<open>Buddy_Index\<close>, \<open>Buddy_Free\<close>, \<open>Buddy_State\<close>,
    \<open>Buddy_Update\<close>, \<open>Buddy_Ops\<close>, \<open>Buddy_Blocks\<close>, \<open>Buddy_Init\<close>, \<open>Buddy_Dump\<close>, \<open>Buddy_Correct\<close>: the invariant ties every
    counter in the tree to the set of extents handed out, each routine keeps it, and the allocator refines a set of extents. \<open>Kalloc\<close>
    (\<open>kalloc.c\<close>): the page allocator as an interface (a locale) that the buddy allocator implements. \<open>Memory_Props\<close>: the properties.
  \<^item> \<open>Proc_Table\<close> (\<open>proc.c\<close>, \<open>proc.h\<close>): the table, namespaces, \<open>wakeup\<close>, \<open>kill\<close>, \<open>find_proc\<close>, \<open>reparent\<close>. \<open>Proc_Namespace\<close>,
    \<open>Proc_Namespace_Exit\<close>, \<open>Proc_Search\<close>: the namespaces form a forest, every live process has in each of its namespaces a pid
    that no other has, node counters count members; kept by fork, clone and exit. \<open>Namespace_Props\<close>: the properties.
  \<^item> \<open>VM\<close> (\<open>vm.c\<close>): page tables in physical memory. \<open>VM_Tree\<close>, \<open>VM_Walk\<close>, \<open>VM_Map\<close>, \<open>VM_User\<close>, \<open>VM_Grow\<close>, \<open>VM_Copy\<close>: a
    page table in memory denotes a partial map from virtual pages; each routine is a function of that map, pages of different address
    spaces are disjoint, and copies between kernel and user memory are bytewise. \<open>VM_Example\<close>: a concrete address space. \<open>VM_Props\<close>: the properties.
  \<^item> \<open>Kernel_State\<close>: the kernel's state and \<open>kop\<close>. \<open>Bio\<close> (\<open>bio.c\<close>, \<open>sleeplock.c\<close>), \<open>Log\<close> (\<open>log.c\<close>), \<open>Fs\<close>, \<open>Fs_Path\<close> (\<open>fs.c\<close>),
    \<open>Console\<close> (\<open>console.c\<close>, \<open>uart.c\<close>, \<open>printf.c\<close>), \<open>File\<close> (\<open>file.c\<close>, \<open>pipe.c\<close>), \<open>Proc_Ops\<close> (the rest of \<open>proc.c\<close>), \<open>Proc_Ps\<close> (its
    inspection calls), \<open>Syscall\<close> (\<open>syscall.c\<close>, \<open>sysproc.c\<close>), \<open>Exec\<close> (\<open>exec.c\<close>), \<open>Sysfile\<close> (\<open>sysfile.c\<close>, the dispatch): one
    definition per function of the source.
  \<^item> \<open>Sleeplock_Laws\<close>: sleep locks as an interface, interpreted for the buffers. \<open>Bio_Ring\<close>: the doubly linked list of buffers holds every
    buffer once. \<open>Bio_View\<close>: the cache refines a map from block numbers to contents (\<open>view\<close>); \<open>bread\<close>, \<open>bwrite\<close>, \<open>brelse\<close>,
    \<open>bpin\<close> and \<open>bunpin\<close> are given by their effect on it. \<open>Log_Correct\<close>: a commit returns, and the block writes it does, in
    order. \<open>Log_Crash\<close>: every state of the disk during a commit or a recovery is recovered to the files before or after. \<open>Log_Txn\<close>:
    operations between \<open>begin_op\<close> and \<open>end_op\<close>. \<open>Kernel_Example\<close>: a concrete kernel. \<open>Log_Props\<close>: the properties.
  \<^item> \<open>Ring_Buffer\<close>: bounded queues over a ring as an interface. \<open>Pipe_Correct\<close>: pipes implement it; a step relation for a writer and a
    reader, and what \<open>pipewrite\<close> and \<open>piperead\<close> do. \<open>User_Example\<close>: a concrete user page. \<open>Pipe_Props\<close>: the properties.
  \<^item> \<open>Virtio\<close> (\<open>virtio_disk.c\<close>): every routine; the device is a parameter with the promises of its specification. \<open>Virtio_Correct\<close>: the
    invariant of descriptors, rings and requests under way. \<open>Virtio_Props\<close>: the properties.
  \<^item> \<open>Hart\<close> (\<open>riscv.h\<close>): the registers. \<open>Trap\<close> (\<open>trap.c\<close>, \<open>plic.c\<close>), \<open>Boot\<close> (\<open>start.c\<close>, \<open>main.c\<close>): the handlers and the order of
    initialisation. \<open>Trap_Correct\<close>: a trap as a function of registers and trapframe. \<open>Trap_Props\<close>: a system call from end to end.
  \<^item> \<open>User_Sys\<close>, \<open>Ulib\<close> (\<open>ulib.c\<close>), \<open>User_Printf\<close> (\<open>user/printf.c\<close>): the frame of the user programs and their library. \<open>Grep\<close> (\<open>grep.c\<close>): the
    matcher against the language of a pattern, and the loop over the lines. \<open>Shell\<close> (\<open>sh.c\<close>): parser and runner; \<open>Shell_Correct\<close>: what
    the parser guarantees on every line; \<open>Shell_Print\<close>: that it reads back what is written. \<open>User_Programs\<close>: the small programs.
    \<open>Ps\<close> (\<open>ps.c\<close>). \<open>User_Props\<close>: the properties.

  \<^bold>\<open>Fuel and bounds.\<close> Loops over a fixed table recurse over the list of its indices. Loops whose end depends on the data carry fuel: the scans of
    the buffer list (\<open>NBUF + 1\<close> steps visit every buffer and the head, and \<open>Bio_Ring\<close> proves that the list is a ring of that length), walks
    up the namespaces (their depth is below eight), string scans (\<open>strlen\<close> needs as many steps as there are bytes before the first zero, and
    is proved to return exactly when there is one), walks in the buddy tree (its depth is ten), the
    loops of the disk driver (\<open>NUM + 1\<close> steps follow every chain, and the interrupt takes one more step than the used ring is ahead, which
    \<open>Virtio_Correct\<close> proves to be enough), the digits
    of a 32-bit number (32). The recursion of the shell's parser has the bound \<open>parse_fuel\<close>, four calls for a character, and is proved not to reach it. The
    loops of user programs that depend on their input are partial functions: no result means that they run for ever.

  \<^bold>\<open>Interleaving.\<close> An operation of type \<open>'a kop\<close> runs alone on its CPU: a spin lock that is taken, or a condition another process
    would have to establish, is \<open>Hang\<close>. Competition for spin locks is a step relation of its own in \<open>Kernel_Spinlock\<close>. The counting
    of \<open>push_off\<close> and \<open>pop_off\<close> is modelled there, and not repeated inside every operation. Messages printed for diagnosis inside file-system and
    process operations are left out.

  \<^bold>\<open>Not modelled.\<close> Assembly (\<open>entry.S\<close>, \<open>kernelvec.S\<close>, \<open>swtch.S\<close>, \<open>trampoline.S\<close>): registers and stacks are below the level of the C
    model. \<open>ramdisk.c\<close> is not linked into the kernel. Headers that hold prototypes and constants: the constants are abbreviations of the theories
    that use them. \<open>umalloc.c\<close>: the programs that call it take allocation to succeed. \<open>usertests.c\<close> and \<open>grind.c\<close> are sequences of system calls and
    output without a contract of their own.
\<close>

end
